(* ===== verification/Prelude.thy ===== *)
theory Prelude imports Main "HOL-Library.List_Lexorder" "HOL-Library.Char_ord" "HOL-Library.Product_Lexorder" begin

text \<open>
  Shared ground of the development: programs with errors and state, the process environment
  (clock, identifier source, database failures), the parts of Go's \<open>strings\<close> and \<open>time\<close> packages
  the sources use, JSON values, and the lemmas on frames, sorting and list tables that every
  component theory builds on.

  A Go function \<open>func f(ctx, args) (T, error)\<close> that reads or writes the database is a \<open>prog\<close>:
  a function from the state to an error or a value together with the new state. A pure Go
  validator returns \<open>err + 'a\<close>. Sequencing is \<open>bindE\<close>, the early return of the Go idiom
  \<open>if err != nil { return nil, err }\<close>.
\<close>

section \<open>Errors\<close>

text \<open>
  The sentinel errors of the modelled packages. A wrapped error (\<open>fmt.Errorf("%w: ...", E)\<close>) is
  its sentinel, which is what \<open>errors.Is\<close> sees; the message text is not modelled.
  \<open>EDb\<close> is an infrastructure failure of a database call.
\<close>

datatype err =
    EDb
  | ErrRequired
  | ErrUnknownPrecedenceTier
  | ErrUnknownMatchKind
  | ErrIncompleteService
  | ErrIncompleteRepo
  | ErrRecomputeInProgress
  | ErrInvalidRule
  | ErrServiceMemberReserved
  | ErrRuleServiceNotFound
  | ErrRuleTargetNotFound
  | ErrInvalidOverride
  | ErrOverrideCertNotFound
  | ErrOverrideServiceNotFound
  | ErrOverrideExpiryInPast
  | ErrOverrideConflict
  | ErrOwnershipRuleNotFound
  | ErrOwnershipRuleAlreadyExists
  | ErrCertificateOwnershipNotFound
  | ErrOwnershipOverrideNotFound
  | ErrOwnershipOverrideAlreadyExists
  | ErrOwnershipExplanationNotFound
  | ErrGovernanceRecomputeRunNotFound
  | ErrInvalidRetention
  | ErrBatchTooLarge
  | ErrSchedulerJobNotFound
  | ErrBadLimit
  | ErrUnknownJob
  | ErrBadRegistry
  | ErrBadRunnerConfig
  | ErrJobPage
  | ErrFindingNotFound
  | ErrInvalidListInput
  | ErrInvalidRecomputeInput
  | ErrInternalAudit
  | ErrInvalidOverrideInput
  | ErrUnsupportedFindingStatus
  | ErrPackageNotFound
  | ErrPackageRevoked
  | ErrPackageExpired
  | ErrPackageExhausted
  | ErrPackageAlreadyRevoked
  | ErrInvalidPackageInput
  | ErrInvalidEnrollmentInput
  | ErrEnrollmentRejected
  | ErrAgentAlreadyEnrolled
  | ErrAgentNotFound
  | ErrAgentAuthenticationFailed
  | ErrRandomSource
  | ErrUserNotFound
  | ErrUserDisabled
  | ErrInvalidCredentials
  | ErrSessionNotFound
  | ErrSessionExpired
  | ErrSessionRevoked
  | ErrInvalidCookie
  | ErrPasswordHash
  | ErrInvalidBatch
  | ErrPrivateKeyMaterial
  | ErrInvalidCertificate
  | ErrCertificateNotFound
  | ErrInvalidReconciliation
  | ErrMalformedPEM
  | ErrInvalidSnapshotInput
  | ErrSnapshotNotFound
  | ErrBadPolicy
  | ErrFuel

section \<open>Programs: state passing with errors\<close>

type_synonym ('s, 'a) prog = "'s \<Rightarrow> (err + 'a) \<times> 's"

named_theorems run_simps "when a program returns a value, and what it leaves"
named_theorems frame_intros "programs that leave a projection of the state alone"
named_theorems keep_intros "programs that preserve an invariant of the state"

definition retE :: "'a \<Rightarrow> ('s, 'a) prog" where
  "retE x = (\<lambda>s. (Inr x, s))"

definition throwE :: "err \<Rightarrow> ('s, 'a) prog" where
  "throwE e = (\<lambda>s. (Inl e, s))"

definition bindE :: "('s, 'a) prog \<Rightarrow> ('a \<Rightarrow> ('s, 'b) prog) \<Rightarrow> ('s, 'b) prog" where
  "bindE m k = (\<lambda>s. case m s of (Inl e, s') \<Rightarrow> (Inl e, s') | (Inr x, s') \<Rightarrow> k x s')"

definition liftE :: "err + 'a \<Rightarrow> ('s, 'a) prog" where
  "liftE r = (\<lambda>s. (r, s))"

definition getE :: "('s \<Rightarrow> 'a) \<Rightarrow> ('s, 'a) prog" where
  "getE f = (\<lambda>s. (Inr (f s), s))"

definition modE :: "('s \<Rightarrow> 's) \<Rightarrow> ('s, unit) prog" where
  "modE f = (\<lambda>s. (Inr (), f s))"

definition guardE :: "bool \<Rightarrow> err \<Rightarrow> ('s, unit) prog" where
  "guardE b e = (if b then retE () else throwE e)"

text \<open>A \<open>for\<close> loop over a slice that threads an accumulator and stops at the first error.\<close>

fun foldE :: "('a \<Rightarrow> 'b \<Rightarrow> ('s, 'b) prog) \<Rightarrow> 'a list \<Rightarrow> 'b \<Rightarrow> ('s, 'b) prog" where
  "foldE f [] b = retE b"
| "foldE f (x # xs) b = bindE (f x b) (\<lambda>b'. foldE f xs b')"

text \<open>\<open>if err == sentinel { return other }\<close>: renaming one error of a call.\<close>

definition mapErrE :: "(err \<Rightarrow> err) \<Rightarrow> ('s, 'a) prog \<Rightarrow> ('s, 'a) prog" where
  "mapErrE f m = (\<lambda>s. case m s of (Inl e, s') \<Rightarrow> (Inl (f e), s') | (Inr x, s') \<Rightarrow> (Inr x, s'))"

text \<open>Looking at the error of a call instead of returning it.\<close>

definition tryE :: "('s, 'a) prog \<Rightarrow> ('s, err + 'a) prog" where
  "tryE m = (\<lambda>s. case m s of (r, s') \<Rightarrow> (Inr r, s'))"

subsection \<open>When a program returns\<close>

lemma retE_Inr [run_simps]: "retE x s = (Inr y, s') \<longleftrightarrow> y = x \<and> s' = s"
  by (auto simp: retE_def)

lemma retE_Inl [run_simps]: "retE x s = (Inl e, s') \<longleftrightarrow> False"
  by (simp add: retE_def)

lemma throwE_Inr [run_simps]: "throwE e s = (Inr y, s') \<longleftrightarrow> False"
  by (simp add: throwE_def)

lemma throwE_Inl [run_simps]: "throwE e s = (Inl e', s') \<longleftrightarrow> e' = e \<and> s' = s"
  by (auto simp: throwE_def)

lemma bindE_Inr [run_simps]:
  "bindE m k s = (Inr y, s') \<longleftrightarrow> (\<exists>x s1. m s = (Inr x, s1) \<and> k x s1 = (Inr y, s'))"
  by (auto simp: bindE_def split: prod.splits sum.splits)

lemma bindE_Inl:
  "bindE m k s = (Inl e, s') \<longleftrightarrow>
     m s = (Inl e, s') \<or> (\<exists>x s1. m s = (Inr x, s1) \<and> k x s1 = (Inl e, s'))"
  by (auto simp: bindE_def split: prod.splits sum.splits)

lemma liftE_Inr [run_simps]: "liftE r s = (Inr y, s') \<longleftrightarrow> r = Inr y \<and> s' = s"
  by (auto simp: liftE_def)

lemma liftE_Inl [run_simps]: "liftE r s = (Inl e, s') \<longleftrightarrow> r = Inl e \<and> s' = s"
  by (auto simp: liftE_def)

lemma getE_Inr [run_simps]: "getE f s = (Inr y, s') \<longleftrightarrow> y = f s \<and> s' = s"
  by (auto simp: getE_def)

lemma getE_Inl [run_simps]: "getE f s = (Inl e, s') \<longleftrightarrow> False"
  by (simp add: getE_def)

lemma modE_Inr [run_simps]: "modE f s = (Inr y, s') \<longleftrightarrow> s' = f s"
  by (auto simp: modE_def)

lemma modE_Inl [run_simps]: "modE f s = (Inl e, s') \<longleftrightarrow> False"
  by (simp add: modE_def)

lemma guardE_Inr [run_simps]: "guardE b e s = (Inr y, s') \<longleftrightarrow> b \<and> s' = s"
  by (auto simp: guardE_def run_simps)

lemma guardE_Inl [run_simps]: "guardE b e s = (Inl e', s') \<longleftrightarrow> \<not> b \<and> e' = e \<and> s' = s"
  by (auto simp: guardE_def run_simps)

lemma mapErrE_Inr [run_simps]: "mapErrE f m s = (Inr y, s') \<longleftrightarrow> m s = (Inr y, s')"
  by (auto simp: mapErrE_def split: prod.splits sum.splits)

lemma tryE_Inr [run_simps]: "tryE m s = (Inr r, s') \<longleftrightarrow> m s = (r, s')"
  by (auto simp: tryE_def split: prod.splits)

lemma tryE_Inl [run_simps]: "tryE m s = (Inl e, s') \<longleftrightarrow> False"
  by (auto simp: tryE_def split: prod.splits)

lemma returned: "\<not> isl (fst r) \<Longrightarrow> r = (Inr (projr (fst r)), snd r)"
  by (cases r) (auto simp: isl_def split: sum.splits)

text \<open>Evaluation of a program whose first step is known.\<close>

lemma bindE_step_Inr: "m s = (Inr x, s1) \<Longrightarrow> bindE m k s = k x s1"
  by (simp add: bindE_def)

lemma bindE_step_Inl: "m s = (Inl e, s1) \<Longrightarrow> bindE m k s = (Inl e, s1)"
  by (simp add: bindE_def)

lemma bindE_assoc: "bindE (bindE m k) h = bindE m (\<lambda>x. bindE (k x) h)"
  by (auto simp: bindE_def fun_eq_iff split: prod.splits sum.splits)

lemma bindE_retE [simp]: "bindE (retE x) k = k x" "bindE m retE = m"
  by (auto simp: bindE_def retE_def fun_eq_iff split: prod.splits sum.splits)

lemma bindE_lift: "bindE (liftE (Inr x)) k = k x" "bindE (liftE (Inl e)) k = throwE e" "bindE (throwE e) k = throwE e"
  by (simp_all add: bindE_def liftE_def throwE_def fun_eq_iff)

lemma bindE_guard: "bindE (guardE b e) k s = (if b then k () s else (Inl e, s))"
  by (simp add: bindE_def guardE_def retE_def throwE_def)

lemma bindE_getE: "bindE (getE f) k s = k (f s) s"
  by (simp add: bindE_def getE_def)

lemma foldE_append: "foldE f (xs @ ys) = (\<lambda>b. bindE (foldE f xs b) (foldE f ys))"
proof (induction xs)
  case Nil
  show ?case by (rule ext) simp
next
  case (Cons x xs)
  show ?case by (rule ext) (simp add: Cons.IH bindE_assoc)
qed

text \<open>The invariant rule of the loop: what each round establishes for the elements seen so far.\<close>

lemma foldE_rule:
  assumes run: "foldE f xs b s = (Inr b', s')" and init: "I [] b s"
    and step: "\<And>seen x rest b s b' s'. xs = seen @ x # rest \<Longrightarrow> I seen b s \<Longrightarrow> f x b s = (Inr b', s') \<Longrightarrow>
      I (seen @ [x]) b' s'"
  shows "I xs b' s'"
proof -
  have "I (seen @ ys) b' s'" if "xs = seen @ ys" "I seen b s" "foldE f ys b s = (Inr b', s')" for seen ys b s
    using that
  proof (induction ys arbitrary: seen b s)
    case Nil
    then show ?case by (simp add: retE_Inr)
  next
    case (Cons y ys)
    from Cons.prems(3) obtain b1 s1 where 1: "f y b s = (Inr b1, s1)" "foldE f ys b1 s1 = (Inr b', s')"
      by (auto simp: bindE_Inr)
    have "I (seen @ [y]) b1 s1" by (rule step [OF Cons.prems(1,2) 1(1)])
    with Cons.IH [of "seen @ [y]" b1 s1] Cons.prems(1) 1(2) show ?case by simp
  qed
  from this [of "[]" xs] run init show ?thesis by simp
qed

text \<open>A loop whose rounds return, returns.\<close>

lemma foldE_total:
  assumes "I [] b s"
    and "\<And>seen x rest b s. xs = seen @ x # rest \<Longrightarrow> I seen b s \<Longrightarrow> \<exists>b' s'. f x b s = (Inr b', s') \<and> I (seen @ [x]) b' s'"
  shows "\<exists>b' s'. foldE f xs b s = (Inr b', s') \<and> I xs b' s'"
proof -
  have "\<exists>b' s'. foldE f ys b s = (Inr b', s') \<and> I (seen @ ys) b' s'" if "xs = seen @ ys" "I seen b s" for seen ys b s
    using that
  proof (induction ys arbitrary: seen b s)
    case (Cons y ys)
    from assms(2) [OF Cons.prems] obtain b1 s1 where 1: "f y b s = (Inr b1, s1)" "I (seen @ [y]) b1 s1" by blast
    from Cons.IH [of "seen @ [y]" b1 s1] Cons.prems(1) 1(2) show ?case by (simp add: bindE_step_Inr [where m = "f y b", OF 1(1)])
  qed (simp add: retE_def)
  from this [of "[]" xs] assms(1) show ?thesis by simp
qed

subsection \<open>Frames and invariants\<close>

text \<open>\<open>leaves p m\<close>: \<open>m\<close> never changes the projection \<open>p\<close> of the state, on any path.\<close>

definition leaves :: "('s \<Rightarrow> 'p) \<Rightarrow> ('s, 'a) prog \<Rightarrow> bool" where
  "leaves p m \<longleftrightarrow> (\<forall>s. p (snd (m s)) = p s)"

text \<open>\<open>fails_clean p m\<close>: when \<open>m\<close> fails, \<open>p\<close> is what it was (an atomic operation).\<close>

definition fails_clean :: "('s \<Rightarrow> 'p) \<Rightarrow> ('s, 'a) prog \<Rightarrow> bool" where
  "fails_clean p m \<longleftrightarrow> (\<forall>s e s'. m s = (Inl e, s') \<longrightarrow> p s' = p s)"

text \<open>\<open>keeps I m\<close>: the invariant \<open>I\<close> holds after \<open>m\<close> whenever it held before.\<close>

definition keeps :: "('s \<Rightarrow> bool) \<Rightarrow> ('s, 'a) prog \<Rightarrow> bool" where
  "keeps I m \<longleftrightarrow> (\<forall>s. I s \<longrightarrow> I (snd (m s)))"

text \<open>\<open>never_fails m\<close>: the program always returns a value.\<close>

definition never_fails :: "('s, 'a) prog \<Rightarrow> bool" where
  "never_fails m \<longleftrightarrow> (\<forall>s e s'. m s \<noteq> (Inl e, s'))"

lemma leavesD: "leaves p m \<Longrightarrow> m s = (r, s') \<Longrightarrow> p s' = p s"
  unfolding leaves_def by (metis snd_conv)

lemma leavesI: "(\<And>s r s'. m s = (r, s') \<Longrightarrow> p s' = p s) \<Longrightarrow> leaves p m"
  unfolding leaves_def by (metis prod.collapse)

lemma keepsD: "keeps I m \<Longrightarrow> I s \<Longrightarrow> m s = (r, s') \<Longrightarrow> I s'"
  unfolding keeps_def by (metis snd_conv)

lemma keepsI: "(\<And>s r s'. I s \<Longrightarrow> m s = (r, s') \<Longrightarrow> I s') \<Longrightarrow> keeps I m"
  unfolding keeps_def by (metis prod.collapse)

lemma fails_cleanD: "fails_clean p m \<Longrightarrow> m s = (Inl e, s') \<Longrightarrow> p s' = p s"
  unfolding fails_clean_def by blast

lemma leaves_retE [frame_intros]: "leaves p (retE x)"
  and leaves_throwE [frame_intros]: "leaves p (throwE e)"
  and leaves_liftE [frame_intros]: "leaves p (liftE r)"
  and leaves_getE [frame_intros]: "leaves p (getE f)"
  and leaves_guardE [frame_intros]: "leaves p (guardE b e)"
  by (simp_all add: leaves_def retE_def throwE_def liftE_def getE_def guardE_def)

lemma leaves_bindE [frame_intros]:
  "leaves p m \<Longrightarrow> (\<And>x. leaves p (k x)) \<Longrightarrow> leaves p (bindE m k)"
  by (auto simp: leaves_def bindE_def split_beta split: sum.splits)

lemma leaves_modE: "(\<And>s. p (f s) = p s) \<Longrightarrow> leaves p (modE f)"
  by (simp add: leaves_def modE_def)

lemma leaves_mapErrE [frame_intros]: "leaves p m \<Longrightarrow> leaves p (mapErrE f m)"
  by (auto simp: leaves_def mapErrE_def split_beta split: sum.splits)

lemma leaves_tryE [frame_intros]: "leaves p m \<Longrightarrow> leaves p (tryE m)"
  by (simp add: leaves_def tryE_def split_beta)

lemma leaves_foldE [frame_intros]: "(\<And>x b. leaves p (f x b)) \<Longrightarrow> leaves p (foldE f xs b)"
  by (induction xs arbitrary: b) (auto intro!: frame_intros)

lemma leaves_if [frame_intros]:
  "(c \<Longrightarrow> leaves p m) \<Longrightarrow> (\<not> c \<Longrightarrow> leaves p n) \<Longrightarrow> leaves p (if c then m else n)"
  by simp

lemma leaves_case_option [frame_intros]:
  "leaves p n \<Longrightarrow> (\<And>x. leaves p (f x)) \<Longrightarrow> leaves p (case v of None \<Rightarrow> n | Some x \<Rightarrow> f x)"
  by (cases v) auto

lemma leaves_case_sum [frame_intros]:
  "(\<And>x. leaves p (f x)) \<Longrightarrow> (\<And>x. leaves p (g x)) \<Longrightarrow> leaves p (case v of Inl x \<Rightarrow> f x | Inr x \<Rightarrow> g x)"
  by (cases v) auto

lemma leaves_case_prod [frame_intros]:
  "(\<And>x y. leaves p (f x y)) \<Longrightarrow> leaves p (case v of (x, y) \<Rightarrow> f x y)"
  by (cases v) auto

lemma leaves_Let [frame_intros]: "(\<And>x. leaves p (f x)) \<Longrightarrow> leaves p (let x = v in f x)"
  by simp

lemma keeps_retE [keep_intros]: "keeps I (retE x)"
  and keeps_throwE [keep_intros]: "keeps I (throwE e)"
  and keeps_liftE [keep_intros]: "keeps I (liftE r)"
  and keeps_getE [keep_intros]: "keeps I (getE f)"
  and keeps_guardE [keep_intros]: "keeps I (guardE b e)"
  by (simp_all add: keeps_def retE_def throwE_def liftE_def getE_def guardE_def)

lemma keeps_bindE [keep_intros]:
  "keeps I m \<Longrightarrow> (\<And>x. keeps I (k x)) \<Longrightarrow> keeps I (bindE m k)"
  by (auto simp: keeps_def bindE_def split_beta split: sum.splits)

lemma keeps_modE: "(\<And>s. I s \<Longrightarrow> I (f s)) \<Longrightarrow> keeps I (modE f)"
  by (simp add: keeps_def modE_def)

lemma keeps_mapErrE [keep_intros]: "keeps I m \<Longrightarrow> keeps I (mapErrE f m)"
  by (auto simp: keeps_def mapErrE_def split_beta split: sum.splits)

lemma keeps_tryE [keep_intros]: "keeps I m \<Longrightarrow> keeps I (tryE m)"
  by (simp add: keeps_def tryE_def split_beta)

lemma keeps_foldE [keep_intros]: "(\<And>x b. keeps I (f x b)) \<Longrightarrow> keeps I (foldE f xs b)"
  by (induction xs arbitrary: b) (auto intro!: keep_intros)

lemma keeps_if [keep_intros]:
  "(c \<Longrightarrow> keeps I m) \<Longrightarrow> (\<not> c \<Longrightarrow> keeps I n) \<Longrightarrow> keeps I (if c then m else n)"
  by simp

lemma keeps_case_option [keep_intros]:
  "keeps I n \<Longrightarrow> (\<And>x. keeps I (f x)) \<Longrightarrow> keeps I (case v of None \<Rightarrow> n | Some x \<Rightarrow> f x)"
  by (cases v) auto

lemma keeps_case_sum [keep_intros]:
  "(\<And>x. keeps I (f x)) \<Longrightarrow> (\<And>x. keeps I (g x)) \<Longrightarrow> keeps I (case v of Inl x \<Rightarrow> f x | Inr x \<Rightarrow> g x)"
  by (cases v) auto

lemma keeps_case_prod [keep_intros]:
  "(\<And>x y. keeps I (f x y)) \<Longrightarrow> keeps I (case v of (x, y) \<Rightarrow> f x y)"
  by (cases v) auto

lemma keeps_Let [keep_intros]: "(\<And>x. keeps I (f x)) \<Longrightarrow> keeps I (let x = v in f x)"
  by simp

text \<open>A program that leaves a projection keeps every invariant of that projection.\<close>

lemma keeps_of_leaves: "leaves p m \<Longrightarrow> keeps (\<lambda>s. P (p s)) m"
  by (simp add: keeps_def leaves_def)

lemma fails_clean_leaves: "leaves p m \<Longrightarrow> fails_clean p m"
  unfolding fails_clean_def using leavesD by metis

lemma fails_clean_bindE:
  "leaves p m \<Longrightarrow> (\<And>x. fails_clean p (k x)) \<Longrightarrow> fails_clean p (bindE m k)"
  unfolding fails_clean_def by (auto simp: bindE_Inl) (metis leavesD)+

lemma fails_clean_case_option:
  "fails_clean p n \<Longrightarrow> (\<And>x. fails_clean p (f x)) \<Longrightarrow> fails_clean p (case v of None \<Rightarrow> n | Some x \<Rightarrow> f x)"
  by (cases v) auto

lemma fails_clean_if: "fails_clean p m \<Longrightarrow> fails_clean p n \<Longrightarrow> fails_clean p (if c then m else n)"
  by simp

lemma fails_clean_throwE: "fails_clean p (throwE e)"
  by (intro fails_clean_leaves leaves_throwE)

lemma fails_clean_bindE_last:
  "fails_clean p m \<Longrightarrow> (\<And>x. never_fails (k x)) \<Longrightarrow> fails_clean p (bindE m k)"
  unfolding fails_clean_def never_fails_def by (auto simp: bindE_Inl)

lemma never_fails_retE: "never_fails (retE x)"
  by (simp add: never_fails_def retE_def)

end
