(* ===== verification/GoText.thy ===== *)
theory GoText imports Prelude begin

text \<open>
  The parts of Go's standard library the sources call: \<open>strings\<close> (TrimSpace, EqualFold, ToUpper,
  Contains, Split, IndexByte), \<open>time\<close> (instants and durations in nanoseconds, with the 64-bit
  wrap-around of duration arithmetic and the saturation of \<open>Time.Sub\<close>), and JSON values as
  \<open>encoding/json\<close> writes them.

  A Go string is a byte sequence and an Isabelle \<open>string\<close> is one too. The Unicode-aware functions
  are given on ASCII bytes: case mapping and white space of other code points are left alone.
  \<open>time.Time\<close> is an instant, a number of nanoseconds as an \<open>int\<close>: Go keeps 64-bit seconds, far
  beyond any date the program handles.
\<close>

section \<open>Strings\<close>

definition isSpace :: "char \<Rightarrow> bool" where
  "isSpace c \<longleftrightarrow> c \<in> {CHR '' '', CHR 0x09, CHR 0x0A, CHR 0x0B, CHR 0x0C, CHR 0x0D}"

definition TrimSpace :: "string \<Rightarrow> string" where
  "TrimSpace s = rev (dropWhile isSpace (rev (dropWhile isSpace s)))"

definition fold_upper :: "char \<Rightarrow> char" where
  "fold_upper c = (if 97 \<le> (of_char c :: nat) \<and> (of_char c :: nat) \<le> 122 then char_of ((of_char c :: nat) - 32) else c)"

definition ToUpper :: "string \<Rightarrow> string" where
  "ToUpper s = map fold_upper s"

definition fold_lower :: "char \<Rightarrow> char" where
  "fold_lower c = (if 65 \<le> (of_char c :: nat) \<and> (of_char c :: nat) \<le> 90 then char_of ((of_char c :: nat) + 32) else c)"

definition ToLower :: "string \<Rightarrow> string" where
  "ToLower s = map fold_lower s"

definition EqualFold :: "string \<Rightarrow> string \<Rightarrow> bool" where
  "EqualFold a b \<longleftrightarrow> ToUpper a = ToUpper b"

fun HasPrefix :: "string \<Rightarrow> string \<Rightarrow> bool" where
  "HasPrefix s [] = True"
| "HasPrefix [] (p # ps) = False"
| "HasPrefix (x # xs) (p # ps) = (x = p \<and> HasPrefix xs ps)"

fun Contains :: "string \<Rightarrow> string \<Rightarrow> bool" where
  "Contains [] p = HasPrefix [] p"
| "Contains (x # xs) p = (HasPrefix (x # xs) p \<or> Contains xs p)"

fun Split :: "char \<Rightarrow> string \<Rightarrow> string list" where
  "Split c [] = [[]]"
| "Split c (x # xs) =
     (if x = c then [] # Split c xs
      else (case Split c xs of [] \<Rightarrow> [[x]] | w # ws \<Rightarrow> (x # w) # ws))"

fun IndexByte :: "char \<Rightarrow> string \<Rightarrow> nat option" where
  "IndexByte c [] = None"
| "IndexByte c (x # xs) = (if x = c then Some 0 else map_option Suc (IndexByte c xs))"

text \<open>Decimal digits, as \<open>%d\<close> prints a natural number.\<close>

fun itoa :: "nat \<Rightarrow> string" where
  "itoa n = (if n < 10 then [char_of (48 + n)] else itoa (n div 10) @ [char_of (48 + n mod 10)])"

declare itoa.simps [simp del]

lemma Split_nonempty [simp]: "Split c s \<noteq> []"
  by (induction s) (auto split: list.splits)

lemma Split_no_sep: "c \<notin> set s \<Longrightarrow> Split c s = [s]"
  by (induction s) auto

lemma IndexByte_None: "IndexByte c s = None \<longleftrightarrow> c \<notin> set s"
  by (induction s) auto

lemma IndexByte_Some:
  "IndexByte c s = Some i \<Longrightarrow> i < length s \<and> s ! i = c \<and> c \<notin> set (take i s)"
  by (induction s arbitrary: i) (auto split: if_splits)

lemma IndexByte_split:
  "IndexByte c s = Some i \<Longrightarrow> s = take i s @ c # drop (Suc i) s"
  using IndexByte_Some [of c s i] id_take_nth_drop [of i s] by simp

lemma IndexByte_first: "c \<notin> set k \<Longrightarrow> IndexByte c (k @ c # v) = Some (length k)"
  by (induction k) auto

lemma TrimSpace_Nil [simp]: "TrimSpace [] = []"
  by (simp add: TrimSpace_def)

lemma length_TrimSpace: "length (TrimSpace s) \<le> length s"
proof -
  have "length (dropWhile isSpace (rev (dropWhile isSpace s))) \<le> length (rev (dropWhile isSpace s))"
    by (rule length_dropWhile_le)
  also have "\<dots> \<le> length s" using length_dropWhile_le by simp
  finally show ?thesis by (simp add: TrimSpace_def)
qed

lemma dropWhile_hd_rev: "xs = [] \<or> \<not> P (hd xs) \<Longrightarrow> dropWhile P xs = xs"
  by (cases xs) auto

lemma TrimSpace_idem [simp]: "TrimSpace (TrimSpace s) = TrimSpace s"
proof -
  let ?a = "dropWhile isSpace s"
  let ?b = "dropWhile isSpace (rev ?a)"
  have b: "?b = [] \<or> \<not> isSpace (hd ?b)"
    using hd_dropWhile by blast
  have "rev ?b = [] \<or> \<not> isSpace (hd (rev ?b))"
  proof (cases "?b = []")
    case False
    have a: "?a \<noteq> []" using False by (metis dropWhile.simps(1) rev.simps(1))
    have "takeWhile isSpace (rev ?a) @ ?b = rev ?a" by (rule takeWhile_dropWhile_id)
    then have "last ?b = last (rev ?a)" using False by (metis last_appendR)
    then have "hd (rev ?b) = hd ?a" using False a by (simp only: hd_rev last_rev)
    then show ?thesis using hd_dropWhile [OF a] by simp
  qed simp
  then have "dropWhile isSpace (rev ?b) = rev ?b" by (rule dropWhile_hd_rev)
  moreover have "dropWhile isSpace ?b = ?b" using b by (rule dropWhile_hd_rev)
  ultimately show ?thesis by (simp add: TrimSpace_def)
qed

lemma EqualFold_refl [simp]: "EqualFold s s"
  by (simp add: EqualFold_def)

lemma EqualFold_length: "EqualFold a b \<Longrightarrow> length a = length b"
  unfolding EqualFold_def ToUpper_def by (rule map_eq_imp_length_eq)

section \<open>Time\<close>

type_synonym Time = int
type_synonym Duration = int

definition nanosecond :: Duration where "nanosecond = 1"
definition second :: Duration where "second = 1000000000"
definition hour :: Duration where "hour = 3600 * second"

definition minDuration :: Duration where "minDuration = - (2 ^ 63)"
definition maxDuration :: Duration where "maxDuration = 2 ^ 63 - 1"

text \<open>\<open>t.Sub(u)\<close> saturates at the bounds of \<open>int64\<close>.\<close>

definition TimeSub :: "Time \<Rightarrow> Time \<Rightarrow> Duration" where
  "TimeSub t u = max minDuration (min maxDuration (t - u))"

text \<open>\<open>int64\<close> arithmetic wraps around.\<close>

definition wrap64 :: "int \<Rightarrow> int" where
  "wrap64 n = (n + 2 ^ 63) mod 2 ^ 64 - 2 ^ 63"

definition in64 :: "int \<Rightarrow> bool" where
  "in64 n \<longleftrightarrow> - (2 ^ 63) \<le> n \<and> n < 2 ^ 63"

lemma wrap64_in64 [simp]: "in64 (wrap64 n)"
  by (simp add: in64_def wrap64_def)

lemma wrap64_id: "in64 n \<Longrightarrow> wrap64 n = n"
  by (simp add: in64_def wrap64_def)

lemma TimeSub_le_iff: "minDuration \<le> d \<Longrightarrow> d < maxDuration \<Longrightarrow> TimeSub t u \<le> d \<longleftrightarrow> t - u \<le> d"
  unfolding TimeSub_def by linarith

section \<open>JSON\<close>

datatype json =
    JNull
  | JBool bool
  | JNum int
  | JStr string
  | JArr "json list"
  | JObj "(string \<times> json) list"

text \<open>\<open>omitempty\<close> on a string field and on an array field.\<close>

definition omit_str :: "string \<Rightarrow> string \<Rightarrow> (string \<times> json) list" where
  "omit_str k v = (if v = [] then [] else [(k, JStr v)])"

definition omit_arr :: "string \<Rightarrow> json list \<Rightarrow> (string \<times> json) list" where
  "omit_arr k v = (if v = [] then [] else [(k, JArr v)])"

definition json_field :: "string \<Rightarrow> json \<Rightarrow> json option" where
  "json_field k j = (case j of JObj kvs \<Rightarrow> map_of kvs k | _ \<Rightarrow> None)"

end
