(* ===== verification/GoTime.thy ===== *)
theory GoTime imports GoText begin

text \<open>
  Printing and parsing of times: \<open>time.Duration.String\<close>, the proleptic Gregorian calendar, and
  \<open>Time.Format\<close>/\<open>time.Parse\<close> with the layout \<open>time.RFC3339Nano\<close>, as the Go standard library documents
  them. \<open>Format\<close> is applied to UTC times only, as the code does. The theorem at the end is the round
  trip the list cursors rely on.
\<close>

section \<open>Numbers\<close>

function decimal :: "int \<Rightarrow> string" where
  "decimal n = (if n < 10 then [char_of (48 + n)] else decimal (n div 10) @ [char_of (48 + n mod 10)])"
  by pat_completeness auto

termination
  by (relation "measure nat") auto

definition pad_left :: "nat \<Rightarrow> string \<Rightarrow> string" where
  "pad_left n s = replicate (n - length s) (CHR ''0'') @ s"

text \<open>\<open>fixed w v\<close> are the last \<open>w\<close> decimal digits of \<open>v\<close>; \<open>appendInt\<close> prints at least that many.\<close>

fun fixed :: "nat \<Rightarrow> int \<Rightarrow> string" where
  "fixed 0 v = []"
| "fixed (Suc w) v = fixed w (v div 10) @ [char_of (48 + v mod 10)]"

definition appendInt :: "int \<Rightarrow> nat \<Rightarrow> string" where
  "appendInt v w = (if v < 0 then ''-'' else []) @ (if \<bar>v\<bar> < 10 ^ w then fixed w \<bar>v\<bar> else decimal \<bar>v\<bar>)"

definition trim_zeros :: "string \<Rightarrow> string" where
  "trim_zeros s = rev (dropWhile (\<lambda>c. c = CHR ''0'') (rev s))"

section \<open>Durations\<close>

definition fmtFrac :: "int \<Rightarrow> nat \<Rightarrow> string" where
  "fmtFrac v prec =
     (let digits = trim_zeros (pad_left prec (decimal (v mod 10 ^ prec))) in
      decimal (v div 10 ^ prec) @ (if digits = [] then [] else CHR ''.'' # digits))"

definition DurationString :: "Duration \<Rightarrow> string" where
  "DurationString d =
     (let u = \<bar>d\<bar>; mins = u div 1000000000 div 60 in
      if u = 0 then ''0s''
      else (if d < 0 then ''-'' else []) @
       (if u < 1000 then decimal u @ ''ns''
        else if u < 1000000 then fmtFrac u 3 @ [CHR 0xC2, CHR 0xB5] @ ''s''
        else if u < 1000000000 then fmtFrac u 6 @ ''ms''
        else (if mins = 0 then [] else (if mins < 60 then [] else decimal (mins div 60) @ ''h'') @ decimal (mins mod 60) @ ''m'') @
          fmtFrac (u mod 60000000000) 9 @ ''s''))"

text \<open>\<open>Truncate\<close> rounds towards zero; a duration divided by one is an integer rounded the same way.\<close>

definition DurationTruncate :: "Duration \<Rightarrow> Duration \<Rightarrow> Duration" where
  "DurationTruncate d m = (if m \<le> 0 then d else if d < 0 then - (\<bar>d\<bar> - \<bar>d\<bar> mod m) else d - d mod m)"

definition DurationDiv :: "Duration \<Rightarrow> Duration \<Rightarrow> int" where
  "DurationDiv d m = (if d < 0 then - (\<bar>d\<bar> div m) else d div m)"

section \<open>The calendar\<close>

definition is_leap :: "int \<Rightarrow> bool" where
  "is_leap y \<longleftrightarrow> y mod 4 = 0 \<and> (y mod 100 \<noteq> 0 \<or> y mod 400 = 0)"

definition month_lengths :: "int \<Rightarrow> int list" where
  "month_lengths y = [31, if is_leap y then 29 else 28, 31, 30, 31, 30, 31, 31, 30, 31, 30, 31]"

text \<open>Days are counted from 1 January of year 1.\<close>

definition days_before_year :: "int \<Rightarrow> int" where
  "days_before_year y = 365 * (y - 1) + (y - 1) div 4 - (y - 1) div 100 + (y - 1) div 400"

definition days_before_month :: "int \<Rightarrow> int \<Rightarrow> int" where
  "days_before_month y m = sum_list (take (nat (m - 1)) (month_lengths y))"

definition days_of_date :: "int \<Rightarrow> int \<Rightarrow> int \<Rightarrow> int" where
  "days_of_date y m d = days_before_year y + days_before_month y m + d - 1"

definition year_of_days :: "int \<Rightarrow> int" where
  "year_of_days d =
     (let y = d * 400 div 146097 + 1 in
      if d < days_before_year y then y - 1 else if days_before_year (y + 1) \<le> d then y + 1 else y)"

fun month_day :: "int list \<Rightarrow> int \<Rightarrow> int \<Rightarrow> int \<times> int" where
  "month_day [] m r = (m, r + 1)"
| "month_day (l # ls) m r = (if r < l then (m, r + 1) else month_day ls (m + 1) (r - l))"

definition date_of_days :: "int \<Rightarrow> int \<times> int \<times> int" where
  "date_of_days d = (let y = year_of_days d in (y, month_day (month_lengths y) 1 (d - days_before_year y)))"

text \<open>The Unix epoch is day 719162.\<close>

definition unix_days :: int where "unix_days = 719162"

definition nanos_per_day :: int where "nanos_per_day = 86400000000000"

section \<open>RFC 3339\<close>

definition format_fraction :: "int \<Rightarrow> string" where
  "format_fraction ns = (if ns = 0 then [] else CHR ''.'' # trim_zeros (fixed 9 ns))"

definition FormatRFC3339Nano :: "Time \<Rightarrow> string" where
  "FormatRFC3339Nano t =
     (case date_of_days (t div nanos_per_day + unix_days) of (y, m, d) \<Rightarrow>
      let r = t mod nanos_per_day; secs = r div 1000000000 in
      appendInt y 4 @ ''-'' @ fixed 2 m @ ''-'' @ fixed 2 d @ ''T'' @ fixed 2 (secs div 3600) @ '':'' @
      fixed 2 (secs div 60 mod 60) @ '':'' @ fixed 2 (secs mod 60) @ format_fraction (r mod 1000000000) @ ''Z'')"

text \<open>The layout without a fraction drops it.\<close>

definition FormatRFC3339 :: "Time \<Rightarrow> string" where
  "FormatRFC3339 t = FormatRFC3339Nano (t div second * second)"

definition is_digit :: "char \<Rightarrow> bool" where
  "is_digit c \<longleftrightarrow> 48 \<le> (of_char c :: int) \<and> (of_char c :: int) \<le> 57"

definition digit_value :: "char \<Rightarrow> int" where
  "digit_value c = of_char c - 48"

definition digits_value :: "string \<Rightarrow> int" where
  "digits_value s = foldl (\<lambda>v c. 10 * v + digit_value c) 0 s"

fun expect :: "char \<Rightarrow> string \<Rightarrow> string option" where
  "expect c [] = None"
| "expect c (x # xs) = (if x = c then Some xs else None)"

text \<open>\<open>getnum\<close>: two digits, or one where the field is not fixed.\<close>

fun getnum :: "bool \<Rightarrow> string \<Rightarrow> (int \<times> string) option" where
  "getnum fix [] = None"
| "getnum fix [a] = (if is_digit a \<and> \<not> fix then Some (digit_value a, []) else None)"
| "getnum fix (a # b # r) =
     (if \<not> is_digit a then None
      else if is_digit b then Some (10 * digit_value a + digit_value b, r)
      else if fix then None else Some (digit_value a, b # r))"

definition in_range :: "int \<Rightarrow> int \<Rightarrow> (int \<times> string) option \<Rightarrow> (int \<times> string) option" where
  "in_range lo hi p = Option.bind p (\<lambda>(v, r). if lo \<le> v \<and> v \<le> hi then Some (v, r) else None)"

definition parse_year :: "string \<Rightarrow> (int \<times> string) option" where
  "parse_year s = (if length s < 4 \<or> \<not> list_all is_digit (take 4 s) then None else Some (digits_value (take 4 s), drop 4 s))"

text \<open>An optional fraction, after a point or a comma, of which nine digits count.\<close>

definition parse_fraction :: "string \<Rightarrow> int \<times> string" where
  "parse_fraction s =
     (case s of
        c # x # _ \<Rightarrow>
          if c \<in> {CHR ''.'', CHR '',''} \<and> is_digit x then
            (let ds = takeWhile is_digit (tl s); k = min 9 (length ds) in
             (digits_value (take 9 ds) * 10 ^ (9 - k), dropWhile is_digit (tl s)))
          else (0, s)
      | _ \<Rightarrow> (0, s))"

text \<open>\<open>Z\<close> or a signed offset; the result is in seconds east of UTC.\<close>

definition parse_zone :: "string \<Rightarrow> (int \<times> string) option" where
  "parse_zone s =
     (case s of
        [] \<Rightarrow> None
      | c # r \<Rightarrow>
        if c = CHR ''Z'' then Some (0, r)
        else if c \<notin> {CHR ''+'', CHR ''-''} then None
        else Option.bind (in_range 0 24 (getnum True r)) (\<lambda>(h, r1).
             Option.bind (expect (CHR '':'') r1) (\<lambda>r2.
             Option.bind (in_range 0 60 (getnum True r2)) (\<lambda>(mi, r3).
             Some ((if c = CHR ''+'' then 1 else -1) * (h * 60 + mi) * 60, r3)))))"

definition days_in_month :: "int \<Rightarrow> int \<Rightarrow> int" where
  "days_in_month y m = month_lengths y ! nat (m - 1)"

definition ParseRFC3339Nano :: "string \<Rightarrow> Time option" where
  "ParseRFC3339Nano s =
     Option.bind (parse_year s) (\<lambda>(y, s1).
     Option.bind (expect (CHR ''-'') s1) (\<lambda>s2.
     Option.bind (in_range 1 12 (getnum True s2)) (\<lambda>(m, s3).
     Option.bind (expect (CHR ''-'') s3) (\<lambda>s4.
     Option.bind (getnum True s4) (\<lambda>(d, s5).
     Option.bind (expect (CHR ''T'') s5) (\<lambda>s6.
     Option.bind (in_range 0 23 (getnum False s6)) (\<lambda>(h, s7).
     Option.bind (expect (CHR '':'') s7) (\<lambda>s8.
     Option.bind (in_range 0 59 (getnum True s8)) (\<lambda>(mi, s9).
     Option.bind (expect (CHR '':'') s9) (\<lambda>s10.
     Option.bind (in_range 0 59 (getnum True s10)) (\<lambda>(sec, s11).
     case parse_fraction s11 of (ns, s12) \<Rightarrow>
     Option.bind (parse_zone s12) (\<lambda>(off, s13).
     if s13 \<noteq> [] \<or> d < 1 \<or> days_in_month y m < d then None
     else Some ((((days_of_date y m d - unix_days) * 86400 + h * 3600 + mi * 60 + sec - off) * 1000000000) + ns)))))))))))))"

section \<open>The calendar is exact\<close>

lemma div_step: "0 < k \<Longrightarrow> y div k - (y - 1) div k = (if y mod k = 0 then 1 else 0)" for y k :: int
proof -
  assume k: "0 < k"
  show ?thesis
  proof (cases "y mod k = 0")
    case True
    then obtain q where "y = k * q" using k by auto
    moreover have "(k * q - 1) div k = q - 1"
      using k by (intro int_div_pos_eq [where r = "k - 1"]) (auto simp: algebra_simps)
    ultimately show ?thesis using k by simp
  next
    case False
    have "(y - 1) div k = y div k"
    proof (rule int_div_pos_eq)
      show "y - 1 = k * (y div k) + (y mod k - 1)" by (simp add: algebra_simps)
      show "0 \<le> y mod k - 1" using False k pos_mod_sign [of k y] by linarith
      show "y mod k - 1 < k" using k pos_mod_bound [of k y] by linarith
    qed
    with False show ?thesis by simp
  qed
qed

lemma mod_multiples: "y mod 400 = 0 \<Longrightarrow> y mod 100 = 0" "y mod 100 = 0 \<Longrightarrow> y mod 4 = 0" for y :: int
proof -
  have d: "(100 :: int) dvd 400" "(4 :: int) dvd 100" by simp_all
  show "y mod 100 = 0" if "y mod 400 = 0"
    using dvd_trans [OF d(1) mod_0_imp_dvd [OF that]] by (rule dvd_imp_mod_0)
  show "y mod 4 = 0" if "y mod 100 = 0"
    using dvd_trans [OF d(2) mod_0_imp_dvd [OF that]] by (rule dvd_imp_mod_0)
qed

lemma year_length: "days_before_year (y + 1) - days_before_year y = (if is_leap y then 366 else 365)"
proof -
  have "days_before_year (y + 1) - days_before_year y =
      365 + (y div 4 - (y - 1) div 4) - (y div 100 - (y - 1) div 100) + (y div 400 - (y - 1) div 400)"
    by (simp add: days_before_year_def)
  also have "\<dots> = (if is_leap y then 366 else 365)"
  proof -
    have st: "y div 4 - (y - 1) div 4 = (if y mod 4 = 0 then 1 else 0)" "y div 100 - (y - 1) div 100 = (if y mod 100 = 0 then 1 else 0)"
      "y div 400 - (y - 1) div 400 = (if y mod 400 = 0 then 1 else 0)" by (rule div_step; simp)+
    show ?thesis unfolding st is_leap_def using mod_multiples [of y]
      by (cases "y mod 400 = 0"; cases "y mod 100 = 0"; cases "y mod 4 = 0") simp_all
  qed
  finally show ?thesis .
qed

lemma days_before_year_bounds:
  "400 * days_before_year (x + 1) \<le> 146097 * x + 396" "146097 * x - 699 \<le> 400 * days_before_year (x + 1)"
proof -
  define a b c where "a = x div 4" and "b = x div 100" and "c = x div 400"
  have "4 * a \<le> x" "x \<le> 4 * a + 3" "100 * b \<le> x" "x \<le> 100 * b + 99" "400 * c \<le> x" "x \<le> 400 * c + 399"
    unfolding a_def b_def c_def by simp_all
  moreover have "days_before_year (x + 1) = 365 * x + a - b + c"
    by (simp add: days_before_year_def a_def b_def c_def)
  ultimately show "400 * days_before_year (x + 1) \<le> 146097 * x + 396" "146097 * x - 699 \<le> 400 * days_before_year (x + 1)"
    by linarith+
qed

lemma year_of_days_correct: "days_before_year (year_of_days d) \<le> d \<and> d < days_before_year (year_of_days d + 1)"
proof -
  define q where "q = d * 400 div 146097"
  have q: "146097 * q \<le> 400 * d" "400 * d < 146097 * q + 146097"
    unfolding q_def by simp_all
  have lo: "days_before_year q \<le> d" using days_before_year_bounds(1) [of "q - 1"] q by simp
  have hi: "d < days_before_year (q + 3)" using days_before_year_bounds(2) [of "q + 2"] q by (simp add: add.assoc)
  have "year_of_days d = (if d < days_before_year (q + 1) then q else if days_before_year (q + 2) \<le> d then q + 2 else q + 1)"
    by (simp add: year_of_days_def Let_def q_def add.assoc)
  then show ?thesis using lo hi by (simp add: add.assoc not_less not_le)
qed

lemma month_day_correct:
  "0 \<le> r \<Longrightarrow> r < sum_list ls \<Longrightarrow> \<exists>i < length ls. month_day ls m r = (m + int i, r - sum_list (take i ls) + 1) \<and>
     sum_list (take i ls) \<le> r \<and> r < sum_list (take i ls) + ls ! i"
proof (induction ls m r rule: month_day.induct)
  case (2 l ls m r)
  show ?case
  proof (cases "r < l")
    case True
    with 2 show ?thesis by (intro exI [of _ 0]) simp
  next
    case False
    with 2 obtain i where "i < length ls" "month_day ls (m + 1) (r - l) = (m + 1 + int i, r - l - sum_list (take i ls) + 1)"
      "sum_list (take i ls) \<le> r - l" "r - l < sum_list (take i ls) + ls ! i" by auto
    with False show ?thesis by (intro exI [of _ "Suc i"]) simp
  qed
qed simp

lemma month_lengths_facts: "length (month_lengths y) = 12" "sum_list (month_lengths y) = (if is_leap y then 366 else 365)"
  by (simp_all add: month_lengths_def)

text \<open>Every day has a date, with the month and the day in range, and the date gives the day back.\<close>

lemma date_of_days_correct:
  assumes "date_of_days x = (y, m, d)"
  shows "y = year_of_days x" "1 \<le> m" "m \<le> 12" "1 \<le> d" "d \<le> days_in_month y m" "days_of_date y m d = x"
proof -
  have y: "y = year_of_days x" using assms by (simp add: date_of_days_def Let_def)
  have md: "month_day (month_lengths y) 1 (x - days_before_year y) = (m, d)"
    using assms unfolding y by (simp add: date_of_days_def Let_def)
  show "y = year_of_days x" by (rule y)
  have "0 \<le> x - days_before_year y" "x - days_before_year y < sum_list (month_lengths y)"
    using year_of_days_correct [of x] year_length [of y] y by (simp_all add: month_lengths_facts split: if_splits)
  from month_day_correct [OF this, of 1] md obtain i where i: "i < 12" "m = 1 + int i"
    "d = x - days_before_year y - sum_list (take i (month_lengths y)) + 1"
    "sum_list (take i (month_lengths y)) \<le> x - days_before_year y"
    "x - days_before_year y < sum_list (take i (month_lengths y)) + month_lengths y ! i"
    by (auto simp: month_lengths_facts)
  then show "1 \<le> m" "m \<le> 12" "1 \<le> d" "d \<le> days_in_month y m" "days_of_date y m d = x"
    by (simp_all add: days_in_month_def days_of_date_def days_before_month_def)
qed

section \<open>Reading back what was printed\<close>

lemma of_char_digit: "0 \<le> k \<Longrightarrow> k < 10 \<Longrightarrow> (of_char (char_of (48 + k)) :: int) = 48 + k" for k :: int
  by (simp add: of_char_of take_bit_eq_mod)

lemma digit_facts: "is_digit (char_of (48 + v mod 10))" "digit_value (char_of (48 + v mod 10)) = v mod 10" for v :: int
  using of_char_digit [of "v mod 10"] by (simp_all add: is_digit_def digit_value_def)

lemma digit_small: "0 \<le> k \<Longrightarrow> k < 10 \<Longrightarrow> is_digit (char_of (48 + k)) \<and> digit_value (char_of (48 + k)) = k" for k :: int
  using digit_facts [of k] by simp

lemma fixed_length [simp]: "length (fixed w v) = w"
  by (induction w arbitrary: v) simp_all

lemma fixed_digits: "list_all is_digit (fixed w v)"
  by (induction w arbitrary: v) (simp_all add: digit_facts)

lemma digits_value_snoc: "digits_value (s @ [c]) = 10 * digits_value s + digit_value c"
  by (simp add: digits_value_def)

lemma digits_value_fixed: "0 \<le> v \<Longrightarrow> v < 10 ^ w \<Longrightarrow> digits_value (fixed w v) = v"
proof (induction w arbitrary: v)
  case 0
  then show ?case by (simp add: digits_value_def)
next
  case (Suc w)
  then have "digits_value (fixed w (v div 10)) = v div 10" by (intro Suc.IH) simp_all
  then show ?case by (simp add: digits_value_snoc digit_facts)
qed

lemma fixed2: "fixed 2 v = [char_of (48 + v div 10 mod 10), char_of (48 + v mod 10)]"
  by (simp add: numeral_2_eq_2)

lemma getnum_fixed: "0 \<le> v \<Longrightarrow> v < 100 \<Longrightarrow> getnum fix (fixed 2 v @ r) = Some (v, r)"
  by (simp add: fixed2 digit_facts digit_small)

lemma in_range_Some: "lo \<le> v \<Longrightarrow> v \<le> hi \<Longrightarrow> in_range lo hi (Some (v, r)) = Some (v, r)"
  by (simp add: in_range_def)

lemma parse_year_fixed: "0 \<le> y \<Longrightarrow> y < 10000 \<Longrightarrow> parse_year (fixed 4 y @ r) = Some (y, r)"
  using digits_value_fixed [of y 4] by (simp add: parse_year_def fixed_digits)

lemma trim_zeros_split: "\<exists>k. s = trim_zeros s @ replicate k (CHR ''0'')"
proof (induction s rule: rev_induct)
  case (snoc c s)
  show ?case
  proof (cases "c = CHR ''0''")
    case True
    with snoc obtain k where "s = trim_zeros s @ replicate k c" by auto
    moreover have "trim_zeros (s @ [c]) = trim_zeros s" using True by (simp add: trim_zeros_def)
    moreover have "(trim_zeros s @ replicate k c) @ [c] = trim_zeros s @ replicate (Suc k) c"
      by (simp add: replicate_append_same)
    ultimately have "s @ [c] = trim_zeros (s @ [c]) @ replicate (Suc k) c" by metis
    with True show ?thesis by blast
  next
    case False
    then show ?thesis by (intro exI [of _ 0]) (simp add: trim_zeros_def)
  qed
qed (simp add: trim_zeros_def)

lemma digits_value_zeros: "digits_value (s @ replicate k (CHR ''0'')) = digits_value s * 10 ^ k"
proof (induction k)
  case (Suc k)
  have "digits_value (s @ replicate (Suc k) (CHR ''0'')) = digits_value ((s @ replicate k (CHR ''0'')) @ [CHR ''0''])"
    by (simp add: replicate_append_same)
  also have "\<dots> = digits_value s * 10 ^ Suc k"
    unfolding digits_value_snoc Suc.IH by (simp add: digit_value_def of_char_def)
  finally show ?case .
qed simp

lemma takeWhile_digits: "list_all is_digit s \<Longrightarrow> \<not> is_digit c \<Longrightarrow> takeWhile is_digit (s @ c # r) = s \<and> dropWhile is_digit (s @ c # r) = c # r"
  by (induction s) simp_all

lemma parse_fraction_format:
  assumes "0 \<le> ns" "ns < 1000000000"
  shows "parse_fraction (format_fraction ns @ ''Z'') = (ns, ''Z'')"
proof (cases "ns = 0")
  case True
  then show ?thesis by (simp add: format_fraction_def parse_fraction_def)
next
  case False
  let ?t = "trim_zeros (fixed 9 ns)"
  let ?k = "9 - length ?t"
  obtain k where k: "fixed 9 ns = ?t @ replicate k (CHR ''0'')" using trim_zeros_split by blast
  have "9 = length ?t + k" using arg_cong [OF k, of length] by simp
  then have split: "fixed 9 ns = ?t @ replicate ?k (CHR ''0'')" using k by (metis add_diff_cancel_left')
  have val: "digits_value ?t * 10 ^ ?k = ns"
    using digits_value_fixed [of ns 9] assms split digits_value_zeros [of ?t ?k] by simp
  have dig: "list_all is_digit ?t" using fixed_digits [of 9 ns] split by (metis list_all_append)
  have len: "length ?t \<le> 9" using arg_cong [OF split, of length] by simp
  have ne: "?t \<noteq> []" using val False by (auto simp: digits_value_def)
  then obtain x xs where x: "?t = x # xs" by (cases ?t) auto
  have z: "\<not> is_digit (CHR ''Z'')" by (simp add: is_digit_def of_char_def)
  have tw: "takeWhile is_digit (?t @ ''Z'') = ?t" "dropWhile is_digit (?t @ ''Z'') = ''Z''"
    using takeWhile_digits [OF dig z, of "[]"] by simp_all
  have "parse_fraction (CHR ''.'' # ?t @ ''Z'') = (digits_value ?t * 10 ^ ?k, ''Z'')"
    using tw dig len x by (simp add: parse_fraction_def Let_def)
  with val False show ?thesis by (simp add: format_fraction_def)
qed

definition printed_time :: "int \<Rightarrow> int \<Rightarrow> int \<Rightarrow> int \<Rightarrow> int \<Rightarrow> int \<Rightarrow> int \<Rightarrow> string" where
  "printed_time y m d h mi sec ns = fixed 4 y @ ''-'' @ fixed 2 m @ ''-'' @ fixed 2 d @ ''T'' @ fixed 2 h @ '':'' @
     fixed 2 mi @ '':'' @ fixed 2 sec @ format_fraction ns @ ''Z''"

lemma parse_printed:
  assumes "0 \<le> y" "y < 10000" "1 \<le> m" "m \<le> 12" "1 \<le> d" "d \<le> days_in_month y m" "d < 100"
    "0 \<le> h" "h \<le> 23" "0 \<le> mi" "mi \<le> 59" "0 \<le> sec" "sec \<le> 59" "0 \<le> ns" "ns < 1000000000"
  shows "ParseRFC3339Nano (printed_time y m d h mi sec ns) =
    Some (((days_of_date y m d - unix_days) * 86400 + h * 3600 + mi * 60 + sec) * 1000000000 + ns)"
proof -
  have zone: "parse_zone ''Z'' = Some (0, [])" by (simp add: parse_zone_def)
  have "d \<ge> 0" using assms by simp
  then show ?thesis
    using assms
    by (simp add: ParseRFC3339Nano_def printed_time_def parse_year_fixed getnum_fixed in_range_Some zone parse_fraction_format not_less)
qed

lemma days_in_month_le: "1 \<le> m \<Longrightarrow> m \<le> 12 \<Longrightarrow> days_in_month y m \<le> 31"
proof -
  assume "1 \<le> m" "m \<le> 12"
  then have "nat (m - 1) < length (month_lengths y)" by (simp add: month_lengths_facts)
  then have "days_in_month y m \<in> set (month_lengths y)" unfolding days_in_month_def by (rule nth_mem)
  then show ?thesis by (auto simp: month_lengths_def split: if_splits)
qed

lemma clock_split: "secs div 3600 * 3600 + secs div 60 mod 60 * 60 + secs mod 60 = secs" for secs :: int
proof -
  have "secs div 3600 = secs div 60 div 60" using zdiv_zmult2_eq [of 60 secs 60] by simp
  moreover have "60 * (secs div 60 div 60) + secs div 60 mod 60 = secs div 60" "60 * (secs div 60) + secs mod 60 = secs"
    by (rule mult_div_mod_eq)+
  ultimately show ?thesis by linarith
qed

text \<open>Times in UTC between year 0 and year 9999 print and parse back exactly, to the nanosecond.\<close>

definition printable_time :: "Time \<Rightarrow> bool" where
  "printable_time t \<longleftrightarrow> 0 \<le> year_of_days (t div nanos_per_day + unix_days) \<and> year_of_days (t div nanos_per_day + unix_days) < 10000"

lemma Parse_Format:
  assumes "printable_time t" shows "ParseRFC3339Nano (FormatRFC3339Nano t) = Some t"
proof -
  define day r where "day = t div nanos_per_day + unix_days" and "r = t mod nanos_per_day"
  define secs ns where "secs = r div 1000000000" and "ns = r mod 1000000000"
  obtain y m d where dt: "date_of_days day = (y, m, d)" by (cases "date_of_days day") auto
  note c = date_of_days_correct [OF dt]
  have y: "0 \<le> y" "y < 10000" using assms c(1) by (simp_all add: printable_time_def day_def)
  have d: "d < 100" using days_in_month_le [OF c(2,3), of y] c(5) by simp
  have r: "0 \<le> r" "r < 86400000000000" by (simp_all add: r_def nanos_per_day_def)
  then have secs: "0 \<le> secs" "secs < 86400" by (simp_all add: secs_def)
  then have h: "0 \<le> secs div 3600" "secs div 3600 \<le> 23" by simp_all
  have "FormatRFC3339Nano t = printed_time y m d (secs div 3600) (secs div 60 mod 60) (secs mod 60) ns"
    using dt y by (simp add: FormatRFC3339Nano_def day_def [symmetric] r_def [symmetric] secs_def [symmetric] ns_def [symmetric]
        printed_time_def Let_def appendInt_def)
  then have "ParseRFC3339Nano (FormatRFC3339Nano t) =
      Some (((day - unix_days) * 86400 + secs div 3600 * 3600 + secs div 60 mod 60 * 60 + secs mod 60) * 1000000000 + ns)"
    using parse_printed [OF y c(2-5) d h, of "secs div 60 mod 60" "secs mod 60" ns] by (simp add: c(6) ns_def)
  also have "\<dots> = Some (((day - unix_days) * 86400 + secs) * 1000000000 + ns)"
    using clock_split [of secs] by (simp add: add.assoc)
  also have "\<dots> = Some ((day - unix_days) * nanos_per_day + r)"
    by (simp add: nanos_per_day_def secs_def ns_def algebra_simps)
  also have "\<dots> = Some t" by (simp add: day_def r_def)
  finally show ?thesis .
qed

end
