(* ===== verification/Env.thy ===== *)
theory Env imports GoTime begin

text \<open>
  The process around the services: the clock (\<open>internal/clock\<close>), the identifier source
  (\<open>internal/ids\<close>), the transaction helpers of \<open>internal/storage/postgres/postgres.go\<close> and the
  audit recorder (\<open>internal/audit\<close>, \<open>storage/postgres/audit_repository.go\<close>).

  What lies outside the sources is the \<open>env\<close> parameter: which database calls fail, what the wall
  clock and the random generator return, what \<open>now()\<close> is in the database, and Go's \<open>regexp\<close>
  engine. Every theorem that does not constrain \<open>env\<close> holds for each of them.
  A transaction runs alone: the sources serialize conflicting transactions with advisory locks,
  and \<open>w_locks\<close> lists the locks that other sessions hold when a non-blocking attempt is made.
\<close>

section \<open>The environment and the world\<close>

record env =
  fault :: "nat \<Rightarrow> bool"          \<comment> \<open>does the n-th database call fail\<close>
  clockAt :: "nat \<Rightarrow> Time"        \<comment> \<open>the n-th reading of the process clock\<close>
  idAt :: "nat \<Rightarrow> string"         \<comment> \<open>the n-th random identifier\<close>
  dbNow :: "nat \<Rightarrow> Time"          \<comment> \<open>\<open>now()\<close> in the n-th transaction\<close>
  regexpCompile :: "string \<Rightarrow> string + (string \<Rightarrow> bool)" \<comment> \<open>\<open>regexp.Compile\<close>\<close>

definition no_faults :: "env \<Rightarrow> bool" where
  "no_faults env \<longleftrightarrow> (\<forall>n. \<not> fault env n)"

record Event =
  ev_ID :: string
  ev_OrganizationID :: string
  ev_OccurredAt :: Time
  ev_Actor :: string
  ev_ActorType :: string
  ev_Action :: string
  ev_TargetType :: string
  ev_TargetID :: string
  ev_RequestID :: string
  ev_Metadata :: json

record world =
  w_calls :: nat
  w_ids :: nat
  w_clock :: nat
  w_tx :: nat
  w_locks :: "(string \<times> string) list"
  audit_events :: "Event list"

text \<open>What a transaction can change: everything but the counters of the process.\<close>

definition db_of :: "'z world_scheme \<Rightarrow> 'z world_scheme" where
  "db_of s = s\<lparr>w_calls := 0, w_ids := 0, w_clock := 0, w_tx := 0\<rparr>"

section \<open>Clock, identifiers, database calls\<close>

definition Now :: "env \<Rightarrow> ('z world_scheme, Time) prog" where
  "Now env = (\<lambda>s. (Inr (clockAt env (w_clock s)), s\<lparr>w_clock := Suc (w_clock s)\<rparr>))"

definition NewID :: "env \<Rightarrow> ('z world_scheme, string) prog" where
  "NewID env = (\<lambda>s. (Inr (idAt env (w_ids s)), s\<lparr>w_ids := Suc (w_ids s)\<rparr>))"

definition dbcall :: "env \<Rightarrow> ('z world_scheme, unit) prog" where
  "dbcall env = (\<lambda>s. (if fault env (w_calls s) then Inl EDb else Inr (),
                      s\<lparr>w_calls := Suc (w_calls s)\<rparr>))"

definition db_query :: "env \<Rightarrow> ('z world_scheme \<Rightarrow> 'a) \<Rightarrow> ('z world_scheme, 'a) prog" where
  "db_query env f = bindE (dbcall env) (\<lambda>_. getE f)"

definition db_update :: "env \<Rightarrow> ('z world_scheme \<Rightarrow> 'z world_scheme) \<Rightarrow> ('z world_scheme, unit) prog" where
  "db_update env f = bindE (dbcall env) (\<lambda>_. modE f)"

definition sql_now :: "env \<Rightarrow> 'z world_scheme \<Rightarrow> Time" where
  "sql_now env s = dbNow env (w_tx s)"

definition stepped :: "'z world_scheme \<Rightarrow> 'z world_scheme" where
  "stepped s = s\<lparr>w_calls := Suc (w_calls s)\<rparr>"

lemma db_of_counters [simp]:
  "db_of (s\<lparr>w_calls := a\<rparr>) = db_of s" "db_of (s\<lparr>w_ids := a\<rparr>) = db_of s"
  "db_of (s\<lparr>w_clock := a\<rparr>) = db_of s" "db_of (s\<lparr>w_tx := a\<rparr>) = db_of s"
  "db_of (stepped s) = db_of s" "db_of (db_of s) = db_of s"
  by (simp_all add: db_of_def stepped_def)

lemma audit_db_of [simp]: "audit_events (db_of s) = audit_events s"
  by (simp add: db_of_def)

lemma audit_stepped [simp]: "audit_events (stepped s) = audit_events s"
  by (simp add: stepped_def)

lemma more_db_of [simp]: "world.more (db_of s) = world.more s"
  by (simp add: db_of_def)

lemma db_of_audit_cong: "db_of s = db_of t \<Longrightarrow> audit_events s = audit_events t"
  by (metis audit_db_of)

lemma Now_Inr [run_simps]:
  "Now env s = (Inr t, s') \<longleftrightarrow> t = clockAt env (w_clock s) \<and> s' = s\<lparr>w_clock := Suc (w_clock s)\<rparr>"
  by (auto simp: Now_def)

lemma Now_Inl [run_simps]: "Now env s = (Inl e, s') \<longleftrightarrow> False"
  by (simp add: Now_def)

lemma NewID_Inr [run_simps]:
  "NewID env s = (Inr i, s') \<longleftrightarrow> i = idAt env (w_ids s) \<and> s' = s\<lparr>w_ids := Suc (w_ids s)\<rparr>"
  by (auto simp: NewID_def)

lemma NewID_Inl [run_simps]: "NewID env s = (Inl e, s') \<longleftrightarrow> False"
  by (simp add: NewID_def)

lemma dbcall_Inr [run_simps]:
  "dbcall env s = (Inr u, s') \<longleftrightarrow> \<not> fault env (w_calls s) \<and> s' = stepped s"
  by (auto simp: dbcall_def stepped_def)

lemma db_query_Inr [run_simps]:
  "db_query env f s = (Inr x, s') \<longleftrightarrow> \<not> fault env (w_calls s) \<and> x = f (stepped s) \<and> s' = stepped s"
  by (auto simp: db_query_def run_simps)

lemma db_update_Inr [run_simps]:
  "db_update env f s = (Inr u, s') \<longleftrightarrow> \<not> fault env (w_calls s) \<and> s' = f (stepped s)"
  by (auto simp: db_update_def run_simps)

lemma dbcall_ok: "no_faults env \<Longrightarrow> dbcall env s = (Inr (), stepped s)"
  by (simp add: dbcall_def no_faults_def stepped_def)

lemma db_query_ok: "no_faults env \<Longrightarrow> db_query env f s = (Inr (f (stepped s)), stepped s)"
  by (simp add: db_query_def bindE_def dbcall_ok getE_def)

lemma db_update_ok: "no_faults env \<Longrightarrow> db_update env f s = (Inr (), f (stepped s))"
  by (simp add: db_update_def bindE_def dbcall_ok modE_def)

lemma leaves_Now [frame_intros]: "leaves db_of (Now env)"
  and leaves_NewID [frame_intros]: "leaves db_of (NewID env)"
  and leaves_dbcall [frame_intros]: "leaves db_of (dbcall env)"
  by (simp_all add: leaves_def Now_def NewID_def dbcall_def)

lemma leaves_db_query [frame_intros]: "leaves db_of (db_query env f)"
  unfolding db_query_def by (intro frame_intros)

text \<open>A projection of the database is left alone by whatever leaves the database alone.\<close>

lemma leaves_view: "leaves db_of m \<Longrightarrow> (\<And>s. p (db_of s) = p s) \<Longrightarrow> leaves p m"
  unfolding leaves_def by metis

lemma keeps_view: "leaves db_of m \<Longrightarrow> (\<And>s. P (db_of s) = P s) \<Longrightarrow> keeps P m"
  unfolding leaves_def keeps_def by metis

lemma keeps_db_update:
  "(\<And>s. P (db_of s) = P s) \<Longrightarrow> (\<And>s. P s \<Longrightarrow> P (f s)) \<Longrightarrow> keeps P (db_update env f)"
  unfolding db_update_def
  by (intro keeps_bindE keeps_modE keeps_view [OF leaves_dbcall]) auto

lemma leaves_db_update:
  "(\<And>s. p (db_of s) = p s) \<Longrightarrow> (\<And>s. p (f s) = p s) \<Longrightarrow> leaves p (db_update env f)"
  unfolding db_update_def
  by (intro leaves_bindE leaves_modE leaves_view [OF leaves_dbcall]) auto

section \<open>Transactions\<close>

text \<open>
  \<open>WithTx\<close>: begin, run the body, commit; an error of the body or of the commit rolls everything
  back. The process counters (calls made, identifiers drawn, clock readings) are not rolled back.
\<close>

definition rollback :: "'z world_scheme \<Rightarrow> 'z world_scheme \<Rightarrow> 'z world_scheme" where
  "rollback s s' = s\<lparr>w_calls := w_calls s', w_ids := w_ids s', w_clock := w_clock s', w_tx := w_tx s'\<rparr>"

definition beginTx :: "env \<Rightarrow> ('z world_scheme, unit) prog" where
  "beginTx env = bindE (dbcall env) (\<lambda>_. modE (\<lambda>s. s\<lparr>w_tx := Suc (w_tx s)\<rparr>))"

definition WithTx :: "env \<Rightarrow> ('z world_scheme, 'a) prog \<Rightarrow> ('z world_scheme, 'a) prog" where
  "WithTx env fn = (\<lambda>s.
     case bindE (beginTx env) (\<lambda>_. bindE fn (\<lambda>x. bindE (dbcall env) (\<lambda>_. retE x))) s of
       (Inl e, s') \<Rightarrow> (Inl e, rollback s s')
     | (Inr x, s') \<Rightarrow> (Inr x, s'))"

text \<open>
  The per-organization advisory locks. A blocking acquisition is one more database call before
  the body (it returns when the holder is gone); the \<open>REPEATABLE READ\<close> variants take a connection
  and the session lock before they begin. The non-blocking variant returns \<open>acquired = false\<close>
  when another session holds the lock.
\<close>

definition WithTxLockedOwnership ::
  "env \<Rightarrow> string \<Rightarrow> ('z world_scheme, 'a) prog \<Rightarrow> ('z world_scheme, 'a) prog" where
  "WithTxLockedOwnership env organizationID fn =
     WithTx env (bindE (dbcall env) (\<lambda>_. fn))"

definition WithTxLockedFindings ::
  "env \<Rightarrow> string \<Rightarrow> ('z world_scheme, 'a) prog \<Rightarrow> ('z world_scheme, 'a) prog" where
  "WithTxLockedFindings env organizationID fn =
     WithTx env (bindE (dbcall env) (\<lambda>_. fn))"

definition WithTxLockedOwnershipRepeatableRead ::
  "env \<Rightarrow> string \<Rightarrow> ('z world_scheme, 'a) prog \<Rightarrow> ('z world_scheme, 'a) prog" where
  "WithTxLockedOwnershipRepeatableRead env organizationID fn =
     bindE (dbcall env) (\<lambda>_. bindE (dbcall env) (\<lambda>_. WithTx env fn))"

definition WithTxLockedFindingsRepeatableRead ::
  "env \<Rightarrow> string \<Rightarrow> ('z world_scheme, 'a) prog \<Rightarrow> ('z world_scheme, 'a) prog" where
  "WithTxLockedFindingsRepeatableRead env organizationID fn =
     bindE (dbcall env) (\<lambda>_. bindE (dbcall env) (\<lambda>_. WithTx env fn))"

definition ownership_lock_ns :: string where "ownership_lock_ns = ''ownership-recompute''"

definition TryWithTxLockedOwnershipRepeatableRead ::
  "env \<Rightarrow> string \<Rightarrow> ('z world_scheme, 'a) prog \<Rightarrow> ('z world_scheme, 'a option) prog" where
  "TryWithTxLockedOwnershipRepeatableRead env organizationID fn =
     bindE (dbcall env) (\<lambda>_.
     bindE (db_query env (\<lambda>s. (ownership_lock_ns, organizationID) \<notin> set (w_locks s))) (\<lambda>acquired.
     if \<not> acquired then retE None
     else bindE (WithTx env fn) (\<lambda>x. retE (Some x))))"

subsection \<open>The transaction contract\<close>

locale transactor =
  fixes run :: "('s, 'a) prog \<Rightarrow> ('s, 'a) prog"
    and view :: "'s \<Rightarrow> 'p"
  assumes rolls_back: "run m s = (Inl e, s') \<Longrightarrow> view s' = view s"
    and commits: "run m s = (Inr x, s') \<Longrightarrow>
      \<exists>s1 s2. view s1 = view s \<and> m s1 = (Inr x, s2) \<and> view s' = view s2"
begin

lemma run_fails_clean: "fails_clean view (run m)"
  unfolding fails_clean_def using rolls_back by blast

text \<open>Reads first, then one transaction: all or nothing.\<close>

lemma reads_then_run: "leaves view pre \<Longrightarrow> fails_clean view (bindE pre (\<lambda>x. run (m x)))"
  by (intro fails_clean_bindE run_fails_clean)

lemma run_keeps:
  assumes "keeps (\<lambda>s. P (view s)) m"
  shows "keeps (\<lambda>s. P (view s)) (run m)"
proof (rule keepsI)
  fix s r s' assume P: "P (view s)" and r: "run m s = (r, s')"
  show "P (view s')"
  proof (cases r)
    case (Inl e)
    with r rolls_back P show ?thesis by metis
  next
    case (Inr x)
    with r obtain s1 s2 where "view s1 = view s" "m s1 = (Inr x, s2)" "view s' = view s2"
      using commits by metis
    with assms P show ?thesis using keepsD [OF assms] by metis
  qed
qed

lemma run_leaves:
  assumes "\<And>v. keeps (\<lambda>s. q (view s) = v) m"
  shows "leaves (\<lambda>s. q (view s)) (run m)"
proof (rule leavesI)
  fix s r s' assume r: "run m s = (r, s')"
  show "q (view s') = q (view s)"
    using keepsD [OF run_keeps [OF assms [of "q (view s)"]] _ r] by simp
qed

end

lemma db_of_rollback [simp]: "db_of (rollback s s') = db_of s"
  by (simp add: rollback_def)

lemma leaves_beginTx [frame_intros]: "leaves db_of (beginTx env)"
  unfolding beginTx_def by (intro frame_intros leaves_modE) simp

lemma WithTx_Inl: "WithTx env fn s = (Inl e, s') \<Longrightarrow> db_of s' = db_of s"
  by (auto simp: WithTx_def split: prod.splits sum.splits)

lemma WithTx_Inr:
  assumes "WithTx env fn s = (Inr x, s')"
  shows "\<exists>s1 s2. s1 = (stepped s)\<lparr>w_tx := Suc (w_tx s)\<rparr> \<and> fn s1 = (Inr x, s2) \<and> s' = stepped s2"
proof -
  have "bindE (beginTx env) (\<lambda>_. bindE fn (\<lambda>x. bindE (dbcall env) (\<lambda>_. retE x))) s = (Inr x, s')"
    using assms by (auto simp: WithTx_def split: prod.splits sum.splits)
  then show ?thesis
    by (fastforce simp: run_simps beginTx_def stepped_def)
qed

lemma WithTx_ok:
  assumes "no_faults env" and "fn ((stepped s)\<lparr>w_tx := Suc (w_tx s)\<rparr>) = (Inr x, s2)"
  shows "WithTx env fn s = (Inr x, stepped s2)"
  using assms
  by (simp add: WithTx_def beginTx_def bindE_def dbcall_ok retE_def modE_def) (simp add: stepped_def)

interpretation tx: transactor "WithTx env" db_of for env
proof unfold_locales
  show "WithTx env m s = (Inl e, s') \<Longrightarrow> db_of s' = db_of s" for m s e s'
    by (rule WithTx_Inl)
  show "\<exists>s1 s2. db_of s1 = db_of s \<and> m s1 = (Inr x, s2) \<and> db_of s' = db_of s2"
    if "WithTx env m s = (Inr x, s')" for m s x s'
  proof -
    from WithTx_Inr [OF that] obtain s1 s2
      where "s1 = (stepped s)\<lparr>w_tx := Suc (w_tx s)\<rparr>" "m s1 = (Inr x, s2)" "s' = stepped s2" by blast
    then show ?thesis by (intro exI [of _ s1] exI [of _ s2]) simp
  qed
qed

lemma bind_dbcall_Inr: "bindE (dbcall env) (\<lambda>_. m) s = (Inr x, s') \<Longrightarrow> m (stepped s) = (Inr x, s')"
  by (auto simp: run_simps)

interpretation otx: transactor "WithTxLockedOwnership env org" db_of for env org
proof unfold_locales
  show "WithTxLockedOwnership env org m s = (Inl e, s') \<Longrightarrow> db_of s' = db_of s" for m s e s'
    unfolding WithTxLockedOwnership_def by (rule tx.rolls_back)
  show "\<exists>s1 s2. db_of s1 = db_of s \<and> m s1 = (Inr x, s2) \<and> db_of s' = db_of s2"
    if "WithTxLockedOwnership env org m s = (Inr x, s')" for m s x s'
    using tx.commits [OF that [unfolded WithTxLockedOwnership_def]]
    by (metis bind_dbcall_Inr db_of_counters(5))
qed

interpretation ftx: transactor "WithTxLockedFindings env org" db_of for env org
proof unfold_locales
  show "WithTxLockedFindings env org m s = (Inl e, s') \<Longrightarrow> db_of s' = db_of s" for m s e s'
    unfolding WithTxLockedFindings_def by (rule tx.rolls_back)
  show "\<exists>s1 s2. db_of s1 = db_of s \<and> m s1 = (Inr x, s2) \<and> db_of s' = db_of s2"
    if "WithTxLockedFindings env org m s = (Inr x, s')" for m s x s'
    using tx.commits [OF that [unfolded WithTxLockedFindings_def]]
    by (metis bind_dbcall_Inr db_of_counters(5))
qed

text \<open>A failed lock or connection leaves the database alone, and then \<open>WithTx\<close> decides.\<close>

lemma locked_rr_cases:
  "bindE (dbcall env) (\<lambda>_. bindE (dbcall env) (\<lambda>_. WithTx env m)) s = (r, s') \<Longrightarrow>
     (\<exists>e. r = Inl e \<and> db_of s' = db_of s) \<or>
     (\<exists>s1. db_of s1 = db_of s \<and> WithTx env m s1 = (r, s'))"
  by (auto simp: bindE_def dbcall_def split: if_splits)

interpretation orr: transactor "WithTxLockedOwnershipRepeatableRead env org" db_of for env org
proof unfold_locales
  show "db_of s' = db_of s"
    if "WithTxLockedOwnershipRepeatableRead env org m s = (Inl e, s')" for m s e s'
    using locked_rr_cases [OF that [unfolded WithTxLockedOwnershipRepeatableRead_def]]
      tx.rolls_back by metis
  show "\<exists>s1 s2. db_of s1 = db_of s \<and> m s1 = (Inr x, s2) \<and> db_of s' = db_of s2"
    if "WithTxLockedOwnershipRepeatableRead env org m s = (Inr x, s')" for m s x s'
    using locked_rr_cases [OF that [unfolded WithTxLockedOwnershipRepeatableRead_def]]
      tx.commits by (metis Inl_Inr_False)
qed

interpretation frr: transactor "WithTxLockedFindingsRepeatableRead env org" db_of for env org
proof unfold_locales
  show "db_of s' = db_of s"
    if "WithTxLockedFindingsRepeatableRead env org m s = (Inl e, s')" for m s e s'
    using locked_rr_cases [OF that [unfolded WithTxLockedFindingsRepeatableRead_def]]
      tx.rolls_back by metis
  show "\<exists>s1 s2. db_of s1 = db_of s \<and> m s1 = (Inr x, s2) \<and> db_of s' = db_of s2"
    if "WithTxLockedFindingsRepeatableRead env org m s = (Inr x, s')" for m s x s'
    using locked_rr_cases [OF that [unfolded WithTxLockedFindingsRepeatableRead_def]]
      tx.commits by (metis Inl_Inr_False)
qed

lemma TryWithTxLockedOwnership_cases:
  assumes "TryWithTxLockedOwnershipRepeatableRead env org m s = (r, s')"
  shows "(db_of s' = db_of s \<and> (\<forall>x. r \<noteq> Inr (Some x))) \<or>
    (\<exists>s1 x. db_of s1 = db_of s \<and> WithTx env m s1 = (Inr x, s') \<and> r = Inr (Some x))"
proof -
  let ?s1 = "stepped s" and ?s2 = "stepped (stepped s)"
  let ?held = "(ownership_lock_ns, org) \<in> set (w_locks ?s2)"
  note defs = TryWithTxLockedOwnershipRepeatableRead_def bindE_def dbcall_def db_query_def getE_def retE_def
  consider (down) "fault env (w_calls s) \<or> fault env (w_calls ?s1)"
    | (held) "\<not> fault env (w_calls s)" "\<not> fault env (w_calls ?s1)" ?held
    | (go) "\<not> fault env (w_calls s)" "\<not> fault env (w_calls ?s1)" "\<not> ?held" by blast
  then show ?thesis
  proof cases
    case down
    then show ?thesis using assms by (auto simp: defs stepped_def split: if_splits)
  next
    case held
    then have "r = Inr None" "s' = ?s2" using assms by (auto simp: defs stepped_def)
    then show ?thesis by simp
  next
    case go
    then have run: "bindE (WithTx env m) (\<lambda>x. retE (Some x)) ?s2 = (r, s')"
      using assms by (simp add: TryWithTxLockedOwnershipRepeatableRead_def bindE_def dbcall_def db_query_def
          getE_def stepped_def)
    show ?thesis
    proof (cases "WithTx env m ?s2")
      case (Pair q s3)
      then show ?thesis using run WithTx_Inl [of env m ?s2 _ s3]
        by (cases q) (auto simp: bindE_def retE_def intro!: exI [of _ ?s2])
    qed
  qed
qed

text \<open>What a body preserves, its transaction preserves.\<close>

lemma keeps_transactions:
  assumes "\<And>s. P (db_of s) = P s" and "keeps P m"
  shows "keeps P (WithTx env m)" "keeps P (WithTxLockedOwnership env org m)"
    "keeps P (WithTxLockedOwnershipRepeatableRead env org m)"
    "keeps P (WithTxLockedFindings env org m)" "keeps P (WithTxLockedFindingsRepeatableRead env org m)"
    "keeps P (TryWithTxLockedOwnershipRepeatableRead env org m)"
proof -
  have m: "keeps (\<lambda>s. P (db_of s)) m" using assms by simp
  show tx: "keeps P (WithTx env m)" using tx.run_keeps [OF m] assms(1) by simp
  show "keeps P (WithTxLockedOwnership env org m)" using otx.run_keeps [OF m] assms(1) by simp
  show "keeps P (WithTxLockedOwnershipRepeatableRead env org m)" using orr.run_keeps [OF m] assms(1) by simp
  show "keeps P (WithTxLockedFindings env org m)" using ftx.run_keeps [OF m] assms(1) by simp
  show "keeps P (WithTxLockedFindingsRepeatableRead env org m)" using frr.run_keeps [OF m] assms(1) by simp
  show "keeps P (TryWithTxLockedOwnershipRepeatableRead env org m)"
  proof (rule keepsI)
    fix s r s' assume "P s" and r: "TryWithTxLockedOwnershipRepeatableRead env org m s = (r, s')"
    then show "P s'"
      using TryWithTxLockedOwnership_cases [OF r] assms(1) keepsD [OF tx] by metis
  qed
qed

section \<open>The audit recorder\<close>

definition zeroTime :: Time where
  "zeroTime = - 62135596800 * second"

text \<open>\<open>AuditRecorder.Record\<close>: fill identifier and time if zero, validate, insert.\<close>

definition Record :: "env \<Rightarrow> Event \<Rightarrow> ('z world_scheme, unit) prog" where
  "Record env e =
     bindE (if ev_ID e = [] then NewID env else retE (ev_ID e)) (\<lambda>i.
     bindE (if ev_OccurredAt e = zeroTime then Now env else retE (ev_OccurredAt e)) (\<lambda>t.
     bindE (guardE (ev_OrganizationID e \<noteq> []) ErrRequired) (\<lambda>_.
     bindE (guardE (ev_Actor e \<noteq> [] \<and> ev_ActorType e \<noteq> []) ErrRequired) (\<lambda>_.
     bindE (guardE (ev_Action e \<noteq> [] \<and> ev_TargetType e \<noteq> [] \<and> ev_TargetID e \<noteq> []) ErrRequired) (\<lambda>_.
     db_update env (\<lambda>s. s\<lparr>audit_events := audit_events s @ [e\<lparr>ev_ID := i, ev_OccurredAt := t\<rparr>]\<rparr>))))))"

text \<open>What a recorded event keeps of the event the service built.\<close>

definition same_event :: "Event \<Rightarrow> Event \<Rightarrow> bool" where
  "same_event r e \<longleftrightarrow> r\<lparr>ev_ID := [], ev_OccurredAt := 0\<rparr> = e\<lparr>ev_ID := [], ev_OccurredAt := 0\<rparr>"

lemma same_event_fields:
  assumes "same_event r e"
  shows "ev_OrganizationID r = ev_OrganizationID e" "ev_Actor r = ev_Actor e" "ev_ActorType r = ev_ActorType e"
    "ev_Action r = ev_Action e" "ev_TargetType r = ev_TargetType e" "ev_TargetID r = ev_TargetID e"
    "ev_RequestID r = ev_RequestID e" "ev_Metadata r = ev_Metadata e"
  using assms by (cases r; cases e; simp add: same_event_def)+

text \<open>Everything in the database but the audit rows.\<close>

definition tables_of :: "'z world_scheme \<Rightarrow> 'z" where
  "tables_of s = world.more s"

lemma tables_of_simps [simp]:
  "tables_of (s\<lparr>w_calls := a\<rparr>) = tables_of s" "tables_of (s\<lparr>w_ids := a\<rparr>) = tables_of s"
  "tables_of (s\<lparr>w_clock := a\<rparr>) = tables_of s" "tables_of (s\<lparr>w_tx := a\<rparr>) = tables_of s"
  "tables_of (s\<lparr>audit_events := ev\<rparr>) = tables_of s" "tables_of (db_of s) = tables_of s"
  "tables_of (stepped s) = tables_of s" "tables_of (rollback s s') = tables_of s"
  by (simp_all add: tables_of_def db_of_def stepped_def rollback_def)

lemma leaves_tables: "leaves db_of m \<Longrightarrow> leaves tables_of m"
  by (erule leaves_view) simp

lemma leaves_tables_Record [frame_intros]: "leaves tables_of (Record env e)"
  unfolding Record_def
  by (intro frame_intros leaves_db_update leaves_tables [OF leaves_NewID] leaves_tables [OF leaves_Now]) auto

lemma Record_Inr:
  "Record env e s = (Inr u, s') \<Longrightarrow>
     \<exists>r. audit_events s' = audit_events s @ [r] \<and> same_event r e \<and> tables_of s' = tables_of s"
  by (auto simp: Record_def run_simps same_event_def stepped_def split: if_splits)

lemma db_of_push_audit: "db_of (s\<lparr>audit_events := x\<rparr>) = (db_of s)\<lparr>audit_events := x\<rparr>"
  by (simp add: db_of_def)

lemma Record_db:
  assumes "Record env e s = (Inr u, s')"
  shows "\<exists>r. same_event r e \<and> db_of s' = (db_of s)\<lparr>audit_events := audit_events s @ [r]\<rparr>"
proof -
  obtain i s1 t s2 where
    1: "(if ev_ID e = [] then NewID env else retE (ev_ID e)) s = (Inr i, s1)" and
    2: "(if ev_OccurredAt e = zeroTime then Now env else retE (ev_OccurredAt e)) s1 = (Inr t, s2)" and
    3: "s' = (stepped s2)\<lparr>audit_events := audit_events s2 @ [e\<lparr>ev_ID := i, ev_OccurredAt := t\<rparr>]\<rparr>"
    using assms by (fastforce simp: Record_def bindE_Inr guardE_Inr db_update_Inr)
  have "db_of s1 = db_of s"
    by (rule leavesD [where m = "if ev_ID e = [] then NewID env else retE (ev_ID e)"]) (intro frame_intros, rule 1)
  moreover have "db_of s2 = db_of s1"
    by (rule leavesD [where m = "if ev_OccurredAt e = zeroTime then Now env else retE (ev_OccurredAt e)"])
      (intro frame_intros, rule 2)
  ultimately have "db_of s2 = db_of s" by simp
  then have "db_of s' = (db_of s)\<lparr>audit_events := audit_events s @ [e\<lparr>ev_ID := i, ev_OccurredAt := t\<rparr>]\<rparr>"
    using 3 by (auto simp: db_of_push_audit dest: db_of_audit_cong)
  then show ?thesis
    by (intro exI [of _ "e\<lparr>ev_ID := i, ev_OccurredAt := t\<rparr>"]) (simp add: same_event_def)
qed

lemma keeps_Record:
  assumes "\<And>s. P (db_of s) = P s" and "\<And>s x. P (s\<lparr>audit_events := x\<rparr>) = P s"
  shows "keeps P (Record env e)"
  unfolding Record_def
  by (intro keep_intros keeps_db_update assms(1) keeps_view [OF leaves_NewID] keeps_view [OF leaves_Now])
    (simp add: assms(2))

lemma Record_ok:
  assumes "no_faults env" "ev_OrganizationID e \<noteq> []" "ev_Actor e \<noteq> []" "ev_ActorType e \<noteq> []"
    "ev_Action e \<noteq> []" "ev_TargetType e \<noteq> []" "ev_TargetID e \<noteq> []"
  shows "\<exists>s'. Record env e s = (Inr (), s')"
  using assms
  by (auto simp: Record_def bindE_def NewID_def Now_def retE_def guardE_def db_update_def dbcall_def modE_def
      no_faults_def)

text \<open>One security event, and the tables as they were: what a refused request leaves.\<close>

definition refused :: "string \<Rightarrow> string \<Rightarrow> 'z world_scheme \<Rightarrow> 'z world_scheme \<Rightarrow> bool" where
  "refused action reason s s' \<longleftrightarrow> tables_of s' = tables_of s \<and>
     (\<exists>r. audit_events s' = audit_events s @ [r] \<and> ev_Action r = action \<and>
        json_field ''severity'' (ev_Metadata r) = Some (JStr ''security'') \<and> json_field ''reason'' (ev_Metadata r) = Some (JStr reason))"

lemma Record_refused:
  assumes "no_faults env" "ev_OrganizationID e \<noteq> []" "ev_Actor e \<noteq> []" "ev_ActorType e \<noteq> []" "ev_Action e \<noteq> []" "ev_TargetType e \<noteq> []" "ev_TargetID e \<noteq> []"
    and "json_field ''severity'' (ev_Metadata e) = Some (JStr ''security'')" and "json_field ''reason'' (ev_Metadata e) = Some (JStr reason)"
  shows "\<exists>s'. Record env e s = (Inr (), s') \<and> refused (ev_Action e) reason s s'"
proof -
  from Record_ok [OF assms(1-7)] obtain s' where run: "Record env e s = (Inr (), s')" by blast
  from Record_Inr [OF run] obtain r where "audit_events s' = audit_events s @ [r]" "same_event r e" "tables_of s' = tables_of s" by blast
  then show ?thesis using run same_event_fields [of r e] assms(8,9) by (auto simp: refused_def)
qed

lemma refused_cong: "tables_of s = tables_of t \<Longrightarrow> audit_events s = audit_events t \<Longrightarrow> refused action reason s s' = refused action reason t s'"
  by (simp add: refused_def)

lemma WithTx_fails:
  assumes "no_faults env" and "fn ((stepped s)\<lparr>w_tx := Suc (w_tx s)\<rparr>) = (Inl e, s2)"
  shows "\<exists>s'. WithTx env fn s = (Inl e, s') \<and> db_of s' = db_of s"
  using assms by (simp add: WithTx_def beginTx_def bindE_def dbcall_ok modE_def stepped_def)

text \<open>An atomic program keeps what its successful runs keep.\<close>

lemma keeps_atomic:
  assumes "fails_clean db_of m" and "\<And>s. P (db_of s) = P s"
    and "\<And>s x s'. P s \<Longrightarrow> m s = (Inr x, s') \<Longrightarrow> P s'"
  shows "keeps P m"
proof (rule keepsI)
  fix s r s' assume P: "P s" and r: "m s = (r, s')"
  show "P s'"
  proof (cases r)
    case (Inl e)
    then have "db_of s' = db_of s" using assms(1) r by (auto intro: fails_cleanD)
    then show ?thesis using P assms(2) by metis
  next
    case (Inr x)
    with r P show ?thesis using assms(3) by blast
  qed
qed

lemma leaves_atomic:
  assumes "fails_clean db_of m" and "\<And>s. p (db_of s) = p s"
    and "\<And>s x s'. m s = (Inr x, s') \<Longrightarrow> p s' = p s"
  shows "leaves p m"
proof (rule leavesI)
  fix s r s' assume r: "m s = (r, s')"
  show "p s' = p s"
  proof (cases r)
    case (Inl e)
    then have "db_of s' = db_of s" using assms(1) r by (auto intro: fails_cleanD)
    then show ?thesis using assms(2) by metis
  qed (use r assms(3) in auto)
qed

lemma leaves_audit_Now [frame_intros]: "leaves audit_events (Now env)"
  and leaves_audit_NewID [frame_intros]: "leaves audit_events (NewID env)"
  and leaves_audit_dbcall [frame_intros]: "leaves audit_events (dbcall env)"
  and leaves_audit_db_query [frame_intros]: "leaves audit_events (db_query env f)"
  by (rule leaves_view, rule frame_intros, simp)+

section \<open>Statements that must hit a row\<close>

text \<open>An \<open>UPDATE\<close> that must hit a row, and an \<open>INSERT\<close> guarded by unique constraints.\<close>

definition exec_hit :: "env \<Rightarrow> err \<Rightarrow> ('z world_scheme \<Rightarrow> bool) \<Rightarrow> ('z world_scheme \<Rightarrow> 'z world_scheme) \<Rightarrow>
    ('z world_scheme, unit) prog" where
  "exec_hit env e hit f = bindE (db_query env hit) (\<lambda>h. bindE (guardE h e) (\<lambda>_. modE f))"

lemma exec_hit_Inr [run_simps]:
  "exec_hit env e hit f s = (Inr u, s') \<longleftrightarrow>
     \<not> fault env (w_calls s) \<and> hit (stepped s) \<and> s' = f (stepped s)"
  by (auto simp: exec_hit_def run_simps)

lemma exec_hit_ok:
  "no_faults env \<Longrightarrow> hit (stepped s) \<Longrightarrow> exec_hit env e hit f s = (Inr (), f (stepped s))"
  by (auto simp: exec_hit_def bindE_def db_query_ok guardE_def retE_def modE_def)

lemma leaves_exec_hit:
  "(\<And>s. p (db_of s) = p s) \<Longrightarrow> (\<And>s. p (f s) = p s) \<Longrightarrow> leaves p (exec_hit env e hit f)"
  unfolding exec_hit_def by (intro leaves_bindE leaves_modE leaves_guardE leaves_view [OF leaves_db_query])

lemma keeps_exec_hit:
  assumes "\<And>s. P (db_of s) = P s" and "\<And>s. P s \<Longrightarrow> hit (stepped s) \<Longrightarrow> P (f (stepped s))"
  shows "keeps P (exec_hit env e hit f)"
proof (rule keepsI)
  fix s r s' assume P: "P s" and r: "exec_hit env e hit f s = (r, s')"
  have st: "P (stepped s)" using P assms(1) by (metis db_of_counters(5))
  show "P s'"
    using r P st assms(2) [OF P]
    by (auto simp: exec_hit_def bindE_def db_query_def dbcall_def getE_def guardE_def retE_def throwE_def
        modE_def stepped_def split: if_splits)
qed

end
