(* ===== verification/GovTypes.thy ===== *)
theory GovTypes imports Env begin

text \<open>
  The data model of \<open>internal/governance/types.go\<close>, \<open>internal/governance/scheduler.go\<close> and
  \<open>aggregate.go\<close>: the enumerations, which are strings in Go, as datatypes with one constructor per
  constant and one for any other text a row may carry; the rows as records; and the tables of the
  ownership database as lists of rows, in insertion order.
\<close>

section \<open>Enumerations\<close>

datatype PrecedenceTier =
    PrecedenceExplicit
  | PrecedenceServiceMember
  | PrecedenceAgentGroup
  | PrecedenceSANPattern
  | PrecedenceSubjectPattern
  | PrecedenceTag
  | PrecedenceIssuerStore
  | PrecedenceFallback
  | TierOther string

fun tier_string :: "PrecedenceTier \<Rightarrow> string" where
  "tier_string PrecedenceExplicit = ''explicit''"
| "tier_string PrecedenceServiceMember = ''service_member''"
| "tier_string PrecedenceAgentGroup = ''agent_group''"
| "tier_string PrecedenceSANPattern = ''san_pattern''"
| "tier_string PrecedenceSubjectPattern = ''subject_pattern''"
| "tier_string PrecedenceTag = ''tag''"
| "tier_string PrecedenceIssuerStore = ''issuer_store''"
| "tier_string PrecedenceFallback = ''fallback''"
| "tier_string (TierOther s) = s"

definition tier_of_string :: "string \<Rightarrow> PrecedenceTier" where
  "tier_of_string s =
     (case find (\<lambda>t. tier_string t = s)
        [PrecedenceExplicit, PrecedenceServiceMember, PrecedenceAgentGroup, PrecedenceSANPattern,
         PrecedenceSubjectPattern, PrecedenceTag, PrecedenceIssuerStore, PrecedenceFallback] of
        Some t \<Rightarrow> t | None \<Rightarrow> TierOther s)"

text \<open>The empty tier of a request that leaves the tier out.\<close>

abbreviation TierUnset :: PrecedenceTier where
  "TierUnset \<equiv> TierOther []"

datatype MatchKind =
    MatchSANGlob
  | MatchSANRegex
  | MatchSubjectCNGlob
  | MatchAgentGroup
  | MatchIssuerDN
  | MatchStoreLocation
  | MatchTag
  | MatchFallback
  | KindOther string

fun kind_string :: "MatchKind \<Rightarrow> string" where
  "kind_string MatchSANGlob = ''san_glob''"
| "kind_string MatchSANRegex = ''san_regex''"
| "kind_string MatchSubjectCNGlob = ''subject_cn_glob''"
| "kind_string MatchAgentGroup = ''agent_group''"
| "kind_string MatchIssuerDN = ''issuer_dn''"
| "kind_string MatchStoreLocation = ''store_location''"
| "kind_string MatchTag = ''tag''"
| "kind_string MatchFallback = ''fallback''"
| "kind_string (KindOther s) = s"

datatype Decision = DecisionMatched | DecisionOverridden | DecisionUnowned | DecisionAmbiguous

fun decision_string :: "Decision \<Rightarrow> string" where
  "decision_string DecisionMatched = ''matched''"
| "decision_string DecisionOverridden = ''overridden''"
| "decision_string DecisionUnowned = ''unowned''"
| "decision_string DecisionAmbiguous = ''ambiguous''"

datatype Confidence = ConfidenceHigh | ConfidenceMedium | ConfidenceLow

datatype RecomputeKind = RecomputeKindOwnership | RecomputeKindPolicy

datatype RecomputeActorKind = RecomputeActorUser | RecomputeActorSystem | RecomputeActorPreview

fun actor_kind_string :: "RecomputeActorKind \<Rightarrow> string" where
  "actor_kind_string RecomputeActorUser = ''user''"
| "actor_kind_string RecomputeActorSystem = ''system''"
| "actor_kind_string RecomputeActorPreview = ''preview''"

section \<open>Rows\<close>

record OwnershipRule =
  rl_ID :: string
  rl_OrganizationID :: string
  rl_Name :: string
  rl_Description :: string
  rl_ServiceID :: string
  rl_PrecedenceTier :: PrecedenceTier
  rl_Priority :: int
  rl_MatchKind :: MatchKind
  rl_MatchValue :: string
  rl_Enabled :: bool
  rl_CreatedAt :: Time
  rl_UpdatedAt :: Time
  rl_CreatedBy :: string
  rl_DisabledAt :: "Time option"

record CertificateOwnership =
  co_OrganizationID :: string
  co_CertificateID :: string
  co_ServiceID :: "string option"
  co_Decision :: Decision
  co_WinningRuleID :: "string option"
  co_OverrideID :: "string option"
  co_ExplanationID :: string
  co_Confidence :: Confidence
  co_FirstAssignedAt :: Time
  co_LastEvaluatedAt :: Time
  co_LastChangedAt :: Time

record CertificateOwnershipOverride =
  ov_ID :: string
  ov_OrganizationID :: string
  ov_CertificateID :: string
  ov_ServiceID :: string
  ov_Reason :: string
  ov_SetBy :: string
  ov_SetAt :: Time
  ov_ExpiresAt :: "Time option"
  ov_ClearedAt :: "Time option"
  ov_ClearedBy :: "string option"
  ov_ClearedReason :: "string option"

record OwnershipMatchExplanation =
  ex_ID :: string
  ex_OrganizationID :: string
  ex_CertificateID :: string
  ex_DecidedAt :: Time
  ex_DecidedDecision :: Decision
  ex_DecidedServiceID :: "string option"
  ex_WinningRuleID :: "string option"
  ex_LosingRules :: json
  ex_SignalsSeen :: json
  ex_EngineVersion :: int

type_synonym TagPair = "string \<times> string"

record CertificateSignals =
  sg_CertificateID :: string
  sg_Subject :: string
  sg_Issuer :: string
  sg_SANs :: "string list"
  sg_StoreLocations :: "string list"
  sg_ObservingAgentIDs :: "string list"
  sg_ObservingAgentGroupIDs :: "string list"
  sg_CertTags :: "TagPair list"
  sg_AgentTags :: "TagPair list"

record GovernanceRecomputeRun =
  rr_ID :: string
  rr_OrganizationID :: string
  rr_Kind :: RecomputeKind
  rr_StartedAt :: Time
  rr_FinishedAt :: "Time option"
  rr_Actor :: string
  rr_ActorKind :: RecomputeActorKind
  rr_Succeeded :: "bool option"
  rr_ErrorClass :: string
  rr_EvaluatedCount :: int
  rr_ChangedCount :: int
  rr_UnchangedCount :: int
  rr_BecameOwnedCount :: int
  rr_BecameUnownedCount :: int
  rr_FlippedOwnerCount :: int
  rr_EngineVersion :: int

section \<open>Tables\<close>

text \<open>
  The rows that the signal query joins: certificates, their observations, agent groups and their
  members, tags and their assignments, services.
\<close>

record CertificateRow =
  ce_ID :: string
  ce_OrganizationID :: string
  ce_Subject :: string
  ce_Issuer :: string
  ce_SANs :: "string list"

record ObservationRow =
  ob_OrganizationID :: string
  ob_CertificateID :: string
  ob_AgentID :: string
  ob_StoreLocation :: string
  ob_RemovedAt :: "Time option"

record NamedRow =
  nr_ID :: string
  nr_OrganizationID :: string
  nr_DisabledAt :: "Time option"

record MembershipRow =
  mb_OrganizationID :: string
  mb_AgentGroupID :: string
  mb_AgentID :: string

record TagRow =
  tg_ID :: string
  tg_OrganizationID :: string
  tg_Key :: string
  tg_Value :: string
  tg_DisabledAt :: "Time option"

record TagAssignmentRow =
  ta_OrganizationID :: string
  ta_TagID :: string
  ta_TargetType :: string
  ta_TargetID :: string

record gov_db = world +
  t_rules :: "OwnershipRule list"
  t_ownership :: "CertificateOwnership list"
  t_overrides :: "CertificateOwnershipOverride list"
  t_explanations :: "OwnershipMatchExplanation list"
  t_runs :: "GovernanceRecomputeRun list"
  t_certificates :: "CertificateRow list"
  t_observations :: "ObservationRow list"
  t_agent_groups :: "NamedRow list"
  t_memberships :: "MembershipRow list"
  t_tags :: "TagRow list"
  t_tag_assignments :: "TagAssignmentRow list"
  t_services :: "NamedRow list"

text \<open>The tables the ownership service writes, and the ones it only reads.\<close>

definition inputs_of :: "'z gov_db_scheme \<Rightarrow> CertificateRow list \<times> ObservationRow list \<times> NamedRow list \<times>
    MembershipRow list \<times> TagRow list \<times> TagAssignmentRow list \<times> NamedRow list" where
  "inputs_of s = (t_certificates s, t_observations s, t_agent_groups s, t_memberships s, t_tags s,
     t_tag_assignments s, t_services s)"

lemma gov_db_of [simp]:
  "t_rules (db_of s) = t_rules s" "t_ownership (db_of s) = t_ownership s"
  "t_overrides (db_of s) = t_overrides s" "t_explanations (db_of s) = t_explanations s"
  "t_runs (db_of s) = t_runs s" "t_certificates (db_of s) = t_certificates s"
  "t_observations (db_of s) = t_observations s" "t_agent_groups (db_of s) = t_agent_groups s"
  "t_memberships (db_of s) = t_memberships s" "t_tags (db_of s) = t_tags s"
  "t_tag_assignments (db_of s) = t_tag_assignments s" "t_services (db_of s) = t_services s"
  "inputs_of (db_of s) = inputs_of s"
  by (simp_all add: db_of_def inputs_of_def)

lemma db_of_push:
  "db_of (s\<lparr>t_rules := r\<rparr>) = (db_of s)\<lparr>t_rules := r\<rparr>"
  "db_of (s\<lparr>t_ownership := o'\<rparr>) = (db_of s)\<lparr>t_ownership := o'\<rparr>"
  "db_of (s\<lparr>t_overrides := v\<rparr>) = (db_of s)\<lparr>t_overrides := v\<rparr>"
  "db_of (s\<lparr>t_explanations := e\<rparr>) = (db_of s)\<lparr>t_explanations := e\<rparr>"
  "db_of (s\<lparr>t_runs := n\<rparr>) = (db_of s)\<lparr>t_runs := n\<rparr>"
  by (simp_all add: db_of_def)

text \<open>Reading a table off a known database.\<close>

lemma db_of_fields:
  assumes "db_of s' = x"
  shows "audit_events s' = audit_events x" "t_rules s' = t_rules x" "t_ownership s' = t_ownership x"
    "t_overrides s' = t_overrides x" "t_explanations s' = t_explanations x" "t_runs s' = t_runs x"
    "inputs_of s' = inputs_of x"
  using assms by auto

lemma gov_stepped [simp]:
  "t_rules (stepped s) = t_rules s" "t_ownership (stepped s) = t_ownership s"
  "t_overrides (stepped s) = t_overrides s" "t_explanations (stepped s) = t_explanations s"
  "t_runs (stepped s) = t_runs s" "t_certificates (stepped s) = t_certificates s"
  "t_observations (stepped s) = t_observations s" "t_agent_groups (stepped s) = t_agent_groups s"
  "t_memberships (stepped s) = t_memberships s" "t_tags (stepped s) = t_tags s"
  "t_tag_assignments (stepped s) = t_tag_assignments s" "t_services (stepped s) = t_services s"
  "inputs_of (stepped s) = inputs_of s"
  by (simp_all add: stepped_def inputs_of_def)

lemma inputs_of_updates [simp]:
  "inputs_of (s\<lparr>t_rules := a\<rparr>) = inputs_of s" "inputs_of (s\<lparr>t_ownership := b\<rparr>) = inputs_of s"
  "inputs_of (s\<lparr>t_overrides := c\<rparr>) = inputs_of s" "inputs_of (s\<lparr>t_explanations := d\<rparr>) = inputs_of s"
  "inputs_of (s\<lparr>t_runs := e\<rparr>) = inputs_of s" "inputs_of (s\<lparr>audit_events := f\<rparr>) = inputs_of s"
  "inputs_of (s\<lparr>w_ids := n\<rparr>) = inputs_of s" "inputs_of (s\<lparr>w_clock := n\<rparr>) = inputs_of s"
  "inputs_of (s\<lparr>w_tx := n\<rparr>) = inputs_of s" "inputs_of (s\<lparr>w_calls := n\<rparr>) = inputs_of s"
  by (simp_all add: inputs_of_def)

lemma tier_of_string_inverse [simp]: "tier_string (tier_of_string s) = s"
  by (auto simp: tier_of_string_def)

lemma tier_roundtrip: "\<forall>s. t \<noteq> TierOther s \<Longrightarrow> tier_of_string (tier_string t) = t"
  by (cases t) (simp_all add: tier_of_string_def)

end
