(* ===== verification/Tables.thy ===== *)
theory Tables imports Prelude "HOL-Library.Multiset" begin

text \<open>
  SQL over list tables: \<open>UPDATE ... WHERE\<close>, \<open>INSERT ... ON CONFLICT DO UPDATE\<close>, \<open>DELETE\<close>,
  \<open>SELECT ... ORDER BY ... LIMIT\<close>, and keyset pagination (\<open>WHERE key > cursor ORDER BY key
  LIMIT n\<close>), with the lemmas on lookups after writes. The pagination contract is a locale: whoever
  provides a page read with the keyset law gets that the loop over all pages sees every row once,
  in order, whatever the page size, and stops.
\<close>

section \<open>Row updates\<close>

definition update_where :: "('r \<Rightarrow> bool) \<Rightarrow> ('r \<Rightarrow> 'r) \<Rightarrow> 'r list \<Rightarrow> 'r list" where
  "update_where P f rows = map (\<lambda>r. if P r then f r else r) rows"

definition upsert :: "('r \<Rightarrow> 'k) \<Rightarrow> 'r \<Rightarrow> 'r list \<Rightarrow> 'r list" where
  "upsert key r rows =
     (if key r \<in> key ` set rows then update_where (\<lambda>x. key x = key r) (\<lambda>_. r) rows else rows @ [r])"

definition delete_where :: "('r \<Rightarrow> bool) \<Rightarrow> 'r list \<Rightarrow> 'r list" where
  "delete_where P rows = filter (\<lambda>r. \<not> P r) rows"

lemma set_update_where: "set (update_where P f rows) = f ` {r \<in> set rows. P r} \<union> {r \<in> set rows. \<not> P r}"
  by (auto simp: update_where_def)

lemma length_update_where [simp]: "length (update_where P f rows) = length rows"
  by (simp add: update_where_def)

lemma update_where_none: "\<forall>r \<in> set rows. \<not> P r \<Longrightarrow> update_where P f rows = rows"
  unfolding update_where_def by (induction rows) auto

lemma find_update_where_other:
  "(\<And>r. Q (f r) = Q r) \<Longrightarrow> (\<And>r. Q r \<Longrightarrow> \<not> P r) \<Longrightarrow> find Q (update_where P f rows) = find Q rows"
  unfolding update_where_def by (induction rows) auto

lemma find_update_where_same:
  "(\<And>r. Q (f r) = Q r) \<Longrightarrow> (\<And>r. Q r \<Longrightarrow> P r) \<Longrightarrow>
     find Q (update_where P f rows) = map_option f (find Q rows)"
  unfolding update_where_def by (induction rows) auto

lemma filter_update_where_other:
  "(\<And>r. P r \<Longrightarrow> \<not> Q r) \<Longrightarrow> (\<And>r. P r \<Longrightarrow> \<not> Q (f r)) \<Longrightarrow>
     filter Q (update_where P f rows) = filter Q rows"
  unfolding update_where_def by (induction rows) auto

lemma filter_update_where_keys:
  "(\<And>r. P r \<Longrightarrow> Q (f r) = Q r) \<Longrightarrow>
     filter Q (update_where P f rows) = update_where P f (filter Q rows)"
  unfolding update_where_def by (induction rows) auto

lemma map_update_where:
  "(\<And>r. P r \<Longrightarrow> g (f r) = g r) \<Longrightarrow> map g (update_where P f rows) = map g rows"
  by (simp add: update_where_def)

lemma find_upsert_same: "find (\<lambda>x. key x = key r) (upsert key r rows) = Some r"
proof (cases "key r \<in> key ` set rows")
  case True
  then have "find (\<lambda>x. key x = key r) (update_where (\<lambda>x. key x = key r) (\<lambda>_. r) rows) = Some r"
    unfolding update_where_def by (induction rows) auto
  with True show ?thesis by (simp add: upsert_def)
next
  case False
  then have "find (\<lambda>x. key x = key r) (rows @ [r]) = Some r"
    by (induction rows) auto
  with False show ?thesis by (simp add: upsert_def)
qed

lemma find_append_single: "find P (xs @ [x]) = (case find P xs of Some y \<Rightarrow> Some y | None \<Rightarrow> if P x then Some x else None)"
  by (induction xs) auto

lemma find_replace_other:
  "k \<noteq> key r \<Longrightarrow> find (\<lambda>x. key x = k) (update_where (\<lambda>x. key x = key r) (\<lambda>_. r) rows) = find (\<lambda>x. key x = k) rows"
  unfolding update_where_def by (induction rows) auto

lemma find_upsert_other: "k \<noteq> key r \<Longrightarrow> find (\<lambda>x. key x = k) (upsert key r rows) = find (\<lambda>x. key x = k) rows"
  by (simp add: upsert_def find_append_single find_replace_other split: option.splits)

lemma filter_upsert_other: "\<not> Q r \<Longrightarrow> (\<And>x. key x = key r \<Longrightarrow> \<not> Q x) \<Longrightarrow> filter Q (upsert key r rows) = filter Q rows"
  by (auto simp: upsert_def intro: filter_update_where_other)

lemma keys_upsert: "key ` set (upsert key r rows) = insert (key r) (key ` set rows)"
  by (auto simp: upsert_def update_where_def image_iff split: if_splits)

lemma map_key_replace: "map key (update_where (\<lambda>x. key x = key r) (\<lambda>_. r) rows) = map key rows"
  by (rule map_update_where) simp

lemma distinct_upsert: "distinct (map key rows) \<Longrightarrow> distinct (map key (upsert key r rows))"
  by (simp add: upsert_def map_key_replace)

lemma set_upsert_subset: "set (upsert key r rows) \<subseteq> insert r (set rows)"
  by (auto simp: upsert_def update_where_def split: if_splits)

lemma find_Some_D: "find P xs = Some x \<Longrightarrow> x \<in> set xs \<and> P x"
  by (auto simp: find_Some_iff)

lemma find_None_set: "find P xs = None \<longleftrightarrow> (\<forall>x \<in> set xs. \<not> P x)"
  by (auto simp: find_None_iff)

lemma find_unique: "x \<in> set xs \<Longrightarrow> P x \<Longrightarrow> (\<And>y. y \<in> set xs \<Longrightarrow> P y \<Longrightarrow> y = x) \<Longrightarrow> find P xs = Some x"
  by (metis find_Some_D find_None_set option.exhaust)

lemma find_key_distinct:
  "distinct (map key rows) \<Longrightarrow> r \<in> set rows \<Longrightarrow> find (\<lambda>x. key x = key r) rows = Some r"
  by (intro find_unique) (simp_all add: distinct_map inj_on_def)

text \<open>\<open>INSERT ... ON CONFLICT (key) DO UPDATE SET\<close> with a merge of the columns.\<close>

definition put_row :: "('r \<Rightarrow> 'k) \<Rightarrow> 'k \<Rightarrow> ('r \<Rightarrow> 'r) \<Rightarrow> 'r \<Rightarrow> 'r list \<Rightarrow> 'r list" where
  "put_row key k f new rows = (if k \<in> key ` set rows then update_where (\<lambda>r. key r = k) f rows else rows @ [new])"

lemma find_put_row:
  assumes f: "\<And>r. key (f r) = key r" and new: "key new = k"
  shows "find (\<lambda>r. key r = k') (put_row key k f new rows) =
    (if k' = k then Some (case find (\<lambda>r. key r = k) rows of None \<Rightarrow> new | Some r \<Rightarrow> f r) else find (\<lambda>r. key r = k') rows)"
proof (cases "k \<in> key ` set rows")
  case True
  then obtain r where "find (\<lambda>r. key r = k) rows = Some r" by (metis (mono_tags, lifting) find_None_iff imageE not_None_eq)
  then show ?thesis using True find_update_where_same [of "\<lambda>r. key r = k" f "\<lambda>r. key r = k" rows] find_update_where_other [of "\<lambda>r. key r = k'" f "\<lambda>r. key r = k" rows]
    by (cases "k' = k") (simp_all add: put_row_def f)
next
  case False
  then have "find (\<lambda>r. key r = k) rows = None" by (auto simp: find_None_iff)
  then show ?thesis using False new by (simp add: put_row_def find_append_single split: option.split)
qed

lemma set_put_row: "set (put_row key k f new rows) =
   (if k \<in> key ` set rows then f ` {r \<in> set rows. key r = k} \<union> {r \<in> set rows. key r \<noteq> k} else insert new (set rows))"
  by (simp add: put_row_def set_update_where)

lemma map_put_row:
  assumes "\<And>r. g (f r) = g r"
  shows "map g (put_row key k f new rows) = (if k \<in> key ` set rows then map g rows else map g rows @ [g new])"
  by (simp add: put_row_def map_update_where assms)

lemma distinct_put_row:
  assumes "\<And>r. key (f r) = key r" and "key new = k"
  shows "distinct (map key rows) \<Longrightarrow> distinct (map key (put_row key k f new rows))"
  by (simp add: map_put_row assms)

section \<open>Ordered reads\<close>

lemma filter_sort_key: "filter P (sort_key f xs) = sort_key f (filter P xs)"
  by (rule filter_sort)

lemma sort_key_perm:
  assumes "mset xs = mset ys" and "inj_on f (set xs)"
  shows "sort_key f xs = sort_key f ys"
  using assms by (intro sort_key_inj_key_eq) auto

lemma sorted_strict:
  fixes f :: "'a \<Rightarrow> 'k::linorder"
  assumes "distinct (map f xs)" shows "sorted_wrt (\<lambda>a b. f a < f b) (sort_key f xs)"
proof -
  have "distinct (map f (sort_key f xs))"
    using assms by (simp add: distinct_map)
  then have "sorted_wrt (<) (map f (sort_key f xs))"
    by (simp add: strict_sorted_iff)
  then show ?thesis by (simp add: sorted_wrt_map)
qed

lemma page_of_sorted:
  "take n (sort_key f (filter (\<lambda>r. P r \<and> cur < f r) xs)) =
   take n (filter (\<lambda>r. cur < f r) (sort_key f (filter P xs)))"
  by (simp add: filter_sort_key conj_commute)

section \<open>The paging loop\<close>

text \<open>
  The loop every streaming read of the sources has: fetch the page after the cursor, stop on an
  empty page, process the page, stop on a short page, go on from the last key. The fuel bounds the
  number of pages; \<open>keyset.loop_fuel\<close> shows that more fuel than rows changes nothing.
\<close>

fun page_loop ::
  "nat \<Rightarrow> ('k \<Rightarrow> ('s, 'r list) prog) \<Rightarrow> ('r \<Rightarrow> 'k) \<Rightarrow> nat \<Rightarrow> ('r list \<Rightarrow> 'b \<Rightarrow> ('s, 'b) prog) \<Rightarrow>
     'k \<Rightarrow> 'b \<Rightarrow> ('s, 'b) prog" where
  "page_loop 0 fetch key limit body cursor b = throwE ErrFuel"
| "page_loop (Suc n) fetch key limit body cursor b =
     bindE (fetch cursor) (\<lambda>page.
     if page = [] then retE b
     else bindE (body page b) (\<lambda>b'.
       if length page < limit then retE b'
       else page_loop n fetch key limit body (key (last page)) b'))"

lemma leaves_page_loop [frame_intros]:
  "(\<And>c. leaves p (fetch c)) \<Longrightarrow> (\<And>pg b. leaves p (body pg b)) \<Longrightarrow>
     leaves p (page_loop n fetch key limit body cur b)"
  by (induction n arbitrary: cur b) (auto intro!: frame_intros)

lemma keeps_page_loop [keep_intros]:
  "(\<And>c. keeps I (fetch c)) \<Longrightarrow> (\<And>pg b. keeps I (body pg b)) \<Longrightarrow>
     keeps I (page_loop n fetch key limit body cur b)"
  by (induction n arbitrary: cur b) (auto intro!: keep_intros)

locale keyset =
  fixes lt :: "'k \<Rightarrow> 'k \<Rightarrow> bool"
    and key :: "'r \<Rightarrow> 'k"
    and rows :: "'s \<Rightarrow> 'r list"
    and inv :: "'s \<Rightarrow> bool"
    and fetch :: "'k \<Rightarrow> nat \<Rightarrow> ('s, 'r list) prog"
  assumes lt_irrefl: "\<not> lt a a"
    and lt_trans: "lt a b \<Longrightarrow> lt b c \<Longrightarrow> lt a c"
    and rows_sorted: "inv s \<Longrightarrow> sorted_wrt (\<lambda>a b. lt (key a) (key b)) (rows s)"
    and fetch_page: "fetch cur n s = (Inr page, s') \<Longrightarrow> page = take n (filter (\<lambda>r. lt cur (key r)) (rows s))"
    and fetch_rows: "leaves rows (fetch cur n)"
    and fetch_inv: "keeps inv (fetch cur n)"
begin

definition after :: "'k \<Rightarrow> 's \<Rightarrow> 'r list" where
  "after cur s = filter (\<lambda>r. lt cur (key r)) (rows s)"

lemma after_last:
  assumes "inv s" and page: "page = take n (after cur s)" and "page \<noteq> []"
  shows "after (key (last page)) s = drop n (after cur s)"
proof -
  let ?xs = "after cur s" and ?l = "key (last page)"
  have srt: "sorted_wrt (\<lambda>a b. lt (key a) (key b)) ?xs"
    unfolding after_def by (intro sorted_wrt_filter rows_sorted assms)
  have split: "?xs = page @ drop n ?xs" using page by simp
  have "last page \<in> set ?xs" using assms(3) split by (metis Un_iff last_in_set set_append)
  then have "lt cur ?l" by (simp add: after_def)
  then have "after ?l s = filter (\<lambda>r. lt ?l (key r)) ?xs"
    by (auto simp: after_def intro!: filter_cong dest: lt_trans)
  also have "\<dots> = filter (\<lambda>r. lt ?l (key r)) page @ filter (\<lambda>r. lt ?l (key r)) (drop n ?xs)"
    by (subst split) simp
  also have "filter (\<lambda>r. lt ?l (key r)) page = []"
  proof -
    have pg: "page = butlast page @ [last page]" using assms(3) by simp
    have "sorted_wrt (\<lambda>a b. lt (key a) (key b)) (butlast page @ [last page])"
      using srt split pg by (metis sorted_wrt_append)
    then have "\<forall>a \<in> set (butlast page). lt (key a) ?l" by (simp add: sorted_wrt_append)
    then have "\<forall>a \<in> set (butlast page @ [last page]). \<not> lt ?l (key a)"
      by simp (metis lt_irrefl lt_trans)
    then show ?thesis using pg by (simp add: filter_empty_conv)
  qed
  also have "filter (\<lambda>r. lt ?l (key r)) (drop n ?xs) = drop n ?xs"
  proof -
    have "sorted_wrt (\<lambda>a b. lt (key a) (key b)) (page @ drop n ?xs)" using srt split by simp
    then have "\<forall>a \<in> set (drop n ?xs). lt ?l (key a)"
      using assms(3) by (auto simp: sorted_wrt_append)
    then show ?thesis by (simp add: filter_id_conv)
  qed
  finally show ?thesis by simp
qed

text \<open>A property of the rows still to come, kept by fetches and by the body, reaches the end.\<close>

lemma loop_rule:
  assumes run: "page_loop fuel (\<lambda>c. fetch c n) key n body cur b s = (Inr b', s')"
    and n: "0 < n"
    and const: "\<And>rest b s. P rest b s \<Longrightarrow> inv s \<and> rows s = R"
    and init: "P (after cur s) b s"
    and fetch_ok: "\<And>rest b s c page s'. P rest b s \<Longrightarrow> fetch c n s = (Inr page, s') \<Longrightarrow> P rest b s'"
    and body_ok: "\<And>page rest b s b' s'. P (page @ rest) b s \<Longrightarrow> page \<noteq> [] \<Longrightarrow>
      body page b s = (Inr b', s') \<Longrightarrow> P rest b' s'"
  shows "P [] b' s'"
  using run init
proof (induction fuel arbitrary: cur b s)
  case 0
  then show ?case by (simp add: throwE_def)
next
  case (Suc fuel)
  from Suc.prems(1) obtain page s1 where f: "fetch cur n s = (Inr page, s1)"
    and rest: "(if page = [] then retE b else bindE (body page b) (\<lambda>b'.
       if length page < n then retE b'
       else page_loop fuel (\<lambda>c. fetch c n) key n body (key (last page)) b')) s1 = (Inr b', s')"
    by (auto simp: bindE_Inr)
  note pg = fetch_page [OF f, folded after_def]
  have P1: "P (after cur s) b s1" using Suc.prems(2) f by (rule fetch_ok)
  have inv: "inv s" and R: "rows s = R" using const [OF Suc.prems(2)] by auto
  show ?case
  proof (cases "page = []")
    case True
    then have "after cur s = []" using pg n by simp
    with True rest P1 show ?thesis by (simp add: retE_def)
  next
    case False
    from rest False obtain b1 s2 where bd: "body page b s1 = (Inr b1, s2)"
      and cont: "(if length page < n then retE b1
         else page_loop fuel (\<lambda>c. fetch c n) key n body (key (last page)) b1) s2 = (Inr b', s')"
      by (auto simp: bindE_Inr)
    have "P (page @ drop n (after cur s)) b s1" using P1 pg by simp
    from body_ok [OF this False bd] have P2: "P (drop n (after cur s)) b1 s2" .
    show ?thesis
    proof (cases "length page < n")
      case True
      then have "drop n (after cur s) = []" using pg by simp
      with True cont P2 show ?thesis by (simp add: retE_def)
    next
      case more: False
      have "rows s2 = rows s" using const [OF P2] R by simp
      then have "after (key (last page)) s2 = after (key (last page)) s" by (simp add: after_def)
      also have "\<dots> = drop n (after cur s)" using inv pg False by (rule after_last)
      finally have "P (after (key (last page)) s2) b1 s2" using P2 by simp
      with more cont Suc.IH show ?thesis by auto
    qed
  qed
qed

text \<open>Any fuel above the number of rows left gives the same run.\<close>

lemma loop_fuel:
  assumes body_rows: "\<And>page b. leaves rows (body page b)" and body_inv: "\<And>page b. keeps inv (body page b)"
    and n: "0 < n" and "inv s" and "length (after cur s) < f1" and "length (after cur s) < f2"
  shows "page_loop f1 (\<lambda>c. fetch c n) key n body cur b s = page_loop f2 (\<lambda>c. fetch c n) key n body cur b s"
  using assms(4-6)
proof (induction f1 arbitrary: f2 cur b s)
  case 0
  then show ?case by simp
next
  case (Suc f1)
  from Suc.prems(3) obtain g2 where f2: "f2 = Suc g2" by (cases f2) auto
  show ?case
  proof (cases "fetch cur n s")
    case (Pair r s1)
    show ?thesis
    proof (cases r)
      case (Inl e)
      with Pair f2 show ?thesis by (simp add: bindE_def)
    next
      case (Inr page)
      have f: "fetch cur n s = (Inr page, s1)" using Pair Inr by simp
      note pg = fetch_page [OF f, folded after_def]
      have inv1: "inv s1" using keepsD [OF fetch_inv Suc.prems(1) f] .
      have rows1: "rows s1 = rows s" using leavesD [OF fetch_rows f] .
      show ?thesis
      proof (cases "page = []")
        case True
        with f f2 show ?thesis by (simp add: bindE_def)
      next
        case False
        show ?thesis
        proof (cases "body page b s1")
          case (Pair r2 s2)
          have inv2: "inv s2" using keepsD [OF body_inv inv1 Pair] .
          have rows2: "rows s2 = rows s" using leavesD [OF body_rows Pair] rows1 by simp
          have "after (key (last page)) s2 = drop n (after cur s)"
            using after_last [OF Suc.prems(1) pg False] rows2 by (simp add: after_def)
          then have shorter: "length (after (key (last page)) s2) < length (after cur s)"
            using n pg False by (cases "after cur s") auto
          have "page_loop f1 (\<lambda>c. fetch c n) key n body (key (last page)) b' s2 =
                page_loop g2 (\<lambda>c. fetch c n) key n body (key (last page)) b' s2" for b'
            using Suc.prems(2,3) f2 shorter by (intro Suc.IH inv2) auto
          with f f2 False Pair show ?thesis by (auto simp: bindE_def split: sum.splits)
        qed
      qed
    qed
  qed
qed

end

context keyset
begin

text \<open>The rows beyond the last row seen, in a table that ends with them.\<close>

lemma filter_beyond:
  assumes srt: "sorted_wrt (\<lambda>a b. lt (key a) (key b)) (xs @ ys)" and ne: "xs \<noteq> []"
  shows "filter (\<lambda>r. lt (key (last xs)) (key r)) (xs @ ys) = ys"
proof -
  have xs: "xs = butlast xs @ [last xs]" using ne by simp
  have "sorted_wrt (\<lambda>a b. lt (key a) (key b)) ((butlast xs @ [last xs]) @ ys)" using srt xs by simp
  then have before: "\<forall>a \<in> set (butlast xs). lt (key a) (key (last xs))" and beyond: "\<forall>a \<in> set ys. lt (key (last xs)) (key a)"
    by (simp_all add: sorted_wrt_append)
  have "\<forall>a \<in> set (butlast xs @ [last xs]). \<not> lt (key (last xs)) (key a)"
    using before by simp (metis lt_irrefl lt_trans)
  then have "filter (\<lambda>r. lt (key (last xs)) (key r)) xs = []" using xs by (simp add: filter_empty_conv)
  moreover have "filter (\<lambda>r. lt (key (last xs)) (key r)) ys = ys" using beyond by (simp add: filter_id_conv)
  ultimately show ?thesis by simp
qed

text \<open>
  The loop over a table whose rows the body rewrites: it may change the rows of its page, not their
  keys, and it sees every row of the start state once, in order, as it was.
\<close>

lemma loop_rule_update:
  assumes run: "page_loop fuel (\<lambda>c. fetch c n) key n body cur b s = (Inr b', s')" and n: "0 < n"
    and const: "\<And>seen rest b s. P seen rest b s \<Longrightarrow> inv s \<and> rows s = seen @ rest"
    and init: "P [] (rows s) b s" and start: "after cur s = rows s"
    and fetch_ok: "\<And>seen rest b s c page s'. P seen rest b s \<Longrightarrow> fetch c n s = (Inr page, s') \<Longrightarrow> P seen rest b s'"
    and body_ok: "\<And>seen page rest b s b' s'. P seen (page @ rest) b s \<Longrightarrow> page \<noteq> [] \<Longrightarrow> body page b s = (Inr b', s') \<Longrightarrow>
      \<exists>page'. P (seen @ page') rest b' s' \<and> map key page' = map key page"
  shows "\<exists>seen. P seen [] b' s'"
proof -
  have "\<exists>seen'. P seen' [] b' s'"
    if "page_loop fuel (\<lambda>c. fetch c n) key n body cur b s = (Inr b', s')" "P seen rest b s" "after cur s = rest" for cur b s seen rest
    using that
  proof (induction fuel arbitrary: cur b s seen rest)
    case 0
    then show ?case by (simp add: throwE_def)
  next
    case (Suc fuel)
    from Suc.prems(1) obtain page s1 where f: "fetch cur n s = (Inr page, s1)"
      and cont: "(if page = [] then retE b else bindE (body page b) (\<lambda>b'.
         if length page < n then retE b'
         else page_loop fuel (\<lambda>c. fetch c n) key n body (key (last page)) b')) s1 = (Inr b', s')"
      by (auto simp: bindE_Inr)
    have pg: "page = take n rest" using fetch_page [OF f] Suc.prems(3) by (simp add: after_def)
    have P1: "P seen rest b s1" using Suc.prems(2) f by (rule fetch_ok)
    show ?case
    proof (cases "page = []")
      case True
      then have "rest = []" using pg n by simp
      with True cont P1 show ?thesis by (auto simp: retE_def)
    next
      case False
      from cont False obtain b1 s2 where bd: "body page b s1 = (Inr b1, s2)"
        and more: "(if length page < n then retE b1
           else page_loop fuel (\<lambda>c. fetch c n) key n body (key (last page)) b1) s2 = (Inr b', s')"
        by (auto simp: bindE_Inr)
      have "P seen (page @ drop n rest) b s1" using P1 pg by simp
      from body_ok [OF this False bd] obtain page' where P2: "P (seen @ page') (drop n rest) b1 s2" and keys: "map key page' = map key page"
        by blast
      show ?thesis
      proof (cases "length page < n")
        case True
        then have "drop n rest = []" using pg by simp
        with True more P2 show ?thesis by (auto simp: retE_def)
      next
        case go: False
        have ne: "page' \<noteq> []" using False keys by auto
        then have "key (last page') = key (last page)" using keys False by (metis last_map)
        moreover have "rows s2 = (seen @ page') @ drop n rest" "inv s2" using const [OF P2] by simp_all
        ultimately have "after (key (last page)) s2 = drop n rest"
          using filter_beyond [of "seen @ page'" "drop n rest"] rows_sorted [of s2] ne by (simp add: after_def)
        from Suc.IH [OF _ P2 this] more go show ?thesis by simp
      qed
    qed
  qed
  from this [OF run init start] show ?thesis .
qed

text \<open>The same loop never stops short: enough fuel, fetches and rounds that return, make it return.\<close>

lemma loop_total_update:
  assumes n: "0 < n"
    and const: "\<And>seen rest b s. P seen rest b s \<Longrightarrow> inv s \<and> rows s = seen @ rest"
    and init: "P [] (rows s) b s" and start: "after cur s = rows s" and fuel: "length (rows s) < fuel"
    and fetch_ok: "\<And>seen rest b s c. P seen rest b s \<Longrightarrow> \<exists>page s'. fetch c n s = (Inr page, s') \<and> P seen rest b s'"
    and body_ok: "\<And>seen page rest b s. P seen (page @ rest) b s \<Longrightarrow> page \<noteq> [] \<Longrightarrow>
      \<exists>b' s' page'. body page b s = (Inr b', s') \<and> P (seen @ page') rest b' s' \<and> map key page' = map key page"
  shows "\<exists>b' s'. page_loop fuel (\<lambda>c. fetch c n) key n body cur b s = (Inr b', s')"
proof -
  have "\<exists>b' s'. page_loop fuel (\<lambda>c. fetch c n) key n body cur b s = (Inr b', s')"
    if "P seen rest b s" "after cur s = rest" "length rest < fuel" for fuel cur b s seen rest
    using that
  proof (induction fuel arbitrary: cur b s seen rest)
    case (Suc fuel)
    from fetch_ok [OF Suc.prems(1)] obtain page s1 where f: "fetch cur n s = (Inr page, s1)" and P1: "P seen rest b s1" by blast
    have pg: "page = take n rest" using fetch_page [OF f] Suc.prems(2) by (simp add: after_def)
    show ?case
    proof (cases "page = []")
      case True
      with f show ?thesis by (simp add: bindE_step_Inr [where m = "fetch cur n", OF f] retE_def)
    next
      case False
      have "P seen (page @ drop n rest) b s1" using P1 pg by simp
      from body_ok [OF this False] obtain b1 s2 page' where bd: "body page b s1 = (Inr b1, s2)"
        and P2: "P (seen @ page') (drop n rest) b1 s2" and keys: "map key page' = map key page" by blast
      have step: "page_loop (Suc fuel) (\<lambda>c. fetch c n) key n body cur b s =
          (if length page < n then retE b1 else page_loop fuel (\<lambda>c. fetch c n) key n body (key (last page)) b1) s2"
        using False by (simp add: bindE_step_Inr [where m = "fetch cur n", OF f] bindE_step_Inr [where m = "body page b", OF bd])
      have ne: "page' \<noteq> []" using False keys by auto
      then have "key (last page') = key (last page)" using keys False by (metis last_map)
      moreover have "rows s2 = (seen @ page') @ drop n rest" "inv s2" using const [OF P2] by simp_all
      ultimately have "after (key (last page)) s2 = drop n rest"
        using filter_beyond [of "seen @ page'" "drop n rest"] rows_sorted [of s2] ne by (simp add: after_def)
      moreover have "length (drop n rest) < fuel" using Suc.prems(3) n False pg by (cases rest) auto
      ultimately show ?thesis unfolding step using Suc.IH [OF P2] by (auto simp: retE_def)
    qed
  qed simp
  from this [OF init start fuel] show ?thesis .
qed

end

end
