(* ===== verification/Engine.thy ===== *)
theory Engine imports GovTypes Tables begin

text \<open>
  The ownership engine: the precedence ladder (\<open>ownership/precedence.go\<close>), rule compilation and
  matching (\<open>ownership/engine.go\<close>) and the decision core (\<open>ownership/decision.go\<close>). It is pure:
  rules and signals in, a decision out.
\<close>

section \<open>The precedence ladder\<close>

fun ordinalOf :: "PrecedenceTier \<Rightarrow> int option" where
  "ordinalOf PrecedenceExplicit = Some 1"
| "ordinalOf PrecedenceServiceMember = Some 2"
| "ordinalOf PrecedenceAgentGroup = Some 3"
| "ordinalOf PrecedenceSANPattern = Some 4"
| "ordinalOf PrecedenceSubjectPattern = Some 5"
| "ordinalOf PrecedenceTag = Some 6"
| "ordinalOf PrecedenceIssuerStore = Some 7"
| "ordinalOf PrecedenceFallback = Some 8"
| "ordinalOf (TierOther _) = None"

fun confidenceForTier :: "PrecedenceTier \<Rightarrow> Confidence" where
  "confidenceForTier PrecedenceExplicit = ConfidenceHigh"
| "confidenceForTier PrecedenceServiceMember = ConfidenceHigh"
| "confidenceForTier PrecedenceAgentGroup = ConfidenceMedium"
| "confidenceForTier PrecedenceSANPattern = ConfidenceMedium"
| "confidenceForTier PrecedenceSubjectPattern = ConfidenceMedium"
| "confidenceForTier PrecedenceTag = ConfidenceMedium"
| "confidenceForTier _ = ConfidenceLow"

section \<open>Globs\<close>

text \<open>
  \<open>compileGlob\<close> writes the expression \<open>(?i)^...$\<close> with \<open>.*\<close> for a star, \<open>.\<close> for a question mark and the quoted character otherwise, and
  hands it to \<open>regexp.MustCompile\<close>. Of Go's \<open>regexp\<close> package the model has what such an expression uses: \<open>QuoteMeta\<close>, the reading of these forms into
  tokens (anything else is not read), and the anchored match without regard to case, in which \<open>.\<close> does not match a newline (the expression
  has no \<open>s\<close> flag) and \<open>$\<close> is the end of the text. \<open>MustCompile\<close> panics on an expression that is not read; \<open>glob_source_read\<close> shows that every glob is.
\<close>

datatype gtok = GStar | GAny | GLit char

definition regexp_meta :: string where
  "regexp_meta = CHR 0x5C # ''.+*?()|[]{}^$''"

definition QuoteMeta :: "string \<Rightarrow> string" where
  "QuoteMeta s = concat (map (\<lambda>c. if c \<in> set regexp_meta then [CHR 0x5C, c] else [c]) s)"

definition glob_char :: "char \<Rightarrow> string" where
  "glob_char r = (if r = CHR ''*'' then ''.*'' else if r = CHR ''?'' then ''.'' else QuoteMeta [r])"

definition glob_source :: "string \<Rightarrow> string" where
  "glob_source pattern = ''(?i)^'' @ concat (map glob_char pattern) @ ''$''"

fun re_body :: "string \<Rightarrow> gtok list option" where
  "re_body [] = None"
| "re_body (c # t) =
     (if c = CHR ''$'' then (if t = [] then Some [] else None)
      else if c = CHR 0x5C then (case t of [] \<Rightarrow> None | d # u \<Rightarrow> map_option (Cons (GLit d)) (re_body u))
      else if c = CHR ''.'' then
        (case t of [] \<Rightarrow> None
         | d # u \<Rightarrow> if d = CHR ''*'' then map_option (Cons GStar) (re_body u) else map_option (Cons GAny) (re_body (d # u)))
      else if c \<in> set regexp_meta then None
      else map_option (Cons (GLit c)) (re_body t))"

definition re_tokens :: "string \<Rightarrow> gtok list option" where
  "re_tokens src = (if take 5 src = ''(?i)^'' then re_body (drop 5 src) else None)"

definition compileGlob :: "string \<Rightarrow> gtok list" where
  "compileGlob pattern = the (re_tokens (glob_source pattern))"

fun glob_match :: "gtok list \<Rightarrow> string \<Rightarrow> bool" where
  "glob_match [] s = (s = [])"
| "glob_match (GLit c # ts) [] = False"
| "glob_match (GLit c # ts) (x # xs) = (fold_upper c = fold_upper x \<and> glob_match ts xs)"
| "glob_match (GAny # ts) [] = False"
| "glob_match (GAny # ts) (x # xs) = (x \<noteq> CHR 0x0A \<and> glob_match ts xs)"
| "glob_match (GStar # ts) [] = glob_match ts []"
| "glob_match (GStar # ts) (x # xs) =
     (glob_match ts (x # xs) \<or> (x \<noteq> CHR 0x0A \<and> glob_match (GStar # ts) xs))"

section \<open>Compiled rules\<close>

definition maxRegexPatternLen :: nat where "maxRegexPatternLen = 1024"

record ruleCompileFailure =
  cf_RuleID :: string
  cf_Reason :: string

record compiledRule =
  cr_rule :: OwnershipRule
  cr_ordinal :: int
  cr_re :: "(string \<Rightarrow> bool) option"
  cr_tagKey :: string
  cr_tagValue :: string
  cr_tagHasVal :: bool
  cr_compileErr :: bool

definition compileRegex :: "env \<Rightarrow> string \<Rightarrow> string + (string \<Rightarrow> bool)" where
  "compileRegex env pattern =
     (if length pattern > maxRegexPatternLen
      then Inl (''pattern length '' @ itoa (length pattern) @ '' exceeds cap '' @ itoa maxRegexPatternLen)
      else case regexpCompile env pattern of
             Inl msg \<Rightarrow> Inl (''invalid regex: '' @ msg)
           | Inr re \<Rightarrow> Inr re)"

definition parseTagMatch :: "string \<Rightarrow> string \<times> string \<times> bool" where
  "parseTagMatch matchValue =
     (case IndexByte (CHR '':'') matchValue of
        Some i \<Rightarrow> (take i matchValue, drop (Suc i) matchValue, True)
      | None \<Rightarrow> (matchValue, [], False))"

fun parseCN_parts :: "string list \<Rightarrow> string" where
  "parseCN_parts [] = []"
| "parseCN_parts (part # parts) =
     (let p = TrimSpace part in
      if 3 \<le> length p \<and> EqualFold (take 3 p) ''CN='' then drop 3 p else parseCN_parts parts)"

definition parseCN :: "string \<Rightarrow> string" where
  "parseCN subject = parseCN_parts (Split (CHR '','') subject)"

text \<open>One round of the compile loop: the compiled rule, if it is kept, and its failure, if any.\<close>

definition compileRule :: "env \<Rightarrow> OwnershipRule \<Rightarrow> err + (compiledRule list \<times> ruleCompileFailure list)" where
  "compileRule env r =
     (if rl_PrecedenceTier r = PrecedenceServiceMember then Inr ([], [])
      else case ordinalOf (rl_PrecedenceTier r) of
        None \<Rightarrow> Inl ErrUnknownPrecedenceTier
      | Some ord \<Rightarrow>
          (let cr = \<lparr>cr_rule = r, cr_ordinal = ord, cr_re = None, cr_tagKey = [], cr_tagValue = [],
                     cr_tagHasVal = False, cr_compileErr = False\<rparr> in
           case rl_MatchKind r of
             MatchFallback \<Rightarrow> Inr ([cr], [])
           | MatchAgentGroup \<Rightarrow> Inr ([cr], [])
           | MatchIssuerDN \<Rightarrow> Inr ([cr], [])
           | MatchStoreLocation \<Rightarrow> Inr ([cr], [])
           | MatchSANGlob \<Rightarrow> Inr ([cr\<lparr>cr_re := Some (glob_match (compileGlob (rl_MatchValue r)))\<rparr>], [])
           | MatchSubjectCNGlob \<Rightarrow> Inr ([cr\<lparr>cr_re := Some (glob_match (compileGlob (rl_MatchValue r)))\<rparr>], [])
           | MatchSANRegex \<Rightarrow>
               (case compileRegex env (rl_MatchValue r) of
                  Inl reason \<Rightarrow> Inr ([cr\<lparr>cr_compileErr := True\<rparr>], [\<lparr>cf_RuleID = rl_ID r, cf_Reason = reason\<rparr>])
                | Inr re \<Rightarrow> Inr ([cr\<lparr>cr_re := Some re\<rparr>], []))
           | MatchTag \<Rightarrow>
               (case parseTagMatch (rl_MatchValue r) of
                  (k, v, h) \<Rightarrow> Inr ([cr\<lparr>cr_tagKey := k, cr_tagValue := v, cr_tagHasVal := h\<rparr>], []))
           | KindOther _ \<Rightarrow> Inl ErrUnknownMatchKind))"

fun compileLoop :: "env \<Rightarrow> OwnershipRule list \<Rightarrow> err + (compiledRule list \<times> ruleCompileFailure list)" where
  "compileLoop env [] = Inr ([], [])"
| "compileLoop env (r # rs) =
     (case compileRule env r of
        Inl e \<Rightarrow> Inl e
      | Inr (c, f) \<Rightarrow>
          (case compileLoop env rs of
             Inl e \<Rightarrow> Inl e
           | Inr (cs, fs) \<Rightarrow> Inr (c @ cs, f @ fs)))"

text \<open>The engine walk order, and the whole of \<open>compileRules\<close>.\<close>

definition walk_key :: "compiledRule \<Rightarrow> int \<times> int \<times> Time \<times> string" where
  "walk_key c = (cr_ordinal c, rl_Priority (cr_rule c), rl_CreatedAt (cr_rule c), rl_ID (cr_rule c))"

definition compileRules :: "env \<Rightarrow> OwnershipRule list \<Rightarrow> err + (compiledRule list \<times> ruleCompileFailure list)" where
  "compileRules env rules =
     (case compileLoop env rules of
        Inl e \<Rightarrow> Inl e
      | Inr (compiled, failures) \<Rightarrow> Inr (sort_key walk_key compiled, failures))"

definition containsString :: "string list \<Rightarrow> string \<Rightarrow> bool" where
  "containsString xs want = list_ex (\<lambda>s. s = want) xs"

definition matchesTag :: "TagPair list \<Rightarrow> compiledRule \<Rightarrow> bool" where
  "matchesTag tags cr =
     list_ex (\<lambda>(k, v). k = cr_tagKey cr \<and> (\<not> cr_tagHasVal cr \<or> v = cr_tagValue cr)) tags"

text \<open>
  Calling a method on a nil \<open>*regexp.Regexp\<close> panics. No compiled rule gets there
  (\<open>compiled_re_present\<close>), so the value on \<open>None\<close> is never used.
\<close>

definition MatchString :: "(string \<Rightarrow> bool) option \<Rightarrow> string \<Rightarrow> bool" where
  "MatchString re s = (case re of None \<Rightarrow> False | Some f \<Rightarrow> f s)"

definition matches :: "compiledRule \<Rightarrow> CertificateSignals \<Rightarrow> bool" where
  "matches cr sig =
     (if cr_compileErr cr then False
      else case rl_MatchKind (cr_rule cr) of
        MatchFallback \<Rightarrow> True
      | MatchSANGlob \<Rightarrow> list_ex (MatchString (cr_re cr)) (sg_SANs sig)
      | MatchSANRegex \<Rightarrow> list_ex (MatchString (cr_re cr)) (sg_SANs sig)
      | MatchSubjectCNGlob \<Rightarrow> (let cn = parseCN (sg_Subject sig) in cn \<noteq> [] \<and> MatchString (cr_re cr) cn)
      | MatchAgentGroup \<Rightarrow> containsString (sg_ObservingAgentGroupIDs sig) (rl_MatchValue (cr_rule cr))
      | MatchIssuerDN \<Rightarrow> sg_Issuer sig = rl_MatchValue (cr_rule cr)
      | MatchStoreLocation \<Rightarrow> containsString (sg_StoreLocations sig) (rl_MatchValue (cr_rule cr))
      | MatchTag \<Rightarrow> matchesTag (sg_CertTags sig) cr \<or> matchesTag (sg_AgentTags sig) cr
      | KindOther _ \<Rightarrow> False)"

section \<open>Decisions\<close>

definition maxLosingRules :: nat where "maxLosingRules = 8"

record losingRuleInfo =
  lr_ruleID :: string
  lr_name :: string
  lr_tier :: PrecedenceTier
  lr_priority :: int
  lr_reason :: string

record ownershipDecision =
  d_decision :: Decision
  d_serviceID :: "string option"
  d_winningRuleID :: "string option"
  d_overrideID :: "string option"
  d_confidence :: Confidence
  d_losing :: "losingRuleInfo list"

definition overrideActive :: "CertificateOwnershipOverride option \<Rightarrow> Time \<Rightarrow> bool" where
  "overrideActive ov now =
     (case ov of
        None \<Rightarrow> False
      | Some r \<Rightarrow> (case ov_ExpiresAt r of None \<Rightarrow> True | Some t \<Rightarrow> t > now))"

definition reasonNotChosen :: "OwnershipRule \<Rightarrow> OwnershipRule \<Rightarrow> string" where
  "reasonNotChosen l w =
     (if rl_PrecedenceTier l \<noteq> rl_PrecedenceTier w
      then ''lower precedence than '' @ tier_string (rl_PrecedenceTier w)
      else if rl_Priority l \<noteq> rl_Priority w then ''same tier, lower priority than winner''
      else if rl_CreatedAt l \<noteq> rl_CreatedAt w then ''same tier, same priority, later created_at than winner''
      else ''tied with winner; tiebreaker on id'')"

definition losing_info :: "compiledRule \<Rightarrow> compiledRule \<Rightarrow> losingRuleInfo" where
  "losing_info winner m =
     \<lparr>lr_ruleID = rl_ID (cr_rule m), lr_name = rl_Name (cr_rule m),
      lr_tier = rl_PrecedenceTier (cr_rule m), lr_priority = rl_Priority (cr_rule m),
      lr_reason = reasonNotChosen (cr_rule m) (cr_rule winner)\<rparr>"

text \<open>The loop of \<open>buildLosing\<close>: append until the list holds \<open>maxLosingRules\<close> entries.\<close>

fun buildLosing_loop :: "compiledRule \<Rightarrow> compiledRule list \<Rightarrow> losingRuleInfo list \<Rightarrow> losingRuleInfo list" where
  "buildLosing_loop winner [] out = out"
| "buildLosing_loop winner (m # ms) out =
     (let out' = out @ [losing_info winner m] in
      if length out' = maxLosingRules then out' else buildLosing_loop winner ms out')"

definition buildLosing :: "compiledRule list \<Rightarrow> compiledRule \<Rightarrow> losingRuleInfo list" where
  "buildLosing matched winner =
     (if length matched \<le> 1 then [] else buildLosing_loop winner (tl matched) [])"

definition tied_with :: "compiledRule \<Rightarrow> compiledRule \<Rightarrow> bool" where
  "tied_with winner m \<longleftrightarrow>
     rl_PrecedenceTier (cr_rule m) = rl_PrecedenceTier (cr_rule winner) \<and>
     rl_Priority (cr_rule m) = rl_Priority (cr_rule winner) \<and>
     rl_CreatedAt (cr_rule m) = rl_CreatedAt (cr_rule winner)"

definition decideOwnership ::
  "CertificateSignals \<Rightarrow> CertificateOwnershipOverride option \<Rightarrow> compiledRule list \<Rightarrow> Time \<Rightarrow> ownershipDecision" where
  "decideOwnership sig ov rules now =
     (if overrideActive ov now then
        \<lparr>d_decision = DecisionOverridden, d_serviceID = map_option ov_ServiceID ov, d_winningRuleID = None,
         d_overrideID = map_option ov_ID ov, d_confidence = ConfidenceHigh, d_losing = []\<rparr>
      else case filter (\<lambda>cr. matches cr sig) rules of
        [] \<Rightarrow> \<lparr>d_decision = DecisionUnowned, d_serviceID = None, d_winningRuleID = None,
              d_overrideID = None, d_confidence = ConfidenceLow, d_losing = []\<rparr>
      | winner # others \<Rightarrow>
          (let matched = winner # others;
               tied = length (filter (tied_with winner) matched) in
           \<lparr>d_decision = (if tied > 1 then DecisionAmbiguous else DecisionMatched),
            d_serviceID = Some (rl_ServiceID (cr_rule winner)),
            d_winningRuleID = Some (rl_ID (cr_rule winner)), d_overrideID = None,
            d_confidence = confidenceForTier (rl_PrecedenceTier (cr_rule winner)),
            d_losing = buildLosing matched winner\<rparr>))"

section \<open>Globs: the declarative reading\<close>

text \<open>What a character of a pattern stands for.\<close>

definition piece_ok :: "char \<Rightarrow> string \<Rightarrow> bool" where
  "piece_ok c w \<longleftrightarrow>
     (if c = CHR ''*'' then CHR 0x0A \<notin> set w
      else length w = 1 \<and> (if c = CHR ''?'' then hd w \<noteq> CHR 0x0A else fold_upper c = fold_upper (hd w)))"

definition glob_tok :: "char \<Rightarrow> gtok" where
  "glob_tok r = (if r = CHR ''*'' then GStar else if r = CHR ''?'' then GAny else GLit r)"

text \<open>The expression a glob is written as reads back as one token for each character.\<close>

lemma re_body_forms:
  "re_body ''$'' = Some []"
  "re_body (CHR ''.'' # CHR ''*'' # u) = map_option (Cons GStar) (re_body u)"
  "d \<noteq> CHR ''*'' \<Longrightarrow> re_body (CHR ''.'' # d # u) = map_option (Cons GAny) (re_body (d # u))"
  "re_body (CHR 0x5C # c # u) = map_option (Cons (GLit c)) (re_body u)"
  "c \<notin> set regexp_meta \<Longrightarrow> re_body (c # t) = map_option (Cons (GLit c)) (re_body t)"
  by (subst re_body.simps, simp add: regexp_meta_def del: re_body.simps)+

lemma glob_char_cases:
  "r = CHR ''*'' \<Longrightarrow> glob_char r = ''.*''" "r = CHR ''?'' \<Longrightarrow> glob_char r = ''.''"
  "r \<noteq> CHR ''*'' \<Longrightarrow> r \<noteq> CHR ''?'' \<Longrightarrow> r \<in> set regexp_meta \<Longrightarrow> glob_char r = [CHR 0x5C, r]"
  "r \<notin> set regexp_meta \<Longrightarrow> glob_char r = [r]"
  by (auto simp: glob_char_def QuoteMeta_def regexp_meta_def)

lemma star_meta: "CHR ''*'' \<in> set regexp_meta" "CHR ''?'' \<in> set regexp_meta"
  by (simp_all add: regexp_meta_def)

lemma glob_char_head: "\<exists>d u. glob_char r = d # u \<and> d \<noteq> CHR ''*''"
proof -
  consider "r = CHR ''*''" | "r = CHR ''?''" | "r \<noteq> CHR ''*''" "r \<noteq> CHR ''?''" "r \<in> set regexp_meta" | "r \<notin> set regexp_meta" by blast
  then show ?thesis
  proof cases
    case 4
    then show ?thesis using star_meta by (auto simp: glob_char_cases)
  qed (simp_all add: glob_char_cases)
qed

lemma re_body_glob: "re_body (concat (map glob_char p) @ ''$'') = Some (map glob_tok p)"
proof (induction p)
  case Nil
  then show ?case by (simp add: re_body_forms del: re_body.simps)
next
  case (Cons r p)
  have "\<exists>d u. concat (map glob_char p) @ ''$'' = d # u \<and> d \<noteq> CHR ''*''"
  proof (cases p)
    case (Cons q p')
    then show ?thesis using glob_char_head [of q] by auto
  qed simp
  then obtain d u where rest: "concat (map glob_char p) @ ''$'' = d # u" "d \<noteq> CHR ''*''" by blast
  have split: "concat (map glob_char (r # p)) @ ''$'' = glob_char r @ d # u" by (simp add: rest(1))
  note IH = Cons.IH [unfolded rest(1)]
  consider "r = CHR ''*''" | "r = CHR ''?''" | "r \<noteq> CHR ''*''" "r \<noteq> CHR ''?''" "r \<in> set regexp_meta" | "r \<notin> set regexp_meta" by blast
  then show ?case
  proof cases
    case 4
    then have "r \<noteq> CHR ''*''" "r \<noteq> CHR ''?''" using star_meta by blast+
    then show ?thesis unfolding split glob_char_cases(4) [OF 4] using IH 4 by (simp add: re_body_forms(5) glob_tok_def del: re_body.simps)
  next
    case 3
    then show ?thesis unfolding split glob_char_cases(3) [OF 3] using IH by (simp add: re_body_forms(4) glob_tok_def del: re_body.simps)
  next
    case 2
    then show ?thesis unfolding split glob_char_cases(2) [OF 2] using IH rest(2) by (simp add: re_body_forms(3) glob_tok_def del: re_body.simps)
  next
    case 1
    then show ?thesis unfolding split glob_char_cases(1) [OF 1] using IH by (simp add: re_body_forms(2) glob_tok_def del: re_body.simps)
  qed
qed

lemma glob_source_read: "re_tokens (glob_source p) = Some (map glob_tok p)"
proof -
  have "take 5 (''(?i)^'' @ r) = ''(?i)^''" "drop 5 (''(?i)^'' @ r) = r" for r :: string by simp_all
  then show ?thesis unfolding re_tokens_def glob_source_def by (simp only: if_True refl re_body_glob)
qed

lemma compileGlob_eq: "compileGlob p = map glob_tok p"
  by (simp add: compileGlob_def glob_source_read)

lemma glob_tok_inv:
  "glob_tok c = GStar \<Longrightarrow> c = CHR ''*''" "glob_tok c = GAny \<Longrightarrow> c = CHR ''?''"
  "glob_tok c = GLit d \<Longrightarrow> c \<noteq> CHR ''*'' \<and> c \<noteq> CHR ''?'' \<and> d = c"
  unfolding glob_tok_def by (metis gtok.distinct gtok.inject)+

lemma length_one_iff: "length w = 1 \<and> Q (hd w) \<longleftrightarrow> (\<exists>x. w = [x] \<and> Q x)"
  by (cases w) auto

lemma piece_ok_cases:
  assumes "glob_tok c = t"
  shows "t = GStar \<Longrightarrow> piece_ok c w = (CHR 0x0A \<notin> set w)"
    and "t = GAny \<Longrightarrow> piece_ok c w = (\<exists>x. w = [x] \<and> x \<noteq> CHR 0x0A)"
    and "t = GLit d \<Longrightarrow> piece_ok c w = (\<exists>x. w = [x] \<and> fold_upper d = fold_upper x)"
proof -
  show "piece_ok c w = (CHR 0x0A \<notin> set w)" if "t = GStar"
    using glob_tok_inv(1) [OF assms [unfolded that]] by (simp add: piece_ok_def)
  show "piece_ok c w = (\<exists>x. w = [x] \<and> x \<noteq> CHR 0x0A)" if "t = GAny"
    unfolding piece_ok_def glob_tok_inv(2) [OF assms [unfolded that]] length_one_iff [symmetric] by simp
  show "piece_ok c w = (\<exists>x. w = [x] \<and> fold_upper d = fold_upper x)" if "t = GLit d"
    unfolding piece_ok_def length_one_iff [symmetric] using glob_tok_inv(3) [OF assms [unfolded that]] by simp
qed

lemma glob_match_star:
  "glob_match (GStar # ts) s \<longleftrightarrow> (\<exists>a b. s = a @ b \<and> CHR 0x0A \<notin> set a \<and> glob_match ts b)"
proof (induction s)
  case Nil
  then show ?case by simp
next
  case (Cons x xs)
  show ?case
  proof
    assume "glob_match (GStar # ts) (x # xs)"
    then consider "glob_match ts (x # xs)" | "x \<noteq> CHR 0x0A" "glob_match (GStar # ts) xs" by auto
    then show "\<exists>a b. x # xs = a @ b \<and> CHR 0x0A \<notin> set a \<and> glob_match ts b"
    proof cases
      case 1
      then show ?thesis by (intro exI [of _ "[]"] exI [of _ "x # xs"]) simp
    next
      case 2
      with Cons.IH obtain a b where "xs = a @ b" "CHR 0x0A \<notin> set a" "glob_match ts b" by blast
      with 2 show ?thesis by (intro exI [of _ "x # a"] exI [of _ b]) simp
    qed
  next
    assume "\<exists>a b. x # xs = a @ b \<and> CHR 0x0A \<notin> set a \<and> glob_match ts b"
    then obtain a b where ab: "x # xs = a @ b" "CHR 0x0A \<notin> set a" "glob_match ts b" by blast
    show "glob_match (GStar # ts) (x # xs)"
    proof (cases a)
      case Nil
      with ab have "b = x # xs" by simp
      with ab(3) show ?thesis by simp
    next
      case (Cons y a')
      with ab have "xs = a' @ b" "x \<noteq> CHR 0x0A" "CHR 0x0A \<notin> set a'" by auto
      with ab(3) Cons.IH show ?thesis by auto
    qed
  qed
qed

lemma glob_match_single:
  "glob_match (GAny # ts) s \<longleftrightarrow> (\<exists>x b. s = x # b \<and> x \<noteq> CHR 0x0A \<and> glob_match ts b)"
  "glob_match (GLit c # ts) s \<longleftrightarrow> (\<exists>x b. s = x # b \<and> fold_upper c = fold_upper x \<and> glob_match ts b)"
  by (cases s; auto)+

lemma split_singleton_iff:
  "(\<exists>a b. s = a @ b \<and> (\<exists>x. a = [x] \<and> Q x) \<and> R b) \<longleftrightarrow> (\<exists>x b. s = x # b \<and> Q x \<and> R b)"
  by (metis append_Cons append_Nil)

lemma split_Cons_iff:
  "(\<exists>ws. list_all2 P (t # ts) ws \<and> concat ws = s) \<longleftrightarrow>
     (\<exists>a b. s = a @ b \<and> P t a \<and> (\<exists>ws. list_all2 P ts ws \<and> concat ws = b))"
proof
  assume "\<exists>ws. list_all2 P (t # ts) ws \<and> concat ws = s"
  then obtain w ws where "P t w" "list_all2 P ts ws" "s = w @ concat ws" by (auto simp: list_all2_Cons1)
  then show "\<exists>a b. s = a @ b \<and> P t a \<and> (\<exists>ws. list_all2 P ts ws \<and> concat ws = b)" by blast
next
  assume "\<exists>a b. s = a @ b \<and> P t a \<and> (\<exists>ws. list_all2 P ts ws \<and> concat ws = b)"
  then obtain a ws where "s = a @ concat ws" "P t a" "list_all2 P ts ws" by blast
  then show "\<exists>ws. list_all2 P (t # ts) ws \<and> concat ws = s" by (intro exI [of _ "a # ws"]) simp
qed

text \<open>
  C30: The expression a glob is compiled to is always well formed, so that its compilation never panics, and it matches a name exactly when the name splits into one
  piece per character of the glob: a star takes any run without newlines, a question mark one character that is not a newline, and any other
  character, those with a meaning in regular expressions included, takes itself up to case.
\<close>

theorem glob_match_spec:
  "re_tokens (glob_source p) \<noteq> None \<and> (glob_match (compileGlob p) s \<longleftrightarrow> (\<exists>ws. list_all2 piece_ok p ws \<and> concat ws = s))"
proof -
  have "glob_match (map glob_tok p) s \<longleftrightarrow> (\<exists>ws. list_all2 piece_ok p ws \<and> concat ws = s)"
  proof (induction p arbitrary: s)
    case Nil
    then show ?case by auto
  next
    case (Cons c p)
    show ?case unfolding split_Cons_iff Cons.IH [symmetric] list.map
      by (cases "glob_tok c") (simp_all add: piece_ok_cases [OF refl] glob_match_star glob_match_single split_singleton_iff)
  qed
  then show ?thesis by (simp add: compileGlob_eq glob_source_read)
qed

lemma glob_literal_gen: "glob_match (map GLit p) s \<longleftrightarrow> EqualFold p s"
  unfolding EqualFold_def ToUpper_def
  by (induction p arbitrary: s) (auto simp: glob_match_single Cons_eq_map_conv)

lemma compileGlob_literal: "CHR ''*'' \<notin> set p \<Longrightarrow> CHR ''?'' \<notin> set p \<Longrightarrow> compileGlob p = map GLit p"
  by (auto simp: compileGlob_eq glob_tok_def)

lemma glob_literal:
  "CHR ''*'' \<notin> set p \<Longrightarrow> CHR ''?'' \<notin> set p \<Longrightarrow> glob_match (compileGlob p) s \<longleftrightarrow> EqualFold p s"
  by (simp add: compileGlob_literal glob_literal_gen)

section \<open>Compilation\<close>

text \<open>What makes a pass fail, and what makes a rule inert.\<close>

definition structural_drift :: "OwnershipRule \<Rightarrow> bool" where
  "structural_drift r \<longleftrightarrow> rl_PrecedenceTier r \<noteq> PrecedenceServiceMember \<and>
     ((\<exists>s. rl_PrecedenceTier r = TierOther s) \<or> (\<exists>s. rl_MatchKind r = KindOther s))"

definition bad_regex :: "env \<Rightarrow> OwnershipRule \<Rightarrow> bool" where
  "bad_regex env r \<longleftrightarrow> rl_PrecedenceTier r \<noteq> PrecedenceServiceMember \<and> rl_MatchKind r = MatchSANRegex \<and>
     (\<exists>reason. compileRegex env (rl_MatchValue r) = Inl reason)"

lemma ordinalOf_None: "ordinalOf t = None \<longleftrightarrow> (\<exists>s. t = TierOther s)"
  by (cases t) auto

lemma compileRule_Inl: "(\<exists>e. compileRule env r = Inl e) \<longleftrightarrow> structural_drift r"
  unfolding compileRule_def structural_drift_def Let_def
  by (auto simp: ordinalOf_None split: option.splits MatchKind.splits sum.splits prod.splits)

lemma compileRule_Inr:
  assumes "compileRule env r = Inr (c, f)"
  shows "map cr_rule c = (if rl_PrecedenceTier r = PrecedenceServiceMember then [] else [r])"
    and "map cf_RuleID f = (if bad_regex env r then [rl_ID r] else [])"
    and "x \<in> set c \<Longrightarrow> ordinalOf (rl_PrecedenceTier (cr_rule x)) = Some (cr_ordinal x)"
    and "x \<in> set c \<Longrightarrow> cr_compileErr x = bad_regex env (cr_rule x)"
    and "x \<in> set c \<Longrightarrow> rl_MatchKind (cr_rule x) \<in> {MatchSANGlob, MatchSANRegex, MatchSubjectCNGlob} \<Longrightarrow>
           \<not> cr_compileErr x \<Longrightarrow> cr_re x \<noteq> None"
  using assms unfolding compileRule_def bad_regex_def Let_def
  by (auto split: if_splits option.splits MatchKind.splits sum.splits prod.splits)

lemma compileRule_at_most_one: "compileRule env r = Inr (c, f) \<Longrightarrow> c = [] \<or> (\<exists>x. c = [x] \<and> cr_rule x = r)"
  using compileRule_Inr(1) [of env r c f] by (auto split: if_splits simp: map_eq_Cons_conv)

lemma compileLoop_Inl: "(\<exists>e. compileLoop env rules = Inl e) \<longleftrightarrow> (\<exists>r \<in> set rules. structural_drift r)"
proof (induction rules)
  case (Cons r rs)
  then show ?case
    using compileRule_Inl [of env r] by (fastforce split: sum.splits prod.splits)
qed simp

lemma compileLoop_Inr:
  "compileLoop env rules = Inr (cs, fs) \<Longrightarrow>
     map cr_rule cs = filter (\<lambda>r. rl_PrecedenceTier r \<noteq> PrecedenceServiceMember) rules \<and>
     map cf_RuleID fs = map rl_ID (filter (bad_regex env) rules)"
proof (induction rules arbitrary: cs fs)
  case (Cons r rs)
  from Cons.prems obtain c f cs' fs' where r: "compileRule env r = Inr (c, f)"
    and rs: "compileLoop env rs = Inr (cs', fs')" and eq: "cs = c @ cs'" "fs = f @ fs'"
    by (auto split: sum.splits prod.splits)
  show ?case using Cons.IH [OF rs] compileRule_Inr(1,2) [OF r] eq by simp
qed simp

lemma compileLoop_all:
  "compileLoop env rules = Inr (cs, fs) \<Longrightarrow> x \<in> set cs \<Longrightarrow>
     \<exists>r c f. r \<in> set rules \<and> compileRule env r = Inr (c, f) \<and> x \<in> set c"
proof (induction rules arbitrary: cs fs)
  case (Cons r rs)
  then show ?case by (fastforce split: sum.splits prod.splits)
qed simp

lemma compileRules_Inr:
  "compileRules env rules = Inr (cs, fs) \<longleftrightarrow>
     (\<exists>cs0. compileLoop env rules = Inr (cs0, fs) \<and> cs = sort_key walk_key cs0)"
  by (auto simp: compileRules_def split: sum.splits prod.splits)

lemma compiled_from:
  assumes "compileRules env rules = Inr (cs, fs)" and "x \<in> set cs"
  shows "\<exists>r c f. r \<in> set rules \<and> compileRule env r = Inr (c, f) \<and> x \<in> set c"
  using assms compileLoop_all by (fastforce simp: compileRules_Inr)

text \<open>No compiled rule of a pattern kind has a nil expression unless it is inert.\<close>

lemma compiled_re_present:
  assumes "compileRules env rules = Inr (cs, fs)" and "x \<in> set cs" and "\<not> cr_compileErr x"
    and "rl_MatchKind (cr_rule x) \<in> {MatchSANGlob, MatchSANRegex, MatchSubjectCNGlob}"
  shows "cr_re x \<noteq> None"
  using compiled_from [OF assms(1,2)] compileRule_Inr(5) assms(3,4) by blast

lemma compiled_rule_in:
  assumes "compileRules env rules = Inr (cs, fs)" and "x \<in> set cs"
  shows "cr_rule x \<in> set rules" and "rl_PrecedenceTier (cr_rule x) \<noteq> PrecedenceServiceMember"
    and "cr_compileErr x = bad_regex env (cr_rule x)"
    and "ordinalOf (rl_PrecedenceTier (cr_rule x)) = Some (cr_ordinal x)"
proof -
  obtain r c f where r: "r \<in> set rules" "compileRule env r = Inr (c, f)" "x \<in> set c"
    using compiled_from [OF assms] by blast
  note all = compileRule_Inr [OF r(2)]
  have "cr_rule x = r" "rl_PrecedenceTier r \<noteq> PrecedenceServiceMember"
    using compileRule_at_most_one [OF r(2)] all(1) r(3) by (auto split: if_splits)
  with r all(3,4) show "cr_rule x \<in> set rules" "rl_PrecedenceTier (cr_rule x) \<noteq> PrecedenceServiceMember"
    "cr_compileErr x = bad_regex env (cr_rule x)"
    "ordinalOf (rl_PrecedenceTier (cr_rule x)) = Some (cr_ordinal x)" by auto
qed

section \<open>Properties of compilation\<close>

text \<open>
  A compile pass that succeeds returns every enabled rule except the reserved service-member
  ones, compiled once each, in the walk order (tier ordinal, priority, creation time, id); and it
  reports exactly the regex rules that do not compile, in input order, each of them marked inert.
\<close>

theorem compileRules_correct:
  assumes "compileRules env rules = Inr (cs, fs)"
  shows "sorted (map (\<lambda>c. (cr_ordinal c, rl_Priority (cr_rule c), rl_CreatedAt (cr_rule c), rl_ID (cr_rule c))) cs) \<and>
    mset (map cr_rule cs) = mset (filter (\<lambda>r. rl_PrecedenceTier r \<noteq> PrecedenceServiceMember) rules) \<and>
    map cf_RuleID fs = map rl_ID (filter (bad_regex env) rules) \<and>
    (\<forall>c \<in> set cs. ordinalOf (rl_PrecedenceTier (cr_rule c)) = Some (cr_ordinal c) \<and>
                 cr_compileErr c = bad_regex env (cr_rule c))"
proof -
  obtain cs0 where l: "compileLoop env rules = Inr (cs0, fs)" and cs: "cs = sort_key walk_key cs0"
    using assms by (auto simp: compileRules_Inr)
  have "mset (map cr_rule cs) = mset (map cr_rule cs0)" using cs by simp
  then show ?thesis
    using cs compileLoop_Inr [OF l] compiled_rule_in(3,4) [OF assms] unfolding walk_key_def [abs_def] by simp
qed

text \<open>
  A compile pass fails exactly when some enabled rule outside the reserved tier carries a tier
  or a match kind the engine does not know. A regex that does not compile never fails the pass.
\<close>

theorem compileRules_fails_iff:
  "(\<exists>e. compileRules env rules = Inl e) \<longleftrightarrow> (\<exists>r \<in> set rules. structural_drift r)"
  using compileLoop_Inl [of env rules] by (auto simp: compileRules_def split: sum.splits prod.splits)

lemma compileLoop_mset:
  assumes "compileLoop env rules = Inr (cs, fs)" and "mset rules = mset rules'"
  shows "\<exists>cs' fs'. compileLoop env rules' = Inr (cs', fs') \<and> mset cs' = mset cs \<and> mset fs' = mset fs"
proof -
  have val: "mset cs = sum_list (map (\<lambda>r. mset (fst (projr (compileRule env r)))) rs) \<and>
             mset fs = sum_list (map (\<lambda>r. mset (snd (projr (compileRule env r)))) rs)"
    if "compileLoop env rs = Inr (cs, fs)" for rs cs fs
    using that by (induction rs arbitrary: cs fs) (auto split: sum.splits prod.splits)
  have "\<not> (\<exists>r \<in> set rules'. structural_drift r)"
    using assms compileLoop_Inl [of env rules] mset_eq_setD by (metis Inl_Inr_False)
  then obtain cs' fs' where l': "compileLoop env rules' = Inr (cs', fs')"
    using compileLoop_Inl [of env rules'] by (metis obj_sumE surj_pair)
  have "sum_list (map f rules) = sum_list (map f rules')" for f :: "OwnershipRule \<Rightarrow> 'a multiset"
    using assms(2) by (metis mset_map sum_mset_sum_list)
  with val [OF assms(1)] val [OF l'] l' show ?thesis by metis
qed

lemma walk_key_inj:
  assumes "compileRules env rules = Inr (cs, fs)" and "inj_on rl_ID (set rules)"
  shows "inj_on walk_key (set cs)"
proof (rule inj_onI)
  fix x y assume x: "x \<in> set cs" and y: "y \<in> set cs" and k: "walk_key x = walk_key y"
  obtain r c f where r: "r \<in> set rules" "compileRule env r = Inr (c, f)" "x \<in> set c"
    using compiled_from [OF assms(1) x] by blast
  obtain r' c' f' where r': "r' \<in> set rules" "compileRule env r' = Inr (c', f')" "y \<in> set c'"
    using compiled_from [OF assms(1) y] by blast
  have c: "c = [x]" "cr_rule x = r" using compileRule_at_most_one [OF r(2)] r(3) by auto
  have c': "c' = [y]" "cr_rule y = r'" using compileRule_at_most_one [OF r'(2)] r'(3) by auto
  have "r = r'" using k c c' assms(2) r(1) r'(1) by (auto simp: walk_key_def inj_on_def)
  then show "x = y" using r(2) r'(2) c c' by simp
qed

text \<open>
  The compiled order does not depend on the order in which the rules were read: for rules with
  distinct ids, any permutation of the input compiles to the same list, with the same failures up
  to their order.
\<close>

theorem compileRules_order_independent:
  assumes "compileRules env rules = Inr (cs, fs)" and "mset rules = mset rules'"
    and "inj_on rl_ID (set rules)"
  shows "\<exists>fs'. compileRules env rules' = Inr (cs, fs') \<and> mset fs' = mset fs"
proof -
  obtain cs0 where l: "compileLoop env rules = Inr (cs0, fs)" and cs: "cs = sort_key walk_key cs0"
    using assms(1) by (auto simp: compileRules_Inr)
  obtain cs' fs' where l': "compileLoop env rules' = Inr (cs', fs')" "mset cs' = mset cs0" "mset fs' = mset fs"
    using compileLoop_mset [OF l assms(2)] by blast
  have "inj_on walk_key (set cs0)" using walk_key_inj [OF assms(1,3)] cs by simp
  then have "sort_key walk_key cs' = cs" using l'(2) cs sort_key_perm [of cs0 cs' walk_key] by simp
  with l' show ?thesis by (auto simp: compileRules_Inr)
qed

section \<open>Properties of decisions\<close>

lemma filter_head_least:
  assumes "sorted (map f xs)" and "filter P xs = w # ws"
  shows "w \<in> set xs \<and> P w \<and> (\<forall>x \<in> set xs. P x \<longrightarrow> f w \<le> f x)"
proof -
  have "sorted (map f (filter P xs))" using assms(1) by (rule sorted_filter)
  then have "\<forall>x \<in> set ws. f w \<le> f x" using assms(2) by simp
  moreover have "set (w # ws) = {x \<in> set xs. P x}" using assms(2) by (metis set_filter)
  ultimately show ?thesis by (metis (mono_tags, lifting) insert_iff list.simps(15) mem_Collect_eq order_refl)
qed

lemma decide_matched:
  assumes "\<not> overrideActive ov now" and "filter (\<lambda>c. matches c sig) cs = w # ws"
  shows "d_serviceID (decideOwnership sig ov cs now) = Some (rl_ServiceID (cr_rule w))"
    and "d_winningRuleID (decideOwnership sig ov cs now) = Some (rl_ID (cr_rule w))"
    and "d_confidence (decideOwnership sig ov cs now) = confidenceForTier (rl_PrecedenceTier (cr_rule w))"
    and "d_decision (decideOwnership sig ov cs now) =
           (if \<exists>m \<in> set ws. tied_with w m then DecisionAmbiguous else DecisionMatched)"
  using assms by (auto simp: decideOwnership_def Let_def tied_with_def filter_empty_conv)

text \<open>
  C5: Without an active override the owner is the service of the first matching rule in walk
  order: the decision names a rule that matches, and every other rule that matches ranks at or
  after it by (tier ordinal, priority, creation time, id).
\<close>

theorem decideOwnership_first_match:
  assumes "compileRules env rules = Inr (cs, fs)" and "\<not> overrideActive ov now"
    and "d_winningRuleID (decideOwnership sig ov cs now) = Some w"
  shows "\<exists>c \<in> set cs. matches c sig \<and> rl_ID (cr_rule c) = w \<and>
    d_serviceID (decideOwnership sig ov cs now) = Some (rl_ServiceID (cr_rule c)) \<and>
    d_confidence (decideOwnership sig ov cs now) = confidenceForTier (rl_PrecedenceTier (cr_rule c)) \<and>
    (\<forall>c' \<in> set cs. matches c' sig \<longrightarrow> walk_key c \<le> walk_key c')"
proof (cases "filter (\<lambda>c. matches c sig) cs")
  case Nil
  with assms(2,3) show ?thesis by (simp add: decideOwnership_def)
next
  case (Cons c others)
  have "sorted (map walk_key cs)" using assms(1) by (auto simp: compileRules_Inr)
  with Cons have "c \<in> set cs \<and> matches c sig \<and> (\<forall>c' \<in> set cs. matches c' sig \<longrightarrow> walk_key c \<le> walk_key c')"
    by (intro filter_head_least)
  with decide_matched [OF assms(2) Cons] assms(3) show ?thesis by (intro bexI [of _ c]) auto
qed

text \<open>
  Without an active override the decision is unowned exactly when no rule matches, and
  ambiguous exactly when another matching rule has the tier, priority and creation time of the
  first one; the rule id never takes part in the tie test.
\<close>

theorem decideOwnership_classification:
  assumes "\<not> overrideActive ov now"
  shows "(d_decision (decideOwnership sig ov cs now) = DecisionUnowned \<longleftrightarrow> (\<forall>c \<in> set cs. \<not> matches c sig)) \<and>
    (d_decision (decideOwnership sig ov cs now) = DecisionAmbiguous \<longleftrightarrow>
       (\<exists>w ws. filter (\<lambda>c. matches c sig) cs = w # ws \<and> (\<exists>m \<in> set ws.
          rl_PrecedenceTier (cr_rule m) = rl_PrecedenceTier (cr_rule w) \<and>
          rl_Priority (cr_rule m) = rl_Priority (cr_rule w) \<and> rl_CreatedAt (cr_rule m) = rl_CreatedAt (cr_rule w))))"
proof (cases "filter (\<lambda>c. matches c sig) cs")
  case Nil
  with assms show ?thesis by (auto simp: decideOwnership_def filter_empty_conv)
next
  case (Cons w ws)
  then have "\<exists>c \<in> set cs. matches c sig" by (metis filter_empty_conv list.distinct(1))
  with decide_matched(4) [OF assms Cons, unfolded tied_with_def] Cons show ?thesis by auto
qed

lemma buildLosing_loop_take:
  "length out < maxLosingRules \<Longrightarrow>
     buildLosing_loop w ms out = take maxLosingRules (out @ map (losing_info w) ms)"
proof (induction ms arbitrary: out)
  case (Cons m ms)
  have "maxLosingRules - length out = Suc (maxLosingRules - Suc (length out))"
    using Cons.prems by simp
  with Cons show ?case
    by (cases "Suc (length out) = maxLosingRules") (auto simp: Let_def)
qed simp

lemma buildLosing_take: "buildLosing (w # ws) w = take maxLosingRules (map (losing_info w) ws)"
  by (cases ws) (simp_all add: buildLosing_def buildLosing_loop_take maxLosingRules_def)

text \<open>
  C31: The fields of every decision agree: no owner exactly for unowned, an override id exactly for
  overridden, a winning rule exactly for matched and ambiguous, high confidence for an override and
  low for unowned, and at most eight losing rules.
\<close>

theorem decideOwnership_shape:
  "let d = decideOwnership sig ov cs now in
     (d_serviceID d = None \<longleftrightarrow> d_decision d = DecisionUnowned) \<and>
     (d_overrideID d \<noteq> None \<longleftrightarrow> d_decision d = DecisionOverridden) \<and>
     (d_winningRuleID d \<noteq> None \<longleftrightarrow> d_decision d \<in> {DecisionMatched, DecisionAmbiguous}) \<and>
     (case d_decision d of DecisionOverridden \<Rightarrow> d_confidence d = ConfidenceHigh
      | DecisionUnowned \<Rightarrow> d_confidence d = ConfidenceLow | _ \<Rightarrow> True) \<and>
     length (d_losing d) \<le> 8"
proof (cases "overrideActive ov now")
  case True
  then show ?thesis by (auto simp: decideOwnership_def overrideActive_def split: option.splits)
next
  case False
  show ?thesis
  proof (cases "filter (\<lambda>c. matches c sig) cs")
    case Nil
    with False show ?thesis by (simp add: decideOwnership_def)
  next
    case (Cons w ws)
    with False show ?thesis
      by (simp add: decideOwnership_def Let_def buildLosing_take maxLosingRules_def)
  qed
qed

text \<open>
  An override decides while it is present and not expired, whatever the rules say; at its
  expiry instant and later it counts as absent and the rules decide.
\<close>

theorem decideOwnership_override:
  "decideOwnership sig (Some r) cs now =
     (if ov_ExpiresAt r = None \<or> (\<exists>t. ov_ExpiresAt r = Some t \<and> now < t)
      then \<lparr>d_decision = DecisionOverridden, d_serviceID = Some (ov_ServiceID r), d_winningRuleID = None,
            d_overrideID = Some (ov_ID r), d_confidence = ConfidenceHigh, d_losing = []\<rparr>
      else decideOwnership sig None cs now)"
  by (auto simp: decideOwnership_def overrideActive_def split: option.splits)

text \<open>
  A rule of the reserved service-member tier and a regex rule that does not compile never own a
  certificate: the winning rule of any decision is an input rule outside both classes.
\<close>

theorem inert_rules_never_win:
  assumes "compileRules env rules = Inr (cs, fs)"
    and "d_winningRuleID (decideOwnership sig ov cs now) = Some w"
  shows "\<exists>r \<in> set rules. rl_ID r = w \<and> rl_PrecedenceTier r \<noteq> PrecedenceServiceMember \<and> \<not> bad_regex env r"
proof -
  have na: "\<not> overrideActive ov now" using assms(2) by (auto simp: decideOwnership_def)
  obtain c cs' where c: "filter (\<lambda>c. matches c sig) cs = c # cs'"
    using assms(2) na by (cases "filter (\<lambda>c. matches c sig) cs") (auto simp: decideOwnership_def)
  then have in_cs: "c \<in> set cs" and m: "matches c sig" by (auto simp: filter_eq_Cons_iff)
  have "\<not> cr_compileErr c" using m by (auto simp: matches_def)
  with compiled_rule_in [OF assms(1) in_cs] decide_matched(2) [OF na c] assms(2)
  show ?thesis by auto
qed

lemma compileRules_Cons:
  assumes "compileRules env (r # rules) = Inr (cs', fs')"
  shows "\<exists>c f cs fs. compileRule env r = Inr (c, f) \<and> compileRules env rules = Inr (cs, fs) \<and>
    mset cs' = mset c + mset cs \<and> sorted (map walk_key cs')"
proof -
  obtain cs0 where l: "compileLoop env (r # rules) = Inr (cs0, fs')" "cs' = sort_key walk_key cs0"
    using assms by (auto simp: compileRules_Inr)
  then show ?thesis by (auto simp: compileRules_Inr split: sum.splits prod.splits)
qed

text \<open>What the passes without and with one more rule have in common.\<close>

lemma filter_head_key:
  assumes "sorted (map f xs)" and "sorted (map f ys)" and "inj_on f (set ys)"
    and "mset ys = mset zs + mset xs" and "filter P ys = w # ws" and "w \<in> set xs"
  shows "\<exists>vs. filter P xs = w # vs"
proof -
  have y: "w \<in> set ys \<and> P w \<and> (\<forall>x \<in> set ys. P x \<longrightarrow> f w \<le> f x)"
    using assms(2,5) by (rule filter_head_least)
  have sub: "set xs \<subseteq> set ys" using assms(4) by (metis mset_subset_eq_add_right set_mset_mono set_mset_mset)
  from y assms(6) have "filter P xs \<noteq> []" by (auto simp: filter_empty_conv)
  then obtain v vs where v: "filter P xs = v # vs" by (cases "filter P xs") auto
  have "v \<in> set xs \<and> P v \<and> (\<forall>x \<in> set xs. P x \<longrightarrow> f v \<le> f x)"
    using assms(1) v by (rule filter_head_least)
  with y assms(6) sub have "f v = f w" "v \<in> set ys" by (auto intro: antisym)
  with y assms(3) v show ?thesis by (auto simp: inj_on_def)
qed

text \<open>
  Adding a rule changes the owner only by outranking it: if the pass with the new rule has
  another owner than the pass without it, then the new rule matches the certificate and is the
  winner, and it was the first in walk order.
\<close>

theorem new_rule_wins_only_by_rank:
  assumes "compileRules env rules = Inr (cs, fs)" and "compileRules env (r # rules) = Inr (cs', fs')"
    and "inj_on rl_ID (set (r # rules))" and "\<not> overrideActive ov now"
    and "d_winningRuleID (decideOwnership sig ov cs' now) \<noteq> d_winningRuleID (decideOwnership sig ov cs now)"
  shows "\<exists>c \<in> set cs'. cr_rule c = r \<and> matches c sig \<and>
    d_winningRuleID (decideOwnership sig ov cs' now) = Some (rl_ID r) \<and>
    (\<forall>c' \<in> set cs. matches c' sig \<longrightarrow> walk_key c \<le> walk_key c')"
proof -
  obtain c f where cr: "compileRule env r = Inr (c, f)" and ms: "mset cs' = mset c + mset cs"
    and srt': "sorted (map walk_key cs')"
    using compileRules_Cons [OF assms(2)] assms(1) by auto
  have srt: "sorted (map walk_key cs)" using assms(1) by (auto simp: compileRules_Inr)
  have inj: "inj_on walk_key (set cs')" by (rule walk_key_inj [OF assms(2,3)])
  have sets: "set cs' = set c \<union> set cs" using ms by (metis set_mset_mset set_mset_union)
  let ?P = "\<lambda>c. matches c sig"
  have "filter ?P cs' \<noteq> []"
  proof
    assume "filter ?P cs' = []"
    then have "filter ?P cs = []" using sets by (auto simp: filter_empty_conv)
    with \<open>filter ?P cs' = []\<close> assms(4,5) show False by (simp add: decideOwnership_def)
  qed
  then obtain w ws where w: "filter ?P cs' = w # ws" by (cases "filter ?P cs'") auto
  have least: "w \<in> set cs' \<and> ?P w \<and> (\<forall>x \<in> set cs'. ?P x \<longrightarrow> walk_key w \<le> walk_key x)"
    using srt' w by (rule filter_head_least)
  have "w \<notin> set cs"
  proof
    assume "w \<in> set cs"
    then obtain vs where v: "filter ?P cs = w # vs"
      using filter_head_key [OF srt srt' inj ms w] by blast
    show False using decide_matched(2) [OF assms(4) w] decide_matched(2) [OF assms(4) v] assms(5) by simp
  qed
  then have "w \<in> set c" using least sets by auto
  then have "cr_rule w = r" using compileRule_at_most_one [OF cr] by auto
  with least sets decide_matched(2) [OF assms(4) w] show ?thesis by (intro bexI [of _ w]) auto
qed

text \<open>
  A tag rule value \<open>key:value\<close> with no colon in the key reads back as that key and value (the
  value may hold colons), and a value with no colon at all is a bare key that matches any value.
\<close>

theorem parseTagMatch_roundtrip:
  assumes "CHR '':'' \<notin> set k"
  shows "parseTagMatch (k @ CHR '':'' # v) = (k, v, True) \<and> parseTagMatch k = (k, [], False)"
proof -
  have "IndexByte (CHR '':'') k = None" using assms by (simp add: IndexByte_None)
  then show ?thesis by (simp add: parseTagMatch_def IndexByte_first [OF assms])
qed

section \<open>Witnesses\<close>

text \<open>Concrete rules and signals, and an environment whose regex engine only knows one pattern.\<close>

definition demo_env :: env where
  "demo_env = \<lparr>fault = (\<lambda>_. False), clockAt = (\<lambda>n. 1000 + int n), idAt = (\<lambda>n. CHR ''i'' # itoa n),
     dbNow = (\<lambda>n. 1000 + int n),
     regexpCompile = (\<lambda>p. if p = ''^a'' then Inr (\<lambda>s. HasPrefix s ''a'') else Inl ''bad'')\<rparr>"

definition demo_rule :: "string \<Rightarrow> PrecedenceTier \<Rightarrow> int \<Rightarrow> MatchKind \<Rightarrow> string \<Rightarrow> string \<Rightarrow> OwnershipRule" where
  "demo_rule i t p k v svc =
     \<lparr>rl_ID = i, rl_OrganizationID = ''o1'', rl_Name = i, rl_Description = [], rl_ServiceID = svc,
      rl_PrecedenceTier = t, rl_Priority = p, rl_MatchKind = k, rl_MatchValue = v, rl_Enabled = True,
      rl_CreatedAt = 10, rl_UpdatedAt = 10, rl_CreatedBy = ''u1'', rl_DisabledAt = None\<rparr>"

definition demo_rules :: "OwnershipRule list" where
  "demo_rules =
     [demo_rule ''r3'' PrecedenceFallback 0 MatchFallback [] ''sf'',
      demo_rule ''r1'' PrecedenceSANPattern 5 MatchSANGlob ''*.ex'' ''sa'',
      demo_rule ''r2'' PrecedenceSANPattern 5 MatchSANRegex ''((('' ''sb'']"

definition demo_sig :: CertificateSignals where
  "demo_sig = \<lparr>sg_CertificateID = ''c1'', sg_Subject = ''O=x, cn=h'', sg_Issuer = ''ca'', sg_SANs = [''A.EX''],
     sg_StoreLocations = [], sg_ObservingAgentIDs = [], sg_ObservingAgentGroupIDs = [],
     sg_CertTags = [], sg_AgentTags = []\<rparr>"

definition demo_new :: OwnershipRule where
  "demo_new = demo_rule ''r0'' PrecedenceAgentGroup 0 MatchIssuerDN ''ca'' ''sn''"

lemma demo_compile_eval:
  "map_sum id (\<lambda>(cs, fs). (map (rl_ID \<circ> cr_rule) cs, map cf_RuleID fs,
     d_winningRuleID (decideOwnership demo_sig None cs 20))) (compileRules demo_env demo_rules) =
     Inr ([''r1'', ''r2'', ''r3''], [''r2''], Some ''r1'')"
  "map_sum id (\<lambda>(cs, fs). d_winningRuleID (decideOwnership demo_sig None cs 20))
     (compileRules demo_env (demo_new # demo_rules)) = Inr (Some ''r0'')"
  by code_simp+

lemma demo_compiles:
  "\<exists>cs fs. compileRules demo_env demo_rules = Inr (cs, fs) \<and>
     map (rl_ID \<circ> cr_rule) cs = [''r1'', ''r2'', ''r3''] \<and>
     d_winningRuleID (decideOwnership demo_sig None cs 20) = Some ''r1''"
  "\<exists>cs fs. compileRules demo_env (demo_new # demo_rules) = Inr (cs, fs) \<and>
     d_winningRuleID (decideOwnership demo_sig None cs 20) = Some ''r0''"
  using demo_compile_eval by (auto simp: map_sum_def split: sum.splits prod.splits)

lemma demo_ids: "inj_on rl_ID (set (demo_new # demo_rules))" "inj_on rl_ID (set demo_rules)"
  by (auto simp: demo_rules_def demo_rule_def demo_new_def inj_on_def)

lemma no_override: "\<not> overrideActive None now"
  by (simp add: overrideActive_def)

theorem compileRules_correct_witness:
  "\<exists>cs fs. compileRules demo_env demo_rules = Inr (cs, fs) \<and> sorted (map (\<lambda>c. (cr_ordinal c, rl_Priority (cr_rule c), rl_CreatedAt (cr_rule c), rl_ID (cr_rule c))) cs) \<and>
     map (rl_ID \<circ> cr_rule) cs = [''r1'', ''r2'', ''r3'']"
proof -
  obtain cs fs where c: "compileRules demo_env demo_rules = Inr (cs, fs)"
    and m: "map (rl_ID \<circ> cr_rule) cs = [''r1'', ''r2'', ''r3'']" using demo_compiles(1) by (elim exE conjE) (rule that)
  show ?thesis using compileRules_correct [OF c] c m by (intro exI [of _ cs] exI [of _ fs]) simp
qed

theorem compileRules_order_independent_witness:
  "\<exists>cs fs fs'. compileRules demo_env demo_rules = Inr (cs, fs) \<and>
     compileRules demo_env (rev demo_rules) = Inr (cs, fs')"
  using demo_compiles(1) compileRules_order_independent [of demo_env demo_rules _ _ "rev demo_rules"]
    demo_ids(2) by (metis mset_rev)

theorem decideOwnership_first_match_witness:
  "\<exists>cs fs. compileRules demo_env demo_rules = Inr (cs, fs) \<and>
     (\<exists>c \<in> set cs. matches c demo_sig \<and> rl_ID (cr_rule c) = ''r1'' \<and>
        (\<forall>c' \<in> set cs. matches c' demo_sig \<longrightarrow> walk_key c \<le> walk_key c'))"
  using demo_compiles(1) decideOwnership_first_match [OF _ no_override] by meson

theorem decideOwnership_classification_witness:
  "\<not> overrideActive None 20 \<and>
     (d_decision (decideOwnership demo_sig None [] 20) = DecisionUnowned \<longleftrightarrow>
        (\<forall>c \<in> set []. \<not> matches c demo_sig))"
  using decideOwnership_classification [OF no_override, of demo_sig "[]" 20] no_override by blast

theorem inert_rules_never_win_witness:
  "\<exists>r \<in> set demo_rules. rl_ID r = ''r1'' \<and> \<not> bad_regex demo_env r"
  using demo_compiles(1) inert_rules_never_win [of demo_env demo_rules] by blast

theorem new_rule_wins_only_by_rank_witness:
  "\<exists>cs fs. compileRules demo_env (demo_new # demo_rules) = Inr (cs, fs) \<and>
     (\<exists>c \<in> set cs. cr_rule c = demo_new \<and> matches c demo_sig)"
proof -
  obtain cs fs where a: "compileRules demo_env demo_rules = Inr (cs, fs)"
    and wa: "d_winningRuleID (decideOwnership demo_sig None cs 20) = Some ''r1''"
    using demo_compiles(1) by blast
  obtain cs' fs' where b: "compileRules demo_env (demo_new # demo_rules) = Inr (cs', fs')"
    and wb: "d_winningRuleID (decideOwnership demo_sig None cs' 20) = Some ''r0''"
    using demo_compiles(2) by blast
  have "d_winningRuleID (decideOwnership demo_sig None cs' 20) \<noteq>
        d_winningRuleID (decideOwnership demo_sig None cs 20)" using wa wb by simp
  from new_rule_wins_only_by_rank [OF a b demo_ids(1) no_override this] b show ?thesis by blast
qed

theorem parseTagMatch_roundtrip_witness:
  "parseTagMatch ''env:a:b'' = (''env'', ''a:b'', True) \<and> parseTagMatch ''env'' = (''env'', [], False)"
  using parseTagMatch_roundtrip [of "''env''" "''a:b''"] by simp

end
