(* ===== verification/OwnershipStore.thy ===== *)
theory OwnershipStore imports Engine begin

text \<open>
  The PostgreSQL repositories of the ownership domain
  (\<open>storage/postgres/governance_ownership_repository.go\<close>, \<open>governance_rule_target_resolver.go\<close>,
  \<open>governance_recompute_runs_repository.go\<close>): one definition per method, with the SQL read as
  operations on the tables. Text is ordered by bytes, the \<open>C\<close> collation; the identifiers the
  program mints are hexadecimal. The unique constraints of migration 0010 are modelled
  (\<open>gov_wf\<close>); a foreign-key violation is one of the failures the environment may inject.
\<close>

section \<open>Ownership rules\<close>

definition CreateOwnershipRule :: "env \<Rightarrow> OwnershipRule \<Rightarrow> ('z gov_db_scheme, unit) prog" where
  "CreateOwnershipRule env rule =
     exec_hit env ErrOwnershipRuleAlreadyExists
       (\<lambda>s. \<forall>r \<in> set (t_rules s). rl_ID r \<noteq> rl_ID rule \<and>
          (rl_OrganizationID r, rl_Name r) \<noteq> (rl_OrganizationID rule, rl_Name rule))
       (\<lambda>s. s\<lparr>t_rules := t_rules s @ [rule]\<rparr>)"

definition is_rule :: "string \<Rightarrow> string \<Rightarrow> OwnershipRule \<Rightarrow> bool" where
  "is_rule org i r \<longleftrightarrow> rl_OrganizationID r = org \<and> rl_ID r = i"

definition GetOwnershipRule :: "env \<Rightarrow> string \<Rightarrow> string \<Rightarrow> ('z gov_db_scheme, OwnershipRule) prog" where
  "GetOwnershipRule env org i =
     bindE (db_query env (\<lambda>s. find (is_rule org i) (t_rules s)))
       (\<lambda>r. case r of None \<Rightarrow> throwE ErrOwnershipRuleNotFound | Some rule \<Rightarrow> retE rule)"

definition ListOwnershipRules :: "env \<Rightarrow> string \<Rightarrow> bool \<Rightarrow> ('z gov_db_scheme, OwnershipRule list) prog" where
  "ListOwnershipRules env org enabledOnly =
     db_query env (\<lambda>s. sort_key rl_ID
       (filter (\<lambda>r. rl_OrganizationID r = org \<and> (enabledOnly \<longrightarrow> rl_Enabled r)) (t_rules s)))"

definition ListOwnershipRulesPaged ::
  "env \<Rightarrow> string \<Rightarrow> string \<Rightarrow> nat \<Rightarrow> bool option \<Rightarrow> ('z gov_db_scheme, OwnershipRule list) prog" where
  "ListOwnershipRulesPaged env org cursor pageSize enabledFilter =
     db_query env (\<lambda>s. take pageSize (sort_key rl_ID
       (filter (\<lambda>r. rl_OrganizationID r = org \<and> cursor < rl_ID r \<and>
                  (case enabledFilter of None \<Rightarrow> True | Some b \<Rightarrow> rl_Enabled r = b)) (t_rules s))))"

definition ListOwnershipRulesByService :: "env \<Rightarrow> string \<Rightarrow> string \<Rightarrow> ('z gov_db_scheme, OwnershipRule list) prog" where
  "ListOwnershipRulesByService env org svc =
     db_query env (\<lambda>s. sort_key rl_ID
       (filter (\<lambda>r. rl_OrganizationID r = org \<and> rl_ServiceID r = svc) (t_rules s)))"

text \<open>The \<open>CASE precedence_tier ... ELSE 99\<close> of the engine read.\<close>

definition sql_ordinal :: "PrecedenceTier \<Rightarrow> int" where
  "sql_ordinal t = (case ordinalOf t of None \<Rightarrow> 99 | Some o' \<Rightarrow> o')"

definition engine_rules :: "string \<Rightarrow> 'z gov_db_scheme \<Rightarrow> OwnershipRule list" where
  "engine_rules org s = sort_key
     (\<lambda>r. (sql_ordinal (rl_PrecedenceTier r), rl_Priority r, rl_CreatedAt r, rl_ID r))
     (filter (\<lambda>r. rl_OrganizationID r = org \<and> rl_Enabled r) (t_rules s))"

definition ListOwnershipRulesForEngine :: "env \<Rightarrow> string \<Rightarrow> ('z gov_db_scheme, OwnershipRule list) prog" where
  "ListOwnershipRulesForEngine env org = db_query env (engine_rules org)"

definition UpdateOwnershipRuleMutable ::
  "env \<Rightarrow> string \<Rightarrow> string \<Rightarrow> int \<Rightarrow> string \<Rightarrow> string \<Rightarrow> ('z gov_db_scheme, unit) prog" where
  "UpdateOwnershipRuleMutable env org i priority matchValue description =
     exec_hit env ErrOwnershipRuleNotFound (\<lambda>s. \<exists>r \<in> set (t_rules s). is_rule org i r)
       (\<lambda>s. s\<lparr>t_rules := update_where (is_rule org i)
          (\<lambda>r. r\<lparr>rl_Priority := priority, rl_MatchValue := matchValue, rl_Description := description,
                 rl_UpdatedAt := sql_now env s\<rparr>) (t_rules s)\<rparr>)"

definition DisableOwnershipRule :: "env \<Rightarrow> string \<Rightarrow> string \<Rightarrow> ('z gov_db_scheme, unit) prog" where
  "DisableOwnershipRule env org i =
     exec_hit env ErrOwnershipRuleNotFound (\<lambda>s. \<exists>r \<in> set (t_rules s). is_rule org i r)
       (\<lambda>s. s\<lparr>t_rules := update_where (is_rule org i)
          (\<lambda>r. r\<lparr>rl_Enabled := False,
                 rl_DisabledAt := (case rl_DisabledAt r of None \<Rightarrow> Some (sql_now env s) | Some t \<Rightarrow> Some t),
                 rl_UpdatedAt := sql_now env s\<rparr>) (t_rules s)\<rparr>)"

definition EnableOwnershipRule :: "env \<Rightarrow> string \<Rightarrow> string \<Rightarrow> ('z gov_db_scheme, unit) prog" where
  "EnableOwnershipRule env org i =
     exec_hit env ErrOwnershipRuleNotFound (\<lambda>s. \<exists>r \<in> set (t_rules s). is_rule org i r)
       (\<lambda>s. s\<lparr>t_rules := update_where (is_rule org i)
          (\<lambda>r. r\<lparr>rl_Enabled := True, rl_DisabledAt := None, rl_UpdatedAt := sql_now env s\<rparr>) (t_rules s)\<rparr>)"

section \<open>Certificate ownership\<close>

definition co_key :: "CertificateOwnership \<Rightarrow> string \<times> string" where
  "co_key o' = (co_OrganizationID o', co_CertificateID o')"

definition UpsertCertificateOwnership :: "env \<Rightarrow> CertificateOwnership \<Rightarrow> ('z gov_db_scheme, unit) prog" where
  "UpsertCertificateOwnership env o' = db_update env (\<lambda>s. s\<lparr>t_ownership := upsert co_key o' (t_ownership s)\<rparr>)"

definition ownership_row :: "string \<Rightarrow> string \<Rightarrow> 'z gov_db_scheme \<Rightarrow> CertificateOwnership option" where
  "ownership_row org cert s = find (\<lambda>o'. co_key o' = (org, cert)) (t_ownership s)"

definition GetCertificateOwnership :: "env \<Rightarrow> string \<Rightarrow> string \<Rightarrow> ('z gov_db_scheme, CertificateOwnership) prog" where
  "GetCertificateOwnership env org cert =
     bindE (db_query env (ownership_row org cert))
       (\<lambda>r. case r of None \<Rightarrow> throwE ErrCertificateOwnershipNotFound | Some o' \<Rightarrow> retE o')"

definition ListCertificateOwnershipByService :: "env \<Rightarrow> string \<Rightarrow> string \<Rightarrow> ('z gov_db_scheme, CertificateOwnership list) prog" where
  "ListCertificateOwnershipByService env org svc =
     db_query env (\<lambda>s. sort_key co_CertificateID
       (filter (\<lambda>o'. co_OrganizationID o' = org \<and> co_ServiceID o' = Some svc) (t_ownership s)))"

definition ListCertificateOwnershipByDecision :: "env \<Rightarrow> string \<Rightarrow> Decision \<Rightarrow> ('z gov_db_scheme, CertificateOwnership list) prog" where
  "ListCertificateOwnershipByDecision env org decision =
     db_query env (\<lambda>s. sort_key co_CertificateID
       (filter (\<lambda>o'. co_OrganizationID o' = org \<and> co_Decision o' = decision) (t_ownership s)))"

definition ListCertificateOwnershipByDecisionPaged ::
  "env \<Rightarrow> string \<Rightarrow> Decision \<Rightarrow> string \<Rightarrow> nat \<Rightarrow> ('z gov_db_scheme, CertificateOwnership list) prog" where
  "ListCertificateOwnershipByDecisionPaged env org decision cursor pageSize =
     db_query env (\<lambda>s. take pageSize (sort_key co_CertificateID
       (filter (\<lambda>o'. co_OrganizationID o' = org \<and> co_Decision o' = decision \<and> cursor < co_CertificateID o')
          (t_ownership s))))"

definition ListCertificateOwnershipPaged ::
  "env \<Rightarrow> string \<Rightarrow> string \<Rightarrow> nat \<Rightarrow> ('z gov_db_scheme, CertificateOwnership list) prog" where
  "ListCertificateOwnershipPaged env org cursor pageSize =
     db_query env (\<lambda>s. take pageSize (sort_key co_CertificateID
       (filter (\<lambda>o'. co_OrganizationID o' = org \<and> cursor < co_CertificateID o') (t_ownership s))))"

definition MaxOwnershipByIDsBatchSize :: nat where "MaxOwnershipByIDsBatchSize = 1000"

text \<open>The map keyed by certificate id is an association list; a later row replaces an earlier one.\<close>

definition GetCertificateOwnershipByCertificateIDs ::
  "env \<Rightarrow> string \<Rightarrow> string list \<Rightarrow> ('z gov_db_scheme, (string \<times> CertificateOwnership) list) prog" where
  "GetCertificateOwnershipByCertificateIDs env org certIDs =
     (if certIDs = [] then retE []
      else bindE (guardE (length certIDs \<le> MaxOwnershipByIDsBatchSize) ErrBatchTooLarge) (\<lambda>_.
        db_query env (\<lambda>s. map (\<lambda>o'. (co_CertificateID o', o'))
          (rev (filter (\<lambda>o'. co_OrganizationID o' = org \<and> co_CertificateID o' \<in> set certIDs) (t_ownership s))))))"

definition ListCertificateOwnershipStale ::
  "env \<Rightarrow> string \<Rightarrow> Time \<Rightarrow> string \<Rightarrow> nat \<Rightarrow> ('z gov_db_scheme, CertificateOwnership list) prog" where
  "ListCertificateOwnershipStale env org olderThan cursor limit =
     db_query env (\<lambda>s. take limit (sort_key co_CertificateID
       (filter (\<lambda>o'. co_OrganizationID o' = org \<and> co_LastEvaluatedAt o' < olderThan \<and>
                    cursor < co_CertificateID o') (t_ownership s))))"

section \<open>Overrides\<close>

definition ov_key :: "CertificateOwnershipOverride \<Rightarrow> string \<times> string" where
  "ov_key r = (ov_OrganizationID r, ov_CertificateID r)"

definition ov_active :: "CertificateOwnershipOverride \<Rightarrow> bool" where
  "ov_active r \<longleftrightarrow> ov_ClearedAt r = None"

definition CreateOwnershipOverride :: "env \<Rightarrow> CertificateOwnershipOverride \<Rightarrow> ('z gov_db_scheme, unit) prog" where
  "CreateOwnershipOverride env r =
     exec_hit env ErrOwnershipOverrideAlreadyExists
       (\<lambda>s. \<forall>x \<in> set (t_overrides s). ov_ID x \<noteq> ov_ID r \<and> \<not> (ov_active r \<and> ov_active x \<and> ov_key x = ov_key r))
       (\<lambda>s. s\<lparr>t_overrides := t_overrides s @ [r]\<rparr>)"

definition GetOwnershipOverride :: "env \<Rightarrow> string \<Rightarrow> string \<Rightarrow> ('z gov_db_scheme, CertificateOwnershipOverride) prog" where
  "GetOwnershipOverride env org i =
     bindE (db_query env (\<lambda>s. find (\<lambda>r. ov_OrganizationID r = org \<and> ov_ID r = i) (t_overrides s)))
       (\<lambda>r. case r of None \<Rightarrow> throwE ErrOwnershipOverrideNotFound | Some x \<Rightarrow> retE x)"

definition active_override :: "string \<Rightarrow> string \<Rightarrow> 'z gov_db_scheme \<Rightarrow> CertificateOwnershipOverride option" where
  "active_override org cert s = find (\<lambda>r. ov_key r = (org, cert) \<and> ov_active r) (t_overrides s)"

definition GetActiveOwnershipOverride ::
  "env \<Rightarrow> string \<Rightarrow> string \<Rightarrow> ('z gov_db_scheme, CertificateOwnershipOverride option) prog" where
  "GetActiveOwnershipOverride env org cert = db_query env (active_override org cert)"

definition clearable :: "string \<Rightarrow> string \<Rightarrow> CertificateOwnershipOverride \<Rightarrow> bool" where
  "clearable org i r \<longleftrightarrow> ov_OrganizationID r = org \<and> ov_ID r = i \<and> ov_active r"

definition ClearOwnershipOverride ::
  "env \<Rightarrow> string \<Rightarrow> string \<Rightarrow> string \<Rightarrow> string \<Rightarrow> Time \<Rightarrow> ('z gov_db_scheme, unit) prog" where
  "ClearOwnershipOverride env org i clearedBy clearedReason clearedAt =
     exec_hit env ErrOwnershipOverrideNotFound (\<lambda>s. \<exists>r \<in> set (t_overrides s). clearable org i r)
       (\<lambda>s. s\<lparr>t_overrides := update_where (clearable org i)
          (\<lambda>r. r\<lparr>ov_ClearedAt := Some clearedAt, ov_ClearedBy := Some clearedBy,
                 ov_ClearedReason := Some clearedReason\<rparr>) (t_overrides s)\<rparr>)"

definition active_rows :: "string \<Rightarrow> 'z gov_db_scheme \<Rightarrow> CertificateOwnershipOverride list" where
  "active_rows org s = sort_key ov_CertificateID
     (filter (\<lambda>r. ov_OrganizationID r = org \<and> ov_active r) (t_overrides s))"

definition ListActiveOwnershipOverridesPaged ::
  "env \<Rightarrow> string \<Rightarrow> string \<Rightarrow> nat \<Rightarrow> ('z gov_db_scheme, CertificateOwnershipOverride list) prog" where
  "ListActiveOwnershipOverridesPaged env org cursor pageSize =
     db_query env (\<lambda>s. take pageSize (sort_key ov_CertificateID
       (filter (\<lambda>r. ov_OrganizationID r = org \<and> ov_active r \<and> cursor < ov_CertificateID r) (t_overrides s))))"

definition DefaultExpiringOverridesPageSize :: int where "DefaultExpiringOverridesPageSize = 500"
definition MaxExpiringOverridesPageSize :: int where "MaxExpiringOverridesPageSize = 1000"

text \<open>Page sizes: a non-positive one falls back to the default, a large one is clamped.\<close>

definition clamp_page :: "int \<Rightarrow> int \<Rightarrow> int \<Rightarrow> int" where
  "clamp_page dflt mx n = (let n' = (if n \<le> 0 then dflt else n) in if n' > mx then mx else n')"

definition ov_expired :: "Time \<Rightarrow> CertificateOwnershipOverride \<Rightarrow> bool" where
  "ov_expired now r \<longleftrightarrow> (case ov_ExpiresAt r of None \<Rightarrow> False | Some t \<Rightarrow> t \<le> now)"

definition ListExpiringOverridesPaged ::
  "env \<Rightarrow> string \<Rightarrow> Time \<Rightarrow> string \<Rightarrow> int \<Rightarrow> ('z gov_db_scheme, CertificateOwnershipOverride list) prog" where
  "ListExpiringOverridesPaged env org now cursor pageSize =
     (let n = clamp_page DefaultExpiringOverridesPageSize MaxExpiringOverridesPageSize pageSize in
      db_query env (\<lambda>s. take (nat n) (sort_key ov_CertificateID
        (filter (\<lambda>r. ov_OrganizationID r = org \<and> ov_active r \<and> ov_expired now r \<and> cursor < ov_CertificateID r)
           (t_overrides s)))))"

section \<open>Explanations\<close>

definition CreateOwnershipExplanation :: "env \<Rightarrow> OwnershipMatchExplanation \<Rightarrow> ('z gov_db_scheme, unit) prog" where
  "CreateOwnershipExplanation env e =
     exec_hit env EDb (\<lambda>s. \<forall>x \<in> set (t_explanations s). ex_ID x \<noteq> ex_ID e)
       (\<lambda>s. s\<lparr>t_explanations := t_explanations s @ [e]\<rparr>)"

definition GetOwnershipExplanation :: "env \<Rightarrow> string \<Rightarrow> string \<Rightarrow> ('z gov_db_scheme, OwnershipMatchExplanation) prog" where
  "GetOwnershipExplanation env org i =
     bindE (db_query env (\<lambda>s. find (\<lambda>e. ex_OrganizationID e = org \<and> ex_ID e = i) (t_explanations s)))
       (\<lambda>r. case r of None \<Rightarrow> throwE ErrOwnershipExplanationNotFound | Some x \<Rightarrow> retE x)"

text \<open>\<open>ORDER BY decided_at DESC, id ASC\<close>.\<close>

definition timeline_key :: "OwnershipMatchExplanation \<Rightarrow> Time \<times> string" where
  "timeline_key e = (- ex_DecidedAt e, ex_ID e)"

definition cert_explanations :: "string \<Rightarrow> string \<Rightarrow> 'z gov_db_scheme \<Rightarrow> OwnershipMatchExplanation list" where
  "cert_explanations org cert s =
     filter (\<lambda>e. ex_OrganizationID e = org \<and> ex_CertificateID e = cert) (t_explanations s)"

definition ListOwnershipExplanationsForCertificate ::
  "env \<Rightarrow> string \<Rightarrow> string \<Rightarrow> int \<Rightarrow> ('z gov_db_scheme, OwnershipMatchExplanation list) prog" where
  "ListOwnershipExplanationsForCertificate env org cert limit =
     db_query env (\<lambda>s. let xs = sort_key timeline_key (cert_explanations org cert s)
                        in if limit > 0 then take (nat limit) xs else xs)"

definition ListOwnershipExplanationsForCertificatePaged ::
  "env \<Rightarrow> string \<Rightarrow> string \<Rightarrow> Time \<Rightarrow> string \<Rightarrow> nat \<Rightarrow> ('z gov_db_scheme, OwnershipMatchExplanation list) prog" where
  "ListOwnershipExplanationsForCertificatePaged env org cert cursorAt cursorID limit =
     db_query env (\<lambda>s. take limit (sort_key timeline_key
       (filter (\<lambda>e. cursorID = [] \<or> ex_DecidedAt e < cursorAt \<or> (ex_DecidedAt e = cursorAt \<and> cursorID < ex_ID e))
          (cert_explanations org cert s))))"

definition ListCertificateIDsWithExplanationsPaged ::
  "env \<Rightarrow> string \<Rightarrow> string \<Rightarrow> nat \<Rightarrow> ('z gov_db_scheme, string list) prog" where
  "ListCertificateIDsWithExplanationsPaged env org cursor pageSize =
     db_query env (\<lambda>s. take pageSize (sort (remdups (map ex_CertificateID
       (filter (\<lambda>e. ex_OrganizationID e = org \<and> cursor < ex_CertificateID e) (t_explanations s))))))"

text \<open>Is the row the one \<open>certificate_ownership.explanation_id\<close> points at.\<close>

definition is_current :: "'z gov_db_scheme \<Rightarrow> OwnershipMatchExplanation \<Rightarrow> bool" where
  "is_current s e \<longleftrightarrow> (\<exists>co \<in> set (t_ownership s). co_OrganizationID co = ex_OrganizationID e \<and>
     co_CertificateID co = ex_CertificateID e \<and> co_ExplanationID co = ex_ID e)"

definition keep_ids :: "string \<Rightarrow> string \<Rightarrow> nat \<Rightarrow> 'z gov_db_scheme \<Rightarrow> string list" where
  "keep_ids org cert keepN s = map ex_ID (take keepN (sort_key timeline_key (cert_explanations org cert s)))"

text \<open>\<open>ORDER BY decided_at ASC, id DESC\<close> is the timeline order backwards (ids are unique).\<close>

definition prunable_ids :: "string \<Rightarrow> string \<Rightarrow> Time \<Rightarrow> nat \<Rightarrow> nat \<Rightarrow> 'z gov_db_scheme \<Rightarrow> string list" where
  "prunable_ids org cert olderThan keepN limit s =
     take limit (map ex_ID (rev (sort_key timeline_key
       (filter (\<lambda>e. ex_DecidedAt e < olderThan \<and> ex_ID e \<notin> set (keep_ids org cert keepN s) \<and> \<not> is_current s e)
          (cert_explanations org cert s)))))"

definition ListPrunableExplanationIDs ::
  "env \<Rightarrow> string \<Rightarrow> string \<Rightarrow> Time \<Rightarrow> nat \<Rightarrow> nat \<Rightarrow> ('z gov_db_scheme, string list) prog" where
  "ListPrunableExplanationIDs env org cert olderThan keepN limit =
     db_query env (prunable_ids org cert olderThan keepN limit)"

definition deletable :: "string \<Rightarrow> string \<Rightarrow> string list \<Rightarrow> 'z gov_db_scheme \<Rightarrow> OwnershipMatchExplanation \<Rightarrow> bool" where
  "deletable org cert ids s e \<longleftrightarrow> ex_OrganizationID e = org \<and> ex_CertificateID e = cert \<and>
     ex_ID e \<in> set ids \<and> \<not> is_current s e"

definition DeleteOwnershipExplanationsForCertificate ::
  "env \<Rightarrow> string \<Rightarrow> string \<Rightarrow> string list \<Rightarrow> ('z gov_db_scheme, nat) prog" where
  "DeleteOwnershipExplanationsForCertificate env org cert ids =
     (if ids = [] then retE 0
      else bindE (db_query env (\<lambda>s. length (filter (deletable org cert ids s) (t_explanations s)))) (\<lambda>n.
           bindE (modE (\<lambda>s. s\<lparr>t_explanations := delete_where (deletable org cert ids s) (t_explanations s)\<rparr>)) (\<lambda>_.
           retE n)))"

end
