(* ===== verification/SignalStore.thy ===== *)
theory SignalStore imports OwnershipStore begin

text \<open>
  The reads that feed the ownership engine and the ledger of recompute runs:
  \<open>CertificateSignalsPagedQuery\<close> and its single-certificate variant
  (\<open>governance_ownership_repository.go\<close>), the target resolver of rule and override validation
  (\<open>governance_rule_target_resolver.go\<close>) and \<open>governance_recompute_runs_repository.go\<close>.
\<close>

section \<open>Certificate signals\<close>

text \<open>\<open>array_agg(DISTINCT x ORDER BY x)\<close>, and the tag sets after \<open>unmarshalTagPairs\<close>.\<close>

definition agg :: "'a::linorder list \<Rightarrow> 'a list" where
  "agg xs = sort (remdups xs)"

definition live_observations :: "'z gov_db_scheme \<Rightarrow> CertificateRow \<Rightarrow> ObservationRow list" where
  "live_observations s c = filter (\<lambda>ob. ob_OrganizationID ob = ce_OrganizationID c \<and>
     ob_CertificateID ob = ce_ID c \<and> ob_RemovedAt ob = None) (t_observations s)"

definition live_groups_of :: "'z gov_db_scheme \<Rightarrow> ObservationRow \<Rightarrow> string list" where
  "live_groups_of s ob = [mb_AgentGroupID m.
     m \<leftarrow> t_memberships s, mb_OrganizationID m = ob_OrganizationID ob \<and> mb_AgentID m = ob_AgentID ob,
     g \<leftarrow> t_agent_groups s, nr_OrganizationID g = mb_OrganizationID m \<and> nr_ID g = mb_AgentGroupID m \<and>
       nr_DisabledAt g = None]"

definition live_tags_of :: "'z gov_db_scheme \<Rightarrow> string \<Rightarrow> string \<Rightarrow> string \<Rightarrow> TagPair list" where
  "live_tags_of s org targetType targetID = [(tg_Key t, tg_Value t).
     ta \<leftarrow> t_tag_assignments s, ta_OrganizationID ta = org \<and> ta_TargetType ta = targetType \<and> ta_TargetID ta = targetID,
     t \<leftarrow> t_tags s, tg_OrganizationID t = ta_OrganizationID ta \<and> tg_ID t = ta_TagID ta \<and> tg_DisabledAt t = None]"

definition signals_of :: "'z gov_db_scheme \<Rightarrow> CertificateRow \<Rightarrow> CertificateSignals" where
  "signals_of s c =
     (let obs = live_observations s c in
      \<lparr>sg_CertificateID = ce_ID c, sg_Subject = ce_Subject c, sg_Issuer = ce_Issuer c, sg_SANs = ce_SANs c,
       sg_StoreLocations = agg (map ob_StoreLocation obs),
       sg_ObservingAgentIDs = agg (map ob_AgentID obs),
       sg_ObservingAgentGroupIDs = agg (concat (map (live_groups_of s) obs)),
       sg_CertTags = agg (live_tags_of s (ce_OrganizationID c) ''certificate'' (ce_ID c)),
       sg_AgentTags = agg (concat (map (\<lambda>ob. live_tags_of s (ob_OrganizationID ob) ''agent'' (ob_AgentID ob)) obs))\<rparr>)"

definition org_signals :: "string \<Rightarrow> 'z gov_db_scheme \<Rightarrow> CertificateSignals list" where
  "org_signals org s = map (signals_of s)
     (sort_key ce_ID (filter (\<lambda>c. ce_OrganizationID c = org) (t_certificates s)))"

definition ListCertificateSignalsPaged ::
  "env \<Rightarrow> string \<Rightarrow> string \<Rightarrow> nat \<Rightarrow> ('z gov_db_scheme, CertificateSignals list) prog" where
  "ListCertificateSignalsPaged env org cursor pageSize =
     db_query env (\<lambda>s. map (signals_of s) (take pageSize (sort_key ce_ID
       (filter (\<lambda>c. ce_OrganizationID c = org \<and> cursor < ce_ID c) (t_certificates s)))))"

definition signals_row :: "string \<Rightarrow> string \<Rightarrow> 'z gov_db_scheme \<Rightarrow> CertificateSignals option" where
  "signals_row org cert s =
     map_option (signals_of s) (find (\<lambda>c. ce_OrganizationID c = org \<and> ce_ID c = cert) (t_certificates s))"

definition GetCertificateSignals ::
  "env \<Rightarrow> string \<Rightarrow> string \<Rightarrow> ('z gov_db_scheme, CertificateSignals option) prog" where
  "GetCertificateSignals env org cert = db_query env (signals_row org cert)"

section \<open>The target resolver\<close>

definition active_named :: "string \<Rightarrow> string \<Rightarrow> NamedRow list \<Rightarrow> bool" where
  "active_named org i rows \<longleftrightarrow>
     (\<exists>r \<in> set rows. nr_OrganizationID r = org \<and> nr_ID r = i \<and> nr_DisabledAt r = None)"

definition ActiveServiceExists :: "env \<Rightarrow> string \<Rightarrow> string \<Rightarrow> ('z gov_db_scheme, bool) prog" where
  "ActiveServiceExists env org i = db_query env (\<lambda>s. active_named org i (t_services s))"

definition ActiveAgentGroupExists :: "env \<Rightarrow> string \<Rightarrow> string \<Rightarrow> ('z gov_db_scheme, bool) prog" where
  "ActiveAgentGroupExists env org i = db_query env (\<lambda>s. active_named org i (t_agent_groups s))"

section \<open>Recompute runs\<close>

definition StartRecomputeRun :: "env \<Rightarrow> GovernanceRecomputeRun \<Rightarrow> ('z gov_db_scheme, unit) prog" where
  "StartRecomputeRun env run =
     exec_hit env EDb (\<lambda>s. \<forall>r \<in> set (t_runs s). rr_ID r \<noteq> rr_ID run)
       (\<lambda>s. s\<lparr>t_runs := t_runs s @ [run]\<rparr>)"

definition is_run :: "string \<Rightarrow> string \<Rightarrow> GovernanceRecomputeRun \<Rightarrow> bool" where
  "is_run org i r \<longleftrightarrow> rr_OrganizationID r = org \<and> rr_ID r = i"

definition FinishRecomputeRun :: "env \<Rightarrow> GovernanceRecomputeRun \<Rightarrow> ('z gov_db_scheme, unit) prog" where
  "FinishRecomputeRun env run =
     exec_hit env ErrGovernanceRecomputeRunNotFound
       (\<lambda>s. \<exists>r \<in> set (t_runs s). is_run (rr_OrganizationID run) (rr_ID run) r)
       (\<lambda>s. s\<lparr>t_runs := update_where (is_run (rr_OrganizationID run) (rr_ID run))
          (\<lambda>r. r\<lparr>rr_FinishedAt := rr_FinishedAt run, rr_Succeeded := rr_Succeeded run,
                 rr_ErrorClass := rr_ErrorClass run, rr_EvaluatedCount := rr_EvaluatedCount run,
                 rr_ChangedCount := rr_ChangedCount run, rr_UnchangedCount := rr_UnchangedCount run,
                 rr_BecameOwnedCount := rr_BecameOwnedCount run, rr_BecameUnownedCount := rr_BecameUnownedCount run,
                 rr_FlippedOwnerCount := rr_FlippedOwnerCount run\<rparr>) (t_runs s)\<rparr>)"

definition GetRecomputeRun :: "env \<Rightarrow> string \<Rightarrow> string \<Rightarrow> ('z gov_db_scheme, GovernanceRecomputeRun) prog" where
  "GetRecomputeRun env org i =
     bindE (db_query env (\<lambda>s. find (is_run org i) (t_runs s)))
       (\<lambda>r. case r of None \<Rightarrow> throwE ErrGovernanceRecomputeRunNotFound | Some x \<Rightarrow> retE x)"

definition defaultRecentRunsLimit :: int where "defaultRecentRunsLimit = 50"

text \<open>\<open>ORDER BY started_at DESC, id DESC\<close> is the ascending order backwards (ids are unique).\<close>

definition ListRecentRecomputeRuns ::
  "env \<Rightarrow> string \<Rightarrow> RecomputeKind \<Rightarrow> int \<Rightarrow> ('z gov_db_scheme, GovernanceRecomputeRun list) prog" where
  "ListRecentRecomputeRuns env org kind limit =
     (let n = (if limit \<le> 0 then defaultRecentRunsLimit else limit) in
      db_query env (\<lambda>s. take (nat n) (rev (sort_key (\<lambda>r. (rr_StartedAt r, rr_ID r))
        (filter (\<lambda>r. rr_OrganizationID r = org \<and> rr_Kind r = kind) (t_runs s))))))"

section \<open>The integrity of the ownership tables\<close>

text \<open>
  The constraints of migration 0010: primary keys, \<open>UNIQUE (organization_id, name)\<close> of the rules,
  and the partial unique index that allows one active override per certificate; and the primary key
  of the certificates.
\<close>

definition one_active :: "CertificateOwnershipOverride list \<Rightarrow> bool" where
  "one_active rows \<longleftrightarrow> distinct (map ov_key (filter ov_active rows))"

definition gov_wf :: "'z gov_db_scheme \<Rightarrow> bool" where
  "gov_wf s \<longleftrightarrow>
     distinct (map rl_ID (t_rules s)) \<and>
     distinct (map (\<lambda>r. (rl_OrganizationID r, rl_Name r)) (t_rules s)) \<and>
     distinct (map co_key (t_ownership s)) \<and>
     distinct (map ov_ID (t_overrides s)) \<and> one_active (t_overrides s) \<and>
     distinct (map ex_ID (t_explanations s)) \<and>
     distinct (map rr_ID (t_runs s)) \<and>
     distinct (map ce_ID (t_certificates s))"

lemma gov_wf_db_of [simp]: "gov_wf (db_of s) = gov_wf s"
  by (simp add: gov_wf_def)

lemma gov_wf_stepped [simp]: "gov_wf (stepped s) = gov_wf s"
  by (simp add: gov_wf_def)

lemma gov_wf_frame [simp]:
  "gov_wf (s\<lparr>audit_events := ev\<rparr>) = gov_wf s" "gov_wf (s\<lparr>w_tx := n\<rparr>) = gov_wf s"
  "gov_wf (s\<lparr>w_ids := n\<rparr>) = gov_wf s" "gov_wf (s\<lparr>w_clock := n\<rparr>) = gov_wf s"
  by (simp_all add: gov_wf_def)

lemma keeps_gov_wf_read: "leaves db_of m \<Longrightarrow> keeps gov_wf m"
  by (erule keeps_view) simp

lemma distinct_map_update_where:
  assumes "\<And>r. P r \<Longrightarrow> g (f r) = g r" shows "distinct (map g (update_where P f rows)) = distinct (map g rows)"
  using map_update_where [of P g f rows] assms by simp

lemma filter_clear:
  "filter ov_active (update_where (clearable org i)
     (\<lambda>r. r\<lparr>ov_ClearedAt := Some a, ov_ClearedBy := b, ov_ClearedReason := c\<rparr>) rows)
   = filter (\<lambda>r. \<not> clearable org i r) (filter ov_active rows)"
  unfolding update_where_def by (induction rows) (auto simp: ov_active_def clearable_def)

lemma distinct_map_filter_conj: "distinct (map f (filter P xs)) \<Longrightarrow> distinct (map f (filter (\<lambda>x. P x \<and> Q x) xs))"
  by (induction xs) (auto split: if_splits)

lemma keeps_wf_CreateOwnershipRule [keep_intros]: "keeps gov_wf (CreateOwnershipRule env r)"
  unfolding CreateOwnershipRule_def
  by (rule keeps_exec_hit) (auto simp: gov_wf_def)

lemma keeps_wf_DisableOwnershipRule [keep_intros]: "keeps gov_wf (DisableOwnershipRule env org i)"
  unfolding DisableOwnershipRule_def
  by (rule keeps_exec_hit) (auto simp: gov_wf_def distinct_map_update_where)

lemma keeps_wf_EnableOwnershipRule [keep_intros]: "keeps gov_wf (EnableOwnershipRule env org i)"
  unfolding EnableOwnershipRule_def
  by (rule keeps_exec_hit) (auto simp: gov_wf_def distinct_map_update_where)

lemma keeps_wf_UpsertCertificateOwnership [keep_intros]: "keeps gov_wf (UpsertCertificateOwnership env r)"
  unfolding UpsertCertificateOwnership_def
  by (rule keeps_db_update) (auto simp: gov_wf_def distinct_upsert)

lemma keeps_wf_CreateOwnershipOverride [keep_intros]: "keeps gov_wf (CreateOwnershipOverride env r)"
  unfolding CreateOwnershipOverride_def
  by (rule keeps_exec_hit) (auto simp: gov_wf_def one_active_def)

lemma keeps_wf_ClearOwnershipOverride [keep_intros]: "keeps gov_wf (ClearOwnershipOverride env org i a b c)"
  unfolding ClearOwnershipOverride_def
  by (rule keeps_exec_hit)
    (auto simp: gov_wf_def distinct_map_update_where one_active_def filter_clear distinct_map_filter_conj)

lemma keeps_wf_CreateOwnershipExplanation [keep_intros]: "keeps gov_wf (CreateOwnershipExplanation env e)"
  unfolding CreateOwnershipExplanation_def
  by (rule keeps_exec_hit) (auto simp: gov_wf_def)

lemma keeps_wf_StartRecomputeRun [keep_intros]: "keeps gov_wf (StartRecomputeRun env r)"
  unfolding StartRecomputeRun_def
  by (rule keeps_exec_hit) (auto simp: gov_wf_def)

lemma keeps_wf_FinishRecomputeRun [keep_intros]: "keeps gov_wf (FinishRecomputeRun env r)"
  unfolding FinishRecomputeRun_def
  by (rule keeps_exec_hit) (auto simp: gov_wf_def distinct_map_update_where)

lemma keeps_wf_UpdateOwnershipRuleMutable [keep_intros]: "keeps gov_wf (UpdateOwnershipRuleMutable env org i a b c)"
  unfolding UpdateOwnershipRuleMutable_def
  by (rule keeps_exec_hit) (auto simp: gov_wf_def distinct_map_update_where)

lemma keeps_wf_DeleteOwnershipExplanations [keep_intros]:
  "keeps gov_wf (DeleteOwnershipExplanationsForCertificate env org cert ids)"
  unfolding DeleteOwnershipExplanationsForCertificate_def
  by (intro keep_intros keeps_gov_wf_read frame_intros keeps_modE)
    (auto simp: gov_wf_def delete_where_def distinct_map_filter)

section \<open>Reads leave the database alone\<close>

lemma leaves_reads [frame_intros]:
  "leaves db_of (GetOwnershipRule env org i)"
  "leaves db_of (ListOwnershipRulesForEngine env org)"
  "leaves db_of (GetCertificateOwnership env org i)"
  "leaves db_of (GetOwnershipOverride env org i)"
  "leaves db_of (GetActiveOwnershipOverride env org i)"
  "leaves db_of (ListActiveOwnershipOverridesPaged env org i n)"
  "leaves db_of (ListCertificateSignalsPaged env org i n)"
  "leaves db_of (GetCertificateSignals env org i)"
  "leaves db_of (ActiveServiceExists env org i)"
  "leaves db_of (ActiveAgentGroupExists env org i)"
  unfolding GetOwnershipRule_def ListOwnershipRulesForEngine_def GetCertificateOwnership_def
    GetOwnershipOverride_def GetActiveOwnershipOverride_def ListActiveOwnershipOverridesPaged_def
    ListCertificateSignalsPaged_def GetCertificateSignals_def ActiveServiceExists_def
    ActiveAgentGroupExists_def
  by (intro frame_intros)+

lemma leaves_retention_reads [frame_intros]:
  "leaves db_of (ListExpiringOverridesPaged env org now cur k)"
  "leaves db_of (ListCertificateIDsWithExplanationsPaged env org cur n)"
  "leaves db_of (ListPrunableExplanationIDs env org cert t n m)"
  unfolding ListExpiringOverridesPaged_def ListCertificateIDsWithExplanationsPaged_def
    ListPrunableExplanationIDs_def Let_def
  by (intro frame_intros)+

lemmas keeps_wf_transactions [keep_intros] =
  keeps_transactions [where P = gov_wf, OF gov_wf_db_of]

lemma keeps_wf_Record [keep_intros]: "keeps gov_wf (Record env e)"
  by (rule keeps_Record) simp_all

lemmas keeps_wf_reads [keep_intros] =
  leaves_Now [THEN keeps_gov_wf_read] leaves_NewID [THEN keeps_gov_wf_read] leaves_dbcall [THEN keeps_gov_wf_read]
  leaves_db_query [THEN keeps_gov_wf_read] leaves_reads [THEN keeps_gov_wf_read]
  leaves_retention_reads [THEN keeps_gov_wf_read]

section \<open>Paged reads are keyset reads\<close>

lemma sg_of [simp]: "sg_CertificateID (signals_of s c) = ce_ID c"
  by (simp add: signals_of_def Let_def)

lemma inputs_of_fields:
  assumes "inputs_of s = inputs_of t"
  shows "t_certificates s = t_certificates t" "t_observations s = t_observations t"
    "t_agent_groups s = t_agent_groups t" "t_memberships s = t_memberships t" "t_tags s = t_tags t"
    "t_tag_assignments s = t_tag_assignments t" "t_services s = t_services t"
  using assms by (simp_all add: inputs_of_def)

lemma signals_of_cong:
  assumes "inputs_of s = inputs_of t" shows "signals_of s = signals_of t"
  by (rule ext) (unfold signals_of_def live_observations_def live_groups_of_def live_tags_of_def
    inputs_of_fields [OF assms], rule refl)

lemma org_signals_cong:
  assumes "inputs_of s = inputs_of t" shows "org_signals org s = org_signals org t"
  unfolding org_signals_def signals_of_cong [OF assms] inputs_of_fields(1) [OF assms] by (rule refl)

lemma signals_row_cong:
  assumes "inputs_of s = inputs_of t" shows "signals_row org cert s = signals_row org cert t"
  unfolding signals_row_def signals_of_cong [OF assms] inputs_of_fields(1) [OF assms] by (rule refl)

lemma signals_row_stepped [simp]:
  "signals_row org cert (stepped s) = signals_row org cert s" "signals_row org cert (db_of s) = signals_row org cert s"
  by (rule signals_row_cong, simp)+

lemma org_signals_leaves: "leaves inputs_of m \<Longrightarrow> leaves (org_signals org) m"
  unfolding leaves_def using org_signals_cong by blast

lemma org_signals_db [simp]: "org_signals org (db_of s) = org_signals org s" "org_signals org (stepped s) = org_signals org s"
  by (rule org_signals_cong, simp)+

interpretation sigs: keyset "(<)" sg_CertificateID "org_signals org" gov_wf "ListCertificateSignalsPaged env org" for env org
proof unfold_locales
  fix s assume "gov_wf s"
  then have "distinct (map ce_ID (filter (\<lambda>c. ce_OrganizationID c = org) (t_certificates s)))"
    by (simp add: gov_wf_def distinct_map_filter)
  then show "sorted_wrt (\<lambda>a b. sg_CertificateID a < sg_CertificateID b) (org_signals org s)"
    by (simp add: org_signals_def sorted_wrt_map sorted_strict)
next
  fix cur n s page s'
  assume "ListCertificateSignalsPaged env org cur n s = (Inr page, s')"
  then have "page = map (signals_of (stepped s)) (take n (sort_key ce_ID
       (filter (\<lambda>c. ce_OrganizationID c = org \<and> cur < ce_ID c) (t_certificates s))))"
    by (simp add: ListCertificateSignalsPaged_def run_simps)
  then have "page = take n (filter (\<lambda>r. cur < sg_CertificateID r) (org_signals org (stepped s)))"
    by (simp add: page_of_sorted org_signals_def filter_map o_def take_map)
  then show "page = take n (filter (\<lambda>r. cur < sg_CertificateID r) (org_signals org s))" by simp
next
  fix cur n
  show "leaves (org_signals org) (ListCertificateSignalsPaged env org cur n)"
    by (rule leaves_view [OF leaves_reads(7)]) simp
  show "keeps gov_wf (ListCertificateSignalsPaged env org cur n)"
    by (intro keeps_gov_wf_read frame_intros)
qed auto

lemma active_rows_db [simp]: "active_rows org (db_of s) = active_rows org s" "active_rows org (stepped s) = active_rows org s"
  by (simp_all add: active_rows_def)

lemma one_active_org:
  assumes "gov_wf s"
  shows "distinct (map ov_CertificateID (filter (\<lambda>r. ov_OrganizationID r = org \<and> ov_active r) (t_overrides s)))"
proof -
  have "distinct (map ov_key (filter ov_active (t_overrides s)))"
    using assms by (simp add: gov_wf_def one_active_def)
  then have "distinct (map ov_key (filter (\<lambda>r. ov_active r \<and> ov_OrganizationID r = org) (t_overrides s)))"
    by (rule distinct_map_filter_conj)
  then have "distinct (map ov_key (filter (\<lambda>r. ov_OrganizationID r = org \<and> ov_active r) (t_overrides s)))"
    by (simp add: conj_commute)
  then show ?thesis
    by (auto simp: distinct_map inj_on_def ov_key_def)
qed

interpretation actives: keyset "(<)" ov_CertificateID "active_rows org" gov_wf
  "ListActiveOwnershipOverridesPaged env org" for env org
proof unfold_locales
  show "sorted_wrt (\<lambda>a b. ov_CertificateID a < ov_CertificateID b) (active_rows org s)" if "gov_wf s" for s
    unfolding active_rows_def by (rule sorted_strict [OF one_active_org [OF that]])
next
  fix cur n s page s'
  assume "ListActiveOwnershipOverridesPaged env org cur n s = (Inr page, s')"
  then show "page = take n (filter (\<lambda>r. cur < ov_CertificateID r) (active_rows org s))"
    using page_of_sorted [of n ov_CertificateID "\<lambda>r. ov_OrganizationID r = org \<and> ov_active r"]
    by (simp add: ListActiveOwnershipOverridesPaged_def run_simps active_rows_def conj_assoc)
next
  fix cur n
  show "leaves (active_rows org) (ListActiveOwnershipOverridesPaged env org cur n)"
    by (rule leaves_view [OF leaves_reads(6)]) simp
  show "keeps gov_wf (ListActiveOwnershipOverridesPaged env org cur n)"
    by (intro keeps_gov_wf_read frame_intros)
qed auto

text \<open>The active rows and the per-certificate lookup agree.\<close>

lemma active_override_of_rows:
  assumes "gov_wf s"
  shows "active_override org cert s = find (\<lambda>r. ov_CertificateID r = cert) (active_rows org s)"
proof (cases "active_override org cert s")
  case None
  then have "\<forall>r \<in> set (t_overrides s). \<not> (ov_key r = (org, cert) \<and> ov_active r)"
    by (simp add: active_override_def find_None_set)
  then have "find (\<lambda>r. ov_CertificateID r = cert) (active_rows org s) = None"
    by (auto simp: find_None_set active_rows_def ov_key_def)
  with None show ?thesis by simp
next
  case (Some r)
  then have r: "r \<in> set (t_overrides s)" "ov_key r = (org, cert)" "ov_active r"
    by (auto simp: active_override_def dest: find_Some_D)
  have "find (\<lambda>x. ov_CertificateID x = cert) (active_rows org s) = Some r"
  proof (rule find_unique)
    show "r \<in> set (active_rows org s)" "ov_CertificateID r = cert"
      using r by (auto simp: active_rows_def ov_key_def)
    show "y = r" if "y \<in> set (active_rows org s)" "ov_CertificateID y = cert" for y
      using one_active_org [OF assms, of org] r that
      by (auto simp: active_rows_def ov_key_def distinct_map inj_on_def)
  qed
  with Some show ?thesis by simp
qed

section \<open>A concrete database\<close>

text \<open>Two certificates of organization \<open>o1\<close>, one of them observed by an agent of an active group.\<close>

definition demo_db :: gov_db where
  "demo_db = \<lparr>w_calls = 0, w_ids = 0, w_clock = 0, w_tx = 0, w_locks = [], audit_events = [],
     t_rules = [], t_ownership = [], t_overrides = [], t_explanations = [], t_runs = [],
     t_certificates = [\<lparr>ce_ID = ''c2'', ce_OrganizationID = ''o1'', ce_Subject = ''CN=b'', ce_Issuer = ''ca'', ce_SANs = [''b.ex'']\<rparr>,
       \<lparr>ce_ID = ''c1'', ce_OrganizationID = ''o1'', ce_Subject = ''CN=a'', ce_Issuer = ''ca'', ce_SANs = [''a.ex'']\<rparr>],
     t_observations = [\<lparr>ob_OrganizationID = ''o1'', ob_CertificateID = ''c1'', ob_AgentID = ''a1'',
       ob_StoreLocation = ''My'', ob_RemovedAt = None\<rparr>],
     t_agent_groups = [\<lparr>nr_ID = ''g1'', nr_OrganizationID = ''o1'', nr_DisabledAt = None\<rparr>],
     t_memberships = [\<lparr>mb_OrganizationID = ''o1'', mb_AgentGroupID = ''g1'', mb_AgentID = ''a1''\<rparr>],
     t_tags = [\<lparr>tg_ID = ''t1'', tg_OrganizationID = ''o1'', tg_Key = ''env'', tg_Value = ''prod'', tg_DisabledAt = None\<rparr>],
     t_tag_assignments = [\<lparr>ta_OrganizationID = ''o1'', ta_TagID = ''t1'', ta_TargetType = ''certificate'', ta_TargetID = ''c2''\<rparr>],
     t_services = [\<lparr>nr_ID = ''s1'', nr_OrganizationID = ''o1'', nr_DisabledAt = None\<rparr>,
       \<lparr>nr_ID = ''s2'', nr_OrganizationID = ''o1'', nr_DisabledAt = None\<rparr>]\<rparr>"

lemma demo_db_wf: "gov_wf demo_db"
  by (simp add: gov_wf_def demo_db_def one_active_def)

lemma demo_no_faults: "no_faults demo_env"
  by (simp add: no_faults_def demo_env_def)

end
