(* ===== verification/RuleMutations.thy ===== *)
theory RuleMutations imports SignalStore begin

text \<open>
  \<open>rule_validation.go\<close> and \<open>rule_mutations.go\<close> of \<open>internal/governance/ownership\<close>: the pure
  validators, and the four rule mutations of the service, each one validation, bounded lookups, and
  one transaction that writes the row and its audit event. The invariant \<open>rules_valid\<close> says that
  every stored rule is one the engine compiles; the mutations are the only writers of the table.
\<close>

section \<open>Validation\<close>

definition maxRuleNameLen :: nat where "maxRuleNameLen = 200"
definition maxRuleDescriptionLen :: nat where "maxRuleDescriptionLen = 1000"
definition maxRuleMatchValueLen :: nat where "maxRuleMatchValueLen = 1024"
definition minRulePriority :: int where "minRulePriority = 0"
definition maxRulePriority :: int where "maxRulePriority = 1000000"

fun tierForKind :: "MatchKind \<Rightarrow> PrecedenceTier option" where
  "tierForKind MatchAgentGroup = Some PrecedenceAgentGroup"
| "tierForKind MatchSANGlob = Some PrecedenceSANPattern"
| "tierForKind MatchSANRegex = Some PrecedenceSANPattern"
| "tierForKind MatchSubjectCNGlob = Some PrecedenceSubjectPattern"
| "tierForKind MatchTag = Some PrecedenceTag"
| "tierForKind MatchIssuerDN = Some PrecedenceIssuerStore"
| "tierForKind MatchStoreLocation = Some PrecedenceIssuerStore"
| "tierForKind MatchFallback = Some PrecedenceFallback"
| "tierForKind (KindOther _) = None"

definition validateRuleKindAndTier :: "MatchKind \<Rightarrow> PrecedenceTier \<Rightarrow> err + PrecedenceTier" where
  "validateRuleKindAndTier kind suppliedTier =
     (if suppliedTier = PrecedenceServiceMember then Inl ErrServiceMemberReserved
      else case tierForKind kind of
        None \<Rightarrow> Inl ErrInvalidRule
      | Some canonical \<Rightarrow>
          if suppliedTier \<noteq> TierUnset \<and> suppliedTier \<noteq> canonical then Inl ErrInvalidRule
          else Inr canonical)"

definition validateMatchValue :: "env \<Rightarrow> MatchKind \<Rightarrow> string \<Rightarrow> err + bool" where
  "validateMatchValue env kind value =
     (if kind = MatchFallback then (if value \<noteq> [] then Inl ErrInvalidRule else Inr False)
      else if TrimSpace value = [] then Inl ErrInvalidRule
      else if length value > maxRuleMatchValueLen then Inl ErrInvalidRule
      else if kind = MatchSANRegex \<and> (case compileRegex env value of Inl _ \<Rightarrow> True | Inr _ \<Rightarrow> False)
           then Inl ErrInvalidRule
      else Inr (kind = MatchAgentGroup))"

definition validateRuleName :: "string \<Rightarrow> err + unit" where
  "validateRuleName name =
     (if TrimSpace name = [] then Inl ErrInvalidRule
      else if length name > maxRuleNameLen then Inl ErrInvalidRule else Inr ())"

definition validateRuleDescription :: "string \<Rightarrow> err + unit" where
  "validateRuleDescription desc = (if length desc > maxRuleDescriptionLen then Inl ErrInvalidRule else Inr ())"

definition validateRulePriority :: "int \<Rightarrow> err + unit" where
  "validateRulePriority priority =
     (if priority < minRulePriority \<or> priority > maxRulePriority then Inl ErrInvalidRule else Inr ())"

definition requireRuleOrgActor :: "string \<Rightarrow> string \<Rightarrow> err + unit" where
  "requireRuleOrgActor orgID actor =
     (if TrimSpace orgID = [] then Inl ErrInvalidRule
      else if TrimSpace actor = [] then Inl ErrInvalidRule else Inr ())"

section \<open>Audit\<close>

text \<open>\<open>json.Marshal\<close> of a map: later entries win, keys come out sorted.\<close>

definition json_of_map :: "(string \<times> json) list \<Rightarrow> json" where
  "json_of_map kvs = JObj (sort_key fst (fold (upsert fst) kvs []))"

definition ruleAuditEventNow ::
  "string \<Rightarrow> string \<Rightarrow> string \<Rightarrow> string \<Rightarrow> Time \<Rightarrow> (string \<times> json) list \<Rightarrow> Event" where
  "ruleAuditEventNow orgID actor action ruleID now extra =
     \<lparr>ev_ID = [], ev_OrganizationID = orgID, ev_OccurredAt = now, ev_Actor = actor, ev_ActorType = ''user'',
      ev_Action = action, ev_TargetType = ''ownership_rule'', ev_TargetID = ruleID, ev_RequestID = [],
      ev_Metadata = json_of_map ((''severity'', JStr ''security'') # extra)\<rparr>"

definition recordRuleAudit :: "env \<Rightarrow> Event \<Rightarrow> ('z world_scheme, unit) prog" where
  "recordRuleAudit env e = Record env e"

section \<open>The mutations\<close>

record CreateRuleInput =
  cri_OrganizationID :: string
  cri_ActorUserID :: string
  cri_Name :: string
  cri_Description :: string
  cri_ServiceID :: string
  cri_MatchKind :: MatchKind
  cri_PrecedenceTier :: PrecedenceTier
  cri_MatchValue :: string
  cri_Priority :: int

record UpdateRuleInput =
  uri_OrganizationID :: string
  uri_ActorUserID :: string
  uri_RuleID :: string
  uri_Description :: "string option"
  uri_MatchValue :: "string option"
  uri_Priority :: "int option"

definition checkAgentGroup :: "env \<Rightarrow> string \<Rightarrow> string \<Rightarrow> bool \<Rightarrow> ('z gov_db_scheme, unit) prog" where
  "checkAgentGroup env org value isAgentGroup =
     (if isAgentGroup
      then bindE (ActiveAgentGroupExists env org value) (\<lambda>ok. guardE ok ErrRuleTargetNotFound)
      else retE ())"

definition CreateRule :: "env \<Rightarrow> CreateRuleInput \<Rightarrow> ('z gov_db_scheme, OwnershipRule) prog" where
  "CreateRule env inp =
     (let name = TrimSpace (cri_Name inp); desc = TrimSpace (cri_Description inp);
          svc = TrimSpace (cri_ServiceID inp); org = cri_OrganizationID inp in
      bindE (liftE (requireRuleOrgActor org (cri_ActorUserID inp))) (\<lambda>_.
      bindE (liftE (validateRuleName name)) (\<lambda>_.
      bindE (liftE (validateRuleDescription desc)) (\<lambda>_.
      bindE (liftE (validateRulePriority (cri_Priority inp))) (\<lambda>_.
      bindE (guardE (TrimSpace svc \<noteq> []) ErrInvalidRule) (\<lambda>_.
      bindE (liftE (validateRuleKindAndTier (cri_MatchKind inp) (cri_PrecedenceTier inp))) (\<lambda>tier.
      bindE (liftE (validateMatchValue env (cri_MatchKind inp) (cri_MatchValue inp))) (\<lambda>isAgentGroup.
      bindE (ActiveServiceExists env org svc) (\<lambda>ok.
      bindE (guardE ok ErrRuleServiceNotFound) (\<lambda>_.
      bindE (checkAgentGroup env org (cri_MatchValue inp) isAgentGroup) (\<lambda>_.
      bindE (Now env) (\<lambda>now.
      bindE (NewID env) (\<lambda>i.
      (let rule = \<lparr>rl_ID = i, rl_OrganizationID = org, rl_Name = name, rl_Description = desc,
                   rl_ServiceID = svc, rl_PrecedenceTier = tier, rl_Priority = cri_Priority inp,
                   rl_MatchKind = cri_MatchKind inp, rl_MatchValue = cri_MatchValue inp,
                   rl_Enabled = True, rl_CreatedAt = now, rl_UpdatedAt = now,
                   rl_CreatedBy = cri_ActorUserID inp, rl_DisabledAt = None\<rparr> in
       WithTx env
         (bindE (CreateOwnershipRule env rule) (\<lambda>_.
          bindE (recordRuleAudit env (ruleAuditEventNow org (cri_ActorUserID inp) ''ownership.rule_created'' i now
            [(''name'', JStr (rl_Name rule)), (''service_id'', JStr (rl_ServiceID rule)),
             (''precedence_tier'', JStr (tier_string (rl_PrecedenceTier rule))),
             (''match_kind'', JStr (kind_string (rl_MatchKind rule))),
             (''priority'', JNum (rl_Priority rule))])) (\<lambda>_.
          retE rule)))))))))))))))))"

definition UpdateRule :: "env \<Rightarrow> UpdateRuleInput \<Rightarrow> ('z gov_db_scheme, OwnershipRule) prog" where
  "UpdateRule env inp =
     (let i = TrimSpace (uri_RuleID inp); org = uri_OrganizationID inp; actor = uri_ActorUserID inp in
      bindE (liftE (requireRuleOrgActor org actor)) (\<lambda>_.
      bindE (guardE (i \<noteq> []) ErrInvalidRule) (\<lambda>_.
      bindE (GetOwnershipRule env org i) (\<lambda>existing.
      (let description = (case uri_Description inp of None \<Rightarrow> rl_Description existing | Some d \<Rightarrow> TrimSpace d);
           matchValue = (case uri_MatchValue inp of None \<Rightarrow> rl_MatchValue existing | Some v \<Rightarrow> v);
           priority = (case uri_Priority inp of None \<Rightarrow> rl_Priority existing | Some p \<Rightarrow> p) in
       bindE (liftE (validateRuleDescription description)) (\<lambda>_.
       bindE (liftE (validateRulePriority priority)) (\<lambda>_.
       bindE (liftE (validateMatchValue env (rl_MatchKind existing) matchValue)) (\<lambda>isAgentGroup.
       bindE (checkAgentGroup env org matchValue isAgentGroup) (\<lambda>_.
       bindE (Now env) (\<lambda>now.
       WithTx env
         (bindE (UpdateOwnershipRuleMutable env org i priority matchValue description) (\<lambda>_.
          bindE (GetOwnershipRule env org i) (\<lambda>got.
          bindE (recordRuleAudit env (ruleAuditEventNow org actor ''ownership.rule_updated'' i now
            [(''priority'', JNum priority)])) (\<lambda>_.
          retE got))))))))))))))"

definition setRuleEnabled :: "env \<Rightarrow> string \<Rightarrow> string \<Rightarrow> string \<Rightarrow> bool \<Rightarrow> ('z gov_db_scheme, OwnershipRule) prog" where
  "setRuleEnabled env org actor ruleID enable =
     (let i = TrimSpace ruleID in
      bindE (liftE (requireRuleOrgActor org actor)) (\<lambda>_.
      bindE (guardE (i \<noteq> []) ErrInvalidRule) (\<lambda>_.
      bindE (GetOwnershipRule env org i) (\<lambda>_.
      bindE (Now env) (\<lambda>now.
      (let action = (if enable then ''ownership.rule_enabled'' else ''ownership.rule_disabled'') in
       WithTx env
         (bindE (if enable then EnableOwnershipRule env org i else DisableOwnershipRule env org i) (\<lambda>_.
          bindE (GetOwnershipRule env org i) (\<lambda>got.
          bindE (recordRuleAudit env (ruleAuditEventNow org actor action i now [])) (\<lambda>_.
          retE got))))))))))"

definition EnableRule :: "env \<Rightarrow> string \<Rightarrow> string \<Rightarrow> string \<Rightarrow> ('z gov_db_scheme, OwnershipRule) prog" where
  "EnableRule env org actor ruleID = setRuleEnabled env org actor ruleID True"

definition DisableRule :: "env \<Rightarrow> string \<Rightarrow> string \<Rightarrow> string \<Rightarrow> ('z gov_db_scheme, OwnershipRule) prog" where
  "DisableRule env org actor ruleID = setRuleEnabled env org actor ruleID False"

section \<open>What a stored rule satisfies\<close>

text \<open>Everything the validators promise of a row, but the references to other tables.\<close>

definition rule_ok :: "env \<Rightarrow> OwnershipRule \<Rightarrow> bool" where
  "rule_ok env r \<longleftrightarrow>
     tierForKind (rl_MatchKind r) = Some (rl_PrecedenceTier r) \<and>
     (\<exists>b. validateMatchValue env (rl_MatchKind r) (rl_MatchValue r) = Inr b) \<and>
     validateRuleName (rl_Name r) = Inr () \<and> validateRuleDescription (rl_Description r) = Inr () \<and>
     validateRulePriority (rl_Priority r) = Inr ()"

definition rules_valid :: "env \<Rightarrow> 'z gov_db_scheme \<Rightarrow> bool" where
  "rules_valid env s \<longleftrightarrow> (\<forall>r \<in> set (t_rules s). rule_ok env r)"

lemma tierForKind_Some:
  assumes "tierForKind k = Some t"
  shows "t \<noteq> PrecedenceServiceMember" "t \<noteq> PrecedenceExplicit" "\<forall>x. t \<noteq> TierOther x" "\<forall>x. k \<noteq> KindOther x"
  using assms by (cases k; auto)+

lemma validateRuleKindAndTier_Inr:
  "validateRuleKindAndTier k t = Inr c \<longleftrightarrow>
     tierForKind k = Some c \<and> (t = TierUnset \<or> t = c)"
  by (auto simp: validateRuleKindAndTier_def split: option.splits if_splits dest: tierForKind_Some)

lemma rule_ok_compiles:
  assumes "rule_ok env r"
  shows "\<not> structural_drift r" "\<not> bad_regex env r" "rl_PrecedenceTier r \<noteq> PrecedenceServiceMember"
  using assms tierForKind_Some [of "rl_MatchKind r" "rl_PrecedenceTier r"]
  by (auto simp: rule_ok_def structural_drift_def bad_regex_def validateMatchValue_def split: if_splits)

lemma rules_valid_db_of [simp]: "rules_valid env (db_of s) = rules_valid env s"
  by (simp add: rules_valid_def)

section \<open>Runs of the mutations\<close>

lemma GetOwnershipRule_Inr [run_simps]:
  "GetOwnershipRule env org i s = (Inr r, s') \<longleftrightarrow>
     \<not> fault env (w_calls s) \<and> find (is_rule org i) (t_rules s) = Some r \<and> s' = stepped s"
  by (auto simp: GetOwnershipRule_def run_simps split: option.splits)

lemma checkAgentGroup_Inr:
  "checkAgentGroup env org v g s = (Inr u, s') \<Longrightarrow>
     db_of s' = db_of s \<and> (g \<longrightarrow> active_named org v (t_agent_groups s))"
  by (auto simp: checkAgentGroup_def ActiveAgentGroupExists_def run_simps split: if_splits)

lemma leaves_checkAgentGroup [frame_intros]: "leaves db_of (checkAgentGroup env org v g)"
  unfolding checkAgentGroup_def by (intro frame_intros)

lemma rule_tx:
  assumes "WithTx env (bindE m (\<lambda>_. bindE (recordRuleAudit env e) (\<lambda>_. retE r))) s = (Inr x, s')"
  shows "\<exists>s1 s2 rec u. x = r \<and> db_of s1 = db_of s \<and> m s1 = (Inr u, s2) \<and> same_event rec e \<and>
           db_of s' = (db_of s2)\<lparr>audit_events := audit_events s2 @ [rec]\<rparr>"
proof -
  from tx.commits [OF assms] obtain s1 s4 where 1: "db_of s1 = db_of s" and 4: "db_of s' = db_of s4"
    and run: "bindE m (\<lambda>_. bindE (recordRuleAudit env e) (\<lambda>_. retE r)) s1 = (Inr x, s4)" by blast
  from run obtain u s2 v s3 where m: "m s1 = (Inr u, s2)" and a: "Record env e s2 = (Inr v, s3)"
    and x: "x = r" "s4 = s3" by (auto simp: bindE_Inr retE_Inr recordRuleAudit_def)
  from Record_db [OF a] obtain rec where "same_event rec e"
    "db_of s3 = (db_of s2)\<lparr>audit_events := audit_events s2 @ [rec]\<rparr>" by blast
  with 1 4 m x show ?thesis by (intro exI [of _ s1] exI [of _ s2] exI [of _ rec] exI [of _ u]) simp
qed

lemma rule_tx_get:
  assumes "WithTx env (bindE m (\<lambda>_. bindE (GetOwnershipRule env org i) (\<lambda>got.
     bindE (recordRuleAudit env e) (\<lambda>_. retE got)))) s = (Inr x, s')"
  shows "\<exists>s1 s2 rec u. db_of s1 = db_of s \<and> m s1 = (Inr u, s2) \<and> find (is_rule org i) (t_rules s2) = Some x \<and>
           same_event rec e \<and> db_of s' = (db_of s2)\<lparr>audit_events := audit_events s2 @ [rec]\<rparr>"
proof -
  from tx.commits [OF assms] obtain s1 s4 where 1: "db_of s1 = db_of s" and 4: "db_of s' = db_of s4"
    and run: "bindE m (\<lambda>_. bindE (GetOwnershipRule env org i) (\<lambda>got.
       bindE (recordRuleAudit env e) (\<lambda>_. retE got))) s1 = (Inr x, s4)" by blast
  from run obtain u s2 v s3 where m: "m s1 = (Inr u, s2)" and f: "find (is_rule org i) (t_rules s2) = Some x"
    and a: "Record env e (stepped s2) = (Inr v, s3)" and x: "s4 = s3"
    by (auto simp: bindE_Inr retE_Inr recordRuleAudit_def GetOwnershipRule_Inr)
  from Record_db [OF a] obtain rec where "same_event rec e"
    "db_of s3 = (db_of s2)\<lparr>audit_events := audit_events s2 @ [rec]\<rparr>" by auto
  with 1 4 m x f show ?thesis by (intro exI [of _ s1] exI [of _ s2] exI [of _ rec] exI [of _ u]) simp
qed

section \<open>The properties\<close>

lemma gov_counters [simp]:
  "t_rules (s\<lparr>w_ids := a\<rparr>) = t_rules s" "t_rules (s\<lparr>w_clock := a\<rparr>) = t_rules s"
  "t_services (s\<lparr>w_ids := a\<rparr>) = t_services s" "t_services (s\<lparr>w_clock := a\<rparr>) = t_services s"
  by simp_all

lemma t_rules_cong: "db_of s = db_of t \<Longrightarrow> t_rules s = t_rules t"
  by (metis gov_db_of(1))

lemma inputs_cong: "db_of s = db_of t \<Longrightarrow> inputs_of s = inputs_of t"
  by (metis gov_db_of(13))

lemma CreateRule_Inr:
  assumes run: "CreateRule env inp s = (Inr r, s')"
  shows "\<exists>tier g i now rec s1 s2.
     requireRuleOrgActor (cri_OrganizationID inp) (cri_ActorUserID inp) = Inr () \<and>
     validateRuleName (TrimSpace (cri_Name inp)) = Inr () \<and>
     validateRuleDescription (TrimSpace (cri_Description inp)) = Inr () \<and>
     validateRulePriority (cri_Priority inp) = Inr () \<and>
     validateRuleKindAndTier (cri_MatchKind inp) (cri_PrecedenceTier inp) = Inr tier \<and>
     validateMatchValue env (cri_MatchKind inp) (cri_MatchValue inp) = Inr g \<and>
     active_named (cri_OrganizationID inp) (TrimSpace (cri_ServiceID inp)) (t_services s) \<and>
     (g \<longrightarrow> active_named (cri_OrganizationID inp) (cri_MatchValue inp) (t_agent_groups s)) \<and>
     r = \<lparr>rl_ID = i, rl_OrganizationID = cri_OrganizationID inp, rl_Name = TrimSpace (cri_Name inp),
          rl_Description = TrimSpace (cri_Description inp), rl_ServiceID = TrimSpace (cri_ServiceID inp),
          rl_PrecedenceTier = tier, rl_Priority = cri_Priority inp,
          rl_MatchKind = cri_MatchKind inp, rl_MatchValue = cri_MatchValue inp, rl_Enabled = True,
          rl_CreatedAt = now, rl_UpdatedAt = now, rl_CreatedBy = cri_ActorUserID inp, rl_DisabledAt = None\<rparr> \<and>
     db_of s1 = db_of s \<and> CreateOwnershipRule env r s1 = (Inr (), s2) \<and>
     same_event rec (ruleAuditEventNow (cri_OrganizationID inp) (cri_ActorUserID inp) ''ownership.rule_created'' i now
            [(''name'', JStr (rl_Name r)), (''service_id'', JStr (rl_ServiceID r)),
             (''precedence_tier'', JStr (tier_string (rl_PrecedenceTier r))),
             (''match_kind'', JStr (kind_string (rl_MatchKind r))),
             (''priority'', JNum (rl_Priority r))]) \<and>
     db_of s' = (db_of s2)\<lparr>audit_events := audit_events s2 @ [rec]\<rparr>"
proof -
  obtain tier g s0 u s3 where
    v: "requireRuleOrgActor (cri_OrganizationID inp) (cri_ActorUserID inp) = Inr ()"
      "validateRuleName (TrimSpace (cri_Name inp)) = Inr ()"
      "validateRuleDescription (TrimSpace (cri_Description inp)) = Inr ()"
      "validateRulePriority (cri_Priority inp) = Inr ()"
      "validateRuleKindAndTier (cri_MatchKind inp) (cri_PrecedenceTier inp) = Inr tier"
      "validateMatchValue env (cri_MatchKind inp) (cri_MatchValue inp) = Inr g"
      "active_named (cri_OrganizationID inp) (TrimSpace (cri_ServiceID inp)) (t_services s)"
    and c: "checkAgentGroup env (cri_OrganizationID inp) (cri_MatchValue inp) g (stepped s) = (Inr u, s3)"
    and w: "(let i = idAt env (w_ids s3); now = clockAt env (w_clock s3);
             rule = \<lparr>rl_ID = i, rl_OrganizationID = cri_OrganizationID inp, rl_Name = TrimSpace (cri_Name inp),
                   rl_Description = TrimSpace (cri_Description inp),
                   rl_ServiceID = TrimSpace (cri_ServiceID inp), rl_PrecedenceTier = tier, rl_Priority = cri_Priority inp,
                   rl_MatchKind = cri_MatchKind inp, rl_MatchValue = cri_MatchValue inp,
                   rl_Enabled = True, rl_CreatedAt = now, rl_UpdatedAt = now,
                   rl_CreatedBy = cri_ActorUserID inp, rl_DisabledAt = None\<rparr> in
       WithTx env
         (bindE (CreateOwnershipRule env rule) (\<lambda>_.
          bindE (recordRuleAudit env (ruleAuditEventNow (cri_OrganizationID inp) (cri_ActorUserID inp) ''ownership.rule_created'' i now
            [(''name'', JStr (rl_Name rule)), (''service_id'', JStr (rl_ServiceID rule)),
             (''precedence_tier'', JStr (tier_string (rl_PrecedenceTier rule))),
             (''match_kind'', JStr (kind_string (rl_MatchKind rule))),
             (''priority'', JNum (rl_Priority rule))])) (\<lambda>_.
          retE rule)))) (s3\<lparr>w_clock := Suc (w_clock s3), w_ids := Suc (w_ids s3)\<rparr>) = (Inr r, s')"
    using run
    by (simp add: CreateRule_def Let_def bindE_Inr liftE_Inr guardE_Inr Now_Inr NewID_Inr
        ActiveServiceExists_def db_query_Inr) blast
  from rule_tx [OF w [unfolded Let_def]] checkAgentGroup_Inr [OF c] v show ?thesis
    by (elim exE conjE) (intro exI conjI; (assumption | simp)?)
qed

text \<open>
  A successful \<open>CreateRule\<close> stores exactly one new row, appends exactly one audit event, and
  changes nothing else. The row is what the operator asked for with the texts trimmed and the tier
  derived from the kind; it passes every validator, points at an active service, has a fresh
  identifier and a name no other rule of the organization has; an agent-group rule names an active
  group.
\<close>

theorem CreateRule_correct:
  assumes run: "CreateRule env inp s = (Inr r, s')"
  shows "rule_ok env r \<and>
    r = \<lparr>rl_ID = rl_ID r, rl_OrganizationID = cri_OrganizationID inp, rl_Name = TrimSpace (cri_Name inp),
         rl_Description = TrimSpace (cri_Description inp), rl_ServiceID = TrimSpace (cri_ServiceID inp),
         rl_PrecedenceTier = the (tierForKind (cri_MatchKind inp)), rl_Priority = cri_Priority inp,
         rl_MatchKind = cri_MatchKind inp, rl_MatchValue = cri_MatchValue inp, rl_Enabled = True,
         rl_CreatedAt = rl_CreatedAt r, rl_UpdatedAt = rl_CreatedAt r, rl_CreatedBy = cri_ActorUserID inp,
         rl_DisabledAt = None\<rparr> \<and>
    active_named (rl_OrganizationID r) (rl_ServiceID r) (t_services s) \<and>
    (rl_MatchKind r = MatchAgentGroup \<longrightarrow> active_named (rl_OrganizationID r) (rl_MatchValue r) (t_agent_groups s)) \<and>
    (\<forall>x \<in> set (t_rules s). rl_ID x \<noteq> rl_ID r \<and>
       (rl_OrganizationID x, rl_Name x) \<noteq> (rl_OrganizationID r, rl_Name r)) \<and>
    (\<exists>e. ev_Action e = ''ownership.rule_created'' \<and> ev_Actor e = cri_ActorUserID inp \<and>
         ev_OrganizationID e = rl_OrganizationID r \<and> ev_TargetID e = rl_ID r \<and>
         db_of s' = (db_of s)\<lparr>t_rules := t_rules s @ [r], audit_events := audit_events s @ [e]\<rparr>)"
proof -
  from CreateRule_Inr [OF run] obtain tier g i now rec s1 s2 where
    v: "validateRuleName (TrimSpace (cri_Name inp)) = Inr ()"
      "validateRuleDescription (TrimSpace (cri_Description inp)) = Inr ()"
      "validateRulePriority (cri_Priority inp) = Inr ()"
      "validateRuleKindAndTier (cri_MatchKind inp) (cri_PrecedenceTier inp) = Inr tier"
      "validateMatchValue env (cri_MatchKind inp) (cri_MatchValue inp) = Inr g"
      "active_named (cri_OrganizationID inp) (TrimSpace (cri_ServiceID inp)) (t_services s)"
      "g \<longrightarrow> active_named (cri_OrganizationID inp) (cri_MatchValue inp) (t_agent_groups s)"
    and r: "r = \<lparr>rl_ID = i, rl_OrganizationID = cri_OrganizationID inp, rl_Name = TrimSpace (cri_Name inp),
          rl_Description = TrimSpace (cri_Description inp), rl_ServiceID = TrimSpace (cri_ServiceID inp),
          rl_PrecedenceTier = tier, rl_Priority = cri_Priority inp,
          rl_MatchKind = cri_MatchKind inp, rl_MatchValue = cri_MatchValue inp, rl_Enabled = True,
          rl_CreatedAt = now, rl_UpdatedAt = now, rl_CreatedBy = cri_ActorUserID inp, rl_DisabledAt = None\<rparr>"
    and s1: "db_of s1 = db_of s" and c: "CreateOwnershipRule env r s1 = (Inr (), s2)"
    and rec: "same_event rec (ruleAuditEventNow (cri_OrganizationID inp) (cri_ActorUserID inp) ''ownership.rule_created'' i now
            [(''name'', JStr (rl_Name r)), (''service_id'', JStr (rl_ServiceID r)),
             (''precedence_tier'', JStr (tier_string (rl_PrecedenceTier r))),
             (''match_kind'', JStr (kind_string (rl_MatchKind r))),
             (''priority'', JNum (rl_Priority r))])"
    and s': "db_of s' = (db_of s2)\<lparr>audit_events := audit_events s2 @ [rec]\<rparr>"
    by (elim exE conjE) (rule that; assumption)
  have rules: "t_rules s1 = t_rules s" and au: "audit_events s1 = audit_events s"
    using s1 by (auto dest: t_rules_cong db_of_audit_cong)
  have tier: "tierForKind (cri_MatchKind inp) = Some tier"
    using v(4) by (simp add: validateRuleKindAndTier_Inr)
  have g: "g \<longleftrightarrow> cri_MatchKind inp = MatchAgentGroup"
    using v(5) by (auto simp: validateMatchValue_def split: if_splits)
  have fresh: "\<forall>x \<in> set (t_rules s). rl_ID x \<noteq> rl_ID r \<and>
       (rl_OrganizationID x, rl_Name x) \<noteq> (rl_OrganizationID r, rl_Name r)"
    and s2: "db_of s2 = (db_of s)\<lparr>t_rules := t_rules s @ [r]\<rparr>" "audit_events s2 = audit_events s"
    using c rules s1 au by (auto simp: CreateOwnershipRule_def exec_hit_Inr db_of_push)
  have "ev_Action rec = ''ownership.rule_created'' \<and> ev_Actor rec = cri_ActorUserID inp \<and>
      ev_OrganizationID rec = rl_OrganizationID r \<and> ev_TargetID rec = rl_ID r"
    using same_event_fields [OF rec] r by (simp add: ruleAuditEventNow_def)
  moreover have "db_of s' = (db_of s)\<lparr>t_rules := t_rules s @ [r], audit_events := audit_events s @ [rec]\<rparr>"
    using s' s2 by simp
  moreover have "rule_ok env r" using v(1,2,3,5) tier r by (auto simp: rule_ok_def)
  moreover have "active_named (rl_OrganizationID r) (rl_ServiceID r) (t_services s)"
    "rl_MatchKind r = MatchAgentGroup \<longrightarrow> active_named (rl_OrganizationID r) (rl_MatchValue r) (t_agent_groups s)"
    using v(6,7) g r by simp_all
  moreover have "rl_CreatedAt r = now" "rl_ID r = i" using r by simp_all
  ultimately show ?thesis using fresh tier
    by (intro conjI exI [of _ rec]) (assumption | simp add: r)+
qed

text \<open>
  A rule mutation that returns an error leaves the database as it was, whichever validation,
  lookup, database call, commit or audit write failed; nothing half-done is left behind.
\<close>

theorem rule_mutations_atomic:
  "fails_clean db_of (CreateRule env cin) \<and> fails_clean db_of (UpdateRule env uin) \<and>
   fails_clean db_of (EnableRule env org actor i) \<and> fails_clean db_of (DisableRule env org actor i)"
  unfolding CreateRule_def UpdateRule_def EnableRule_def DisableRule_def setRuleEnabled_def Let_def
  by (intro conjI fails_clean_bindE tx.run_fails_clean frame_intros)

lemma UpdateRule_Inr:
  assumes "UpdateRule env inp s = (Inr r, s')"
  shows "\<exists>old t rec d mv p.
    find (is_rule (uri_OrganizationID inp) (TrimSpace (uri_RuleID inp))) (t_rules s) = Some old \<and>
    d = (case uri_Description inp of None \<Rightarrow> rl_Description old | Some x \<Rightarrow> TrimSpace x) \<and>
    mv = (case uri_MatchValue inp of None \<Rightarrow> rl_MatchValue old | Some x \<Rightarrow> x) \<and>
    p = (case uri_Priority inp of None \<Rightarrow> rl_Priority old | Some x \<Rightarrow> x) \<and>
    validateRuleDescription d = Inr () \<and> validateRulePriority p = Inr () \<and>
    (\<exists>g. validateMatchValue env (rl_MatchKind old) mv = Inr g) \<and>
    r = old\<lparr>rl_Priority := p, rl_MatchValue := mv, rl_Description := d, rl_UpdatedAt := t\<rparr> \<and>
    ev_Action rec = ''ownership.rule_updated'' \<and> ev_Actor rec = uri_ActorUserID inp \<and>
    ev_TargetID rec = TrimSpace (uri_RuleID inp) \<and>
    db_of s' = (db_of s)\<lparr>t_rules := update_where (is_rule (uri_OrganizationID inp) (TrimSpace (uri_RuleID inp)))
        (\<lambda>x. x\<lparr>rl_Priority := p, rl_MatchValue := mv, rl_Description := d, rl_UpdatedAt := t\<rparr>) (t_rules s),
      audit_events := audit_events s @ [rec]\<rparr>"
proof -
  let ?org = "uri_OrganizationID inp" and ?i = "TrimSpace (uri_RuleID inp)"
  obtain old where old: "find (is_rule ?org ?i) (t_rules s) = Some old"
    using assms by (auto simp: UpdateRule_def Let_def bindE_Inr liftE_Inr guardE_Inr GetOwnershipRule_Inr)
  define d mv p where "d = (case uri_Description inp of None \<Rightarrow> rl_Description old | Some x \<Rightarrow> TrimSpace x)"
    and "mv = (case uri_MatchValue inp of None \<Rightarrow> rl_MatchValue old | Some x \<Rightarrow> x)"
    and "p = (case uri_Priority inp of None \<Rightarrow> rl_Priority old | Some x \<Rightarrow> x)"
  obtain g u s3 where
    v: "validateRuleDescription d = Inr ()" "validateRulePriority p = Inr ()"
      "validateMatchValue env (rl_MatchKind old) mv = Inr g"
    and c: "checkAgentGroup env ?org mv g (stepped s) = (Inr u, s3)"
    and w: "WithTx env
         (bindE (UpdateOwnershipRuleMutable env ?org ?i p mv d) (\<lambda>_.
          bindE (GetOwnershipRule env ?org ?i) (\<lambda>got.
          bindE (recordRuleAudit env (ruleAuditEventNow ?org (uri_ActorUserID inp) ''ownership.rule_updated'' ?i
              (clockAt env (w_clock s3)) [(''priority'', JNum p)])) (\<lambda>_.
          retE got)))) (s3\<lparr>w_clock := Suc (w_clock s3)\<rparr>) = (Inr r, s')"
    using assms old unfolding d_def mv_def p_def
    by (simp add: UpdateRule_def Let_def bindE_Inr liftE_Inr guardE_Inr Now_Inr GetOwnershipRule_Inr) blast
  from rule_tx_get [OF w] obtain s1 s2 rec where
    s1: "db_of s1 = db_of s" and m: "UpdateOwnershipRuleMutable env ?org ?i p mv d s1 = (Inr (), s2)"
    and f: "find (is_rule ?org ?i) (t_rules s2) = Some r"
    and rec: "same_event rec (ruleAuditEventNow ?org (uri_ActorUserID inp) ''ownership.rule_updated'' ?i
              (clockAt env (w_clock s3)) [(''priority'', JNum p)])"
    and s': "db_of s' = (db_of s2)\<lparr>audit_events := audit_events s2 @ [rec]\<rparr>"
    using checkAgentGroup_Inr [OF c] by auto
  have rules: "t_rules s1 = t_rules s" and au: "audit_events s1 = audit_events s"
    using s1 by (auto dest: t_rules_cong db_of_audit_cong)
  define t where "t = sql_now env (stepped s1)"
  let ?f = "\<lambda>x. x\<lparr>rl_Priority := p, rl_MatchValue := mv, rl_Description := d, rl_UpdatedAt := t\<rparr>"
  have s2: "t_rules s2 = update_where (is_rule ?org ?i) ?f (t_rules s)"
    "db_of s2 = (db_of s)\<lparr>t_rules := update_where (is_rule ?org ?i) ?f (t_rules s)\<rparr>" "audit_events s2 = audit_events s"
    using m rules s1 au by (auto simp: UpdateOwnershipRuleMutable_def exec_hit_Inr db_of_push t_def)
  have "find (is_rule ?org ?i) (update_where (is_rule ?org ?i) ?f (t_rules s)) = Some (?f old)"
    using old by (subst find_update_where_same) (auto simp: is_rule_def)
  then have r: "r = ?f old" using f s2 by simp
  have e: "ev_Action rec = ''ownership.rule_updated''" "ev_Actor rec = uri_ActorUserID inp" "ev_TargetID rec = ?i"
    using same_event_fields [OF rec] by (simp_all add: ruleAuditEventNow_def)
  have s'': "db_of s' = (db_of s)\<lparr>t_rules := update_where (is_rule ?org ?i) ?f (t_rules s),
      audit_events := audit_events s @ [rec]\<rparr>"
    using s' s2 by simp
  show ?thesis
    by (rule exI [of _ old], rule exI [of _ t], rule exI [of _ rec], rule exI [of _ d], rule exI [of _ mv],
        rule exI [of _ p]) (intro conjI old d_def mv_def p_def v r e s'' exI [of _ g])
qed

lemma setRuleEnabled_Inr:
  assumes "setRuleEnabled env org actor ruleID enable s = (Inr r, s')"
  shows "\<exists>old t rec f.
    find (is_rule org (TrimSpace ruleID)) (t_rules s) = Some old \<and>
    f = (\<lambda>x. if enable then x\<lparr>rl_Enabled := True, rl_DisabledAt := None, rl_UpdatedAt := t\<rparr>
         else x\<lparr>rl_Enabled := False,
                rl_DisabledAt := (case rl_DisabledAt x of None \<Rightarrow> Some t | Some t0 \<Rightarrow> Some t0), rl_UpdatedAt := t\<rparr>) \<and>
    r = f old \<and>
    ev_Action rec = (if enable then ''ownership.rule_enabled'' else ''ownership.rule_disabled'') \<and>
    ev_Actor rec = actor \<and> ev_TargetID rec = TrimSpace ruleID \<and>
    db_of s' = (db_of s)\<lparr>t_rules := update_where (is_rule org (TrimSpace ruleID)) f (t_rules s),
      audit_events := audit_events s @ [rec]\<rparr>"
proof -
  let ?i = "TrimSpace ruleID" and ?act = "if enable then ''ownership.rule_enabled'' else ''ownership.rule_disabled''"
  obtain old where old: "find (is_rule org ?i) (t_rules s) = Some old"
    and w: "WithTx env
         (bindE (if enable then EnableOwnershipRule env org ?i else DisableOwnershipRule env org ?i) (\<lambda>_.
          bindE (GetOwnershipRule env org ?i) (\<lambda>got.
          bindE (recordRuleAudit env (ruleAuditEventNow org actor ?act ?i (clockAt env (w_clock (stepped s))) [])) (\<lambda>_.
          retE got)))) ((stepped s)\<lparr>w_clock := Suc (w_clock (stepped s))\<rparr>) = (Inr r, s')"
    using assms by (auto simp: setRuleEnabled_def Let_def bindE_Inr liftE_Inr guardE_Inr Now_Inr GetOwnershipRule_Inr)
  from rule_tx_get [OF w] obtain s1 s2 rec where
    s1: "db_of s1 = db_of s"
    and m: "(if enable then EnableOwnershipRule env org ?i else DisableOwnershipRule env org ?i) s1 = (Inr (), s2)"
    and f: "find (is_rule org ?i) (t_rules s2) = Some r"
    and rec: "same_event rec (ruleAuditEventNow org actor ?act ?i (clockAt env (w_clock (stepped s))) [])"
    and s': "db_of s' = (db_of s2)\<lparr>audit_events := audit_events s2 @ [rec]\<rparr>"
    by auto
  have rules: "t_rules s1 = t_rules s" and au: "audit_events s1 = audit_events s"
    using s1 by (auto dest: t_rules_cong db_of_audit_cong)
  define t where "t = sql_now env (stepped s1)"
  define h :: "OwnershipRule \<Rightarrow> OwnershipRule" where "h = (\<lambda>x. if enable then x\<lparr>rl_Enabled := True, rl_DisabledAt := None, rl_UpdatedAt := t\<rparr>
         else x\<lparr>rl_Enabled := False,
                rl_DisabledAt := (case rl_DisabledAt x of None \<Rightarrow> Some t | Some t0 \<Rightarrow> Some t0), rl_UpdatedAt := t\<rparr>)"
  have s2: "t_rules s2 = update_where (is_rule org ?i) h (t_rules s)"
    "db_of s2 = (db_of s)\<lparr>t_rules := update_where (is_rule org ?i) h (t_rules s)\<rparr>" "audit_events s2 = audit_events s"
    using m rules s1 au unfolding h_def t_def
    by (auto simp: EnableOwnershipRule_def DisableOwnershipRule_def exec_hit_Inr db_of_push split: if_splits)
  have "find (is_rule org ?i) (update_where (is_rule org ?i) h (t_rules s)) = Some (h old)"
    using old by (subst find_update_where_same) (auto simp: is_rule_def h_def)
  then have r: "r = h old" using f s2 by simp
  have e: "ev_Action rec = ?act" "ev_Actor rec = actor" "ev_TargetID rec = ?i"
    using same_event_fields [OF rec] by (simp_all add: ruleAuditEventNow_def)
  have s'': "db_of s' = (db_of s)\<lparr>t_rules := update_where (is_rule org ?i) h (t_rules s),
      audit_events := audit_events s @ [rec]\<rparr>"
    using s' s2 by simp
  show ?thesis
    by (rule exI [of _ old], rule exI [of _ t], rule exI [of _ rec], rule exI [of _ h])
      (intro conjI old h_def r e s'')
qed

section \<open>Sequences of mutations\<close>

datatype rule_cmd =
    CmdCreate CreateRuleInput
  | CmdUpdate UpdateRuleInput
  | CmdSetEnabled string string string bool \<comment> \<open>organization, actor, rule, enable\<close>

definition run_cmd :: "env \<Rightarrow> rule_cmd \<Rightarrow> 'z gov_db_scheme \<Rightarrow> 'z gov_db_scheme" where
  "run_cmd env c s =
     (case c of
        CmdCreate i \<Rightarrow> snd (CreateRule env i s)
      | CmdUpdate i \<Rightarrow> snd (UpdateRule env i s)
      | CmdSetEnabled org actor i b \<Rightarrow> snd ((if b then EnableRule else DisableRule) env org actor i s))"

text \<open>Operators run mutations in any order and number, and any of them may fail.\<close>

inductive rule_history :: "env \<Rightarrow> 'z gov_db_scheme \<Rightarrow> 'z gov_db_scheme \<Rightarrow> bool" for env where
  start: "rule_history env s s"
| step: "rule_history env s t \<Longrightarrow> rule_history env s (run_cmd env c t)"

lemma keeps_valid_CreateRule: "keeps (rules_valid env) (CreateRule env i)"
proof (rule keeps_atomic)
  show "fails_clean db_of (CreateRule env i)"
    unfolding CreateRule_def Let_def by (intro fails_clean_bindE tx.run_fails_clean frame_intros)
  fix s r s' assume v: "rules_valid env s" and run: "CreateRule env i s = (Inr r, s')"
  from CreateRule_Inr [OF run] obtain tier g now j s1 s2 rec where
    ok: "validateRuleName (TrimSpace (cri_Name i)) = Inr ()"
      "validateRuleDescription (TrimSpace (cri_Description i)) = Inr ()"
      "validateRulePriority (cri_Priority i) = Inr ()"
      "validateRuleKindAndTier (cri_MatchKind i) (cri_PrecedenceTier i) = Inr tier"
      "validateMatchValue env (cri_MatchKind i) (cri_MatchValue i) = Inr g"
    and r: "r = \<lparr>rl_ID = j, rl_OrganizationID = cri_OrganizationID i, rl_Name = TrimSpace (cri_Name i),
          rl_Description = TrimSpace (cri_Description i), rl_ServiceID = TrimSpace (cri_ServiceID i),
          rl_PrecedenceTier = tier, rl_Priority = cri_Priority i,
          rl_MatchKind = cri_MatchKind i, rl_MatchValue = cri_MatchValue i, rl_Enabled = True,
          rl_CreatedAt = now, rl_UpdatedAt = now, rl_CreatedBy = cri_ActorUserID i, rl_DisabledAt = None\<rparr>"
    and s1: "db_of s1 = db_of s" and c: "CreateOwnershipRule env r s1 = (Inr (), s2)"
    and s': "db_of s' = (db_of s2)\<lparr>audit_events := audit_events s2 @ [rec]\<rparr>"
    by (elim exE conjE) (rule that; assumption)
  have "t_rules s' = t_rules (db_of s')" by simp
  also have "\<dots> = t_rules s @ [r]"
    using s' c t_rules_cong [OF s1] by (simp add: CreateOwnershipRule_def exec_hit_Inr)
  finally show "rules_valid env s'"
    using v ok r by (auto simp: rules_valid_def rule_ok_def validateRuleKindAndTier_Inr)
qed auto

lemma rules_valid_update_where:
  assumes "\<forall>x \<in> set xs. rule_ok env x" "\<And>x. x \<in> set xs \<Longrightarrow> P x \<Longrightarrow> rule_ok env x \<Longrightarrow> rule_ok env (f x)"
  shows "\<forall>x \<in> set (update_where P f xs). rule_ok env x"
  using assms by (auto simp: set_update_where)

lemma rules_valid_cong: "db_of s' = x \<Longrightarrow> rules_valid env s' = (\<forall>r \<in> set (t_rules x). rule_ok env r)"
  by (auto simp: rules_valid_def)

lemma keeps_valid_UpdateRule: "keeps (\<lambda>s. gov_wf s \<and> rules_valid env s) (UpdateRule env i)"
proof (rule keeps_atomic)
  show "fails_clean db_of (UpdateRule env i)"
    unfolding UpdateRule_def Let_def by (intro fails_clean_bindE tx.run_fails_clean frame_intros)
  fix s r s' assume v: "gov_wf s \<and> rules_valid env s" and run: "UpdateRule env i s = (Inr r, s')"
  let ?P = "is_rule (uri_OrganizationID i) (TrimSpace (uri_RuleID i))"
  from UpdateRule_Inr [OF run] obtain old t rec d mv p g where
    old: "find ?P (t_rules s) = Some old"
    and ok: "validateRuleDescription d = Inr ()" "validateRulePriority p = Inr ()"
      "validateMatchValue env (rl_MatchKind old) mv = Inr g"
    and s': "db_of s' = (db_of s)\<lparr>t_rules := update_where ?P
        (\<lambda>x. x\<lparr>rl_Priority := p, rl_MatchValue := mv, rl_Description := d, rl_UpdatedAt := t\<rparr>) (t_rules s),
      audit_events := audit_events s @ [rec]\<rparr>"
    by (elim exE conjE) (rule that; assumption)
  have uniq: "x = old" if "x \<in> set (t_rules s)" "?P x" for x
    using v that find_Some_D [OF old] by (auto simp: gov_wf_def distinct_map inj_on_def is_rule_def)
  have "rules_valid env s'"
    unfolding rules_valid_cong [OF s'] using v ok uniq
    by (simp add: rules_valid_def) (intro rules_valid_update_where, auto simp: rule_ok_def dest: uniq)
  moreover have "gov_wf (db_of s')"
    unfolding s' using v by (auto simp: gov_wf_def distinct_map_update_where)
  ultimately show "gov_wf s' \<and> rules_valid env s'" by simp
qed auto

lemma keeps_wf_checkAgentGroup [keep_intros]: "keeps gov_wf (checkAgentGroup env org v g)"
  by (rule keeps_gov_wf_read) (rule leaves_checkAgentGroup)

lemma keeps_wf_mutations:
  "keeps gov_wf (CreateRule env ci)" "keeps gov_wf (UpdateRule env ui)"
  "keeps gov_wf (setRuleEnabled env org actor i b)"
  unfolding CreateRule_def UpdateRule_def setRuleEnabled_def Let_def recordRuleAudit_def
  by (intro keep_intros)+

lemma keeps_valid_setRuleEnabled: "keeps (rules_valid env) (setRuleEnabled env org actor i b)"
proof (rule keeps_atomic)
  show "fails_clean db_of (setRuleEnabled env org actor i b)"
    unfolding setRuleEnabled_def Let_def by (intro fails_clean_bindE tx.run_fails_clean frame_intros)
  fix s r s' assume v: "rules_valid env s" and run: "setRuleEnabled env org actor i b s = (Inr r, s')"
  from setRuleEnabled_Inr [OF run] obtain t rec where
    s': "db_of s' = (db_of s)\<lparr>t_rules := update_where (is_rule org (TrimSpace i))
       (\<lambda>x. if b then x\<lparr>rl_Enabled := True, rl_DisabledAt := None, rl_UpdatedAt := t\<rparr>
         else x\<lparr>rl_Enabled := False,
                rl_DisabledAt := (case rl_DisabledAt x of None \<Rightarrow> Some t | Some t0 \<Rightarrow> Some t0), rl_UpdatedAt := t\<rparr>)
       (t_rules s), audit_events := audit_events s @ [rec]\<rparr>"
    by (elim exE conjE) (rule that, simp only:)
  show "rules_valid env s'"
    unfolding rules_valid_cong [OF s'] using v
    by (simp add: rules_valid_def) (intro rules_valid_update_where, auto simp: rule_ok_def)
qed auto

lemma run_cmd_keeps:
  assumes "gov_wf s" "rules_valid env s"
  shows "gov_wf (run_cmd env c s) \<and> rules_valid env (run_cmd env c s)"
proof (cases c)
  case (CmdCreate i)
  with assms keeps_valid_CreateRule [of env i, unfolded keeps_def, THEN spec, of s]
    keeps_wf_mutations(1) [of env i, unfolded keeps_def, THEN spec, of s]
  show ?thesis by (simp add: run_cmd_def)
next
  case (CmdUpdate i)
  with assms keeps_valid_UpdateRule [of env i, unfolded keeps_def, THEN spec, of s]
  show ?thesis by (simp add: run_cmd_def)
next
  case (CmdSetEnabled org actor i b)
  with assms keeps_valid_setRuleEnabled [of env org actor i b, unfolded keeps_def, THEN spec, of s]
    keeps_wf_mutations(3) [of env org actor i b, unfolded keeps_def, THEN spec, of s]
  show ?thesis by (cases b) (simp_all add: run_cmd_def EnableRule_def DisableRule_def)
qed

lemma rule_history_keeps:
  assumes "rule_history env s t" "gov_wf s" "rules_valid env s"
  shows "gov_wf t \<and> rules_valid env t"
  using assms by (induction rule: rule_history.induct) (auto dest: run_cmd_keeps)

text \<open>
  C18: Starting from tables whose rules pass the validators (an empty table does), after any sequence
  of rule mutations, with any of them failing anywhere, the rules that the engine reads for an
  organization compile: the pass succeeds, no rule is inert, and every enabled rule takes part.
\<close>

theorem rule_history_compiles:
  assumes "rule_history env s t" and "gov_wf s" and "rules_valid env s"
  shows "\<exists>cs. compileRules env (engine_rules org t) = Inr (cs, []) \<and>
    mset (map cr_rule cs) = mset (filter (\<lambda>r. rl_OrganizationID r = org \<and> rl_Enabled r) (t_rules t))"
proof -
  have "rules_valid env t" using rule_history_keeps [OF assms] by simp
  then have ok: "\<forall>r \<in> set (engine_rules org t). rule_ok env r"
    by (auto simp: rules_valid_def engine_rules_def)
  have all: "filter (\<lambda>r. rl_PrecedenceTier r \<noteq> PrecedenceServiceMember) (engine_rules org t) = engine_rules org t"
    and none: "filter (bad_regex env) (engine_rules org t) = []"
    using ok by (auto simp: filter_id_conv filter_empty_conv dest: rule_ok_compiles)
  have "\<not> (\<exists>e. compileLoop env (engine_rules org t) = Inl e)"
    unfolding compileLoop_Inl using ok by (auto dest: rule_ok_compiles)
  then obtain cs fs where l: "compileLoop env (engine_rules org t) = Inr (cs, fs)"
    by (cases "compileLoop env (engine_rules org t)") auto
  note inr = compileLoop_Inr [OF l]
  have "fs = []" "map cr_rule cs = engine_rules org t" using inr all none by auto
  moreover have "mset (engine_rules org t) = mset (filter (\<lambda>r. rl_OrganizationID r = org \<and> rl_Enabled r) (t_rules t))"
    by (simp add: engine_rules_def)
  moreover have "mset (map cr_rule (sort_key walk_key cs)) = mset (map cr_rule cs)" by simp
  ultimately show ?thesis using l
    by (intro exI [of _ "sort_key walk_key cs"]) (simp add: compileRules_def del: mset_map)
qed

text \<open>
  A successful \<open>UpdateRule\<close> finds the rule in the caller's organization and changes only its
  priority, match value, description and update time; a field the request leaves out keeps its
  stored value; the new values pass the validators for the rule's stored kind. One audit event is
  appended and nothing else changes.
\<close>

theorem UpdateRule_correct:
  assumes "UpdateRule env inp s = (Inr r, s')"
  shows "\<exists>old t rec.
    find (is_rule (uri_OrganizationID inp) (TrimSpace (uri_RuleID inp))) (t_rules s) = Some old \<and>
    r = old\<lparr>rl_Priority := (case uri_Priority inp of None \<Rightarrow> rl_Priority old | Some x \<Rightarrow> x),
            rl_MatchValue := (case uri_MatchValue inp of None \<Rightarrow> rl_MatchValue old | Some x \<Rightarrow> x),
            rl_Description := (case uri_Description inp of None \<Rightarrow> rl_Description old | Some x \<Rightarrow> TrimSpace x),
            rl_UpdatedAt := t\<rparr> \<and>
    validateRulePriority (rl_Priority r) = Inr () \<and> validateRuleDescription (rl_Description r) = Inr () \<and>
    (\<exists>g. validateMatchValue env (rl_MatchKind r) (rl_MatchValue r) = Inr g) \<and>
    ev_Action rec = ''ownership.rule_updated'' \<and> ev_Actor rec = uri_ActorUserID inp \<and>
    db_of s' = (db_of s)\<lparr>t_rules := update_where (is_rule (uri_OrganizationID inp) (TrimSpace (uri_RuleID inp)))
        (\<lambda>x. x\<lparr>rl_Priority := rl_Priority r, rl_MatchValue := rl_MatchValue r,
              rl_Description := rl_Description r, rl_UpdatedAt := t\<rparr>) (t_rules s),
      audit_events := audit_events s @ [rec]\<rparr>"
  using UpdateRule_Inr [OF assms]
  by (elim exE conjE) (intro exI conjI, assumption, simp_all)

text \<open>
  After a successful \<open>DisableRule\<close> the engine no longer reads the rule; after a successful
  \<open>EnableRule\<close> it reads it again; in both cases the engine reads the same other rules as before.
\<close>

theorem enable_disable_effect:
  assumes run: "setRuleEnabled env org actor i b s = (Inr r, s')"
  shows "(r \<in> set (engine_rules org s') \<longleftrightarrow> b) \<and>
    (\<forall>x. rl_ID x \<noteq> TrimSpace i \<longrightarrow> (x \<in> set (engine_rules o2 s') \<longleftrightarrow> x \<in> set (engine_rules o2 s))) \<and>
    (\<not> b \<longrightarrow> (\<forall>x \<in> set (engine_rules org s'). rl_ID x \<noteq> TrimSpace i)) \<and>
    rl_ID r = TrimSpace i \<and> length (t_rules s') = length (t_rules s)"
proof -
  let ?P = "is_rule org (TrimSpace i)"
  from setRuleEnabled_Inr [OF run] obtain old t rec f where
    old: "find ?P (t_rules s) = Some old" and
    f: "f = (\<lambda>x. if b then x\<lparr>rl_Enabled := True, rl_DisabledAt := None, rl_UpdatedAt := t\<rparr>
         else x\<lparr>rl_Enabled := False,
                rl_DisabledAt := (case rl_DisabledAt x of None \<Rightarrow> Some t | Some t0 \<Rightarrow> Some t0), rl_UpdatedAt := t\<rparr>)" and
    r: "r = f old" and
    s': "db_of s' = (db_of s)\<lparr>t_rules := update_where ?P f (t_rules s), audit_events := audit_events s @ [rec]\<rparr>"
    by (elim exE conjE) (rule that; assumption)
  have "t_rules (db_of s') = update_where ?P f (t_rules s)" by (subst s') simp
  then have rows: "t_rules s' = update_where ?P f (t_rules s)" by simp
  have old': "old \<in> set (t_rules s)" "?P old" using find_Some_D [OF old] by auto
  have fid: "rl_ID (f x) = rl_ID x" "rl_OrganizationID (f x) = rl_OrganizationID x" "rl_Enabled (f x) = b" for x
    by (simp_all add: f)
  have "r \<in> set (t_rules s')" using old' by (auto simp: rows r set_update_where)
  then have "r \<in> set (engine_rules org s') \<longleftrightarrow> b"
    using old' by (auto simp: engine_rules_def r fid is_rule_def)
  moreover have "x \<in> set (t_rules s') \<longleftrightarrow> x \<in> set (t_rules s)" if "rl_ID x \<noteq> TrimSpace i" for x
    using that by (auto simp: rows set_update_where is_rule_def fid)
  then have "\<forall>x. rl_ID x \<noteq> TrimSpace i \<longrightarrow> (x \<in> set (engine_rules o2 s') \<longleftrightarrow> x \<in> set (engine_rules o2 s))"
    by (simp add: engine_rules_def)
  moreover have "rl_ID r = TrimSpace i" using old' by (simp add: r fid is_rule_def)
  moreover have "\<not> b \<longrightarrow> (\<forall>x \<in> set (engine_rules org s'). rl_ID x \<noteq> TrimSpace i)"
  proof (intro impI ballI notI)
    fix x assume off: "\<not> b" and x: "x \<in> set (engine_rules org s')" and i: "rl_ID x = TrimSpace i"
    then have "?P x" "rl_Enabled x" "x \<in> set (t_rules s')" by (simp_all add: engine_rules_def is_rule_def)
    then obtain y where "x = f y" unfolding rows set_update_where by blast
    then show False using \<open>rl_Enabled x\<close> off fid(3) [of y] by simp
  qed
  ultimately show ?thesis by (simp add: rows)
qed

section \<open>Isolation and liveness\<close>

definition foreign_rules :: "string \<Rightarrow> 'z gov_db_scheme \<Rightarrow> OwnershipRule list" where
  "foreign_rules org s = filter (\<lambda>r. rl_OrganizationID r \<noteq> org) (t_rules s)"

lemma foreign_rules_db [simp]: "foreign_rules org (db_of s) = foreign_rules org s"
  by (simp add: foreign_rules_def)

lemma CreateRule_db:
  assumes run: "CreateRule env cin s = (Inr r, s')"
  shows "\<exists>rec. rl_OrganizationID r = cri_OrganizationID cin \<and>
    db_of s' = (db_of s)\<lparr>t_rules := t_rules s @ [r], audit_events := audit_events s @ [rec]\<rparr>"
proof -
  from CreateRule_Inr [OF run] obtain s1 s2 rec where
    s1: "db_of s1 = db_of s" and cr: "CreateOwnershipRule env r s1 = (Inr (), s2)"
    and s': "db_of s' = (db_of s2)\<lparr>audit_events := audit_events s2 @ [rec]\<rparr>"
    and org: "rl_OrganizationID r = cri_OrganizationID cin"
    by (elim exE conjE) (rule that, auto)
  have "db_of s2 = (db_of s)\<lparr>t_rules := t_rules s @ [r]\<rparr>" "audit_events s2 = audit_events s"
    using cr s1 t_rules_cong [OF s1] db_of_audit_cong [OF s1]
    by (auto simp: CreateOwnershipRule_def exec_hit_Inr db_of_push)
  with s' org show ?thesis by auto
qed

lemma foreign_update:
  assumes e: "db_of s' = (db_of s)\<lparr>t_rules := update_where (is_rule org i) f (t_rules s), audit_events := ev\<rparr>"
    and f: "\<And>x. rl_OrganizationID (f x) = rl_OrganizationID x"
  shows "foreign_rules org s' = foreign_rules org s \<and>
    (t_ownership s', t_overrides s', t_explanations s', t_runs s', inputs_of s') =
    (t_ownership s, t_overrides s, t_explanations s, t_runs s, inputs_of s)"
proof -
  have "filter (\<lambda>r. rl_OrganizationID r \<noteq> org) (update_where (is_rule org i) f (t_rules s)) =
    filter (\<lambda>r. rl_OrganizationID r \<noteq> org) (t_rules s)"
    by (rule filter_update_where_other) (auto simp: is_rule_def f)
  then show ?thesis using db_of_fields [OF e] by (simp add: foreign_rules_def inputs_of_def)
qed

text \<open>
  A rule mutation made for one organization never touches the rules of another one, and no rule
  mutation touches the ownership rows, overrides, explanations, runs or inventory tables.
\<close>

theorem rule_mutations_isolated:
  "leaves (foreign_rules (cri_OrganizationID cin)) (CreateRule env cin) \<and>
   leaves (foreign_rules (uri_OrganizationID uin)) (UpdateRule env uin) \<and>
   leaves (foreign_rules org) (setRuleEnabled env org actor i b) \<and>
   leaves (\<lambda>s. (t_ownership s, t_overrides s, t_explanations s, t_runs s, inputs_of s)) (CreateRule env cin) \<and>
   leaves (\<lambda>s. (t_ownership s, t_overrides s, t_explanations s, t_runs s, inputs_of s)) (UpdateRule env uin) \<and>
   leaves (\<lambda>s. (t_ownership s, t_overrides s, t_explanations s, t_runs s, inputs_of s)) (setRuleEnabled env org actor i b)"
proof -
  have fc: "fails_clean db_of (CreateRule env cin)" "fails_clean db_of (UpdateRule env uin)"
    "fails_clean db_of (setRuleEnabled env org actor i b)"
    unfolding CreateRule_def UpdateRule_def setRuleEnabled_def Let_def
    by (intro fails_clean_bindE tx.run_fails_clean frame_intros)+
  let ?rest = "\<lambda>s. (t_ownership s, t_overrides s, t_explanations s, t_runs s, inputs_of s)"
  have c: "foreign_rules (cri_OrganizationID cin) s' = foreign_rules (cri_OrganizationID cin) s \<and> ?rest s' = ?rest s"
    if run: "CreateRule env cin s = (Inr r, s')" for s s' :: "'z gov_db_scheme" and r
    using CreateRule_db [OF run] by (elim exE conjE) (auto simp: foreign_rules_def dest: db_of_fields)
  have u: "foreign_rules (uri_OrganizationID uin) s' = foreign_rules (uri_OrganizationID uin) s \<and> ?rest s' = ?rest s"
    if run: "UpdateRule env uin s = (Inr r, s')" for s s' :: "'z gov_db_scheme" and r
    using UpdateRule_Inr [OF run]
    by (elim exE conjE) (erule foreign_update, simp)
  have e: "foreign_rules org s' = foreign_rules org s \<and> ?rest s' = ?rest s"
    if run: "setRuleEnabled env org actor i b s = (Inr r, s')" for s s' :: "'z gov_db_scheme" and r
    using setRuleEnabled_Inr [OF run]
    by (elim exE conjE) (erule foreign_update, simp)
  show ?thesis
    by (intro conjI leaves_atomic fc) (auto dest: c u e simp: inputs_of_def)
qed

text \<open>What an admissible request is.\<close>

definition creatable :: "env \<Rightarrow> CreateRuleInput \<Rightarrow> 'z gov_db_scheme \<Rightarrow> bool" where
  "creatable env inp s \<longleftrightarrow>
     TrimSpace (cri_OrganizationID inp) \<noteq> [] \<and> TrimSpace (cri_ActorUserID inp) \<noteq> [] \<and>
     TrimSpace (cri_Name inp) \<noteq> [] \<and> length (TrimSpace (cri_Name inp)) \<le> maxRuleNameLen \<and>
     length (TrimSpace (cri_Description inp)) \<le> maxRuleDescriptionLen \<and>
     minRulePriority \<le> cri_Priority inp \<and> cri_Priority inp \<le> maxRulePriority \<and>
     TrimSpace (cri_ServiceID inp) \<noteq> [] \<and>
     (\<exists>t. tierForKind (cri_MatchKind inp) = Some t \<and> cri_PrecedenceTier inp \<in> {TierUnset, t}) \<and>
     (\<exists>g. validateMatchValue env (cri_MatchKind inp) (cri_MatchValue inp) = Inr g) \<and>
     active_named (cri_OrganizationID inp) (TrimSpace (cri_ServiceID inp)) (t_services s) \<and>
     (cri_MatchKind inp = MatchAgentGroup \<longrightarrow>
        active_named (cri_OrganizationID inp) (cri_MatchValue inp) (t_agent_groups s)) \<and>
     (\<forall>x \<in> set (t_rules s). rl_ID x \<noteq> idAt env (w_ids s) \<and>
        (rl_OrganizationID x, rl_Name x) \<noteq> (cri_OrganizationID inp, TrimSpace (cri_Name inp)))"

lemma guardE_True: "guardE True e = retE ()" by (simp add: guardE_def)

lemma liftE_InrE: "liftE (Inr x) = retE x" by (simp add: liftE_def retE_def)

lemma create_tx_ok:
  assumes nf: "no_faults env"
    and fresh: "\<forall>x \<in> set (t_rules s). rl_ID x \<noteq> rl_ID rule \<and>
        (rl_OrganizationID x, rl_Name x) \<noteq> (rl_OrganizationID rule, rl_Name rule)"
    and e: "org \<noteq> []" "actor \<noteq> []" "act \<noteq> []" "i \<noteq> []"
  shows "\<exists>s'. WithTx env (bindE (CreateOwnershipRule env rule) (\<lambda>_.
       bindE (recordRuleAudit env (ruleAuditEventNow org actor act i now md)) (\<lambda>_. retE rule))) s = (Inr rule, s')"
proof -
  let ?s1 = "(stepped s)\<lparr>w_tx := Suc (w_tx s)\<rparr>"
  have 1: "CreateOwnershipRule env rule ?s1 =
    (Inr (), (stepped ?s1)\<lparr>t_rules := t_rules (stepped ?s1) @ [rule]\<rparr>)" (is "_ = (_, ?s2)")
    unfolding CreateOwnershipRule_def using fresh by (intro exec_hit_ok nf) simp
  obtain s3 where 2: "Record env (ruleAuditEventNow org actor act i now md) ?s2 = (Inr (), s3)"
    using Record_ok [OF nf, of "ruleAuditEventNow org actor act i now md" ?s2] e
    by (auto simp: ruleAuditEventNow_def)
  have "bindE (CreateOwnershipRule env rule) (\<lambda>_.
       bindE (recordRuleAudit env (ruleAuditEventNow org actor act i now md)) (\<lambda>_. retE rule)) ?s1 = (Inr rule, s3)"
    using 1 2 by (simp add: bindE_def retE_def recordRuleAudit_def)
  then show ?thesis by (intro exI) (rule WithTx_ok [OF nf])
qed

lemma TrimSpace_Nil_org: "TrimSpace x \<noteq> [] \<Longrightarrow> x \<noteq> []"
  by (auto simp: TrimSpace_def)

text \<open>
  When no database call fails, every admissible request is carried out: texts within bounds, a
  known kind with no other tier than its own, a match value its kind accepts, an active target
  service (and group), a name the organization does not use, and a fresh identifier.
\<close>

theorem CreateRule_succeeds:
  assumes nf: "no_faults env" and new: "idAt env (w_ids s) \<noteq> []" and ok: "creatable env inp s"
  shows "\<exists>r s'. CreateRule env inp s = (Inr r, s') \<and> rl_ID r = idAt env (w_ids s)"
proof -
  obtain t g where
    k: "validateRuleKindAndTier (cri_MatchKind inp) (cri_PrecedenceTier inp) = Inr t" and
    g: "validateMatchValue env (cri_MatchKind inp) (cri_MatchValue inp) = Inr g"
    using ok by (auto simp: creatable_def validateRuleKindAndTier_Inr)
  have v: "requireRuleOrgActor (cri_OrganizationID inp) (cri_ActorUserID inp) = Inr ()"
    "validateRuleName (TrimSpace (cri_Name inp)) = Inr ()"
    "validateRuleDescription (TrimSpace (cri_Description inp)) = Inr ()"
    "validateRulePriority (cri_Priority inp) = Inr ()" "TrimSpace (TrimSpace (cri_ServiceID inp)) \<noteq> []"
    using ok by (simp_all add: creatable_def requireRuleOrgActor_def validateRuleName_def
        validateRuleDescription_def validateRulePriority_def)
  have grp: "g \<longrightarrow> active_named (cri_OrganizationID inp) (cri_MatchValue inp) (t_agent_groups s)"
    using ok g by (auto simp: creatable_def validateMatchValue_def split: if_splits)
  let ?s3 = "if g then stepped (stepped s) else stepped s"
  have c: "checkAgentGroup env (cri_OrganizationID inp) (cri_MatchValue inp) g (stepped s) = (Inr (), ?s3)"
    using grp by (simp add: checkAgentGroup_def ActiveAgentGroupExists_def bindE_def db_query_ok [OF nf]
        guardE_def retE_def)
  have a: "ActiveServiceExists env (cri_OrganizationID inp) (TrimSpace (cri_ServiceID inp)) s = (Inr True, stepped s)"
    using ok by (simp add: creatable_def ActiveServiceExists_def db_query_ok [OF nf])
  have ids: "w_ids ?s3 = w_ids s" "t_rules ?s3 = t_rules s" by (simp_all add: stepped_def)
  let ?s4 = "?s3\<lparr>w_clock := Suc (w_clock ?s3), w_ids := Suc (w_ids ?s3)\<rparr>"
  let ?r = "\<lparr>rl_ID = idAt env (w_ids s), rl_OrganizationID = cri_OrganizationID inp, rl_Name = TrimSpace (cri_Name inp),
       rl_Description = TrimSpace (cri_Description inp), rl_ServiceID = TrimSpace (cri_ServiceID inp),
       rl_PrecedenceTier = t, rl_Priority = cri_Priority inp, rl_MatchKind = cri_MatchKind inp,
       rl_MatchValue = cri_MatchValue inp, rl_Enabled = True, rl_CreatedAt = clockAt env (w_clock ?s3),
       rl_UpdatedAt = clockAt env (w_clock ?s3), rl_CreatedBy = cri_ActorUserID inp, rl_DisabledAt = None\<rparr>"
  have "\<exists>s'. WithTx env (bindE (CreateOwnershipRule env ?r) (\<lambda>_.
       bindE (recordRuleAudit env (ruleAuditEventNow (cri_OrganizationID inp) (cri_ActorUserID inp)
         ''ownership.rule_created'' (idAt env (w_ids s)) (clockAt env (w_clock ?s3))
            [(''name'', JStr (rl_Name ?r)), (''service_id'', JStr (rl_ServiceID ?r)),
             (''precedence_tier'', JStr (tier_string (rl_PrecedenceTier ?r))),
             (''match_kind'', JStr (kind_string (rl_MatchKind ?r))),
             (''priority'', JNum (rl_Priority ?r))])) (\<lambda>_. retE ?r))) ?s4 = (Inr ?r, s')"
    using ok new ids(2) by (intro create_tx_ok nf) (auto simp: creatable_def TrimSpace_Nil_org)
  then show ?thesis
    using v k g a c ids
    by (auto simp: CreateRule_def Let_def bindE_Inr liftE_Inr guardE_Inr Now_Inr NewID_Inr)
qed

section \<open>Witnesses\<close>

definition demo_create :: CreateRuleInput where
  "demo_create = \<lparr>cri_OrganizationID = ''o1'', cri_ActorUserID = ''u1'', cri_Name = '' web '', cri_Description = [],
     cri_ServiceID = ''s1'', cri_MatchKind = MatchSANGlob, cri_PrecedenceTier = TierUnset,
     cri_MatchValue = ''*.ex'', cri_Priority = 7\<rparr>"

definition demo_update :: UpdateRuleInput where
  "demo_update = \<lparr>uri_OrganizationID = ''o1'', uri_ActorUserID = ''u1'', uri_RuleID = ''i0'',
     uri_Description = None, uri_MatchValue = Some ''b.*'', uri_Priority = None\<rparr>"

lemma demo_create_eval: "\<exists>r s'. CreateRule demo_env demo_create demo_db = (Inr r, s') \<and> rl_ID r = ''i0''"
proof -
  have "(case CreateRule demo_env demo_create demo_db of (Inr r, s') \<Rightarrow> rl_ID r = ''i0'' | _ \<Rightarrow> False)"
    by code_simp
  then show ?thesis by (auto split: prod.splits sum.splits)
qed

theorem CreateRule_correct_witness:
  "\<exists>r s'. CreateRule demo_env demo_create demo_db = (Inr r, s') \<and> rule_ok demo_env r \<and>
     rl_Name r = ''web'' \<and> rl_PrecedenceTier r = PrecedenceSANPattern"
proof -
  obtain r s' where run: "CreateRule demo_env demo_create demo_db = (Inr r, s')"
    using demo_create_eval by blast
  note c = CreateRule_correct [OF run]
  have "rl_Name r = TrimSpace (cri_Name demo_create)"
    "rl_PrecedenceTier r = the (tierForKind (cri_MatchKind demo_create))"
    using c by (metis OwnershipRule.select_convs(3), metis OwnershipRule.select_convs(6))
  moreover have "TrimSpace (cri_Name demo_create) = ''web''" by code_simp
  ultimately show ?thesis using run c
    by (intro exI [of _ r] exI [of _ s']) (simp add: demo_create_def)
qed

lemma demo_update_eval:
  "\<exists>r s'. UpdateRule demo_env demo_update (snd (CreateRule demo_env demo_create demo_db)) = (Inr r, s') \<and>
     rl_MatchValue r = ''b.*'' \<and> rl_Priority r = 7"
proof -
  have "(case UpdateRule demo_env demo_update (snd (CreateRule demo_env demo_create demo_db)) of
     (Inr r, s') \<Rightarrow> rl_MatchValue r = ''b.*'' \<and> rl_Priority r = 7 | _ \<Rightarrow> False)"
    by code_simp
  then show ?thesis by (auto split: prod.splits sum.splits)
qed

theorem UpdateRule_correct_witness:
  "\<exists>r s'. UpdateRule demo_env demo_update (snd (CreateRule demo_env demo_create demo_db)) = (Inr r, s') \<and>
     validateRulePriority (rl_Priority r) = Inr () \<and> rl_MatchValue r = ''b.*''"
  using demo_update_eval UpdateRule_correct by blast

lemma demo_disable_eval:
  "\<exists>r s'. setRuleEnabled demo_env ''o1'' ''u1'' '' i0'' False (snd (CreateRule demo_env demo_create demo_db)) = (Inr r, s')"
proof -
  have "(case setRuleEnabled demo_env ''o1'' ''u1'' '' i0'' False (snd (CreateRule demo_env demo_create demo_db)) of
     (Inr r, s') \<Rightarrow> True | _ \<Rightarrow> False)"
    by code_simp
  then show ?thesis by (auto split: prod.splits sum.splits)
qed

theorem enable_disable_effect_witness:
  "\<exists>r s'. setRuleEnabled demo_env ''o1'' ''u1'' '' i0'' False (snd (CreateRule demo_env demo_create demo_db)) = (Inr r, s') \<and>
     r \<notin> set (engine_rules ''o1'' s')"
  using demo_disable_eval enable_disable_effect by blast

theorem rule_history_compiles_witness:
  "\<exists>t cs. rule_history demo_env demo_db t \<and> t_rules t \<noteq> [] \<and>
     compileRules demo_env (engine_rules ''o1'' t) = Inr (cs, [])"
proof -
  let ?t = "run_cmd demo_env (CmdCreate demo_create) demo_db"
  have h: "rule_history demo_env demo_db ?t" by (intro rule_history.intros)
  have v: "rules_valid demo_env demo_db" by (simp add: rules_valid_def demo_db_def)
  have "t_rules ?t \<noteq> []" by code_simp
  then show ?thesis using h rule_history_compiles [OF h demo_db_wf v, of "''o1''"] by blast
qed

theorem CreateRule_succeeds_witness:
  "\<exists>r s'. CreateRule demo_env demo_create demo_db = (Inr r, s') \<and> rl_ID r = ''i0''"
proof -
  have id: "idAt demo_env (w_ids demo_db) = ''i0''" by code_simp
  have g: "\<exists>g. validateMatchValue demo_env (cri_MatchKind demo_create) (cri_MatchValue demo_create) = Inr g"
  proof
    show "validateMatchValue demo_env (cri_MatchKind demo_create) (cri_MatchValue demo_create) = Inr False"
      by code_simp
  qed
  have "TrimSpace (cri_OrganizationID demo_create) \<noteq> [] \<and> TrimSpace (cri_ActorUserID demo_create) \<noteq> [] \<and>
     TrimSpace (cri_Name demo_create) \<noteq> [] \<and> length (TrimSpace (cri_Name demo_create)) \<le> maxRuleNameLen \<and>
     length (TrimSpace (cri_Description demo_create)) \<le> maxRuleDescriptionLen \<and>
     minRulePriority \<le> cri_Priority demo_create \<and> cri_Priority demo_create \<le> maxRulePriority \<and>
     TrimSpace (cri_ServiceID demo_create) \<noteq> [] \<and>
     active_named (cri_OrganizationID demo_create) (TrimSpace (cri_ServiceID demo_create)) (t_services demo_db)"
    by code_simp
  then have "creatable demo_env demo_create demo_db"
    using g by (simp add: creatable_def demo_create_def demo_db_def)
  from CreateRule_succeeds [OF demo_no_faults _ this] id show ?thesis by auto
qed

end
