(* ===== verification/Rederive.thy ===== *)
theory Rederive imports RuleMutations begin

text \<open>
  The single-certificate re-derivation (\<open>rederive.go\<close>), the explanation rows
  (\<open>explanation.go\<close>, \<open>writeExplanation\<close> and \<open>buildOwnership\<close> of \<open>recompute.go\<close>) and the override
  mutations (\<open>override_mutations.go\<close>). The row state machine that re-derivation and the fleet
  recompute share is stated once, as \<open>next_row\<close>, and both are shown to implement it.
\<close>

section \<open>Explanations and rows\<close>

definition engineVersion :: int where "engineVersion = 1"

definition losingRuleJSON :: "losingRuleInfo \<Rightarrow> json" where
  "losingRuleJSON l = JObj [(''rule_id'', JStr (lr_ruleID l)), (''name'', JStr (lr_name l)),
     (''tier'', JStr (tier_string (lr_tier l))), (''priority'', JNum (lr_priority l)),
     (''reason_not_chosen'', JStr (lr_reason l))]"

definition buildLosingRulesJSON :: "losingRuleInfo list \<Rightarrow> json" where
  "buildLosingRulesJSON losing = JArr (map losingRuleJSON losing)"

definition tagPairJSON :: "TagPair \<Rightarrow> json" where
  "tagPairJSON t = JObj [(''key'', JStr (fst t)), (''value'', JStr (snd t))]"

definition buildSignalsSeenJSON :: "CertificateSignals \<Rightarrow> json" where
  "buildSignalsSeenJSON sig = JObj
     [(''subject_cn'', JStr (parseCN (sg_Subject sig))),
      (''sans'', JArr (map JStr (sg_SANs sig))),
      (''issuer'', JStr (sg_Issuer sig)),
      (''store_locations'', JArr (map JStr (sg_StoreLocations sig))),
      (''agent_ids'', JArr (map JStr (sg_ObservingAgentIDs sig))),
      (''agent_group_ids'', JArr (map JStr (sg_ObservingAgentGroupIDs sig))),
      (''cert_tags'', JArr (map tagPairJSON (sg_CertTags sig))),
      (''agent_tags'', JArr (map tagPairJSON (sg_AgentTags sig)))]"

definition explanation_row :: "string \<Rightarrow> CertificateSignals \<Rightarrow> ownershipDecision \<Rightarrow> string \<Rightarrow> Time \<Rightarrow>
    OwnershipMatchExplanation" where
  "explanation_row org sig d expID now =
     \<lparr>ex_ID = expID, ex_OrganizationID = org, ex_CertificateID = sg_CertificateID sig, ex_DecidedAt = now,
      ex_DecidedDecision = d_decision d, ex_DecidedServiceID = d_serviceID d,
      ex_WinningRuleID = d_winningRuleID d, ex_LosingRules = buildLosingRulesJSON (d_losing d),
      ex_SignalsSeen = buildSignalsSeenJSON sig, ex_EngineVersion = engineVersion\<rparr>"

definition writeExplanation ::
  "env \<Rightarrow> string \<Rightarrow> CertificateSignals \<Rightarrow> ownershipDecision \<Rightarrow> string \<Rightarrow> Time \<Rightarrow> ('z gov_db_scheme, unit) prog" where
  "writeExplanation env org sig d expID now = CreateOwnershipExplanation env (explanation_row org sig d expID now)"

definition buildOwnership ::
  "string \<Rightarrow> string \<Rightarrow> ownershipDecision \<Rightarrow> string \<Rightarrow> Time \<Rightarrow> Time \<Rightarrow> Time \<Rightarrow> CertificateOwnership" where
  "buildOwnership org cert d expID firstAssigned lastEvaluated lastChanged =
     \<lparr>co_OrganizationID = org, co_CertificateID = cert, co_ServiceID = d_serviceID d,
      co_Decision = d_decision d, co_WinningRuleID = d_winningRuleID d, co_OverrideID = d_overrideID d,
      co_ExplanationID = expID, co_Confidence = d_confidence d, co_FirstAssignedAt = firstAssigned,
      co_LastEvaluatedAt = lastEvaluated, co_LastChangedAt = lastChanged\<rparr>"

definition samePtr :: "string option \<Rightarrow> string option \<Rightarrow> bool" where
  "samePtr a b = (case a of None \<Rightarrow> (case b of None \<Rightarrow> True | Some _ \<Rightarrow> False)
                  | Some x \<Rightarrow> (case b of None \<Rightarrow> False | Some y \<Rightarrow> x = y))"

section \<open>Re-derivation of one certificate\<close>

record rederiveResult =
  rd_fromDecision :: Decision
  rd_toDecision :: Decision
  rd_fromService :: "string option"
  rd_toService :: "string option"
  rd_winningRule :: "string option"
  rd_changed :: bool

text \<open>A missing row is not an error: \<open>prior = nil\<close>.\<close>

definition loadPrior :: "env \<Rightarrow> string \<Rightarrow> string \<Rightarrow> ('z gov_db_scheme, CertificateOwnership option) prog" where
  "loadPrior env org cert =
     bindE (tryE (GetCertificateOwnership env org cert)) (\<lambda>r.
       case r of
         Inr p \<Rightarrow> retE (Some p)
       | Inl e \<Rightarrow> if e = ErrCertificateOwnershipNotFound then retE None else throwE e)"

definition rederiveCertificate ::
  "env \<Rightarrow> string \<Rightarrow> string \<Rightarrow> CertificateOwnershipOverride option \<Rightarrow> Time \<Rightarrow> ('z gov_db_scheme, rederiveResult) prog" where
  "rederiveCertificate env org cert override now =
     bindE (GetCertificateSignals env org cert) (\<lambda>found.
     case found of
       None \<Rightarrow> throwE ErrOverrideCertNotFound
     | Some sig \<Rightarrow>
       bindE (ListOwnershipRulesForEngine env org) (\<lambda>rawRules.
       bindE (liftE (compileRules env rawRules)) (\<lambda>(rules, failures).
       bindE (loadPrior env org cert) (\<lambda>priorRow.
       (let d = decideOwnership sig override rules now;
            res = \<lparr>rd_fromDecision = DecisionUnowned, rd_toDecision = d_decision d, rd_fromService = None,
                   rd_toService = d_serviceID d, rd_winningRule = d_winningRuleID d, rd_changed = False\<rparr> in
        case priorRow of
          None \<Rightarrow>
            bindE (NewID env) (\<lambda>expID.
            bindE (writeExplanation env org sig d expID now) (\<lambda>_.
            bindE (UpsertCertificateOwnership env (buildOwnership org cert d expID now now now)) (\<lambda>_.
            retE (res\<lparr>rd_changed := d_serviceID d \<noteq> None\<rparr>))))
        | Some prior \<Rightarrow>
            (let res = res\<lparr>rd_fromDecision := co_Decision prior, rd_fromService := co_ServiceID prior\<rparr>;
                 sameService = samePtr (co_ServiceID prior) (d_serviceID d);
                 ownerChanged = (co_Decision prior \<noteq> d_decision d \<or> \<not> sameService) in
             if \<not> ownerChanged then
               (let basisChanged = (\<not> samePtr (co_WinningRuleID prior) (d_winningRuleID d) \<or>
                      \<not> samePtr (co_OverrideID prior) (d_overrideID d) \<or> co_Confidence prior \<noteq> d_confidence d) in
                if \<not> basisChanged then
                  bindE (UpsertCertificateOwnership env (prior\<lparr>co_LastEvaluatedAt := now\<rparr>)) (\<lambda>_. retE res)
                else
                  bindE (NewID env) (\<lambda>expID.
                  bindE (writeExplanation env org sig d expID now) (\<lambda>_.
                  bindE (UpsertCertificateOwnership env
                    (buildOwnership org cert d expID (co_FirstAssignedAt prior) now (co_LastChangedAt prior))) (\<lambda>_.
                  retE res))))
             else
               (let priorOwned = (co_ServiceID prior \<noteq> None);
                    nowOwned = (d_serviceID d \<noteq> None);
                    firstAssigned = (if \<not> priorOwned \<and> nowOwned then now else co_FirstAssignedAt prior) in
                bindE (NewID env) (\<lambda>expID.
                bindE (writeExplanation env org sig d expID now) (\<lambda>_.
                bindE (UpsertCertificateOwnership env (buildOwnership org cert d expID firstAssigned now now)) (\<lambda>_.
                retE (res\<lparr>rd_changed := True\<rparr>)))))))))))"

section \<open>Override mutations\<close>

definition maxOverrideReasonLen :: nat where "maxOverrideReasonLen = 1000"

record CreateOverrideInput =
  coi_OrganizationID :: string
  coi_ActorUserID :: string
  coi_CertificateID :: string
  coi_ServiceID :: string
  coi_Reason :: string
  coi_ExpiresAt :: "Time option"

record ClearOverrideInput =
  cli_OrganizationID :: string
  cli_ActorUserID :: string
  cli_CertificateID :: string
  cli_Reason :: string

definition requireOverrideOrgActor :: "string \<Rightarrow> string \<Rightarrow> err + unit" where
  "requireOverrideOrgActor orgID actor =
     (if TrimSpace orgID = [] then Inl ErrInvalidOverride
      else if TrimSpace actor = [] then Inl ErrInvalidOverride else Inr ())"

definition overrideAuditMetadata :: "(string \<times> json) list \<Rightarrow> json" where
  "overrideAuditMetadata extra = json_of_map ((''severity'', JStr ''security'') # extra)"

definition recordOverrideAudit :: "env \<Rightarrow> Event \<Rightarrow> ('z world_scheme, unit) prog" where
  "recordOverrideAudit env e = Record env e"

definition override_event :: "string \<Rightarrow> string \<Rightarrow> string \<Rightarrow> string \<Rightarrow> Time \<Rightarrow> (string \<times> json) list \<Rightarrow> Event" where
  "override_event org actor action cert now extra =
     \<lparr>ev_ID = [], ev_OrganizationID = org, ev_OccurredAt = now, ev_Actor = actor, ev_ActorType = ''user'',
      ev_Action = action, ev_TargetType = ''certificate'', ev_TargetID = cert, ev_RequestID = [],
      ev_Metadata = overrideAuditMetadata extra\<rparr>"

definition CreateOverride :: "env \<Rightarrow> CreateOverrideInput \<Rightarrow> ('z gov_db_scheme, CertificateOwnershipOverride) prog" where
  "CreateOverride env inp =
     (let org = coi_OrganizationID inp; actor = coi_ActorUserID inp; cert = TrimSpace (coi_CertificateID inp);
          svc = TrimSpace (coi_ServiceID inp); reason = TrimSpace (coi_Reason inp) in
      bindE (liftE (requireOverrideOrgActor org actor)) (\<lambda>_.
      bindE (guardE (cert \<noteq> []) ErrInvalidOverride) (\<lambda>_.
      bindE (guardE (svc \<noteq> []) ErrInvalidOverride) (\<lambda>_.
      bindE (guardE (reason \<noteq> []) ErrInvalidOverride) (\<lambda>_.
      bindE (guardE (length reason \<le> maxOverrideReasonLen) ErrInvalidOverride) (\<lambda>_.
      bindE (Now env) (\<lambda>now.
      bindE (guardE (case coi_ExpiresAt inp of None \<Rightarrow> True | Some t \<Rightarrow> t > now) ErrOverrideExpiryInPast) (\<lambda>_.
      bindE (GetCertificateSignals env org cert) (\<lambda>sig.
      bindE (guardE (sig \<noteq> None) ErrOverrideCertNotFound) (\<lambda>_.
      bindE (ActiveServiceExists env org svc) (\<lambda>ok.
      bindE (guardE ok ErrOverrideServiceNotFound) (\<lambda>_.
      bindE (NewID env) (\<lambda>i.
      (let override = \<lparr>ov_ID = i, ov_OrganizationID = org, ov_CertificateID = cert, ov_ServiceID = svc,
             ov_Reason = reason, ov_SetBy = actor, ov_SetAt = now, ov_ExpiresAt = coi_ExpiresAt inp,
             ov_ClearedAt = None, ov_ClearedBy = None, ov_ClearedReason = None\<rparr> in
       WithTxLockedOwnership env org
         (bindE (mapErrE (\<lambda>e. if e = ErrOwnershipOverrideAlreadyExists then ErrOverrideConflict else e)
            (CreateOwnershipOverride env override)) (\<lambda>_.
          bindE (rederiveCertificate env org cert (Some override) now) (\<lambda>_.
          bindE (recordOverrideAudit env (override_event org actor ''ownership.overridden'' cert now
            [(''override_id'', JStr (ov_ID override)), (''service_id'', JStr (ov_ServiceID override))])) (\<lambda>_.
          retE override))))))))))))))))))"

definition ClearOverride :: "env \<Rightarrow> ClearOverrideInput \<Rightarrow> ('z gov_db_scheme, CertificateOwnershipOverride) prog" where
  "ClearOverride env inp =
     (let org = cli_OrganizationID inp; actor = cli_ActorUserID inp; cert = TrimSpace (cli_CertificateID inp);
          reason = TrimSpace (cli_Reason inp) in
      bindE (liftE (requireOverrideOrgActor org actor)) (\<lambda>_.
      bindE (guardE (cert \<noteq> []) ErrInvalidOverride) (\<lambda>_.
      bindE (guardE (reason \<noteq> []) ErrInvalidOverride) (\<lambda>_.
      bindE (guardE (length reason \<le> maxOverrideReasonLen) ErrInvalidOverride) (\<lambda>_.
      bindE (GetActiveOwnershipOverride env org cert) (\<lambda>found.
      case found of
        None \<Rightarrow> throwE ErrOverrideCertNotFound
      | Some active \<Rightarrow>
        bindE (Now env) (\<lambda>now.
        WithTxLockedOwnership env org
          (bindE (mapErrE (\<lambda>e. if e = ErrOwnershipOverrideNotFound then ErrOverrideCertNotFound else e)
             (ClearOwnershipOverride env org (ov_ID active) actor reason now)) (\<lambda>_.
           bindE (rederiveCertificate env org cert None now) (\<lambda>_.
           bindE (GetOwnershipOverride env org (ov_ID active)) (\<lambda>got.
           bindE (recordOverrideAudit env (override_event org actor ''ownership.override_cleared'' cert now
             [(''override_id'', JStr (ov_ID active))])) (\<lambda>_.
           retE got))))))))))))"

section \<open>The row state machine\<close>

text \<open>
  What an evaluation with decision \<open>d\<close> makes of the stored row (section 5.1 of the governance
  plan): the new row, and whether a new explanation is written. A first evaluation always writes
  one; the same decision, owner and basis only move \<open>last_evaluated_at\<close>; the same owner on a new
  basis keeps \<open>last_changed_at\<close>; a transition sets it, and the first assignment sets
  \<open>first_assigned_at\<close>.
\<close>

definition same_owner :: "CertificateOwnership \<Rightarrow> ownershipDecision \<Rightarrow> bool" where
  "same_owner p d \<longleftrightarrow> co_Decision p = d_decision d \<and> co_ServiceID p = d_serviceID d"

definition same_basis :: "CertificateOwnership \<Rightarrow> ownershipDecision \<Rightarrow> bool" where
  "same_basis p d \<longleftrightarrow> co_WinningRuleID p = d_winningRuleID d \<and> co_OverrideID p = d_overrideID d \<and>
     co_Confidence p = d_confidence d"

definition next_row ::
  "string \<Rightarrow> string \<Rightarrow> ownershipDecision \<Rightarrow> CertificateOwnership option \<Rightarrow> string \<Rightarrow> Time \<Rightarrow> CertificateOwnership \<times> bool" where
  "next_row org cert d prior x now =
     (case prior of
        None \<Rightarrow> (buildOwnership org cert d x now now now, True)
      | Some p \<Rightarrow>
          if same_owner p d then
            if same_basis p d then (p\<lparr>co_LastEvaluatedAt := now\<rparr>, False)
            else (buildOwnership org cert d x (co_FirstAssignedAt p) now (co_LastChangedAt p), True)
          else (buildOwnership org cert d x
                  (if co_ServiceID p = None \<and> d_serviceID d \<noteq> None then now else co_FirstAssignedAt p) now now, True))"

definition apply_row ::
  "string \<Rightarrow> CertificateSignals \<Rightarrow> ownershipDecision \<Rightarrow> CertificateOwnership option \<Rightarrow> string \<Rightarrow> Time \<Rightarrow>
     'z gov_db_scheme \<Rightarrow> 'z gov_db_scheme" where
  "apply_row org sig d prior x now s =
     (case next_row org (sg_CertificateID sig) d prior x now of (co, fresh) \<Rightarrow>
        s\<lparr>t_explanations := (if fresh then t_explanations s @ [explanation_row org sig d x now] else t_explanations s),
          t_ownership := upsert co_key co (t_ownership s)\<rparr>)"

text \<open>The row says what the decision says.\<close>

definition agrees :: "CertificateOwnership \<Rightarrow> ownershipDecision \<Rightarrow> bool" where
  "agrees co d \<longleftrightarrow> same_owner co d \<and> same_basis co d"

lemma same_owner_simps [simp]:
  "same_owner (buildOwnership org cert d x a b c) d" "same_basis (buildOwnership org cert d x a b c) d"
  "same_owner (p\<lparr>co_LastEvaluatedAt := t\<rparr>) d = same_owner p d"
  "same_basis (p\<lparr>co_LastEvaluatedAt := t\<rparr>) d = same_basis p d"
  by (simp_all add: same_owner_def same_basis_def buildOwnership_def)

lemma next_row_agrees: "agrees (fst (next_row org cert d prior x now)) d"
  by (cases prior) (simp_all add: next_row_def agrees_def)

lemma next_row_key:
  "\<forall>p. prior = Some p \<longrightarrow> co_key p = (org, cert) \<Longrightarrow> co_key (fst (next_row org cert d prior x now)) = (org, cert)"
  by (cases prior) (simp_all add: next_row_def co_key_def buildOwnership_def)

lemma next_row_unchanged:
  "agrees p d \<Longrightarrow> next_row org cert d (Some p) x now = (p\<lparr>co_LastEvaluatedAt := now\<rparr>, False)"
  by (simp add: next_row_def agrees_def)

lemma next_row_evaluated: "co_LastEvaluatedAt (fst (next_row org cert d prior x now)) = now"
  by (cases prior) (simp_all add: next_row_def buildOwnership_def)

lemma next_row_explained: "snd (next_row org cert d prior x now) \<Longrightarrow> co_ExplanationID (fst (next_row org cert d prior x now)) = x"
  by (cases prior) (simp_all add: next_row_def buildOwnership_def split: if_splits)

lemma samePtr_iff [simp]: "samePtr a b \<longleftrightarrow> a = b"
  by (auto simp: samePtr_def split: option.splits)

lemma GetCertificateOwnership_NotFound:
  "GetCertificateOwnership env org cert s = (Inl ErrCertificateOwnershipNotFound, s') \<longleftrightarrow>
     \<not> fault env (w_calls s) \<and> ownership_row org cert (stepped s) = None \<and> s' = stepped s"
  by (auto simp: GetCertificateOwnership_def bindE_def db_query_def dbcall_def getE_def throwE_def retE_def
      stepped_def split: option.splits)

lemma ownership_row_stepped [simp]:
  "ownership_row org cert (stepped s) = ownership_row org cert s"
  "ownership_row org cert (db_of s) = ownership_row org cert s"
  by (simp_all add: ownership_row_def)

lemma GetCertificateOwnership_Inr:
  "GetCertificateOwnership env org cert s = (Inr p, s') \<longleftrightarrow>
     \<not> fault env (w_calls s) \<and> ownership_row org cert s = Some p \<and> s' = stepped s"
  by (auto simp: GetCertificateOwnership_def run_simps split: option.splits)

lemma loadPrior_Inr [run_simps]:
  "loadPrior env org cert s = (Inr p, s') \<longleftrightarrow>
     \<not> fault env (w_calls s) \<and> p = ownership_row org cert s \<and> s' = stepped s"
proof
  assume l: "loadPrior env org cert s = (Inr p, s')"
  obtain r s1 where r: "GetCertificateOwnership env org cert s = (r, s1)" by (cases "GetCertificateOwnership env org cert s")
  then have "(case r of Inr q \<Rightarrow> retE (Some q)
       | Inl e \<Rightarrow> if e = ErrCertificateOwnershipNotFound then retE None else throwE e) s1 = (Inr p, s')"
    using l by (simp add: loadPrior_def bindE_def tryE_def)
  then have c: "s1 = s'" "(case r of Inr q \<Rightarrow> p = Some q | Inl e \<Rightarrow> e = ErrCertificateOwnershipNotFound \<and> p = None)"
    by (auto simp: retE_Inr throwE_Inr split: sum.splits if_splits)
  show "\<not> fault env (w_calls s) \<and> p = ownership_row org cert s \<and> s' = stepped s"
    using r c by (cases r) (auto simp: GetCertificateOwnership_NotFound GetCertificateOwnership_Inr)
next
  assume a: "\<not> fault env (w_calls s) \<and> p = ownership_row org cert s \<and> s' = stepped s"
  show "loadPrior env org cert s = (Inr p, s')"
  proof (cases "ownership_row org cert s")
    case None
    then have "GetCertificateOwnership env org cert s = (Inl ErrCertificateOwnershipNotFound, stepped s)"
      using a by (simp add: GetCertificateOwnership_NotFound)
    with a None show ?thesis by (simp add: loadPrior_def bindE_def tryE_def retE_def)
  next
    case (Some q)
    then have "GetCertificateOwnership env org cert s = (Inr q, stepped s)"
      using a by (simp add: GetCertificateOwnership_Inr)
    with a Some show ?thesis by (simp add: loadPrior_def bindE_def tryE_def retE_def)
  qed
qed

lemma engine_rules_stepped [simp]: "engine_rules org (stepped s) = engine_rules org s"
  "engine_rules org (db_of s) = engine_rules org s"
  by (simp_all add: engine_rules_def)

lemma writeExplanation_Inr [run_simps]:
  "writeExplanation env org sig d x now s = (Inr u, s') \<longleftrightarrow>
     \<not> fault env (w_calls s) \<and> (\<forall>e \<in> set (t_explanations s). ex_ID e \<noteq> x) \<and>
     s' = (stepped s)\<lparr>t_explanations := t_explanations s @ [explanation_row org sig d x now]\<rparr>"
  by (auto simp: writeExplanation_def CreateOwnershipExplanation_def exec_hit_Inr explanation_row_def)

lemma UpsertCertificateOwnership_Inr [run_simps]:
  "UpsertCertificateOwnership env co s = (Inr u, s') \<longleftrightarrow>
     \<not> fault env (w_calls s) \<and> s' = (stepped s)\<lparr>t_ownership := upsert co_key co (t_ownership s)\<rparr>"
  by (simp add: UpsertCertificateOwnership_def db_update_Inr)

lemma write_fresh:
  assumes "bindE (NewID env) (\<lambda>x. bindE (writeExplanation env org sig d x now) (\<lambda>_.
     bindE (UpsertCertificateOwnership env (co x)) (\<lambda>_. retE (r x)))) s = (Inr y, s')"
  shows "\<exists>x. x = idAt env (w_ids s) \<and> y = r x \<and> (\<forall>e \<in> set (t_explanations s). ex_ID e \<noteq> x) \<and>
    db_of s' = (db_of s)\<lparr>t_explanations := t_explanations s @ [explanation_row org sig d x now],
      t_ownership := upsert co_key (co x) (t_ownership s)\<rparr>"
  using assms
  by (simp add: bindE_Inr NewID_Inr writeExplanation_Inr UpsertCertificateOwnership_Inr retE_Inr)
    (auto simp: db_of_push)

lemma write_seen:
  assumes "bindE (UpsertCertificateOwnership env co) (\<lambda>_. retE r) s = (Inr y, s')"
  shows "y = r \<and> db_of s' = (db_of s)\<lparr>t_ownership := upsert co_key co (t_ownership s)\<rparr>"
  using assms by (auto simp: run_simps UpsertCertificateOwnership_def db_of_push)

lemma signals_row_id: "signals_row org cert s = Some sig \<Longrightarrow> sg_CertificateID sig = cert"
  by (auto simp: signals_row_def dest!: find_Some_D)

lemma apply_row_fresh:
  "next_row org (sg_CertificateID sig) d prior x now = (co, True) \<Longrightarrow>
     apply_row org sig d prior x now s =
     s\<lparr>t_explanations := t_explanations s @ [explanation_row org sig d x now],
       t_ownership := upsert co_key co (t_ownership s)\<rparr>"
  by (simp add: apply_row_def)

lemma apply_row_seen:
  "next_row org (sg_CertificateID sig) d prior x now = (co, False) \<Longrightarrow>
     apply_row org sig d prior x now s = s\<lparr>t_ownership := upsert co_key co (t_ownership s)\<rparr>"
  by (simp add: apply_row_def)

lemmas rederive_unfold = rederiveCertificate_def bindE_Inr GetCertificateSignals_def db_query_Inr
  liftE_Inr ListOwnershipRulesForEngine_def loadPrior_Inr Let_def

text \<open>A re-derivation decides with the stored signals and rules, and makes one step of the row machine.\<close>

lemma rederive_run:
  assumes run: "rederiveCertificate env org cert ov now s = (Inr res, s')"
  shows "\<exists>sig rules fs x. signals_row org cert s = Some sig \<and>
     compileRules env (engine_rules org s) = Inr (rules, fs) \<and>
     (snd (next_row org cert (decideOwnership sig ov rules now) (ownership_row org cert s) x now) \<longrightarrow>
        (\<forall>e \<in> set (t_explanations s). ex_ID e \<noteq> x)) \<and>
     db_of s' = apply_row org sig (decideOwnership sig ov rules now) (ownership_row org cert s) x now (db_of s)"
proof -
  obtain sig rules fs where
    sig: "signals_row org cert s = Some sig" and rules: "compileRules env (engine_rules org s) = Inr (rules, fs)"
    using run by (auto simp: rederive_unfold throwE_Inr split: option.splits)
  let ?d = "decideOwnership sig ov rules now" and ?s = "stepped (stepped (stepped s))"
  note cert = signals_row_id [OF sig]
  have "\<exists>x. (snd (next_row org cert ?d (ownership_row org cert s) x now) \<longrightarrow> (\<forall>e \<in> set (t_explanations s). ex_ID e \<noteq> x)) \<and>
     db_of s' = apply_row org sig ?d (ownership_row org cert s) x now (db_of s)"
  proof (cases "ownership_row org cert s")
    case None
    have "bindE (NewID env) (\<lambda>x. bindE (writeExplanation env org sig ?d x now) (\<lambda>_.
       bindE (UpsertCertificateOwnership env (buildOwnership org cert ?d x now now now)) (\<lambda>_. retE
         \<lparr>rd_fromDecision = DecisionUnowned, rd_toDecision = d_decision ?d, rd_fromService = None,
          rd_toService = d_serviceID ?d, rd_winningRule = d_winningRuleID ?d, rd_changed = d_serviceID ?d \<noteq> None\<rparr>))) ?s
       = (Inr res, s')"
      using run sig rules None by (simp add: rederive_unfold)
    from write_fresh [OF this] None cert show ?thesis
      by (elim exE conjE) (intro exI conjI, auto simp: apply_row_def next_row_def)
  next
    case (Some p)
    show ?thesis
    proof (cases "same_owner p ?d")
      case owner: True
      show ?thesis
      proof (cases "same_basis p ?d")
        case True
        obtain r where "bindE (UpsertCertificateOwnership env (p\<lparr>co_LastEvaluatedAt := now\<rparr>)) (\<lambda>_. retE r) ?s = (Inr res, s')"
          using run sig rules Some owner True by (auto simp: rederive_unfold same_owner_def same_basis_def)
        from write_seen [OF this] Some owner True show ?thesis by (auto simp: apply_row_def next_row_def)
      next
        case False
        obtain r where "bindE (NewID env) (\<lambda>x. bindE (writeExplanation env org sig ?d x now) (\<lambda>_.
          bindE (UpsertCertificateOwnership env
            (buildOwnership org cert ?d x (co_FirstAssignedAt p) now (co_LastChangedAt p))) (\<lambda>_. retE r))) ?s = (Inr res, s')"
          using run sig rules Some owner False by (auto simp: rederive_unfold same_owner_def same_basis_def)
        from write_fresh [OF this] Some owner False cert show ?thesis
          by (elim exE conjE) (intro exI conjI, auto simp: apply_row_def next_row_def)
      qed
    next
      case False
      let ?first = "if co_ServiceID p = None \<and> d_serviceID ?d \<noteq> None then now else co_FirstAssignedAt p"
      have neq: "(co_Decision p = d_decision ?d \<and> co_ServiceID p = d_serviceID ?d) = False"
        using False by (simp add: same_owner_def)
      have "bindE (NewID env) (\<lambda>x. bindE (writeExplanation env org sig ?d x now) (\<lambda>_.
          bindE (UpsertCertificateOwnership env (buildOwnership org cert ?d x ?first now now)) (\<lambda>_. retE
         \<lparr>rd_fromDecision = co_Decision p, rd_toDecision = d_decision ?d, rd_fromService = co_ServiceID p,
          rd_toService = d_serviceID ?d, rd_winningRule = d_winningRuleID ?d, rd_changed = True\<rparr>))) ?s = (Inr res, s')"
        using run sig rules Some by (simp add: rederive_unfold neq)
      from write_fresh [OF this] Some False cert show ?thesis
        by (elim exE conjE) (intro exI conjI, auto simp: apply_row_def next_row_def)
    qed
  qed
  with sig rules show ?thesis by blast
qed

lemma keeps_wf_rederive [keep_intros]: "keeps gov_wf (rederiveCertificate env org cert ov now)"
  unfolding rederiveCertificate_def writeExplanation_def loadPrior_def Let_def
  by (intro keep_intros)

lemma apply_row_frame [simp]:
  "t_rules (apply_row org sig d p x now s) = t_rules s"
  "t_overrides (apply_row org sig d p x now s) = t_overrides s"
  "t_runs (apply_row org sig d p x now s) = t_runs s"
  "audit_events (apply_row org sig d p x now s) = audit_events s"
  "inputs_of (apply_row org sig d p x now s) = inputs_of s"
  "w_locks (apply_row org sig d p x now s) = w_locks s"
  by (simp_all add: apply_row_def split: prod.splits)

lemma apply_row_ownership:
  "t_ownership (apply_row org sig d p x now s) =
     upsert co_key (fst (next_row org (sg_CertificateID sig) d p x now)) (t_ownership s)"
  by (simp add: apply_row_def split: prod.splits)

lemma ownership_row_key: "ownership_row org cert s = Some p \<Longrightarrow> co_key p = (org, cert)"
  by (auto simp: ownership_row_def dest: find_Some_D)

text \<open>After a step of the row machine the certificate's row is the new one, every other row the old one.\<close>

lemma apply_row_lookup:
  assumes "prior = ownership_row org (sg_CertificateID sig) s"
  shows "ownership_row org (sg_CertificateID sig) (apply_row org sig d prior x now s) =
           Some (fst (next_row org (sg_CertificateID sig) d prior x now))"
    and "(o2, c2) \<noteq> (org, sg_CertificateID sig) \<Longrightarrow>
           ownership_row o2 c2 (apply_row org sig d prior x now s) = ownership_row o2 c2 s"
proof -
  have k: "co_key (fst (next_row org (sg_CertificateID sig) d prior x now)) = (org, sg_CertificateID sig)"
    unfolding assms by (intro next_row_key) (auto intro: ownership_row_key)
  show "ownership_row org (sg_CertificateID sig) (apply_row org sig d prior x now s) =
           Some (fst (next_row org (sg_CertificateID sig) d prior x now))"
    unfolding ownership_row_def apply_row_ownership using find_upsert_same [of co_key] k by metis
  show "ownership_row o2 c2 (apply_row org sig d prior x now s) = ownership_row o2 c2 s"
    if "(o2, c2) \<noteq> (org, sg_CertificateID sig)"
    unfolding ownership_row_def apply_row_ownership using find_upsert_other that k by metis
qed

section \<open>Overrides take effect at once\<close>

lemma ov_tx:
  assumes "WithTxLockedOwnership env org (bindE (mapErrE f m) (\<lambda>_. bindE (rederiveCertificate env org cert ov now) (\<lambda>_.
     bindE (recordOverrideAudit env e) (\<lambda>_. retE r)))) s = (Inr x, s')"
  shows "\<exists>s1 u s2 res s3 rec. x = r \<and> db_of s1 = db_of s \<and> m s1 = (Inr u, s2) \<and>
     rederiveCertificate env org cert ov now s2 = (Inr res, s3) \<and> same_event rec e \<and>
     db_of s' = (db_of s3)\<lparr>audit_events := audit_events s3 @ [rec]\<rparr>"
proof -
  from otx.commits [OF assms] obtain s1 s5 where 1: "db_of s1 = db_of s" and 5: "db_of s' = db_of s5"
    and run: "bindE (mapErrE f m) (\<lambda>_. bindE (rederiveCertificate env org cert ov now) (\<lambda>_.
     bindE (recordOverrideAudit env e) (\<lambda>_. retE r))) s1 = (Inr x, s5)" by blast
  from run obtain u s2 res s3 v s4 where m: "m s1 = (Inr u, s2)"
    and d: "rederiveCertificate env org cert ov now s2 = (Inr res, s3)"
    and a: "Record env e s3 = (Inr v, s4)" and x: "x = r" "s5 = s4"
    by (auto simp: bindE_Inr retE_Inr mapErrE_Inr recordOverrideAudit_def)
  from Record_db [OF a] obtain rec where "same_event rec e"
    "db_of s4 = (db_of s3)\<lparr>audit_events := audit_events s3 @ [rec]\<rparr>" by blast
  with 1 5 m d x show ?thesis
    by (intro exI [of _ s1] exI [of _ u] exI [of _ s2] exI [of _ res] exI [of _ s3] exI [of _ rec]) simp
qed

lemma CreateOverride_Inr:
  assumes run: "CreateOverride env inp s = (Inr ov, s')"
  shows "\<exists>i now s1 s2 res s3 rec.
     ov = \<lparr>ov_ID = i, ov_OrganizationID = coi_OrganizationID inp, ov_CertificateID = TrimSpace (coi_CertificateID inp),
           ov_ServiceID = TrimSpace (coi_ServiceID inp), ov_Reason = TrimSpace (coi_Reason inp),
           ov_SetBy = coi_ActorUserID inp, ov_SetAt = now, ov_ExpiresAt = coi_ExpiresAt inp,
           ov_ClearedAt = None, ov_ClearedBy = None, ov_ClearedReason = None\<rparr> \<and>
     TrimSpace (coi_Reason inp) \<noteq> [] \<and> overrideActive (Some ov) now \<and>
     active_named (coi_OrganizationID inp) (TrimSpace (coi_ServiceID inp)) (t_services s) \<and>
     db_of s1 = db_of s \<and> CreateOwnershipOverride env ov s1 = (Inr (), s2) \<and>
     rederiveCertificate env (coi_OrganizationID inp) (TrimSpace (coi_CertificateID inp)) (Some ov) now s2 = (Inr res, s3) \<and>
     ev_Action rec = ''ownership.overridden'' \<and> ev_Actor rec = coi_ActorUserID inp \<and>
     db_of s' = (db_of s3)\<lparr>audit_events := audit_events s3 @ [rec]\<rparr>"
proof -
  let ?org = "coi_OrganizationID inp" and ?cert = "TrimSpace (coi_CertificateID inp)"
    and ?now = "clockAt env (w_clock s)" and ?s3 = "stepped (stepped (s\<lparr>w_clock := Suc (w_clock s)\<rparr>))"
  define v where "v = \<lparr>ov_ID = idAt env (w_ids ?s3), ov_OrganizationID = ?org, ov_CertificateID = ?cert,
           ov_ServiceID = TrimSpace (coi_ServiceID inp), ov_Reason = TrimSpace (coi_Reason inp),
           ov_SetBy = coi_ActorUserID inp, ov_SetAt = ?now, ov_ExpiresAt = coi_ExpiresAt inp,
           ov_ClearedAt = None, ov_ClearedBy = None, ov_ClearedReason = None\<rparr>"
  have pre: "TrimSpace (coi_Reason inp) \<noteq> []"
      "case coi_ExpiresAt inp of None \<Rightarrow> True | Some t \<Rightarrow> t > ?now"
      "active_named ?org (TrimSpace (coi_ServiceID inp)) (t_services s)"
    and w: "WithTxLockedOwnership env ?org
         (bindE (mapErrE (\<lambda>e. if e = ErrOwnershipOverrideAlreadyExists then ErrOverrideConflict else e)
            (CreateOwnershipOverride env v)) (\<lambda>_.
          bindE (rederiveCertificate env ?org ?cert (Some v) ?now) (\<lambda>_.
          bindE (recordOverrideAudit env (override_event ?org (coi_ActorUserID inp) ''ownership.overridden'' ?cert ?now
            [(''override_id'', JStr (ov_ID v)), (''service_id'', JStr (ov_ServiceID v))])) (\<lambda>_.
          retE v)))) (?s3\<lparr>w_ids := Suc (w_ids ?s3)\<rparr>) = (Inr ov, s')"
    using run unfolding v_def
    by (simp_all add: CreateOverride_def Let_def bindE_Inr liftE_Inr guardE_Inr Now_Inr NewID_Inr
        GetCertificateSignals_def ActiveServiceExists_def db_query_Inr)
  from ov_tx [OF w] obtain s1 u s2 res s4 rec where ov: "ov = v" and s1: "db_of s1 = db_of s"
    and c: "CreateOwnershipOverride env v s1 = (Inr u, s2)"
    and d: "rederiveCertificate env ?org ?cert (Some v) ?now s2 = (Inr res, s4)"
    and rec: "same_event rec (override_event ?org (coi_ActorUserID inp) ''ownership.overridden'' ?cert ?now
            [(''override_id'', JStr (ov_ID v)), (''service_id'', JStr (ov_ServiceID v))])"
    and s': "db_of s' = (db_of s4)\<lparr>audit_events := audit_events s4 @ [rec]\<rparr>" by auto
  have act: "overrideActive (Some v) ?now" using pre(2) by (simp add: overrideActive_def v_def split: option.splits)
  have e: "ev_Action rec = ''ownership.overridden''" "ev_Actor rec = coi_ActorUserID inp"
    using same_event_fields [OF rec] by (simp_all add: override_event_def)
  show ?thesis
    by (rule exI [of _ "ov_ID v"], rule exI [of _ ?now], rule exI [of _ s1], rule exI [of _ s2], rule exI [of _ res],
        rule exI [of _ s4], rule exI [of _ rec], intro conjI s1 s' e pre(1,3))
      (use ov act c d in \<open>simp_all add: v_def\<close>)
qed

lemma active_override_db [simp]:
  "active_override org cert (db_of s) = active_override org cert s"
  "active_override org cert (stepped s) = active_override org cert s"
  by (simp_all add: active_override_def)

lemma active_override_cong: "t_overrides s = t_overrides t \<Longrightarrow> active_override org cert s = active_override org cert t"
  by (simp add: active_override_def)

lemma ownership_row_cong: "t_ownership s = t_ownership t \<Longrightarrow> ownership_row org cert s = ownership_row org cert t"
  by (simp add: ownership_row_def)

lemma create_override_active:
  assumes "CreateOwnershipOverride env r s = (Inr u, s')" and "ov_active r"
  shows "active_override o2 c2 s' = (if (o2, c2) = ov_key r then Some r else active_override o2 c2 s)"
    and "db_of s' = (db_of s)\<lparr>t_overrides := t_overrides s @ [r]\<rparr>"
proof -
  have fresh: "\<forall>x \<in> set (t_overrides s). \<not> (ov_active x \<and> ov_key x = ov_key r)"
    and s': "s' = (stepped s)\<lparr>t_overrides := t_overrides s @ [r]\<rparr>"
    using assms by (auto simp: CreateOwnershipOverride_def exec_hit_Inr)
  show "db_of s' = (db_of s)\<lparr>t_overrides := t_overrides s @ [r]\<rparr>" by (simp add: s' db_of_push)
  have "find (\<lambda>x. ov_key x = ov_key r \<and> ov_active x) (t_overrides s) = None"
    using fresh by (auto simp: find_None_set)
  then show "active_override o2 c2 s' = (if (o2, c2) = ov_key r then Some r else active_override o2 c2 s)"
    using assms(2) by (auto simp: active_override_def s' find_append_single split: option.splits)
qed

lemma clear_override_active:
  assumes wf: "gov_wf s" and act: "active_override org cert s = Some old"
    and clr: "ClearOwnershipOverride env org (ov_ID old) by why at s = (Inr u, s')"
  shows "active_override o2 c2 s' = (if (o2, c2) = (org, cert) then None else active_override o2 c2 s)"
    and "db_of s' = (db_of s)\<lparr>t_overrides := update_where (clearable org (ov_ID old))
          (\<lambda>r. r\<lparr>ov_ClearedAt := Some at, ov_ClearedBy := Some by, ov_ClearedReason := Some why\<rparr>) (t_overrides s)\<rparr>"
proof -
  let ?f = "\<lambda>r. r\<lparr>ov_ClearedAt := Some at, ov_ClearedBy := Some by, ov_ClearedReason := Some why\<rparr>"
  have s': "s' = (stepped s)\<lparr>t_overrides := update_where (clearable org (ov_ID old)) ?f (t_overrides s)\<rparr>"
    using clr by (auto simp: ClearOwnershipOverride_def exec_hit_Inr)
  show "db_of s' = (db_of s)\<lparr>t_overrides := update_where (clearable org (ov_ID old)) ?f (t_overrides s)\<rparr>"
    by (simp add: s' db_of_push)
  have old: "old \<in> set (t_overrides s)" "ov_key old = (org, cert)" "ov_active old"
    using act by (auto simp: active_override_def dest: find_Some_D)
  have only: "x = old" if "x \<in> set (t_overrides s)" "clearable org (ov_ID old) x" for x
    using wf old that by (auto simp: gov_wf_def distinct_map inj_on_def clearable_def)
  have same: "x = old" if "x \<in> set (t_overrides s)" "ov_key x = (org, cert)" "ov_active x" for x
  proof -
    have "distinct (map ov_key (filter ov_active (t_overrides s)))"
      using wf by (simp add: gov_wf_def one_active_def)
    then show ?thesis using that old by (auto simp: distinct_map inj_on_def)
  qed
  show "active_override o2 c2 s' = (if (o2, c2) = (org, cert) then None else active_override o2 c2 s)"
  proof (cases "(o2, c2) = (org, cert)")
    case True
    have clr_old: "clearable org (ov_ID old) old" using old by (simp add: clearable_def ov_key_def)
    have "\<not> (ov_key r = (org, cert) \<and> ov_active r)"
      if r: "r \<in> set (update_where (clearable org (ov_ID old)) ?f (t_overrides s))" for r
    proof -
      from r consider y where "r = ?f y" | "r \<in> set (t_overrides s)" "\<not> clearable org (ov_ID old) r"
        unfolding set_update_where by blast
      then show ?thesis
      proof cases
        case 1
        then show ?thesis by (simp add: ov_active_def)
      next
        case 2
        then show ?thesis using same clr_old by blast
      qed
    qed
    then have "find (\<lambda>r. ov_key r = (org, cert) \<and> ov_active r)
        (update_where (clearable org (ov_ID old)) ?f (t_overrides s)) = None"
      by (simp add: find_None_set)
    with True show ?thesis by (simp add: active_override_def s')
  next
    case False
    have "find (\<lambda>r. ov_key r = (o2, c2) \<and> ov_active r) (update_where (clearable org (ov_ID old)) ?f xs) =
          find (\<lambda>r. ov_key r = (o2, c2) \<and> ov_active r) xs" if "set xs \<subseteq> set (t_overrides s)" for xs
      using that
    proof (induction xs)
      case (Cons x xs)
      then have "clearable org (ov_ID old) x \<Longrightarrow> x = old" by (intro only) auto
      then have "clearable org (ov_ID old) x \<Longrightarrow> ov_key x \<noteq> (o2, c2)" using old(2) False by auto
      moreover have "\<not> ov_active (?f x)" by (simp add: ov_active_def)
      ultimately show ?case using Cons by (cases "clearable org (ov_ID old) x") (simp_all add: update_where_def)
    qed (simp add: update_where_def)
    from this [of "t_overrides s"] False show ?thesis by (auto simp: active_override_def s')
  qed
qed

text \<open>
  C20: When \<open>CreateOverride\<close> returns, the certificate is pinned: its active override is the returned
  one, and its stored ownership says overridden, with high confidence, to the requested active
  service. No other certificate's ownership or override changed, the rules did not, and exactly one
  audit event was added.
\<close>

theorem CreateOverride_effect:
  assumes run: "CreateOverride env inp s = (Inr ov, s')"
  defines "org \<equiv> coi_OrganizationID inp" and "cert \<equiv> TrimSpace (coi_CertificateID inp)"
  shows "active_override org cert s' = Some ov \<and>
    ov_ServiceID ov = TrimSpace (coi_ServiceID inp) \<and> active_named org (ov_ServiceID ov) (t_services s) \<and>
    (\<exists>co. ownership_row org cert s' = Some co \<and> co_Decision co = DecisionOverridden \<and>
       co_ServiceID co = Some (ov_ServiceID ov) \<and> co_OverrideID co = Some (ov_ID ov) \<and>
       co_WinningRuleID co = None \<and> co_Confidence co = ConfidenceHigh) \<and>
    (\<forall>o2 c2. (o2, c2) \<noteq> (org, cert) \<longrightarrow>
       ownership_row o2 c2 s' = ownership_row o2 c2 s \<and> active_override o2 c2 s' = active_override o2 c2 s) \<and>
    t_rules s' = t_rules s \<and> inputs_of s' = inputs_of s \<and>
    (\<exists>e. ev_Action e = ''ownership.overridden'' \<and> audit_events s' = audit_events s @ [e])"
proof -
  from CreateOverride_Inr [OF run, folded org_def cert_def] obtain i now s1 s2 res s3 rec where
    ov: "ov = \<lparr>ov_ID = i, ov_OrganizationID = org, ov_CertificateID = cert,
           ov_ServiceID = TrimSpace (coi_ServiceID inp), ov_Reason = TrimSpace (coi_Reason inp),
           ov_SetBy = coi_ActorUserID inp, ov_SetAt = now, ov_ExpiresAt = coi_ExpiresAt inp,
           ov_ClearedAt = None, ov_ClearedBy = None, ov_ClearedReason = None\<rparr>"
    and act: "overrideActive (Some ov) now"
    and svc: "active_named org (TrimSpace (coi_ServiceID inp)) (t_services s)"
    and s1: "db_of s1 = db_of s" and c: "CreateOwnershipOverride env ov s1 = (Inr (), s2)"
    and d: "rederiveCertificate env org cert (Some ov) now s2 = (Inr res, s3)"
    and e: "ev_Action rec = ''ownership.overridden''"
    and s': "db_of s' = (db_of s3)\<lparr>audit_events := audit_events s3 @ [rec]\<rparr>"
    by (elim exE conjE) (rule that; assumption)
  have key: "ov_key ov = (org, cert)" "ov_active ov" by (simp_all add: ov ov_key_def ov_active_def)
  note cr = create_override_active [OF c key(2)]
  from rederive_run [OF d] obtain sig rules fs x where
    sig: "signals_row org cert s2 = Some sig"
    and s3: "db_of s3 = apply_row org sig (decideOwnership sig (Some ov) rules now) (ownership_row org cert s2) x now (db_of s2)"
    by (elim exE conjE) (rule that; assumption)
  let ?d = "decideOwnership sig (Some ov) rules now"
  have id: "sg_CertificateID sig = cert" by (rule signals_row_id [OF sig])
  have dd: "d_decision ?d = DecisionOverridden" "d_serviceID ?d = Some (ov_ServiceID ov)" "d_overrideID ?d = Some (ov_ID ov)"
    "d_winningRuleID ?d = None" "d_confidence ?d = ConfidenceHigh"
    using act by (simp_all add: decideOwnership_def)
  have row: "ownership_row org cert s' = Some (fst (next_row org cert ?d (ownership_row org cert s2) x now))"
    and others: "(o2, c2) \<noteq> (org, cert) \<Longrightarrow> ownership_row o2 c2 s' = ownership_row o2 c2 s2" for o2 c2
    using apply_row_lookup [of "ownership_row org cert s2" org sig "db_of s2", where d = ?d and x = x and now = now]
      id db_of_fields [OF s'] db_of_fields [OF s3]
    by (simp_all add: ownership_row_def)
  have s2s: "t_ownership s2 = t_ownership s" "t_rules s2 = t_rules s" "inputs_of s2 = inputs_of s"
    "audit_events s2 = audit_events s"
    using db_of_fields [OF cr(2)] db_of_fields [OF s1] by simp_all
  have ov': "active_override o2 c2 s' = active_override o2 c2 s2" for o2 c2
    using db_of_fields(4) [OF s'] db_of_fields(4) [OF s3] by (intro active_override_cong) simp
  have s1s: "active_override o2 c2 s1 = active_override o2 c2 s" for o2 c2
    using db_of_fields(4) [OF s1] by (intro active_override_cong) simp
  have "active_override org cert s' = Some ov" using ov' cr(1) key by simp
  moreover have "active_override o2 c2 s' = active_override o2 c2 s" if "(o2, c2) \<noteq> (org, cert)" for o2 c2
    using ov' cr(1) key s1s that by auto
  moreover have "ownership_row o2 c2 s' = ownership_row o2 c2 s" if "(o2, c2) \<noteq> (org, cert)" for o2 c2
    using others [OF that] s2s(1) by (simp add: ownership_row_def)
  moreover have "t_rules s' = t_rules s" "inputs_of s' = inputs_of s" "audit_events s' = audit_events s @ [rec]"
    using db_of_fields [OF s'] db_of_fields [OF s3] s2s by simp_all
  moreover have "ov_ServiceID ov = TrimSpace (coi_ServiceID inp)" by (simp add: ov)
  ultimately show ?thesis
    using row dd next_row_agrees [of org cert ?d "ownership_row org cert s2" x now] svc e
    by (simp add: agrees_def same_owner_def same_basis_def)
qed

lemma ClearOverride_Inr:
  assumes run: "ClearOverride env inp s = (Inr got, s')"
  defines "org \<equiv> cli_OrganizationID inp" and "cert \<equiv> TrimSpace (cli_CertificateID inp)"
  shows "\<exists>active now s1 s2 res s3 rec. active_override org cert s = Some active \<and> db_of s1 = db_of s \<and>
     ClearOwnershipOverride env org (ov_ID active) (cli_ActorUserID inp) (TrimSpace (cli_Reason inp)) now s1 = (Inr (), s2) \<and>
     rederiveCertificate env org cert None now s2 = (Inr res, s3) \<and>
     find (\<lambda>r. ov_OrganizationID r = org \<and> ov_ID r = ov_ID active) (t_overrides s3) = Some got \<and>
     ev_Action rec = ''ownership.override_cleared'' \<and>
     db_of s' = (db_of s3)\<lparr>audit_events := audit_events s3 @ [rec]\<rparr>"
proof -
  obtain active where act: "active_override org cert s = Some active"
    using run unfolding org_def cert_def
    by (auto simp: ClearOverride_def Let_def bindE_Inr liftE_Inr guardE_Inr GetActiveOwnershipOverride_def
        db_query_Inr throwE_Inr split: option.splits)
  let ?now = "clockAt env (w_clock (stepped s))" and ?actor = "cli_ActorUserID inp" and ?why = "TrimSpace (cli_Reason inp)"
  let ?e = "override_event org ?actor ''ownership.override_cleared'' cert ?now [(''override_id'', JStr (ov_ID active))]"
  have w: "WithTxLockedOwnership env org
          (bindE (mapErrE (\<lambda>e. if e = ErrOwnershipOverrideNotFound then ErrOverrideCertNotFound else e)
             (ClearOwnershipOverride env org (ov_ID active) ?actor ?why ?now)) (\<lambda>_.
           bindE (rederiveCertificate env org cert None ?now) (\<lambda>_.
           bindE (GetOwnershipOverride env org (ov_ID active)) (\<lambda>got.
           bindE (recordOverrideAudit env ?e) (\<lambda>_. retE got)))))
          ((stepped s)\<lparr>w_clock := Suc (w_clock (stepped s))\<rparr>) = (Inr got, s')"
    using run act unfolding org_def cert_def
    by (simp add: ClearOverride_def Let_def bindE_Inr liftE_Inr guardE_Inr GetActiveOwnershipOverride_def
        db_query_Inr Now_Inr)
  from otx.commits [OF w] obtain s1 s6 where 1: "db_of s1 = db_of s" and 6: "db_of s' = db_of s6"
    and body: "bindE (mapErrE (\<lambda>e. if e = ErrOwnershipOverrideNotFound then ErrOverrideCertNotFound else e)
             (ClearOwnershipOverride env org (ov_ID active) ?actor ?why ?now)) (\<lambda>_.
           bindE (rederiveCertificate env org cert None ?now) (\<lambda>_.
           bindE (GetOwnershipOverride env org (ov_ID active)) (\<lambda>got.
           bindE (recordOverrideAudit env ?e) (\<lambda>_. retE got)))) s1 = (Inr got, s6)" by auto
  from body obtain s2 res s3 s5 v where
    c: "ClearOwnershipOverride env org (ov_ID active) ?actor ?why ?now s1 = (Inr (), s2)"
    and d: "rederiveCertificate env org cert None ?now s2 = (Inr res, s3)"
    and g: "find (\<lambda>r. ov_OrganizationID r = org \<and> ov_ID r = ov_ID active) (t_overrides s3) = Some got"
    and a: "Record env ?e (stepped s3) = (Inr v, s5)" and x: "s6 = s5"
    by (auto simp: bindE_Inr retE_Inr mapErrE_Inr recordOverrideAudit_def GetOwnershipOverride_def db_query_Inr
        throwE_Inr split: option.splits)
  from Record_db [OF a] obtain rec where rec: "same_event rec ?e"
    "db_of s5 = (db_of s3)\<lparr>audit_events := audit_events s3 @ [rec]\<rparr>" by auto
  have e: "ev_Action rec = ''ownership.override_cleared''"
    using same_event_fields [OF rec(1)] by (simp add: override_event_def)
  show ?thesis
    by (rule exI [of _ active], rule exI [of _ ?now], rule exI [of _ s1], rule exI [of _ s2], rule exI [of _ res],
        rule exI [of _ s3], rule exI [of _ rec]) (use act 1 c d g e rec(2) 6 x in simp)
qed

text \<open>
  When \<open>ClearOverride\<close> returns, the certificate has no active override, and its stored ownership
  is what the enabled rules decide for its signals without an override. Only that certificate's row
  and override changed, the override row is the one that was active, and exactly one audit event was
  added.
\<close>

theorem ClearOverride_effect:
  assumes wf: "gov_wf s" and run: "ClearOverride env inp s = (Inr got, s')"
  defines "org \<equiv> cli_OrganizationID inp" and "cert \<equiv> TrimSpace (cli_CertificateID inp)"
  shows "(\<exists>old. active_override org cert s = Some old \<and> ov_ID got = ov_ID old) \<and>
    ov_ClearedAt got \<noteq> None \<and> ov_ClearedReason got = Some (TrimSpace (cli_Reason inp)) \<and>
    active_override org cert s' = None \<and>
    (\<exists>sig rules fs co now. signals_row org cert s = Some sig \<and>
       compileRules env (engine_rules org s) = Inr (rules, fs) \<and>
       ownership_row org cert s' = Some co \<and> agrees co (decideOwnership sig None rules now) \<and>
       co_Decision co \<noteq> DecisionOverridden) \<and>
    (\<forall>o2 c2. (o2, c2) \<noteq> (org, cert) \<longrightarrow>
       ownership_row o2 c2 s' = ownership_row o2 c2 s \<and> active_override o2 c2 s' = active_override o2 c2 s) \<and>
    t_rules s' = t_rules s \<and>
    (\<exists>e. ev_Action e = ''ownership.override_cleared'' \<and> audit_events s' = audit_events s @ [e])"
proof -
  from ClearOverride_Inr [OF run, folded org_def cert_def] obtain active now s1 s2 res s3 rec where
    act: "active_override org cert s = Some active" and s1: "db_of s1 = db_of s"
    and c: "ClearOwnershipOverride env org (ov_ID active) (cli_ActorUserID inp) (TrimSpace (cli_Reason inp)) now s1 = (Inr (), s2)"
    and d: "rederiveCertificate env org cert None now s2 = (Inr res, s3)"
    and g: "find (\<lambda>r. ov_OrganizationID r = org \<and> ov_ID r = ov_ID active) (t_overrides s3) = Some got"
    and e: "ev_Action rec = ''ownership.override_cleared''"
    and s': "db_of s' = (db_of s3)\<lparr>audit_events := audit_events s3 @ [rec]\<rparr>"
    by (elim exE conjE) (rule that; assumption)
  have wf1: "gov_wf s1" using wf s1 gov_wf_db_of by metis
  have act1: "active_override org cert s1 = Some active"
    using act db_of_fields(4) [OF s1] by (simp add: active_override_def)
  note cl = clear_override_active [OF wf1 act1 c]
  from rederive_run [OF d] obtain sig rules fs x where
    sig: "signals_row org cert s2 = Some sig" and rules: "compileRules env (engine_rules org s2) = Inr (rules, fs)"
    and s3: "db_of s3 = apply_row org sig (decideOwnership sig None rules now) (ownership_row org cert s2) x now (db_of s2)"
    by (elim exE conjE) (rule that; assumption)
  let ?d = "decideOwnership sig None rules now"
  have id: "sg_CertificateID sig = cert" by (rule signals_row_id [OF sig])
  have s2s: "t_ownership s2 = t_ownership s" "t_rules s2 = t_rules s" "inputs_of s2 = inputs_of s"
    "audit_events s2 = audit_events s"
    using db_of_fields [OF cl(2)] db_of_fields [OF s1] by simp_all
  have row: "ownership_row org cert s' = Some (fst (next_row org cert ?d (ownership_row org cert s2) x now))"
    and others: "(o2, c2) \<noteq> (org, cert) \<Longrightarrow> ownership_row o2 c2 s' = ownership_row o2 c2 s" for o2 c2
    using apply_row_lookup [of "ownership_row org cert s2" org sig "db_of s2", where d = ?d and x = x and now = now]
      id db_of_fields [OF s'] db_of_fields [OF s3] s2s(1)
    by (simp_all add: ownership_row_def)
  have ov': "active_override o2 c2 s' = active_override o2 c2 s2" for o2 c2
    using db_of_fields(4) [OF s'] db_of_fields(4) [OF s3] by (intro active_override_cong) simp
  have s1s: "active_override o2 c2 s1 = active_override o2 c2 s" for o2 c2
    using db_of_fields(4) [OF s1] by (intro active_override_cong) simp
  have ags: "agrees (fst (next_row org cert ?d (ownership_row org cert s2) x now)) ?d" by (rule next_row_agrees)
  have dec: "d_decision ?d \<noteq> DecisionOverridden"
    by (simp add: decideOwnership_def overrideActive_def Let_def split: list.splits)
  have inp: "signals_row org cert s = Some sig" "engine_rules org s2 = engine_rules org s"
    using sig signals_row_cong [OF s2s(3)] s2s(2) by (simp_all add: engine_rules_def)
  have t3: "t_overrides s3 = update_where (clearable org (ov_ID active)) (\<lambda>r. r\<lparr>ov_ClearedAt := Some now,
      ov_ClearedBy := Some (cli_ActorUserID inp), ov_ClearedReason := Some (TrimSpace (cli_Reason inp))\<rparr>) (t_overrides s1)"
    using db_of_fields(4) [OF s3] db_of_fields(4) [OF cl(2)] by simp
  have old: "active \<in> set (t_overrides s1)" "ov_key active = (org, cert)" "ov_active active"
    using act1 by (auto simp: active_override_def dest: find_Some_D)
  have gid: "got \<in> set (t_overrides s3)" "ov_ID got = ov_ID active" using find_Some_D [OF g] by auto
  have "\<not> (got \<in> set (t_overrides s1) \<and> \<not> clearable org (ov_ID active) got)"
    using wf1 old gid(2) by (auto simp: gov_wf_def distinct_map inj_on_def clearable_def ov_key_def)
  then obtain y where "got = y\<lparr>ov_ClearedAt := Some now, ov_ClearedBy := Some (cli_ActorUserID inp),
      ov_ClearedReason := Some (TrimSpace (cli_Reason inp))\<rparr>"
    using gid(1) unfolding t3 set_update_where by blast
  then have got: "ov_ClearedAt got \<noteq> None" "ov_ClearedReason got = Some (TrimSpace (cli_Reason inp))" by simp_all
  have "active_override org cert s' = None" using ov' cl(1) by simp
  moreover have "active_override o2 c2 s' = active_override o2 c2 s" if "(o2, c2) \<noteq> (org, cert)" for o2 c2
    using ov' cl(1) s1s that by auto
  moreover have "t_rules s' = t_rules s" "audit_events s' = audit_events s @ [rec]"
    using db_of_fields [OF s'] db_of_fields [OF s3] s2s by simp_all
  moreover have "\<exists>sig rules fs co now. signals_row org cert s = Some sig \<and>
       compileRules env (engine_rules org s) = Inr (rules, fs) \<and>
       ownership_row org cert s' = Some co \<and> agrees co (decideOwnership sig None rules now) \<and>
       co_Decision co \<noteq> DecisionOverridden"
    by (rule exI [of _ sig], rule exI [of _ rules], rule exI [of _ fs],
        rule exI [of _ "fst (next_row org cert ?d (ownership_row org cert s2) x now)"], rule exI [of _ now])
      (use inp rules row ags dec in \<open>simp add: agrees_def same_owner_def\<close>)
  ultimately show ?thesis using act got gid(2) others e by blast
qed

text \<open>
  An override mutation that returns an error leaves the database as it was: no override, no
  ownership row, no explanation, no audit event of it remains.
\<close>

theorem override_mutations_atomic:
  "fails_clean db_of (CreateOverride env ci) \<and> fails_clean db_of (ClearOverride env li)"
proof (rule conjI)
  show "fails_clean db_of (CreateOverride env ci)"
    unfolding CreateOverride_def Let_def
    by (intro fails_clean_bindE otx.run_fails_clean frame_intros)
  show "fails_clean db_of (ClearOverride env li)"
    unfolding ClearOverride_def Let_def
    by (intro fails_clean_bindE fails_clean_case_option fails_clean_throwE otx.run_fails_clean frame_intros)
qed

section \<open>Witnesses\<close>

definition demo_pin :: CreateOverrideInput where
  "demo_pin = \<lparr>coi_OrganizationID = ''o1'', coi_ActorUserID = ''u1'', coi_CertificateID = ''c1'',
     coi_ServiceID = ''s2'', coi_Reason = ''asked'', coi_ExpiresAt = Some 5000\<rparr>"

definition demo_unpin :: ClearOverrideInput where
  "demo_unpin = \<lparr>cli_OrganizationID = ''o1'', cli_ActorUserID = ''u1'', cli_CertificateID = ''c1'', cli_Reason = ''done''\<rparr>"

definition demo_pinned :: gov_db where
  "demo_pinned = snd (CreateOverride demo_env demo_pin (snd (CreateRule demo_env demo_create demo_db)))"

lemma demo_pin_eval: "\<exists>ov s'. CreateOverride demo_env demo_pin demo_db = (Inr ov, s') \<and> ov_ServiceID ov = ''s2''"
proof -
  have "(case CreateOverride demo_env demo_pin demo_db of (Inr ov, s') \<Rightarrow> ov_ServiceID ov = ''s2'' | _ \<Rightarrow> False)"
    by code_simp
  then show ?thesis by (auto split: prod.splits sum.splits)
qed

lemma demo_unpin_eval: "\<exists>ov s'. ClearOverride demo_env demo_unpin demo_pinned = (Inr ov, s')"
proof -
  have "(case ClearOverride demo_env demo_unpin demo_pinned of (Inr ov, s') \<Rightarrow> True | _ \<Rightarrow> False)"
    by code_simp
  then show ?thesis by (auto split: prod.splits sum.splits)
qed

lemma demo_pinned_wf: "gov_wf demo_pinned"
proof -
  have "keeps gov_wf (CreateOverride demo_env demo_pin)"
    unfolding CreateOverride_def recordOverrideAudit_def Let_def by (intro keep_intros)
  then show ?thesis
    using demo_db_wf keeps_wf_mutations(1) [of demo_env demo_create]
    by (auto simp: demo_pinned_def keeps_def)
qed

theorem CreateOverride_effect_witness:
  "\<exists>ov s' co. CreateOverride demo_env demo_pin demo_db = (Inr ov, s') \<and>
     ownership_row (coi_OrganizationID demo_pin) (TrimSpace (coi_CertificateID demo_pin)) s' = Some co \<and>
     co_ServiceID co = Some ''s2''"
proof -
  obtain ov s' where run: "CreateOverride demo_env demo_pin demo_db = (Inr ov, s')" and "ov_ServiceID ov = ''s2''"
    using demo_pin_eval by blast
  then show ?thesis using CreateOverride_effect [OF run] by auto
qed

theorem ClearOverride_effect_witness:
  "\<exists>ov s'. ClearOverride demo_env demo_unpin demo_pinned = (Inr ov, s') \<and>
     active_override (cli_OrganizationID demo_unpin) (TrimSpace (cli_CertificateID demo_unpin)) s' = None"
proof -
  obtain ov s' where run: "ClearOverride demo_env demo_unpin demo_pinned = (Inr ov, s')"
    using demo_unpin_eval by blast
  then show ?thesis using ClearOverride_effect [OF demo_pinned_wf run] by blast
qed

end
