(* ===== verification/Recompute.thy ===== *)
theory Recompute imports Rederive begin

text \<open>
  The fleet recompute of \<open>internal/governance/ownership\<close> (\<open>recompute.go\<close> and the recompute part of
  \<open>service.go\<close>): the streaming pass over the certificates of an organization, its counters, the
  grouped and rolled-up audit, the run ledger and the three entry points. Pages are read with the
  \<open>page_loop\<close> of theory Tables; the fuel is the number of rows plus one, which the keyset
  interpretations \<open>sigs\<close> and \<open>actives\<close> show is enough.
\<close>

section \<open>The service\<close>

definition DefaultBulkAuditThreshold :: int where "DefaultBulkAuditThreshold = 500"
definition ownershipRecomputePageSize :: int where "ownershipRecomputePageSize = 500"
definition schedulerActorID :: string where "schedulerActorID = ''scheduler''"
definition DefaultExplanationKeepN :: int where "DefaultExplanationKeepN = 10"
definition DefaultExplanationMaxAge :: Duration where "DefaultExplanationMaxAge = 2160 * hour"

record RetentionPolicy =
  rp_KeepN :: int
  rp_MaxAge :: Duration

record ServiceConfig =
  sc_BulkAuditThreshold :: int
  sc_Retention :: RetentionPolicy

record Service =
  sv_bulkAuditThreshold :: int
  sv_retention :: RetentionPolicy
  sv_pageOverride :: int
  sv_prunePerCertOverride :: int

text \<open>The first argument tells whether every dependency is there, the second whether \<open>Repo.Validate\<close> passes.\<close>

definition NewService :: "bool \<Rightarrow> bool \<Rightarrow> ServiceConfig \<Rightarrow> err + Service" where
  "NewService wired repoValid cfg =
     (if \<not> wired then Inl ErrIncompleteService
      else if \<not> repoValid then Inl ErrIncompleteRepo
      else let threshold = (if sc_BulkAuditThreshold cfg \<le> 0 then DefaultBulkAuditThreshold else sc_BulkAuditThreshold cfg);
               r = sc_Retention cfg;
               r = (if rp_KeepN r \<le> 0 then r\<lparr>rp_KeepN := DefaultExplanationKeepN\<rparr> else r);
               r = (if rp_MaxAge r \<le> 0 then r\<lparr>rp_MaxAge := DefaultExplanationMaxAge\<rparr> else r) in
           Inr \<lparr>sv_bulkAuditThreshold = threshold, sv_retention = r, sv_pageOverride = 0, sv_prunePerCertOverride = 0\<rparr>)"

definition pageSize :: "Service \<Rightarrow> nat" where
  "pageSize svc = nat (if sv_pageOverride svc > 0 then sv_pageOverride svc else ownershipRecomputePageSize)"

section \<open>The outcome of a pass\<close>

definition auditSampleCap :: nat where "auditSampleCap = 100"

record expiredOverrideInfo =
  eo_certID :: string
  eo_overrideID :: string
  eo_serviceID :: string

text \<open>Action, from, to, driver.\<close>

type_synonym auditGroupKey = "string \<times> Decision \<times> Decision \<times> string"

record auditGroup =
  ag_count :: int
  ag_samples :: "string list"
  ag_certIDs :: "string list"
  ag_rolledUp :: bool

record recomputeOutcome =
  oc_firstRun :: bool
  oc_evaluated :: int
  oc_changed :: int
  oc_unchanged :: int
  oc_reclassified :: int
  oc_becameOwned :: int
  oc_becameUnowned :: int
  oc_flippedOwner :: int
  oc_createdUnowned :: int
  oc_compileFailures :: "ruleCompileFailure list"
  oc_expiredOverrides :: "expiredOverrideInfo list"
  oc_auditGroups :: "(auditGroupKey \<times> auditGroup) list"

definition grow_group :: "int \<Rightarrow> string \<Rightarrow> auditGroup \<Rightarrow> auditGroup" where
  "grow_group threshold certID g =
     (let g = g\<lparr>ag_count := ag_count g + 1\<rparr>;
          g = (if length (ag_samples g) < auditSampleCap then g\<lparr>ag_samples := ag_samples g @ [certID]\<rparr> else g) in
      if ag_rolledUp g then g
      else if ag_count g > threshold then g\<lparr>ag_rolledUp := True, ag_certIDs := []\<rparr>
      else g\<lparr>ag_certIDs := ag_certIDs g @ [certID]\<rparr>)"

definition empty_group :: auditGroup where
  "empty_group = \<lparr>ag_count = 0, ag_samples = [], ag_certIDs = [], ag_rolledUp = False\<rparr>"

definition addAudit ::
  "string \<Rightarrow> Decision \<Rightarrow> Decision \<Rightarrow> string \<Rightarrow> string \<Rightarrow> int \<Rightarrow> recomputeOutcome \<Rightarrow> recomputeOutcome" where
  "addAudit action from to driver certID threshold out =
     (let key = (action, from, to, driver);
          g = (case map_of (oc_auditGroups out) key of None \<Rightarrow> empty_group | Some g \<Rightarrow> g) in
      out\<lparr>oc_auditGroups := upsert fst (key, grow_group threshold certID g) (oc_auditGroups out)\<rparr>)"

definition accumAudit ::
  "Service \<Rightarrow> string \<Rightarrow> Decision \<Rightarrow> ownershipDecision \<Rightarrow> bool \<Rightarrow> bool \<Rightarrow> recomputeOutcome \<Rightarrow> recomputeOutcome" where
  "accumAudit svc certID from d svcChanged priorAmbiguous out =
     (let fromOwned = (from \<noteq> DecisionUnowned);
          nowOwned = (d_serviceID d \<noteq> None);
          to = d_decision d;
          action =
            (if \<not> fromOwned \<and> nowOwned then
               Some (if to = DecisionAmbiguous then ''ownership.ambiguous_match'' else ''ownership.assigned'')
             else if fromOwned \<and> \<not> nowOwned then Some ''ownership.cleared''
             else if fromOwned \<and> nowOwned \<and> svcChanged then
               Some (if to = DecisionAmbiguous then ''ownership.ambiguous_match'' else ''ownership.flipped'')
             else if fromOwned \<and> nowOwned \<and> \<not> svcChanged then
               (if to = DecisionAmbiguous \<and> \<not> priorAmbiguous then Some ''ownership.ambiguous_match'' else None)
             else None);
          driver = (case d_winningRuleID d of None \<Rightarrow> [] | Some r \<Rightarrow> r) in
      case action of
        None \<Rightarrow> out
      | Some a \<Rightarrow> addAudit a from to driver certID (sv_bulkAuditThreshold svc) out)"

section \<open>One certificate\<close>

definition override_expired :: "CertificateOwnershipOverride option \<Rightarrow> Time \<Rightarrow> bool" where
  "override_expired ov now =
     (case ov of None \<Rightarrow> False | Some r \<Rightarrow> (case ov_ExpiresAt r of None \<Rightarrow> False | Some t \<Rightarrow> \<not> t > now))"

definition autoExpire ::
  "env \<Rightarrow> string \<Rightarrow> string \<Rightarrow> CertificateOwnershipOverride option \<Rightarrow> Time \<Rightarrow> recomputeOutcome \<Rightarrow>
     ('z gov_db_scheme, CertificateOwnershipOverride option \<times> recomputeOutcome) prog" where
  "autoExpire env org certID override now out =
     (case override of
        None \<Rightarrow> retE (None, out)
      | Some ov \<Rightarrow>
          if override_expired (Some ov) now then
            bindE (ClearOwnershipOverride env org (ov_ID ov) ''system'' ''auto-expired'' now) (\<lambda>_.
            retE (None, out\<lparr>oc_expiredOverrides := oc_expiredOverrides out @
              [\<lparr>eo_certID = certID, eo_overrideID = ov_ID ov, eo_serviceID = ov_ServiceID ov\<rparr>]\<rparr>))
          else retE (Some ov, out))"

definition processCert ::
  "env \<Rightarrow> Service \<Rightarrow> string \<Rightarrow> CertificateSignals \<Rightarrow> CertificateOwnership option \<Rightarrow> CertificateOwnershipOverride option \<Rightarrow>
     compiledRule list \<Rightarrow> Time \<Rightarrow> recomputeOutcome \<Rightarrow> ('z gov_db_scheme, recomputeOutcome) prog" where
  "processCert env svc org sig priorRow override rules now out0 =
     (let cert = sg_CertificateID sig; out1 = out0\<lparr>oc_evaluated := oc_evaluated out0 + 1\<rparr> in
      bindE (autoExpire env org cert override now out1) (\<lambda>(override, out).
      (let d = decideOwnership sig override rules now; nowOwned = (d_serviceID d \<noteq> None) in
       case priorRow of
         None \<Rightarrow>
           bindE (NewID env) (\<lambda>expID.
           bindE (writeExplanation env org sig d expID now) (\<lambda>_.
           bindE (UpsertCertificateOwnership env (buildOwnership org cert d expID now now now)) (\<lambda>_.
           if d_decision d = DecisionUnowned then
             retE (out\<lparr>oc_unchanged := oc_unchanged out + 1, oc_createdUnowned := oc_createdUnowned out + 1\<rparr>)
           else
             retE (accumAudit svc cert DecisionUnowned d False False
               (out\<lparr>oc_changed := oc_changed out + 1, oc_becameOwned := oc_becameOwned out + 1\<rparr>)))))
       | Some prior \<Rightarrow>
           (let priorOwned = (co_ServiceID prior \<noteq> None);
                sameService = samePtr (co_ServiceID prior) (d_serviceID d);
                ownerChanged = (co_Decision prior \<noteq> d_decision d \<or> \<not> sameService) in
            if \<not> ownerChanged then
              (let basisChanged = (\<not> samePtr (co_WinningRuleID prior) (d_winningRuleID d) \<or>
                     \<not> samePtr (co_OverrideID prior) (d_overrideID d) \<or> co_Confidence prior \<noteq> d_confidence d) in
               if \<not> basisChanged then
                 bindE (UpsertCertificateOwnership env (prior\<lparr>co_LastEvaluatedAt := now\<rparr>)) (\<lambda>_.
                 retE (out\<lparr>oc_unchanged := oc_unchanged out + 1\<rparr>))
               else
                 bindE (NewID env) (\<lambda>expID.
                 bindE (writeExplanation env org sig d expID now) (\<lambda>_.
                 bindE (UpsertCertificateOwnership env
                   (buildOwnership org cert d expID (co_FirstAssignedAt prior) now (co_LastChangedAt prior))) (\<lambda>_.
                 retE (out\<lparr>oc_changed := oc_changed out + 1, oc_reclassified := oc_reclassified out + 1\<rparr>)))))
            else
              (let firstAssigned = (if \<not> priorOwned \<and> nowOwned then now else co_FirstAssignedAt prior);
                   svcChanged = (priorOwned \<and> nowOwned \<and> \<not> sameService) in
               bindE (NewID env) (\<lambda>expID.
               bindE (writeExplanation env org sig d expID now) (\<lambda>_.
               bindE (UpsertCertificateOwnership env (buildOwnership org cert d expID firstAssigned now now)) (\<lambda>_.
               (let out = out\<lparr>oc_changed := oc_changed out + 1\<rparr>;
                    out = (if \<not> priorOwned \<and> nowOwned then out\<lparr>oc_becameOwned := oc_becameOwned out + 1\<rparr>
                           else if priorOwned \<and> \<not> nowOwned then out\<lparr>oc_becameUnowned := oc_becameUnowned out + 1\<rparr>
                           else if svcChanged then out\<lparr>oc_flippedOwner := oc_flippedOwner out + 1\<rparr>
                           else out) in
                retE (accumAudit svc cert (co_Decision prior) d svcChanged (co_Decision prior = DecisionAmbiguous) out))))))))))"

section \<open>The streaming pass\<close>

text \<open>The map keyed by certificate id is an association list with one entry per key.\<close>

definition loadActiveOverrides ::
  "env \<Rightarrow> Service \<Rightarrow> string \<Rightarrow> ('z gov_db_scheme, (string \<times> CertificateOwnershipOverride) list) prog" where
  "loadActiveOverrides env svc org =
     bindE (getE (\<lambda>s. Suc (length (active_rows org s)))) (\<lambda>fuel.
     page_loop fuel (\<lambda>cursor. ListActiveOwnershipOverridesPaged env org cursor (pageSize svc)) ov_CertificateID (pageSize svc)
       (\<lambda>page m. retE (fold (\<lambda>ov. upsert fst (ov_CertificateID ov, ov)) page m)) [] [])"

definition decidePage ::
  "env \<Rightarrow> Service \<Rightarrow> string \<Rightarrow> compiledRule list \<Rightarrow> (string \<times> CertificateOwnershipOverride) list \<Rightarrow> Time \<Rightarrow>
     CertificateSignals list \<Rightarrow> recomputeOutcome \<Rightarrow> ('z gov_db_scheme, recomputeOutcome) prog" where
  "decidePage env svc org rules overrides now page out =
     bindE (GetCertificateOwnershipByCertificateIDs env org (map sg_CertificateID page)) (\<lambda>priorByID.
     foldE (\<lambda>sig out. processCert env svc org sig (map_of priorByID (sg_CertificateID sig))
              (map_of overrides (sg_CertificateID sig)) rules now out)
       page (if priorByID \<noteq> [] then out\<lparr>oc_firstRun := False\<rparr> else out))"

definition streamAndDecide ::
  "env \<Rightarrow> Service \<Rightarrow> string \<Rightarrow> compiledRule list \<Rightarrow> (string \<times> CertificateOwnershipOverride) list \<Rightarrow> Time \<Rightarrow>
     recomputeOutcome \<Rightarrow> ('z gov_db_scheme, recomputeOutcome) prog" where
  "streamAndDecide env svc org rules overrides now out =
     bindE (getE (\<lambda>s. Suc (length (org_signals org s)))) (\<lambda>fuel.
     page_loop fuel (\<lambda>cursor. ListCertificateSignalsPaged env org cursor (pageSize svc)) sg_CertificateID (pageSize svc)
       (decidePage env svc org rules overrides now) [] out)"

section \<open>Audit emission\<close>

definition system_event :: "string \<Rightarrow> string \<Rightarrow> RecomputeActorKind \<Rightarrow> Time \<Rightarrow> string \<Rightarrow> string \<Rightarrow> string \<Rightarrow> json \<Rightarrow> Event" where
  "system_event org actor actorKind now action targetType targetID md =
     \<lparr>ev_ID = [], ev_OrganizationID = org, ev_OccurredAt = now, ev_Actor = actor,
      ev_ActorType = actor_kind_string actorKind, ev_Action = action, ev_TargetType = targetType,
      ev_TargetID = targetID, ev_RequestID = [], ev_Metadata = md\<rparr>"

fun emit_all :: "env \<Rightarrow> Event list \<Rightarrow> ('z world_scheme, unit) prog" where
  "emit_all env [] = retE ()"
| "emit_all env (e # es) = bindE (Record env e) (\<lambda>_. emit_all env es)"

definition compile_failure_event :: "string \<Rightarrow> string \<Rightarrow> RecomputeActorKind \<Rightarrow> string \<Rightarrow> Time \<Rightarrow> ruleCompileFailure \<Rightarrow> Event" where
  "compile_failure_event org actor actorKind runID now f =
     system_event org actor actorKind now ''ownership.rule_compile_failed'' ''ownership_rule'' (cf_RuleID f)
       (JObj [(''severity'', JStr ''security''), (''run_id'', JStr runID), (''reason'', JStr (cf_Reason f))])"

definition emitCompileFailures ::
  "env \<Rightarrow> string \<Rightarrow> string \<Rightarrow> RecomputeActorKind \<Rightarrow> string \<Rightarrow> Time \<Rightarrow> ruleCompileFailure list \<Rightarrow> ('z world_scheme, unit) prog" where
  "emitCompileFailures env org actor actorKind runID now failures =
     emit_all env (map (compile_failure_event org actor actorKind runID now) failures)"

definition expired_event :: "string \<Rightarrow> string \<Rightarrow> RecomputeActorKind \<Rightarrow> string \<Rightarrow> Time \<Rightarrow> expiredOverrideInfo \<Rightarrow> Event" where
  "expired_event org actor actorKind runID now e =
     system_event org actor actorKind now ''ownership.override_expired'' ''certificate'' (eo_certID e)
       (JObj [(''severity'', JStr ''security''), (''run_id'', JStr runID), (''override_id'', JStr (eo_overrideID e)),
              (''service_id'', JStr (eo_serviceID e)), (''reason'', JStr ''auto-expired'')])"

definition emitExpiredOverrides ::
  "env \<Rightarrow> string \<Rightarrow> string \<Rightarrow> RecomputeActorKind \<Rightarrow> string \<Rightarrow> Time \<Rightarrow> recomputeOutcome \<Rightarrow> ('z world_scheme, unit) prog" where
  "emitExpiredOverrides env org actor actorKind runID now out =
     emit_all env (map (expired_event org actor actorKind runID now) (oc_expiredOverrides out))"

definition bulkActionFor :: "string \<Rightarrow> string" where
  "bulkActionFor action =
     (if action = ''ownership.assigned'' then ''ownership.bulk_assigned''
      else if action = ''ownership.cleared'' then ''ownership.bulk_cleared''
      else if action = ''ownership.flipped'' then ''ownership.bulk_flipped''
      else if action = ''ownership.ambiguous_match'' then ''ownership.bulk_ambiguous_match''
      else ''ownership.bulk_changed'')"

definition group_events ::
  "string \<Rightarrow> string \<Rightarrow> RecomputeActorKind \<Rightarrow> string \<Rightarrow> Time \<Rightarrow> auditGroupKey \<times> auditGroup \<Rightarrow> Event list" where
  "group_events org actor actorKind runID now kg =
     (case kg of ((action, from, to, driver), g) \<Rightarrow>
        if ag_rolledUp g then
          [system_event org actor actorKind now (bulkActionFor action) ''organization'' org
             (JObj ([(''severity'', JStr ''security''), (''organization_id'', JStr org), (''run_id'', JStr runID),
                     (''count'', JNum (ag_count g)), (''from_decision'', JStr (decision_string from)),
                     (''to_decision'', JStr (decision_string to))] @ omit_str ''driver_rule_id'' driver @
                    [(''sample_cert_ids'', JArr (map JStr (ag_samples g)))]))]
        else
          map (\<lambda>certID. system_event org actor actorKind now action ''certificate'' certID
             (JObj ([(''severity'', JStr ''security''), (''organization_id'', JStr org), (''run_id'', JStr runID),
                     (''from_decision'', JStr (decision_string from)), (''to_decision'', JStr (decision_string to))] @
                    omit_str ''driver_rule_id'' driver))) (ag_certIDs g))"

definition group_order :: "auditGroupKey \<times> auditGroup \<Rightarrow> string \<times> string \<times> string \<times> string" where
  "group_order kg = (case fst kg of (action, from, to, driver) \<Rightarrow>
     (action, decision_string from, decision_string to, driver))"

definition emitAuditGroups ::
  "env \<Rightarrow> string \<Rightarrow> string \<Rightarrow> RecomputeActorKind \<Rightarrow> string \<Rightarrow> Time \<Rightarrow> recomputeOutcome \<Rightarrow> ('z world_scheme, unit) prog" where
  "emitAuditGroups env org actor actorKind runID now out =
     emit_all env (concat (map (group_events org actor actorKind runID now) (sort_key group_order (oc_auditGroups out))))"

definition recomputed_event :: "string \<Rightarrow> string \<Rightarrow> RecomputeActorKind \<Rightarrow> string \<Rightarrow> Time \<Rightarrow> recomputeOutcome \<Rightarrow> Event" where
  "recomputed_event org actor actorKind runID now out =
     system_event org actor actorKind now ''governance.recomputed'' ''organization'' org
       (JObj ([(''severity'', JStr ''security''), (''organization_id'', JStr org), (''run_id'', JStr runID),
               (''first_run'', JBool (oc_firstRun out)), (''created_unowned_rows'', JNum (oc_createdUnowned out)),
               (''evaluated_certificates'', JNum (oc_evaluated out)), (''changed_certificates'', JNum (oc_changed out)),
               (''unchanged_certificates'', JNum (oc_unchanged out)), (''reclassified'', JNum (oc_reclassified out)),
               (''became_owned'', JNum (oc_becameOwned out)), (''became_unowned'', JNum (oc_becameUnowned out)),
               (''flipped_owner'', JNum (oc_flippedOwner out)), (''engine_version'', JNum engineVersion)] @
              omit_arr ''rule_compile_failures'' (map (\<lambda>f. JObj [(''rule_id'', JStr (cf_RuleID f)), (''reason'', JStr (cf_Reason f))])
                (oc_compileFailures out))))"

definition emitRecomputed ::
  "env \<Rightarrow> string \<Rightarrow> string \<Rightarrow> RecomputeActorKind \<Rightarrow> string \<Rightarrow> Time \<Rightarrow> recomputeOutcome \<Rightarrow> ('z world_scheme, unit) prog" where
  "emitRecomputed env org actor actorKind runID now out = Record env (recomputed_event org actor actorKind runID now out)"

section \<open>The transaction and its entry points\<close>

record RecomputeResult =
  re_RunID :: string
  re_FirstRun :: bool
  re_EvaluatedCertificates :: int
  re_ChangedCertificates :: int
  re_UnchangedCertificates :: int
  re_Reclassified :: int
  re_BecameOwned :: int
  re_BecameUnowned :: int
  re_FlippedOwner :: int
  re_CreatedUnownedRows :: int
  re_ExpiredOverrides :: int
  re_RuleCompileFailures :: int
  re_EngineVersion :: int

definition new_outcome :: "ruleCompileFailure list \<Rightarrow> recomputeOutcome" where
  "new_outcome compileFailures =
     \<lparr>oc_firstRun = True, oc_evaluated = 0, oc_changed = 0, oc_unchanged = 0, oc_reclassified = 0,
      oc_becameOwned = 0, oc_becameUnowned = 0, oc_flippedOwner = 0, oc_createdUnowned = 0,
      oc_compileFailures = compileFailures, oc_expiredOverrides = [], oc_auditGroups = []\<rparr>"

definition new_run :: "string \<Rightarrow> string \<Rightarrow> string \<Rightarrow> RecomputeActorKind \<Rightarrow> Time \<Rightarrow> GovernanceRecomputeRun" where
  "new_run runID org actor actorKind now =
     \<lparr>rr_ID = runID, rr_OrganizationID = org, rr_Kind = RecomputeKindOwnership, rr_StartedAt = now,
      rr_FinishedAt = None, rr_Actor = actor, rr_ActorKind = actorKind, rr_Succeeded = None, rr_ErrorClass = [],
      rr_EvaluatedCount = 0, rr_ChangedCount = 0, rr_UnchangedCount = 0, rr_BecameOwnedCount = 0,
      rr_BecameUnownedCount = 0, rr_FlippedOwnerCount = 0, rr_EngineVersion = engineVersion\<rparr>"

definition finished_run :: "recomputeOutcome \<Rightarrow> Time \<Rightarrow> GovernanceRecomputeRun \<Rightarrow> GovernanceRecomputeRun" where
  "finished_run out finished run =
     run\<lparr>rr_FinishedAt := Some finished, rr_Succeeded := Some True, rr_EvaluatedCount := oc_evaluated out,
         rr_ChangedCount := oc_changed out, rr_UnchangedCount := oc_unchanged out,
         rr_BecameOwnedCount := oc_becameOwned out, rr_BecameUnownedCount := oc_becameUnowned out,
         rr_FlippedOwnerCount := oc_flippedOwner out\<rparr>"

definition recompute_result :: "string \<Rightarrow> recomputeOutcome \<Rightarrow> RecomputeResult" where
  "recompute_result runID out =
     \<lparr>re_RunID = runID, re_FirstRun = oc_firstRun out, re_EvaluatedCertificates = oc_evaluated out,
      re_ChangedCertificates = oc_changed out, re_UnchangedCertificates = oc_unchanged out,
      re_Reclassified = oc_reclassified out, re_BecameOwned = oc_becameOwned out,
      re_BecameUnowned = oc_becameUnowned out, re_FlippedOwner = oc_flippedOwner out,
      re_CreatedUnownedRows = oc_createdUnowned out, re_ExpiredOverrides = int (length (oc_expiredOverrides out)),
      re_RuleCompileFailures = int (length (oc_compileFailures out)), re_EngineVersion = engineVersion\<rparr>"

definition runRecomputeTx ::
  "env \<Rightarrow> Service \<Rightarrow> string \<Rightarrow> string \<Rightarrow> RecomputeActorKind \<Rightarrow> Time \<Rightarrow> ('z gov_db_scheme, RecomputeResult) prog" where
  "runRecomputeTx env svc org actor actorKind now =
     bindE (NewID env) (\<lambda>runID.
     bindE (StartRecomputeRun env (new_run runID org actor actorKind now)) (\<lambda>_.
     bindE (ListOwnershipRulesForEngine env org) (\<lambda>rawRules.
     bindE (liftE (compileRules env rawRules)) (\<lambda>(rules, compileFailures).
     bindE (loadActiveOverrides env svc org) (\<lambda>overrides.
     bindE (streamAndDecide env svc org rules overrides now (new_outcome compileFailures)) (\<lambda>out.
     bindE (emitCompileFailures env org actor actorKind runID now compileFailures) (\<lambda>_.
     bindE (emitExpiredOverrides env org actor actorKind runID now out) (\<lambda>_.
     bindE (emitAuditGroups env org actor actorKind runID now out) (\<lambda>_.
     bindE (emitRecomputed env org actor actorKind runID now out) (\<lambda>_.
     bindE (Now env) (\<lambda>finished.
     bindE (FinishRecomputeRun env (finished_run out finished (new_run runID org actor actorKind now))) (\<lambda>_.
     retE (recompute_result runID out)))))))))))))"

definition recompute ::
  "env \<Rightarrow> Service \<Rightarrow> string \<Rightarrow> string \<Rightarrow> RecomputeActorKind \<Rightarrow> ('z gov_db_scheme, RecomputeResult) prog" where
  "recompute env svc org actor actorKind =
     bindE (Now env) (\<lambda>now.
     WithTxLockedOwnershipRepeatableRead env org (runRecomputeTx env svc org actor actorKind now))"

definition recompute_actor :: "string \<Rightarrow> string \<times> RecomputeActorKind" where
  "recompute_actor actorUserID =
     (let actor = TrimSpace actorUserID in
      if actor = [] then (''system'', RecomputeActorSystem) else (actor, RecomputeActorUser))"

definition Recompute :: "env \<Rightarrow> Service \<Rightarrow> string \<Rightarrow> string \<Rightarrow> ('z gov_db_scheme, RecomputeResult) prog" where
  "Recompute env svc org actorUserID =
     bindE (guardE (TrimSpace org \<noteq> []) ErrRequired) (\<lambda>_.
     case recompute_actor actorUserID of (actor, actorKind) \<Rightarrow> recompute env svc org actor actorKind)"

definition RecomputeScheduled :: "env \<Rightarrow> Service \<Rightarrow> string \<Rightarrow> ('z gov_db_scheme, RecomputeResult) prog" where
  "RecomputeScheduled env svc org =
     bindE (guardE (TrimSpace org \<noteq> []) ErrRequired) (\<lambda>_.
     recompute env svc org schedulerActorID RecomputeActorSystem)"

definition RecomputeNoWait :: "env \<Rightarrow> Service \<Rightarrow> string \<Rightarrow> string \<Rightarrow> ('z gov_db_scheme, RecomputeResult) prog" where
  "RecomputeNoWait env svc org actorUserID =
     bindE (guardE (TrimSpace org \<noteq> []) ErrRequired) (\<lambda>_.
     case recompute_actor actorUserID of (actor, actorKind) \<Rightarrow>
     bindE (Now env) (\<lambda>now.
     bindE (TryWithTxLockedOwnershipRepeatableRead env org (runRecomputeTx env svc org actor actorKind now)) (\<lambda>r.
     case r of None \<Rightarrow> throwE ErrRecomputeInProgress | Some result \<Rightarrow> retE result)))"

section \<open>One certificate: the same row machine\<close>

lemma overrideActive_iff: "overrideActive ov now \<longleftrightarrow> ov \<noteq> None \<and> \<not> override_expired ov now"
  by (auto simp: overrideActive_def override_expired_def split: option.splits)

text \<open>Dropping an expired override does not change the decision.\<close>

lemma decide_expired: "override_expired ov now \<Longrightarrow> decideOwnership sig ov rules now = decideOwnership sig None rules now"
  by (simp add: decideOwnership_def overrideActive_iff)

lemma autoExpire_Inr:
  assumes "autoExpire env org cert ov now out s = (Inr (ov', out'), s')"
  shows "(\<not> override_expired ov now \<and> ov' = ov \<and> out' = out \<and> s' = s) \<or>
    (\<exists>r. ov = Some r \<and> override_expired ov now \<and> ov' = None \<and>
       out' = out\<lparr>oc_expiredOverrides := oc_expiredOverrides out @
              [\<lparr>eo_certID = cert, eo_overrideID = ov_ID r, eo_serviceID = ov_ServiceID r\<rparr>]\<rparr> \<and>
       ClearOwnershipOverride env org (ov_ID r) ''system'' ''auto-expired'' now s = (Inr (), s'))"
  using assms
  by (auto simp: autoExpire_def run_simps override_expired_def split: option.splits if_splits)

lemma ClearOwnershipOverride_frame:
  assumes "ClearOwnershipOverride env org i a b c s = (Inr u, s')"
  shows "t_ownership s' = t_ownership s" "t_explanations s' = t_explanations s" "t_rules s' = t_rules s"
    "t_runs s' = t_runs s" "inputs_of s' = inputs_of s" "audit_events s' = audit_events s"
  using assms by (auto simp: ClearOwnershipOverride_def exec_hit_Inr)

definition same_counters :: "recomputeOutcome \<Rightarrow> recomputeOutcome \<Rightarrow> bool" where
  "same_counters o1 o2 \<longleftrightarrow> oc_evaluated o1 = oc_evaluated o2 \<and> oc_changed o1 = oc_changed o2 \<and>
     oc_unchanged o1 = oc_unchanged o2 \<and> oc_reclassified o1 = oc_reclassified o2 \<and>
     oc_becameOwned o1 = oc_becameOwned o2 \<and> oc_becameUnowned o1 = oc_becameUnowned o2 \<and>
     oc_flippedOwner o1 = oc_flippedOwner o2 \<and> oc_createdUnowned o1 = oc_createdUnowned o2 \<and>
     oc_firstRun o1 = oc_firstRun o2 \<and> oc_expiredOverrides o1 = oc_expiredOverrides o2 \<and>
     oc_compileFailures o1 = oc_compileFailures o2"

lemma accumAudit_counters: "same_counters (accumAudit svc c f d a b out) out"
  by (simp add: accumAudit_def Let_def addAudit_def same_counters_def split: option.splits)

text \<open>The outcome a certificate adds, as a function of its decision and prior row.\<close>

definition tally :: "Service \<Rightarrow> string \<Rightarrow> ownershipDecision \<Rightarrow> CertificateOwnership option \<Rightarrow> recomputeOutcome \<Rightarrow> recomputeOutcome" where
  "tally svc cert d prior out =
     (case prior of
        None \<Rightarrow>
          if d_decision d = DecisionUnowned then
            out\<lparr>oc_unchanged := oc_unchanged out + 1, oc_createdUnowned := oc_createdUnowned out + 1\<rparr>
          else accumAudit svc cert DecisionUnowned d False False
            (out\<lparr>oc_changed := oc_changed out + 1, oc_becameOwned := oc_becameOwned out + 1\<rparr>)
      | Some p \<Rightarrow>
          if same_owner p d then
            if same_basis p d then out\<lparr>oc_unchanged := oc_unchanged out + 1\<rparr>
            else out\<lparr>oc_changed := oc_changed out + 1, oc_reclassified := oc_reclassified out + 1\<rparr>
          else
            let owned = (co_ServiceID p \<noteq> None); now_owned = (d_serviceID d \<noteq> None);
                flip = (owned \<and> now_owned \<and> co_ServiceID p \<noteq> d_serviceID d);
                out = out\<lparr>oc_changed := oc_changed out + 1\<rparr> in
            accumAudit svc cert (co_Decision p) d flip (co_Decision p = DecisionAmbiguous)
              (if \<not> owned \<and> now_owned then out\<lparr>oc_becameOwned := oc_becameOwned out + 1\<rparr>
               else if owned \<and> \<not> now_owned then out\<lparr>oc_becameUnowned := oc_becameUnowned out + 1\<rparr>
               else if flip then out\<lparr>oc_flippedOwner := oc_flippedOwner out + 1\<rparr> else out))"

lemma processCert_run:
  assumes run: "processCert env svc org sig prior ov rules now out s = (Inr out', s')"
  shows "\<exists>x ov1 out1 s1. autoExpire env org (sg_CertificateID sig) ov now (out\<lparr>oc_evaluated := oc_evaluated out + 1\<rparr>) s = (Inr (ov1, out1), s1) \<and>
     out' = tally svc (sg_CertificateID sig) (decideOwnership sig ov rules now) prior out1 \<and>
     (snd (next_row org (sg_CertificateID sig) (decideOwnership sig ov rules now) prior x now) \<longrightarrow>
        (\<forall>e \<in> set (t_explanations s1). ex_ID e \<noteq> x)) \<and>
     db_of s' = apply_row org sig (decideOwnership sig ov rules now) prior x now (db_of s1)"
proof -
  let ?c = "sg_CertificateID sig"
  obtain ov1 out1 s1 where a: "autoExpire env org ?c ov now (out\<lparr>oc_evaluated := oc_evaluated out + 1\<rparr>) s = (Inr (ov1, out1), s1)"
    using run by (auto simp: processCert_def Let_def bindE_Inr)
  have dd: "decideOwnership sig ov1 rules now = decideOwnership sig ov rules now"
    using autoExpire_Inr [OF a] decide_expired by auto
  let ?d = "decideOwnership sig ov rules now"
  have first: "bindE (autoExpire env org ?c ov now (out\<lparr>oc_evaluated := oc_evaluated out + 1\<rparr>)) k s = k (ov1, out1) s1"
    for k :: "_ \<Rightarrow> (_, recomputeOutcome) prog"
    using a by (simp add: bindE_def)
  note unf = processCert_def Let_def first prod.case dd
  have "\<exists>x. out' = tally svc ?c ?d prior out1 \<and>
     (snd (next_row org ?c ?d prior x now) \<longrightarrow> (\<forall>e \<in> set (t_explanations s1). ex_ID e \<noteq> x)) \<and>
     db_of s' = apply_row org sig ?d prior x now (db_of s1)"
  proof (cases prior)
    case None
    have "bindE (NewID env) (\<lambda>x. bindE (writeExplanation env org sig ?d x now) (\<lambda>_.
       bindE (UpsertCertificateOwnership env (buildOwnership org ?c ?d x now now now)) (\<lambda>_. retE (tally svc ?c ?d prior out1)))) s1
       = (Inr out', s')"
      using run by (cases "d_decision ?d = DecisionUnowned") (simp_all add: unf None tally_def)
    from write_fresh [OF this] None show ?thesis
      by (elim exE conjE) (intro exI conjI, auto simp: apply_row_def next_row_def)
  next
    case (Some p)
    show ?thesis
    proof (cases "same_owner p ?d")
      case owner: True
      then have o: "co_Decision p = d_decision ?d" "co_ServiceID p = d_serviceID ?d" by (simp_all add: same_owner_def)
      show ?thesis
      proof (cases "same_basis p ?d")
        case True
        have "bindE (UpsertCertificateOwnership env (p\<lparr>co_LastEvaluatedAt := now\<rparr>)) (\<lambda>_. retE (tally svc ?c ?d prior out1)) s1 = (Inr out', s')"
          using run True by (simp add: unf Some o tally_def owner True same_basis_def)
        from write_seen [OF this] Some owner True show ?thesis by (auto simp: apply_row_def next_row_def)
      next
        case False
        have nb: "(co_OverrideID p = d_overrideID ?d \<and> co_WinningRuleID p = d_winningRuleID ?d \<and> co_Confidence p = d_confidence ?d) = False"
          "(co_WinningRuleID p = d_winningRuleID ?d \<and> co_OverrideID p = d_overrideID ?d \<and> co_Confidence p = d_confidence ?d) = False"
          using False by (auto simp: same_basis_def)
        have "bindE (NewID env) (\<lambda>x. bindE (writeExplanation env org sig ?d x now) (\<lambda>_.
          bindE (UpsertCertificateOwnership env
            (buildOwnership org ?c ?d x (co_FirstAssignedAt p) now (co_LastChangedAt p))) (\<lambda>_. retE (tally svc ?c ?d prior out1)))) s1 = (Inr out', s')"
          using run by (simp add: unf Some o tally_def owner False nb)
        from write_fresh [OF this] Some owner False show ?thesis
          by (elim exE conjE) (intro exI conjI, auto simp: apply_row_def next_row_def)
      qed
    next
      case False
      let ?first = "if co_ServiceID p = None \<and> d_serviceID ?d \<noteq> None then now else co_FirstAssignedAt p"
      have neq: "(co_Decision p = d_decision ?d \<and> co_ServiceID p = d_serviceID ?d) = False"
        using False by (simp add: same_owner_def)
      have "bindE (NewID env) (\<lambda>x. bindE (writeExplanation env org sig ?d x now) (\<lambda>_.
          bindE (UpsertCertificateOwnership env (buildOwnership org ?c ?d x ?first now now)) (\<lambda>_. retE (tally svc ?c ?d prior out1)))) s1 = (Inr out', s')"
        using run neq
        by (cases "co_ServiceID p"; cases "d_serviceID ?d"; cases "co_ServiceID p = d_serviceID ?d")
          (simp_all add: unf Some tally_def False)
      from write_fresh [OF this] Some False show ?thesis
        by (elim exE conjE) (intro exI conjI, auto simp: apply_row_def next_row_def)
    qed
  qed
  with a show ?thesis by blast
qed

section \<open>The whole pass\<close>

text \<open>
  The first page asks for keys above the empty string, so a row with an empty certificate id would
  not be read. Certificate identifiers are never empty (they are minted by \<open>ids.New\<close>).
\<close>

definition ids_ok :: "'z gov_db_scheme \<Rightarrow> bool" where
  "ids_ok s \<longleftrightarrow> (\<forall>c \<in> set (t_certificates s). ce_ID c \<noteq> []) \<and> (\<forall>r \<in> set (t_overrides s). ov_CertificateID r \<noteq> [])"

lemma Nil_less_string: "([]::string) < x \<longleftrightarrow> x \<noteq> []"
  by (cases x) auto

lemma pageSize_pos: "0 < pageSize svc"
  by (simp add: pageSize_def ownershipRecomputePageSize_def)

lemma sigs_after_start: "ids_ok s \<Longrightarrow> sigs.after org [] s = org_signals org s"
  by (auto simp: sigs.after_def filter_id_conv org_signals_def Nil_less_string ids_ok_def)

lemma actives_after_start: "ids_ok s \<Longrightarrow> actives.after org [] s = active_rows org s"
  by (auto simp: actives.after_def filter_id_conv active_rows_def Nil_less_string ids_ok_def)

lemma fold_upsert_fresh:
  "distinct (map fst m @ map k xs) \<Longrightarrow> fold (\<lambda>x. upsert fst (k x, x)) xs m = m @ map (\<lambda>x. (k x, x)) xs"
proof (induction xs arbitrary: m)
  case (Cons x xs)
  then have "k x \<notin> fst ` set m" by auto
  then have "upsert fst (k x, x) m = m @ [(k x, x)]" by (simp add: upsert_def)
  with Cons show ?case by auto
qed simp

lemma map_of_keyed: "map_of (map (\<lambda>x. (k x, x)) xs) c = find (\<lambda>x. k x = c) xs"
  by (induction xs) auto

lemma distinct_active_rows: "gov_wf s \<Longrightarrow> distinct (map ov_CertificateID (active_rows org s))"
proof -
  assume "gov_wf s"
  from one_active_org [OF this, of org] show ?thesis
    by (simp add: active_rows_def distinct_map)
qed

lemma leaves_loadActiveOverrides [frame_intros]: "leaves db_of (loadActiveOverrides env svc org)"
  unfolding loadActiveOverrides_def by (intro frame_intros)

lemma loadActiveOverrides_Inr:
  assumes run: "loadActiveOverrides env svc org s = (Inr m, s')" and wf: "gov_wf s" and ids: "ids_ok s"
  shows "map_of m c = active_override org c s"
proof -
  let ?R = "active_rows org s" and ?add = "fold (\<lambda>ov. upsert fst (ov_CertificateID ov, ov))"
  let ?P = "\<lambda>rest m t. gov_wf t \<and> active_rows org t = ?R \<and> (\<exists>seen. ?R = seen @ rest \<and> m = ?add seen [])"
  have "?P [] m s'"
  proof (rule actives.loop_rule [where P = ?P and R = ?R and n = "pageSize svc" and cur = "[]" and b = "[]" and s = s])
    show "page_loop (Suc (length ?R)) (\<lambda>c. ListActiveOwnershipOverridesPaged env org c (pageSize svc)) ov_CertificateID
      (pageSize svc) (\<lambda>page m. retE (?add page m)) [] [] s = (Inr m, s')"
      using run by (simp add: loadActiveOverrides_def bindE_Inr getE_Inr)
    show "?P (actives.after org [] s) [] s" using wf by (simp add: actives_after_start [OF ids])
    show "?P rest b t'" if "?P rest b t" "ListActiveOwnershipOverridesPaged env org cu (pageSize svc) t = (Inr page, t')"
      for rest b t cu page t'
      using that by (auto simp: ListActiveOwnershipOverridesPaged_def db_query_Inr)
    show "?P rest b' t'" if "?P (page @ rest) b t" "page \<noteq> []" "retE (?add page b) t = (Inr b', t')"
      for page rest b t b' t'
    proof -
      from that(1) obtain seen where "?R = (seen @ page) @ rest" "b = ?add seen []" by auto
      with that show ?thesis by (intro conjI exI [of _ "seen @ page"]) (auto simp: retE_Inr)
    qed
  qed (auto simp: pageSize_pos)
  then have "m = ?add ?R []" by simp
  also have "\<dots> = map (\<lambda>ov. (ov_CertificateID ov, ov)) ?R"
    using fold_upsert_fresh [of "[]" ov_CertificateID ?R] distinct_active_rows [OF wf] by simp
  finally show ?thesis using map_of_keyed [of ov_CertificateID ?R] active_override_of_rows [OF wf] by simp
qed

lemma keeps_wf_processCert [keep_intros]: "keeps gov_wf (processCert env svc org sig p ov rules now out)"
  unfolding processCert_def autoExpire_def writeExplanation_def Let_def
  by (intro keep_intros)

lemma distinct_signal_ids: "gov_wf s \<Longrightarrow> distinct (map sg_CertificateID (org_signals org s))"
  by (auto simp: org_signals_def o_def gov_wf_def distinct_map intro: inj_on_subset)

text \<open>The decision a pass makes for a certificate: the stored signals, the override active at the start, the rules.\<close>

definition pass_decision ::
  "string \<Rightarrow> compiledRule list \<Rightarrow> Time \<Rightarrow> 'z gov_db_scheme \<Rightarrow> CertificateSignals \<Rightarrow> ownershipDecision" where
  "pass_decision org rules now s0 sig = decideOwnership sig (active_override org (sg_CertificateID sig) s0) rules now"

definition expiring :: "string \<Rightarrow> Time \<Rightarrow> 'z gov_db_scheme \<Rightarrow> CertificateSignals \<Rightarrow> bool" where
  "expiring org now s0 sig = override_expired (active_override org (sg_CertificateID sig) s0) now"

definition settled :: "string \<Rightarrow> compiledRule list \<Rightarrow> Time \<Rightarrow> 'z gov_db_scheme \<Rightarrow> CertificateSignals list \<Rightarrow> bool" where
  "settled org rules now s0 sigs \<longleftrightarrow> (\<forall>sig \<in> set sigs. \<exists>p. ownership_row org (sg_CertificateID sig) s0 = Some p \<and>
     agrees p (pass_decision org rules now s0 sig))"

text \<open>The state of a pass that started in \<open>s0\<close> and has seen the certificates \<open>seen\<close>.\<close>

definition rows_inv where
  "rows_inv org rules now s0 seen t \<longleftrightarrow>
     (\<forall>o2 c2. \<not> (o2 = org \<and> c2 \<in> sg_CertificateID ` set seen) \<longrightarrow> ownership_row o2 c2 t = ownership_row o2 c2 s0) \<and>
     (\<forall>sig \<in> set seen. \<exists>x. ownership_row org (sg_CertificateID sig) t = Some (fst (next_row org (sg_CertificateID sig)
        (pass_decision org rules now s0 sig) (ownership_row org (sg_CertificateID sig) s0) x now))) \<and>
     (settled org rules now s0 seen \<longrightarrow> t_explanations t = t_explanations s0)"

definition overrides_inv where
  "overrides_inv org now s0 seen t \<longleftrightarrow>
     (\<forall>o2 c2. active_override o2 c2 t =
        (if o2 = org \<and> c2 \<in> sg_CertificateID ` set (filter (expiring org now s0) seen) then None
         else active_override o2 c2 s0))"

definition counts_inv where
  "counts_inv org rules now s0 seen out \<longleftrightarrow>
     oc_evaluated out = int (length seen) \<and> oc_changed out + oc_unchanged out = oc_evaluated out \<and>
     map eo_certID (oc_expiredOverrides out) = map sg_CertificateID (filter (expiring org now s0) seen) \<and>
     (settled org rules now s0 seen \<longrightarrow> oc_changed out = 0 \<and> oc_auditGroups out = [])"

definition frame_inv where
  "frame_inv s0 t \<longleftrightarrow> gov_wf t \<and> inputs_of t = inputs_of s0 \<and> t_rules t = t_rules s0 \<and>
     audit_events t = audit_events s0 \<and> t_runs t = t_runs s0"

lemma accumAudit_simps [simp]:
  "oc_evaluated (accumAudit svc c f d a b out) = oc_evaluated out"
  "oc_changed (accumAudit svc c f d a b out) = oc_changed out"
  "oc_unchanged (accumAudit svc c f d a b out) = oc_unchanged out"
  "oc_expiredOverrides (accumAudit svc c f d a b out) = oc_expiredOverrides out"
  "oc_compileFailures (accumAudit svc c f d a b out) = oc_compileFailures out"
  using accumAudit_counters [of svc c f d a b out] by (simp_all add: same_counters_def)

lemma tally_simps [simp]:
  "oc_evaluated (tally svc c d p out) = oc_evaluated out"
  "oc_expiredOverrides (tally svc c d p out) = oc_expiredOverrides out"
  "oc_compileFailures (tally svc c d p out) = oc_compileFailures out"
  "oc_changed (tally svc c d p out) + oc_unchanged (tally svc c d p out) = oc_changed out + oc_unchanged out + 1"
  by (cases p; simp add: tally_def Let_def)+

lemma tally_agrees: "agrees p d \<Longrightarrow> tally svc c d (Some p) out = out\<lparr>oc_unchanged := oc_unchanged out + 1\<rparr>"
  by (simp add: tally_def agrees_def)

text \<open>What expiry does before the decision.\<close>

lemma autoExpire_state:
  assumes run: "autoExpire env org cert ov now out s = (Inr (ov1, out1), s1)"
    and wf: "gov_wf s" and ov: "ov = active_override org cert s"
  shows "t_ownership s1 = t_ownership s" "t_explanations s1 = t_explanations s" "inputs_of s1 = inputs_of s"
    "t_rules s1 = t_rules s" "t_runs s1 = t_runs s" "audit_events s1 = audit_events s"
    "active_override o2 c2 s1 = (if (o2, c2) = (org, cert) \<and> override_expired ov now then None else active_override o2 c2 s)"
    "map eo_certID (oc_expiredOverrides out1) =
       map eo_certID (oc_expiredOverrides out) @ (if override_expired ov now then [cert] else [])"
    "oc_evaluated out1 = oc_evaluated out" "oc_changed out1 = oc_changed out" "oc_unchanged out1 = oc_unchanged out"
    "oc_auditGroups out1 = oc_auditGroups out" "oc_compileFailures out1 = oc_compileFailures out"
proof -
  consider (keep) "\<not> override_expired ov now" "out1 = out" "s1 = s"
    | (clear) r where "ov = Some r" "override_expired ov now"
      "out1 = out\<lparr>oc_expiredOverrides := oc_expiredOverrides out @
              [\<lparr>eo_certID = cert, eo_overrideID = ov_ID r, eo_serviceID = ov_ServiceID r\<rparr>]\<rparr>"
      "ClearOwnershipOverride env org (ov_ID r) ''system'' ''auto-expired'' now s = (Inr (), s1)"
    using autoExpire_Inr [OF run] by blast
  then have "t_ownership s1 = t_ownership s \<and> t_explanations s1 = t_explanations s \<and> inputs_of s1 = inputs_of s \<and>
    t_rules s1 = t_rules s \<and> t_runs s1 = t_runs s \<and> audit_events s1 = audit_events s \<and>
    active_override o2 c2 s1 = (if (o2, c2) = (org, cert) \<and> override_expired ov now then None else active_override o2 c2 s) \<and>
    map eo_certID (oc_expiredOverrides out1) =
       map eo_certID (oc_expiredOverrides out) @ (if override_expired ov now then [cert] else []) \<and>
    oc_evaluated out1 = oc_evaluated out \<and> oc_changed out1 = oc_changed out \<and> oc_unchanged out1 = oc_unchanged out \<and>
    oc_auditGroups out1 = oc_auditGroups out \<and> oc_compileFailures out1 = oc_compileFailures out"
  proof cases
    case keep
    then show ?thesis by simp
  next
    case clear
    have "active_override org cert s = Some r" using clear(1) ov by simp
    from clear_override_active(1) [OF wf this clear(4), of o2 c2] ClearOwnershipOverride_frame [OF clear(4)] clear(2,3)
    show ?thesis by simp
  qed
  then show "t_ownership s1 = t_ownership s" "t_explanations s1 = t_explanations s" "inputs_of s1 = inputs_of s"
    "t_rules s1 = t_rules s" "t_runs s1 = t_runs s" "audit_events s1 = audit_events s"
    "active_override o2 c2 s1 = (if (o2, c2) = (org, cert) \<and> override_expired ov now then None else active_override o2 c2 s)"
    "map eo_certID (oc_expiredOverrides out1) =
       map eo_certID (oc_expiredOverrides out) @ (if override_expired ov now then [cert] else [])"
    "oc_evaluated out1 = oc_evaluated out" "oc_changed out1 = oc_changed out" "oc_unchanged out1 = oc_unchanged out"
    "oc_auditGroups out1 = oc_auditGroups out" "oc_compileFailures out1 = oc_compileFailures out"
    by simp_all
qed

definition pass_inv where
  "pass_inv org rules now s0 seen out t \<longleftrightarrow> frame_inv s0 t \<and> rows_inv org rules now s0 seen t \<and>
     overrides_inv org now s0 seen t \<and> counts_inv org rules now s0 seen out"

lemma pass_step:
  assumes inv: "pass_inv org rules now s0 seen out t"
    and new: "sg_CertificateID sig \<notin> sg_CertificateID ` set seen"
    and run: "processCert env svc org sig (ownership_row org (sg_CertificateID sig) s0)
        (active_override org (sg_CertificateID sig) s0) rules now out t = (Inr out', t')"
  shows "pass_inv org rules now s0 (seen @ [sig]) out' t'"
proof -
  let ?c = "sg_CertificateID sig" and ?d = "pass_decision org rules now s0 sig"
  let ?p = "ownership_row org ?c s0"
  have fr: "gov_wf t" "inputs_of t = inputs_of s0" "t_rules t = t_rules s0" "audit_events t = audit_events s0" "t_runs t = t_runs s0"
    and rows: "\<And>o2 c2. \<not> (o2 = org \<and> c2 \<in> sg_CertificateID ` set seen) \<Longrightarrow> ownership_row o2 c2 t = ownership_row o2 c2 s0"
    and seen: "\<And>s. s \<in> set seen \<Longrightarrow> \<exists>x. ownership_row org (sg_CertificateID s) t = Some (fst (next_row org (sg_CertificateID s)
        (pass_decision org rules now s0 s) (ownership_row org (sg_CertificateID s) s0) x now))"
    and expl: "settled org rules now s0 seen \<Longrightarrow> t_explanations t = t_explanations s0"
    and ovs: "\<And>o2 c2. active_override o2 c2 t =
        (if o2 = org \<and> c2 \<in> sg_CertificateID ` set (filter (expiring org now s0) seen) then None
         else active_override o2 c2 s0)"
    and cnt: "oc_evaluated out = int (length seen)" "oc_changed out + oc_unchanged out = oc_evaluated out"
      "map eo_certID (oc_expiredOverrides out) = map sg_CertificateID (filter (expiring org now s0) seen)"
    and quiet: "settled org rules now s0 seen \<Longrightarrow> oc_changed out = 0 \<and> oc_auditGroups out = []"
    using inv by (auto simp: pass_inv_def frame_inv_def rows_inv_def overrides_inv_def counts_inv_def)
  from processCert_run [OF run, folded pass_decision_def] obtain x ov1 out1 s1 where
    a: "autoExpire env org ?c (active_override org ?c s0) now (out\<lparr>oc_evaluated := oc_evaluated out + 1\<rparr>) t = (Inr (ov1, out1), s1)"
    and out': "out' = tally svc ?c ?d ?p out1"
    and t': "db_of t' = apply_row org sig ?d ?p x now (db_of s1)"
    by (elim exE conjE) (rule that; assumption)
  have act: "active_override org ?c s0 = active_override org ?c t" using new by (auto simp: ovs)
  note st = autoExpire_state [OF a fr(1) act]
  have p1: "?p = ownership_row org ?c (db_of s1)"
    using rows [of org ?c] new st(1) by (simp add: ownership_row_def)
  note lookup = apply_row_lookup [OF p1, where d = ?d and x = x and now = now]
  have row': "ownership_row org ?c t' = Some (fst (next_row org ?c ?d ?p x now))"
    and other': "(o2, c2) \<noteq> (org, ?c) \<Longrightarrow> ownership_row o2 c2 t' = ownership_row o2 c2 t" for o2 c2
    using lookup db_of_fields(3) [OF t'] st(1) by (simp_all add: ownership_row_def)
  have settled': "settled org rules now s0 (seen @ [sig]) \<longleftrightarrow> settled org rules now s0 seen \<and> (\<exists>p. ?p = Some p \<and> agrees p ?d)"
    by (auto simp: settled_def)
  have "frame_inv s0 t'"
    using keepsD [OF keeps_wf_processCert fr(1) run] db_of_fields [OF t'] st fr by (simp add: frame_inv_def)
  moreover have "rows_inv org rules now s0 (seen @ [sig]) t'"
    unfolding rows_inv_def
  proof (intro conjI allI ballI impI)
    fix o2 c2 assume "\<not> (o2 = org \<and> c2 \<in> sg_CertificateID ` set (seen @ [sig]))"
    then show "ownership_row o2 c2 t' = ownership_row o2 c2 s0" using other' rows by auto
  next
    fix s assume s: "s \<in> set (seen @ [sig])"
    show "\<exists>x. ownership_row org (sg_CertificateID s) t' = Some (fst (next_row org (sg_CertificateID s)
        (pass_decision org rules now s0 s) (ownership_row org (sg_CertificateID s) s0) x now))"
    proof (cases "s = sig")
      case True
      with row' show ?thesis by blast
    next
      case False
      with s have "s \<in> set seen" by simp
      then have "(org, sg_CertificateID s) \<noteq> (org, ?c)" using new by (metis imageI prod.inject)
      with seen [OF \<open>s \<in> set seen\<close>] show ?thesis using other' by simp
    qed
  next
    assume "settled org rules now s0 (seen @ [sig])"
    then obtain p where "settled org rules now s0 seen" "?p = Some p" "agrees p ?d" by (auto simp: settled')
    then show "t_explanations t' = t_explanations s0"
      using db_of_fields(5) [OF t'] st(2) expl by (simp add: apply_row_def next_row_unchanged)
  qed
  moreover have "overrides_inv org now s0 (seen @ [sig]) t'"
    unfolding overrides_inv_def
  proof (intro allI)
    fix o2 c2
    have "active_override o2 c2 t' = active_override o2 c2 s1"
      using db_of_fields(4) [OF t'] by (intro active_override_cong) simp
    also have "\<dots> = (if (o2, c2) = (org, ?c) \<and> expiring org now s0 sig then None else active_override o2 c2 t)"
      unfolding expiring_def by (rule st(7))
    finally show "active_override o2 c2 t' = (if o2 = org \<and>
        c2 \<in> sg_CertificateID ` set (filter (expiring org now s0) (seen @ [sig])) then None else active_override o2 c2 s0)"
      using ovs [of o2 c2] by auto
  qed
  moreover have "counts_inv org rules now s0 (seen @ [sig]) out'"
    unfolding counts_inv_def
  proof (intro conjI impI)
    show "oc_evaluated out' = int (length (seen @ [sig]))" using st(9) cnt(1) by (simp add: out')
    show "oc_changed out' + oc_unchanged out' = oc_evaluated out'" using st(9,10,11) cnt by (simp add: out')
    show "map eo_certID (oc_expiredOverrides out') = map sg_CertificateID (filter (expiring org now s0) (seen @ [sig]))"
      using st(8) cnt(3) by (simp add: out' expiring_def)
    assume "settled org rules now s0 (seen @ [sig])"
    then obtain p where q: "settled org rules now s0 seen" "?p = Some p" "agrees p ?d" by (auto simp: settled')
    then show "oc_changed out' = 0" "oc_auditGroups out' = []"
      using st(10,12) quiet [OF q(1)] by (simp_all add: out' tally_agrees)
  qed
  ultimately show ?thesis by (simp add: pass_inv_def)
qed

lemma prior_map:
  assumes run: "GetCertificateOwnershipByCertificateIDs env org ids s = (Inr m, s')" and wf: "gov_wf s" and c: "c \<in> set ids"
  shows "map_of m c = ownership_row org c s" "s' = stepped s"
proof -
  let ?rows = "filter (\<lambda>co. co_OrganizationID co = org \<and> co_CertificateID co \<in> set ids) (t_ownership s)"
  have ne: "ids \<noteq> []" using c by auto
  then have m: "m = map (\<lambda>co. (co_CertificateID co, co)) (rev ?rows)" and s': "s' = stepped s"
    using run by (auto simp: GetCertificateOwnershipByCertificateIDs_def bindE_Inr guardE_Inr db_query_Inr)
  show "s' = stepped s" by (rule s')
  have "find (\<lambda>co. co_CertificateID co = c) (rev ?rows) = ownership_row org c s"
  proof (cases "ownership_row org c s")
    case None
    then have "\<forall>co \<in> set (t_ownership s). co_key co \<noteq> (org, c)" by (simp add: ownership_row_def find_None_set)
    then have "find (\<lambda>co. co_CertificateID co = c) (rev ?rows) = None" by (auto simp: find_None_set co_key_def)
    with None show ?thesis by simp
  next
    case (Some p)
    then have p: "p \<in> set (t_ownership s)" "co_key p = (org, c)"
      by (auto simp: ownership_row_def dest: find_Some_D)
    have "find (\<lambda>co. co_CertificateID co = c) (rev ?rows) = Some p"
    proof (rule find_unique)
      show "p \<in> set (rev ?rows)" "co_CertificateID p = c" using p c by (auto simp: co_key_def)
      show "y = p" if "y \<in> set (rev ?rows)" "co_CertificateID y = c" for y
        using that p wf by (auto simp: gov_wf_def distinct_map inj_on_def co_key_def)
    qed
    with Some show ?thesis by simp
  qed
  then show "map_of m c = ownership_row org c s" unfolding m map_of_keyed .
qed

lemma pass_inv_stepped: "pass_inv org rules now s0 seen out (stepped t) = pass_inv org rules now s0 seen out t"
  by (simp add: pass_inv_def frame_inv_def rows_inv_def overrides_inv_def)

lemma pass_inv_firstRun: "pass_inv org rules now s0 seen (out\<lparr>oc_firstRun := b\<rparr>) t = pass_inv org rules now s0 seen out t"
  by (simp add: pass_inv_def counts_inv_def)

lemma page_step:
  assumes inv: "pass_inv org rules now s0 seen out t"
    and dist: "distinct (map sg_CertificateID (seen @ page))" and ne: "page \<noteq> []"
    and ovs: "\<And>c. map_of overrides c = active_override org c s0"
    and run: "decidePage env svc org rules overrides now page out t = (Inr out', t')"
  shows "pass_inv org rules now s0 (seen @ page) out' t'"
proof -
  obtain m t1 where g: "GetCertificateOwnershipByCertificateIDs env org (map sg_CertificateID page) t = (Inr m, t1)"
    and f: "foldE (\<lambda>sig out. processCert env svc org sig (map_of m (sg_CertificateID sig))
              (map_of overrides (sg_CertificateID sig)) rules now out)
       page (if m \<noteq> [] then out\<lparr>oc_firstRun := False\<rparr> else out) t1 = (Inr out', t')"
    using run by (auto simp: decidePage_def bindE_Inr)
  have wf: "gov_wf t" and rows: "\<And>o2 c2. \<not> (o2 = org \<and> c2 \<in> sg_CertificateID ` set seen) \<Longrightarrow>
      ownership_row o2 c2 t = ownership_row o2 c2 s0"
    using inv by (auto simp: pass_inv_def frame_inv_def rows_inv_def)
  obtain c0 where "c0 \<in> set (map sg_CertificateID page)" using ne by (cases page) auto
  then have t1: "t1 = stepped t" by (rule prior_map(2) [OF g wf])
  have prior: "map_of m (sg_CertificateID sig) = ownership_row org (sg_CertificateID sig) s0" if "sig \<in> set page" for sig
  proof -
    have "sg_CertificateID sig \<notin> sg_CertificateID ` set seen" using dist that by auto
    then show ?thesis using prior_map(1) [OF g wf, of "sg_CertificateID sig"] that rows by auto
  qed
  show ?thesis
    using f
  proof (rule foldE_rule [where I = "\<lambda>fin out t. pass_inv org rules now s0 (seen @ fin) out t"])
    show "pass_inv org rules now s0 (seen @ []) (if m \<noteq> [] then out\<lparr>oc_firstRun := False\<rparr> else out) t1"
      using inv by (simp add: t1 pass_inv_stepped pass_inv_firstRun)
    fix fin sig rest b u b' u'
    assume page: "page = fin @ sig # rest" and I: "pass_inv org rules now s0 (seen @ fin) b u"
      and p: "processCert env svc org sig (map_of m (sg_CertificateID sig)) (map_of overrides (sg_CertificateID sig)) rules now b u = (Inr b', u')"
    have "sg_CertificateID sig \<notin> sg_CertificateID ` set (seen @ fin)" using dist page by auto
    from pass_step [OF I this] p prior [of sig] page ovs
    show "pass_inv org rules now s0 (seen @ fin @ [sig]) b' u'" by simp
  qed
qed

lemma stream_step:
  assumes run: "streamAndDecide env svc org rules overrides now (new_outcome fs) s0 = (Inr out, t)"
    and wf: "gov_wf s0" and ids: "ids_ok s0" and ovs: "\<And>c. map_of overrides c = active_override org c s0"
  shows "pass_inv org rules now s0 (org_signals org s0) out t"
proof -
  let ?R = "org_signals org s0"
  let ?P = "\<lambda>rest out t. \<exists>seen. ?R = seen @ rest \<and> pass_inv org rules now s0 seen out t"
  have "?P [] out t"
  proof (rule sigs.loop_rule [where P = ?P and R = ?R and n = "pageSize svc" and cur = "[]" and b = "new_outcome fs" and s = s0])
    show "page_loop (Suc (length ?R)) (\<lambda>c. ListCertificateSignalsPaged env org c (pageSize svc)) sg_CertificateID
      (pageSize svc) (decidePage env svc org rules overrides now) [] (new_outcome fs) s0 = (Inr out, t)"
      using run by (simp add: streamAndDecide_def bindE_Inr getE_Inr)
    have "pass_inv org rules now s0 [] (new_outcome fs) s0"
      using wf by (simp add: pass_inv_def frame_inv_def rows_inv_def overrides_inv_def counts_inv_def new_outcome_def)
    then show "?P (sigs.after org [] s0) (new_outcome fs) s0" by (simp add: sigs_after_start [OF ids])
    show "gov_wf u \<and> org_signals org u = ?R" if "?P rest b u" for rest b u
      using that by (auto simp: pass_inv_def frame_inv_def intro: org_signals_cong)
    show "?P rest b u'" if "?P rest b u" "ListCertificateSignalsPaged env org cu (pageSize svc) u = (Inr page, u')"
      for rest b u cu page u'
      using that by (auto simp: ListCertificateSignalsPaged_def db_query_Inr pass_inv_stepped)
    show "?P rest b' u'" if P: "?P (page @ rest) b u" and ne: "page \<noteq> []"
      and d: "decidePage env svc org rules overrides now page b u = (Inr b', u')" for page rest b u b' u'
    proof -
      from P obtain seen where R: "?R = seen @ page @ rest" and I: "pass_inv org rules now s0 seen b u" by blast
      have "distinct (map sg_CertificateID (seen @ page))"
        using distinct_signal_ids [OF wf, of org] R by auto
      from page_step [OF I this ne ovs d] R show ?thesis by (intro exI [of _ "seen @ page"]) simp
    qed
  qed (rule pageSize_pos)
  then show ?thesis by simp
qed

section \<open>Emission and the run ledger\<close>

lemma emit_all_db:
  "emit_all env es s = (Inr u, s') \<Longrightarrow>
     \<exists>recs. list_all2 same_event recs es \<and> db_of s' = (db_of s)\<lparr>audit_events := audit_events s @ recs\<rparr>"
proof (induction es arbitrary: s)
  case Nil
  have "(db_of s)\<lparr>audit_events := audit_events s\<rparr> = db_of s" by (cases s) (simp add: db_of_def)
  with Nil show ?case by (simp add: retE_Inr)
next
  case (Cons e es)
  from Cons.prems obtain v s1 where 1: "Record env e s = (Inr v, s1)" and 2: "emit_all env es s1 = (Inr u, s')"
    by (auto simp: bindE_Inr)
  from Record_db [OF 1] obtain r where r: "same_event r e" "db_of s1 = (db_of s)\<lparr>audit_events := audit_events s @ [r]\<rparr>"
    by blast
  from Cons.IH [OF 2] obtain recs where recs: "list_all2 same_event recs es"
    "db_of s' = (db_of s1)\<lparr>audit_events := audit_events s1 @ recs\<rparr>" by blast
  have "audit_events s1 = audit_events s @ [r]" using r(2) by (metis audit_db_of world.select_convs(6) world.surjective world.update_convs(6))
  with r recs show ?case by (intro exI [of _ "r # recs"]) simp
qed

lemma emit_all_append: "emit_all env (xs @ ys) = bindE (emit_all env xs) (\<lambda>_. emit_all env ys)"
  by (induction xs) (simp_all add: bindE_assoc)

definition pass_events ::
  "string \<Rightarrow> string \<Rightarrow> RecomputeActorKind \<Rightarrow> string \<Rightarrow> Time \<Rightarrow> recomputeOutcome \<Rightarrow> Event list" where
  "pass_events org actor actorKind runID now out =
     map (compile_failure_event org actor actorKind runID now) (oc_compileFailures out) @
     map (expired_event org actor actorKind runID now) (oc_expiredOverrides out) @
     concat (map (group_events org actor actorKind runID now) (sort_key group_order (oc_auditGroups out))) @
     [recomputed_event org actor actorKind runID now out]"

lemma emissions_eq:
  assumes "oc_compileFailures out = fs"
  shows "bindE (emitCompileFailures env org actor actorKind runID now fs) (\<lambda>_.
     bindE (emitExpiredOverrides env org actor actorKind runID now out) (\<lambda>_.
     bindE (emitAuditGroups env org actor actorKind runID now out) (\<lambda>_.
     bindE (emitRecomputed env org actor actorKind runID now out) k)))
   = bindE (emit_all env (pass_events org actor actorKind runID now out)) k"
  using assms
  by (simp add: pass_events_def emit_all_append bindE_assoc emitCompileFailures_def emitExpiredOverrides_def
      emitAuditGroups_def emitRecomputed_def)

lemma processCert_failures:
  "processCert env svc org sig p ov rules now out s = (Inr out', s') \<Longrightarrow> oc_compileFailures out' = oc_compileFailures out"
  by (drule processCert_run) (auto dest!: autoExpire_Inr)

lemma page_failures:
  assumes "decidePage env svc org rules ovs now page out s = (Inr out', s')"
  shows "oc_compileFailures out' = oc_compileFailures out"
proof -
  obtain m s1 where f: "foldE (\<lambda>sig out. processCert env svc org sig (map_of m (sg_CertificateID sig))
              (map_of ovs (sg_CertificateID sig)) rules now out)
       page (if m \<noteq> [] then out\<lparr>oc_firstRun := False\<rparr> else out) s1 = (Inr out', s')"
    using assms by (auto simp: decidePage_def bindE_Inr)
  then show ?thesis
    by (rule foldE_rule [where I = "\<lambda>_ o' _. oc_compileFailures o' = oc_compileFailures out"])
      (auto dest: processCert_failures)
qed

lemma page_loop_failures:
  "page_loop fuel fetch key n (decidePage env svc org rules ovs now) cur out s = (Inr out', s') \<Longrightarrow>
     oc_compileFailures out' = oc_compileFailures out"
proof (induction fuel arbitrary: cur out s)
  case (Suc fuel)
  then show ?case by (auto simp: bindE_Inr retE_Inr dest!: page_failures split: if_splits)
qed (simp add: throwE_Inr)

lemma stream_failures:
  "streamAndDecide env svc org rules ovs now out s = (Inr out', s') \<Longrightarrow> oc_compileFailures out' = oc_compileFailures out"
  by (auto simp: streamAndDecide_def bindE_Inr getE_Inr simp del: page_loop.simps dest: page_loop_failures)

lemma runRecomputeTx_Inr:
  assumes run: "runRecomputeTx env svc org actor kind now s = (Inr res, s')" and wf: "gov_wf s" and ids: "ids_ok s"
  shows "\<exists>runID rules fs s0 out t recs finished.
    res = recompute_result runID out \<and> compileRules env (engine_rules org s) = Inr (rules, fs) \<and>
    (\<forall>r \<in> set (t_runs s). rr_ID r \<noteq> runID) \<and>
    db_of s0 = (db_of s)\<lparr>t_runs := t_runs s @ [new_run runID org actor kind now]\<rparr> \<and>
    pass_inv org rules now s0 (org_signals org s) out t \<and> oc_compileFailures out = fs \<and>
    list_all2 same_event recs (pass_events org actor kind runID now out) \<and>
    db_of s' = (db_of t)\<lparr>audit_events := audit_events t @ recs,
      t_runs := t_runs s @ [finished_run out finished (new_run runID org actor kind now)]\<rparr>"
proof -
  let ?run = "\<lambda>i. new_run i org actor kind now"
  obtain runID s1 s2 rules fs ovs s3 out s4 s5 u where
    r1: "StartRecomputeRun env (?run runID) s1 = (Inr (), s2)" and d1: "db_of s1 = db_of s"
    and r2: "compileRules env (engine_rules org s2) = Inr (rules, fs)"
    and r3: "loadActiveOverrides env svc org (stepped s2) = (Inr ovs, s3)"
    and r4: "streamAndDecide env svc org rules ovs now (new_outcome fs) s3 = (Inr out, s4)"
    and r5: "bindE (emitCompileFailures env org actor kind runID now fs) (\<lambda>_.
     bindE (emitExpiredOverrides env org actor kind runID now out) (\<lambda>_.
     bindE (emitAuditGroups env org actor kind runID now out) (\<lambda>_.
     bindE (emitRecomputed env org actor kind runID now out) (\<lambda>_.
     bindE (Now env) (\<lambda>finished.
     bindE (FinishRecomputeRun env (finished_run out finished (?run runID))) (\<lambda>_.
     retE (recompute_result runID out))))))) s4 = (Inr res, s')"
    using run by (auto simp: runRecomputeTx_def bindE_Inr NewID_Inr liftE_Inr ListOwnershipRulesForEngine_def db_query_Inr)
  have fresh: "\<forall>r \<in> set (t_runs s). rr_ID r \<noteq> runID"
    and s2: "db_of s2 = (db_of s)\<lparr>t_runs := t_runs s @ [?run runID]\<rparr>"
    using r1 d1 db_of_fields(6) [OF d1] by (auto simp: StartRecomputeRun_def exec_hit_Inr db_of_push new_run_def)
  have s3: "db_of s3 = db_of s2" using leavesD [OF leaves_loadActiveOverrides r3] by simp
  have wf2: "gov_wf s2" "ids_ok s2"
    using wf ids fresh db_of_fields [OF s2] inputs_of_fields(1) [OF db_of_fields(7) [OF s2]]
    by (auto simp: gov_wf_def ids_ok_def new_run_def inputs_of_def)
  have wf3: "gov_wf s3" "ids_ok s3"
    using wf2 s3 gov_wf_db_of db_of_fields(4) [OF s3] inputs_of_fields(1) [OF db_of_fields(7) [OF s3]]
    by (metis, simp add: ids_ok_def)
  have ov: "map_of ovs c = active_override org c s3" for c
    using loadActiveOverrides_Inr [OF r3] wf2 db_of_fields(4) [OF s3] by (simp add: active_override_def ids_ok_def gov_wf_def)
  have pass: "pass_inv org rules now s3 (org_signals org s3) out s4"
    by (rule stream_step [OF r4 wf3 ov])
  have sg: "org_signals org s3 = org_signals org s"
    using db_of_fields(7) [OF s3] db_of_fields(7) [OF s2] by (intro org_signals_cong) simp
  have rules: "engine_rules org s2 = engine_rules org s"
    using db_of_fields(2) [OF s2] by (simp add: engine_rules_def)
  have fs: "oc_compileFailures out = fs" using stream_failures [OF r4] by (simp add: new_outcome_def)
  from r5 [unfolded emissions_eq [OF fs]] obtain v s5 w s6 where
    e: "emit_all env (pass_events org actor kind runID now out) s4 = (Inr v, s5)"
    and f: "FinishRecomputeRun env (finished_run out (clockAt env (w_clock s5)) (?run runID))
        (s5\<lparr>w_clock := Suc (w_clock s5)\<rparr>) = (Inr w, s6)"
    and res: "res = recompute_result runID out" "s' = s6"
    by (auto simp: bindE_Inr Now_Inr retE_Inr)
  from emit_all_db [OF e] obtain recs where recs: "list_all2 same_event recs (pass_events org actor kind runID now out)"
    "db_of s5 = (db_of s4)\<lparr>audit_events := audit_events s4 @ recs\<rparr>" by blast
  let ?fin = "finished_run out (clockAt env (w_clock s5)) (?run runID)"
  have runs: "t_runs s5 = t_runs s @ [?run runID]"
    using db_of_fields(6) [OF recs(2)] pass db_of_fields(6) [OF s3] db_of_fields(6) [OF s2]
    by (simp add: pass_inv_def frame_inv_def)
  have "update_where (is_run org runID) (\<lambda>r. r\<lparr>rr_FinishedAt := rr_FinishedAt ?fin, rr_Succeeded := rr_Succeeded ?fin,
                 rr_ErrorClass := rr_ErrorClass ?fin, rr_EvaluatedCount := rr_EvaluatedCount ?fin,
                 rr_ChangedCount := rr_ChangedCount ?fin, rr_UnchangedCount := rr_UnchangedCount ?fin,
                 rr_BecameOwnedCount := rr_BecameOwnedCount ?fin, rr_BecameUnownedCount := rr_BecameUnownedCount ?fin,
                 rr_FlippedOwnerCount := rr_FlippedOwnerCount ?fin\<rparr>) (t_runs s5) = t_runs s @ [?fin]"
    unfolding runs using fresh
    by (simp add: update_where_def is_run_def finished_run_def new_run_def) (auto intro: map_idI)
  then have s6: "db_of s6 = (db_of s5)\<lparr>t_runs := t_runs s @ [?fin]\<rparr>"
    using f by (auto simp: FinishRecomputeRun_def exec_hit_Inr db_of_push finished_run_def new_run_def)
  have "db_of s3 = (db_of s)\<lparr>t_runs := t_runs s @ [?run runID]\<rparr>" using s3 s2 by simp
  moreover have "db_of s' = (db_of s4)\<lparr>audit_events := audit_events s4 @ recs, t_runs := t_runs s @ [?fin]\<rparr>"
    using s6 res recs(2) by simp
  ultimately show ?thesis
    by (intro exI [of _ runID] exI [of _ rules] exI [of _ fs] exI [of _ s3] exI [of _ out] exI [of _ s4]
        exI [of _ recs] exI [of _ "clockAt env (w_clock s5)"] conjI)
      (use res r2 rules fresh pass sg fs recs(1) in simp_all)
qed

section \<open>Properties of the recompute\<close>

text \<open>The pass a successful recompute ran, and the state around it.\<close>

lemma recompute_Inr:
  assumes run: "recompute env svc org actor kind s = (Inr res, s')" and wf: "gov_wf s" and ids: "ids_ok s"
  shows "\<exists>now runID rules fs s0 out t recs finished.
    res = recompute_result runID out \<and> compileRules env (engine_rules org s) = Inr (rules, fs) \<and>
    (\<forall>r \<in> set (t_runs s). rr_ID r \<noteq> runID) \<and>
    db_of s0 = (db_of s)\<lparr>t_runs := t_runs s @ [new_run runID org actor kind now]\<rparr> \<and>
    pass_inv org rules now s0 (org_signals org s) out t \<and> oc_compileFailures out = fs \<and>
    list_all2 same_event recs (pass_events org actor kind runID now out) \<and> now = clockAt env (w_clock s) \<and>
    db_of s' = (db_of t)\<lparr>audit_events := audit_events t @ recs,
      t_runs := t_runs s @ [finished_run out finished (new_run runID org actor kind now)]\<rparr>"
proof -
  let ?s1 = "s\<lparr>w_clock := Suc (w_clock s)\<rparr>"
  have w: "WithTxLockedOwnershipRepeatableRead env org (runRecomputeTx env svc org actor kind (clockAt env (w_clock s))) ?s1 = (Inr res, s')"
    using run by (simp add: recompute_def bindE_Inr Now_Inr)
  from orr.commits [OF w] obtain s2 s3 where d2: "db_of s2 = db_of ?s1" and d3: "db_of s' = db_of s3"
    and r: "runRecomputeTx env svc org actor kind (clockAt env (w_clock s)) s2 = (Inr res, s3)" by blast
  have e: "db_of s2 = db_of s" using d2 by simp
  have wf2: "gov_wf s2" using wf e gov_wf_db_of by metis
  have ids2: "ids_ok s2"
    using ids db_of_fields(4) [OF e] inputs_of_fields(1) [OF db_of_fields(7) [OF e]] by (simp add: ids_ok_def)
  have same: "engine_rules org s2 = engine_rules org s" "t_runs s2 = t_runs s" "org_signals org s2 = org_signals org s"
    using db_of_fields [OF e] org_signals_cong [of s2 s org] by (simp_all add: engine_rules_def)
  let ?now = "clockAt env (w_clock s)"
  from runRecomputeTx_Inr [OF r wf2 ids2, unfolded same e] obtain runID rules fs s0 out t recs finished where
    "res = recompute_result runID out" "compileRules env (engine_rules org s) = Inr (rules, fs)"
    "\<forall>r \<in> set (t_runs s). rr_ID r \<noteq> runID"
    "db_of s0 = (db_of s)\<lparr>t_runs := t_runs s @ [new_run runID org actor kind ?now]\<rparr>"
    "pass_inv org rules ?now s0 (org_signals org s) out t" "oc_compileFailures out = fs"
    "list_all2 same_event recs (pass_events org actor kind runID ?now out)"
    "db_of s3 = (db_of t)\<lparr>audit_events := audit_events t @ recs,
      t_runs := t_runs s @ [finished_run out finished (new_run runID org actor kind ?now)]\<rparr>"
    by (elim exE conjE) (rule that; assumption)
  then show ?thesis unfolding d3
    by (intro exI [of _ ?now] exI [of _ runID] exI [of _ rules] exI [of _ fs] exI [of _ s0] exI [of _ out] exI [of _ t]
        exI [of _ recs] exI [of _ finished] conjI) (assumption | rule refl)+
qed

text \<open>
  C1: A successful recompute evaluates every certificate of the organization: afterwards the stored
  row of each is one step of the row machine from the row it had, with the decision that the enabled
  rules and the override active at the start give for its signals. Every other ownership row, of any
  organization, is as before, and so are the rules and the inventory.
\<close>

theorem recompute_decides_all:
  assumes run: "recompute env svc org actor kind s = (Inr res, s')" and wf: "gov_wf s" and ids: "ids_ok s"
  shows "\<exists>rules fs now. compileRules env (engine_rules org s) = Inr (rules, fs) \<and>
    (\<forall>sig \<in> set (org_signals org s).
       let c = sg_CertificateID sig; d = decideOwnership sig (active_override org c s) rules now in
       \<exists>x co. ownership_row org c s' = Some co \<and> co = fst (next_row org c d (ownership_row org c s) x now) \<and>
         agrees co d \<and> co_LastEvaluatedAt co = now) \<and>
    (\<forall>o2 c2. \<not> (o2 = org \<and> c2 \<in> sg_CertificateID ` set (org_signals org s)) \<longrightarrow>
       ownership_row o2 c2 s' = ownership_row o2 c2 s) \<and>
    t_rules s' = t_rules s \<and> inputs_of s' = inputs_of s \<and> gov_wf s'"
proof -
  from recompute_Inr [OF run wf ids] obtain now runID rules fs s0 out t recs finished where
    c: "compileRules env (engine_rules org s) = Inr (rules, fs)" and
    fresh: "\<forall>r \<in> set (t_runs s). rr_ID r \<noteq> runID" and
    s0: "db_of s0 = (db_of s)\<lparr>t_runs := t_runs s @ [new_run runID org actor kind now]\<rparr>" and
    pass: "pass_inv org rules now s0 (org_signals org s) out t" and
    s': "db_of s' = (db_of t)\<lparr>audit_events := audit_events t @ recs,
      t_runs := t_runs s @ [finished_run out finished (new_run runID org actor kind now)]\<rparr>"
    by (elim exE conjE) (rule that; assumption)
  have r0: "ownership_row o2 c2 s0 = ownership_row o2 c2 s" "active_override o2 c2 s0 = active_override o2 c2 s" for o2 c2
    using db_of_fields [OF s0] by (simp_all add: ownership_row_def active_override_def)
  have r': "ownership_row o2 c2 s' = ownership_row o2 c2 t" for o2 c2
    using db_of_fields [OF s'] by (simp add: ownership_row_def)
  have wf': "gov_wf s'"
    using pass wf fresh db_of_fields [OF s'] inputs_of_fields(1) [OF db_of_fields(7) [OF s']]
    by (auto simp: pass_inv_def frame_inv_def gov_wf_def finished_run_def new_run_def)
  have rows: "\<exists>x co. ownership_row org c s' = Some co \<and> co = fst (next_row org c d (ownership_row org c s) x now) \<and>
         agrees co d \<and> co_LastEvaluatedAt co = now"
    if "sig \<in> set (org_signals org s)" "c = sg_CertificateID sig" "d = decideOwnership sig (active_override org c s) rules now" for sig c d
  proof -
    from pass that obtain x where "ownership_row org c t = Some (fst (next_row org c d (ownership_row org c s) x now))"
      by (auto simp: pass_inv_def rows_inv_def pass_decision_def r0)
    then show ?thesis using r' next_row_agrees next_row_evaluated by auto
  qed
  have others: "ownership_row o2 c2 s' = ownership_row o2 c2 s"
    if "\<not> (o2 = org \<and> c2 \<in> sg_CertificateID ` set (org_signals org s))" for o2 c2
    using pass that r0 r' by (simp add: pass_inv_def rows_inv_def)
  have "t_rules s' = t_rules s" "inputs_of s' = inputs_of s"
    using pass db_of_fields [OF s'] db_of_fields [OF s0] by (simp_all add: pass_inv_def frame_inv_def)
  then show ?thesis
    using c rows others wf' by (intro exI [of _ rules] exI [of _ fs] exI [of _ now]) (simp add: Let_def)
qed

text \<open>
  A recompute clears exactly the active overrides of the organization's certificates whose expiry
  is not after the time of the pass; all other active overrides stay active.
\<close>

theorem recompute_expires_overrides:
  assumes run: "recompute env svc org actor kind s = (Inr res, s')" and wf: "gov_wf s" and ids: "ids_ok s"
  shows "\<forall>o2 c2. active_override o2 c2 s' =
      (if o2 = org \<and> c2 \<in> sg_CertificateID ` set (org_signals org s) \<and>
          override_expired (active_override org c2 s) (clockAt env (w_clock s))
       then None else active_override o2 c2 s)"
proof -
  from recompute_Inr [OF run wf ids] obtain now runID rules fs s0 out t recs finished where
    now: "now = clockAt env (w_clock s)" and
    s0: "db_of s0 = (db_of s)\<lparr>t_runs := t_runs s @ [new_run runID org actor kind now]\<rparr>" and
    pass: "pass_inv org rules now s0 (org_signals org s) out t" and
    s': "db_of s' = (db_of t)\<lparr>audit_events := audit_events t @ recs,
      t_runs := t_runs s @ [finished_run out finished (new_run runID org actor kind now)]\<rparr>"
    by (elim exE conjE) (rule that; assumption)
  have r0: "active_override o2 c2 s0 = active_override o2 c2 s" for o2 c2
    using db_of_fields [OF s0] by (simp add: active_override_def)
  have r': "active_override o2 c2 s' = active_override o2 c2 t" for o2 c2
    using db_of_fields [OF s'] by (simp add: active_override_def)
  have "active_override o2 c2 t = (if o2 = org \<and> c2 \<in> sg_CertificateID ` set (filter (expiring org now s0) (org_signals org s))
      then None else active_override o2 c2 s)" for o2 c2
    using pass by (simp add: pass_inv_def overrides_inv_def r0)
  moreover have "c2 \<in> sg_CertificateID ` set (filter (expiring org now s0) (org_signals org s)) \<longleftrightarrow>
      c2 \<in> sg_CertificateID ` set (org_signals org s) \<and> override_expired (active_override org c2 s) now" for c2
    by (auto simp: expiring_def r0)
  ultimately show ?thesis using r' now by simp
qed


text \<open>
  When every stored row already agrees with the decision (which is what a recompute leaves
  behind), a recompute changes no owner: it writes no explanation and reports no change, and its
  audit holds only compile failures, expiries and the summary. Rows move their evaluation time only.
\<close>

theorem recompute_settled:
  assumes run: "recompute env svc org actor kind s = (Inr res, s')" and wf: "gov_wf s" and ids: "ids_ok s"
    and rules: "compileRules env (engine_rules org s) = Inr (rules, fs)"
    and st: "settled org rules (clockAt env (w_clock s)) s (org_signals org s)"
  shows "t_explanations s' = t_explanations s \<and> re_ChangedCertificates res = 0 \<and>
    length (audit_events s') = length (audit_events s) + length fs + nat (re_ExpiredOverrides res) + 1 \<and>
    (\<forall>sig \<in> set (org_signals org s). \<exists>p. ownership_row org (sg_CertificateID sig) s = Some p \<and>
       ownership_row org (sg_CertificateID sig) s' = Some (p\<lparr>co_LastEvaluatedAt := clockAt env (w_clock s)\<rparr>))"
proof -
  from recompute_Inr [OF run wf ids] obtain now runID rules' fs' s0 out t recs finished where
    res: "res = recompute_result runID out" and now: "now = clockAt env (w_clock s)" and
    c: "compileRules env (engine_rules org s) = Inr (rules', fs')" and
    s0: "db_of s0 = (db_of s)\<lparr>t_runs := t_runs s @ [new_run runID org actor kind now]\<rparr>" and
    pass: "pass_inv org rules' now s0 (org_signals org s) out t" and fs: "oc_compileFailures out = fs'" and
    recs: "list_all2 same_event recs (pass_events org actor kind runID now out)" and
    s': "db_of s' = (db_of t)\<lparr>audit_events := audit_events t @ recs,
      t_runs := t_runs s @ [finished_run out finished (new_run runID org actor kind now)]\<rparr>"
    by (elim exE conjE) (rule that; assumption)
  have eq: "rules' = rules" "fs' = fs" using rules c by simp_all
  have r0: "ownership_row o2 c2 s0 = ownership_row o2 c2 s" "active_override o2 c2 s0 = active_override o2 c2 s" for o2 c2
    using db_of_fields [OF s0] by (simp_all add: ownership_row_def active_override_def)
  have st0: "settled org rules now s0 (org_signals org s)"
    using st by (simp add: settled_def pass_decision_def r0 now)
  have q: "t_explanations t = t_explanations s0" "oc_changed out = 0" "oc_auditGroups out = []"
    using pass st0 by (simp_all add: pass_inv_def rows_inv_def counts_inv_def eq)
  have len: "length recs = length fs + length (oc_expiredOverrides out) + 1"
    using list_all2_lengthD [OF recs] by (simp add: pass_events_def q fs eq)
  have au: "audit_events s' = audit_events s @ recs" and ex: "t_explanations s' = t_explanations s"
    using db_of_fields [OF s'] db_of_fields [OF s0] pass q(1) by (simp_all add: pass_inv_def frame_inv_def)
  have rows: "\<exists>p. ownership_row org (sg_CertificateID sig) s = Some p \<and>
       ownership_row org (sg_CertificateID sig) s' = Some (p\<lparr>co_LastEvaluatedAt := now\<rparr>)" if "sig \<in> set (org_signals org s)" for sig
  proof -
    from st0 that obtain p where p: "ownership_row org (sg_CertificateID sig) s = Some p"
      "agrees p (pass_decision org rules now s0 sig)" by (auto simp: settled_def r0)
    from pass that obtain x where "ownership_row org (sg_CertificateID sig) t = Some (fst (next_row org (sg_CertificateID sig)
        (pass_decision org rules now s0 sig) (Some p) x now))"
      by (auto simp: pass_inv_def rows_inv_def r0 eq p)
    moreover have "ownership_row org (sg_CertificateID sig) s' = ownership_row org (sg_CertificateID sig) t"
      using db_of_fields [OF s'] by (simp add: ownership_row_def)
    ultimately show ?thesis using p by (simp add: next_row_unchanged)
  qed
  show ?thesis
    using ex q(2) au len rows now by (simp add: res recompute_result_def)
qed

text \<open>
  A recompute that returns an error, whichever of its three entry points was used and whichever
  read, write, audit or commit failed, leaves the database as it was.
\<close>

theorem recompute_atomic:
  "fails_clean db_of (Recompute env svc org u) \<and> fails_clean db_of (RecomputeScheduled env svc org) \<and>
   fails_clean db_of (RecomputeNoWait env svc org u)"
proof (intro conjI)
  have r: "fails_clean db_of (recompute env svc org a k)" for a k
    unfolding recompute_def by (intro fails_clean_bindE orr.run_fails_clean frame_intros)
  show "fails_clean db_of (Recompute env svc org u)" "fails_clean db_of (RecomputeScheduled env svc org)"
    unfolding Recompute_def RecomputeScheduled_def
    by (intro fails_clean_bindE frame_intros; simp add: r split: prod.split)+
  obtain a k where ak: "recompute_actor u = (a, k)" by fastforce
  show "fails_clean db_of (RecomputeNoWait env svc org u)"
    unfolding RecomputeNoWait_def ak prod.case
  proof (rule fails_clean_bindE [OF leaves_guardE], rule fails_clean_bindE [OF leaves_Now])
    fix now
    show "fails_clean db_of (bindE (TryWithTxLockedOwnershipRepeatableRead env org (runRecomputeTx env svc org a k now)) (\<lambda>r.
     case r of None \<Rightarrow> throwE ErrRecomputeInProgress | Some result \<Rightarrow> retE result))"
      unfolding fails_clean_def
      by (auto simp: bindE_Inl throwE_Inl retE_Inl split: option.splits dest!: TryWithTxLockedOwnership_cases)
  qed
qed

text \<open>
  While another session holds the organization's recompute lock, the non-blocking entry point
  answers that a recompute is in progress, and changes nothing.
\<close>

theorem RecomputeNoWait_in_progress:
  assumes nf: "no_faults env" and org: "TrimSpace org \<noteq> []" and held: "(ownership_lock_ns, org) \<in> set (w_locks s)"
  shows "\<exists>s'. RecomputeNoWait env svc org u s = (Inl ErrRecomputeInProgress, s') \<and> db_of s' = db_of s"
  using assms
  by (simp add: RecomputeNoWait_def bindE_def guardE_def retE_def Now_def TryWithTxLockedOwnershipRepeatableRead_def
      dbcall_ok db_query_ok throwE_def split_beta) (simp add: stepped_def)

section \<open>Witnesses\<close>

text \<open>A service that reads one certificate per page; one fallback rule and one lapsed override.\<close>

definition demo_svc :: Service where
  "demo_svc = \<lparr>sv_bulkAuditThreshold = 1, sv_retention = \<lparr>rp_KeepN = 2, rp_MaxAge = 100\<rparr>, sv_pageOverride = 1,
     sv_prunePerCertOverride = 0\<rparr>"

definition demo_lapsed :: CertificateOwnershipOverride where
  "demo_lapsed = \<lparr>ov_ID = ''v'', ov_OrganizationID = ''o1'', ov_CertificateID = ''c'', ov_ServiceID = ''s'',
     ov_Reason = [], ov_SetBy = ''u'', ov_SetAt = 5, ov_ExpiresAt = Some 900, ov_ClearedAt = None,
     ov_ClearedBy = None, ov_ClearedReason = None\<rparr>"

definition demo_due :: gov_db where
  "demo_due = \<lparr>w_calls = 0, w_ids = 0, w_clock = 0, w_tx = 0, w_locks = [], audit_events = [],
     t_rules = [demo_rule ''r'' PrecedenceFallback 0 MatchFallback [] ''t''],
     t_ownership = [], t_overrides = [demo_lapsed], t_explanations = [], t_runs = [],
     t_certificates = [\<lparr>ce_ID = ''c'', ce_OrganizationID = ''o1'', ce_Subject = [], ce_Issuer = [], ce_SANs = []\<rparr>],
     t_observations = [], t_agent_groups = [], t_memberships = [], t_tags = [], t_tag_assignments = [], t_services = []\<rparr>"

definition demo_tick :: env where
  "demo_tick = demo_env\<lparr>idAt := (\<lambda>n. replicate (Suc n) (CHR ''i''))\<rparr>"

definition demo_run :: "gov_db \<Rightarrow> (err + RecomputeResult) \<times> gov_db" where
  "demo_run = recompute demo_tick demo_svc ''o1'' ''u'' RecomputeActorUser"

definition demo_settled :: gov_db where
  "demo_settled = snd (demo_run demo_due)"

lemma demo_run_eval: "\<exists>res s'. demo_run demo_due = (Inr res, s') \<and> re_ExpiredOverrides res = 1 \<and>
  re_ChangedCertificates res = 1 \<and> active_override ''o1'' ''c'' demo_due \<noteq> None \<and> active_override ''o1'' ''c'' s' = None"
proof -
  have "(case demo_run demo_due of (Inr res, s') \<Rightarrow> re_ExpiredOverrides res = 1 \<and>
  re_ChangedCertificates res = 1 \<and> active_override ''o1'' ''c'' demo_due \<noteq> None \<and> active_override ''o1'' ''c'' s' = None| _ \<Rightarrow> False)"
    by code_simp
  then show ?thesis by (auto split: prod.splits sum.splits)
qed
lemma settled_code [code]:
  "settled org rules now s0 sigs \<longleftrightarrow> list_all (\<lambda>sig. case ownership_row org (sg_CertificateID sig) s0 of
     None \<Rightarrow> False | Some p \<Rightarrow> agrees p (pass_decision org rules now s0 sig)) sigs"
  by (auto simp: settled_def list_all_iff split: option.splits)

lemma demo_settled_eval:
  "\<exists>res s' rules fs. demo_run demo_settled = (Inr res, s') \<and> gov_wf demo_settled \<and> ids_ok demo_settled \<and>
     compileRules demo_tick (engine_rules ''o1'' demo_settled) = Inr (rules, fs) \<and>
     settled ''o1'' rules (clockAt demo_tick (w_clock demo_settled)) demo_settled (org_signals ''o1'' demo_settled)"
proof -
  have "(case demo_run demo_due of (_, s) \<Rightarrow>
     (case (demo_run s, compileRules demo_tick (engine_rules ''o1'' s)) of
     ((Inr res, s'), Inr (rules, fs)) \<Rightarrow> gov_wf s \<and> ids_ok s \<and>
       settled ''o1'' rules (clockAt demo_tick (w_clock s)) s (org_signals ''o1'' s) | _ \<Rightarrow> False))"
    by code_simp
  then show ?thesis unfolding demo_settled_def by (auto split: prod.splits sum.splits)
qed

lemma demo_due_wf: "gov_wf demo_due" "ids_ok demo_due"
  by (simp_all add: gov_wf_def ids_ok_def demo_due_def demo_lapsed_def one_active_def)

theorem recompute_decides_all_witness:
  "\<exists>res s'. demo_run demo_due = (Inr res, s') \<and> (\<exists>rules fs. compileRules demo_tick (engine_rules ''o1'' demo_due) = Inr (rules, fs)) \<and>
     t_rules s' = t_rules demo_due \<and> gov_wf s'"
proof -
  obtain res s' where run: "demo_run demo_due = (Inr res, s')" using demo_run_eval by blast
  from recompute_decides_all [OF run [unfolded demo_run_def] demo_due_wf] run show ?thesis by meson
qed

theorem recompute_expires_overrides_witness:
  "\<exists>res s'. demo_run demo_due = (Inr res, s') \<and> active_override ''o1'' ''c'' s' = None \<and>
     active_override ''o1'' ''c'' demo_due \<noteq> None"
proof -
  obtain res s' where run: "demo_run demo_due = (Inr res, s')"
    and d: "active_override ''o1'' ''c'' demo_due \<noteq> None" "active_override ''o1'' ''c'' s' = None"
    using demo_run_eval by blast
  have "''c'' \<in> sg_CertificateID ` set (org_signals ''o1'' demo_due)"
    using recompute_expires_overrides [OF run [unfolded demo_run_def] demo_due_wf] d by metis
  with run d show ?thesis by blast
qed


theorem recompute_settled_witness:
  "\<exists>res s'. demo_run demo_settled = (Inr res, s') \<and> re_ChangedCertificates res = 0 \<and>
     t_explanations s' = t_explanations demo_settled"
proof -
  obtain res s' rules fs where run: "demo_run demo_settled = (Inr res, s')" and wf: "gov_wf demo_settled" "ids_ok demo_settled"
    and r: "compileRules demo_tick (engine_rules ''o1'' demo_settled) = Inr (rules, fs)"
      "settled ''o1'' rules (clockAt demo_tick (w_clock demo_settled)) demo_settled (org_signals ''o1'' demo_settled)"
    using demo_settled_eval by (elim exE conjE) (rule that; assumption)
  from recompute_settled [OF run [unfolded demo_run_def] wf r] run show ?thesis by blast
qed

theorem RecomputeNoWait_in_progress_witness:
  "\<exists>s'. RecomputeNoWait demo_env demo_svc ''o1'' ''u1'' (demo_due\<lparr>w_locks := [(ownership_lock_ns, ''o1'')]\<rparr>) =
     (Inl ErrRecomputeInProgress, s')"
proof -
  have "TrimSpace ''o1'' \<noteq> []" by code_simp
  from RecomputeNoWait_in_progress [OF demo_no_faults this, of "demo_due\<lparr>w_locks := [(ownership_lock_ns, ''o1'')]\<rparr>" demo_svc "''u1''"]
  show ?thesis by auto
qed

section \<open>Rolling up and agreement with the synchronous path\<close>

lemma next_row_id_only:
  "(fst (next_row org cert d prior x now))\<lparr>co_ExplanationID := i\<rparr> = (fst (next_row org cert d prior y now))\<lparr>co_ExplanationID := i\<rparr>"
  "snd (next_row org cert d prior x now) = snd (next_row org cert d prior y now)"
  by (auto simp: next_row_def buildOwnership_def split: option.splits)

lemma length_apply_row:
  "length (t_explanations (apply_row org sig d prior x now s)) =
     length (t_explanations s) + (if snd (next_row org (sg_CertificateID sig) d prior x now) then 1 else 0)"
  by (simp add: apply_row_def split: prod.splits)

text \<open>
  The streaming pass and the synchronous re-derivation agree. For the same certificate, clock
  and unexpired override, \<open>processCert\<close> and \<open>rederiveCertificate\<close> leave the same ownership row up
  to the identifier of the explanation, and one writes an explanation exactly when the other does.
\<close>

theorem processCert_agrees_with_rederive:
  assumes sync: "rederiveCertificate env org cert ov now s = (Inr r, s1)"
    and sig: "signals_row org cert s = Some sig" and rules: "compileRules env (engine_rules org s) = Inr (rules, fs)"
    and pass: "processCert env svc org sig (ownership_row org cert s) ov rules now out s = (Inr out', s2)"
    and live: "\<not> override_expired ov now"
  shows "\<exists>co1 co2. ownership_row org cert s1 = Some co1 \<and> ownership_row org cert s2 = Some co2 \<and>
     co1\<lparr>co_ExplanationID := []\<rparr> = co2\<lparr>co_ExplanationID := []\<rparr> \<and>
     length (t_explanations s1) = length (t_explanations s2) \<and> audit_events s1 = audit_events s2"
proof -
  note c = signals_row_id [OF sig]
  let ?d = "decideOwnership sig ov rules now" and ?p = "ownership_row org cert s"
  obtain x where 1: "db_of s1 = apply_row org sig ?d ?p x now (db_of s)"
    using rederive_run [OF sync] sig rules by auto
  obtain y where 2: "db_of s2 = apply_row org sig ?d ?p y now (db_of s)"
    using processCert_run [OF pass] live by (auto simp: c dest: autoExpire_Inr)
  have p: "?p = ownership_row org (sg_CertificateID sig) (db_of s)" by (simp add: c ownership_row_def)
  have rows: "ownership_row org cert t = ownership_row org (sg_CertificateID sig) (db_of t)" for t :: "'a gov_db_scheme"
    by (simp add: c ownership_row_def)
  have "ownership_row org cert s1 = Some (fst (next_row org cert ?d ?p x now))"
    "ownership_row org cert s2 = Some (fst (next_row org cert ?d ?p y now))"
    using apply_row_lookup(1) [OF p, of ?d x now] apply_row_lookup(1) [OF p, of ?d y now] rows [of s1] rows [of s2]
    unfolding 1 2 c by simp_all
  moreover have "length (t_explanations (db_of s1)) = length (t_explanations (db_of s2))"
    "audit_events (db_of s1) = audit_events (db_of s2)"
    unfolding 1 2 by (simp_all add: length_apply_row next_row_id_only(2) [where x = x and y = y])
  ultimately show ?thesis by (simp add: next_row_id_only(1) [where x = x and y = y])
qed

text \<open>
  Rolling up is exact. After \<open>n\<close> certificates fell into one transition group, the group counts
  \<open>n\<close>, keeps the first hundred as samples, and either lists all of them (up to the threshold) or,
  beyond it, is rolled up and lists none.
\<close>

theorem audit_group_rollup:
  assumes "0 \<le> threshold"
  shows "fold (grow_group threshold) certs empty_group =
    \<lparr>ag_count = int (length certs), ag_samples = take auditSampleCap certs,
     ag_certIDs = (if int (length certs) > threshold then [] else certs), ag_rolledUp = (int (length certs) > threshold)\<rparr>"
  using assms
  by (induction certs rule: rev_induct) (auto simp: empty_group_def grow_group_def Let_def)

theorem audit_group_rollup_witness:
  "fold (grow_group 1) [''a'', ''b''] empty_group =
    \<lparr>ag_count = 2, ag_samples = [''a'', ''b''], ag_certIDs = [], ag_rolledUp = True\<rparr>"
  using audit_group_rollup [of 1 "[''a'', ''b'']"] by (simp add: auditSampleCap_def)

lemma demo_agree_eval:
  "\<exists>r s1 sig rules fs out' s2. rederiveCertificate demo_tick ''o1'' ''c'' None 5 demo_due = (Inr r, s1) \<and>
     signals_row ''o1'' ''c'' demo_due = Some sig \<and> compileRules demo_tick (engine_rules ''o1'' demo_due) = Inr (rules, fs) \<and>
     processCert demo_tick demo_svc ''o1'' sig (ownership_row ''o1'' ''c'' demo_due) None rules 5 (new_outcome []) demo_due = (Inr out', s2)"
proof -
  have "(case (rederiveCertificate demo_tick ''o1'' ''c'' None 5 demo_due, signals_row ''o1'' ''c'' demo_due,
       compileRules demo_tick (engine_rules ''o1'' demo_due)) of
     ((Inr r, s1), Some sig, Inr (rules, fs)) \<Rightarrow>
       isl (fst (processCert demo_tick demo_svc ''o1'' sig (ownership_row ''o1'' ''c'' demo_due) None rules 5 (new_outcome []) demo_due)) = False
     | _ \<Rightarrow> False)"
    by code_simp
  then show ?thesis by (auto split: prod.splits sum.splits option.splits) (metis isl_def obj_sumE prod.collapse)
qed

theorem processCert_agrees_with_rederive_witness:
  "\<exists>s1 s2 sig rules out' r co1 co2. rederiveCertificate demo_tick ''o1'' ''c'' None 5 demo_due = (Inr r, s1) \<and>
     processCert demo_tick demo_svc ''o1'' sig (ownership_row ''o1'' ''c'' demo_due) None rules 5 (new_outcome []) demo_due = (Inr out', s2) \<and>
     ownership_row ''o1'' ''c'' s1 = Some co1 \<and> ownership_row ''o1'' ''c'' s2 = Some co2 \<and>
     co1\<lparr>co_ExplanationID := []\<rparr> = co2\<lparr>co_ExplanationID := []\<rparr>"
proof -
  obtain r s1 sig rules fs out' s2 where e: "rederiveCertificate demo_tick ''o1'' ''c'' None 5 demo_due = (Inr r, s1)"
     "signals_row ''o1'' ''c'' demo_due = Some sig" "compileRules demo_tick (engine_rules ''o1'' demo_due) = Inr (rules, fs)"
     "processCert demo_tick demo_svc ''o1'' sig (ownership_row ''o1'' ''c'' demo_due) None rules 5 (new_outcome []) demo_due = (Inr out', s2)"
    using demo_agree_eval by (elim exE conjE) (rule that; assumption)
  have "\<not> override_expired None 5" by (simp add: override_expired_def)
  from processCert_agrees_with_rederive [OF e this] e(1,4) show ?thesis by metis
qed

end
