(* ===== verification/Retention.thy ===== *)
theory Retention imports Recompute begin

text \<open>
  Explanation retention (\<open>retention.go\<close>, \<open>retention_prune.go\<close>). \<open>SelectExplanationsToPrune\<close> is the
  rule as the code documents it, a pure function; \<open>PruneExplanationsPage\<close> walks one page of
  certificates in one locked transaction and deletes by a bounded SQL statement. The theorems state
  the rule declaratively, that the statement implements it, and what a page deletes.
\<close>

section \<open>The retention rule\<close>

record ExplanationRecord =
  er_ID :: string
  er_DecidedAt :: Time

text \<open>Newest first, then by identifier.\<close>

definition record_key :: "ExplanationRecord \<Rightarrow> Time \<times> string" where
  "record_key r = (- er_DecidedAt r, er_ID r)"

fun prune_loop :: "int \<Rightarrow> string \<Rightarrow> Time \<Rightarrow> int \<Rightarrow> ExplanationRecord list \<Rightarrow> string list" where
  "prune_loop keepN current cutoff index [] = []"
| "prune_loop keepN current cutoff index (r # rs) =
     (if index < keepN then prune_loop keepN current cutoff (index + 1) rs
      else if er_ID r = current then prune_loop keepN current cutoff (index + 1) rs
      else if \<not> er_DecidedAt r < cutoff then prune_loop keepN current cutoff (index + 1) rs
      else er_ID r # prune_loop keepN current cutoff (index + 1) rs)"

definition SelectExplanationsToPrune ::
  "ExplanationRecord list \<Rightarrow> string \<Rightarrow> RetentionPolicy \<Rightarrow> Time \<Rightarrow> string list" where
  "SelectExplanationsToPrune timeline currentExplanationID policy now =
     (if rp_KeepN policy < 1 \<or> rp_MaxAge policy \<le> 0 then []
      else if int (length timeline) \<le> rp_KeepN policy then []
      else prune_loop (rp_KeepN policy) currentExplanationID (now - rp_MaxAge policy) 0 (sort_key record_key timeline))"

section \<open>One page of pruning\<close>

definition DefaultExplanationPrunePageSize :: int where "DefaultExplanationPrunePageSize = 500"
definition maxExplanationPrunePageSize :: int where "maxExplanationPrunePageSize = 1000"
definition defaultExplanationPrunePerCertLimit :: int where "defaultExplanationPrunePerCertLimit = 256"

record ExplanationPruneResult =
  pr_OrganizationID :: string
  pr_StartCursor :: string
  pr_NextCursor :: string
  pr_CertsScanned :: int
  pr_DeletedCount :: int
  pr_Done :: bool

definition prunePerCertLimit :: "Service \<Rightarrow> nat" where
  "prunePerCertLimit svc =
     nat (if sv_prunePerCertOverride svc > 0 then sv_prunePerCertOverride svc else defaultExplanationPrunePerCertLimit)"

definition pruneCertificateExplanations ::
  "env \<Rightarrow> Service \<Rightarrow> string \<Rightarrow> string \<Rightarrow> RetentionPolicy \<Rightarrow> Time \<Rightarrow> ('z gov_db_scheme, nat) prog" where
  "pruneCertificateExplanations env svc org cert policy now =
     bindE (ListPrunableExplanationIDs env org cert (now - rp_MaxAge policy) (nat (rp_KeepN policy)) (prunePerCertLimit svc)) (\<lambda>prune.
     if prune = [] then retE 0
     else DeleteOwnershipExplanationsForCertificate env org cert prune)"

definition pruned_event :: "string \<Rightarrow> string \<Rightarrow> string \<Rightarrow> Time \<Rightarrow> ExplanationPruneResult \<Rightarrow> RetentionPolicy \<Rightarrow> Event" where
  "pruned_event org actor actorKind now result policy =
     \<lparr>ev_ID = [], ev_OrganizationID = org, ev_OccurredAt = now, ev_Actor = actor, ev_ActorType = actorKind,
      ev_Action = ''governance.explanation_pruned'', ev_TargetType = ''organization'', ev_TargetID = org, ev_RequestID = [],
      ev_Metadata = JObj [(''severity'', JStr ''security''), (''organization_id'', JStr org),
        (''deleted_count'', JNum (pr_DeletedCount result)), (''certs_scanned'', JNum (pr_CertsScanned result)),
        (''keep_n'', JNum (rp_KeepN policy)), (''max_age'', JStr (DurationString (rp_MaxAge policy))),
        (''cursor'', JStr (pr_StartCursor result)), (''next_cursor'', JStr (pr_NextCursor result))]\<rparr>"

definition emitExplanationPruned ::
  "env \<Rightarrow> string \<Rightarrow> string \<Rightarrow> string \<Rightarrow> Time \<Rightarrow> ExplanationPruneResult \<Rightarrow> RetentionPolicy \<Rightarrow> ('z world_scheme, unit) prog" where
  "emitExplanationPruned env org actor actorKind now result policy = Record env (pruned_event org actor actorKind now result policy)"

definition prune_page ::
  "env \<Rightarrow> Service \<Rightarrow> string \<Rightarrow> string \<Rightarrow> string \<Rightarrow> string \<Rightarrow> int \<Rightarrow> RetentionPolicy \<Rightarrow> Time \<Rightarrow>
     ('z gov_db_scheme, ExplanationPruneResult) prog" where
  "prune_page env svc org actor actorKind cursor page_size policy now =
     bindE (ListCertificateIDsWithExplanationsPaged env org cursor (nat page_size)) (\<lambda>certIDs.
     bindE (foldE (\<lambda>cert result.
         bindE (pruneCertificateExplanations env svc org cert policy now) (\<lambda>deleted.
         retE (result\<lparr>pr_DeletedCount := pr_DeletedCount result + int deleted, pr_NextCursor := cert\<rparr>)))
       certIDs
       \<lparr>pr_OrganizationID = org, pr_StartCursor = cursor, pr_NextCursor = cursor,
        pr_CertsScanned = int (length certIDs), pr_DeletedCount = 0, pr_Done = (int (length certIDs) < page_size)\<rparr>) (\<lambda>result.
     if pr_DeletedCount result > 0 then
       bindE (emitExplanationPruned env org actor actorKind now result policy) (\<lambda>_. retE result)
     else retE result))"

definition prune_actor :: "string \<Rightarrow> string \<times> string" where
  "prune_actor actorUserID = (let actor = TrimSpace actorUserID in
     if actor = [] then (''system'', ''system'') else (actor, ''user''))"

definition PruneExplanationsPage ::
  "env \<Rightarrow> Service \<Rightarrow> string \<Rightarrow> string \<Rightarrow> string \<Rightarrow> int \<Rightarrow> ('z gov_db_scheme, ExplanationPruneResult) prog" where
  "PruneExplanationsPage env svc organizationID actorUserID cursor page_size =
     (let org = TrimSpace organizationID; policy = sv_retention svc;
          page_size = clamp_page DefaultExplanationPrunePageSize maxExplanationPrunePageSize page_size in
      bindE (guardE (org \<noteq> []) ErrRequired) (\<lambda>_.
      bindE (guardE (\<not> (rp_KeepN policy < 1 \<or> rp_MaxAge policy \<le> 0)) ErrInvalidRetention) (\<lambda>_.
      case prune_actor actorUserID of (actor, actorKind) \<Rightarrow>
      bindE (Now env) (\<lambda>now.
      WithTxLockedOwnership env org (prune_page env svc org actor actorKind cursor page_size policy now)))))"

section \<open>The selection\<close>

lemma prune_loop_eq:
  "prune_loop keepN current cutoff index xs =
     map er_ID (filter (\<lambda>r. er_ID r \<noteq> current \<and> er_DecidedAt r < cutoff) (drop (nat (keepN - index)) xs))"
proof (induction xs arbitrary: index)
  case (Cons r rs)
  show ?case
  proof (cases "index < keepN")
    case True
    then have "nat (keepN - index) = Suc (nat (keepN - (index + 1)))" by simp
    with Cons True show ?thesis by simp
  next
    case False
    then have "nat (keepN - index) = 0" "nat (keepN - (index + 1)) = 0" by simp_all
    with Cons False show ?thesis by simp
  qed
qed simp

text \<open>The early exit for short timelines is the general case.\<close>

lemma Select_eq:
  assumes "1 \<le> rp_KeepN policy" "0 < rp_MaxAge policy"
  shows "SelectExplanationsToPrune timeline current policy now =
    map er_ID (filter (\<lambda>r. er_ID r \<noteq> current \<and> er_DecidedAt r < now - rp_MaxAge policy)
      (drop (nat (rp_KeepN policy)) (sort_key record_key timeline)))"
  using assms by (auto simp: SelectExplanationsToPrune_def prune_loop_eq)


lemma record_key_total: "record_key r = record_key r' \<longleftrightarrow> r = r'"
  by (auto simp: record_key_def intro: ExplanationRecord.equality)

lemma insort_key_map: "insort_key f (g x) (map g xs) = map g (insort_key (\<lambda>x. f (g x)) x xs)"
  by (induction xs) auto

lemma sort_key_map: "sort_key f (map g xs) = map g (sort_key (\<lambda>x. f (g x)) xs)"
  by (induction xs) (simp_all add: insort_key_map)

lemma distinct_map_eqD: "distinct (map f xs) \<Longrightarrow> x \<in> set xs \<Longrightarrow> y \<in> set xs \<Longrightarrow> f x = f y \<Longrightarrow> x = y"
  by (simp add: distinct_map inj_on_def)

lemma filter_not_in_take:
  assumes "distinct (map f xs)"
  shows "filter (\<lambda>x. f x \<notin> set (map f (take n xs))) xs = drop n xs"
proof -
  have d: "distinct (map f (take n xs) @ map f (drop n xs))"
    using assms by (metis append_take_drop_id map_append)
  have "filter (\<lambda>x. f x \<notin> set (map f (take n xs))) (take n xs @ drop n xs) = drop n xs"
    using d unfolding filter_append by (auto simp: filter_empty_conv filter_id_conv)
  then show ?thesis by simp
qed

text \<open>How many records come before \<open>r\<close> on the timeline.\<close>

definition rank :: "ExplanationRecord list \<Rightarrow> ExplanationRecord \<Rightarrow> nat" where
  "rank timeline r = card {r' \<in> set timeline. record_key r' < record_key r}"

lemma sorted_distinct_rank:
  assumes "sorted (map f xs)" "distinct (map f xs)" "i < length xs"
  shows "card {x \<in> set xs. f x < f (xs ! i)} = i"
proof -
  have lt: "f (xs ! j) < f (xs ! i) \<longleftrightarrow> j < i" if "j < length xs" for j
  proof (cases j i rule: linorder_cases)
    case less
    then have "f (xs ! j) \<le> f (xs ! i)" "f (xs ! j) \<noteq> f (xs ! i)"
      using assms that sorted_nth_mono [of "map f xs" j i] nth_eq_iff_index_eq [of "map f xs" i j] by auto
    with less show ?thesis by simp
  next
    case greater
    then have "f (xs ! i) \<le> f (xs ! j)" using assms that sorted_nth_mono [of "map f xs" i j] by auto
    with greater show ?thesis by auto
  qed simp
  have "{x \<in> set xs. f x < f (xs ! i)} = (\<lambda>j. xs ! j) ` {..<i}"
    using lt assms(3) by (auto simp: in_set_conv_nth image_iff) (metis order.strict_trans lessThan_iff)+
  moreover have "inj_on (\<lambda>j. xs ! j) {..<i}"
    using assms(2,3) by (auto intro!: inj_onI simp: distinct_map nth_eq_iff_index_eq)
  ultimately show ?thesis by (simp add: card_image)
qed

text \<open>
  The retention rule. An explanation is selected for pruning exactly when it is on the timeline,
  is not the current one, is strictly older than the cut-off, and at least \<open>KeepN\<close> explanations
  are newer (or as new, with a smaller identifier). A degenerate policy selects nothing.
\<close>

theorem SelectExplanationsToPrune_spec:
  assumes "distinct (map er_ID timeline)"
  shows "set (SelectExplanationsToPrune timeline current policy now) =
    {er_ID r | r. r \<in> set timeline \<and> er_ID r \<noteq> current \<and> er_DecidedAt r < now - rp_MaxAge policy \<and>
       rp_KeepN policy \<le> int (rank timeline r) \<and> 1 \<le> rp_KeepN policy \<and> 0 < rp_MaxAge policy}"
proof (cases "1 \<le> rp_KeepN policy \<and> 0 < rp_MaxAge policy")
  case False
  then show ?thesis by (auto simp: SelectExplanationsToPrune_def)
next
  case True
  let ?xs = "sort_key record_key timeline" and ?n = "nat (rp_KeepN policy)"
  have "distinct timeline" using assms by (simp add: distinct_map)
  then have d: "distinct (map record_key ?xs)"
    by (simp add: distinct_map inj_on_def record_key_total)
  have rank: "rank timeline (?xs ! i) = i" if "i < length ?xs" for i
    using sorted_distinct_rank [OF sorted_sort_key d that] by (simp add: rank_def)
  have "r \<in> set (drop ?n ?xs) \<longleftrightarrow> r \<in> set timeline \<and> ?n \<le> rank timeline r" for r
  proof -
    have "set (drop ?n ?xs) = {?xs ! i | i. i < length ?xs \<and> ?n \<le> i}"
      by (auto simp: set_conv_nth) (metis add_diff_cancel_left' add.commute diff_less_mono le_add2 le_iff_add nth_drop less_diff_conv)+
    moreover have "r \<in> set timeline \<longleftrightarrow> (\<exists>i < length ?xs. r = ?xs ! i)"
      by (metis in_set_conv_nth set_sort)
    ultimately show ?thesis using rank by auto
  qed
  then show ?thesis using True by (auto simp: Select_eq)
qed


text \<open>
  Pruning is idempotent. On the timeline that is left after deleting what was selected, the same
  policy at the same time selects nothing.
\<close>

theorem SelectExplanationsToPrune_idempotent:
  assumes d: "distinct (map er_ID timeline)"
  shows "SelectExplanationsToPrune
    (filter (\<lambda>r. er_ID r \<notin> set (SelectExplanationsToPrune timeline current policy now)) timeline) current policy now = []"
proof (cases "1 \<le> rp_KeepN policy \<and> 0 < rp_MaxAge policy")
  case False
  then show ?thesis by (auto simp: SelectExplanationsToPrune_def)
next
  case True
  let ?xs = "sort_key record_key timeline" and ?n = "nat (rp_KeepN policy)"
  let ?P = "\<lambda>r. er_ID r \<noteq> current \<and> er_DecidedAt r < now - rp_MaxAge policy"
  let ?sel = "map er_ID (filter ?P (drop ?n ?xs))"
  have dx: "distinct (map er_ID ?xs)" using d by (simp add: distinct_map)
  then have dd: "distinct (map er_ID (take ?n ?xs) @ map er_ID (drop ?n ?xs))"
    unfolding map_append [symmetric] append_take_drop_id .
  have "filter (\<lambda>r. er_ID r \<notin> set ?sel) (take ?n ?xs) = take ?n ?xs"
    using dd by (auto simp: filter_id_conv)
  moreover have "filter (\<lambda>r. er_ID r \<notin> set ?sel) (drop ?n ?xs) = filter (\<lambda>r. \<not> ?P r) (drop ?n ?xs)"
  proof (intro filter_cong refl)
    fix r assume r: "r \<in> set (drop ?n ?xs)"
    have "er_ID r \<in> er_ID ` set (filter ?P (drop ?n ?xs)) \<longleftrightarrow> r \<in> set (filter ?P (drop ?n ?xs))"
      using dd r by (intro inj_on_image_mem_iff [of er_ID "set (drop ?n ?xs)"]) (auto simp: distinct_map)
    with r show "(er_ID r \<notin> set ?sel) = (\<not> ?P r)" by simp
  qed
  ultimately have keep: "filter (\<lambda>r. er_ID r \<notin> set ?sel) ?xs = take ?n ?xs @ filter (\<lambda>r. \<not> ?P r) (drop ?n ?xs)"
    using filter_append [of "\<lambda>r. er_ID r \<notin> set ?sel" "take ?n ?xs" "drop ?n ?xs"] by simp
  have "filter ?P (drop ?n (take ?n ?xs @ filter (\<lambda>r. \<not> ?P r) (drop ?n ?xs))) = []"
    by (cases "?n \<le> length ?xs") (auto simp: filter_empty_conv dest: in_set_dropD)
  then show ?thesis
    unfolding Select_eq [OF conjunct1 [OF True] conjunct2 [OF True]] filter_sort [symmetric] keep by simp
qed

section \<open>The statement selects by the rule\<close>

definition record_of :: "OwnershipMatchExplanation \<Rightarrow> ExplanationRecord" where
  "record_of e = \<lparr>er_ID = ex_ID e, er_DecidedAt = ex_DecidedAt e\<rparr>"

definition timeline_of :: "string \<Rightarrow> string \<Rightarrow> 'z gov_db_scheme \<Rightarrow> ExplanationRecord list" where
  "timeline_of org cert s = map record_of (cert_explanations org cert s)"

definition current_id :: "string \<Rightarrow> string \<Rightarrow> 'z gov_db_scheme \<Rightarrow> string" where
  "current_id org cert s = (case ownership_row org cert s of None \<Rightarrow> [] | Some co \<Rightarrow> co_ExplanationID co)"

lemma record_of_key: "record_key (record_of e) = timeline_key e"
  by (simp add: record_key_def record_of_def timeline_key_def)

lemma cert_explanations_distinct: "gov_wf s \<Longrightarrow> distinct (map ex_ID (cert_explanations org cert s))"
  by (simp add: gov_wf_def cert_explanations_def distinct_map_filter)

lemma is_current_iff:
  assumes "gov_wf s" and "e \<in> set (cert_explanations org cert s)" and "ex_ID e \<noteq> []"
  shows "is_current s e \<longleftrightarrow> ex_ID e = current_id org cert s"
proof -
  have e: "ex_OrganizationID e = org" "ex_CertificateID e = cert" using assms(2) by (auto simp: cert_explanations_def)
  have d: "distinct (map co_key (t_ownership s))" using assms(1) by (simp add: gov_wf_def)
  show ?thesis
  proof (cases "ownership_row org cert s")
    case None
    then have "\<forall>co \<in> set (t_ownership s). co_key co \<noteq> (org, cert)"
      by (simp add: ownership_row_def find_None_set)
    with None e assms(3) show ?thesis by (auto simp: is_current_def current_id_def co_key_def)
  next
    case (Some co)
    then have "co \<in> set (t_ownership s)" "co_key co = (org, cert)"
      by (auto simp: ownership_row_def dest: find_Some_D)
    then have "is_current s e \<longleftrightarrow> co_ExplanationID co = ex_ID e"
      using distinct_map_eqD [OF d _ \<open>co \<in> set (t_ownership s)\<close>] e
      unfolding is_current_def co_key_def by (metis prod.inject)
    then show ?thesis using Some by (auto simp: current_id_def)
  qed
qed

text \<open>
  The bounded SQL statement implements the rule: its candidates are the selection of the pure
  function on the certificate's timeline, oldest first, cut off at the limit.
\<close>

theorem prunable_ids_by_rule:
  assumes wf: "gov_wf s" and ids: "\<forall>e \<in> set (t_explanations s). ex_ID e \<noteq> []"
    and policy: "1 \<le> rp_KeepN policy" "0 < rp_MaxAge policy"
  shows "prunable_ids org cert (now - rp_MaxAge policy) (nat (rp_KeepN policy)) limit s =
    take limit (rev (SelectExplanationsToPrune (timeline_of org cert s) (current_id org cert s) policy now))"
proof -
  let ?n = "nat (rp_KeepN policy)" and ?ce = "cert_explanations org cert s"
  let ?xs = "sort_key timeline_key ?ce"
  let ?P = "\<lambda>e. ex_ID e \<noteq> current_id org cert s \<and> ex_DecidedAt e < now - rp_MaxAge policy"
  have sub: "set ?ce \<subseteq> set (t_explanations s)" by (auto simp: cert_explanations_def)
  have dx: "distinct (map ex_ID ?xs)"
    using cert_explanations_distinct [OF wf, of org cert] by (simp add: distinct_map)
  have cur: "is_current s e \<longleftrightarrow> ex_ID e = current_id org cert s" if "e \<in> set ?ce" for e
    using is_current_iff [OF wf that] ids sub that by blast
  have "sort_key timeline_key (filter (\<lambda>e. ex_DecidedAt e < now - rp_MaxAge policy \<and>
      ex_ID e \<notin> set (keep_ids org cert ?n s) \<and> \<not> is_current s e) ?ce) =
    filter ?P (filter (\<lambda>e. ex_ID e \<notin> set (map ex_ID (take ?n ?xs))) ?xs)"
    unfolding filter_sort [symmetric] filter_filter keep_ids_def
    by (intro filter_cong refl) (auto simp: cur)
  then have sql: "prunable_ids org cert (now - rp_MaxAge policy) ?n limit s = take limit (map ex_ID (rev (filter ?P (drop ?n ?xs))))"
    unfolding filter_not_in_take [OF dx] by (simp add: prunable_ids_def)
  have "SelectExplanationsToPrune (timeline_of org cert s) (current_id org cert s) policy now = map ex_ID (filter ?P (drop ?n ?xs))"
    by (simp add: Select_eq [OF policy] timeline_of_def sort_key_map record_of_key drop_map filter_map comp_def)
      (simp add: record_of_def)
  with sql show ?thesis by (simp add: rev_map)
qed

section \<open>What a page deletes\<close>

lemma prunable_ids_cong:
  assumes "cert_explanations org cert t = cert_explanations org cert s" and "t_ownership t = t_ownership s"
  shows "prunable_ids org cert cutoff n limit t = prunable_ids org cert cutoff n limit s"
  using assms by (simp add: prunable_ids_def keep_ids_def is_current_def)

lemma prunable_not_current:
  assumes "gov_wf s" "e \<in> set (t_explanations s)" "ex_ID e \<in> set (prunable_ids org cert cutoff n limit s)"
  shows "ex_OrganizationID e = org" "ex_CertificateID e = cert" "\<not> is_current s e"
proof -
  from assms(3) obtain x where x: "x \<in> set (cert_explanations org cert s)" "ex_ID x = ex_ID e" "\<not> is_current s x"
    by (auto simp: prunable_ids_def dest!: in_set_takeD)
  then have "x = e"
    using assms(1,2) distinct_map_eqD [of ex_ID "t_explanations s" x e] by (auto simp: gov_wf_def cert_explanations_def)
  with x show "ex_OrganizationID e = org" "ex_CertificateID e = cert" "\<not> is_current s e"
    by (auto simp: cert_explanations_def)
qed

text \<open>The rows a page over \<open>certs\<close> deletes from the state \<open>s\<close>.\<close>

definition doomed ::
  "Service \<Rightarrow> string \<Rightarrow> RetentionPolicy \<Rightarrow> Time \<Rightarrow> 'z gov_db_scheme \<Rightarrow> string list \<Rightarrow> OwnershipMatchExplanation \<Rightarrow> bool" where
  "doomed svc org policy now s certs e \<longleftrightarrow> ex_OrganizationID e = org \<and> ex_CertificateID e \<in> set certs \<and>
     ex_ID e \<in> set (prunable_ids org (ex_CertificateID e) (now - rp_MaxAge policy) (nat (rp_KeepN policy)) (prunePerCertLimit svc) s)"

lemma doomed_Nil [simp]: "doomed svc org policy now s [] = (\<lambda>_. False)"
  by (simp add: doomed_def fun_eq_iff)

lemma pruneCertificate_Inr:
  assumes run: "pruneCertificateExplanations env svc org cert policy now s = (Inr n, s')" and wf: "gov_wf s"
  shows "n = length (filter (doomed svc org policy now s [cert]) (t_explanations s)) \<and>
    db_of s' = (db_of s)\<lparr>t_explanations := filter (\<lambda>e. \<not> doomed svc org policy now s [cert] e) (t_explanations s)\<rparr>"
proof -
  let ?ids = "prunable_ids org cert (now - rp_MaxAge policy) (nat (rp_KeepN policy)) (prunePerCertLimit svc) s"
  have ids: "prunable_ids org cert c k l (stepped s) = prunable_ids org cert c k l s" for c k l
    by (rule prunable_ids_cong) (simp_all add: cert_explanations_def)
  have del: "deletable org cert ?ids s e \<longleftrightarrow> doomed svc org policy now s [cert] e" if "e \<in> set (t_explanations s)" for e
    using prunable_not_current(3) [OF wf that] by (auto simp: deletable_def doomed_def)
  have step: "deletable org cert ?ids (stepped t) = deletable org cert ?ids t" for t :: "'a gov_db_scheme"
    by (simp add: deletable_def is_current_def fun_eq_iff)
  show ?thesis
  proof (cases "?ids = []")
    case True
    then have "n = 0 \<and> s' = stepped s"
      using run by (simp add: pruneCertificateExplanations_def ListPrunableExplanationIDs_def run_simps ids)
    moreover have "\<not> doomed svc org policy now s [cert] e" for e using True by (auto simp: doomed_def)
    ultimately show ?thesis by simp
  next
    case False
    then have "n = length (filter (deletable org cert ?ids s) (t_explanations s)) \<and>
      db_of s' = (db_of s)\<lparr>t_explanations := delete_where (deletable org cert ?ids s) (t_explanations s)\<rparr>"
      using run by (auto simp: pruneCertificateExplanations_def ListPrunableExplanationIDs_def
        DeleteOwnershipExplanationsForCertificate_def run_simps ids step db_of_push)
    moreover have "filter (deletable org cert ?ids s) (t_explanations s) = filter (doomed svc org policy now s [cert]) (t_explanations s)"
      "filter (\<lambda>e. \<not> deletable org cert ?ids s e) (t_explanations s) = filter (\<lambda>e. \<not> doomed svc org policy now s [cert] e) (t_explanations s)"
      using del by (intro filter_cong refl; simp)+
    ultimately show ?thesis by (simp add: delete_where_def)
  qed
qed


definition page_certs :: "string \<Rightarrow> string \<Rightarrow> nat \<Rightarrow> 'z gov_db_scheme \<Rightarrow> string list" where
  "page_certs org cursor n s = take n (sort (remdups (map ex_CertificateID
     (filter (\<lambda>e. ex_OrganizationID e = org \<and> cursor < ex_CertificateID e) (t_explanations s)))))"

lemma page_certs_distinct: "distinct (page_certs org cursor n s)"
  by (simp add: page_certs_def)

lemma gov_wf_fewer_explanations:
  "gov_wf s \<Longrightarrow> db_of t = (db_of s)\<lparr>t_explanations := filter P (t_explanations s)\<rparr> \<Longrightarrow> gov_wf t"
  using db_of_fields [of t "(db_of s)\<lparr>t_explanations := filter P (t_explanations s)\<rparr>"]
    inputs_of_fields(1) [of t s]
  by (simp add: gov_wf_def distinct_map_filter)

lemma prune_fold:
  assumes run: "foldE (\<lambda>cert result. bindE (pruneCertificateExplanations env svc org cert policy now) (\<lambda>deleted.
         retE (result\<lparr>pr_DeletedCount := pr_DeletedCount result + int deleted, pr_NextCursor := cert\<rparr>))) certs r0 s = (Inr r, s')"
    and wf: "gov_wf s" and d: "distinct certs" and zero: "pr_DeletedCount r0 = 0"
  shows "db_of s' = (db_of s)\<lparr>t_explanations := filter (\<lambda>e. \<not> doomed svc org policy now s certs e) (t_explanations s)\<rparr> \<and>
    r = r0\<lparr>pr_DeletedCount := int (length (filter (doomed svc org policy now s certs) (t_explanations s))),
           pr_NextCursor := last (pr_NextCursor r0 # certs)\<rparr>"
proof -
  let ?D = "doomed svc org policy now s"
  let ?I = "\<lambda>seen r t. db_of t = (db_of s)\<lparr>t_explanations := filter (\<lambda>e. \<not> ?D seen e) (t_explanations s)\<rparr> \<and>
    r = r0\<lparr>pr_DeletedCount := int (length (filter (?D seen) (t_explanations s))), pr_NextCursor := last (pr_NextCursor r0 # seen)\<rparr>"
  show ?thesis
  proof (rule foldE_rule [where I = ?I, OF run])
    show "?I [] r0 s" using zero by simp
  next
    fix seen cert rest b t b' t'
    assume split: "certs = seen @ cert # rest" and inv: "?I seen b t"
      and step: "bindE (pruneCertificateExplanations env svc org cert policy now) (\<lambda>deleted.
         retE (b\<lparr>pr_DeletedCount := pr_DeletedCount b + int deleted, pr_NextCursor := cert\<rparr>)) t = (Inr b', t')"
    from inv have t: "db_of t = (db_of s)\<lparr>t_explanations := filter (\<lambda>e. \<not> ?D seen e) (t_explanations s)\<rparr>" by simp
    have new: "cert \<notin> set seen" using d split by auto
    have ex: "t_explanations t = filter (\<lambda>e. \<not> ?D seen e) (t_explanations s)" and ow: "t_ownership t = t_ownership s"
      using db_of_fields [OF t] by simp_all
    have ce: "cert_explanations org cert t = cert_explanations org cert s"
      using new by (auto simp: cert_explanations_def ex doomed_def intro!: filter_cong)
    have D: "doomed svc org policy now t [cert] e \<longleftrightarrow> ?D [cert] e" for e
      using prunable_ids_cong [OF ce ow] by (auto simp: doomed_def)
    have grow: "?D (seen @ [cert]) e \<longleftrightarrow> ?D seen e \<or> ?D [cert] e" and disj: "?D [cert] e \<Longrightarrow> \<not> ?D seen e" for e
      using new by (auto simp: doomed_def)
    from step obtain n where run1: "pruneCertificateExplanations env svc org cert policy now t = (Inr n, t')"
      and b': "b' = b\<lparr>pr_DeletedCount := pr_DeletedCount b + int n, pr_NextCursor := cert\<rparr>"
      by (auto simp: run_simps)
    have wft: "gov_wf t" using gov_wf_fewer_explanations [OF wf t] .
    note one = pruneCertificate_Inr [OF run1 wft, unfolded D]
    have n: "n = length (filter (?D [cert]) (t_explanations s))"
      using one disj by (simp add: ex) (metis (mono_tags, lifting) filter_cong)
    have t': "db_of t' = (db_of s)\<lparr>t_explanations := filter (\<lambda>e. \<not> ?D (seen @ [cert]) e) (t_explanations s)\<rparr>"
      using one t by (simp add: ex grow conj_commute)
    have "length (filter (?D (seen @ [cert])) xs) = length (filter (?D seen) xs) + length (filter (?D [cert]) xs)" for xs
      using disj by (induction xs) (auto simp: grow)
    with n t' b' inv show "?I (seen @ [cert]) b' t'" by simp
  qed
qed


lemma prune_page_Inr:
  assumes run: "prune_page env svc org actor kind cursor psize policy now s = (Inr res, s')" and wf: "gov_wf s"
  shows "\<exists>recs. db_of s' = (db_of s)\<lparr>t_explanations := filter (\<lambda>e. \<not> doomed svc org policy now s (page_certs org cursor (nat psize) s) e) (t_explanations s),
        audit_events := audit_events s @ recs\<rparr> \<and>
    res = \<lparr>pr_OrganizationID = org, pr_StartCursor = cursor, pr_NextCursor = last (cursor # page_certs org cursor (nat psize) s),
      pr_CertsScanned = int (length (page_certs org cursor (nat psize) s)),
      pr_DeletedCount = int (length (filter (doomed svc org policy now s (page_certs org cursor (nat psize) s)) (t_explanations s))),
      pr_Done = (int (length (page_certs org cursor (nat psize) s)) < psize)\<rparr> \<and>
    (if pr_DeletedCount res > 0 then \<exists>e. recs = [e] \<and> same_event e (pruned_event org actor kind now res policy) else recs = [])"
proof -
  let ?c = "page_certs org cursor (nat psize) s"
  let ?r0 = "\<lparr>pr_OrganizationID = org, pr_StartCursor = cursor, pr_NextCursor = cursor,
        pr_CertsScanned = int (length ?c), pr_DeletedCount = 0, pr_Done = (int (length ?c) < psize)\<rparr>"
  have dm: "doomed svc org policy now (stepped s) ?c = doomed svc org policy now s ?c"
    by (simp add: doomed_def fun_eq_iff prunable_ids_cong [of org _ "stepped s" s] cert_explanations_def)
  from run obtain r t where
    fold: "foldE (\<lambda>cert result. bindE (pruneCertificateExplanations env svc org cert policy now) (\<lambda>deleted.
         retE (result\<lparr>pr_DeletedCount := pr_DeletedCount result + int deleted, pr_NextCursor := cert\<rparr>))) ?c ?r0 (stepped s) = (Inr r, t)"
    and rest: "(if pr_DeletedCount r > 0 then bindE (emitExplanationPruned env org actor kind now r policy) (\<lambda>_. retE r) else retE r) t = (Inr res, s')"
    unfolding prune_page_def ListCertificateIDsWithExplanationsPaged_def bindE_Inr db_query_Inr
    by (auto simp: page_certs_def)
  have f: "db_of t = (db_of s)\<lparr>t_explanations := filter (\<lambda>e. \<not> doomed svc org policy now s ?c e) (t_explanations s)\<rparr>"
    "r = ?r0\<lparr>pr_DeletedCount := int (length (filter (doomed svc org policy now s ?c) (t_explanations s))), pr_NextCursor := last (cursor # ?c)\<rparr>"
    using prune_fold [OF fold _ page_certs_distinct] wf by (simp_all add: dm)
  have au: "audit_events t = audit_events s" using db_of_fields(1) [OF f(1)] by simp
  show ?thesis
  proof (cases "pr_DeletedCount r > 0")
    case False
    with rest have "res = r" "s' = t" by (simp_all add: run_simps)
    with False f show ?thesis by (intro exI [of _ "[]"]) simp
  next
    case True
    with rest have r: "res = r" "emitExplanationPruned env org actor kind now r policy t = (Inr (), s')"
      by (simp_all add: run_simps)
    from Record_db [OF r(2) [unfolded emitExplanationPruned_def]] obtain e where
      "same_event e (pruned_event org actor kind now r policy)" "db_of s' = (db_of t)\<lparr>audit_events := audit_events t @ [e]\<rparr>" by blast
    with True f r(1) au show ?thesis by (intro exI [of _ "[e]"]) simp
  qed
qed

lemma PruneExplanationsPage_Inr:
  assumes "PruneExplanationsPage env svc organizationID actor cursor psize s = (Inr res, s')"
  shows "1 \<le> rp_KeepN (sv_retention svc) \<and> 0 < rp_MaxAge (sv_retention svc) \<and>
    (\<exists>s1 s2. db_of s1 = db_of s \<and> db_of s' = db_of s2 \<and>
      prune_page env svc (TrimSpace organizationID) (fst (prune_actor actor)) (snd (prune_actor actor)) cursor
        (clamp_page DefaultExplanationPrunePageSize maxExplanationPrunePageSize psize) (sv_retention svc) (clockAt env (w_clock s)) s1 = (Inr res, s2))"
proof -
  let ?t = "s\<lparr>w_clock := Suc (w_clock s)\<rparr>"
  have p: "1 \<le> rp_KeepN (sv_retention svc)" "0 < rp_MaxAge (sv_retention svc)"
    and "WithTxLockedOwnership env (TrimSpace organizationID) (prune_page env svc (TrimSpace organizationID) (fst (prune_actor actor)) (snd (prune_actor actor)) cursor
        (clamp_page DefaultExplanationPrunePageSize maxExplanationPrunePageSize psize) (sv_retention svc) (clockAt env (w_clock s))) ?t = (Inr res, s')"
    using assms by (auto simp: PruneExplanationsPage_def Let_def run_simps split: prod.splits)
  from otx.commits [OF this(3)] p show ?thesis by auto
qed

text \<open>
  C32: A page deletes exactly what the rule selects. After a successful page over the first
  certificates beyond the cursor, the rows that are gone are those the pure rule selects on each
  certificate's timeline, the oldest ones first up to the per-certificate limit; every current
  explanation and every other table is untouched, and one audit row is written when and only when
  something was deleted.
\<close>

theorem PruneExplanationsPage_effect:
  assumes run: "PruneExplanationsPage env svc organizationID actor cursor psize s = (Inr res, s')"
    and wf: "gov_wf s" and ids: "\<forall>e \<in> set (t_explanations s). ex_ID e \<noteq> []"
  shows "let org = TrimSpace organizationID; n = clamp_page 500 1000 psize; certs = page_certs org cursor (nat n) s;
      gone = (\<lambda>e. ex_OrganizationID e = org \<and> ex_CertificateID e \<in> set certs \<and>
        ex_ID e \<in> set (take (prunePerCertLimit svc) (rev (SelectExplanationsToPrune (timeline_of org (ex_CertificateID e) s)
          (current_id org (ex_CertificateID e) s) (sv_retention svc) (clockAt env (w_clock s)))))) in
    t_explanations s' = filter (\<lambda>e. \<not> gone e) (t_explanations s) \<and>
    (\<forall>e \<in> set (t_explanations s). is_current s e \<longrightarrow> e \<in> set (t_explanations s')) \<and>
    (db_of s')\<lparr>t_explanations := [], audit_events := []\<rparr> = (db_of s)\<lparr>t_explanations := [], audit_events := []\<rparr> \<and>
    pr_DeletedCount res = int (length (filter gone (t_explanations s))) \<and>
    pr_NextCursor res = last (cursor # certs) \<and> pr_Done res = (int (length certs) < n) \<and>
    length (audit_events s') = length (audit_events s) + (if pr_DeletedCount res > 0 then 1 else 0)"
proof -
  let ?org = "TrimSpace organizationID" and ?now = "clockAt env (w_clock s)" and ?p = "sv_retention svc"
  let ?n = "clamp_page DefaultExplanationPrunePageSize maxExplanationPrunePageSize psize"
  let ?c = "page_certs ?org cursor (nat ?n) s"
  from PruneExplanationsPage_Inr [OF run] obtain s1 s2 where
    pol: "1 \<le> rp_KeepN ?p" "0 < rp_MaxAge ?p" and 1: "db_of s1 = db_of s" and 2: "db_of s' = db_of s2" and
    page: "prune_page env svc ?org (fst (prune_actor actor)) (snd (prune_actor actor)) cursor ?n ?p ?now s1 = (Inr res, s2)"
    by blast
  have wf1: "gov_wf s1" using wf 1 gov_wf_db_of by metis
  have same: "t_explanations s1 = t_explanations s" "t_ownership s1 = t_ownership s" "audit_events s1 = audit_events s"
    using db_of_fields [OF 1] by simp_all
  have c1: "page_certs ?org cursor k s1 = page_certs ?org cursor k s" for k by (simp add: page_certs_def same)
  have gone: "doomed svc ?org ?p ?now s1 certs = (\<lambda>e. ex_OrganizationID e = ?org \<and> ex_CertificateID e \<in> set certs \<and>
        ex_ID e \<in> set (take (prunePerCertLimit svc) (rev (SelectExplanationsToPrune (timeline_of ?org (ex_CertificateID e) s)
          (current_id ?org (ex_CertificateID e) s) ?p ?now))))" for certs
    using prunable_ids_by_rule [OF wf ids pol] prunable_ids_cong [of ?org _ s1 s]
    by (simp add: doomed_def fun_eq_iff cert_explanations_def same)
  have cur: "\<not> doomed svc ?org ?p ?now s1 ?c e" if "e \<in> set (t_explanations s)" "is_current s e" for e
    using prunable_not_current(3) [OF wf1, of e] that by (auto simp: doomed_def same is_current_def)
  obtain recs where eff: "db_of s2 = (db_of s1)\<lparr>t_explanations := filter (\<lambda>e. \<not> doomed svc ?org ?p ?now s1 ?c e) (t_explanations s1),
        audit_events := audit_events s1 @ recs\<rparr>" and
    res: "res = \<lparr>pr_OrganizationID = ?org, pr_StartCursor = cursor, pr_NextCursor = last (cursor # ?c), pr_CertsScanned = int (length ?c),
      pr_DeletedCount = int (length (filter (doomed svc ?org ?p ?now s1 ?c) (t_explanations s1))), pr_Done = (int (length ?c) < ?n)\<rparr>" and
    au: "if pr_DeletedCount res > 0 then \<exists>e. recs = [e] \<and> same_event e (pruned_event ?org (fst (prune_actor actor)) (snd (prune_actor actor)) ?now res ?p) else recs = []"
    using prune_page_Inr [OF page wf1, unfolded c1] by (elim exE conjE) (rule that; assumption)
  have s': "db_of s' = (db_of s)\<lparr>t_explanations := filter (\<lambda>e. \<not> doomed svc ?org ?p ?now s1 ?c e) (t_explanations s),
        audit_events := audit_events s @ recs\<rparr>" using 1 2 eff same by simp
  have fields: "t_explanations s' = filter (\<lambda>e. \<not> doomed svc ?org ?p ?now s1 ?c e) (t_explanations s)" "audit_events s' = audit_events s @ recs"
    using db_of_fields [OF s'] by simp_all
  have len: "length recs = (if pr_DeletedCount res > 0 then 1 else 0)" using au by (auto split: if_splits)
  have keep: "\<forall>e \<in> set (t_explanations s). is_current s e \<longrightarrow> e \<in> set (t_explanations s')"
    using cur by (simp add: fields)
  have cong: "(db_of s')\<lparr>t_explanations := [], audit_events := []\<rparr> = (db_of s)\<lparr>t_explanations := [], audit_events := []\<rparr>"
    by (simp add: s')
  have parts: "pr_DeletedCount res = int (length (filter (doomed svc ?org ?p ?now s1 ?c) (t_explanations s)))"
    "pr_NextCursor res = last (cursor # ?c)" "pr_Done res = (int (length ?c) < ?n)"
    unfolding res same by simp_all
  have n: "?n = clamp_page 500 1000 psize" by (simp add: DefaultExplanationPrunePageSize_def maxExplanationPrunePageSize_def)
  show ?thesis
    unfolding Let_def n [symmetric] using keep fields len cong parts [unfolded gone] by (simp only: gone simp_thms length_append)
qed


section \<open>Witnesses\<close>

definition demo_expl :: "string \<Rightarrow> Time \<Rightarrow> OwnershipMatchExplanation" where
  "demo_expl i t = \<lparr>ex_ID = i, ex_OrganizationID = ''o'', ex_CertificateID = ''c'', ex_DecidedAt = t, ex_DecidedDecision = DecisionUnowned,
     ex_DecidedServiceID = None, ex_WinningRuleID = None, ex_LosingRules = JArr [],
     ex_SignalsSeen = JObj [], ex_EngineVersion = 1\<rparr>"

definition demo_history :: gov_db where
  "demo_history = demo_due\<lparr>t_explanations := [demo_expl ''a'' 10, demo_expl ''b'' 20, demo_expl ''d'' 30, demo_expl ''e'' 40],
     t_ownership := [\<lparr>co_OrganizationID = ''o'', co_CertificateID = ''c'', co_ServiceID = None, co_Decision = DecisionUnowned,
       co_WinningRuleID = None, co_OverrideID = None, co_ExplanationID = ''a'', co_Confidence = ConfidenceLow,
       co_FirstAssignedAt = 1, co_LastEvaluatedAt = 40, co_LastChangedAt = 10\<rparr>]\<rparr>"

definition demo_timeline :: "ExplanationRecord list" where
  "demo_timeline = timeline_of ''o'' ''c'' demo_history"

definition demo_policy :: RetentionPolicy where
  "demo_policy = \<lparr>rp_KeepN = 2, rp_MaxAge = 100\<rparr>"

lemma demo_timeline_ids: "map er_ID demo_timeline = [''a'', ''b'', ''d'', ''e'']"
  by code_simp

lemma demo_history_wf: "gov_wf demo_history" "\<forall>e \<in> set (t_explanations demo_history). ex_ID e \<noteq> []"
  by (simp_all add: demo_history_def demo_due_def gov_wf_def one_active_def demo_lapsed_def demo_expl_def)

lemma demo_policy_ok: "1 \<le> rp_KeepN demo_policy" "0 < rp_MaxAge demo_policy"
  by (simp_all add: demo_policy_def)

lemma demo_select_eval: "SelectExplanationsToPrune demo_timeline ''a'' demo_policy 1000 = [''b'']"
  by code_simp

theorem SelectExplanationsToPrune_spec_witness:
  "''b'' \<in> {er_ID r | r. r \<in> set demo_timeline \<and> er_ID r \<noteq> ''a'' \<and> er_DecidedAt r < 1000 - rp_MaxAge demo_policy \<and>
     rp_KeepN demo_policy \<le> int (rank demo_timeline r) \<and> 1 \<le> rp_KeepN demo_policy \<and> 0 < rp_MaxAge demo_policy}"
proof -
  have "distinct (map er_ID demo_timeline)" by (simp add: demo_timeline_ids)
  have "''b'' \<in> set (SelectExplanationsToPrune demo_timeline ''a'' demo_policy 1000)" by (simp add: demo_select_eval)
  then show ?thesis unfolding SelectExplanationsToPrune_spec [OF \<open>distinct (map er_ID demo_timeline)\<close>] .
qed

theorem SelectExplanationsToPrune_idempotent_witness:
  "SelectExplanationsToPrune (filter (\<lambda>r. er_ID r \<notin> {''b''}) demo_timeline) ''a'' demo_policy 1000 = []"
proof -
  have "distinct (map er_ID demo_timeline)" by (simp add: demo_timeline_ids)
  from SelectExplanationsToPrune_idempotent [OF this, of "''a''" demo_policy 1000] show ?thesis by (simp add: demo_select_eval)
qed

theorem prunable_ids_by_rule_witness:
  "prunable_ids ''o'' ''c'' 900 2 5 demo_history = [''b'']"
proof -
  have "current_id ''o'' ''c'' demo_history = ''a''" by code_simp
  with prunable_ids_by_rule [OF demo_history_wf demo_policy_ok, of "''o''" "''c''" 1000 5]
  show ?thesis by (simp add: demo_timeline_def [symmetric] demo_select_eval) (simp add: demo_policy_def)
qed

lemma demo_prune_eval: "\<exists>res s'. PruneExplanationsPage demo_tick demo_svc ''o'' [] [] 0 demo_history = (Inr res, s') \<and> pr_DeletedCount res = 1"
proof -
  have "(case PruneExplanationsPage demo_tick demo_svc ''o'' [] [] 0 demo_history of (Inr res, s') \<Rightarrow> pr_DeletedCount res = 1 | _ \<Rightarrow> False)"
    by code_simp
  then show ?thesis by (auto split: prod.splits sum.splits)
qed

theorem PruneExplanationsPage_effect_witness:
  "\<exists>res s'. PruneExplanationsPage demo_tick demo_svc ''o'' [] [] 0 demo_history = (Inr res, s') \<and> pr_DeletedCount res = 1 \<and>
     demo_expl ''a'' 10 \<in> set (t_explanations s')"
proof -
  obtain res s' where run: "PruneExplanationsPage demo_tick demo_svc ''o'' [] [] 0 demo_history = (Inr res, s')" and n: "pr_DeletedCount res = 1"
    using demo_prune_eval by blast
  have "demo_expl ''a'' 10 \<in> set (t_explanations demo_history)" "is_current demo_history (demo_expl ''a'' 10)"
    by (simp_all add: demo_history_def is_current_def demo_expl_def)
  then show ?thesis
    using PruneExplanationsPage_effect [OF run demo_history_wf] run n unfolding Let_def by blast
qed

end
