(* ===== verification/Sweep.thy ===== *)
theory Sweep imports Retention begin

text \<open>
  The expired-override sweep (\<open>expiring_overrides_sweep.go\<close>): one page of overrides whose expiry has
  passed is cleared, each certificate is re-derived without its override, and each expiry is audited,
  all in one locked transaction.
\<close>

section \<open>The page\<close>

definition DefaultExpiringOverridesSweepPageSize :: int where "DefaultExpiringOverridesSweepPageSize = 500"
definition maxExpiringOverridesSweepPageSize :: int where "maxExpiringOverridesSweepPageSize = 1000"
definition sweepExpiringSystemActor :: string where "sweepExpiringSystemActor = ''system''"

record ExpiringOverridesSweepResult =
  sw_OrganizationID :: string
  sw_StartCursor :: string
  sw_NextCursor :: string
  sw_SweepID :: string
  sw_CertsScanned :: int
  sw_ClearedCount :: int
  sw_Done :: bool

definition sweep_event :: "string \<Rightarrow> string \<Rightarrow> Time \<Rightarrow> CertificateOwnershipOverride \<Rightarrow> Event" where
  "sweep_event org sweepID now override =
     \<lparr>ev_ID = [], ev_OrganizationID = org, ev_OccurredAt = now, ev_Actor = sweepExpiringSystemActor, ev_ActorType = ''system'',
      ev_Action = ''ownership.override_expired'', ev_TargetType = ''certificate'', ev_TargetID = ov_CertificateID override,
      ev_RequestID = [],
      ev_Metadata = JObj [(''severity'', JStr ''security''), (''sweep_id'', JStr sweepID), (''override_id'', JStr (ov_ID override)),
        (''service_id'', JStr (ov_ServiceID override)), (''reason'', JStr ''auto-expired'')]\<rparr>"

definition emitExpiredOverrideAudit ::
  "env \<Rightarrow> string \<Rightarrow> CertificateOwnershipOverride \<Rightarrow> string \<Rightarrow> Time \<Rightarrow> ('z world_scheme, unit) prog" where
  "emitExpiredOverrideAudit env org override sweepID now = Record env (sweep_event org sweepID now override)"

definition sweepOneExpiringOverride ::
  "env \<Rightarrow> string \<Rightarrow> CertificateOwnershipOverride \<Rightarrow> string \<Rightarrow> Time \<Rightarrow> ('z gov_db_scheme, bool) prog" where
  "sweepOneExpiringOverride env org override sweepID now =
     bindE (tryE (ClearOwnershipOverride env org (ov_ID override) sweepExpiringSystemActor ''auto-expired'' now)) (\<lambda>r.
     case r of
       Inl e \<Rightarrow> if e = ErrOwnershipOverrideNotFound then retE False else throwE e
     | Inr _ \<Rightarrow>
         bindE (rederiveCertificate env org (ov_CertificateID override) None now) (\<lambda>_.
         bindE (emitExpiredOverrideAudit env org override sweepID now) (\<lambda>_.
         retE True)))"

definition sweep_page ::
  "env \<Rightarrow> string \<Rightarrow> string \<Rightarrow> int \<Rightarrow> Time \<Rightarrow> string \<Rightarrow> ('z gov_db_scheme, ExpiringOverridesSweepResult) prog" where
  "sweep_page env org cursor n now sweepID =
     bindE (ListExpiringOverridesPaged env org now cursor n) (\<lambda>expiring.
     foldE (\<lambda>override result.
         bindE (sweepOneExpiringOverride env org override sweepID now) (\<lambda>cleared.
         retE (result\<lparr>sw_ClearedCount := sw_ClearedCount result + (if cleared then 1 else 0),
                      sw_NextCursor := ov_CertificateID override\<rparr>)))
       expiring
       \<lparr>sw_OrganizationID = org, sw_StartCursor = cursor, sw_NextCursor = cursor, sw_SweepID = sweepID,
        sw_CertsScanned = int (length expiring), sw_ClearedCount = 0, sw_Done = (int (length expiring) < n)\<rparr>)"

definition SweepExpiringOverridesPage ::
  "env \<Rightarrow> string \<Rightarrow> string \<Rightarrow> int \<Rightarrow> ('z gov_db_scheme, ExpiringOverridesSweepResult) prog" where
  "SweepExpiringOverridesPage env organizationID cursor page_size =
     (let org = TrimSpace organizationID;
          n = clamp_page DefaultExpiringOverridesSweepPageSize maxExpiringOverridesSweepPageSize page_size in
      bindE (guardE (org \<noteq> []) ErrRequired) (\<lambda>_.
      bindE (Now env) (\<lambda>now.
      bindE (NewID env) (\<lambda>sweepID.
      WithTxLockedOwnership env org (sweep_page env org cursor n now sweepID)))))"

section \<open>What one override's turn does\<close>

lemma clear_then_rederive:
  assumes wf: "gov_wf s" and act: "active_override org cert s = Some old"
    and clr: "ClearOwnershipOverride env org (ov_ID old) who why now s = (Inr u, s2)"
    and red: "rederiveCertificate env org cert None now s2 = (Inr res, s3)"
  shows "\<exists>sig rules fs x. signals_row org cert s = Some sig \<and> compileRules env (engine_rules org s) = Inr (rules, fs) \<and>
      ownership_row org cert s3 = Some (fst (next_row org cert (decideOwnership sig None rules now) (ownership_row org cert s) x now))"
    and "(o2, c2) \<noteq> (org, cert) \<Longrightarrow> ownership_row o2 c2 s3 = ownership_row o2 c2 s"
    and "active_override o2 c2 s3 = (if (o2, c2) = (org, cert) then None else active_override o2 c2 s)"
    and "t_rules s3 = t_rules s" "inputs_of s3 = inputs_of s" "t_runs s3 = t_runs s" "audit_events s3 = audit_events s" "gov_wf s3"
proof -
  note cl = clear_override_active [OF wf act clr]
  from rederive_run [OF red] obtain sig rules fs x where
    sig: "signals_row org cert s2 = Some sig" and rules: "compileRules env (engine_rules org s2) = Inr (rules, fs)"
    and s3: "db_of s3 = apply_row org sig (decideOwnership sig None rules now) (ownership_row org cert s2) x now (db_of s2)"
    by (elim exE conjE) (rule that; assumption)
  let ?d = "decideOwnership sig None rules now"
  have id: "sg_CertificateID sig = cert" by (rule signals_row_id [OF sig])
  have s2s: "t_ownership s2 = t_ownership s" "t_rules s2 = t_rules s" "inputs_of s2 = inputs_of s" "t_runs s2 = t_runs s"
    "audit_events s2 = audit_events s"
    using db_of_fields [OF cl(2)] by simp_all
  have row: "ownership_row org cert s3 = Some (fst (next_row org cert ?d (ownership_row org cert s) x now))"
    and others: "(o2, c2) \<noteq> (org, cert) \<Longrightarrow> ownership_row o2 c2 s3 = ownership_row o2 c2 s" for o2 c2
    using apply_row_lookup [of "ownership_row org cert s2" org sig "db_of s2", where d = ?d and x = x and now = now]
      id db_of_fields [OF s3] s2s(1) by (simp_all add: ownership_row_def)
  have "signals_row org cert s = Some sig" "engine_rules org s2 = engine_rules org s"
    using sig signals_row_cong [OF s2s(3)] s2s(2) by (simp_all add: engine_rules_def)
  with rules row show "\<exists>sig rules fs x. signals_row org cert s = Some sig \<and> compileRules env (engine_rules org s) = Inr (rules, fs) \<and>
      ownership_row org cert s3 = Some (fst (next_row org cert (decideOwnership sig None rules now) (ownership_row org cert s) x now))"
    by (intro exI [of _ sig] exI [of _ rules] exI [of _ fs] exI [of _ x]) simp
  show "(o2, c2) \<noteq> (org, cert) \<Longrightarrow> ownership_row o2 c2 s3 = ownership_row o2 c2 s" by (rule others)
  have "active_override o2 c2 s3 = active_override o2 c2 s2"
    using db_of_fields(4) [OF s3] by (intro active_override_cong) simp
  then show "active_override o2 c2 s3 = (if (o2, c2) = (org, cert) then None else active_override o2 c2 s)"
    using cl(1) [of o2 c2] by simp
  show "t_rules s3 = t_rules s" "inputs_of s3 = inputs_of s" "t_runs s3 = t_runs s" "audit_events s3 = audit_events s"
    using db_of_fields [OF s3] s2s by simp_all
  show "gov_wf s3"
    using keepsD [OF keeps_wf_rederive keepsD [OF keeps_wf_ClearOwnershipOverride wf clr] red] .
qed

lemma exec_hit_hits: "hit (stepped s) \<Longrightarrow> exec_hit env e hit f s = (Inl x, s') \<Longrightarrow> x = EDb"
  by (auto simp: exec_hit_def bindE_def db_query_def dbcall_def getE_def guardE_def retE_def modE_def stepped_def split: if_splits)

lemma sweepOne_Inr:
  assumes run: "sweepOneExpiringOverride env org ov sweepID now s = (Inr cleared, s')"
    and wf: "gov_wf s" and act: "active_override org (ov_CertificateID ov) s = Some ov"
  shows "cleared" "gov_wf s'" "t_rules s' = t_rules s" "inputs_of s' = inputs_of s" "t_runs s' = t_runs s"
    and "\<exists>rec. same_event rec (sweep_event org sweepID now ov) \<and> audit_events s' = audit_events s @ [rec]"
    and "active_override o2 c2 s' = (if (o2, c2) = (org, ov_CertificateID ov) then None else active_override o2 c2 s)"
    and "(o2, c2) \<noteq> (org, ov_CertificateID ov) \<Longrightarrow> ownership_row o2 c2 s' = ownership_row o2 c2 s"
    and "\<exists>sig rules fs x. signals_row org (ov_CertificateID ov) s = Some sig \<and> compileRules env (engine_rules org s) = Inr (rules, fs) \<and>
      ownership_row org (ov_CertificateID ov) s' =
        Some (fst (next_row org (ov_CertificateID ov) (decideOwnership sig None rules now) (ownership_row org (ov_CertificateID ov) s) x now))"
proof -
  let ?c = "ov_CertificateID ov"
  have here: "\<exists>r \<in> set (t_overrides s). clearable org (ov_ID ov) r"
    using act by (auto simp: active_override_def clearable_def ov_key_def dest!: find_Some_D)
  have miss: "e = EDb" if "ClearOwnershipOverride env org (ov_ID ov) sweepExpiringSystemActor ''auto-expired'' now s = (Inl e, t)" for e t
    using exec_hit_hits [OF _ that [unfolded ClearOwnershipOverride_def]] here by simp
  obtain r s2 where r: "ClearOwnershipOverride env org (ov_ID ov) sweepExpiringSystemActor ''auto-expired'' now s = (r, s2)"
    by fastforce
  then obtain u where clr: "ClearOwnershipOverride env org (ov_ID ov) sweepExpiringSystemActor ''auto-expired'' now s = (Inr u, s2)"
    using run miss by (cases r) (auto simp: sweepOneExpiringOverride_def bindE_Inr tryE_Inr throwE_Inr)
  then obtain res s3 v where red: "rederiveCertificate env org ?c None now s2 = (Inr res, s3)"
    and rec: "Record env (sweep_event org sweepID now ov) s3 = (Inr v, s')" and c: cleared
    using run by (auto simp: sweepOneExpiringOverride_def bindE_Inr tryE_Inr retE_Inr emitExpiredOverrideAudit_def)
  note eff = clear_then_rederive [OF wf act clr red]
  obtain e where e: "same_event e (sweep_event org sweepID now ov)" "db_of s' = (db_of s3)\<lparr>audit_events := audit_events s3 @ [e]\<rparr>"
    using Record_db [OF rec] by blast
  note f = db_of_fields [OF e(2)]
  have row: "ownership_row o2 c2 s' = ownership_row o2 c2 s3" and act': "active_override o2 c2 s' = active_override o2 c2 s3" for o2 c2
    using f by (simp_all add: ownership_row_def active_override_def)
  show cleared by (rule c)
  show "gov_wf s'" using keepsD [OF keeps_wf_Record eff(8) rec] .
  show "t_rules s' = t_rules s" "inputs_of s' = inputs_of s" "t_runs s' = t_runs s" using f eff(4-6) by simp_all
  show "\<exists>rec. same_event rec (sweep_event org sweepID now ov) \<and> audit_events s' = audit_events s @ [rec]"
    using e(1) f eff(7) by auto
  show "active_override o2 c2 s' = (if (o2, c2) = (org, ?c) then None else active_override o2 c2 s)"
    unfolding act' by (rule eff(3))
  show "(o2, c2) \<noteq> (org, ?c) \<Longrightarrow> ownership_row o2 c2 s' = ownership_row o2 c2 s"
    unfolding row by (rule eff(2))
  show "\<exists>sig rules fs x. signals_row org ?c s = Some sig \<and> compileRules env (engine_rules org s) = Inr (rules, fs) \<and>
      ownership_row org ?c s' = Some (fst (next_row org ?c (decideOwnership sig None rules now) (ownership_row org ?c s) x now))"
    unfolding row by (rule eff(1))
qed


section \<open>What a page does\<close>

definition due_page :: "string \<Rightarrow> Time \<Rightarrow> string \<Rightarrow> nat \<Rightarrow> 'z gov_db_scheme \<Rightarrow> CertificateOwnershipOverride list" where
  "due_page org now cursor n s = take n (sort_key ov_CertificateID
     (filter (\<lambda>r. ov_OrganizationID r = org \<and> ov_active r \<and> ov_expired now r \<and> cursor < ov_CertificateID r) (t_overrides s)))"

lemma due_page_in:
  "ov \<in> set (due_page org now cursor n s) \<Longrightarrow>
     ov \<in> set (t_overrides s) \<and> ov_OrganizationID ov = org \<and> ov_active ov \<and> ov_expired now ov \<and> cursor < ov_CertificateID ov"
  by (auto simp: due_page_def dest!: in_set_takeD)

lemma active_override_member:
  assumes "gov_wf s" "ov \<in> set (t_overrides s)" "ov_active ov" "ov_key ov = (org, c)"
  shows "active_override org c s = Some ov"
proof -
  have d: "distinct (map ov_key (filter ov_active (t_overrides s)))" using assms(1) by (simp add: gov_wf_def one_active_def)
  obtain x where x: "active_override org c s = Some x"
    using assms(2-4) by (cases "active_override org c s") (auto simp: active_override_def find_None_set)
  then have "x \<in> set (t_overrides s)" "ov_active x" "ov_key x = (org, c)"
    by (auto simp: active_override_def dest: find_Some_D)
  with distinct_map_eqD [OF d, of x ov] assms x show ?thesis by simp
qed

lemma due_page_active:
  "gov_wf s \<Longrightarrow> ov \<in> set (due_page org now cursor n s) \<Longrightarrow> active_override org (ov_CertificateID ov) s = Some ov"
  using active_override_member [of s ov org "ov_CertificateID ov"] due_page_in [of ov org now cursor n s]
  by (auto simp: ov_key_def)

lemma due_page_distinct:
  assumes wf: "gov_wf s" shows "distinct (map ov_CertificateID (due_page org now cursor n s))"
proof -
  let ?due = "filter (\<lambda>r. ov_OrganizationID r = org \<and> ov_active r \<and> ov_expired now r \<and> cursor < ov_CertificateID r) (t_overrides s)"
  have d: "distinct (map ov_key (filter ov_active (t_overrides s)))" using wf by (simp add: gov_wf_def one_active_def)
  have "distinct ?due" using wf by (simp add: gov_wf_def distinct_map)
  moreover have "inj_on ov_CertificateID (set ?due)"
  proof (rule inj_onI)
    fix x y assume "x \<in> set ?due" "y \<in> set ?due" "ov_CertificateID x = ov_CertificateID y"
    then show "x = y" by (intro distinct_map_eqD [OF d]) (auto simp: ov_key_def)
  qed
  ultimately have "distinct (map ov_CertificateID (sort_key ov_CertificateID ?due))" by (simp add: distinct_map)
  then show ?thesis by (simp add: due_page_def take_map [symmetric])
qed

text \<open>The certificate's row is what the rules alone decide.\<close>

definition rederived :: "env \<Rightarrow> string \<Rightarrow> Time \<Rightarrow> 'z gov_db_scheme \<Rightarrow> 'z gov_db_scheme \<Rightarrow> string \<Rightarrow> bool" where
  "rederived env org now s s' cert \<longleftrightarrow>
     (\<exists>sig rules fs co. signals_row org cert s = Some sig \<and> compileRules env (engine_rules org s) = Inr (rules, fs) \<and>
        ownership_row org cert s' = Some co \<and> agrees co (decideOwnership sig None rules now) \<and> co_LastEvaluatedAt co = now)"

definition swept ::
  "env \<Rightarrow> string \<Rightarrow> string \<Rightarrow> Time \<Rightarrow> 'z gov_db_scheme \<Rightarrow> CertificateOwnershipOverride list \<Rightarrow> 'z gov_db_scheme \<Rightarrow> bool" where
  "swept env org sweepID now s page s' \<longleftrightarrow>
     (\<forall>o2 c2. active_override o2 c2 s' = (if o2 = org \<and> c2 \<in> ov_CertificateID ` set page then None else active_override o2 c2 s)) \<and>
     (\<forall>o2 c2. \<not> (o2 = org \<and> c2 \<in> ov_CertificateID ` set page) \<longrightarrow> ownership_row o2 c2 s' = ownership_row o2 c2 s) \<and>
     (\<forall>ov \<in> set page. rederived env org now s s' (ov_CertificateID ov)) \<and>
     t_rules s' = t_rules s \<and> inputs_of s' = inputs_of s \<and> t_runs s' = t_runs s \<and> gov_wf s' \<and>
     (\<exists>recs. audit_events s' = audit_events s @ recs \<and> list_all2 same_event recs (map (sweep_event org sweepID now) page))"

lemma sweep_step:
  assumes run: "sweepOneExpiringOverride env org ov sweepID now t = (Inr cleared, t')"
    and inv: "swept env org sweepID now s seen t" and act: "active_override org (ov_CertificateID ov) s = Some ov"
    and new: "ov_CertificateID ov \<notin> ov_CertificateID ` set seen"
  shows "cleared \<and> swept env org sweepID now s (seen @ [ov]) t'"
proof -
  let ?c = "ov_CertificateID ov"
  have actT: "active_override org ?c t = Some ov" and wf: "gov_wf t" using inv act new by (auto simp: swept_def)
  have same: "t_rules t = t_rules s" "inputs_of t = inputs_of s" using inv by (simp_all add: swept_def)
  have sg: "signals_row org c t = signals_row org c s" for c using signals_row_cong [OF same(2)] .
  have er: "engine_rules org t = engine_rules org s" using same by (simp add: engine_rules_def)
  note one = sweepOne_Inr [OF run wf actT]
  have old: "rederived env org now s t' (ov_CertificateID o')" if "o' \<in> set seen" for o'
  proof -
    have "ov_CertificateID o' \<noteq> ?c" using new that by (metis image_eqI)
    then have "ownership_row org (ov_CertificateID o') t' = ownership_row org (ov_CertificateID o') t" using one(8) by simp
    then show ?thesis using inv that by (simp add: swept_def rederived_def)
  qed
  obtain sig rules fs x where d: "signals_row org ?c s = Some sig" "compileRules env (engine_rules org s) = Inr (rules, fs)"
    "ownership_row org ?c t' = Some (fst (next_row org ?c (decideOwnership sig None rules now) (ownership_row org ?c t) x now))"
    using one(9) unfolding sg er by (elim exE conjE) (rule that; assumption)
  have "co_LastEvaluatedAt (fst (next_row org ?c (decideOwnership sig None rules now) (ownership_row org ?c t) x now)) = now"
    by (rule next_row_evaluated)
  with d next_row_agrees have fresh: "rederived env org now s t' ?c" unfolding rederived_def by blast
  obtain recs where recs: "audit_events t = audit_events s @ recs" "list_all2 same_event recs (map (sweep_event org sweepID now) seen)"
    using inv by (auto simp: swept_def)
  obtain e where "same_event e (sweep_event org sweepID now ov)" "audit_events t' = audit_events t @ [e]" using one(6) by blast
  with recs have "audit_events t' = audit_events s @ (recs @ [e]) \<and>
      list_all2 same_event (recs @ [e]) (map (sweep_event org sweepID now) (seen @ [ov]))"
    by (simp add: list_all2_appendI)
  moreover have "active_override o2 c2 t' = (if o2 = org \<and> c2 \<in> ov_CertificateID ` set (seen @ [ov]) then None else active_override o2 c2 s)" for o2 c2
    using inv one(7) [of o2 c2] by (auto simp: swept_def)
  moreover have "ownership_row o2 c2 t' = ownership_row o2 c2 s" if "\<not> (o2 = org \<and> c2 \<in> ov_CertificateID ` set (seen @ [ov]))" for o2 c2
    using inv one(8) [of o2 c2] that by (auto simp: swept_def)
  moreover have "\<forall>o' \<in> set (seen @ [ov]). rederived env org now s t' (ov_CertificateID o')" using old fresh by auto
  moreover have "t_rules t' = t_rules s" "inputs_of t' = inputs_of s" "t_runs t' = t_runs s" "gov_wf t'" cleared
    using one(1-5) inv by (simp_all add: swept_def)
  ultimately show ?thesis unfolding swept_def by blast
qed


lemma sweep_page_Inr:
  assumes run: "sweep_page env org cursor n now sweepID s = (Inr res, s')" and wf: "gov_wf s" and n: "0 < n" "n \<le> 1000"
  defines "page \<equiv> due_page org now cursor (nat n) s"
  shows "swept env org sweepID now s page s' \<and>
    res = \<lparr>sw_OrganizationID = org, sw_StartCursor = cursor, sw_NextCursor = last (cursor # map ov_CertificateID page), sw_SweepID = sweepID,
      sw_CertsScanned = int (length page), sw_ClearedCount = int (length page), sw_Done = (int (length page) < n)\<rparr>"
proof -
  have clamp: "clamp_page DefaultExpiringOverridesPageSize MaxExpiringOverridesPageSize n = n"
    using n by (simp add: clamp_page_def MaxExpiringOverridesPageSize_def)
  let ?r0 = "\<lparr>sw_OrganizationID = org, sw_StartCursor = cursor, sw_NextCursor = cursor, sw_SweepID = sweepID,
        sw_CertsScanned = int (length page), sw_ClearedCount = 0, sw_Done = (int (length page) < n)\<rparr>"
  let ?I = "\<lambda>seen r t. swept env org sweepID now s seen t \<and>
    r = ?r0\<lparr>sw_ClearedCount := int (length seen), sw_NextCursor := last (cursor # map ov_CertificateID seen)\<rparr>"
  from run have fold: "foldE (\<lambda>override result.
         bindE (sweepOneExpiringOverride env org override sweepID now) (\<lambda>cleared.
         retE (result\<lparr>sw_ClearedCount := sw_ClearedCount result + (if cleared then 1 else 0),
                      sw_NextCursor := ov_CertificateID override\<rparr>))) page ?r0 (stepped s) = (Inr res, s')"
    by (auto simp: sweep_page_def ListExpiringOverridesPaged_def run_simps clamp due_page_def page_def)
  have "?I page res s'"
  proof (rule foldE_rule [where I = ?I, OF fold])
    show "?I [] ?r0 (stepped s)"
      using wf by (simp add: swept_def active_override_def ownership_row_def)
  next
    fix seen ov rest b t b' t'
    assume split: "page = seen @ ov # rest" and inv: "?I seen b t"
      and step: "bindE (sweepOneExpiringOverride env org ov sweepID now) (\<lambda>cleared.
         retE (b\<lparr>sw_ClearedCount := sw_ClearedCount b + (if cleared then 1 else 0), sw_NextCursor := ov_CertificateID ov\<rparr>)) t = (Inr b', t')"
    from step obtain cleared where one: "sweepOneExpiringOverride env org ov sweepID now t = (Inr cleared, t')"
      and b': "b' = b\<lparr>sw_ClearedCount := sw_ClearedCount b + (if cleared then 1 else 0), sw_NextCursor := ov_CertificateID ov\<rparr>"
      by (auto simp: run_simps)
    have act: "active_override org (ov_CertificateID ov) s = Some ov"
      using due_page_active [OF wf, of ov org now cursor "nat n"] split by (simp add: page_def)
    have new: "ov_CertificateID ov \<notin> ov_CertificateID ` set seen"
      using due_page_distinct [OF wf, of org now cursor "nat n"] split by (auto simp: page_def)
    from sweep_step [OF one conjunct1 [OF inv] act new] inv b' show "?I (seen @ [ov]) b' t'" by simp
  qed
  then show ?thesis by simp
qed

text \<open>
  A sweep page clears what is due and nothing else. After a successful page, each override among
  the first due ones beyond the cursor is inactive and its certificate's row is what the rules alone
  decide; every other override and row is untouched; the result counts them, and the audit log grew
  by one event per override, in page order.
\<close>

theorem SweepExpiringOverridesPage_effect:
  assumes run: "SweepExpiringOverridesPage env organizationID cursor page_size s = (Inr res, s')" and wf: "gov_wf s"
  shows "let org = TrimSpace organizationID; n = clamp_page 500 1000 page_size; now = clockAt env (w_clock s);
      page = due_page org now cursor (nat n) s; certs = ov_CertificateID ` set page in
    (\<forall>ov \<in> set page. ov_expired now ov \<and> active_override org (ov_CertificateID ov) s = Some ov \<and>
       active_override org (ov_CertificateID ov) s' = None \<and> rederived env org now s s' (ov_CertificateID ov)) \<and>
    (\<forall>o2 c2. \<not> (o2 = org \<and> c2 \<in> certs) \<longrightarrow>
       active_override o2 c2 s' = active_override o2 c2 s \<and> ownership_row o2 c2 s' = ownership_row o2 c2 s) \<and>
    t_rules s' = t_rules s \<and> inputs_of s' = inputs_of s \<and> gov_wf s' \<and>
    sw_ClearedCount res = int (length page) \<and> sw_NextCursor res = last (cursor # map ov_CertificateID page) \<and>
    sw_Done res = (int (length page) < n) \<and>
    (\<exists>recs. audit_events s' = audit_events s @ recs \<and> list_all2 same_event recs (map (sweep_event org (sw_SweepID res) now) page))"
proof -
  let ?org = "TrimSpace organizationID" and ?now = "clockAt env (w_clock s)" and ?n = "clamp_page 500 1000 page_size"
  have n: "0 < ?n" "?n \<le> 1000" by (auto simp: clamp_page_def Let_def)
  from run obtain t i where "WithTxLockedOwnership env ?org (sweep_page env ?org cursor ?n ?now i) t = (Inr res, s')" and t: "db_of t = db_of s"
    by (auto simp: SweepExpiringOverridesPage_def Let_def run_simps DefaultExpiringOverridesSweepPageSize_def
        maxExpiringOverridesSweepPageSize_def)
  from otx.commits [OF this(1)] obtain s1 s2 where 1: "db_of s1 = db_of s" and 2: "db_of s' = db_of s2"
    and page: "sweep_page env ?org cursor ?n ?now i s1 = (Inr res, s2)" using t by auto
  have wf1: "gov_wf s1" using wf 1 gov_wf_db_of by metis
  note f1 = db_of_fields [OF 1] and f2 = db_of_fields [OF 2]
  have due: "due_page ?org ?now cursor (nat ?n) s1 = due_page ?org ?now cursor (nat ?n) s" using f1 by (simp add: due_page_def)
  let ?page = "due_page ?org ?now cursor (nat ?n) s"
  from sweep_page_Inr [OF page wf1 n, unfolded due] have sw: "swept env ?org i ?now s1 ?page s2"
    and res: "sw_ClearedCount res = int (length ?page)" "sw_NextCursor res = last (cursor # map ov_CertificateID ?page)"
      "sw_Done res = (int (length ?page) < ?n)" "sw_SweepID res = i" by simp_all
  have view: "active_override o2 c2 s1 = active_override o2 c2 s" "ownership_row o2 c2 s1 = ownership_row o2 c2 s"
    "active_override o2 c2 s' = active_override o2 c2 s2" "ownership_row o2 c2 s' = ownership_row o2 c2 s2" for o2 c2
    using f1 f2 by (simp_all add: active_override_def ownership_row_def)
  have red: "rederived env ?org ?now s1 s2 c = rederived env ?org ?now s s' c" for c
    using view(4) signals_row_cong [of s1 s] f1 by (simp add: rederived_def engine_rules_def)
  have wf': "gov_wf s'" using sw 2 gov_wf_db_of by (metis swept_def)
  have "\<forall>ov \<in> set ?page. ov_expired ?now ov \<and> active_override ?org (ov_CertificateID ov) s = Some ov \<and>
       active_override ?org (ov_CertificateID ov) s' = None \<and> rederived env ?org ?now s s' (ov_CertificateID ov)"
    using sw due_page_in due_page_active [OF wf] unfolding swept_def red view(3) by (metis image_eqI)
  moreover have "\<forall>o2 c2. \<not> (o2 = ?org \<and> c2 \<in> ov_CertificateID ` set ?page) \<longrightarrow>
       active_override o2 c2 s' = active_override o2 c2 s \<and> ownership_row o2 c2 s' = ownership_row o2 c2 s"
    using sw unfolding swept_def view by simp
  moreover have "t_rules s' = t_rules s" "inputs_of s' = inputs_of s"
    "\<exists>recs. audit_events s' = audit_events s @ recs \<and> list_all2 same_event recs (map (sweep_event ?org (sw_SweepID res) ?now) ?page)"
    using sw f1 f2 res(4) by (simp_all add: swept_def)
  ultimately show ?thesis unfolding Let_def using wf' res(1-3) by blast
qed

section \<open>Witness\<close>

lemma demo_sweep_eval: "\<exists>res s'. SweepExpiringOverridesPage demo_tick ''o1'' [] 0 demo_due = (Inr res, s') \<and> sw_ClearedCount res = 1"
proof -
  have "(case SweepExpiringOverridesPage demo_tick ''o1'' [] 0 demo_due of (Inr res, s') \<Rightarrow> sw_ClearedCount res = 1 | _ \<Rightarrow> False)"
    by code_simp
  then show ?thesis by (auto split: prod.splits sum.splits)
qed

theorem SweepExpiringOverridesPage_effect_witness:
  "\<exists>res s'. SweepExpiringOverridesPage demo_tick ''o1'' [] 0 demo_due = (Inr res, s') \<and> sw_ClearedCount res = 1 \<and>
     t_rules s' = t_rules demo_due \<and> gov_wf s'"
proof -
  obtain res s' where run: "SweepExpiringOverridesPage demo_tick ''o1'' [] 0 demo_due = (Inr res, s')" and n: "sw_ClearedCount res = 1"
    using demo_sweep_eval by blast
  from SweepExpiringOverridesPage_effect [OF run demo_due_wf(1)] have "t_rules s' = t_rules demo_due" "gov_wf s'"
    unfolding Let_def by blast+
  with run n show ?thesis by blast
qed

end
