(* ===== verification/SchedulerStore.thy ===== *)
theory SchedulerStore imports Sweep "HOL-Library.Word" begin

unbundle bit_operations_syntax

text \<open>
  The state of the maintenance scheduler (\<open>governance/scheduler.go\<close>) and its repository
  (\<open>storage/postgres/governance_scheduler_repository.go\<close>): one row per organization and job, and the
  session-level advisory lock that keeps two runners off the same row.

  The stored error summary is the error value. \<open>lk_other\<close> are the advisory-lock keys other sessions
  hold, \<open>lk_own\<close> the ones this process holds; each acquisition uses a fresh session, so both kinds block it.
\<close>

section \<open>Types\<close>

datatype SchedulerJobStatus =
  SchedulerJobPending | SchedulerJobRunning | SchedulerJobCompleted | SchedulerJobPartial | SchedulerJobError

definition SchedulerCursorStart :: string where "SchedulerCursorStart = []"

record SchedulerJob =
  sj_OrganizationID :: string
  sj_JobName :: string
  sj_Enabled :: bool
  sj_Cursor :: string
  sj_NextDueAt :: Time
  sj_LastStartedAt :: "Time option"
  sj_LastFinishedAt :: "Time option"
  sj_LastStatus :: SchedulerJobStatus
  sj_LastError :: "err option"
  sj_ConsecutiveFailures :: int
  sj_UpdatedAt :: Time

record sched_db = gov_db +
  t_jobs :: "SchedulerJob list"
  lk_other :: "64 word list"
  lk_own :: "64 word list"

section \<open>The repository\<close>

definition sj_key :: "SchedulerJob \<Rightarrow> string \<times> string" where
  "sj_key j = (sj_OrganizationID j, sj_JobName j)"

definition is_job :: "string \<Rightarrow> string \<Rightarrow> SchedulerJob \<Rightarrow> bool" where
  "is_job org name j \<longleftrightarrow> sj_OrganizationID j = org \<and> sj_JobName j = name"

definition job_row :: "string \<Rightarrow> string \<Rightarrow> 'z sched_db_scheme \<Rightarrow> SchedulerJob option" where
  "job_row org name s = find (is_job org name) (t_jobs s)"

definition UpsertJob :: "env \<Rightarrow> string \<Rightarrow> string \<Rightarrow> Time \<Rightarrow> ('z sched_db_scheme, unit) prog" where
  "UpsertJob env org name initialNextDueAt =
     bindE (guardE (org \<noteq> []) ErrRequired) (\<lambda>_.
     bindE (guardE (name \<noteq> []) ErrRequired) (\<lambda>_.
     db_update env (\<lambda>s. if job_row org name s \<noteq> None then s
       else s\<lparr>t_jobs := t_jobs s @
         [\<lparr>sj_OrganizationID = org, sj_JobName = name, sj_Enabled = False, sj_Cursor = [], sj_NextDueAt = initialNextDueAt,
           sj_LastStartedAt = None, sj_LastFinishedAt = None, sj_LastStatus = SchedulerJobPending, sj_LastError = None,
           sj_ConsecutiveFailures = 0, sj_UpdatedAt = sql_now env s\<rparr>]\<rparr>)))"

definition LoadJobState :: "env \<Rightarrow> string \<Rightarrow> string \<Rightarrow> ('z sched_db_scheme, SchedulerJob) prog" where
  "LoadJobState env org name =
     bindE (db_query env (job_row org name)) (\<lambda>r.
     case r of None \<Rightarrow> throwE ErrSchedulerJobNotFound | Some j \<Rightarrow> retE j)"

definition due_key :: "SchedulerJob \<Rightarrow> Time \<times> string \<times> string" where
  "due_key j = (sj_NextDueAt j, sj_OrganizationID j, sj_JobName j)"

definition ListDueJobs :: "env \<Rightarrow> Time \<Rightarrow> int \<Rightarrow> ('z sched_db_scheme, SchedulerJob list) prog" where
  "ListDueJobs env now limit =
     bindE (guardE (\<not> limit \<le> 0) ErrBadLimit) (\<lambda>_.
     db_query env (\<lambda>s. take (nat limit) (sort_key due_key (filter (\<lambda>j. sj_Enabled j \<and> sj_NextDueAt j \<le> now) (t_jobs s)))))"

definition execMark :: "env \<Rightarrow> string \<Rightarrow> string \<Rightarrow> (Time \<Rightarrow> SchedulerJob \<Rightarrow> SchedulerJob) \<Rightarrow> ('z sched_db_scheme, unit) prog" where
  "execMark env org name f =
     exec_hit env ErrSchedulerJobNotFound (\<lambda>s. job_row org name s \<noteq> None)
       (\<lambda>s. s\<lparr>t_jobs := update_where (is_job org name) (f (sql_now env s)) (t_jobs s)\<rparr>)"

definition MarkJobStarted :: "env \<Rightarrow> string \<Rightarrow> string \<Rightarrow> Time \<Rightarrow> ('z sched_db_scheme, unit) prog" where
  "MarkJobStarted env org name startedAt =
     execMark env org name (\<lambda>t j. j\<lparr>sj_LastStatus := SchedulerJobRunning, sj_LastStartedAt := Some startedAt, sj_UpdatedAt := t\<rparr>)"

definition MarkJobCompleted :: "env \<Rightarrow> string \<Rightarrow> string \<Rightarrow> string \<Rightarrow> Time \<Rightarrow> Time \<Rightarrow> ('z sched_db_scheme, unit) prog" where
  "MarkJobCompleted env org name cursor finishedAt nextDueAt =
     execMark env org name (\<lambda>t j. j\<lparr>sj_LastStatus := SchedulerJobCompleted, sj_Cursor := cursor, sj_LastFinishedAt := Some finishedAt,
       sj_NextDueAt := nextDueAt, sj_ConsecutiveFailures := 0, sj_LastError := None, sj_UpdatedAt := t\<rparr>)"

definition MarkJobPartial :: "env \<Rightarrow> string \<Rightarrow> string \<Rightarrow> string \<Rightarrow> Time \<Rightarrow> Time \<Rightarrow> ('z sched_db_scheme, unit) prog" where
  "MarkJobPartial env org name cursor finishedAt nextDueAt =
     execMark env org name (\<lambda>t j. j\<lparr>sj_LastStatus := SchedulerJobPartial, sj_Cursor := cursor, sj_LastFinishedAt := Some finishedAt,
       sj_NextDueAt := nextDueAt, sj_ConsecutiveFailures := 0, sj_LastError := None, sj_UpdatedAt := t\<rparr>)"

definition MarkJobFailed :: "env \<Rightarrow> string \<Rightarrow> string \<Rightarrow> err \<Rightarrow> Time \<Rightarrow> Time \<Rightarrow> ('z sched_db_scheme, unit) prog" where
  "MarkJobFailed env org name redactedError finishedAt nextDueAt =
     execMark env org name (\<lambda>t j. j\<lparr>sj_LastStatus := SchedulerJobError, sj_LastFinishedAt := Some finishedAt, sj_NextDueAt := nextDueAt,
       sj_ConsecutiveFailures := sj_ConsecutiveFailures j + 1, sj_LastError := Some redactedError, sj_UpdatedAt := t\<rparr>)"

section \<open>The job lock\<close>

definition schedulerLockNamespace :: string where "schedulerLockNamespace = ''governance-scheduler-job''"

text \<open>FNV-64a over bytes; the key is the hash read as a signed integer.\<close>

definition fnv64a_step :: "char \<Rightarrow> 64 word \<Rightarrow> 64 word" where
  "fnv64a_step c h = (h XOR of_char c) * 1099511628211"

definition fnv64a :: "string \<Rightarrow> 64 word" where
  "fnv64a bs = fold fnv64a_step bs 14695981039346656037"

definition schedulerLockKey :: "string \<Rightarrow> string \<Rightarrow> 64 word" where
  "schedulerLockKey organizationID jobName =
     fnv64a (schedulerLockNamespace @ [CHR 0x00] @ organizationID @ [CHR 0x00] @ jobName)"

definition TryLockOrgJob :: "env \<Rightarrow> string \<Rightarrow> string \<Rightarrow> ('z sched_db_scheme, bool) prog" where
  "TryLockOrgJob env org name =
     bindE (guardE (\<not> (org = [] \<or> name = [])) ErrRequired) (\<lambda>_.
     bindE (dbcall env) (\<lambda>_.
     bindE (db_query env (\<lambda>s. schedulerLockKey org name \<notin> set (lk_other s) \<union> set (lk_own s))) (\<lambda>acquired.
     if \<not> acquired then retE False
     else bindE (modE (\<lambda>s. s\<lparr>lk_own := schedulerLockKey org name # lk_own s\<rparr>)) (\<lambda>_. retE True))))"

text \<open>
  Whether the unlock statement succeeds or not, the session no longer holds the key afterwards: on a
  failure the connection is closed, which drops it.
\<close>

definition Release :: "env \<Rightarrow> string \<Rightarrow> string \<Rightarrow> ('z sched_db_scheme, unit) prog" where
  "Release env org name =
     bindE (modE (\<lambda>s. s\<lparr>lk_own := remove1 (schedulerLockKey org name) (lk_own s)\<rparr>)) (\<lambda>_. dbcall env)"

end
