(* ===== verification/Maintenance.thy ===== *)
theory Maintenance imports SchedulerStore begin

text \<open>
  The maintenance runner (\<open>governance/maintenance\<close>): the job registry, one bounded run of a due job
  with its re-arming, and the two jobs (\<open>overridesweep\<close>, \<open>explanationretention\<close>), which wrap the sweep
  and the prune page.

  A returned error carries the runner's report \<open>Outcome: error\<close> with zero counts, so the error value
  alone models it. \<open>cancelled k\<close> says whether the caller's context is cancelled when the run is about
  to start its page \<open>k\<close>. Log lines are left out.
\<close>

section \<open>Jobs and their registry\<close>

record PageResult =
  pg_NextCursor :: string
  pg_Done :: bool
  pg_ItemsScanned :: int
  pg_ItemsChanged :: int

text \<open>\<open>PageLimits\<close> has one field, the page size; it is the integer argument of \<open>RunPage\<close>.\<close>

record 's Job =
  jb_Name :: string
  jb_RunPage :: "string \<Rightarrow> string \<Rightarrow> int \<Rightarrow> ('s, PageResult) prog"

type_synonym 's JobRegistry = "(string \<times> 's Job) list"

fun registry_loop :: "'s Job option list \<Rightarrow> 's JobRegistry \<Rightarrow> err + 's JobRegistry" where
  "registry_loop [] m = Inr m"
| "registry_loop (None # js) m = Inl ErrBadRegistry"
| "registry_loop (Some j # js) m =
     (if jb_Name j = [] then Inl ErrBadRegistry
      else if map_of m (jb_Name j) \<noteq> None then Inl ErrBadRegistry
      else registry_loop js (m @ [(jb_Name j, j)]))"

definition NewJobRegistry :: "'s Job option list \<Rightarrow> err + 's JobRegistry" where
  "NewJobRegistry jobs = registry_loop jobs []"

definition Lookup :: "'s JobRegistry \<Rightarrow> string \<Rightarrow> err + 's Job" where
  "Lookup r name = (case map_of r name of None \<Rightarrow> Inl ErrUnknownJob | Some j \<Rightarrow> Inr j)"

definition Names :: "'s JobRegistry \<Rightarrow> string list" where
  "Names r = sort (map fst r)"

section \<open>The runner\<close>

record RunnerConfig =
  rc_MaxPagesPerRun :: int
  rc_MaxRunDuration :: Duration
  rc_PageSize :: int
  rc_PartialRequeueDelay :: Duration
  rc_JobInterval :: Duration
  rc_RetryBase :: Duration
  rc_RetryMax :: Duration

definition validate :: "RunnerConfig \<Rightarrow> err + unit" where
  "validate c =
     (if rc_MaxPagesPerRun c < 1 then Inl ErrBadRunnerConfig
      else if rc_MaxRunDuration c \<le> 0 then Inl ErrBadRunnerConfig
      else if rc_PageSize c < 1 then Inl ErrBadRunnerConfig
      else if rc_PartialRequeueDelay c \<le> 0 then Inl ErrBadRunnerConfig
      else if rc_JobInterval c \<le> 0 then Inl ErrBadRunnerConfig
      else if rc_RetryBase c \<le> 0 then Inl ErrBadRunnerConfig
      else if rc_RetryMax c < rc_RetryBase c then Inl ErrBadRunnerConfig
      else Inr ())"

datatype RunOutcome = OutcomeSkippedLocked | OutcomeCompleted | OutcomePartial | OutcomeError

record RunReport =
  ro_Outcome :: RunOutcome
  ro_PagesRun :: int
  ro_ItemsScanned :: int
  ro_ItemsChanged :: int

fun backoff_loop :: "Duration \<Rightarrow> nat \<Rightarrow> Duration \<Rightarrow> Duration" where
  "backoff_loop retryMax 0 d = (if d > retryMax then retryMax else d)"
| "backoff_loop retryMax (Suc k) d = (if d \<ge> retryMax then retryMax else backoff_loop retryMax k (wrap64 (d * 2)))"

definition backoffFor :: "RunnerConfig \<Rightarrow> int \<Rightarrow> Duration" where
  "backoffFor cfg consecutiveFailures =
     (let n = (if consecutiveFailures < 1 then 1 else consecutiveFailures) in
      backoff_loop (rc_RetryMax cfg) (nat (n - 1)) (rc_RetryBase cfg))"

definition finishCompleted ::
  "env \<Rightarrow> RunnerConfig \<Rightarrow> string \<Rightarrow> string \<Rightarrow> RunReport \<Rightarrow> ('z sched_db_scheme, RunReport) prog" where
  "finishCompleted env cfg org name report =
     bindE (Now env) (\<lambda>finishedAt.
     bindE (MarkJobCompleted env org name SchedulerCursorStart finishedAt (finishedAt + rc_JobInterval cfg)) (\<lambda>_.
     retE (report\<lparr>ro_Outcome := OutcomeCompleted\<rparr>)))"

definition finishPartial ::
  "env \<Rightarrow> RunnerConfig \<Rightarrow> string \<Rightarrow> string \<Rightarrow> string \<Rightarrow> RunReport \<Rightarrow> ('z sched_db_scheme, RunReport) prog" where
  "finishPartial env cfg org name cursor report =
     bindE (Now env) (\<lambda>finishedAt.
     bindE (MarkJobPartial env org name cursor finishedAt (finishedAt + rc_PartialRequeueDelay cfg)) (\<lambda>_.
     retE (report\<lparr>ro_Outcome := OutcomePartial\<rparr>)))"

definition finishFailed ::
  "env \<Rightarrow> RunnerConfig \<Rightarrow> string \<Rightarrow> string \<Rightarrow> int \<Rightarrow> err \<Rightarrow> RunReport \<Rightarrow> ('z sched_db_scheme, RunReport) prog" where
  "finishFailed env cfg org name priorFailures runErr report =
     bindE (Now env) (\<lambda>finishedAt.
     bindE (MarkJobFailed env org name runErr finishedAt (finishedAt + backoffFor cfg (priorFailures + 1))) (\<lambda>_.
     retE (report\<lparr>ro_Outcome := OutcomeError\<rparr>)))"

text \<open>The loop; its first argument is how many more pages the run may start.\<close>

fun page_run ::
  "nat \<Rightarrow> env \<Rightarrow> RunnerConfig \<Rightarrow> (nat \<Rightarrow> bool) \<Rightarrow> 'z sched_db_scheme Job \<Rightarrow> SchedulerJob \<Rightarrow> Time \<Rightarrow> string \<Rightarrow> RunReport \<Rightarrow>
     ('z sched_db_scheme, RunReport) prog" where
  "page_run 0 env cfg cancelled job js deadline cursor report =
     finishPartial env cfg (sj_OrganizationID js) (sj_JobName js) cursor report"
| "page_run (Suc k) env cfg cancelled job js deadline cursor report =
     bindE (Now env) (\<lambda>t.
     if \<not> t < deadline then finishPartial env cfg (sj_OrganizationID js) (sj_JobName js) cursor report
     else if cancelled (nat (ro_PagesRun report)) then finishPartial env cfg (sj_OrganizationID js) (sj_JobName js) cursor report
     else bindE (tryE (jb_RunPage job (sj_OrganizationID js) cursor (rc_PageSize cfg))) (\<lambda>r.
       case r of
         Inl e \<Rightarrow> finishFailed env cfg (sj_OrganizationID js) (sj_JobName js) (sj_ConsecutiveFailures js) e report
       | Inr result \<Rightarrow>
           let cursor' = pg_NextCursor result;
               report' = report\<lparr>ro_PagesRun := ro_PagesRun report + 1,
                 ro_ItemsScanned := ro_ItemsScanned report + pg_ItemsScanned result,
                 ro_ItemsChanged := ro_ItemsChanged report + pg_ItemsChanged result\<rparr> in
           if pg_Done result then finishCompleted env cfg (sj_OrganizationID js) (sj_JobName js) report'
           else page_run k env cfg cancelled job js deadline cursor' report'))"

definition empty_report :: "RunOutcome \<Rightarrow> RunReport" where
  "empty_report out = \<lparr>ro_Outcome = out, ro_PagesRun = 0, ro_ItemsScanned = 0, ro_ItemsChanged = 0\<rparr>"

definition runPages ::
  "env \<Rightarrow> RunnerConfig \<Rightarrow> (nat \<Rightarrow> bool) \<Rightarrow> 'z sched_db_scheme Job \<Rightarrow> SchedulerJob \<Rightarrow> ('z sched_db_scheme, RunReport) prog" where
  "runPages env cfg cancelled job js =
     bindE (Now env) (\<lambda>t.
     page_run (nat (rc_MaxPagesPerRun cfg)) env cfg cancelled job js (t + rc_MaxRunDuration cfg) (sj_Cursor js)
       (empty_report OutcomeError))"

text \<open>A deferred release runs after the body on every path; its own error is only logged.\<close>

definition releasing :: "env \<Rightarrow> string \<Rightarrow> string \<Rightarrow> ('z sched_db_scheme, 'a) prog \<Rightarrow> ('z sched_db_scheme, 'a) prog" where
  "releasing env org name m = (\<lambda>s. case m s of (r, s') \<Rightarrow> (r, snd (Release env org name s')))"

definition RunDueJob ::
  "env \<Rightarrow> RunnerConfig \<Rightarrow> 'z sched_db_scheme JobRegistry \<Rightarrow> (nat \<Rightarrow> bool) \<Rightarrow> SchedulerJob \<Rightarrow> ('z sched_db_scheme, RunReport) prog" where
  "RunDueJob env cfg registry cancelled js =
     bindE (liftE (Lookup registry (sj_JobName js))) (\<lambda>job.
     bindE (TryLockOrgJob env (sj_OrganizationID js) (sj_JobName js)) (\<lambda>acquired.
     if \<not> acquired then retE (empty_report OutcomeSkippedLocked)
     else releasing env (sj_OrganizationID js) (sj_JobName js)
       (bindE (Now env) (\<lambda>startedAt.
        bindE (MarkJobStarted env (sj_OrganizationID js) (sj_JobName js) startedAt) (\<lambda>_.
        runPages env cfg cancelled job js)))))"

section \<open>The two jobs\<close>

definition sweep_job_name :: string where "sweep_job_name = ''expired_override_sweep''"
definition prune_job_name :: string where "prune_job_name = ''explanation_retention_prune''"

definition sweep_RunPage :: "env \<Rightarrow> string \<Rightarrow> string \<Rightarrow> int \<Rightarrow> ('z gov_db_scheme, PageResult) prog" where
  "sweep_RunPage env org cursor page_size =
     bindE (SweepExpiringOverridesPage env org cursor page_size) (\<lambda>result.
     retE \<lparr>pg_NextCursor = sw_NextCursor result, pg_Done = sw_Done result,
           pg_ItemsScanned = sw_CertsScanned result, pg_ItemsChanged = sw_ClearedCount result\<rparr>)"

definition prune_RunPage :: "env \<Rightarrow> Service \<Rightarrow> string \<Rightarrow> string \<Rightarrow> int \<Rightarrow> ('z gov_db_scheme, PageResult) prog" where
  "prune_RunPage env svc org cursor page_size =
     bindE (PruneExplanationsPage env svc org [] cursor page_size) (\<lambda>result.
     retE \<lparr>pg_NextCursor = pr_NextCursor result, pg_Done = pr_Done result,
           pg_ItemsScanned = pr_CertsScanned result, pg_ItemsChanged = pr_DeletedCount result\<rparr>)"

definition sweep_job :: "env \<Rightarrow> 'z gov_db_scheme Job" where
  "sweep_job env = \<lparr>jb_Name = sweep_job_name, jb_RunPage = sweep_RunPage env\<rparr>"

definition prune_job :: "env \<Rightarrow> Service \<Rightarrow> 'z gov_db_scheme Job" where
  "prune_job env svc = \<lparr>jb_Name = prune_job_name, jb_RunPage = prune_RunPage env svc\<rparr>"

section \<open>Backoff\<close>

lemma wrap64_small: "0 \<le> d \<Longrightarrow> d < 2 ^ 63 \<Longrightarrow> wrap64 d = d"
  by (simp add: wrap64_def)

lemma backoff_loop_exact:
  "0 < d \<Longrightarrow> retryMax \<le> 2 ^ 62 \<Longrightarrow> backoff_loop retryMax k d = min retryMax (d * 2 ^ k)"
proof (induction k arbitrary: d)
  case (Suc k)
  show ?case
  proof (cases "d \<ge> retryMax")
    case True
    have "(1::int) \<le> 2 ^ Suc k" by (rule one_le_power) simp
    then have "d * 1 \<le> d * 2 ^ Suc k" using Suc.prems(1) by (intro mult_left_mono) auto
    with True show ?thesis by simp
  next
    case False
    then have "wrap64 (d * 2) = d * 2" using Suc.prems by (intro wrap64_small) auto
    with False Suc.IH [of "d * 2"] Suc.prems show ?thesis by (simp add: ac_simps)
  qed
qed simp

text \<open>
  For every configuration the runner accepts whose retry cap is at most 2^62 nanoseconds (about
  146 years), the backoff after the n-th consecutive failure is the base doubled n-1 times, capped,
  and it is positive.
\<close>

theorem backoffFor_exact:
  assumes "validate cfg = Inr ()" and "rc_RetryMax cfg \<le> 2 ^ 62"
  shows "backoffFor cfg n = min (rc_RetryMax cfg) (rc_RetryBase cfg * 2 ^ nat (max 1 n - 1)) \<and>
    0 < backoffFor cfg n \<and> backoffFor cfg n \<le> rc_RetryMax cfg"
proof -
  have b: "0 < rc_RetryBase cfg" "rc_RetryBase cfg \<le> rc_RetryMax cfg"
    using assms(1) by (auto simp: validate_def split: if_splits)
  have n: "(if n < 1 then 1 else n) = max 1 n" by auto
  have "backoffFor cfg n = min (rc_RetryMax cfg) (rc_RetryBase cfg * 2 ^ nat (max 1 n - 1))"
    using backoff_loop_exact [OF b(1) assms(2)] by (simp add: backoffFor_def n)
  moreover have "0 < rc_RetryBase cfg * 2 ^ nat (max 1 n - 1)" using b by simp
  ultimately show ?thesis using b by auto
qed

definition demo_runner :: RunnerConfig where
  "demo_runner = \<lparr>rc_MaxPagesPerRun = 5, rc_MaxRunDuration = 1000000, rc_PageSize = 1, rc_PartialRequeueDelay = 10,
     rc_JobInterval = 100, rc_RetryBase = 7, rc_RetryMax = 50\<rparr>"

theorem backoffFor_exact_witness: "validate demo_runner = Inr () \<and> backoffFor demo_runner 3 = 28 \<and> backoffFor demo_runner 9 = 50"
proof -
  have v: "validate demo_runner = Inr ()" "rc_RetryMax demo_runner \<le> 2 ^ 62" by (simp_all add: validate_def demo_runner_def)
  from backoffFor_exact [OF v, of 3] backoffFor_exact [OF v, of 9] v(1) show ?thesis by (simp add: demo_runner_def)
qed

text \<open>
  Beyond that cap the doubling wraps before it is compared with the cap. The runner accepts the
  largest duration as a cap, and then the backoff after 64 failures is negative: the job is due again
  at once.
\<close>

theorem backoffFor_wraps:
  "\<exists>cfg. validate cfg = Inr () \<and> in64 (rc_RetryMax cfg) \<and> backoffFor cfg 64 < 0"
proof -
  let ?c = "demo_runner\<lparr>rc_RetryBase := 1, rc_RetryMax := 2 ^ 63 - 1\<rparr>"
  have "validate ?c = Inr ()" "in64 (rc_RetryMax ?c)" by (simp_all add: validate_def demo_runner_def in64_def)
  moreover have "backoffFor ?c 64 < 0" by code_simp
  ultimately show ?thesis by blast
qed

section \<open>The registry\<close>

lemma registry_loop_Inr:
  "registry_loop js m = Inr r \<Longrightarrow> \<exists>jobs. js = map Some jobs \<and> r = m @ map (\<lambda>j. (jb_Name j, j)) jobs \<and>
     [] \<notin> jb_Name ` set jobs \<and> distinct (map jb_Name jobs) \<and> (\<forall>j \<in> set jobs. jb_Name j \<notin> fst ` set m)"
proof (induction js m rule: registry_loop.induct)
  case (3 j js m)
  then have n: "jb_Name j \<noteq> []" "map_of m (jb_Name j) = None" by (auto split: if_splits)
  with 3 obtain jobs where "js = map Some jobs" "r = (m @ [(jb_Name j, j)]) @ map (\<lambda>j. (jb_Name j, j)) jobs"
    "[] \<notin> jb_Name ` set jobs" "distinct (map jb_Name jobs)" "\<forall>x \<in> set jobs. jb_Name x \<notin> fst ` set (m @ [(jb_Name j, j)])"
    by auto
  with n show ?case by (intro exI [of _ "j # jobs"]) (auto simp: map_of_eq_None_iff)
qed auto

lemma Lookup_registered:
  assumes "NewJobRegistry js = Inr r"
  shows "Lookup r name = Inr j \<longleftrightarrow> Some j \<in> set js \<and> jb_Name j = name"
proof -
  from registry_loop_Inr [OF assms [unfolded NewJobRegistry_def]] obtain jobs where
    js: "js = map Some jobs" "r = map (\<lambda>j. (jb_Name j, j)) jobs" "distinct (map jb_Name jobs)" by auto
  then have "map_of r name = Some j \<longleftrightarrow> (name, j) \<in> set r"
    by (intro map_of_eq_Some_iff) (simp add: comp_def)
  then show ?thesis using js by (auto simp: Lookup_def split: option.splits)
qed


section \<open>State transitions of a job row\<close>

definition sched_of :: "'z sched_db_scheme \<Rightarrow> SchedulerJob list \<times> 64 word list \<times> 64 word list" where
  "sched_of s = (t_jobs s, lk_other s, lk_own s)"

lemma sched_of_counters [simp]:
  "sched_of (db_of s) = sched_of s" "sched_of (stepped s) = sched_of s" "sched_of (s\<lparr>w_clock := c\<rparr>) = sched_of s"
  by (simp_all add: sched_of_def db_of_def stepped_def)

lemma sched_fields:
  "t_jobs (stepped s) = t_jobs s" "lk_own (stepped s) = lk_own s" "lk_other (stepped s) = lk_other s"
  by (simp_all add: stepped_def)

lemma sched_of_eq: "sched_of s = sched_of t \<longleftrightarrow> t_jobs s = t_jobs t \<and> lk_other s = lk_other t \<and> lk_own s = lk_own t"
  by (simp add: sched_of_def)

lemma job_row_cong: "t_jobs s = t_jobs t \<Longrightarrow> job_row org name s = job_row org name t"
  by (simp add: job_row_def)

definition retimed :: "(Time \<Rightarrow> SchedulerJob \<Rightarrow> SchedulerJob) \<Rightarrow> bool" where
  "retimed f \<longleftrightarrow> (\<forall>t j. sj_key (f t j) = sj_key j)"

lemma execMark_Inr:
  assumes run: "execMark env org name f s = (Inr u, s')" and f: "retimed f"
  shows "\<exists>t row. job_row org name s = Some row \<and> job_row org name s' = Some (f t row)"
    and "(o2, n2) \<noteq> (org, name) \<Longrightarrow> job_row o2 n2 s' = job_row o2 n2 s"
    and "lk_own s' = lk_own s" "lk_other s' = lk_other s" "\<exists>js. s' = (stepped s)\<lparr>t_jobs := js\<rparr>"
proof -
  let ?t = "sql_now env (stepped s)"
  have s': "s' = (stepped s)\<lparr>t_jobs := update_where (is_job org name) (f ?t) (t_jobs s)\<rparr>"
    and hit: "job_row org name s \<noteq> None"
    using run by (auto simp: execMark_def exec_hit_Inr sched_fields job_row_def)
  have key: "is_job o2 n2 (f ?t j) = is_job o2 n2 j" for o2 n2 j
    using f by (auto simp: retimed_def is_job_def sj_key_def)
  have "job_row org name s' = map_option (f ?t) (job_row org name s)"
    unfolding s' job_row_def by (simp add: find_update_where_same key)
  with hit show "\<exists>t row. job_row org name s = Some row \<and> job_row org name s' = Some (f t row)" by auto
  show "job_row o2 n2 s' = job_row o2 n2 s" if "(o2, n2) \<noteq> (org, name)"
  proof -
    have "\<not> is_job org name j" if "is_job o2 n2 j" for j using that \<open>(o2, n2) \<noteq> (org, name)\<close> by (auto simp: is_job_def)
    then show ?thesis unfolding s' job_row_def by (simp add: find_update_where_other key)
  qed
  show "lk_own s' = lk_own s" "lk_other s' = lk_other s" "\<exists>js. s' = (stepped s)\<lparr>t_jobs := js\<rparr>" by (auto simp: s' sched_fields)
qed

text \<open>What the terminal mark of each outcome makes of the row.\<close>

definition marked :: "RunnerConfig \<Rightarrow> RunOutcome \<Rightarrow> string \<Rightarrow> int \<Rightarrow> SchedulerJob \<Rightarrow> SchedulerJob \<Rightarrow> bool" where
  "marked cfg out cursor failures row row' \<longleftrightarrow> sj_key row' = sj_key row \<and> sj_Enabled row' = sj_Enabled row \<and>
     (\<exists>fin. sj_LastFinishedAt row' = Some fin \<and>
       (case out of
          OutcomeCompleted \<Rightarrow> sj_LastStatus row' = SchedulerJobCompleted \<and> sj_Cursor row' = SchedulerCursorStart \<and>
            sj_ConsecutiveFailures row' = 0 \<and> sj_LastError row' = None \<and> sj_NextDueAt row' = fin + rc_JobInterval cfg
        | OutcomePartial \<Rightarrow> sj_LastStatus row' = SchedulerJobPartial \<and> sj_Cursor row' = cursor \<and>
            sj_ConsecutiveFailures row' = 0 \<and> sj_LastError row' = None \<and> sj_NextDueAt row' = fin + rc_PartialRequeueDelay cfg
        | OutcomeError \<Rightarrow> sj_LastStatus row' = SchedulerJobError \<and> sj_Cursor row' = sj_Cursor row \<and>
            sj_ConsecutiveFailures row' = sj_ConsecutiveFailures row + 1 \<and> sj_LastError row' \<noteq> None \<and>
            sj_NextDueAt row' = fin + backoffFor cfg (failures + 1)
        | OutcomeSkippedLocked \<Rightarrow> False))"

definition ends ::
  "RunnerConfig \<Rightarrow> string \<Rightarrow> string \<Rightarrow> string \<Rightarrow> int \<Rightarrow> RunOutcome \<Rightarrow> 'z sched_db_scheme \<Rightarrow> 'z sched_db_scheme \<Rightarrow> bool" where
  "ends cfg org name cursor failures out s s' \<longleftrightarrow>
     (\<exists>row row'. job_row org name s = Some row \<and> job_row org name s' = Some row' \<and> marked cfg out cursor failures row row') \<and>
     (\<forall>o2 n2. (o2, n2) \<noteq> (org, name) \<longrightarrow> job_row o2 n2 s' = job_row o2 n2 s) \<and>
     lk_own s' = lk_own s \<and> lk_other s' = lk_other s \<and>
     (\<exists>js. db_of s' = (db_of s)\<lparr>t_jobs := js\<rparr>)"

lemma ends_execMark:
  assumes "execMark env org name f (s\<lparr>w_clock := c\<rparr>) = (Inr u, s')" and "retimed f"
    and "\<And>t row. marked cfg out cursor failures row (f t row)"
  shows "ends cfg org name cursor failures out s s'"
proof -
  note e = execMark_Inr [OF assms(1,2)]
  have row: "job_row o2 n2 (s\<lparr>w_clock := c\<rparr>) = job_row o2 n2 s" for o2 n2 by (simp add: job_row_def)
  obtain js where "s' = (stepped (s\<lparr>w_clock := c\<rparr>))\<lparr>t_jobs := js\<rparr>" using e(5) by blast
  then have "db_of s' = (db_of s)\<lparr>t_jobs := js\<rparr>" by (simp add: db_of_def stepped_def)
  moreover obtain t r where "job_row org name s = Some r" "job_row org name s' = Some (f t r)" using e(1) row by auto
  ultimately show ?thesis unfolding ends_def using e(2-4) row assms(3) by auto
qed

lemma finish_ends:
  "finishCompleted env cfg org name report s = (Inr rep, s') \<Longrightarrow>
     rep = report\<lparr>ro_Outcome := OutcomeCompleted\<rparr> \<and> ends cfg org name cursor failures OutcomeCompleted s s'"
  "finishPartial env cfg org name cursor report s = (Inr rep, s') \<Longrightarrow>
     rep = report\<lparr>ro_Outcome := OutcomePartial\<rparr> \<and> ends cfg org name cursor failures OutcomePartial s s'"
  "finishFailed env cfg org name failures e report s = (Inr rep, s') \<Longrightarrow>
     rep = report\<lparr>ro_Outcome := OutcomeError\<rparr> \<and> ends cfg org name cursor failures OutcomeError s s'"
  unfolding finishCompleted_def finishPartial_def finishFailed_def MarkJobCompleted_def MarkJobPartial_def MarkJobFailed_def
  by (auto simp: bindE_Inr Now_Inr retE_Inr marked_def retimed_def sj_key_def intro!: ends_execMark)


section \<open>The job contract\<close>

text \<open>
  What the runner relies on (\<open>job.go\<close>): a page is atomic, stays off the scheduler's own tables, keeps
  the database well-formed, and a page that is not the last one moves the cursor past some work.
\<close>

locale page_job =
  fixes RunPage :: "string \<Rightarrow> string \<Rightarrow> int \<Rightarrow> ('z sched_db_scheme, PageResult) prog"
    and inv :: "'z sched_db_scheme \<Rightarrow> bool"
    and left :: "string \<Rightarrow> string \<Rightarrow> 'z sched_db_scheme \<Rightarrow> nat"
  assumes frame: "leaves sched_of (RunPage org c n)"
    and atomic: "fails_clean db_of (RunPage org c n)"
    and sound: "keeps inv (RunPage org c n)"
    and progress: "inv s \<Longrightarrow> RunPage org c n s = (Inr r, s') \<Longrightarrow> \<not> pg_Done r \<Longrightarrow> left org (pg_NextCursor r) s' < left org c s"
    and inv_view: "inv (db_of s) = inv s"
    and left_view: "left org c (db_of s) = left org c s"
    and sched_view: "inv (s\<lparr>t_jobs := a, lk_own := b\<rparr>) = inv s" "left org c (s\<lparr>t_jobs := a, lk_own := b\<rparr>) = left org c s"
begin

lemma inv_clock [simp]: "inv (s\<lparr>w_clock := t\<rparr>) = inv s"
  using inv_view [of s] inv_view [of "s\<lparr>w_clock := t\<rparr>"] by simp

lemma left_clock [simp]: "left org c (s\<lparr>w_clock := t\<rparr>) = left org c s"
  using left_view [of org c s] left_view [of org c "s\<lparr>w_clock := t\<rparr>"] by simp

lemma failed_page:
  assumes "RunPage org c n s = (Inl e, s')" "inv s"
  shows "left org c s' = left org c s" "inv s'" "sched_of s' = sched_of s"
proof -
  have d: "db_of s' = db_of s" using fails_cleanD [OF atomic assms(1)] .
  show "left org c s' = left org c s" "inv s'" using d inv_view left_view assms(2) by metis+
  show "sched_of s' = sched_of s" using leavesD [OF frame assms(1)] .
qed

text \<open>
  How a run ends: in a state with the scheduler's tables still as at its start, the terminal mark is
  applied; every page but a last one consumed work; and a run with a budget above the work left
  stops early only at its deadline or when it is cancelled.
\<close>

lemma page_run_ends:
  assumes job: "jb_RunPage job = RunPage" and inv: "inv s"
    and run: "page_run k env cfg cancelled job js deadline c report s = (Inr rep, s')"
  shows "\<exists>t c'. ends cfg (sj_OrganizationID js) (sj_JobName js) c' (sj_ConsecutiveFailures js) (ro_Outcome rep) t s' \<and>
    sched_of t = sched_of s \<and> inv t \<and>
    ro_PagesRun report \<le> ro_PagesRun rep \<and> ro_PagesRun rep \<le> ro_PagesRun report + int k \<and>
    (ro_Outcome rep \<noteq> OutcomeCompleted \<longrightarrow>
       int (left (sj_OrganizationID js) c' t) + (ro_PagesRun rep - ro_PagesRun report) \<le> int (left (sj_OrganizationID js) c s)) \<and>
    (ro_Outcome rep = OutcomePartial \<and> left (sj_OrganizationID js) c s < k \<longrightarrow>
       (\<exists>i. deadline \<le> clockAt env i) \<or> (\<exists>i. cancelled i)) \<and>
    (ro_PagesRun rep = ro_PagesRun report \<longrightarrow> ro_Outcome rep = OutcomePartial \<longrightarrow> c' = c)"
  using inv run
proof (induction k arbitrary: c report s)
  case 0
  then have "rep = report\<lparr>ro_Outcome := OutcomePartial\<rparr> \<and>
      ends cfg (sj_OrganizationID js) (sj_JobName js) c (sj_ConsecutiveFailures js) OutcomePartial s s'"
    using finish_ends(2) by simp
  with "0.prems"(1) show ?case by (intro exI [of _ s] exI [of _ c]) simp
next
  case (Suc k)
  let ?org = "sj_OrganizationID js" and ?s1 = "s\<lparr>w_clock := Suc (w_clock s)\<rparr>" and ?now = "clockAt env (w_clock s)"
  show ?case
  proof (cases "?now < deadline \<and> \<not> cancelled (nat (ro_PagesRun report))")
    case False
    with Suc.prems(2) have "finishPartial env cfg ?org (sj_JobName js) c report ?s1 = (Inr rep, s')"
      by (auto simp: bindE_Inr Now_Inr split: if_splits)
    from finish_ends(2) [OF this] Suc.prems(1) False show ?thesis
      by (intro exI [of _ ?s1] exI [of _ c]) (auto simp: not_less)
  next
    case True
    obtain r s2 where page: "RunPage ?org c (rc_PageSize cfg) ?s1 = (r, s2)" by fastforce
    have fr: "sched_of s2 = sched_of s" using leavesD [OF frame page] by simp
    have inv2: "inv s2" using keepsD [OF sound _ page] Suc.prems(1) by simp
    show ?thesis
    proof (cases r)
      case (Inl e)
      with Suc.prems(2) True page have "finishFailed env cfg ?org (sj_JobName js) (sj_ConsecutiveFailures js) e report s2 = (Inr rep, s')"
        by (auto simp: bindE_Inr Now_Inr tryE_Inr job)
      from finish_ends(3) [OF this, of c] failed_page [OF page [unfolded Inl]] Suc.prems(1) show ?thesis
        by (intro exI [of _ s2] exI [of _ c]) simp
    next
      case (Inr res)
      let ?rep' = "report\<lparr>ro_PagesRun := ro_PagesRun report + 1, ro_ItemsScanned := ro_ItemsScanned report + pg_ItemsScanned res,
                 ro_ItemsChanged := ro_ItemsChanged report + pg_ItemsChanged res\<rparr>"
      from Suc.prems(2) True page Inr have next_step:
        "(if pg_Done res then finishCompleted env cfg ?org (sj_JobName js) ?rep'
          else page_run k env cfg cancelled job js deadline (pg_NextCursor res) ?rep') s2 = (Inr rep, s')"
        by (auto simp: bindE_Inr Now_Inr tryE_Inr job Let_def)
      show ?thesis
      proof (cases "pg_Done res")
        case True
        with next_step have "finishCompleted env cfg ?org (sj_JobName js) ?rep' s2 = (Inr rep, s')" by simp
        from finish_ends(1) [OF this, of c "sj_ConsecutiveFailures js"] fr inv2 show ?thesis
          by (intro exI [of _ s2] exI [of _ c]) simp
      next
        case False
        with next_step have run': "page_run k env cfg cancelled job js deadline (pg_NextCursor res) ?rep' s2 = (Inr rep, s')" by simp
        have less: "left ?org (pg_NextCursor res) s2 < left ?org c s"
          using progress [OF _ page [unfolded Inr] False] Suc.prems(1) by simp
        from Suc.IH [OF inv2 run'] obtain t c' where ih:
          "ends cfg ?org (sj_JobName js) c' (sj_ConsecutiveFailures js) (ro_Outcome rep) t s'" "sched_of t = sched_of s2" "inv t"
          "ro_PagesRun report + 1 \<le> ro_PagesRun rep" "ro_PagesRun rep \<le> ro_PagesRun report + 1 + int k"
          "ro_Outcome rep \<noteq> OutcomeCompleted \<longrightarrow> int (left ?org c' t) + (ro_PagesRun rep - (ro_PagesRun report + 1)) \<le> int (left ?org (pg_NextCursor res) s2)"
          "ro_Outcome rep = OutcomePartial \<and> left ?org (pg_NextCursor res) s2 < k \<longrightarrow> (\<exists>i. deadline \<le> clockAt env i) \<or> (\<exists>i. cancelled i)"
          by (elim exE conjE) (rule that; simp)
        have "ro_Outcome rep = OutcomePartial \<and> left ?org c s < Suc k \<longrightarrow> (\<exists>i. deadline \<le> clockAt env i) \<or> (\<exists>i. cancelled i)"
          using ih(7) less by auto
        moreover have "ro_Outcome rep \<noteq> OutcomeCompleted \<longrightarrow> int (left ?org c' t) + (ro_PagesRun rep - ro_PagesRun report) \<le> int (left ?org c s)"
          using ih(6) less by auto
        ultimately show ?thesis using ih(1-5) fr by (intro exI [of _ t] exI [of _ c']) auto
      qed
    qed
  qed
qed


lemma same_tables:
  assumes "db_of s' = (db_of s)\<lparr>t_jobs := a, lk_own := b\<rparr>" shows "inv s' = inv s" "left org c s' = left org c s"
  using inv_view [of s'] left_view [of org c s'] sched_view(1) [where s = "db_of s" and a = a and b = b] sched_view(2) [where s = "db_of s" and a = a and b = b and org = org and c = c] inv_view [of s] left_view [of org c s] assms by simp_all

end

section \<open>The whole run\<close>

definition locks_of :: "'z sched_db_scheme \<Rightarrow> 64 word list \<times> 64 word list" where
  "locks_of s = (lk_own s, lk_other s)"

lemma locks_of_view: "locks_of (db_of s) = locks_of s"
  by (simp add: locks_of_def db_of_def)

lemma leaves_locks_mark [frame_intros]: "leaves locks_of (execMark env org name f)"
  unfolding execMark_def by (rule leaves_exec_hit) (simp_all add: locks_of_def db_of_def)

lemma leaves_locks_Now [frame_intros]: "leaves locks_of (Now env)"
  by (rule leaves_view [OF leaves_Now]) (rule locks_of_view)

lemma leaves_locks_finish [frame_intros]:
  "leaves locks_of (finishCompleted env cfg org name report)" "leaves locks_of (finishPartial env cfg org name cursor report)"
  "leaves locks_of (finishFailed env cfg org name n e report)" "leaves locks_of (MarkJobStarted env org name t)"
  unfolding finishCompleted_def finishPartial_def finishFailed_def MarkJobCompleted_def MarkJobPartial_def MarkJobFailed_def MarkJobStarted_def
  by (intro frame_intros)+

lemma leaves_locks_page_run:
  assumes "\<And>org c n. leaves locks_of (jb_RunPage job org c n)"
  shows "leaves locks_of (page_run k env cfg cancelled job js deadline c report)"
proof (induction k arbitrary: c report)
  case (Suc k)
  show ?case
    unfolding page_run.simps(2) Let_def by (intro frame_intros leaves_tryE assms Suc.IH)
qed (simp add: frame_intros)

definition started_run ::
  "env \<Rightarrow> RunnerConfig \<Rightarrow> (nat \<Rightarrow> bool) \<Rightarrow> 'z sched_db_scheme Job \<Rightarrow> SchedulerJob \<Rightarrow> ('z sched_db_scheme, RunReport) prog" where
  "started_run env cfg cancelled job js =
     bindE (Now env) (\<lambda>startedAt.
        bindE (MarkJobStarted env (sj_OrganizationID js) (sj_JobName js) startedAt) (\<lambda>_.
        runPages env cfg cancelled job js))"

lemma leaves_locks_started_run:
  assumes "\<And>org c n. leaves locks_of (jb_RunPage job org c n)"
  shows "leaves locks_of (started_run env cfg cancelled job js)"
  unfolding started_run_def runPages_def by (intro frame_intros leaves_locks_page_run assms)

lemma db_of_lk_own: "db_of (s\<lparr>lk_own := x\<rparr>) = (db_of s)\<lparr>lk_own := x\<rparr>"
  by (simp add: db_of_def)

lemma releasing_locks:
  assumes "leaves locks_of m" and "lk_own s = schedulerLockKey org name # ks" and "releasing env org name m s = (r, s')"
  shows "lk_own s' = ks" "lk_other s' = lk_other s"
    and "\<exists>s1. m s = (r, s1) \<and> db_of s' = (db_of s1)\<lparr>lk_own := ks\<rparr>"
proof -
  obtain s1 where 1: "m s = (r, s1)" and s': "s' = snd (Release env org name s1)"
    using assms(3) by (auto simp: releasing_def split: prod.splits)
  have l: "lk_own s1 = schedulerLockKey org name # ks" "lk_other s1 = lk_other s"
    using leavesD [OF assms(1) 1] assms(2) by (simp_all add: locks_of_def)
  have "s' = (stepped s1)\<lparr>lk_own := ks\<rparr>"
    by (simp add: s' Release_def bindE_def modE_def dbcall_def l stepped_def)
  with 1 l show "lk_own s' = ks" "lk_other s' = lk_other s" "\<exists>s1. m s = (r, s1) \<and> db_of s' = (db_of s1)\<lparr>lk_own := ks\<rparr>"
    by (auto simp: db_of_def stepped_def)
qed

lemma TryLockOrgJob_run:
  "TryLockOrgJob env org name s =
     (if org = [] \<or> name = [] then (Inl ErrRequired, s)
      else if fault env (w_calls s) then (Inl EDb, stepped s)
      else if fault env (w_calls (stepped s)) then (Inl EDb, stepped (stepped s))
      else if schedulerLockKey org name \<in> set (lk_other s) \<union> set (lk_own s) then (Inr False, stepped (stepped s))
      else (Inr True, (stepped (stepped s))\<lparr>lk_own := schedulerLockKey org name # lk_own s\<rparr>))"
  by (simp add: TryLockOrgJob_def bindE_def guardE_def retE_def throwE_def dbcall_def db_query_def getE_def modE_def stepped_def)

text \<open>Either the run never got the lock, or it ran under it and gave it back.\<close>

lemma liftE_ok: "bindE (liftE (Inr x)) k = k x"
  by (simp add: bindE_def liftE_def)

lemma RunDueJob_cases:
  assumes run: "RunDueJob env cfg registry cancelled js s = (r, s')" and look: "Lookup registry (sj_JobName js) = Inr job"
    and job: "\<And>org c n. leaves locks_of (jb_RunPage job org c n)"
  shows "lk_own s' = lk_own s \<and> lk_other s' = lk_other s \<and>
   ((\<exists>e. r = Inl e) \<and> db_of s' = db_of s \<or>
    r = Inr (empty_report OutcomeSkippedLocked) \<and> db_of s' = db_of s \<and>
      schedulerLockKey (sj_OrganizationID js) (sj_JobName js) \<in> set (lk_other s) \<union> set (lk_own s) \<or>
    schedulerLockKey (sj_OrganizationID js) (sj_JobName js) \<notin> set (lk_other s) \<union> set (lk_own s) \<and>
      (\<exists>s1 s2. db_of s1 = (db_of s)\<lparr>lk_own := schedulerLockKey (sj_OrganizationID js) (sj_JobName js) # lk_own s\<rparr> \<and>
         started_run env cfg cancelled job js s1 = (r, s2) \<and> db_of s' = (db_of s2)\<lparr>lk_own := lk_own s\<rparr>))"
proof -
  let ?org = "sj_OrganizationID js" and ?name = "sj_JobName js"
  let ?k = "schedulerLockKey ?org ?name"
  let ?body = "\<lambda>acquired. if \<not> acquired then retE (empty_report OutcomeSkippedLocked)
     else releasing env ?org ?name (started_run env cfg cancelled job js)"
  have run': "bindE (TryLockOrgJob env ?org ?name) ?body s = (r, s')"
    using run unfolding RunDueJob_def look started_run_def liftE_ok .
  obtain a t where t: "TryLockOrgJob env ?org ?name s = (a, t)" by fastforce
  have lock: "(\<exists>e. a = Inl e) \<and> db_of t = db_of s \<or> a = Inr False \<and> db_of t = db_of s \<and> ?k \<in> set (lk_other s) \<union> set (lk_own s) \<or>
    a = Inr True \<and> ?k \<notin> set (lk_other s) \<union> set (lk_own s) \<and> (\<exists>t0. t = t0\<lparr>lk_own := ?k # lk_own s\<rparr> \<and> db_of t0 = db_of s \<and> lk_other t0 = lk_other s)"
    using t unfolding TryLockOrgJob_run
    by (auto simp: sched_fields split: if_splits intro!: exI [of _ "stepped (stepped s)"])
  have view: "lk_own t = lk_own s \<and> lk_other t = lk_other s" if "db_of t = db_of s" for t :: "'a sched_db_scheme"
    using that locks_of_view [of t] locks_of_view [of s] by (simp add: locks_of_def)
  from lock show ?thesis
  proof (elim disjE conjE exE)
    fix e assume a: "a = Inl e" and d: "db_of t = db_of s"
    with run' t have "r = Inl e" "s' = t" by (simp_all add: bindE_def)
    with d view [OF d] show ?thesis by simp
  next
    assume a: "a = Inr False" and d: "db_of t = db_of s" and k: "?k \<in> set (lk_other s) \<union> set (lk_own s)"
    with run' t have "r = Inr (empty_report OutcomeSkippedLocked)" "s' = t" by (simp_all add: bindE_def retE_def)
    with d k view [OF d] show ?thesis by simp
  next
    fix t0 assume a: "a = Inr True" and k: "?k \<notin> set (lk_other s) \<union> set (lk_own s)" and t0: "t = t0\<lparr>lk_own := ?k # lk_own s\<rparr>"
      "db_of t0 = db_of s" "lk_other t0 = lk_other s"
    with run' t have rel: "releasing env ?org ?name (started_run env cfg cancelled job js) t = (r, s')" by (simp add: bindE_def)
    have own: "lk_own t = ?k # lk_own s" using t0 by simp
    note g = releasing_locks [OF leaves_locks_started_run [OF job] own rel]
    have dt: "db_of t = (db_of s)\<lparr>lk_own := ?k # lk_own s\<rparr>" using t0 by (simp add: db_of_lk_own)
    obtain s2 where s2: "started_run env cfg cancelled job js t = (r, s2)" "db_of s' = (db_of s2)\<lparr>lk_own := lk_own s\<rparr>"
      using g(3) by blast
    have "lk_other s' = lk_other s" using g(2) t0 by simp
    with g(1) k dt s2 show ?thesis by (intro conjI disjI2 exI [of _ t] exI [of _ s2])
  qed
qed


lemma marked_started:
  assumes "marked cfg out c f (j\<lparr>sj_LastStatus := st, sj_LastStartedAt := a, sj_UpdatedAt := u\<rparr>) row'"
  shows "marked cfg out c f j row'"
  using assms by (cases out) (simp_all add: marked_def sj_key_def)

lemma db_of_idem_jobs: "(db_of t)\<lparr>t_jobs := a\<rparr> = (db_of t)\<lparr>t_jobs := a, lk_own := lk_own t\<rparr>"
  by (simp add: db_of_def)

lemma MarkJobStarted_Inr:
  assumes "MarkJobStarted env org name t s = (Inr u, s')"
  shows "\<exists>row st a up. job_row org name s = Some row \<and> job_row org name s' = Some (row\<lparr>sj_LastStatus := st, sj_LastStartedAt := a, sj_UpdatedAt := up\<rparr>)"
    "(o2, n2) \<noteq> (org, name) \<Longrightarrow> job_row o2 n2 s' = job_row o2 n2 s"
    "\<exists>js. db_of s' = (db_of s)\<lparr>t_jobs := js, lk_own := lk_own s\<rparr>"
proof -
  have r: "retimed (\<lambda>u j. j\<lparr>sj_LastStatus := SchedulerJobRunning, sj_LastStartedAt := Some t, sj_UpdatedAt := u\<rparr>)"
    by (simp add: retimed_def sj_key_def)
  note e = execMark_Inr [OF assms [unfolded MarkJobStarted_def] r]
  from e(1) show "\<exists>row st a up. job_row org name s = Some row \<and> job_row org name s' = Some (row\<lparr>sj_LastStatus := st, sj_LastStartedAt := a, sj_UpdatedAt := up\<rparr>)"
    by blast
  show "(o2, n2) \<noteq> (org, name) \<Longrightarrow> job_row o2 n2 s' = job_row o2 n2 s" by (rule e(2))
  from e(5) obtain js where "s' = (stepped s)\<lparr>t_jobs := js\<rparr>" by blast
  then have "db_of s' = (db_of s)\<lparr>t_jobs := js, lk_own := lk_own s\<rparr>" by (simp add: db_of_def stepped_def)
  then show "\<exists>js. db_of s' = (db_of s)\<lparr>t_jobs := js, lk_own := lk_own s\<rparr>" ..
qed

context page_job
begin

lemma page_locks: "leaves locks_of (RunPage org c n)"
  using frame [of org c n] by (auto simp: leaves_def sched_of_def locks_of_def)

lemma started_run_ends:
  assumes job: "jb_RunPage job = RunPage" and inv: "inv s" and cfg: "validate cfg = Inr ()"
    and run: "started_run env cfg cancelled job js s = (Inr rep, s')"
  shows "\<exists>row row' c'. job_row (sj_OrganizationID js) (sj_JobName js) s = Some row \<and> job_row (sj_OrganizationID js) (sj_JobName js) s' = Some row' \<and>
    marked cfg (ro_Outcome rep) c' (sj_ConsecutiveFailures js) row row' \<and>
    (\<forall>o2 n2. (o2, n2) \<noteq> (sj_OrganizationID js, sj_JobName js) \<longrightarrow> job_row o2 n2 s' = job_row o2 n2 s) \<and>
    inv s' \<and> 0 \<le> ro_PagesRun rep \<and> ro_PagesRun rep \<le> rc_MaxPagesPerRun cfg \<and>
    (ro_Outcome rep \<noteq> OutcomeCompleted \<longrightarrow>
       int (left (sj_OrganizationID js) c' s') + ro_PagesRun rep \<le> int (left (sj_OrganizationID js) (sj_Cursor js) s)) \<and>
    (ro_Outcome rep = OutcomePartial \<and> left (sj_OrganizationID js) (sj_Cursor js) s < nat (rc_MaxPagesPerRun cfg) \<longrightarrow>
       (\<exists>i j. clockAt env j + rc_MaxRunDuration cfg \<le> clockAt env i) \<or> (\<exists>i. cancelled i)) \<and>
    (ro_PagesRun rep = 0 \<longrightarrow> ro_Outcome rep = OutcomePartial \<longrightarrow> c' = sj_Cursor js)"
proof -
  let ?org = "sj_OrganizationID js" and ?name = "sj_JobName js" and ?s0 = "s\<lparr>w_clock := Suc (w_clock s)\<rparr>"
  from run obtain v s1 where mark: "MarkJobStarted env ?org ?name (clockAt env (w_clock s)) ?s0 = (Inr v, s1)"
    and rest: "runPages env cfg cancelled job js s1 = (Inr rep, s')"
    by (auto simp: started_run_def bindE_Inr Now_Inr)
  let ?s2 = "s1\<lparr>w_clock := Suc (w_clock s1)\<rparr>" and ?dl = "clockAt env (w_clock s1) + rc_MaxRunDuration cfg"
  have pr: "page_run (nat (rc_MaxPagesPerRun cfg)) env cfg cancelled job js ?dl (sj_Cursor js) (empty_report OutcomeError) ?s2 = (Inr rep, s')"
    using rest by (auto simp: runPages_def bindE_Inr Now_Inr)
  note mk = MarkJobStarted_Inr [OF mark]
  have s0: "job_row o2 n2 ?s0 = job_row o2 n2 s" for o2 n2 by (simp add: job_row_def)
  obtain a where a: "db_of s1 = (db_of s)\<lparr>t_jobs := a, lk_own := lk_own s\<rparr>" using mk(3) by auto
  have i1: "inv s1" "left o2 c2 s1 = left o2 c2 s" for o2 c2 using same_tables [OF a] inv by simp_all
  then have i2: "inv ?s2" by simp
  have mx: "int (nat (rc_MaxPagesPerRun cfg)) = rc_MaxPagesPerRun cfg" using cfg by (auto simp: validate_def split: if_splits)
  have zero: "ro_PagesRun (empty_report OutcomeError) = 0" by (simp add: empty_report_def)
  from page_run_ends [OF job i2 pr, unfolded zero mx] obtain t c' where
    e: "ends cfg ?org ?name c' (sj_ConsecutiveFailures js) (ro_Outcome rep) t s'" and fr: "sched_of t = sched_of ?s2" and it: "inv t" and
    pages: "0 \<le> ro_PagesRun rep" "ro_PagesRun rep \<le> 0 + rc_MaxPagesPerRun cfg" and
    work: "ro_Outcome rep \<noteq> OutcomeCompleted \<longrightarrow> int (left ?org c' t) + (ro_PagesRun rep - 0) \<le> int (left ?org (sj_Cursor js) ?s2)" and
    stop: "ro_Outcome rep = OutcomePartial \<and> left ?org (sj_Cursor js) ?s2 < nat (rc_MaxPagesPerRun cfg) \<longrightarrow>
       (\<exists>i. ?dl \<le> clockAt env i) \<or> (\<exists>i. cancelled i)" and
    idle: "ro_PagesRun rep = 0 \<longrightarrow> ro_Outcome rep = OutcomePartial \<longrightarrow> c' = sj_Cursor js"
    by (elim exE conjE) (rule that; assumption)
  have jobs: "job_row o2 n2 t = job_row o2 n2 s1" for o2 n2 using fr by (simp add: sched_of_eq job_row_def)
  obtain js' where "db_of s' = (db_of t)\<lparr>t_jobs := js'\<rparr>" using e by (auto simp: ends_def)
  then have d: "db_of s' = (db_of t)\<lparr>t_jobs := js', lk_own := lk_own t\<rparr>" by (rule trans [OF _ db_of_idem_jobs])
  note st = same_tables [OF d]
  obtain row st0 b up where row: "job_row ?org ?name s = Some row"
    "job_row ?org ?name s1 = Some (row\<lparr>sj_LastStatus := st0, sj_LastStartedAt := b, sj_UpdatedAt := up\<rparr>)"
    using mk(1) s0 by auto
  obtain row' where row': "job_row ?org ?name s' = Some row'"
    "marked cfg (ro_Outcome rep) c' (sj_ConsecutiveFailures js) (row\<lparr>sj_LastStatus := st0, sj_LastStartedAt := b, sj_UpdatedAt := up\<rparr>) row'"
    using e row(2) jobs by (auto simp: ends_def)
  have others: "\<forall>o2 n2. (o2, n2) \<noteq> (?org, ?name) \<longrightarrow> job_row o2 n2 s' = job_row o2 n2 s"
    using e mk(2) s0 jobs by (auto simp: ends_def)
  have work': "ro_Outcome rep \<noteq> OutcomeCompleted \<longrightarrow>
       int (left ?org c' s') + ro_PagesRun rep \<le> int (left ?org (sj_Cursor js) s)"
    using work by (simp add: st(2) i1(2))
  have stop': "ro_Outcome rep = OutcomePartial \<and> left ?org (sj_Cursor js) s < nat (rc_MaxPagesPerRun cfg) \<longrightarrow>
       (\<exists>i j. clockAt env j + rc_MaxRunDuration cfg \<le> clockAt env i) \<or> (\<exists>i. cancelled i)"
    using stop by (simp add: i1(2)) blast
  have pages': "ro_PagesRun rep \<le> rc_MaxPagesPerRun cfg" and inv': "inv s'" using pages st(1) it by simp_all
  show ?thesis
    by (rule exI [of _ row], rule exI [of _ row'], rule exI [of _ c'], intro conjI)
      (fact row(1) row'(1) marked_started [OF row'(2)] others inv' pages(1) pages' work' stop' idle)+
qed

end

section \<open>Both jobs meet the contract\<close>

text \<open>Views of the database that a re-derivation, a deletion of explanations and an audit row cannot change.\<close>

definition untouched :: "('z gov_db_scheme \<Rightarrow> 'p) \<Rightarrow> bool" where
  "untouched p \<longleftrightarrow> (\<forall>s. p (db_of s) = p s) \<and> (\<forall>s x. p (s\<lparr>t_ownership := x\<rparr>) = p s) \<and>
     (\<forall>s x. p (s\<lparr>t_explanations := x\<rparr>) = p s) \<and> (\<forall>s x. p (s\<lparr>audit_events := x\<rparr>) = p s)"

lemma untouched_read: "untouched p \<Longrightarrow> leaves db_of m \<Longrightarrow> leaves p m"
  by (auto simp: untouched_def intro: leaves_view)

lemma untouched_Record: "untouched p \<Longrightarrow> leaves p (Record env e)"
  unfolding Record_def
  by (intro frame_intros leaves_db_update untouched_read [OF _ leaves_NewID] untouched_read [OF _ leaves_Now])
    (auto simp: untouched_def)

lemma leaves_loadPrior: "leaves db_of (loadPrior env org cert)"
  unfolding loadPrior_def by (intro frame_intros)

lemma untouched_rederive:
  assumes p: "untouched p" shows "leaves p (rederiveCertificate env org cert ov now)"
proof -
  have w: "leaves p (writeExplanation env org sig d x now)" for sig d x
    unfolding writeExplanation_def CreateOwnershipExplanation_def using p by (intro leaves_exec_hit) (auto simp: untouched_def)
  have u: "leaves p (UpsertCertificateOwnership env co)" for co
    unfolding UpsertCertificateOwnership_def using p by (intro leaves_db_update) (auto simp: untouched_def)
  note rd = untouched_read [OF p]
  show ?thesis
    unfolding rederiveCertificate_def Let_def
    by (intro frame_intros w u rd [OF leaves_NewID] rd [OF leaves_loadPrior] rd [OF leaves_reads(2)] rd [OF leaves_reads(8)])
qed

lemma untouched_otx:
  assumes p: "untouched p" and m: "leaves p m" shows "leaves p (WithTxLockedOwnership env org m)"
proof (rule leavesI)
  fix s r s' assume r: "WithTxLockedOwnership env org m s = (r, s')"
  have "keeps (\<lambda>t. p t = p s) m" using m by (auto simp: keeps_def leaves_def)
  then have "keeps (\<lambda>t. p t = p s) (WithTxLockedOwnership env org m)"
    using p by (intro keeps_transactions(2)) (auto simp: untouched_def)
  from keepsD [OF this _ r] show "p s' = p s" by simp
qed

lemma untouched_sweep:
  assumes p: "untouched p"
    and clr: "\<And>s i f. (\<And>r. ov_key (f r) = ov_key r) \<Longrightarrow> p (s\<lparr>t_overrides := update_where (clearable o' i) f (t_overrides s)\<rparr>) = p s"
    and o': "o' = TrimSpace org"
  shows "leaves p (SweepExpiringOverridesPage env org c n)"
proof -
  note rd = untouched_read [OF p]
  have cl: "leaves p (ClearOwnershipOverride env o' i a b t)" for i a b t
    unfolding ClearOwnershipOverride_def using p clr by (intro leaves_exec_hit) (auto simp: untouched_def ov_key_def)
  have one: "leaves p (sweepOneExpiringOverride env o' ov i t)" for ov i t
    unfolding sweepOneExpiringOverride_def emitExpiredOverrideAudit_def
    by (intro frame_intros cl untouched_rederive [OF p] untouched_Record [OF p])
  have pg: "leaves p (ListExpiringOverridesPaged env o' t k m)" for t k m
    unfolding ListExpiringOverridesPaged_def Let_def by (intro rd frame_intros)
  show ?thesis
    unfolding SweepExpiringOverridesPage_def sweep_page_def Let_def o' [symmetric]
    by (intro frame_intros untouched_otx [OF p] one pg rd [OF leaves_NewID] rd [OF leaves_Now])
qed

lemma untouched_prune:
  assumes p: "untouched p" shows "leaves p (PruneExplanationsPage env svc org a c n)"
proof -
  note rd = untouched_read [OF p]
  have del: "leaves p (DeleteOwnershipExplanationsForCertificate env o' k ids)" for o' k ids
    unfolding DeleteOwnershipExplanationsForCertificate_def using p
    by (intro frame_intros leaves_modE rd [OF leaves_db_query]) (auto simp: untouched_def)
  have one: "leaves p (pruneCertificateExplanations env svc o' k pol t)" for o' k pol t
    unfolding pruneCertificateExplanations_def ListPrunableExplanationIDs_def
    by (intro frame_intros del rd [OF leaves_db_query])
  have pg: "leaves p (prune_page env svc o' x y c n pol t)" for o' x y n pol t
    unfolding prune_page_def emitExplanationPruned_def ListCertificateIDsWithExplanationsPaged_def
    by (intro frame_intros one untouched_Record [OF p] rd [OF leaves_db_query])
  show ?thesis
    unfolding PruneExplanationsPage_def Let_def
    by (intro frame_intros untouched_otx [OF p] pg rd [OF leaves_Now])
qed

lemma untouched_sched: "untouched sched_of"
  by (simp add: untouched_def sched_of_def db_of_def)

lemma untouched_keys: "untouched (\<lambda>s. map ov_key (t_overrides s))"
  by (simp add: untouched_def)

lemma sweep_atomic: "fails_clean db_of (SweepExpiringOverridesPage env org c n)"
  unfolding SweepExpiringOverridesPage_def Let_def
  by (intro fails_clean_bindE otx.run_fails_clean frame_intros)

lemma prune_atomic: "fails_clean db_of (PruneExplanationsPage env svc org a c n)"
  unfolding PruneExplanationsPage_def Let_def
  by (cases "prune_actor a") (simp, intro fails_clean_bindE otx.run_fails_clean frame_intros)

lemma sweep_keeps_wf: "keeps gov_wf (SweepExpiringOverridesPage env org c n)"
proof -
  have "keeps gov_wf (sweep_page env o' c k t i)" for o' k t i
    unfolding sweep_page_def sweepOneExpiringOverride_def emitExpiredOverrideAudit_def ListExpiringOverridesPaged_def Let_def
    by (intro keep_intros)
  then show ?thesis
    unfolding SweepExpiringOverridesPage_def Let_def
    by (intro keep_intros keeps_transactions(2)) simp_all
qed

lemma prune_keeps_wf: "keeps gov_wf (PruneExplanationsPage env svc org a c n)"
proof (rule keeps_atomic [OF prune_atomic])
  show "gov_wf (db_of s) = gov_wf s" for s :: "'a gov_db_scheme" by simp
  fix s :: "'a gov_db_scheme" and res s'
  assume wf: "gov_wf s" and run: "PruneExplanationsPage env svc org a c n s = (Inr res, s')"
  from PruneExplanationsPage_Inr [OF run] obtain s1 s2 where 1: "db_of s1 = db_of s" and 2: "db_of s' = db_of s2" and
    page: "prune_page env svc (TrimSpace org) (fst (prune_actor a)) (snd (prune_actor a)) c
        (clamp_page DefaultExplanationPrunePageSize maxExplanationPrunePageSize n) (sv_retention svc) (clockAt env (w_clock s)) s1 = (Inr res, s2)"
    by blast
  have wf1: "gov_wf s1" using wf 1 gov_wf_db_of by metis
  from prune_page_Inr [OF page wf1] obtain P recs where "db_of s2 = (db_of s1)\<lparr>t_explanations := filter P (t_explanations s1), audit_events := recs\<rparr>"
    by blast
  then have "gov_wf s2"
    using wf1 db_of_fields [of s2 "(db_of s1)\<lparr>t_explanations := filter P (t_explanations s1), audit_events := recs\<rparr>"]
      inputs_of_fields(1) [of s2 s1] by (simp add: gov_wf_def distinct_map_filter)
  then show "gov_wf s'" using 2 gov_wf_db_of by metis
qed

text \<open>The work a page leaves: the rows whose certificate lies beyond the cursor.\<close>

definition beyond :: "string \<Rightarrow> string \<Rightarrow> (string \<times> string) list \<Rightarrow> nat" where
  "beyond org c ks = length (filter (\<lambda>(o2, k). o2 = TrimSpace org \<and> c < k) ks)"

lemma beyond_less: "(TrimSpace org, c') \<in> set ks \<Longrightarrow> c < c' \<Longrightarrow> beyond org c' ks < beyond org c ks"
proof -
  assume m: "(TrimSpace org, c') \<in> set ks" and lt: "c < c'"
  let ?xs = "filter (\<lambda>(o2, k). o2 = TrimSpace org \<and> c < k) ks"
  have "filter (\<lambda>(o2, k). o2 = TrimSpace org \<and> c' < k) ?xs = filter (\<lambda>(o2, k). o2 = TrimSpace org \<and> c' < k) ks"
    using lt by (auto simp: intro!: filter_cong)
  moreover have "length (filter (\<lambda>(o2, k). o2 = TrimSpace org \<and> c' < k) ?xs) < length ?xs"
    using m lt by (intro length_filter_less [of "(TrimSpace org, c')"]) auto
  ultimately show ?thesis by (simp add: beyond_def)
qed

lemma beyond_filter: "beyond org c (map f (filter P xs)) \<le> beyond org c (map f xs)"
  by (induction xs) (auto simp: beyond_def)

abbreviation sweep_left :: "string \<Rightarrow> string \<Rightarrow> 'z gov_db_scheme \<Rightarrow> nat" where
  "sweep_left org c s \<equiv> beyond org c (map ov_key (t_overrides s))"

abbreviation prune_left :: "string \<Rightarrow> string \<Rightarrow> 'z gov_db_scheme \<Rightarrow> nat" where
  "prune_left org c s \<equiv> beyond org c (map (\<lambda>e. (ex_OrganizationID e, ex_CertificateID e)) (t_explanations s))"

lemma sweep_keys: "SweepExpiringOverridesPage env org c n s = (r, s') \<Longrightarrow> map ov_key (t_overrides s') = map ov_key (t_overrides s)"
  by (rule leavesD [OF untouched_sweep [OF untouched_keys _ refl]])
    (auto simp: update_where_def)

lemma sweep_progress:
  assumes wf: "gov_wf s" and run: "SweepExpiringOverridesPage env org c n s = (Inr res, s')" and more: "\<not> sw_Done res"
  shows "sweep_left org (sw_NextCursor res) s' < sweep_left org c s"
proof -
  let ?org = "TrimSpace org" and ?now = "clockAt env (w_clock s)" and ?n = "clamp_page 500 1000 n"
  have n: "0 < ?n" "?n \<le> 1000" by (auto simp: clamp_page_def Let_def)
  from run obtain t i where "WithTxLockedOwnership env ?org (sweep_page env ?org c ?n ?now i) t = (Inr res, s')" and t: "db_of t = db_of s"
    by (auto simp: SweepExpiringOverridesPage_def Let_def run_simps DefaultExpiringOverridesSweepPageSize_def
        maxExpiringOverridesSweepPageSize_def)
  from otx.commits [OF this(1)] obtain s1 s2 where 1: "db_of s1 = db_of s"
    and page: "sweep_page env ?org c ?n ?now i s1 = (Inr res, s2)" using t by auto
  have wf1: "gov_wf s1" using wf 1 gov_wf_db_of by metis
  let ?page = "due_page ?org ?now c (nat ?n) s1"
  have res: "sw_NextCursor res = last (c # map ov_CertificateID ?page)" "sw_Done res = (int (length ?page) < ?n)"
    using sweep_page_Inr [OF page wf1 n] by simp_all
  then have "?page \<noteq> []" using more n by auto
  then have in_page: "last ?page \<in> set ?page" and nxt: "sw_NextCursor res = ov_CertificateID (last ?page)"
    using res(1) by (simp_all add: last_map)
  have "last ?page \<in> set (t_overrides s)" "ov_OrganizationID (last ?page) = ?org" "c < ov_CertificateID (last ?page)"
    using in_page db_of_fields [OF 1] by (auto simp: due_page_def dest!: in_set_takeD)
  then have "(?org, sw_NextCursor res) \<in> set (map ov_key (t_overrides s))" "c < sw_NextCursor res"
    unfolding nxt by (force simp: ov_key_def)+
  from beyond_less [OF this] show ?thesis by (simp only: sweep_keys [OF run])
qed

lemma prune_progress:
  assumes wf: "gov_wf s" and run: "PruneExplanationsPage env svc org a c n s = (Inr res, s')" and more: "\<not> pr_Done res"
  shows "prune_left org (pr_NextCursor res) s' < prune_left org c s"
proof -
  let ?n = "clamp_page DefaultExplanationPrunePageSize maxExplanationPrunePageSize n" and ?org = "TrimSpace org"
  have n: "0 < ?n" by (auto simp: clamp_page_def Let_def DefaultExplanationPrunePageSize_def maxExplanationPrunePageSize_def)
  from PruneExplanationsPage_Inr [OF run] obtain s1 s2 where 1: "db_of s1 = db_of s" and 2: "db_of s' = db_of s2" and
    page: "prune_page env svc ?org (fst (prune_actor a)) (snd (prune_actor a)) c ?n (sv_retention svc) (clockAt env (w_clock s)) s1 = (Inr res, s2)"
    by blast
  have wf1: "gov_wf s1" using wf 1 gov_wf_db_of by metis
  let ?page = "page_certs ?org c (nat ?n) s1"
  from prune_page_Inr [OF page wf1] obtain P recs where
    "db_of s2 = (db_of s1)\<lparr>t_explanations := filter P (t_explanations s1), audit_events := recs\<rparr>" and
    res: "pr_NextCursor res = last (c # ?page)" "pr_Done res = (int (length ?page) < ?n)"
    by fastforce
  then have "t_explanations s2 = filter P (t_explanations s1)"
    using db_of_fields [of s2 "(db_of s1)\<lparr>t_explanations := filter P (t_explanations s1), audit_events := recs\<rparr>"] by simp
  then have ex: "t_explanations s' = filter P (t_explanations s)" using db_of_fields [OF 1] db_of_fields [OF 2] by simp
  have "?page \<noteq> []" using res(2) more n by auto
  then have "pr_NextCursor res \<in> set ?page" using res(1) by simp
  then have "(?org, pr_NextCursor res) \<in> set (map (\<lambda>e. (ex_OrganizationID e, ex_CertificateID e)) (t_explanations s))" "c < pr_NextCursor res"
    using db_of_fields [OF 1] by (force simp: page_certs_def dest!: in_set_takeD)+
  from beyond_less [OF this] show ?thesis unfolding ex by (meson beyond_filter le_less_trans)
qed


lemma fails_clean_ret: "fails_clean p m \<Longrightarrow> fails_clean p (bindE m (\<lambda>x. retE (f x)))"
  by (auto simp: fails_clean_def bindE_def retE_def split: prod.splits sum.splits)

interpretation sweepj: page_job "sweep_RunPage env" gov_wf sweep_left for env
proof unfold_locales
  show "leaves sched_of (sweep_RunPage env org c n)" for org c n
    unfolding sweep_RunPage_def
    by (intro frame_intros untouched_sweep [OF untouched_sched _ refl]) (simp_all add: sched_of_def)
  show "fails_clean db_of (sweep_RunPage env org c n)" for org c n
    unfolding sweep_RunPage_def by (intro fails_clean_ret sweep_atomic)
  show "keeps gov_wf (sweep_RunPage env org c n)" for org c n
    unfolding sweep_RunPage_def by (intro keep_intros sweep_keeps_wf)
  show "sweep_left org (pg_NextCursor r) s' < sweep_left org c s"
    if "gov_wf s" "sweep_RunPage env org c n s = (Inr r, s')" "\<not> pg_Done r" for s org c n r s'
    using that sweep_progress by (auto simp: sweep_RunPage_def run_simps)
qed (simp_all add: gov_wf_def inputs_of_def db_of_def)

interpretation prunej: page_job "prune_RunPage env svc" gov_wf prune_left for env svc
proof unfold_locales
  show "leaves sched_of (prune_RunPage env svc org c n)" for org c n
    unfolding prune_RunPage_def
    by (intro frame_intros untouched_prune [OF untouched_sched])
  show "fails_clean db_of (prune_RunPage env svc org c n)" for org c n
    unfolding prune_RunPage_def by (intro fails_clean_ret prune_atomic)
  show "keeps gov_wf (prune_RunPage env svc org c n)" for org c n
    unfolding prune_RunPage_def by (intro keep_intros prune_keeps_wf)
  show "prune_left org (pg_NextCursor r) s' < prune_left org c s"
    if "gov_wf s" "prune_RunPage env svc org c n s = (Inr r, s')" "\<not> pg_Done r" for s org c n r s'
    using that prune_progress by (auto simp: prune_RunPage_def run_simps)
qed (simp_all add: gov_wf_def inputs_of_def db_of_def)

section \<open>What a run of the registered jobs does\<close>

definition job_left :: "string \<Rightarrow> string \<Rightarrow> string \<Rightarrow> 'z gov_db_scheme \<Rightarrow> nat" where
  "job_left name org c s = (if name = sweep_job_name then sweep_left org c s else prune_left org c s)"

lemma registered_jobs:
  assumes "NewJobRegistry [Some (sweep_job env), Some (prune_job env svc)] = Inr registry"
  shows "Lookup registry name = Inr job \<longleftrightarrow>
    name = sweep_job_name \<and> job = sweep_job env \<or> name = prune_job_name \<and> job = prune_job env svc"
  using Lookup_registered [OF assms, of name job] by (auto simp: sweep_job_def prune_job_def)

lemma registered_locks:
  assumes "NewJobRegistry [Some (sweep_job env), Some (prune_job env svc)] = Inr registry" "Lookup registry name = Inr job"
  shows "leaves locks_of (jb_RunPage job org c n)"
  using assms(2) sweepj.page_locks prunej.page_locks
  by (auto simp: registered_jobs [OF assms(1)] sweep_job_def prune_job_def)

lemma registered_run_ends:
  assumes reg: "NewJobRegistry [Some (sweep_job env), Some (prune_job env svc)] = Inr registry" and look: "Lookup registry (sj_JobName js) = Inr job"
    and wf: "gov_wf s" and cfg: "validate cfg = Inr ()" and run: "started_run env cfg cancelled job js s = (Inr rep, s')"
  shows "\<exists>row row' c'. job_row (sj_OrganizationID js) (sj_JobName js) s = Some row \<and> job_row (sj_OrganizationID js) (sj_JobName js) s' = Some row' \<and>
    marked cfg (ro_Outcome rep) c' (sj_ConsecutiveFailures js) row row' \<and>
    (\<forall>o2 n2. (o2, n2) \<noteq> (sj_OrganizationID js, sj_JobName js) \<longrightarrow> job_row o2 n2 s' = job_row o2 n2 s) \<and>
    gov_wf s' \<and> 0 \<le> ro_PagesRun rep \<and> ro_PagesRun rep \<le> rc_MaxPagesPerRun cfg \<and>
    (ro_Outcome rep \<noteq> OutcomeCompleted \<longrightarrow>
       int (job_left (sj_JobName js) (sj_OrganizationID js) c' s') + ro_PagesRun rep \<le> int (job_left (sj_JobName js) (sj_OrganizationID js) (sj_Cursor js) s)) \<and>
    (ro_Outcome rep = OutcomePartial \<and> job_left (sj_JobName js) (sj_OrganizationID js) (sj_Cursor js) s < nat (rc_MaxPagesPerRun cfg) \<longrightarrow>
       (\<exists>i j. clockAt env j + rc_MaxRunDuration cfg \<le> clockAt env i) \<or> (\<exists>i. cancelled i)) \<and>
    (ro_PagesRun rep = 0 \<longrightarrow> ro_Outcome rep = OutcomePartial \<longrightarrow> c' = sj_Cursor js)"
  using look unfolding registered_jobs [OF reg]
proof (elim disjE conjE)
  assume n: "sj_JobName js = sweep_job_name" and j: "job = sweep_job env"
  have "jb_RunPage job = sweep_RunPage env" by (simp add: j sweep_job_def)
  from sweepj.started_run_ends [OF this wf cfg run] show ?thesis unfolding job_left_def using n by simp
next
  assume n: "sj_JobName js = prune_job_name" and j: "job = prune_job env svc"
  then have ne: "sj_JobName js \<noteq> sweep_job_name" by (simp add: prune_job_name_def sweep_job_name_def)
  have "jb_RunPage job = prune_RunPage env svc" by (simp add: j prune_job_def)
  from prunej.started_run_ends [OF this wf cfg run] show ?thesis unfolding job_left_def using ne by simp
qed

lemma gov_wf_lk [simp]: "gov_wf (s\<lparr>lk_own := x\<rparr>) = gov_wf s"
  by (simp add: gov_wf_def inputs_of_def)

lemma relocked:
  assumes "db_of t = (db_of s)\<lparr>lk_own := x\<rparr>"
  shows "job_row o2 n2 t = job_row o2 n2 s" "gov_wf t = gov_wf s" "job_left n2 o2 c t = job_left n2 o2 c s"
proof -
  have f: "t_jobs t = t_jobs s" "t_overrides t = t_overrides s" "t_explanations t = t_explanations s"
    using arg_cong [OF assms, of t_jobs] arg_cong [OF assms, of t_overrides] arg_cong [OF assms, of t_explanations]
    by (simp_all add: db_of_def)
  show "job_row o2 n2 t = job_row o2 n2 s" "job_left n2 o2 c t = job_left n2 o2 c s"
    using f by (simp_all add: job_row_def job_left_def)
  have "gov_wf (db_of t) = gov_wf (db_of s)" unfolding assms by (rule gov_wf_lk)
  then show "gov_wf t = gov_wf s" unfolding gov_wf_db_of .
qed

text \<open>
  C27: A run owns the lock of its job and gives it back. Whatever the result, an error included, the
  session and the others hold the same keys afterwards as before. A run whose key is held elsewhere
  changes nothing and reports the skip, unless an error came first; and a skip is reported for no
  other reason.
\<close>

theorem RunDueJob_lock:
  assumes reg: "NewJobRegistry [Some (sweep_job env), Some (prune_job env svc)] = Inr registry"
    and cfg: "validate cfg = Inr ()" and wf: "gov_wf s" and run: "RunDueJob env cfg registry cancelled js s = (r, s')"
  shows "lk_own s' = lk_own s \<and> lk_other s' = lk_other s \<and>
    (let held = schedulerLockKey (sj_OrganizationID js) (sj_JobName js) \<in> set (lk_other s) \<union> set (lk_own s) in
      (held \<longrightarrow> db_of s' = db_of s \<and> (\<forall>rep. r = Inr rep \<longrightarrow> rep = empty_report OutcomeSkippedLocked)) \<and>
      (\<forall>rep. r = Inr rep \<longrightarrow> ro_Outcome rep = OutcomeSkippedLocked \<longrightarrow> held))"
proof (cases "Lookup registry (sj_JobName js)")
  case (Inl e)
  with run have "r = Inl e" "s' = s" by (auto simp: RunDueJob_def bindE_def liftE_def split: sum.splits)
  then show ?thesis by simp
next
  case (Inr job)
  have ends: "ro_Outcome rep \<noteq> OutcomeSkippedLocked"
    if s1: "db_of s1 = (db_of s)\<lparr>lk_own := k # lk_own s\<rparr>" and go: "started_run env cfg cancelled job js s1 = (Inr rep, s2)" for s1 s2 rep k
  proof -
    have "gov_wf s1" using relocked(2) [OF s1] wf by simp
    from registered_run_ends [OF reg Inr this cfg go] obtain row row' c' where
      "marked cfg (ro_Outcome rep) c' (sj_ConsecutiveFailures js) row row'" by blast
    then show ?thesis by (auto simp: marked_def)
  qed
  from RunDueJob_cases [OF run Inr registered_locks [OF reg Inr]] ends show ?thesis
    unfolding Let_def empty_report_def by (elim conjE disjE exE) auto
qed

text \<open>
  C25: How a run of a registered job ends, when it returns a report and was not skipped. The job's row
  is re-armed by its outcome: completed resets the cursor and is due after the interval, partial keeps
  the cursor it reached and is due after the requeue delay, and both clear the failures; an error
  keeps the stored cursor, counts one more failure and backs off. No other job's row changes, the
  tables stay well formed, at most the configured number of pages ran, and each page of a run that did
  not complete consumed work: the rows beyond the cursor shrank by at least one a page. A run with a
  page budget above the work left stops early only at its deadline or when cancelled, and a partial
  run without a page keeps the cursor it was given.
\<close>

theorem RunDueJob_outcome:
  assumes reg: "NewJobRegistry [Some (sweep_job env), Some (prune_job env svc)] = Inr registry"
    and cfg: "validate cfg = Inr ()" and wf: "gov_wf s" and run: "RunDueJob env cfg registry cancelled js s = (Inr rep, s')"
    and ran: "ro_Outcome rep \<noteq> OutcomeSkippedLocked"
  shows "\<exists>row row' c'. job_row (sj_OrganizationID js) (sj_JobName js) s = Some row \<and> job_row (sj_OrganizationID js) (sj_JobName js) s' = Some row' \<and>
    marked cfg (ro_Outcome rep) c' (sj_ConsecutiveFailures js) row row' \<and>
    (\<forall>o2 n2. (o2, n2) \<noteq> (sj_OrganizationID js, sj_JobName js) \<longrightarrow> job_row o2 n2 s' = job_row o2 n2 s) \<and>
    gov_wf s' \<and> 0 \<le> ro_PagesRun rep \<and> ro_PagesRun rep \<le> rc_MaxPagesPerRun cfg \<and>
    (ro_Outcome rep \<noteq> OutcomeCompleted \<longrightarrow>
       int (job_left (sj_JobName js) (sj_OrganizationID js) c' s') + ro_PagesRun rep \<le> int (job_left (sj_JobName js) (sj_OrganizationID js) (sj_Cursor js) s)) \<and>
    (ro_Outcome rep = OutcomePartial \<and> job_left (sj_JobName js) (sj_OrganizationID js) (sj_Cursor js) s < nat (rc_MaxPagesPerRun cfg) \<longrightarrow>
       (\<exists>i j. clockAt env j + rc_MaxRunDuration cfg \<le> clockAt env i) \<or> (\<exists>i. cancelled i)) \<and>
    (ro_PagesRun rep = 0 \<longrightarrow> ro_Outcome rep = OutcomePartial \<longrightarrow> c' = sj_Cursor js)"
proof (cases "Lookup registry (sj_JobName js)")
  case (Inl e)
  with run show ?thesis by (auto simp: RunDueJob_def bindE_def liftE_def split: sum.splits)
next
  case (Inr job)
  from RunDueJob_cases [OF run Inr registered_locks [OF reg Inr]] ran obtain s1 s2 where
    s1: "db_of s1 = (db_of s)\<lparr>lk_own := schedulerLockKey (sj_OrganizationID js) (sj_JobName js) # lk_own s\<rparr>" and
    go: "started_run env cfg cancelled job js s1 = (Inr rep, s2)" and s': "db_of s' = (db_of s2)\<lparr>lk_own := lk_own s\<rparr>"
    by (auto simp: empty_report_def)
  note r1 = relocked [OF s1] and r2 = relocked [OF s']
  have "gov_wf s1" using r1 wf by simp
  from registered_run_ends [OF reg Inr this cfg go] show ?thesis unfolding r1 r2 .
qed

section \<open>A run with time and budget completes\<close>

lemma never_fails_bindE: "never_fails m \<Longrightarrow> (\<And>x. never_fails (k x)) \<Longrightarrow> never_fails (bindE m k)"
  unfolding never_fails_def by (auto simp: bindE_Inl)

lemma never_fails_foldE: "(\<And>x b. never_fails (f x b)) \<Longrightarrow> never_fails (foldE f xs b)"
  by (induction xs arbitrary: b) (simp_all add: never_fails_retE never_fails_bindE)

lemma never_fails_db_query: "no_faults env \<Longrightarrow> never_fails (db_query env f)"
  by (simp add: never_fails_def db_query_ok)

lemma never_fails_modE: "never_fails (modE f)"
  by (simp add: never_fails_def modE_def)

lemmas never_fails_intros = never_fails_bindE never_fails_foldE never_fails_retE never_fails_db_query never_fails_modE

lemma never_failsD: "never_fails m \<Longrightarrow> \<exists>x s'. m s = (Inr x, s')"
  unfolding never_fails_def by (metis prod.exhaust sum.exhaust)

lemma never_fails_Now: "never_fails (Now env)"
  by (simp add: never_fails_def Now_Inl)

lemma never_fails_guardE: "P \<Longrightarrow> never_fails (guardE P e)"
  by (simp add: never_fails_def guardE_def retE_def)

lemma never_fails_dbcall: "no_faults env \<Longrightarrow> never_fails (dbcall env)"
  by (simp add: never_fails_def dbcall_ok)

lemma never_fails_WithTx:
  assumes nf: "no_faults env" and m: "never_fails m" shows "never_fails (WithTx env m)"
  unfolding never_fails_def
proof (intro allI notI)
  fix s e s' assume r: "WithTx env m s = (Inl e, s')"
  obtain x s2 where "m ((stepped s)\<lparr>w_tx := Suc (w_tx s)\<rparr>) = (Inr x, s2)" using never_failsD [OF m] by blast
  from WithTx_ok [where fn = m, OF nf this] r show False by simp
qed

lemma never_fails_otx: "no_faults env \<Longrightarrow> never_fails m \<Longrightarrow> never_fails (WithTxLockedOwnership env org m)"
  unfolding WithTxLockedOwnership_def by (intro never_fails_WithTx never_fails_bindE never_fails_dbcall)

lemma never_fails_Record:
  assumes "no_faults env" "ev_OrganizationID e \<noteq> []" "ev_Actor e \<noteq> []" "ev_ActorType e \<noteq> []"
    "ev_Action e \<noteq> []" "ev_TargetType e \<noteq> []" "ev_TargetID e \<noteq> []"
  shows "never_fails (Record env e)"
  unfolding never_fails_def
proof (intro allI notI)
  fix s x s' assume "Record env e s = (Inl x, s')"
  with Record_ok [OF assms, of s] show False by simp
qed

lemma never_fails_prune:
  assumes nf: "no_faults env" and org: "TrimSpace org \<noteq> []"
    and pol: "1 \<le> rp_KeepN (sv_retention svc)" "0 < rp_MaxAge (sv_retention svc)"
  shows "never_fails (prune_RunPage env svc org c n)"
proof -
  have del: "never_fails (pruneCertificateExplanations env svc o' k pol' t)" for o' k pol' t
    unfolding pruneCertificateExplanations_def ListPrunableExplanationIDs_def DeleteOwnershipExplanationsForCertificate_def
    using nf by (auto intro!: never_fails_intros)
  have rec: "never_fails (Record env (pruned_event (TrimSpace org) ''system'' ''system'' t res pol'))" for t res pol'
    by (rule never_fails_Record [OF nf]) (simp_all add: pruned_event_def org)
  have actor: "prune_actor [] = (''system'', ''system'')" by (simp add: prune_actor_def TrimSpace_def)
  have page: "never_fails (prune_page env svc (TrimSpace org) ''system'' ''system'' c k pol' t)" for k pol' t
    unfolding prune_page_def ListCertificateIDsWithExplanationsPaged_def emitExplanationPruned_def
    using rec by (auto intro!: never_fails_intros del nf)
  have "never_fails (PruneExplanationsPage env svc org [] c n)"
    unfolding PruneExplanationsPage_def Let_def actor prod.case
    by (intro never_fails_bindE never_fails_guardE never_fails_Now never_fails_otx nf page) (use pol org in auto)
  then show ?thesis unfolding prune_RunPage_def by (intro never_fails_intros)
qed

text \<open>How often a program reads the clock.\<close>

definition ticks :: "nat \<Rightarrow> ('z world_scheme, 'a) prog \<Rightarrow> bool" where
  "ticks n m \<longleftrightarrow> (\<forall>s r s'. m s = (r, s') \<longrightarrow> w_clock s' \<le> w_clock s + n)"

lemma ticksD: "ticks n m \<Longrightarrow> m s = (r, s') \<Longrightarrow> w_clock s' \<le> w_clock s + n"
  by (simp add: ticks_def)

lemma ticks_bindE: "ticks a m \<Longrightarrow> (\<And>x. ticks b (k x)) \<Longrightarrow> ticks (a + b) (bindE m k)"
  by (fastforce simp: ticks_def bindE_def split: prod.splits sum.splits)

lemma ticks_bindE0: "ticks 0 m \<Longrightarrow> (\<And>x. ticks n (k x)) \<Longrightarrow> ticks n (bindE m k)"
  using ticks_bindE [of 0 m n k] by simp

lemma ticks_basic:
  "ticks n (retE x)" "ticks n (guardE P e)" "ticks n (dbcall env)" "ticks n (db_query env f)" "ticks n (NewID env)" "ticks (Suc n) (Now env)"
  by (simp_all add: ticks_def retE_def guardE_def throwE_def dbcall_def db_query_def bindE_def getE_def NewID_def Now_def split: if_splits)

lemma ticks_foldE: "(\<And>x b. ticks 0 (f x b)) \<Longrightarrow> ticks 0 (foldE f xs b)"
  by (induction xs arbitrary: b) (simp_all add: ticks_basic ticks_bindE0)

lemma ticks_modE: "(\<And>s. w_clock (f s) = w_clock s) \<Longrightarrow> ticks n (modE f)"
  by (auto simp: ticks_def modE_def)

lemma ticks_if: "ticks n a \<Longrightarrow> ticks n b \<Longrightarrow> ticks n (if P then a else b)"
  by simp

lemma ticks_then: "ticks n m \<Longrightarrow> ticks n (bindE m (\<lambda>x. retE (f x)))"
  using ticks_bindE [where k = "\<lambda>x. retE (f x)" and b = 0] ticks_basic(1) by fastforce

lemma ticks_WithTx: "ticks n m \<Longrightarrow> ticks n (WithTx env m)"
  unfolding WithTx_def beginTx_def
  by (fastforce simp: ticks_def bindE_def rollback_def modE_def dbcall_def retE_def split: prod.splits sum.splits if_splits)

lemma ticks_otx: "ticks n m \<Longrightarrow> ticks n (WithTxLockedOwnership env org m)"
  unfolding WithTxLockedOwnership_def by (intro ticks_WithTx ticks_bindE0 ticks_basic)

lemma ticks_Record: "ticks 1 (Record env e)"
  unfolding Record_def db_update_def One_nat_def
  by (rule ticks_bindE0, simp add: ticks_basic, rule ticks_bindE [of 1 _ 0, simplified], simp add: ticks_basic,
      intro ticks_bindE0 ticks_basic ticks_modE) simp

lemma ticks_prune: "ticks 2 (prune_RunPage env svc org c n)"
proof -
  have del: "ticks 0 (pruneCertificateExplanations env svc o' k pol' t)" for o' k pol' t
    unfolding pruneCertificateExplanations_def ListPrunableExplanationIDs_def DeleteOwnershipExplanationsForCertificate_def
    by (intro ticks_bindE0 ticks_if ticks_basic ticks_modE) simp
  have page: "ticks 1 (prune_page env svc o' a kd c k pol' t)" for o' a kd k pol' t
    unfolding prune_page_def ListCertificateIDsWithExplanationsPaged_def emitExplanationPruned_def
    by (rule ticks_bindE0, rule ticks_basic, rule ticks_bindE0, intro ticks_foldE ticks_bindE0 del ticks_basic)
      (intro ticks_if ticks_then ticks_Record ticks_basic)
  have "ticks (1 + 1) (PruneExplanationsPage env svc org a c n)" for a
    unfolding PruneExplanationsPage_def Let_def
    by (cases "prune_actor a", simp only: prod.case, intro ticks_bindE0 ticks_basic ticks_bindE ticks_otx page)
      (simp add: ticks_basic)
  then show ?thesis unfolding prune_RunPage_def by (intro ticks_then) (simp only: one_add_one)
qed

lemma execMark_ok:
  "no_faults env \<Longrightarrow> job_row org name s \<noteq> None \<Longrightarrow> \<exists>s'. execMark env org name f s = (Inr (), s')"
  by (auto simp: execMark_def exec_hit_ok job_row_def sched_fields)

context page_job
begin

text \<open>The loop with time and budget: it drains its work and ends by the completing mark.\<close>

lemma page_run_completes:
  assumes job: "jb_RunPage job = RunPage" and nf: "no_faults env"
    and ok: "\<And>c n. never_fails (RunPage (sj_OrganizationID js) c n)"
    and reads: "\<And>c n. ticks 2 (RunPage (sj_OrganizationID js) c n)"
    and clock: "\<forall>i < w_clock s + 3 * k. clockAt env i < deadline" and live: "\<And>i. \<not> cancelled i"
    and inv: "inv s" and row: "job_row (sj_OrganizationID js) (sj_JobName js) s \<noteq> None"
    and budget: "left (sj_OrganizationID js) c s < k"
  shows "\<exists>rep s'. page_run k env cfg cancelled job js deadline c report s = (Inr rep, s') \<and> ro_Outcome rep = OutcomeCompleted"
  using inv row budget clock
proof (induction k arbitrary: c report s)
  case 0
  then show ?case by simp
next
  case (Suc k)
  let ?org = "sj_OrganizationID js" and ?s1 = "s\<lparr>w_clock := Suc (w_clock s)\<rparr>"
  obtain r s2 where page: "RunPage ?org c (rc_PageSize cfg) ?s1 = (Inr r, s2)" using never_failsD [OF ok] by blast
  have inv2: "inv s2" using keepsD [OF sound _ page] Suc.prems(1) by simp
  have fr: "sched_of s2 = sched_of s" using leavesD [OF frame page] by simp
  then have row2: "job_row ?org (sj_JobName js) s2 \<noteq> None" using Suc.prems(2) by (simp add: sched_of_eq job_row_def)
  have now: "clockAt env (w_clock s) < deadline" using Suc.prems(4) by simp
  have later: "\<forall>i < w_clock s2 + 3 * k. clockAt env i < deadline"
    using Suc.prems(4) ticksD [OF reads page] by simp
  let ?rep' = "report\<lparr>ro_PagesRun := ro_PagesRun report + 1, ro_ItemsScanned := ro_ItemsScanned report + pg_ItemsScanned r,
                 ro_ItemsChanged := ro_ItemsChanged report + pg_ItemsChanged r\<rparr>"
  have step: "page_run (Suc k) env cfg cancelled job js deadline c report s =
      (if pg_Done r then finishCompleted env cfg ?org (sj_JobName js) ?rep'
       else page_run k env cfg cancelled job js deadline (pg_NextCursor r) ?rep') s2"
    using now live page by (simp add: bindE_def Now_def tryE_def job Let_def)
  show ?case
  proof (cases "pg_Done r")
    case True
    have "job_row ?org (sj_JobName js) (s2\<lparr>w_clock := Suc (w_clock s2)\<rparr>) \<noteq> None" using row2 by (simp add: job_row_def)
    from execMark_ok [OF nf this] show ?thesis unfolding step
      using True by (auto simp: finishCompleted_def MarkJobCompleted_def bindE_def Now_def retE_def split: prod.splits sum.splits)
        (metis Inl_Inr_False prod.inject)
  next
    case False
    have "left ?org (pg_NextCursor r) s2 < k"
      using progress [OF _ page False] Suc.prems(1,3) by simp
    from Suc.IH [OF inv2 row2 this later] False show ?thesis unfolding step by simp
  qed
qed

end

text \<open>
  C26: A due prune job with time and budget drains its organization. Without database faults, with
  a valid retention policy, a free lock, a page budget above the rows beyond the stored cursor, no
  deadline passing and no cancellation, the run returns, reports completion, and leaves the row
  completed, with the cursor back at the start, no failures and due after the interval.
\<close>

theorem prune_run_completes:
  assumes reg: "NewJobRegistry [Some (sweep_job env), Some (prune_job env svc)] = Inr registry"
    and cfg: "validate cfg = Inr ()" and wf: "gov_wf s" and nf: "no_faults env"
    and pol: "1 \<le> rp_KeepN (sv_retention svc)" "0 < rp_MaxAge (sv_retention svc)"
    and name: "sj_JobName js = prune_job_name" and org: "TrimSpace (sj_OrganizationID js) \<noteq> []"
    and row: "job_row (sj_OrganizationID js) (sj_JobName js) s \<noteq> None"
    and free: "schedulerLockKey (sj_OrganizationID js) (sj_JobName js) \<notin> set (lk_other s) \<union> set (lk_own s)"
    and budget: "int (prune_left (sj_OrganizationID js) (sj_Cursor js) s) < rc_MaxPagesPerRun cfg"
    and clock: "\<forall>i < w_clock s + 2 + 3 * nat (rc_MaxPagesPerRun cfg). clockAt env i < clockAt env (Suc (w_clock s)) + rc_MaxRunDuration cfg" and live: "\<forall>i. \<not> cancelled i"
  shows "\<exists>rep s' row' fin. RunDueJob env cfg registry cancelled js s = (Inr rep, s') \<and> ro_Outcome rep = OutcomeCompleted \<and>
    job_row (sj_OrganizationID js) (sj_JobName js) s' = Some row' \<and> sj_LastStatus row' = SchedulerJobCompleted \<and>
    sj_Cursor row' = SchedulerCursorStart \<and> sj_ConsecutiveFailures row' = 0 \<and> sj_LastFinishedAt row' = Some fin \<and>
    sj_NextDueAt row' = fin + rc_JobInterval cfg"
proof -
  let ?org = "sj_OrganizationID js" and ?name = "sj_JobName js" and ?job = "prune_job env svc"
  let ?t = "(stepped (stepped s))\<lparr>lk_own := schedulerLockKey ?org ?name # lk_own s\<rparr>"
  have look: "Lookup registry ?name = Inr ?job" using registered_jobs [OF reg] name by blast
  have job: "jb_RunPage ?job = prune_RunPage env svc" by (simp add: prune_job_def)
  have "?org \<noteq> []" using org by (auto simp: TrimSpace_def)
  then have lock: "TryLockOrgJob env ?org ?name s = (Inr True, ?t)"
    using nf free name by (simp add: TryLockOrgJob_run no_faults_def prune_job_name_def)
  have row0: "job_row ?org ?name (?t\<lparr>w_clock := c\<rparr>) \<noteq> None" for c using row by (simp add: job_row_def sched_fields)
  obtain s1 where mark: "MarkJobStarted env ?org ?name (clockAt env (w_clock ?t)) (?t\<lparr>w_clock := Suc (w_clock ?t)\<rparr>) = (Inr (), s1)"
    using execMark_ok [OF nf row0] unfolding MarkJobStarted_def by blast
  note mk = MarkJobStarted_Inr [OF mark]
  obtain js1 where "db_of s1 = (db_of ?t)\<lparr>t_jobs := js1, lk_own := lk_own ?t\<rparr>" using mk(3) by auto
  then have d1: "db_of s1 = (db_of s)\<lparr>t_jobs := js1, lk_own := lk_own ?t\<rparr>" by (simp add: db_of_def stepped_def)
  let ?s2 = "s1\<lparr>w_clock := Suc (w_clock s1)\<rparr>"
  note same = prunej.same_tables [OF d1]
  have wf2: "gov_wf ?s2" using same(1) wf by simp
  have row2: "job_row ?org ?name ?s2 \<noteq> None" using mk(1) by (auto simp: job_row_def)
  have b: "prune_left ?org (sj_Cursor js) ?s2 < nat (rc_MaxPagesPerRun cfg)" using budget same(2) [of ?org "sj_Cursor js"] by simp
  obtain js2 where "s1 = (stepped (?t\<lparr>w_clock := Suc (w_clock ?t)\<rparr>))\<lparr>t_jobs := js2\<rparr>"
    using mark by (auto simp: MarkJobStarted_def execMark_def exec_hit_Inr)
  then have w1: "w_clock s1 = Suc (w_clock s)" by (simp add: stepped_def)
  have c: "\<forall>i < w_clock ?s2 + 3 * nat (rc_MaxPagesPerRun cfg). clockAt env i < clockAt env (w_clock s1) + rc_MaxRunDuration cfg"
    using clock by (simp add: w1)
  from prunej.page_run_completes [where cfg = cfg and cancelled = cancelled and report = "empty_report OutcomeError",
      OF job nf never_fails_prune [OF nf org pol] ticks_prune c _ wf2 row2 b] live
  obtain rep s3 where "page_run (nat (rc_MaxPagesPerRun cfg)) env cfg cancelled ?job js (clockAt env (w_clock s1) + rc_MaxRunDuration cfg)
      (sj_Cursor js) (empty_report OutcomeError) ?s2 = (Inr rep, s3)" and done': "ro_Outcome rep = OutcomeCompleted" by blast
  then have "started_run env cfg cancelled ?job js ?t = (Inr rep, s3)"
    using mark by (simp add: started_run_def runPages_def bindE_def Now_def)
  then have started: "releasing env ?org ?name (started_run env cfg cancelled ?job js) ?t = (Inr rep, snd (Release env ?org ?name s3))"
    by (simp add: releasing_def)
  let ?s' = "snd (Release env ?org ?name s3)"
  have run: "RunDueJob env cfg registry cancelled js s = (Inr rep, ?s')"
    unfolding RunDueJob_def look liftE_ok using lock started by (simp add: bindE_def started_run_def)
  have ne: "ro_Outcome rep \<noteq> OutcomeSkippedLocked" using done' by simp
  obtain job' s4 s5 where s4: "db_of s4 = (db_of s)\<lparr>lk_own := schedulerLockKey ?org ?name # lk_own s\<rparr>" and
    go: "started_run env cfg cancelled ?job js s4 = (Inr rep, s5)" and s': "db_of ?s' = (db_of s5)\<lparr>lk_own := lk_own s\<rparr>"
    using RunDueJob_cases [OF run look registered_locks [OF reg look]] ne by (auto simp: empty_report_def)
  have "gov_wf s4" using relocked(2) [OF s4] wf by simp
  from registered_run_ends [OF reg look this cfg go] obtain rw row' c' where
    "job_row ?org ?name s5 = Some row'" "marked cfg (ro_Outcome rep) c' (sj_ConsecutiveFailures js) rw row'" by blast
  then have "job_row ?org ?name ?s' = Some row'" and m: "marked cfg OutcomeCompleted c' (sj_ConsecutiveFailures js) rw row'"
    using relocked(1) [OF s'] done' by simp_all
  from m obtain fin where "sj_LastFinishedAt row' = Some fin" "sj_LastStatus row' = SchedulerJobCompleted" "sj_Cursor row' = SchedulerCursorStart"
    "sj_ConsecutiveFailures row' = 0" "sj_NextDueAt row' = fin + rc_JobInterval cfg"
    by (auto simp: marked_def)
  with run done' \<open>job_row ?org ?name ?s' = Some row'\<close> show ?thesis by blast
qed

section \<open>Witnesses\<close>

definition demo_job :: SchedulerJob where
  "demo_job = \<lparr>sj_OrganizationID = ''o'', sj_JobName = prune_job_name, sj_Enabled = True, sj_Cursor = [], sj_NextDueAt = 0,
     sj_LastStartedAt = None, sj_LastFinishedAt = None, sj_LastStatus = SchedulerJobPending, sj_LastError = None,
     sj_ConsecutiveFailures = 2, sj_UpdatedAt = 0\<rparr>"

definition demo_sched :: "64 word list \<Rightarrow> sched_db" where
  "demo_sched held = gov_db.extend demo_history (sched_db.fields [demo_job] held [])"

lemma demo_sched_wf: "gov_wf (demo_sched held)"
  using demo_history_wf(1) by (simp add: demo_sched_def gov_wf_def inputs_of_def gov_db.defs sched_db.defs)

lemma demo_registry: "\<exists>registry. NewJobRegistry [Some (sweep_job env), Some (prune_job env svc)] = Inr registry"
  by (simp add: NewJobRegistry_def sweep_job_def prune_job_def sweep_job_name_def prune_job_name_def)

lemma demo_runner_ok: "validate demo_runner = Inr ()"
  by (simp add: validate_def demo_runner_def)

lemma demo_budget: "int (prune_left ''o'' [] (demo_sched [])) < rc_MaxPagesPerRun demo_runner"
  by (simp add: demo_sched_def demo_runner_def beyond_def gov_db.defs sched_db.defs demo_history_def demo_expl_def TrimSpace_def)

theorem RunDueJob_lock_witness:
  "\<exists>registry r s'. NewJobRegistry [Some (sweep_job demo_tick), Some (prune_job demo_tick demo_svc)] = Inr registry \<and>
     RunDueJob demo_tick demo_runner registry (\<lambda>_. False) demo_job (demo_sched [schedulerLockKey ''o'' prune_job_name]) = (r, s') \<and>
     db_of s' = db_of (demo_sched [schedulerLockKey ''o'' prune_job_name])"
proof -
  obtain registry :: "sched_db JobRegistry" where reg: "NewJobRegistry [Some (sweep_job demo_tick), Some (prune_job demo_tick demo_svc)] = Inr registry"
    using demo_registry by blast
  obtain r s' where run: "RunDueJob demo_tick demo_runner registry (\<lambda>_. False) demo_job (demo_sched [schedulerLockKey ''o'' prune_job_name]) = (r, s')"
    by fastforce
  have "schedulerLockKey ''o'' prune_job_name \<in> set (lk_other (demo_sched [schedulerLockKey ''o'' prune_job_name]))"
    by (simp add: demo_sched_def gov_db.defs sched_db.defs)
  with RunDueJob_lock [OF reg demo_runner_ok demo_sched_wf run] reg run show ?thesis
    by (auto simp: Let_def demo_job_def)
qed

lemma demo_job_run_eval: "case NewJobRegistry [Some (sweep_job demo_tick), Some (prune_job demo_tick demo_svc)] of
   Inr registry \<Rightarrow> (case RunDueJob demo_tick demo_runner registry (\<lambda>_. False) demo_job (demo_sched []) of
      (Inr rep, s') \<Rightarrow> ro_Outcome rep = OutcomeCompleted \<and> ro_PagesRun rep = 2 | _ \<Rightarrow> False) | _ \<Rightarrow> False"
  by code_simp

theorem RunDueJob_outcome_witness:
  "\<exists>registry rep s' row'. NewJobRegistry [Some (sweep_job demo_tick), Some (prune_job demo_tick demo_svc)] = Inr registry \<and>
     RunDueJob demo_tick demo_runner registry (\<lambda>_. False) demo_job (demo_sched []) = (Inr rep, s') \<and>
     job_row ''o'' prune_job_name s' = Some row' \<and> sj_ConsecutiveFailures row' = 0 \<and> gov_wf s'"
proof -
  obtain registry rep s' where reg: "NewJobRegistry [Some (sweep_job demo_tick), Some (prune_job demo_tick demo_svc)] = Inr registry"
    and run: "RunDueJob demo_tick demo_runner registry (\<lambda>_. False) demo_job (demo_sched []) = (Inr rep, s')"
    and out: "ro_Outcome rep = OutcomeCompleted"
    using demo_job_run_eval by (auto split: sum.splits prod.splits)
  then have "ro_Outcome rep \<noteq> OutcomeSkippedLocked" by simp
  from RunDueJob_outcome [OF reg demo_runner_ok demo_sched_wf run this] obtain row row' c' where
    "job_row (sj_OrganizationID demo_job) (sj_JobName demo_job) s' = Some row'"
    "marked demo_runner (ro_Outcome rep) c' (sj_ConsecutiveFailures demo_job) row row'" "gov_wf s'" by blast
  then show ?thesis using reg run out
    by (intro exI [of _ registry] exI [of _ rep] exI [of _ s'] exI [of _ row']) (auto simp: marked_def demo_job_def)
qed

theorem prune_run_completes_witness:
  "\<exists>registry rep s'. NewJobRegistry [Some (sweep_job demo_tick), Some (prune_job demo_tick demo_svc)] = Inr registry \<and>
     RunDueJob demo_tick demo_runner registry (\<lambda>_. False) demo_job (demo_sched []) = (Inr rep, s') \<and> ro_Outcome rep = OutcomeCompleted"
proof -
  obtain registry :: "sched_db JobRegistry" where reg: "NewJobRegistry [Some (sweep_job demo_tick), Some (prune_job demo_tick demo_svc)] = Inr registry"
    using demo_registry by blast
  have h: "no_faults demo_tick" "1 \<le> rp_KeepN (sv_retention demo_svc)" "0 < rp_MaxAge (sv_retention demo_svc)"
    "sj_JobName demo_job = prune_job_name" "TrimSpace (sj_OrganizationID demo_job) \<noteq> []"
    "job_row (sj_OrganizationID demo_job) (sj_JobName demo_job) (demo_sched []) \<noteq> None"
    "schedulerLockKey (sj_OrganizationID demo_job) (sj_JobName demo_job) \<notin> set (lk_other (demo_sched [])) \<union> set (lk_own (demo_sched []))"
    by (simp_all add: demo_tick_def demo_env_def no_faults_def demo_svc_def demo_job_def TrimSpace_def isSpace_def demo_sched_def
        job_row_def is_job_def gov_db.defs sched_db.defs)
  have b: "int (prune_left (sj_OrganizationID demo_job) (sj_Cursor demo_job) (demo_sched [])) < rc_MaxPagesPerRun demo_runner"
    using demo_budget by (simp add: demo_job_def)
  have c: "\<forall>i < w_clock (demo_sched []) + 2 + 3 * nat (rc_MaxPagesPerRun demo_runner).
      clockAt demo_tick i < clockAt demo_tick (Suc (w_clock (demo_sched []))) + rc_MaxRunDuration demo_runner"
    by (simp add: demo_tick_def demo_env_def demo_runner_def demo_sched_def gov_db.defs sched_db.defs demo_history_def demo_due_def)
  from prune_run_completes [OF reg demo_runner_ok demo_sched_wf h b c, of "\<lambda>_. False"] reg show ?thesis by blast
qed

end
