(* ===== verification/FindingRules.thy ===== *)
theory FindingRules imports Env begin

text \<open>
  The finding rules (\<open>findings/rules.go\<close>, \<open>rules_certificate.go\<close>): six pure predicates over a
  certificate summary and the recompute's time, each with the evidence it stores. The theorems give
  each rule's condition as arithmetic on the instants, with its boundaries.

  A time is written into the evidence as \<open>encoding/json\<close> writes it, in RFC 3339; a year beyond 9999,
  for which the marshaller fails and the rule panics, is outside the model.
\<close>

section \<open>Types\<close>

datatype Severity = SeverityInfo | SeverityLow | SeverityMedium | SeverityHigh | SeverityCritical

record CertificateSummary =
  cs_ID :: string
  cs_FingerprintSHA256 :: string
  cs_Subject :: string
  cs_Issuer :: string
  cs_SerialNumberHex :: string
  cs_SignatureAlg :: string
  cs_PublicKeyAlg :: string
  cs_PublicKeyBits :: int
  cs_NotBefore :: Time
  cs_NotAfter :: Time
  cs_IsSelfSigned :: bool
  cs_IsCA :: bool
  cs_FirstSeenAt :: Time
  cs_LastSeenAt :: Time
  cs_ObservationCount :: int
  cs_ActiveObservationCount :: int

record RuleMatch =
  rm_Evidence :: json

record Rule =
  fr_ID :: string
  fr_Version :: int
  fr_Severity :: Severity
  fr_Title :: string
  fr_Evaluate :: "CertificateSummary \<Rightarrow> Time \<Rightarrow> RuleMatch option"

definition JTime :: "Time \<Rightarrow> json" where
  "JTime t = JStr (FormatRFC3339Nano t)"

section \<open>The rules\<close>

definition expiringSoonWindow :: Duration where "expiringSoonWindow = 30 * 24 * hour"
definition weakRSAThresholdBits :: int where "weakRSAThresholdBits = 2048"
definition longLivedThreshold :: Duration where "longLivedThreshold = 398 * 24 * hour"

definition evaluateExpired :: "CertificateSummary \<Rightarrow> Time \<Rightarrow> RuleMatch option" where
  "evaluateExpired cert now =
     (if \<not> now > cs_NotAfter cert then None
      else Some \<lparr>rm_Evidence = JObj [(''not_after'', JTime (cs_NotAfter cert)),
        (''expired_for'', JStr (DurationString (DurationTruncate (TimeSub now (cs_NotAfter cert)) second)))]\<rparr>)"

definition evaluateExpiringSoon :: "CertificateSummary \<Rightarrow> Time \<Rightarrow> RuleMatch option" where
  "evaluateExpiringSoon cert now =
     (if \<not> cs_NotAfter cert > now then None
      else if TimeSub (cs_NotAfter cert) now > expiringSoonWindow then None
      else Some \<lparr>rm_Evidence = JObj [(''not_after'', JTime (cs_NotAfter cert)),
        (''expires_in'', JStr (DurationString (DurationTruncate (TimeSub (cs_NotAfter cert) now) second))),
        (''window_days'', JNum (DurationDiv expiringSoonWindow (24 * hour)))]\<rparr>)"

definition evaluateWeakSignature :: "CertificateSummary \<Rightarrow> Time \<Rightarrow> RuleMatch option" where
  "evaluateWeakSignature cert now =
     (let upper = ToUpper (cs_SignatureAlg cert);
          evidence = (\<lambda>weak. \<lparr>rm_Evidence = JObj [(''signature_algorithm'', JStr (cs_SignatureAlg cert)), (''weak_hash'', JStr weak)]\<rparr>) in
      if Contains upper ''MD5'' then Some (evidence ''MD5'')
      else if Contains upper ''SHA1'' then Some (evidence ''SHA1'')
      else None)"

definition evaluateWeakRSA :: "CertificateSummary \<Rightarrow> Time \<Rightarrow> RuleMatch option" where
  "evaluateWeakRSA cert now =
     (if \<not> EqualFold (cs_PublicKeyAlg cert) ''RSA'' then None
      else if cs_PublicKeyBits cert \<ge> weakRSAThresholdBits then None
      else Some \<lparr>rm_Evidence = JObj [(''public_key_algorithm'', JStr (cs_PublicKeyAlg cert)),
        (''public_key_bits'', JNum (cs_PublicKeyBits cert)), (''threshold_bits'', JNum weakRSAThresholdBits)]\<rparr>)"

definition evaluateSelfSignedLeaf :: "CertificateSummary \<Rightarrow> Time \<Rightarrow> RuleMatch option" where
  "evaluateSelfSignedLeaf cert now =
     (if \<not> cs_IsSelfSigned cert then None
      else if cs_IsCA cert then None
      else Some \<lparr>rm_Evidence = JObj [(''subject'', JStr (cs_Subject cert))]\<rparr>)"

definition evaluateLongLived :: "CertificateSummary \<Rightarrow> Time \<Rightarrow> RuleMatch option" where
  "evaluateLongLived cert now =
     (if cs_IsCA cert then None
      else let validity = TimeSub (cs_NotAfter cert) (cs_NotBefore cert) in
      if validity \<le> longLivedThreshold then None
      else Some \<lparr>rm_Evidence = JObj [(''not_before'', JTime (cs_NotBefore cert)), (''not_after'', JTime (cs_NotAfter cert)),
        (''validity_days'', JNum (DurationDiv validity (24 * hour))),
        (''threshold_days'', JNum (DurationDiv longLivedThreshold (24 * hour)))]\<rparr>)"

definition ruleCertificateExpired :: Rule where
  "ruleCertificateExpired = \<lparr>fr_ID = ''certificate_expired'', fr_Version = 1, fr_Severity = SeverityHigh,
     fr_Title = ''Certificate has expired'', fr_Evaluate = evaluateExpired\<rparr>"

definition ruleCertificateExpiringSoon :: Rule where
  "ruleCertificateExpiringSoon = \<lparr>fr_ID = ''certificate_expiring_soon'', fr_Version = 1, fr_Severity = SeverityMedium,
     fr_Title = ''Certificate is expiring soon'', fr_Evaluate = evaluateExpiringSoon\<rparr>"

definition ruleWeakSignatureAlgorithm :: Rule where
  "ruleWeakSignatureAlgorithm = \<lparr>fr_ID = ''weak_signature_algorithm'', fr_Version = 1, fr_Severity = SeverityHigh,
     fr_Title = ''Certificate uses a weak signature algorithm'', fr_Evaluate = evaluateWeakSignature\<rparr>"

definition ruleWeakRSAKey :: Rule where
  "ruleWeakRSAKey = \<lparr>fr_ID = ''weak_rsa_key'', fr_Version = 1, fr_Severity = SeverityHigh,
     fr_Title = ''RSA key below 2048 bits'', fr_Evaluate = evaluateWeakRSA\<rparr>"

definition ruleSelfSignedLeaf :: Rule where
  "ruleSelfSignedLeaf = \<lparr>fr_ID = ''self_signed_leaf'', fr_Version = 1, fr_Severity = SeverityMedium,
     fr_Title = ''Self-signed leaf certificate'', fr_Evaluate = evaluateSelfSignedLeaf\<rparr>"

definition ruleLongLivedCertificate :: Rule where
  "ruleLongLivedCertificate = \<lparr>fr_ID = ''long_lived_certificate'', fr_Version = 1, fr_Severity = SeverityLow,
     fr_Title = ''Long-lived leaf certificate'', fr_Evaluate = evaluateLongLived\<rparr>"

definition DefaultRules :: "Rule list" where
  "DefaultRules = [ruleCertificateExpired, ruleCertificateExpiringSoon, ruleWeakSignatureAlgorithm, ruleWeakRSAKey,
     ruleSelfSignedLeaf, ruleLongLivedCertificate]"

lemma DefaultRules_ids: "distinct (map fr_ID DefaultRules)"
  by (simp add: DefaultRules_def ruleCertificateExpired_def ruleCertificateExpiringSoon_def ruleWeakSignatureAlgorithm_def
      ruleWeakRSAKey_def ruleSelfSignedLeaf_def ruleLongLivedCertificate_def)

text \<open>
  C33: What the time rules decide, on every certificate and at every instant. A certificate is
  reported expired exactly when its end lies strictly in the past, expiring soon exactly when its end
  lies in the next thirty days, the last instant included, and so never both; at the very instant of
  its end neither rule fires. A leaf is long-lived exactly when it is valid for more than 398 days.
\<close>

theorem time_rules_exact:
  "(fr_Evaluate ruleCertificateExpired cert now \<noteq> None \<longleftrightarrow> cs_NotAfter cert < now) \<and>
   (fr_Evaluate ruleCertificateExpiringSoon cert now \<noteq> None \<longleftrightarrow> now < cs_NotAfter cert \<and> cs_NotAfter cert \<le> now + 30 * 86400 * 10 ^ 9) \<and>
   (fr_Evaluate ruleLongLivedCertificate cert now \<noteq> None \<longleftrightarrow> \<not> cs_IsCA cert \<and> cs_NotAfter cert > cs_NotBefore cert + 398 * 86400 * 10 ^ 9)"
proof -
  have w: "minDuration \<le> expiringSoonWindow" "expiringSoonWindow < maxDuration" "expiringSoonWindow = 30 * 86400 * 10 ^ 9"
    "minDuration \<le> longLivedThreshold" "longLivedThreshold < maxDuration" "longLivedThreshold = 398 * 86400 * 10 ^ 9"
    by (simp_all add: expiringSoonWindow_def longLivedThreshold_def hour_def second_def minDuration_def maxDuration_def)
  show ?thesis
    using TimeSub_le_iff [OF w(1,2), of "cs_NotAfter cert" now] TimeSub_le_iff [OF w(4,5), of "cs_NotAfter cert" "cs_NotBefore cert"] w(3,6)
    by (auto simp: ruleCertificateExpired_def ruleCertificateExpiringSoon_def ruleLongLivedCertificate_def evaluateExpired_def
        evaluateExpiringSoon_def evaluateLongLived_def Let_def not_less)
qed

end
