(* ===== verification/FindingStore.thy ===== *)
theory FindingStore imports FindingRules GovTypes Tables begin

text \<open>
  The findings table (migrations 0001, 0006, 0007) and its repository
  (\<open>storage/postgres/findings_repository.go\<close>), with the two certificate readers of the same file.

  \<open>find_db\<close> is the database as the findings service sees it: the findings, the certificates with the
  columns its rules read, the observations that are counted per certificate, and the organizations. A row of
  \<open>t_findings\<close> is a \<open>Finding\<close> whose two joined fields are empty; the readers of the operator surface
  fill them from the certificate. A violated unique constraint is the database error the driver
  returns; a violated foreign key is one of the failures of the environment.
\<close>

section \<open>Types and tables\<close>

text \<open>A status is a string; the constants are constructors, any other value is \<open>StatusOther\<close>.\<close>

datatype Status = StatusOpen | StatusResolved | StatusAcknowledged | StatusSuppressed | StatusOther string

record Finding =
  fd_ID :: string
  fd_OrganizationID :: string
  fd_CertificateID :: string
  fd_RuleID :: string
  fd_RuleVersion :: int
  fd_Severity :: Severity
  fd_Status :: Status
  fd_Title :: string
  fd_Evidence :: json
  fd_FirstSeenAt :: Time
  fd_LastSeenAt :: Time
  fd_ResolvedAt :: "Time option"
  fd_UpdatedAt :: Time
  fd_FingerprintSHA256 :: string
  fd_Subject :: string
  fd_StatusReason :: string
  fd_StatusActor :: string
  fd_StatusChangedAt :: "Time option"
  fd_SuppressExpiresAt :: "Time option"

record CertificateRecord =
  cr_OrganizationID :: string
  cr_Summary :: CertificateSummary

record find_db = world +
  t_findings :: "Finding list"
  t_certs :: "CertificateRecord list"
  t_cert_observations :: "ObservationRow list"
  t_organization_ids :: "string list"

section \<open>The repository\<close>

text \<open>What the row stores of a finding, and what an update overwrites.\<close>

definition stored :: "Finding \<Rightarrow> Finding" where
  "stored f = f\<lparr>fd_FingerprintSHA256 := [], fd_Subject := []\<rparr>"

definition set_columns :: "Finding \<Rightarrow> Finding \<Rightarrow> Finding" where
  "set_columns f row = row\<lparr>fd_RuleVersion := fd_RuleVersion f, fd_Severity := fd_Severity f, fd_Status := fd_Status f,
     fd_Title := fd_Title f, fd_Evidence := fd_Evidence f, fd_LastSeenAt := fd_LastSeenAt f, fd_ResolvedAt := fd_ResolvedAt f,
     fd_UpdatedAt := fd_UpdatedAt f, fd_StatusReason := fd_StatusReason f, fd_StatusActor := fd_StatusActor f,
     fd_StatusChangedAt := fd_StatusChangedAt f, fd_SuppressExpiresAt := fd_SuppressExpiresAt f\<rparr>"

definition is_finding :: "string \<Rightarrow> string \<Rightarrow> Finding \<Rightarrow> bool" where
  "is_finding org i f \<longleftrightarrow> fd_ID f = i \<and> fd_OrganizationID f = org"

definition finding_key :: "Finding \<Rightarrow> string \<times> string \<times> string" where
  "finding_key f = (fd_OrganizationID f, fd_CertificateID f, fd_RuleID f)"

definition InsertFinding :: "env \<Rightarrow> Finding \<Rightarrow> ('z find_db_scheme, unit) prog" where
  "InsertFinding env f =
     exec_hit env EDb (\<lambda>s. \<forall>r \<in> set (t_findings s). fd_ID r \<noteq> fd_ID f \<and> finding_key r \<noteq> finding_key f)
       (\<lambda>s. s\<lparr>t_findings := t_findings s @ [stored f]\<rparr>)"

definition UpdateFinding :: "env \<Rightarrow> Finding \<Rightarrow> ('z find_db_scheme, unit) prog" where
  "UpdateFinding env f =
     exec_hit env ErrFindingNotFound (\<lambda>s. \<exists>r \<in> set (t_findings s). is_finding (fd_OrganizationID f) (fd_ID f) r)
       (\<lambda>s. s\<lparr>t_findings := update_where (is_finding (fd_OrganizationID f) (fd_ID f)) (set_columns f) (t_findings s)\<rparr>)"

text \<open>The left join with the certificate.\<close>

definition with_cert :: "'z find_db_scheme \<Rightarrow> Finding \<Rightarrow> Finding" where
  "with_cert s f =
     (case find (\<lambda>c. cr_OrganizationID c = fd_OrganizationID f \<and> cs_ID (cr_Summary c) = fd_CertificateID f) (t_certs s) of
        None \<Rightarrow> f
      | Some c \<Rightarrow> f\<lparr>fd_FingerprintSHA256 := cs_FingerprintSHA256 (cr_Summary c), fd_Subject := cs_Subject (cr_Summary c)\<rparr>)"

definition repo_GetFinding :: "env \<Rightarrow> string \<Rightarrow> string \<Rightarrow> ('z find_db_scheme, Finding) prog" where
  "repo_GetFinding env org i =
     bindE (db_query env (\<lambda>s. map_option (with_cert s) (find (is_finding org i) (t_findings s)))) (\<lambda>r.
     case r of None \<Rightarrow> throwE ErrFindingNotFound | Some f \<Rightarrow> retE f)"

definition org_findings :: "string \<Rightarrow> 'z find_db_scheme \<Rightarrow> Finding list" where
  "org_findings org s = sort_key fd_ID (filter (\<lambda>f. fd_OrganizationID f = org) (t_findings s))"

definition ListAllFindingsForOrgPaged :: "env \<Rightarrow> string \<Rightarrow> string \<Rightarrow> int \<Rightarrow> ('z find_db_scheme, Finding list) prog" where
  "ListAllFindingsForOrgPaged env org cursor page_size =
     bindE (guardE (\<not> page_size \<le> 0) ErrBadLimit) (\<lambda>_.
     db_query env (\<lambda>s. take (nat page_size) (sort_key fd_ID
       (filter (\<lambda>f. fd_OrganizationID f = org \<and> cursor < fd_ID f) (t_findings s)))))"

definition ListAllForOrg :: "env \<Rightarrow> string \<Rightarrow> ('z find_db_scheme, Finding list) prog" where
  "ListAllForOrg env org = db_query env (org_findings org)"

text \<open>
  The operator's list: the filters that are set, the rows beyond the cursor in the order
  \<open>last_seen_at DESC, id ASC\<close>, at most \<open>LIMIT\<close> of them. Filters are strings, the empty one unset.
\<close>

fun status_string :: "Status \<Rightarrow> string" where
  "status_string StatusOpen = ''open''"
| "status_string StatusResolved = ''resolved''"
| "status_string StatusAcknowledged = ''acknowledged''"
| "status_string StatusSuppressed = ''suppressed''"
| "status_string (StatusOther x) = x"

fun severity_string :: "Severity \<Rightarrow> string" where
  "severity_string SeverityInfo = ''info''"
| "severity_string SeverityLow = ''low''"
| "severity_string SeverityMedium = ''medium''"
| "severity_string SeverityHigh = ''high''"
| "severity_string SeverityCritical = ''critical''"

record ListQuery =
  lq_OrganizationID :: string
  lq_Status :: string
  lq_Severity :: string
  lq_RuleID :: string
  lq_CertificateID :: string
  lq_Limit :: int
  lq_Cursor :: string
  lq_CursorLastSeenAt :: Time
  lq_CursorID :: string

definition list_key :: "Finding \<Rightarrow> int \<times> string" where
  "list_key f = (- fd_LastSeenAt f, fd_ID f)"

definition list_filter :: "ListQuery \<Rightarrow> Finding \<Rightarrow> bool" where
  "list_filter q f \<longleftrightarrow> fd_OrganizationID f = lq_OrganizationID q \<and>
     (lq_Status q \<in> {''open'', ''resolved'', ''acknowledged'', ''suppressed''} \<longrightarrow> status_string (fd_Status f) = lq_Status q) \<and>
     (lq_Severity q \<noteq> [] \<longrightarrow> severity_string (fd_Severity f) = lq_Severity q) \<and>
     (lq_RuleID q \<noteq> [] \<longrightarrow> fd_RuleID f = lq_RuleID q) \<and>
     (lq_CertificateID q \<noteq> [] \<longrightarrow> fd_CertificateID f = lq_CertificateID q)"

definition beyond_cursor :: "ListQuery \<Rightarrow> Finding \<Rightarrow> bool" where
  "beyond_cursor q f \<longleftrightarrow> (lq_CursorLastSeenAt q \<noteq> zeroTime \<longrightarrow>
     fd_LastSeenAt f < lq_CursorLastSeenAt q \<or> fd_LastSeenAt f = lq_CursorLastSeenAt q \<and> lq_CursorID q < fd_ID f)"

definition repo_ListFindings :: "env \<Rightarrow> ListQuery \<Rightarrow> ('z find_db_scheme, Finding list) prog" where
  "repo_ListFindings env q =
     db_query env (\<lambda>s. map (with_cert s) (take (nat (lq_Limit q)) (sort_key list_key
       (filter (\<lambda>f. list_filter q f \<and> beyond_cursor q f) (t_findings s)))))"

definition ListOrganizationIDs :: "env \<Rightarrow> ('z find_db_scheme, string list) prog" where
  "ListOrganizationIDs env = db_query env (\<lambda>s. sort (t_organization_ids s))"

section \<open>Certificates\<close>

definition bare_summary :: "CertificateRecord \<Rightarrow> CertificateSummary" where
  "bare_summary c = (cr_Summary c)\<lparr>cs_ObservationCount := 0, cs_ActiveObservationCount := 0\<rparr>"

definition counted_summary :: "'z find_db_scheme \<Rightarrow> CertificateRecord \<Rightarrow> CertificateSummary" where
  "counted_summary s c =
     (let obs = filter (\<lambda>o'. ob_OrganizationID o' = cr_OrganizationID c \<and> ob_CertificateID o' = cs_ID (cr_Summary c)) (t_cert_observations s) in
      (cr_Summary c)\<lparr>cs_ObservationCount := int (length obs),
         cs_ActiveObservationCount := int (length (filter (\<lambda>o'. ob_RemovedAt o' = None) obs))\<rparr>)"

definition ListAllCertificateSummariesForOrg :: "env \<Rightarrow> string \<Rightarrow> ('z find_db_scheme, CertificateSummary list) prog" where
  "ListAllCertificateSummariesForOrg env org =
     db_query env (\<lambda>s. map (counted_summary s) (sort_key (\<lambda>c. cs_ID (cr_Summary c)) (filter (\<lambda>c. cr_OrganizationID c = org) (t_certs s))))"

definition ListCertificateBareSummariesForOrgPaged ::
  "env \<Rightarrow> string \<Rightarrow> string \<Rightarrow> int \<Rightarrow> ('z find_db_scheme, CertificateSummary list) prog" where
  "ListCertificateBareSummariesForOrgPaged env org cursor page_size =
     bindE (guardE (\<not> page_size \<le> 0) ErrBadLimit) (\<lambda>_.
     db_query env (\<lambda>s. map bare_summary (take (nat page_size) (sort_key (\<lambda>c. cs_ID (cr_Summary c))
       (filter (\<lambda>c. cr_OrganizationID c = org \<and> cursor < cs_ID (cr_Summary c)) (t_certs s))))))"

section \<open>Well-formed tables\<close>

text \<open>
  The unique constraints, and what a row holds: the joined fields are not columns, a resolution time
  is present exactly on resolved rows, the operator's metadata only on overridden rows, and an expiry
  only on suppressed ones.
\<close>

definition finding_ok :: "Finding \<Rightarrow> bool" where
  "finding_ok f \<longleftrightarrow> (fd_ResolvedAt f \<noteq> None \<longleftrightarrow> fd_Status f = StatusResolved) \<and>
     (fd_Status f \<notin> {StatusAcknowledged, StatusSuppressed} \<longrightarrow>
        fd_StatusReason f = [] \<and> fd_StatusActor f = [] \<and> fd_StatusChangedAt f = None) \<and>
     (fd_SuppressExpiresAt f \<noteq> None \<longrightarrow> fd_Status f = StatusSuppressed) \<and>
     (\<forall>x. fd_Status f \<noteq> StatusOther x)"

definition find_wf :: "'z find_db_scheme \<Rightarrow> bool" where
  "find_wf s \<longleftrightarrow> distinct (map fd_ID (t_findings s)) \<and> distinct (map finding_key (t_findings s)) \<and>
     distinct (map (\<lambda>c. cs_ID (cr_Summary c)) (t_certs s)) \<and> (\<forall>f \<in> set (t_findings s). stored f = f)"

definition find_ok :: "'z find_db_scheme \<Rightarrow> bool" where
  "find_ok s \<longleftrightarrow> find_wf s \<and> (\<forall>f \<in> set (t_findings s). finding_ok f)"

end
