(* ===== verification/FindingDiff.thy ===== *)
theory FindingDiff imports FindingStore "HOL-Library.AList" begin

text \<open>
  The recompute's state machine (\<open>findings/service_diff.go\<close>) and the two diff algorithms of
  \<open>findings/service.go\<close>: the streaming one that production runs and the load-all one kept beside it.

  A Go map is an association list with distinct keys. The order in which a loop visits a map is not
  specified by the language: it is the parameter \<open>ord\<close>, any reordering of the keys. The integer types
  \<open>diffOp\<close> and \<open>counterBucket\<close> have one constructor per constant, so the unknown operation of
  \<open>applyDecision\<close> cannot be written down.
\<close>

section \<open>One decision\<close>

datatype diffOp = diffOpNoChange | diffOpInsert | diffOpUpdate

datatype counterBucket = counterOpened | counterUpdated | counterResolved | counterUnchanged

type_synonym matchKey = "string \<times> string"

record matchEntry =
  me_rule :: Rule
  me_match :: RuleMatch

type_synonym matchMap = "(matchKey \<times> matchEntry) list"

text \<open>The rule-derived columns, which every matching transition refreshes.\<close>

definition refreshed :: "Rule \<Rightarrow> RuleMatch \<Rightarrow> Time \<Rightarrow> Finding \<Rightarrow> Finding" where
  "refreshed rule rm now f = f\<lparr>fd_LastSeenAt := now, fd_UpdatedAt := now, fd_Severity := fr_Severity rule, fd_Title := fr_Title rule,
     fd_RuleVersion := fr_Version rule, fd_Evidence := rm_Evidence rm\<rparr>"

definition cleared_override :: "Finding \<Rightarrow> Finding" where
  "cleared_override f = f\<lparr>fd_StatusReason := [], fd_StatusActor := [], fd_StatusChangedAt := None, fd_SuppressExpiresAt := None\<rparr>"

definition new_finding :: "string \<Rightarrow> string \<Rightarrow> string \<Rightarrow> Rule \<Rightarrow> RuleMatch \<Rightarrow> Time \<Rightarrow> Finding" where
  "new_finding i org certID rule rm now =
     \<lparr>fd_ID = i, fd_OrganizationID = org, fd_CertificateID = certID, fd_RuleID = fr_ID rule, fd_RuleVersion = fr_Version rule,
      fd_Severity = fr_Severity rule, fd_Status = StatusOpen, fd_Title = fr_Title rule, fd_Evidence = rm_Evidence rm,
      fd_FirstSeenAt = now, fd_LastSeenAt = now, fd_ResolvedAt = None, fd_UpdatedAt = now, fd_FingerprintSHA256 = [], fd_Subject = [],
      fd_StatusReason = [], fd_StatusActor = [], fd_StatusChangedAt = None, fd_SuppressExpiresAt = None\<rparr>"

definition suppression_expired :: "Time \<Rightarrow> Finding \<Rightarrow> bool" where
  "suppression_expired now f \<longleftrightarrow> (case fd_SuppressExpiresAt f of None \<Rightarrow> False | Some t \<Rightarrow> \<not> now < t)"

fun match_next :: "Rule \<Rightarrow> RuleMatch \<Rightarrow> Time \<Rightarrow> Finding \<Rightarrow> Status \<Rightarrow> err + (Finding \<times> diffOp \<times> counterBucket)" where
  "match_next rule rm now prior StatusOpen = Inr (refreshed rule rm now prior, diffOpUpdate, counterUpdated)"
| "match_next rule rm now prior StatusResolved =
     Inr (refreshed rule rm now (prior\<lparr>fd_Status := StatusOpen, fd_ResolvedAt := None\<rparr>), diffOpUpdate, counterOpened)"
| "match_next rule rm now prior StatusAcknowledged = Inr (refreshed rule rm now prior, diffOpUpdate, counterUpdated)"
| "match_next rule rm now prior StatusSuppressed =
     (if suppression_expired now prior then
        Inr (cleared_override (refreshed rule rm now (prior\<lparr>fd_Status := StatusOpen, fd_ResolvedAt := None\<rparr>)), diffOpUpdate, counterOpened)
      else Inr (refreshed rule rm now prior, diffOpUpdate, counterUpdated))"
| "match_next rule rm now prior (StatusOther x) = Inl ErrUnsupportedFindingStatus"

definition decideMatchTransition ::
  "env \<Rightarrow> Finding option \<Rightarrow> string \<Rightarrow> string \<Rightarrow> Rule \<Rightarrow> RuleMatch \<Rightarrow> Time \<Rightarrow>
     ('z world_scheme, Finding option \<times> diffOp \<times> counterBucket) prog" where
  "decideMatchTransition env prior organizationID certID rule rm now =
     (case prior of
        None \<Rightarrow> bindE (NewID env) (\<lambda>i. retE (Some (new_finding i organizationID certID rule rm now), diffOpInsert, counterOpened))
      | Some p \<Rightarrow> bindE (liftE (match_next rule rm now p (fd_Status p))) (\<lambda>(next, op, bucket). retE (Some next, op, bucket)))"

fun nomatch_next :: "Time \<Rightarrow> Finding \<Rightarrow> Status \<Rightarrow> err + (Finding option \<times> diffOp \<times> counterBucket)" where
  "nomatch_next now prior StatusOpen =
     Inr (Some (prior\<lparr>fd_Status := StatusResolved, fd_ResolvedAt := Some now, fd_UpdatedAt := now\<rparr>), diffOpUpdate, counterResolved)"
| "nomatch_next now prior StatusAcknowledged =
     Inr (Some (cleared_override (prior\<lparr>fd_Status := StatusResolved, fd_ResolvedAt := Some now, fd_UpdatedAt := now\<rparr>)), diffOpUpdate, counterResolved)"
| "nomatch_next now prior StatusSuppressed =
     Inr (Some (cleared_override (prior\<lparr>fd_Status := StatusResolved, fd_ResolvedAt := Some now, fd_UpdatedAt := now\<rparr>)), diffOpUpdate, counterResolved)"
| "nomatch_next now prior StatusResolved = Inr (None, diffOpNoChange, counterUnchanged)"
| "nomatch_next now prior (StatusOther x) = Inl ErrUnsupportedFindingStatus"

definition decideNoMatchTransition :: "Finding option \<Rightarrow> Time \<Rightarrow> err + (Finding option \<times> diffOp \<times> counterBucket)" where
  "decideNoMatchTransition prior now =
     (case prior of None \<Rightarrow> Inr (None, diffOpNoChange, counterUnchanged) | Some p \<Rightarrow> nomatch_next now p (fd_Status p))"

text \<open>The repository rejects a nil finding.\<close>

definition applyDecision :: "env \<Rightarrow> Finding option \<Rightarrow> diffOp \<Rightarrow> ('z find_db_scheme, unit) prog" where
  "applyDecision env next op =
     (case op of
        diffOpNoChange \<Rightarrow> retE ()
      | diffOpInsert \<Rightarrow> (case next of None \<Rightarrow> throwE ErrRequired | Some f \<Rightarrow> InsertFinding env f)
      | diffOpUpdate \<Rightarrow> (case next of None \<Rightarrow> throwE ErrRequired | Some f \<Rightarrow> UpdateFinding env f))"

section \<open>Evaluating the rules\<close>

fun evaluateRulesForCert :: "Rule list \<Rightarrow> CertificateSummary \<Rightarrow> Time \<Rightarrow> matchMap \<Rightarrow> matchMap" where
  "evaluateRulesForCert [] cert now matches = matches"
| "evaluateRulesForCert (rule # rules) cert now matches =
     evaluateRulesForCert rules cert now
       (case fr_Evaluate rule cert now of
          None \<Rightarrow> matches
        | Some m \<Rightarrow> AList.update (cs_ID cert, fr_ID rule) \<lparr>me_rule = rule, me_match = m\<rparr> matches)"

definition evaluatePage :: "Rule list \<Rightarrow> Time \<Rightarrow> CertificateSummary list \<Rightarrow> matchMap \<Rightarrow> matchMap" where
  "evaluatePage rules now page matches = fold (\<lambda>cert m. evaluateRulesForCert rules cert now m) page matches"

section \<open>The two algorithms\<close>

type_synonym counters = "counterBucket \<Rightarrow> int"

definition no_counts :: counters where "no_counts = (\<lambda>_. 0)"

definition bump :: "counterBucket \<Rightarrow> counters \<Rightarrow> counters" where
  "bump b c = c(b := c b + 1)"

record diffSummary =
  ds_evaluatedCertificates :: int
  ds_loadedCertificates :: int
  ds_loadedFindings :: int
  ds_counters :: counters

record FindingService =
  fs_rules :: "Rule list"
  fs_streamingPageOverride :: int

definition recomputeStreamingPageSize :: int where "recomputeStreamingPageSize = 500"

definition effectiveStreamingPageSize :: "FindingService \<Rightarrow> int" where
  "effectiveStreamingPageSize svc =
     (if fs_streamingPageOverride svc > 0 then fs_streamingPageOverride svc else recomputeStreamingPageSize)"

text \<open>The body both algorithms share: decide, write, count.\<close>

definition match_step ::
  "env \<Rightarrow> string \<Rightarrow> Time \<Rightarrow> matchKey \<Rightarrow> matchEntry \<Rightarrow> Finding option \<Rightarrow> counters \<Rightarrow> ('z find_db_scheme, counters) prog" where
  "match_step env org now key m prior counters =
     bindE (decideMatchTransition env prior org (fst key) (me_rule m) (me_match m) now) (\<lambda>(next, op, bucket).
     bindE (applyDecision env next op) (\<lambda>_. retE (bump bucket counters)))"

definition nomatch_step :: "env \<Rightarrow> Time \<Rightarrow> Finding \<Rightarrow> counters \<Rightarrow> ('z find_db_scheme, counters) prog" where
  "nomatch_step env now f counters =
     bindE (liftE (decideNoMatchTransition (Some f) now)) (\<lambda>(next, op, bucket).
     bindE (applyDecision env next op) (\<lambda>_. retE (bump bucket counters)))"

definition row_key :: "Finding \<Rightarrow> matchKey" where
  "row_key f = (fd_CertificateID f, fd_RuleID f)"

text \<open>Phase 2 of the streaming diff handles one existing row and drops the match it used.\<close>

definition existing_step ::
  "env \<Rightarrow> string \<Rightarrow> Time \<Rightarrow> Finding \<Rightarrow> matchMap \<times> counters \<Rightarrow> ('z find_db_scheme, matchMap \<times> counters) prog" where
  "existing_step env org now prior acc =
     (case acc of (matches, counters) \<Rightarrow>
      case map_of matches (row_key prior) of
        Some m \<Rightarrow> bindE (match_step env org now (row_key prior) m (Some prior) counters) (\<lambda>c. retE (AList.delete (row_key prior) matches, c))
      | None \<Rightarrow> bindE (nomatch_step env now prior counters) (\<lambda>c. retE (matches, c)))"

definition insert_step ::
  "env \<Rightarrow> string \<Rightarrow> Time \<Rightarrow> matchMap \<Rightarrow> matchKey \<Rightarrow> counters \<Rightarrow> ('z find_db_scheme, counters) prog" where
  "insert_step env org now matches key counters =
     (case map_of matches key of None \<Rightarrow> retE counters | Some m \<Rightarrow> match_step env org now key m None counters)"

definition runDiffStreaming ::
  "env \<Rightarrow> (matchKey list \<Rightarrow> matchKey list) \<Rightarrow> FindingService \<Rightarrow> string \<Rightarrow> Time \<Rightarrow> ('z find_db_scheme, diffSummary) prog" where
  "runDiffStreaming env ord svc org now =
     (let pageSize = effectiveStreamingPageSize svc in
      bindE (getE (\<lambda>s. (Suc (length (t_certs s)), Suc (length (t_findings s))))) (\<lambda>(certFuel, findingFuel).
      bindE (page_loop certFuel (\<lambda>cursor. ListCertificateBareSummariesForOrgPaged env org cursor pageSize) cs_ID (nat pageSize)
          (\<lambda>page (matches, total). retE (evaluatePage (fs_rules svc) now page matches, total + int (length page)))
          [] ([], 0)) (\<lambda>(matches, totalCerts).
      bindE (page_loop findingFuel (\<lambda>cursor. ListAllFindingsForOrgPaged env org cursor pageSize) fd_ID (nat pageSize)
          (\<lambda>page (acc, total). bindE (foldE (existing_step env org now) page acc) (\<lambda>acc'. retE (acc', total + int (length page))))
          [] ((matches, no_counts), 0)) (\<lambda>((remaining, counters), totalFindings).
      bindE (foldE (insert_step env org now remaining) (ord (map fst remaining)) counters) (\<lambda>counters'.
      retE \<lparr>ds_evaluatedCertificates = totalCerts, ds_loadedCertificates = totalCerts, ds_loadedFindings = totalFindings,
            ds_counters = counters'\<rparr>)))))"

definition runDiffLoadAll ::
  "env \<Rightarrow> (matchKey list \<Rightarrow> matchKey list) \<Rightarrow> FindingService \<Rightarrow> string \<Rightarrow> Time \<Rightarrow> ('z find_db_scheme, diffSummary) prog" where
  "runDiffLoadAll env ord svc org now =
     bindE (ListAllCertificateSummariesForOrg env org) (\<lambda>certs.
     let matches = evaluatePage (fs_rules svc) now certs [] in
     bindE (ListAllForOrg env org) (\<lambda>existing.
     let existingByKey = fold (\<lambda>f m. AList.update (row_key f) f m) existing [] in
     bindE (foldE (\<lambda>k counters. case map_of matches k of
              None \<Rightarrow> retE counters
            | Some m \<Rightarrow> match_step env org now k m (map_of existingByKey k) counters)
          (ord (map fst matches)) no_counts) (\<lambda>counters1.
     bindE (foldE (\<lambda>k counters. case map_of existingByKey k of
              None \<Rightarrow> retE counters
            | Some f \<Rightarrow> if map_of matches k \<noteq> None then retE counters else nomatch_step env now f counters)
          (ord (map fst existingByKey)) counters1) (\<lambda>counters2.
     retE \<lparr>ds_evaluatedCertificates = int (length certs), ds_loadedCertificates = int (length certs),
           ds_loadedFindings = int (length existing), ds_counters = counters2\<rparr>))))"

text \<open>What the language promises of a loop over a map.\<close>

definition map_order :: "(matchKey list \<Rightarrow> matchKey list) \<Rightarrow> bool" where
  "map_order ord \<longleftrightarrow> (\<forall>ks. mset (ord ks) = mset ks)"

end
