(* ===== verification/FindingPass.thy ===== *)
theory FindingPass imports FindingDiff begin

text \<open>
  The two diffs of the findings recompute refine one pass: every existing row of the organization takes
  the transition its match prescribes, and every match without a row becomes a new open row.
\<close>

section \<open>Well-formedness\<close>

lemma find_wf_db_of: "find_wf (db_of s) = find_wf s"
  by (simp add: find_wf_def db_of_def)

lemma find_fields [simp]:
  "t_findings (db_of s) = t_findings s" "t_certs (db_of s) = t_certs s" "t_cert_observations (db_of s) = t_cert_observations s"
  "t_findings (stepped s) = t_findings s" "t_certs (stepped s) = t_certs s" "t_cert_observations (stepped s) = t_cert_observations s"
  by (simp_all add: db_of_def stepped_def)

lemma find_wf_stepped [simp]: "find_wf (stepped s) = find_wf s"
  by (simp add: find_wf_def)

lemma set_columns_keys [simp]:
  "fd_ID (set_columns g f) = fd_ID f" "fd_OrganizationID (set_columns g f) = fd_OrganizationID f"
  "fd_CertificateID (set_columns g f) = fd_CertificateID f" "fd_RuleID (set_columns g f) = fd_RuleID f"
  "finding_key (set_columns g f) = finding_key f" "row_key (set_columns g f) = row_key f"
  by (simp_all add: set_columns_def finding_key_def row_key_def)

lemma stored_set_columns: "stored f = f \<Longrightarrow> stored (set_columns g f) = set_columns g f"
  by (cases f) (simp add: stored_def set_columns_def)

lemma stored_keys [simp]: "fd_ID (stored f) = fd_ID f" "finding_key (stored f) = finding_key f" "stored (stored f) = stored f"
  by (simp_all add: stored_def finding_key_def)

lemma keeps_find_wf_UpdateFinding [keep_intros]: "keeps find_wf (UpdateFinding env f)"
  unfolding UpdateFinding_def
proof (rule keeps_exec_hit)
  show "find_wf (db_of s) = find_wf s" for s :: "'a find_db_scheme" by (rule find_wf_db_of)
  fix s :: "'a find_db_scheme" assume wf: "find_wf s"
  let ?u = "update_where (is_finding (fd_OrganizationID f) (fd_ID f)) (set_columns f) (t_findings s)"
  have "map fd_ID ?u = map fd_ID (t_findings s)" "map finding_key ?u = map finding_key (t_findings s)"
    by (rule map_update_where, simp)+
  moreover have "\<forall>r \<in> set ?u. stored r = r"
    using wf by (auto simp: set_update_where find_wf_def stored_set_columns)
  ultimately show "find_wf ((stepped s)\<lparr>t_findings := update_where (is_finding (fd_OrganizationID f) (fd_ID f)) (set_columns f) (t_findings (stepped s))\<rparr>)"
    using wf by (simp add: find_wf_def)
qed

lemma keeps_find_wf_InsertFinding [keep_intros]: "keeps find_wf (InsertFinding env f)"
  unfolding InsertFinding_def
  by (rule keeps_exec_hit) (rule find_wf_db_of, auto simp: find_wf_def)

lemma leaves_find_reads [frame_intros]:
  "leaves db_of (repo_GetFinding env org i)" "leaves db_of (ListAllForOrg env org)"
  "leaves db_of (ListAllFindingsForOrgPaged env org c n)"
  "leaves db_of (ListAllCertificateSummariesForOrg env org)" "leaves db_of (ListCertificateBareSummariesForOrgPaged env org c n)"
  unfolding repo_GetFinding_def ListAllForOrg_def ListAllFindingsForOrgPaged_def ListAllCertificateSummariesForOrg_def
    ListCertificateBareSummariesForOrgPaged_def
  by (intro frame_intros)+

lemma keeps_find_wf_read: "leaves db_of m \<Longrightarrow> keeps find_wf m"
  by (rule keeps_view) (simp_all add: find_wf_db_of)

lemma distinct_org_ids: "find_wf s \<Longrightarrow> distinct (map fd_ID (filter P (t_findings s)))"
  "find_wf s \<Longrightarrow> distinct (map (\<lambda>c. cs_ID (cr_Summary c)) (filter Q (t_certs s)))"
  by (simp_all add: find_wf_def distinct_map_filter)

definition org_summaries :: "string \<Rightarrow> 'z find_db_scheme \<Rightarrow> CertificateSummary list" where
  "org_summaries org s = map bare_summary (sort_key (\<lambda>c. cs_ID (cr_Summary c)) (filter (\<lambda>c. cr_OrganizationID c = org) (t_certs s)))"

lemma bare_id [simp]: "cs_ID (bare_summary c) = cs_ID (cr_Summary c)"
  by (simp add: bare_summary_def)

section \<open>The paged readers\<close>

interpretation fcerts: keyset "(<)" cs_ID "org_summaries org" find_wf "\<lambda>c n. ListCertificateBareSummariesForOrgPaged env org c (int n)" for env org
proof unfold_locales
  fix s assume "find_wf s"
  from distinct_org_ids(2) [OF this] show "sorted_wrt (\<lambda>a b. cs_ID a < cs_ID b) (org_summaries org s)"
    by (simp add: org_summaries_def sorted_wrt_map sorted_strict)
next
  fix cur n s page s'
  assume "ListCertificateBareSummariesForOrgPaged env org cur (int n) s = (Inr page, s')"
  then show "page = take n (filter (\<lambda>r. cur < cs_ID r) (org_summaries org s))"
    by (auto simp: ListCertificateBareSummariesForOrgPaged_def run_simps page_of_sorted org_summaries_def filter_map o_def take_map)
next
  fix cur n
  show "leaves (org_summaries org) (ListCertificateBareSummariesForOrgPaged env org cur (int n))"
    by (rule leaves_view [OF leaves_find_reads(5)]) (simp add: org_summaries_def)
  show "keeps find_wf (ListCertificateBareSummariesForOrgPaged env org cur (int n))"
    by (intro keeps_find_wf_read frame_intros)
qed auto

interpretation ffinds: keyset "(<)" fd_ID "org_findings org" find_wf "\<lambda>c n. ListAllFindingsForOrgPaged env org c (int n)" for env org
proof unfold_locales
  fix s assume "find_wf s"
  from distinct_org_ids(1) [OF this] show "sorted_wrt (\<lambda>a b. fd_ID a < fd_ID b) (org_findings org s)"
    by (simp add: org_findings_def sorted_strict)
next
  fix cur n s page s'
  assume "ListAllFindingsForOrgPaged env org cur (int n) s = (Inr page, s')"
  then show "page = take n (filter (\<lambda>r. cur < fd_ID r) (org_findings org s))"
    by (auto simp: ListAllFindingsForOrgPaged_def run_simps page_of_sorted org_findings_def)
next
  fix cur n
  show "leaves (org_findings org) (ListAllFindingsForOrgPaged env org cur (int n))"
    by (rule leaves_view [OF leaves_find_reads(3)]) (simp add: org_findings_def)
  show "keeps find_wf (ListAllFindingsForOrgPaged env org cur (int n))"
    by (intro keeps_find_wf_read frame_intros)
qed auto

section \<open>The row machine\<close>

text \<open>What the pass makes of an existing row, and the counter it goes to.\<close>

definition row_result :: "matchMap \<Rightarrow> Time \<Rightarrow> Finding \<Rightarrow> err + (Finding option \<times> diffOp \<times> counterBucket)" where
  "row_result M now f =
     (case map_of M (row_key f) of
        Some m \<Rightarrow> map_sum id (\<lambda>(g, op, b). (Some g, op, b)) (match_next (me_rule m) (me_match m) now f (fd_Status f))
      | None \<Rightarrow> nomatch_next now f (fd_Status f))"

definition advance :: "matchMap \<Rightarrow> Time \<Rightarrow> Finding \<Rightarrow> Finding" where
  "advance M now f = (case row_result M now f of Inr (Some g, _, _) \<Rightarrow> g | _ \<Rightarrow> f)"

definition bucket_of :: "matchMap \<Rightarrow> Time \<Rightarrow> Finding \<Rightarrow> counterBucket" where
  "bucket_of M now f = (case row_result M now f of Inr (_, _, b) \<Rightarrow> b | Inl _ \<Rightarrow> counterUnchanged)"

lemma row_result_cases:
  assumes "row_result M now f = Inr (x, op, b)"
  shows "x = None \<and> op = diffOpNoChange \<or> (\<exists>g. x = Some g \<and> op = diffOpUpdate \<and> set_columns g f = g)"
proof -
  have m: "set_columns g f = g" "op' = diffOpUpdate" if "match_next r m now f st = Inr (g, op', b')" for r m st g op' b'
    using that by (cases st; cases f; auto simp: set_columns_def refreshed_def cleared_override_def split: if_splits)+
  have n: "x' = None \<and> op' = diffOpNoChange \<or> (\<exists>g. x' = Some g \<and> op' = diffOpUpdate \<and> set_columns g f = g)"
    if "nomatch_next now f st = Inr (x', op', b')" for st x' op' b'
    using that by (cases st; cases f; auto simp: set_columns_def cleared_override_def)
  show ?thesis
    using assms m n by (auto simp: row_result_def map_sum_def split: option.splits sum.splits prod.splits)
qed

lemma advance_columns: "set_columns (advance M now f) f = advance M now f"
proof (cases "row_result M now f")
  case (Inr r)
  then show ?thesis
    using row_result_cases [of M now f] by (cases r) (auto simp: advance_def set_columns_def split: option.splits)
qed (simp add: advance_def set_columns_def)

lemma advance_keys [simp]:
  "fd_ID (advance M now f) = fd_ID f" "fd_OrganizationID (advance M now f) = fd_OrganizationID f"
  "row_key (advance M now f) = row_key f" "finding_key (advance M now f) = finding_key f"
  using set_columns_keys [of "advance M now f" f] by (simp_all add: advance_columns)

section \<open>The pass\<close>

text \<open>The state after the keys of \<open>D\<close> were handled and the rows \<open>news\<close> were inserted.\<close>

definition passed ::
  "string \<Rightarrow> matchMap \<Rightarrow> Time \<Rightarrow> 'z find_db_scheme \<Rightarrow> matchKey set \<Rightarrow> Finding list \<Rightarrow> 'z find_db_scheme \<Rightarrow> bool" where
  "passed org M now s D news t \<longleftrightarrow>
     db_of t = (db_of s)\<lparr>t_findings := map (\<lambda>f. if fd_OrganizationID f = org \<and> row_key f \<in> D then advance M now f else f) (t_findings s) @ news\<rparr> \<and>
     find_wf s \<and> find_wf t \<and>
     (\<forall>g \<in> set news. \<exists>m. map_of M (row_key g) = Some m \<and> g = new_finding (fd_ID g) org (fst (row_key g)) (me_rule m) (me_match m) now)"

lemma find_db_fields:
  assumes "db_of t = (db_of s)\<lparr>t_findings := x\<rparr>"
  shows "t_findings t = x" "t_certs t = t_certs s" "t_cert_observations t = t_cert_observations s" "audit_events t = audit_events s"
  using arg_cong [OF assms, of t_findings] arg_cong [OF assms, of t_certs] arg_cong [OF assms, of t_cert_observations]
    arg_cong [OF assms, of audit_events] by simp_all

lemma passed_findings:
  "passed org M now s D news t \<Longrightarrow>
     t_findings t = map (\<lambda>f. if fd_OrganizationID f = org \<and> row_key f \<in> D then advance M now f else f) (t_findings s) @ news"
  unfolding passed_def by (elim conjE) (rule find_db_fields(1))

lemma update_one:
  assumes wf: "find_wf t" and f: "f \<in> set (t_findings t)" and g: "set_columns g f = g"
  shows "update_where (is_finding (fd_OrganizationID g) (fd_ID g)) (set_columns g) (t_findings t) =
    map (\<lambda>r. if fd_ID r = fd_ID f then g else r) (t_findings t)"
proof -
  have ids: "fd_ID g = fd_ID f" "fd_OrganizationID g = fd_OrganizationID f"
    using set_columns_keys(1,2) [of g f] by (simp_all add: g)
  have "r = f" if "r \<in> set (t_findings t)" "fd_ID r = fd_ID f" for r
    using wf f that by (auto simp: find_wf_def distinct_map inj_on_def)
  then have "(if is_finding (fd_OrganizationID g) (fd_ID g) r then set_columns g r else r) = (if fd_ID r = fd_ID f then g else r)"
    if "r \<in> set (t_findings t)" for r
    using that g by (cases "r = f") (auto simp: is_finding_def ids)
  then show ?thesis unfolding update_where_def by (intro map_cong refl)
qed

lemma passed_row:
  assumes p: "passed org M now s D news t" and f: "f \<in> set (t_findings s)" "fd_OrganizationID f = org" "row_key f \<notin> D"
  shows "f \<in> set (t_findings t)"
  using f by (force simp: passed_findings [OF p])

lemma same_finding:
  assumes "find_wf s" "f \<in> set (t_findings s)" "r \<in> set (t_findings s)"
  shows "fd_ID r = fd_ID f \<Longrightarrow> r = f" "finding_key r = finding_key f \<Longrightarrow> r = f"
  using assms by (simp_all add: find_wf_def distinct_map inj_on_def)

lemma finding_key_row: "finding_key f = (fd_OrganizationID f, fst (row_key f), snd (row_key f))"
  by (simp add: finding_key_def row_key_def)

lemma passed_new_ids:
  assumes p: "passed org M now s D news t" and f: "f \<in> set (t_findings s)" and g: "g \<in> set news"
  shows "fd_ID g \<noteq> fd_ID f"
proof -
  let ?h = "\<lambda>r. if fd_OrganizationID r = org \<and> row_key r \<in> D then advance M now r else r"
  have d: "distinct (map fd_ID (map ?h (t_findings s) @ news))"
    using p unfolding passed_findings [OF p, symmetric] by (simp add: passed_def find_wf_def)
  have ids: "map fd_ID (map ?h (t_findings s)) = map fd_ID (t_findings s)" by simp
  have "distinct (map fd_ID (t_findings s) @ map fd_ID news)" using d unfolding map_append ids .
  then have "fd_ID ` set (t_findings s) \<inter> fd_ID ` set news = {}" by (simp only: distinct_append set_map)
  then show ?thesis using f g by (metis disjoint_iff image_eqI)
qed

lemma passed_advance:
  assumes p: "passed org M now s D news t" and f: "f \<in> set (t_findings s)" "fd_OrganizationID f = org" "row_key f \<notin> D"
  shows "map (\<lambda>r. if fd_ID r = fd_ID f then advance M now f else r) (t_findings t) =
    map (\<lambda>r. if fd_OrganizationID r = org \<and> row_key r \<in> insert (row_key f) D then advance M now r else r) (t_findings s) @ news"
proof -
  have wf: "find_wf s" using p by (simp add: passed_def)
  have news: "map (\<lambda>r. if fd_ID r = fd_ID f then advance M now f else r) news = news"
    using passed_new_ids [OF p f(1)] by (intro map_idI) simp
  let ?h = "\<lambda>r. if fd_OrganizationID r = org \<and> row_key r \<in> D then advance M now r else r"
  have "(if fd_ID (?h r) = fd_ID f then advance M now f else ?h r) =
      (if fd_OrganizationID r = org \<and> row_key r \<in> insert (row_key f) D then advance M now r else r)" if r: "r \<in> set (t_findings s)" for r
  proof (cases "r = f")
    case True
    with f show ?thesis by simp
  next
    case False
    then have "fd_ID r \<noteq> fd_ID f" "\<not> (fd_OrganizationID r = org \<and> row_key r = row_key f)"
      using same_finding [OF wf f(1) r] f(2) by (auto simp: finding_key_row)
    then show ?thesis by (cases "fd_OrganizationID r = org") simp_all
  qed
  then have "map (\<lambda>r. if fd_ID r = fd_ID f then advance M now f else r) (map ?h (t_findings s)) =
    map (\<lambda>r. if fd_OrganizationID r = org \<and> row_key r \<in> insert (row_key f) D then advance M now r else r) (t_findings s)"
    unfolding map_map o_def by (rule map_cong [OF refl])
  then show ?thesis unfolding passed_findings [OF p] map_append news by (rule arg_cong)
qed

lemma passed_mark:
  assumes p: "passed org M now s D news t" and f: "f \<in> set (t_findings s)" "fd_OrganizationID f = org" "row_key f \<notin> D"
    and t': "db_of t' = (db_of t)\<lparr>t_findings := map (\<lambda>r. if fd_ID r = fd_ID f then advance M now f else r) (t_findings t)\<rparr>" and wf: "find_wf t'"
  shows "passed org M now s (insert (row_key f) D) news t'"
proof -
  have "db_of t = (db_of s)\<lparr>t_findings := t_findings t\<rparr>"
    using p passed_findings [OF p] by (simp add: passed_def)
  then have "db_of t' = (db_of s)\<lparr>t_findings := map (\<lambda>r. if fd_ID r = fd_ID f then advance M now f else r) (t_findings t)\<rparr>"
    using t' by (simp add: db_of_def)
  then show ?thesis using p wf unfolding passed_def passed_advance [OF p f] by blast
qed

lemma apply_result:
  assumes p: "passed org M now s D news t" and f: "f \<in> set (t_findings s)" "fd_OrganizationID f = org" "row_key f \<notin> D"
    and r: "row_result M now f = Inr (x, op, b)" and run: "applyDecision env x op t = (Inr u, t')"
  shows "passed org M now s (insert (row_key f) D) news t'"
proof -
  have wf: "find_wf t" using p by (simp add: passed_def)
  have in_t: "f \<in> set (t_findings t)" by (rule passed_row [OF p f])
  from row_result_cases [OF r] show ?thesis
  proof (elim disjE conjE exE)
    assume "x = None" "op = diffOpNoChange"
    with run r have same: "t' = t" "advance M now f = f" by (simp_all add: applyDecision_def retE_Inr advance_def)
    have "map (\<lambda>r. if fd_ID r = fd_ID f then f else r) (t_findings t) = t_findings t"
      using same_finding(1) [OF wf in_t] by (intro map_idI) auto
    then have "db_of t' = (db_of t)\<lparr>t_findings := map (\<lambda>r. if fd_ID r = fd_ID f then advance M now f else r) (t_findings t)\<rparr>"
      unfolding same by (simp add: db_of_def)
    from passed_mark [OF p f this] wf same show ?thesis by simp
  next
    fix g assume x: "x = Some g" "op = diffOpUpdate" and g: "set_columns g f = g"
    with run have upd: "UpdateFinding env g t = (Inr u, t')" by (simp add: applyDecision_def)
    have wf': "find_wf t'" by (rule keepsD [OF keeps_find_wf_UpdateFinding wf upd])
    from upd have t': "t' = (stepped t)\<lparr>t_findings := update_where (is_finding (fd_OrganizationID g) (fd_ID g)) (set_columns g) (t_findings t)\<rparr>"
      by (auto simp: UpdateFinding_def exec_hit_Inr)
    have "advance M now f = g" using r x by (simp add: advance_def)
    with t' update_one [OF wf in_t g] have "db_of t' = (db_of t)\<lparr>t_findings := map (\<lambda>r. if fd_ID r = fd_ID f then advance M now f else r) (t_findings t)\<rparr>"
      by (simp add: db_of_def stepped_def)
    from passed_mark [OF p f this wf'] show ?thesis .
  qed
qed

text \<open>An existing row's turn, with a match and without.\<close>

lemma match_step_existing:
  assumes p: "passed org M now s D news t" and f: "f \<in> set (t_findings s)" "fd_OrganizationID f = org" "row_key f \<notin> D"
    and m: "map_of M (row_key f) = Some m" and run: "match_step env org now k m (Some f) c t = (Inr c', t')"
  shows "passed org M now s (insert (row_key f) D) news t'" "c' = bump (bucket_of M now f) c" "isl (row_result M now f) = False"
proof -
  from run obtain g op b u where n: "match_next (me_rule m) (me_match m) now f (fd_Status f) = Inr (g, op, b)"
    and a: "applyDecision env (Some g) op t = (Inr u, t')" and c: "c' = bump b c"
    by (auto simp: match_step_def decideMatchTransition_def run_simps split: prod.splits)
  have r: "row_result M now f = Inr (Some g, op, b)" by (simp add: row_result_def m n)
  show "passed org M now s (insert (row_key f) D) news t'" by (rule apply_result [OF p f r a])
  show "c' = bump (bucket_of M now f) c" "isl (row_result M now f) = False" using c r by (simp_all add: bucket_of_def)
qed

lemma nomatch_step_existing:
  assumes p: "passed org M now s D news t" and f: "f \<in> set (t_findings s)" "fd_OrganizationID f = org" "row_key f \<notin> D"
    and m: "map_of M (row_key f) = None" and run: "nomatch_step env now f c t = (Inr c', t')"
  shows "passed org M now s (insert (row_key f) D) news t'" "c' = bump (bucket_of M now f) c" "isl (row_result M now f) = False"
proof -
  from run obtain x op b u where n: "nomatch_next now f (fd_Status f) = Inr (x, op, b)"
    and a: "applyDecision env x op t = (Inr u, t')" and c: "c' = bump b c"
    by (auto simp: nomatch_step_def decideNoMatchTransition_def run_simps split: prod.splits)
  have r: "row_result M now f = Inr (x, op, b)" by (simp add: row_result_def m n)
  show "passed org M now s (insert (row_key f) D) news t'" by (rule apply_result [OF p f r a])
  show "c' = bump (bucket_of M now f) c" "isl (row_result M now f) = False" using c r by (simp_all add: bucket_of_def)
qed

text \<open>A match without a row.\<close>

definition entries_ok :: "matchMap \<Rightarrow> bool" where
  "entries_ok M \<longleftrightarrow> distinct (map fst M) \<and> (\<forall>(k, m) \<in> set M. fr_ID (me_rule m) = snd k)"

lemma match_step_new:
  assumes p: "passed org M now s D news t" and ok: "entries_ok M" and m: "map_of M k = Some m"
    and run: "match_step env org now k m None c t = (Inr c', t')"
  shows "\<exists>g. row_key g = k \<and> passed org M now s D (news @ [g]) t'" "c' = bump counterOpened c"
proof -
  from run obtain i u where ins: "InsertFinding env (new_finding i org (fst k) (me_rule m) (me_match m) now)
      (t\<lparr>w_ids := Suc (w_ids t)\<rparr>) = (Inr u, t')" and c: "c' = bump counterOpened c"
    by (auto simp: match_step_def decideMatchTransition_def applyDecision_def run_simps)
  let ?g = "new_finding i org (fst k) (me_rule m) (me_match m) now" and ?t = "t\<lparr>w_ids := Suc (w_ids t)\<rparr>"
  have "find_wf ?t" using p by (simp add: passed_def find_wf_def)
  from keepsD [OF keeps_find_wf_InsertFinding this ins] have wf': "find_wf t'" .
  have key: "row_key ?g = k" using ok map_of_SomeD [OF m] by (auto simp: entries_ok_def row_key_def new_finding_def)
  have "stored ?g = ?g" by (simp add: stored_def new_finding_def)
  with ins have "db_of t' = (db_of t)\<lparr>t_findings := t_findings t @ [?g]\<rparr>"
    by (auto simp: InsertFinding_def exec_hit_Inr db_of_def stepped_def)
  then have "db_of t' = (db_of s)\<lparr>t_findings := map (\<lambda>f. if fd_OrganizationID f = org \<and> row_key f \<in> D then advance M now f else f) (t_findings s) @ (news @ [?g])\<rparr>"
    using p passed_findings [OF p] by (simp add: passed_def)
  moreover have "?g = new_finding (fd_ID ?g) org (fst (row_key ?g)) (me_rule m) (me_match m) now"
    using key by (simp add: new_finding_def)
  ultimately have "passed org M now s D (news @ [?g]) t'"
    using p wf' key m unfolding passed_def by auto
  with key show "\<exists>g. row_key g = k \<and> passed org M now s D (news @ [g]) t'" by blast
  show "c' = bump counterOpened c" by (rule c)
qed

end
