(* ===== verification/FindingRecompute.thy ===== *)
theory FindingRecompute imports FindingPass begin

text \<open>
  What the streaming diff of the findings recompute does to the table: the match map in closed form, the
  pages of certificates, the existing rows and the new rows as three phases of one pass, and what the
  pass means.
\<close>

section \<open>The match map\<close>

definition rule_match :: "Rule list \<Rightarrow> CertificateSummary \<Rightarrow> Time \<Rightarrow> string \<Rightarrow> matchEntry option" where
  "rule_match rules c now rid =
     (case find (\<lambda>r. fr_ID r = rid \<and> fr_Evaluate r c now \<noteq> None) (rev rules) of
        None \<Rightarrow> None
      | Some r \<Rightarrow> Some \<lparr>me_rule = r, me_match = the (fr_Evaluate r c now)\<rparr>)"

definition match_of :: "Rule list \<Rightarrow> Time \<Rightarrow> CertificateSummary list \<Rightarrow> matchKey \<Rightarrow> matchEntry option" where
  "match_of rules now certs k =
     (case find (\<lambda>c. cs_ID c = fst k) certs of None \<Rightarrow> None | Some c \<Rightarrow> rule_match rules c now (snd k))"

lemma evaluateRulesForCert_map:
  "map_of (evaluateRulesForCert rules c now ms) k =
     (if fst k = cs_ID c then (case rule_match rules c now (snd k) of Some e \<Rightarrow> Some e | None \<Rightarrow> map_of ms k) else map_of ms k)"
proof (induction rules arbitrary: ms)
  case Nil
  show ?case by (simp add: rule_match_def)
next
  case (Cons r rules)
  have "rule_match (r # rules) c now (snd k) = (case rule_match rules c now (snd k) of Some e \<Rightarrow> Some e
      | None \<Rightarrow> if fr_ID r = snd k \<and> fr_Evaluate r c now \<noteq> None then Some \<lparr>me_rule = r, me_match = the (fr_Evaluate r c now)\<rparr> else None)"
    by (simp add: rule_match_def find_append_single split: option.splits)
  then show ?case
    by (cases "fr_Evaluate r c now") (simp_all add: Cons.IH AList.update_conv' prod_eq_iff split: option.split)
qed

lemma evaluateRulesForCert_ok: "entries_ok ms \<Longrightarrow> entries_ok (evaluateRulesForCert rules c now ms)"
proof (induction rules arbitrary: ms)
  case (Cons r rules)
  have "entries_ok (AList.update (cs_ID c, fr_ID r) \<lparr>me_rule = r, me_match = m\<rparr> ms)" for m
  proof -
    have "distinct (map fst (AList.update (cs_ID c, fr_ID r) \<lparr>me_rule = r, me_match = m\<rparr> ms))"
      using Cons.prems by (auto simp: entries_ok_def intro: AList.distinct_update)
    moreover have "fr_ID (me_rule e) = snd k" if "(k, e) \<in> set (AList.update (cs_ID c, fr_ID r) \<lparr>me_rule = r, me_match = m\<rparr> ms)" for k e
    proof -
      have "map_of (AList.update (cs_ID c, fr_ID r) \<lparr>me_rule = r, me_match = m\<rparr> ms) k = Some e"
        using calculation that by (rule map_of_is_SomeI)
      then show ?thesis using Cons.prems by (auto simp: AList.update_conv' entries_ok_def split: if_splits dest: map_of_SomeD)
    qed
    ultimately show ?thesis by (auto simp: entries_ok_def)
  qed
  then show ?case using Cons.prems by (auto intro!: Cons.IH split: option.split)
qed simp

lemma evaluatePage_append: "evaluatePage rules now (xs @ ys) ms = evaluatePage rules now ys (evaluatePage rules now xs ms)"
  by (simp add: evaluatePage_def)

lemma evaluatePage_ok: "entries_ok ms \<Longrightarrow> entries_ok (evaluatePage rules now certs ms)"
  unfolding evaluatePage_def by (induction certs arbitrary: ms) (simp_all add: evaluateRulesForCert_ok)

lemma evaluatePage_match_of:
  "distinct (map cs_ID certs) \<Longrightarrow> map_of (evaluatePage rules now certs []) k = match_of rules now certs k"
proof (induction certs rule: rev_induct)
  case Nil
  show ?case by (simp add: evaluatePage_def match_of_def)
next
  case (snoc c certs)
  have "find (\<lambda>c. cs_ID c = fst k) certs = None" if "fst k = cs_ID c"
    using snoc.prems unfolding that find_None_set by auto (metis image_eqI)
  then show ?case
    using snoc
    by (auto simp: evaluatePage_append evaluatePage_def [of rules now "[c]"] evaluateRulesForCert_map match_of_def find_append_single
        split: option.splits)
qed

section \<open>Counting\<close>

definition counts_of :: "counterBucket multiset \<Rightarrow> counters" where
  "counts_of m = (\<lambda>b. int (count m b))"

lemma counts_bump [simp]: "bump b (counts_of m) = counts_of (add_mset b m)"
  by (auto simp: bump_def counts_of_def)

lemma counts_empty: "no_counts = counts_of {#}"
  by (simp add: no_counts_def counts_of_def)

section \<open>The streaming diff\<close>

lemma find_wf_summaries: "find_wf s \<Longrightarrow> distinct (map cs_ID (org_summaries org s))"
  using distinct_org_ids(2) [of s "\<lambda>c. cr_OrganizationID c = org"] by (simp add: org_summaries_def o_def distinct_map)

definition nonempty_ids :: "'z find_db_scheme \<Rightarrow> bool" where
  "nonempty_ids s \<longleftrightarrow> (\<forall>f \<in> set (t_findings s). fd_ID f \<noteq> []) \<and> (\<forall>c \<in> set (t_certs s). cs_ID (cr_Summary c) \<noteq> [])"

lemma Nil_less: "[] < s \<longleftrightarrow> s \<noteq> []" for s :: string
  by (cases s) simp_all

lemma pages_start:
  assumes "nonempty_ids s"
  shows "fcerts.after org [] s = org_summaries org s" "ffinds.after org [] s = org_findings org s"
  using assms by (auto simp: fcerts.after_def ffinds.after_def nonempty_ids_def org_summaries_def org_findings_def Nil_less intro!: filter_True)

lemma effective_pos: "0 < effectiveStreamingPageSize svc" "int (nat (effectiveStreamingPageSize svc)) = effectiveStreamingPageSize svc"
  by (simp_all add: effectiveStreamingPageSize_def recomputeStreamingPageSize_def)

lemma certs_phase:
  assumes run: "page_loop fuel (\<lambda>cursor. ListCertificateBareSummariesForOrgPaged env org cursor (effectiveStreamingPageSize svc)) cs_ID
      (nat (effectiveStreamingPageSize svc)) (\<lambda>page (ms, cnt). retE (evaluatePage rules now page ms, cnt + int (length page))) [] ([], 0) s = (Inr res, t)"
    and wf: "find_wf s" and ids: "nonempty_ids s"
  shows "res = (evaluatePage rules now (org_summaries org s) [], int (length (org_summaries org s)))" "db_of t = db_of s"
proof -
  let ?R = "org_summaries org s" and ?n = "nat (effectiveStreamingPageSize svc)"
  let ?P = "\<lambda>rest res u. find_wf u \<and> db_of u = db_of s \<and> (\<exists>seen. ?R = seen @ rest \<and> res = (evaluatePage rules now seen [], int (length seen)))"
  have run': "page_loop fuel (\<lambda>c. ListCertificateBareSummariesForOrgPaged env org c (int ?n)) cs_ID ?n
      (\<lambda>page (ms, cnt). retE (evaluatePage rules now page ms, cnt + int (length page))) [] ([], 0) s = (Inr res, t)"
    using run by (simp only: effective_pos)
  have rows: "org_summaries org u = ?R" if "db_of u = db_of s" for u :: "'a find_db_scheme"
    using that by (metis find_fields(2) org_summaries_def)
  have "?P [] res t"
  proof (rule fcerts.loop_rule [where P = ?P and R = ?R, OF run'])
    show "0 < ?n" using effective_pos [of svc] by simp
    show "find_wf u \<and> org_summaries org u = ?R" if "?P rest b u" for rest b u using that rows by blast
    show "?P (fcerts.after org [] s) ([], 0) s"
      using wf by (simp add: pages_start [OF ids]) (auto simp: evaluatePage_def)
    show "?P rest b u'" if "?P rest b u" "ListCertificateBareSummariesForOrgPaged env org c (int ?n) u = (Inr page, u')" for rest b u c page u'
      using that leavesD [OF leaves_find_reads(5) that(2)] find_wf_db_of by metis
    show "?P rest b' u'" if P: "?P (page @ rest) b u" and "page \<noteq> []"
      and r: "(case b of (ms, cnt) \<Rightarrow> retE (evaluatePage rules now page ms, cnt + int (length page))) u = (Inr b', u')" for page rest b u b' u'
    proof -
      from P obtain seen where "?R = seen @ page @ rest" "b = (evaluatePage rules now seen [], int (length seen))" and u: "find_wf u" "db_of u = db_of s" by blast
      with r have "?R = (seen @ page) @ rest \<and> b' = (evaluatePage rules now (seen @ page) [], int (length (seen @ page)))" "u' = u"
        by (auto simp: retE_Inr evaluatePage_append)
      with u show ?thesis by blast
    qed
  qed
  then show "res = (evaluatePage rules now ?R [], int (length ?R))" "db_of t = db_of s" by auto
qed

section \<open>The rows the pass reads\<close>

lemma passed_rows:
  assumes p: "passed org M now s D [] t"
  shows "org_findings org t = map (\<lambda>f. if row_key f \<in> D then advance M now f else f) (org_findings org s)"
proof -
  let ?h = "\<lambda>f. if row_key f \<in> D then advance M now f else f"
  have "filter (\<lambda>f. fd_OrganizationID f = org) (map (\<lambda>f. if fd_OrganizationID f = org \<and> row_key f \<in> D then advance M now f else f) xs) =
      map ?h (filter (\<lambda>f. fd_OrganizationID f = org) xs)" for xs
    by (induction xs) auto
  then have "filter (\<lambda>f. fd_OrganizationID f = org) (t_findings t) = map ?h (filter (\<lambda>f. fd_OrganizationID f = org) (t_findings s))"
    unfolding passed_findings [OF p] by simp
  moreover have "insort_key fd_ID (?h x) (map ?h xs) = map ?h (insort_key fd_ID x xs)" for x xs by (induction xs) auto
  then have "sort_key fd_ID (map ?h xs) = map ?h (sort_key fd_ID xs)" for xs
    by (induction xs) simp_all
  ultimately show ?thesis by (simp add: org_findings_def)
qed

lemma org_rows:
  assumes "find_wf s"
  shows "set (org_findings org s) = {f \<in> set (t_findings s). fd_OrganizationID f = org}" "distinct (map row_key (org_findings org s))"
proof -
  show "set (org_findings org s) = {f \<in> set (t_findings s). fd_OrganizationID f = org}" by (auto simp: org_findings_def)
  have "distinct (map finding_key (filter (\<lambda>f. fd_OrganizationID f = org) (t_findings s)))"
    using assms by (simp add: find_wf_def distinct_map_filter)
  then have "distinct (map finding_key (org_findings org s))"
    unfolding org_findings_def by (simp add: distinct_map)
  then show "distinct (map row_key (org_findings org s))"
    unfolding distinct_map by (auto simp: inj_on_def org_findings_def finding_key_row)
qed

section \<open>The existing rows\<close>

definition settled_rows :: "matchMap \<Rightarrow> Time \<Rightarrow> Finding list \<Rightarrow> counters" where
  "settled_rows M now fs = counts_of (image_mset (bucket_of M now) (mset fs))"

lemma settled_rows_snoc: "bump (bucket_of M now f) (settled_rows M now fs) = settled_rows M now (fs @ [f])"
  by (simp add: settled_rows_def)

definition without :: "matchKey set \<Rightarrow> matchMap \<Rightarrow> matchMap" where
  "without D M = filter (\<lambda>(k, _). k \<notin> D) M"

lemma without_lookup: "map_of (without D M) k = (if k \<in> D then None else map_of M k)"
  by (induction M) (auto simp: without_def)

lemma without_delete: "AList.delete k (without D M) = without (insert k D) M"
  by (auto simp: without_def AList.delete_eq intro!: filter_cong)

lemma without_keys: "map fst (without D M) = filter (\<lambda>k. k \<notin> D) (map fst M)"
  by (induction M) (auto simp: without_def)

lemma without_absent: "map_of M k = None \<Longrightarrow> without (insert k D) M = without D M"
  by (auto simp: without_def map_of_eq_None_iff image_iff intro!: filter_cong)

lemma existing_step_pass:
  assumes p: "passed org M now s D [] t" and f: "f \<in> set (t_findings s)" "fd_OrganizationID f = org" "row_key f \<notin> D"
    and run: "existing_step env org now f (without D M, c) t = (Inr (ms, c'), t')"
  shows "passed org M now s (insert (row_key f) D) [] t'" "ms = without (insert (row_key f) D) M"
    "c' = bump (bucket_of M now f) c" "isl (row_result M now f) = False"
proof -
  have "passed org M now s (insert (row_key f) D) [] t' \<and> ms = without (insert (row_key f) D) M \<and>
    c' = bump (bucket_of M now f) c \<and> isl (row_result M now f) = False"
  proof (cases "map_of M (row_key f)")
    case None
    with run f(3) have n: "nomatch_step env now f c t = (Inr c', t')" and ms: "ms = without D M"
      by (auto simp: existing_step_def without_lookup run_simps)
    from nomatch_step_existing [OF p f None n] ms without_absent [OF None] show ?thesis by simp
  next
    case (Some m)
    with run f(3) have n: "match_step env org now (row_key f) m (Some f) c t = (Inr c', t')"
      and ms: "ms = AList.delete (row_key f) (without D M)"
      by (auto simp: existing_step_def without_lookup run_simps)
    from match_step_existing [OF p f Some n] ms show ?thesis by (simp add: without_delete)
  qed
  then show "passed org M now s (insert (row_key f) D) [] t'" "ms = without (insert (row_key f) D) M"
    "c' = bump (bucket_of M now f) c" "isl (row_result M now f) = False" by blast+
qed

text \<open>Where the pass stands after the rows \<open>seen\<close>.\<close>

definition rows_done ::
  "string \<Rightarrow> matchMap \<Rightarrow> Time \<Rightarrow> 'z find_db_scheme \<Rightarrow> Finding list \<Rightarrow> (matchMap \<times> counters) \<Rightarrow> 'z find_db_scheme \<Rightarrow> bool" where
  "rows_done org M now s seen acc t \<longleftrightarrow>
     passed org M now s (row_key ` set seen) [] t \<and> acc = (without (row_key ` set seen) M, settled_rows M now seen) \<and>
     (\<forall>f \<in> set seen. \<not> isl (row_result M now f))"

lemma existing_row_done:
  assumes R: "org_findings org s = seen @ f # rest" and I: "rows_done org M now s seen acc t"
    and run: "existing_step env org now f acc t = (Inr acc', t')"
  shows "rows_done org M now s (seen @ [f]) acc' t'"
proof -
  obtain ms c where acc': "acc' = (ms, c)" by (cases acc')
  have p: "passed org M now s (row_key ` set seen) [] t" using I by (simp only: rows_done_def)
  then have wf: "find_wf s" by (simp add: passed_def)
  have fresh: "row_key f \<notin> row_key ` set seen" using org_rows(2) [OF wf, of org] R by auto
  have "f \<in> set (org_findings org s)" using R by simp
  then have f: "f \<in> set (t_findings s)" "fd_OrganizationID f = org" using org_rows(1) [OF wf, of org] by simp_all
  have acc: "acc = (without (row_key ` set seen) M, settled_rows M now seen)" using I by (simp only: rows_done_def)
  note st = existing_step_pass [OF p f fresh run [unfolded acc acc']]
  show ?thesis using st I by (simp add: rows_done_def acc' settled_rows_snoc)
qed

lemma existing_rows:
  assumes R: "org_findings org s = seen @ page @ rest" and I: "rows_done org M now s seen acc t"
    and run: "foldE (existing_step env org now) page acc t = (Inr acc', t')"
  shows "rows_done org M now s (seen @ page) acc' t'"
proof (rule foldE_rule [where I = "\<lambda>ys acc t. rows_done org M now s (seen @ ys) acc t", OF run])
  show "rows_done org M now s (seen @ []) acc t" using I by simp
  show "rows_done org M now s (seen @ ys @ [f]) acc' t'"
    if "page = ys @ f # zs" "rows_done org M now s (seen @ ys) acc t" "existing_step env org now f acc t = (Inr acc', t')" for ys f zs acc t acc' t'
    using existing_row_done [OF _ that(2,3), of "zs @ rest"] R that(1) by simp
qed

lemma passed_start: "find_wf s \<Longrightarrow> passed org M now s {} [] s"
  by (simp add: passed_def db_of_def)

lemma passed_read: "passed org M now s D news t \<Longrightarrow> db_of t' = db_of t \<Longrightarrow> passed org M now s D news t'"
  unfolding passed_def by (metis find_wf_db_of)

lemma rows_done_split:
  assumes I: "rows_done org M now s orig acc t" and R: "org_findings org s = orig @ rest"
  shows "org_findings org t = map (advance M now) orig @ rest"
proof -
  have p: "passed org M now s (row_key ` set orig) [] t" using I by (simp only: rows_done_def)
  then have "find_wf s" by (simp add: passed_def)
  from org_rows(2) [OF this, of org] have "row_key f \<notin> row_key ` set orig" if "f \<in> set rest" for f
    using that R by auto
  then have "map (\<lambda>f. if row_key f \<in> row_key ` set orig then advance M now f else f) rest = rest"
    by (intro map_idI) simp
  then show ?thesis by (simp add: passed_rows [OF p] R)
qed

lemma rows_done_start: "find_wf s \<Longrightarrow> rows_done org M now s [] (M, no_counts) s"
  using passed_start by (simp add: rows_done_def without_def settled_rows_def counts_empty)

lemma findings_rows:
  assumes "\<exists>orig acc. org_findings org s = orig @ rest \<and> seen = map (advance M now) orig \<and> b = (acc, int (length orig)) \<and> rows_done org M now s orig acc u"
  shows "find_wf u \<and> org_findings org u = seen @ rest"
proof -
  from assms obtain orig acc where o': "org_findings org s = orig @ rest" "seen = map (advance M now) orig"
    and I: "rows_done org M now s orig acc u" by blast
  then have "find_wf u" by (simp add: rows_done_def passed_def)
  with rows_done_split [OF I o'(1)] o'(2) show ?thesis by simp
qed

lemma findings_phase:
  assumes run: "page_loop fuel (\<lambda>cursor. ListAllFindingsForOrgPaged env org cursor (effectiveStreamingPageSize svc)) fd_ID
      (nat (effectiveStreamingPageSize svc))
      (\<lambda>page (acc, cnt). bindE (foldE (existing_step env org now) page acc) (\<lambda>acc'. retE (acc', cnt + int (length page))))
      [] ((M, no_counts), 0) s = (Inr res, t)"
    and wf: "find_wf s" and ids: "nonempty_ids s"
  shows "\<exists>acc. res = (acc, int (length (org_findings org s))) \<and> rows_done org M now s (org_findings org s) acc t"
proof -
  let ?R = "org_findings org s" and ?n = "nat (effectiveStreamingPageSize svc)"
  let ?P = "\<lambda>seen rest b u. \<exists>orig acc. ?R = orig @ rest \<and> seen = map (advance M now) orig \<and> b = (acc, int (length orig)) \<and>
    rows_done org M now s orig acc u"
  have run': "page_loop fuel (\<lambda>c. ListAllFindingsForOrgPaged env org c (int ?n)) fd_ID ?n
      (\<lambda>page (acc, cnt). bindE (foldE (existing_step env org now) page acc) (\<lambda>acc'. retE (acc', cnt + int (length page))))
      [] ((M, no_counts), 0) s = (Inr res, t)"
    using run by (simp only: effective_pos)
  have "\<exists>seen. ?P seen [] res t"
  proof (rule ffinds.loop_rule_update [where P = ?P, OF run'])
    show "0 < ?n" using effective_pos [of svc] by simp
    show "find_wf u \<and> org_findings org u = seen @ rest" if "?P seen rest b u" for seen rest b u by (rule findings_rows [OF that])
    show "?P [] (org_findings org s) ((M, no_counts), 0) s" using rows_done_start [OF wf] by auto
    show "ffinds.after org [] s = org_findings org s" by (rule pages_start(2) [OF ids])
    show "?P seen rest b u'" if "?P seen rest b u" "ListAllFindingsForOrgPaged env org c (int ?n) u = (Inr page, u')" for seen rest b u c page u'
      using that(1) passed_read [OF _ leavesD [OF leaves_find_reads(3) that(2)]] by (auto simp: rows_done_def)
    show "\<exists>page'. ?P (seen @ page') rest b' u' \<and> map fd_ID page' = map fd_ID page"
      if P: "?P seen (page @ rest) b u" and r: "(case b of (acc, cnt) \<Rightarrow> bindE (foldE (existing_step env org now) page acc)
        (\<lambda>acc'. retE (acc', cnt + int (length page)))) u = (Inr b', u')" for seen page rest b u b' u'
    proof -
      from P obtain orig acc where 1: "?R = orig @ page @ rest" "seen = map (advance M now) orig" "b = (acc, int (length orig))"
        and I: "rows_done org M now s orig acc u" by auto
      from r obtain acc' where f: "foldE (existing_step env org now) page acc u = (Inr acc', u')"
        and b': "b' = (acc', int (length (orig @ page)))" by (auto simp: 1(3) run_simps)
      have "rows_done org M now s (orig @ page) acc' u'" by (rule existing_rows [OF 1(1) I f])
      with 1 b' show ?thesis by (intro exI [of _ "map (advance M now) page"]) auto
    qed
  qed
  then show ?thesis by auto
qed

section \<open>The new rows\<close>

definition opened :: "nat \<Rightarrow> counters \<Rightarrow> counters" where
  "opened n c = c(counterOpened := c counterOpened + int n)"

lemma opened_bump: "bump counterOpened (opened n c) = opened (Suc n) c"
  by (simp add: opened_def bump_def ac_simps)

lemma new_rows:
  assumes p: "passed org M now s D [] t" and ok: "entries_ok M" and D: "D \<inter> set ks = {}" and sub: "set ks \<subseteq> fst ` set M"
    and run: "foldE (insert_step env org now (without D M)) ks c t = (Inr c', t')"
  shows "\<exists>news. map row_key news = ks \<and> passed org M now s D news t'" "c' = opened (length ks) c"
proof -
  let ?I = "\<lambda>seen b u. (\<exists>news. map row_key news = seen \<and> passed org M now s D news u) \<and> b = opened (length seen) c"
  have "?I ks c' t'"
  proof (rule foldE_rule [where I = ?I, OF run])
    show "?I [] c t" using p by (simp add: opened_def)
  next
    fix seen k rest b u b' u'
    assume ks: "ks = seen @ k # rest" and I: "?I seen b u" and r: "insert_step env org now (without D M) k b u = (Inr b', u')"
    from I obtain news where news: "map row_key news = seen" "passed org M now s D news u" and b: "b = opened (length seen) c" by blast
    have k: "k \<in> fst ` set M" "k \<notin> D" using ks D sub by auto
    then obtain m where m: "map_of M k = Some m" by (metis domIff dom_map_of_conv_image_fst not_None_eq)
    with r k have st: "match_step env org now k m None b u = (Inr b', u')" by (simp add: insert_step_def without_lookup)
    from match_step_new [OF news(2) ok m st] news b show "?I (seen @ [k]) b' u'"
      by (metis map_append list.map opened_bump length_append_singleton)
  qed
  then show "\<exists>news. map row_key news = ks \<and> passed org M now s D news t'" "c' = opened (length ks) c" by blast+
qed

section \<open>What a diff settles\<close>

definition org_matches :: "FindingService \<Rightarrow> string \<Rightarrow> Time \<Rightarrow> 'z find_db_scheme \<Rightarrow> matchMap" where
  "org_matches svc org now s = evaluatePage (fs_rules svc) now (org_summaries org s) []"

text \<open>
  The whole effect of a diff: every row of the organization took its transition, the matches without
  a row were inserted, nothing else changed, and the summary counts exactly this.
\<close>

definition diff_settled ::
  "string \<Rightarrow> matchMap \<Rightarrow> Time \<Rightarrow> 'z find_db_scheme \<Rightarrow> diffSummary \<Rightarrow> Finding list \<Rightarrow> 'z find_db_scheme \<Rightarrow> bool" where
  "diff_settled org M now s sm news t \<longleftrightarrow>
     (let R = org_findings org s; C = int (length (org_summaries org s)) in
      passed org M now s (row_key ` set R) news t \<and>
      mset (map row_key news) = mset (map fst (without (row_key ` set R) M)) \<and>
      (\<forall>f \<in> set R. \<not> isl (row_result M now f)) \<and>
      sm = \<lparr>ds_evaluatedCertificates = C, ds_loadedCertificates = C, ds_loadedFindings = int (length R),
            ds_counters = opened (length news) (settled_rows M now R)\<rparr>)"

lemma settledI:
  assumes "passed org M now s (row_key ` set (org_findings org s)) news t"
    "mset (map row_key news) = mset (map fst (without (row_key ` set (org_findings org s)) M))"
    "\<forall>f \<in> set (org_findings org s). \<not> isl (row_result M now f)"
    "sm = \<lparr>ds_evaluatedCertificates = int (length (org_summaries org s)), ds_loadedCertificates = int (length (org_summaries org s)),
       ds_loadedFindings = int (length (org_findings org s)), ds_counters = opened (length news) (settled_rows M now (org_findings org s))\<rparr>"
  shows "diff_settled org M now s sm news t"
  using assms by (simp add: diff_settled_def)

lemma entries_ok_matches: "entries_ok (evaluatePage rules now certs [])"
  by (rule evaluatePage_ok) (simp add: entries_ok_def)

lemma same_find_tables:
  assumes "db_of u = db_of s"
  shows "org_findings org u = org_findings org s" "org_summaries org u = org_summaries org s" "nonempty_ids u = nonempty_ids s"
    "find_wf u = find_wf s"
  using assms by (metis find_fields(1,2) org_findings_def org_summaries_def nonempty_ids_def find_wf_db_of)+

lemma passed_base:
  assumes "passed org M now s D news t" and eq: "db_of s = db_of s0"
  shows "passed org M now s0 D news t"
proof -
  have "t_findings s = t_findings s0" "find_wf s = find_wf s0"
    using arg_cong [OF eq, of t_findings] arg_cong [OF eq, of find_wf] by (simp_all add: find_wf_db_of)
  with assms show ?thesis by (simp add: passed_def)
qed

lemma streaming_settles:
  assumes run: "runDiffStreaming env ord svc org now s = (Inr sm, t)"
    and wf: "find_wf s" and ids: "nonempty_ids s" and ord: "map_order ord"
  shows "\<exists>news. diff_settled org (org_matches svc org now s) now s sm news t"
proof -
  let ?M = "org_matches svc org now s" and ?R = "org_findings org s"
  let ?D = "row_key ` set ?R"
  let ?pg = "effectiveStreamingPageSize svc"
  from run obtain ms n s1 rem c cnt s2 c' s3 where
    1: "page_loop (Suc (length (t_certs s))) (\<lambda>cursor. ListCertificateBareSummariesForOrgPaged env org cursor ?pg) cs_ID (nat ?pg)
      (\<lambda>page (ms, cnt). retE (evaluatePage (fs_rules svc) now page ms, cnt + int (length page))) [] ([], 0) s = (Inr (ms, n), s1)" and
    2: "page_loop (Suc (length (t_findings s))) (\<lambda>cursor. ListAllFindingsForOrgPaged env org cursor ?pg) fd_ID (nat ?pg)
      (\<lambda>page (acc, cnt). bindE (foldE (existing_step env org now) page acc) (\<lambda>acc'. retE (acc', cnt + int (length page))))
      [] ((ms, no_counts), 0) s1 = (Inr ((rem, c), cnt), s2)" and
    3: "foldE (insert_step env org now rem) (ord (map fst rem)) c s2 = (Inr c', s3)" and
    sm: "sm = \<lparr>ds_evaluatedCertificates = n, ds_loadedCertificates = n, ds_loadedFindings = cnt, ds_counters = c'\<rparr>" and t: "t = s3"
    unfolding runDiffStreaming_def Let_def bindE_getE prod.case bindE_Inr split_paired_Ex retE_Inr
    apply (elim exE conjE)
    subgoal premises p by (rule that [OF p(2-6)])
    done
  note c1 = certs_phase [OF 1 wf ids]
  have ms: "ms = ?M" "n = int (length (org_summaries org s))" using c1(1) by (simp_all add: org_matches_def)
  note same = same_find_tables [OF c1(2)]
  from findings_phase [OF 2] wf ids have done2: "rows_done org ?M now s1 ?R (rem, c) s2" and cnt: "cnt = int (length ?R)"
    by (simp_all add: same ms)
  then have p1: "passed org ?M now s1 ?D [] s2" and rem: "rem = without ?D ?M" and c: "c = settled_rows ?M now ?R"
    and sup: "\<forall>f \<in> set ?R. \<not> isl (row_result ?M now f)"
    by (simp_all add: rows_done_def)
  have p: "passed org ?M now s ?D [] s2" by (rule passed_base [OF p1 c1(2)])
  let ?W = "without ?D ?M"
  have ks: "mset (ord (map fst ?W)) = mset (map fst ?W)" using ord unfolding map_order_def by (rule spec)
  then have kset: "set (ord (map fst ?W)) = set (map fst ?W)" by (rule mset_eq_setD)
  have fresh: "?D \<inter> set (ord (map fst ?W)) = {}" "set (ord (map fst ?W)) \<subseteq> fst ` set ?M"
    unfolding kset by (auto simp: without_def)
  have ok: "entries_ok ?M" unfolding org_matches_def by (rule entries_ok_matches)
  have 3: "foldE (insert_step env org now ?W) (ord (map fst ?W)) c s2 = (Inr c', t)" using 3 unfolding rem t .
  note nr = new_rows [OF p ok fresh 3]
  from nr(1) obtain news where news: "map row_key news = ord (map fst ?W)" "passed org ?M now s ?D news t" by blast
  have len: "length (ord (map fst ?W)) = length news" using arg_cong [OF news(1), of length] by simp
  have "diff_settled org ?M now s sm news t"
    using news(2) ks sup sm nr(2) unfolding c ms(2) cnt len by (intro settledI) (simp_all add: news(1) ks)
  then show ?thesis by blast
qed

section \<open>What a diff means\<close>

lemma org_row: "find_wf s \<Longrightarrow> f \<in> set (t_findings s) \<Longrightarrow> fd_OrganizationID f = org \<Longrightarrow> f \<in> set (org_findings org s)"
  by (simp add: org_rows)

lemma settled_findings:
  assumes "diff_settled org M now s sm news t"
  shows "t_findings t = map (\<lambda>f. if fd_OrganizationID f = org then advance M now f else f) (t_findings s) @ news"
    "db_of t = (db_of s)\<lparr>t_findings := t_findings t\<rparr>" "find_wf t"
    "\<And>g. g \<in> set news \<Longrightarrow> \<exists>m. map_of M (row_key g) = Some m \<and> g = new_finding (fd_ID g) org (fst (row_key g)) (me_rule m) (me_match m) now"
proof -
  have p: "passed org M now s (row_key ` set (org_findings org s)) news t" using assms by (simp add: diff_settled_def Let_def)
  then have wf: "find_wf s" by (simp add: passed_def)
  have "map (\<lambda>f. if fd_OrganizationID f = org \<and> row_key f \<in> row_key ` set (org_findings org s) then advance M now f else f) (t_findings s) =
      map (\<lambda>f. if fd_OrganizationID f = org then advance M now f else f) (t_findings s)"
    using org_row [OF wf] by (intro map_cong refl) auto
  with passed_findings [OF p] show eq: "t_findings t = map (\<lambda>f. if fd_OrganizationID f = org then advance M now f else f) (t_findings s) @ news"
    by simp
  show "db_of t = (db_of s)\<lparr>t_findings := t_findings t\<rparr>" using p passed_findings [OF p] by (simp add: passed_def)
  show "find_wf t" using p by (simp add: passed_def)
  show "\<exists>m. map_of M (row_key g) = Some m \<and> g = new_finding (fd_ID g) org (fst (row_key g)) (me_rule m) (me_match m) now"
    if "g \<in> set news" for g using p that by (simp add: passed_def)
qed

lemma settled_keys:
  assumes "diff_settled org M now s sm news t"
  shows "row_key ` set news = fst ` set M - row_key ` set (org_findings org s)"
proof -
  have "mset (map row_key news) = mset (map fst (without (row_key ` set (org_findings org s)) M))"
    using assms by (simp add: diff_settled_def Let_def)
  from mset_eq_setD [OF this] show ?thesis unfolding without_keys by auto
qed

lemma advance_active:
  assumes "\<not> isl (row_result M now f)"
  shows "fd_Status (advance M now f) \<noteq> StatusResolved \<longleftrightarrow> map_of M (row_key f) \<noteq> None"
proof (cases "map_of M (row_key f)")
  case None
  then show ?thesis using assms
    by (cases "fd_Status f") (auto simp: advance_def row_result_def cleared_override_def)
next
  case (Some m)
  then show ?thesis using assms
    by (cases "fd_Status f") (auto simp: advance_def row_result_def cleared_override_def refreshed_def)
qed

lemma settled_active:
  assumes st: "diff_settled org M now s sm news t"
  shows "(\<exists>f \<in> set (t_findings t). fd_OrganizationID f = org \<and> row_key f = k \<and> fd_Status f \<noteq> StatusResolved) \<longleftrightarrow> map_of M k \<noteq> None"
proof -
  have wf: "find_wf s" and sup: "\<And>f. f \<in> set (org_findings org s) \<Longrightarrow> \<not> isl (row_result M now f)"
    using st by (simp_all add: diff_settled_def Let_def passed_def)
  note t = settled_findings [OF st]
  have active: "fd_Status (advance M now f) \<noteq> StatusResolved \<longleftrightarrow> map_of M (row_key f) \<noteq> None"
    if "f \<in> set (t_findings s)" "fd_OrganizationID f = org" for f
    by (rule advance_active [OF sup [OF org_row [OF wf that]]])
  show ?thesis
  proof
    assume "\<exists>f \<in> set (t_findings t). fd_OrganizationID f = org \<and> row_key f = k \<and> fd_Status f \<noteq> StatusResolved"
    then obtain f where f: "f \<in> set (t_findings t)" "fd_OrganizationID f = org" "row_key f = k" "fd_Status f \<noteq> StatusResolved" by blast
    from f(1) show "map_of M k \<noteq> None"
    proof (unfold t(1) set_append, elim UnE)
      assume "f \<in> set (map (\<lambda>f. if fd_OrganizationID f = org then advance M now f else f) (t_findings s))"
      then obtain g where g: "g \<in> set (t_findings s)" "f = (if fd_OrganizationID g = org then advance M now g else g)" by auto
      with f(2) have "fd_OrganizationID g = org" "f = advance M now g" by (metis advance_keys(2))+
      with active [OF g(1)] f(3,4) show ?thesis by simp
    next
      assume "f \<in> set news"
      from t(4) [OF this] obtain m where "map_of M (row_key f) = Some m" by (elim exE conjE) (rule that)
      with f(3) show ?thesis by simp
    qed
  next
    assume m: "map_of M k \<noteq> None"
    then have k: "k \<in> fst ` set M" by (simp add: map_of_eq_None_iff)
    show "\<exists>f \<in> set (t_findings t). fd_OrganizationID f = org \<and> row_key f = k \<and> fd_Status f \<noteq> StatusResolved"
    proof (cases "k \<in> row_key ` set (org_findings org s)")
      case True
      then obtain g where g: "g \<in> set (t_findings s)" "fd_OrganizationID g = org" "row_key g = k" using org_rows(1) [OF wf] by blast
      then have "advance M now g \<in> (\<lambda>f. if fd_OrganizationID f = org then advance M now f else f) ` set (t_findings s)"
        by (intro image_eqI [of _ _ g]) simp_all
      then have "advance M now g \<in> set (t_findings t)" unfolding t(1) by simp
      then show ?thesis using g m active [OF g(1,2)] by (intro bexI [of _ "advance M now g"]) simp_all
    next
      case False
      with k have "k \<in> row_key ` set news" unfolding settled_keys [OF st] by simp
      then obtain g where g: "g \<in> set news" "row_key g = k" by (elim imageE) simp
      from t(4) [OF g(1)] obtain m where "map_of M (row_key g) = Some m"
        and eq: "g = new_finding (fd_ID g) org (fst (row_key g)) (me_rule m) (me_match m) now"
        by (elim exE conjE) (rule that)
      from arg_cong [OF eq, of fd_OrganizationID] arg_cong [OF eq, of fd_Status]
      have "fd_OrganizationID g = org" "fd_Status g = StatusOpen" by (simp_all add: new_finding_def)
      moreover have "g \<in> set (t_findings t)" unfolding t(1) using g(1) by simp
      ultimately show ?thesis using g(2) by (intro bexI [of _ g]) simp_all
    qed
  qed
qed

text \<open>
  C3: A successful recompute makes the findings say exactly what the rules say. Afterwards, for every
  certificate and every rule, the organization has an unresolved finding with that certificate and rule
  if and only if the rule fires on that certificate now. This holds whatever the findings were before,
  whatever the page size, and in whatever order the language visits the map of new matches.
\<close>

theorem recompute_active_iff_match:
  assumes "runDiffStreaming env ord svc org now s = (Inr sm, t)"
    and "find_wf s" and "nonempty_ids s" and "map_order ord"
  shows "(\<exists>f \<in> set (t_findings t). fd_OrganizationID f = org \<and> fd_CertificateID f = cert \<and> fd_RuleID f = rule \<and> fd_Status f \<noteq> StatusResolved) \<longleftrightarrow>
    match_of (fs_rules svc) now (org_summaries org s) (cert, rule) \<noteq> None"
proof -
  from streaming_settles [OF assms] obtain news where st: "diff_settled org (org_matches svc org now s) now s sm news t" by blast
  have "map_of (org_matches svc org now s) (cert, rule) = match_of (fs_rules svc) now (org_summaries org s) (cert, rule)"
    unfolding org_matches_def by (rule evaluatePage_match_of [OF find_wf_summaries [OF assms(2)]])
  with settled_active [OF st, of "(cert, rule)"] show ?thesis by (simp add: row_key_def)
qed

section \<open>A small instance\<close>

text \<open>
  Two self-signed RSA leaves, one with a short key; an acknowledged finding and an open one whose rule
  does not fire any more.
\<close>

definition demo_find_env :: env where
  "demo_find_env = \<lparr>fault = (\<lambda>_. False), clockAt = (\<lambda>n. 1000), idAt = (\<lambda>n. replicate (Suc n) (CHR ''i'')),
     dbNow = (\<lambda>n. 2000), regexpCompile = (\<lambda>p. Inl [])\<rparr>"

definition demo_cert :: "string \<Rightarrow> int \<Rightarrow> CertificateRecord" where
  "demo_cert i bits = \<lparr>cr_OrganizationID = ''o'', cr_Summary = \<lparr>cs_ID = i, cs_FingerprintSHA256 = ''f'', cs_Subject = ''s'', cs_Issuer = ''s'',
     cs_SerialNumberHex = ''1'', cs_SignatureAlg = ''x'', cs_PublicKeyAlg = ''RSA'', cs_PublicKeyBits = bits,
     cs_NotBefore = 0, cs_NotAfter = 10000000000000000, cs_IsSelfSigned = True, cs_IsCA = False,
     cs_FirstSeenAt = 0, cs_LastSeenAt = 0, cs_ObservationCount = 0, cs_ActiveObservationCount = 0\<rparr>\<rparr>"

definition demo_finding :: "string \<Rightarrow> string \<Rightarrow> string \<Rightarrow> Status \<Rightarrow> Finding" where
  "demo_finding i c r st = \<lparr>fd_ID = i, fd_OrganizationID = ''o'', fd_CertificateID = c, fd_RuleID = r, fd_RuleVersion = 1,
     fd_Severity = SeverityHigh, fd_Status = st, fd_Title = ''t'', fd_Evidence = JNull, fd_FirstSeenAt = 5, fd_LastSeenAt = 7,
     fd_ResolvedAt = None, fd_UpdatedAt = 7, fd_FingerprintSHA256 = [], fd_Subject = [],
     fd_StatusReason = (if st = StatusAcknowledged then ''known'' else []), fd_StatusActor = (if st = StatusAcknowledged then ''u'' else []),
     fd_StatusChangedAt = (if st = StatusAcknowledged then Some 6 else None), fd_SuppressExpiresAt = None\<rparr>"

definition demo_find_db :: find_db where
  "demo_find_db = \<lparr>w_calls = 0, w_ids = 0, w_clock = 0, w_tx = 0, w_locks = [], audit_events = [],
     t_findings = [demo_finding ''f1'' ''c1'' ''self_signed_leaf'' StatusAcknowledged, demo_finding ''f2'' ''c1'' ''certificate_expired'' StatusOpen],
     t_certs = [demo_cert ''c1'' 1024, demo_cert ''c2'' 4096], t_cert_observations = [], t_organization_ids = [''o'']\<rparr>"

definition demo_find_service :: FindingService where
  "demo_find_service = \<lparr>fs_rules = DefaultRules, fs_streamingPageOverride = 1\<rparr>"

definition demo_order :: "matchKey list \<Rightarrow> matchKey list" where
  "demo_order ks = rev ks"

lemma demo_find_ok: "find_ok demo_find_db" "nonempty_ids demo_find_db" "map_order demo_order" "no_faults demo_find_env"
  by (simp_all add: find_ok_def find_wf_def finding_ok_def nonempty_ids_def map_order_def demo_order_def no_faults_def demo_find_env_def
      demo_find_db_def demo_finding_def demo_cert_def finding_key_def stored_def)

lemma demo_find_wf: "find_wf demo_find_db"
  using demo_find_ok(1) by (simp add: find_ok_def)

definition demo_streamed :: "(err + diffSummary) \<times> find_db" where
  "demo_streamed = runDiffStreaming demo_find_env demo_order demo_find_service ''o'' 1000 demo_find_db"

lemma demo_streamed_run: "runDiffStreaming demo_find_env demo_order demo_find_service ''o'' 1000 demo_find_db = (Inr (projr (fst demo_streamed)), snd demo_streamed)"
proof -
  have "\<not> isl (fst demo_streamed)" by code_simp
  from returned [OF this] show ?thesis unfolding demo_streamed_def .
qed

theorem recompute_active_iff_match_witness:
  "(\<exists>f \<in> set (t_findings (snd demo_streamed)). fd_OrganizationID f = ''o'' \<and> fd_CertificateID f = ''c1'' \<and> fd_RuleID f = ''weak_rsa_key'' \<and> fd_Status f \<noteq> StatusResolved) \<and>
   \<not> (\<exists>f \<in> set (t_findings (snd demo_streamed)). fd_OrganizationID f = ''o'' \<and> fd_CertificateID f = ''c1'' \<and> fd_RuleID f = ''certificate_expired'' \<and> fd_Status f \<noteq> StatusResolved)"
proof -
  note t = recompute_active_iff_match [OF demo_streamed_run demo_find_wf demo_find_ok(2,3)]
  have "match_of (fs_rules demo_find_service) 1000 (org_summaries ''o'' demo_find_db) (''c1'', ''weak_rsa_key'') \<noteq> None"
    "match_of (fs_rules demo_find_service) 1000 (org_summaries ''o'' demo_find_db) (''c1'', ''certificate_expired'') = None"
    by code_simp+
  then show ?thesis unfolding t by simp
qed

end
