(* ===== verification/FindingTotal.thy ===== *)
theory FindingTotal imports FindingRecompute begin

text \<open>
  The streaming diff comes to an end and returns: its paging loops have enough fuel, its updates hit
  their rows and its insertions meet no existing key.
\<close>

section \<open>A recompute returns\<close>

lemma reads_ok:
  assumes "no_faults env"
  shows "0 < n \<Longrightarrow> \<exists>page t. ListCertificateBareSummariesForOrgPaged env org c (int n) s = (Inr page, t)"
    "0 < n \<Longrightarrow> \<exists>page t. ListAllFindingsForOrgPaged env org c (int n) s = (Inr page, t)"
  by (auto simp: ListCertificateBareSummariesForOrgPaged_def ListAllFindingsForOrgPaged_def bindE_def guardE_def retE_def
      db_query_ok [OF assms])

text \<open>The certificates, read page by page.\<close>

lemma certs_return:
  assumes ok: "no_faults env" and wf: "find_wf s" and ids: "nonempty_ids s" and fuel: "length (org_summaries org s) < fuel"
  shows "\<exists>res t. page_loop fuel (\<lambda>cursor. ListCertificateBareSummariesForOrgPaged env org cursor (effectiveStreamingPageSize svc)) cs_ID
      (nat (effectiveStreamingPageSize svc)) (\<lambda>page (ms, cnt). retE (evaluatePage rules now page ms, cnt + int (length page))) [] ([], 0) s = (Inr res, t)"
proof -
  let ?n = "nat (effectiveStreamingPageSize svc)" and ?R = "org_summaries org s"
  let ?P = "\<lambda>seen rest (b :: matchMap \<times> int) u. find_wf u \<and> org_summaries org u = ?R \<and> ?R = seen @ rest"
  have n: "0 < ?n" using effective_pos [of svc] by simp
  have "\<exists>b' s'. page_loop fuel (\<lambda>c. ListCertificateBareSummariesForOrgPaged env org c (int ?n)) cs_ID ?n
      (\<lambda>page (ms, cnt). retE (evaluatePage rules now page ms, cnt + int (length page))) [] ([], 0) s = (Inr b', s')"
  proof (rule fcerts.loop_total_update [where P = ?P])
    show "\<exists>page u'. ListCertificateBareSummariesForOrgPaged env org c (int ?n) u = (Inr page, u') \<and> ?P seen rest b u'"
      if "?P seen rest b u" for seen rest b u c
    proof -
      from reads_ok(1) [OF ok n] obtain page u' where r: "ListCertificateBareSummariesForOrgPaged env org c (int ?n) u = (Inr page, u')" by blast
      with that same_find_tables(2,4) [OF leavesD [OF leaves_find_reads(5) r]] show ?thesis by simp
    qed
  qed (use n wf fuel pages_start(1) [OF ids] in \<open>auto simp: retE_def\<close>)
  then show ?thesis by (simp only: effective_pos)
qed

text \<open>One existing row.\<close>

lemma existing_step_returns:
  assumes ok: "no_faults env" and p: "passed org M now s D [] t" and f: "f \<in> set (t_findings s)" "fd_OrganizationID f = org" "row_key f \<notin> D"
    and sup: "\<not> isl (row_result M now f)"
  shows "\<exists>r t'. existing_step env org now f (without D M, c) t = (Inr r, t')"
proof -
  have hit: "f \<in> set (t_findings t)" by (rule passed_row [OF p f])
  have upd: "\<exists>t'. UpdateFinding env g t = (Inr (), t')" if "set_columns g f = g" for g
  proof -
    have "is_finding (fd_OrganizationID g) (fd_ID g) f" using set_columns_keys(1,2) [of g f] by (simp add: that is_finding_def)
    with hit have "\<exists>r \<in> set (t_findings (stepped t)). is_finding (fd_OrganizationID g) (fd_ID g) r" by auto
    then show ?thesis unfolding UpdateFinding_def by (intro exI) (rule exec_hit_ok [OF ok])
  qed
  obtain x op b where r: "row_result M now f = Inr (x, op, b)" using sup by (cases "row_result M now f") auto
  have ap: "\<exists>t'. applyDecision env x op t = (Inr (), t')"
    using row_result_cases [OF r] upd by (auto simp: applyDecision_def retE_def)
  then obtain t' where ap: "applyDecision env x op t = (Inr (), t')" ..
  show ?thesis
  proof (cases "map_of M (row_key f)")
    case None
    with r have "nomatch_next now f (fd_Status f) = Inr (x, op, b)" by (simp add: row_result_def)
    then show ?thesis using f(3) None ap
      by (simp add: existing_step_def without_lookup nomatch_step_def decideNoMatchTransition_def bindE_def liftE_def retE_def)
  next
    case (Some m)
    with r obtain g where "match_next (me_rule m) (me_match m) now f (fd_Status f) = Inr (g, op, b)" "x = Some g"
      by (cases "match_next (me_rule m) (me_match m) now f (fd_Status f)") (auto simp: row_result_def)
    then show ?thesis using f(3) Some ap
      by (simp add: existing_step_def without_lookup match_step_def decideMatchTransition_def bindE_def liftE_def retE_def)
  qed
qed

text \<open>All existing rows, page by page.\<close>

lemma row_fresh:
  assumes "find_wf s" and "org_findings org s = seen @ f # rest"
  shows "f \<in> set (t_findings s)" "fd_OrganizationID f = org" "row_key f \<notin> row_key ` set seen"
proof -
  have "f \<in> set (org_findings org s)" using assms by simp
  then show "f \<in> set (t_findings s)" "fd_OrganizationID f = org" using org_rows(1) [OF assms(1), of org] by simp_all
  show "row_key f \<notin> row_key ` set seen" using org_rows(2) [OF assms(1), of org] assms(2) by auto
qed

definition supported :: "string \<Rightarrow> 'z find_db_scheme \<Rightarrow> bool" where
  "supported org s \<longleftrightarrow> (\<forall>f \<in> set (t_findings s). fd_OrganizationID f = org \<longrightarrow> (\<forall>x. fd_Status f \<noteq> StatusOther x))"

lemma supported_result: "supported org s \<Longrightarrow> f \<in> set (t_findings s) \<Longrightarrow> fd_OrganizationID f = org \<Longrightarrow> \<not> isl (row_result M now f)"
  unfolding supported_def by (cases "fd_Status f") (auto simp: row_result_def split: option.split)

lemma existing_rows_return:
  assumes ok: "no_faults env" and sup: "supported org s" and R: "org_findings org s = seen @ page @ rest" and I: "rows_done org M now s seen acc t"
  shows "\<exists>acc' t'. foldE (existing_step env org now) page acc t = (Inr acc', t') \<and> rows_done org M now s (seen @ page) acc' t'"
proof (rule foldE_total [where I = "\<lambda>ys acc t. rows_done org M now s (seen @ ys) acc t"])
  show "rows_done org M now s (seen @ []) acc t" using I by simp
next
  fix ys f zs acc t
  assume page: "page = ys @ f # zs" and I: "rows_done org M now s (seen @ ys) acc t"
  have R': "org_findings org s = (seen @ ys) @ f # zs @ rest" using R page by simp
  have p: "passed org M now s (row_key ` set (seen @ ys)) [] t" and acc: "acc = (without (row_key ` set (seen @ ys)) M, settled_rows M now (seen @ ys))"
    using I by (simp_all only: rows_done_def)
  have wf: "find_wf s" using p by (simp add: passed_def)
  note f = row_fresh [OF wf R']
  from existing_step_returns [OF ok p f supported_result [OF sup f(1,2)]] acc obtain acc' t'
    where r: "existing_step env org now f acc t = (Inr acc', t')" by blast
  with existing_row_done [OF R' I r] show "\<exists>acc' t'. existing_step env org now f acc t = (Inr acc', t') \<and> rows_done org M now s (seen @ ys @ [f]) acc' t'"
    by auto
qed

lemma findings_return:
  assumes ok: "no_faults env" and sup: "supported org s" and wf: "find_wf s" and ids: "nonempty_ids s" and fuel: "length (org_findings org s) < fuel"
  shows "\<exists>res t. page_loop fuel (\<lambda>cursor. ListAllFindingsForOrgPaged env org cursor (effectiveStreamingPageSize svc)) fd_ID
      (nat (effectiveStreamingPageSize svc))
      (\<lambda>page (acc, cnt). bindE (foldE (existing_step env org now) page acc) (\<lambda>acc'. retE (acc', cnt + int (length page))))
      [] ((M, no_counts), 0) s = (Inr res, t)"
proof -
  let ?R = "org_findings org s" and ?n = "nat (effectiveStreamingPageSize svc)"
  let ?body = "\<lambda>page (acc, cnt). bindE (foldE (existing_step env org now) page acc) (\<lambda>acc'. retE (acc', cnt + int (length page)))"
  let ?P = "\<lambda>seen rest b u. \<exists>orig acc. ?R = orig @ rest \<and> seen = map (advance M now) orig \<and> b = (acc, int (length orig)) \<and>
    rows_done org M now s orig acc u"
  have n: "0 < ?n" using effective_pos [of svc] by simp
  have "\<exists>b' s'. page_loop fuel (\<lambda>c. ListAllFindingsForOrgPaged env org c (int ?n)) fd_ID ?n ?body [] ((M, no_counts), 0) s = (Inr b', s')"
  proof (rule ffinds.loop_total_update [where P = ?P])
    show "find_wf u \<and> org_findings org u = seen @ rest" if "?P seen rest b u" for seen rest b u by (rule findings_rows [OF that])
    show "?P [] (org_findings org s) ((M, no_counts), 0) s" using rows_done_start [OF wf] by auto
    show "ffinds.after org [] s = org_findings org s" by (rule pages_start(2) [OF ids])
    show "\<exists>page u'. ListAllFindingsForOrgPaged env org c (int ?n) u = (Inr page, u') \<and> ?P seen rest b u'" if P: "?P seen rest b u" for seen rest b u c
    proof -
      from reads_ok(2) [OF ok n] obtain page u' where r: "ListAllFindingsForOrgPaged env org c (int ?n) u = (Inr page, u')" by blast
      with P passed_read [OF _ leavesD [OF leaves_find_reads(3) r]] show ?thesis by (auto simp: rows_done_def)
    qed
    show "\<exists>b' u' page'. ?body page b u = (Inr b', u') \<and> ?P (seen @ page') rest b' u' \<and> map fd_ID page' = map fd_ID page"
      if P: "?P seen (page @ rest) b u" for seen page rest b u
    proof -
      from P obtain orig acc where 1: "?R = orig @ page @ rest" "seen = map (advance M now) orig" "b = (acc, int (length orig))"
        and I: "rows_done org M now s orig acc u" by auto
      from existing_rows_return [OF ok sup 1(1) I] obtain acc' u' where r: "foldE (existing_step env org now) page acc u = (Inr acc', u')"
        and I': "rows_done org M now s (orig @ page) acc' u'" by blast
      have "?body page b u = (Inr (acc', int (length (orig @ page))), u')"
        unfolding 1(3) prod.case bindE_step_Inr [where m = "foldE (existing_step env org now) page acc", OF r] by (simp add: retE_def)
      with 1 I' show ?thesis
        by (intro exI [of _ "(acc', int (length (orig @ page)))"] exI [of _ u'] exI [of _ "map (advance M now) page"] conjI
            exI [of _ "orig @ page"] exI [of _ acc']) simp_all
    qed
  qed (use n fuel in simp_all)
  then show ?thesis by (simp only: effective_pos)
qed

text \<open>The identifiers still to be drawn are new to the table and differ from each other.\<close>

definition fresh_ids :: "env \<Rightarrow> 'z find_db_scheme \<Rightarrow> bool" where
  "fresh_ids env s \<longleftrightarrow> inj (idAt env) \<and> (\<forall>i \<ge> w_ids s. \<forall>f \<in> set (t_findings s). fd_ID f \<noteq> idAt env i)"

text \<open>The counter of drawn identifiers only grows.\<close>

lemma ids_grow [keep_intros]:
  "keeps (\<lambda>s. n \<le> w_ids s) (dbcall env)" "keeps (\<lambda>s. n \<le> w_ids s) (db_query env g)" "keeps (\<lambda>s. n \<le> w_ids s) (NewID env)"
  "keeps (\<lambda>s. n \<le> w_ids s) (UpdateFinding env f)" "keeps (\<lambda>s. n \<le> w_ids s) (InsertFinding env f)"
  by (auto simp: keeps_def dbcall_def NewID_def db_query_def UpdateFinding_def InsertFinding_def exec_hit_def bindE_def getE_def guardE_def
      retE_def throwE_def modE_def split: if_splits)

lemma ids_grow_steps [keep_intros]:
  "keeps (\<lambda>s. n \<le> w_ids s) (ListCertificateBareSummariesForOrgPaged env org c pg)"
  "keeps (\<lambda>s. n \<le> w_ids s) (ListAllFindingsForOrgPaged env org c pg)"
  "keeps (\<lambda>s. n \<le> w_ids s) (existing_step env org now f acc)"
proof -
  show "keeps (\<lambda>s. n \<le> w_ids s) (ListCertificateBareSummariesForOrgPaged env org c pg)"
    "keeps (\<lambda>s. n \<le> w_ids s) (ListAllFindingsForOrgPaged env org c pg)"
    unfolding ListCertificateBareSummariesForOrgPaged_def ListAllFindingsForOrgPaged_def by (intro keep_intros)+
  have ap: "keeps (\<lambda>s. n \<le> w_ids s) (applyDecision env x op)" for x op
    unfolding applyDecision_def by (cases op) (auto intro!: keep_intros split: option.split)
  show "keeps (\<lambda>s. n \<le> w_ids s) (existing_step env org now f acc)"
    unfolding existing_step_def match_step_def nomatch_step_def decideMatchTransition_def by (intro keep_intros ap)
qed

lemma ids_grow_loop:
  assumes "\<And>n. keeps (\<lambda>s. n \<le> w_ids s) (page_loop fuel fetch key limit body cur b)"
    and "page_loop fuel fetch key limit body cur b s = (r, t)"
  shows "w_ids s \<le> w_ids t"
  by (rule keepsD [where I = "\<lambda>u. w_ids s \<le> w_ids u", OF assms(1) _ assms(2)]) simp

lemma bind_loop:
  "page_loop fuel fetch key limit body cur b s = (Inr x, t) \<Longrightarrow> bindE (page_loop fuel fetch key limit body cur b) k s = k x t"
  by (simp only: bindE_def prod.case sum.case)

lemma bind_foldE: "foldE f xs b s = (Inr x, t) \<Longrightarrow> bindE (foldE f xs b) k s = k x t"
  by (simp only: bindE_def prod.case sum.case)

lemma new_rows_return:
  assumes ok: "no_faults env" and fresh: "fresh_ids env s" and up: "w_ids s \<le> w_ids t"
    and p: "passed org M now s (row_key ` set (org_findings org s)) [] t" and en: "entries_ok M"
    and d: "distinct ks" and sub: "set ks \<subseteq> fst ` set M - row_key ` set (org_findings org s)"
  shows "\<exists>c' t'. foldE (insert_step env org now (without (row_key ` set (org_findings org s)) M)) ks c t = (Inr c', t')"
proof -
  let ?D = "row_key ` set (org_findings org s)"
  let ?I = "\<lambda>seen (c :: counters) u. \<exists>news. map row_key news = seen \<and> passed org M now s ?D news u \<and> w_ids s \<le> w_ids u \<and>
    (\<forall>g \<in> set news. fd_OrganizationID g = org \<and> (\<exists>i < w_ids u. fd_ID g = idAt env i))"
  have "\<exists>c' t'. foldE (insert_step env org now (without ?D M)) ks c t = (Inr c', t') \<and> ?I ks c' t'"
  proof (rule foldE_total [where I = ?I])
    show "?I [] c t" using p up by simp
  next
    fix seen k rest b u
    assume ks: "ks = seen @ k # rest" and "?I seen b u"
    then obtain news where news: "map row_key news = seen" and p: "passed org M now s ?D news u" and up: "w_ids s \<le> w_ids u"
      and own: "\<And>g. g \<in> set news \<Longrightarrow> fd_OrganizationID g = org \<and> (\<exists>i < w_ids u. fd_ID g = idAt env i)" by auto
    have k: "k \<in> fst ` set M" "k \<notin> ?D" "k \<notin> set seen" using ks sub d by auto
    then obtain m where m: "map_of M k = Some m" by (metis domIff dom_map_of_conv_image_fst not_None_eq)
    let ?g = "new_finding (idAt env (w_ids u)) org (fst k) (me_rule m) (me_match m) now" and ?u = "u\<lparr>w_ids := Suc (w_ids u)\<rparr>"
    have rid: "fr_ID (me_rule m) = snd k" using en map_of_SomeD [OF m] by (auto simp: entries_ok_def)
    have wf: "find_wf s" using p by (simp add: passed_def)
    have new: "fd_ID r \<noteq> fd_ID ?g \<and> finding_key r \<noteq> finding_key ?g" if r: "r \<in> set (t_findings u)" for r
    proof -
      from r obtain r0 where "r \<in> set news \<or> r0 \<in> set (t_findings s) \<and> fd_ID r = fd_ID r0 \<and> finding_key r = finding_key r0"
        unfolding passed_findings [OF p] by fastforce
      then show ?thesis
      proof
        assume g: "r \<in> set news"
        then have "row_key r \<noteq> k" using news k(3) by (metis image_eqI set_map)
        moreover obtain i where "i < w_ids u" "fd_ID r = idAt env i" using own [OF g] by blast
        ultimately show ?thesis using fresh rid
          by (auto simp: fresh_ids_def new_finding_def finding_key_def row_key_def prod_eq_iff dest: injD)
      next
        assume r0: "r0 \<in> set (t_findings s) \<and> fd_ID r = fd_ID r0 \<and> finding_key r = finding_key r0"
        then have "fd_ID r0 \<noteq> idAt env (w_ids u)" using fresh up by (auto simp: fresh_ids_def)
        moreover have "finding_key r0 \<noteq> finding_key ?g"
        proof
          assume eq: "finding_key r0 = finding_key ?g"
          then have "fd_OrganizationID r0 = org" "row_key r0 = k" using rid by (auto simp: finding_key_def new_finding_def row_key_def prod_eq_iff)
          with r0 org_row [OF wf] k(2) show False by (metis imageI)
        qed
        ultimately show ?thesis using r0 by (simp add: new_finding_def)
      qed
    qed
    then have hit: "\<forall>r \<in> set (t_findings (stepped ?u)). fd_ID r \<noteq> fd_ID ?g \<and> finding_key r \<noteq> finding_key ?g" by simp
    let ?t = "(stepped ?u)\<lparr>t_findings := t_findings (stepped ?u) @ [stored ?g]\<rparr>"
    have ins: "InsertFinding env ?g ?u = (Inr (), ?t)" unfolding InsertFinding_def by (rule exec_hit_ok [OF ok]) (rule hit)
    have run: "match_step env org now k m None b u = (Inr (bump counterOpened b), ?t)"
      using ins by (simp add: match_step_def decideMatchTransition_def applyDecision_def bindE_def NewID_def retE_def)
    have st: "insert_step env org now (without ?D M) k b u = (Inr (bump counterOpened b), ?t)"
      unfolding insert_step_def without_lookup using k(2) m run by simp
    from match_step_new(1) [OF p en m run] obtain g where g: "row_key g = k" "passed org M now s ?D (news @ [g]) ?t" by blast
    have "t_findings ?t = t_findings u @ [?g]" by (simp add: stored_def new_finding_def)
    with passed_findings [OF g(2)] passed_findings [OF p] have "g = ?g" by simp
    then have "fd_OrganizationID g = org \<and> (\<exists>i < w_ids ?t. fd_ID g = idAt env i)"
      by (auto simp: new_finding_def stepped_def)
    moreover have "fd_OrganizationID r = org \<and> (\<exists>i < w_ids ?t. fd_ID r = idAt env i)" if "r \<in> set news" for r
    proof -
      from own [OF that] obtain i where "fd_OrganizationID r = org" "i < w_ids u" "fd_ID r = idAt env i" by blast
      then show ?thesis by (intro conjI exI [of _ i]) (simp_all add: stepped_def)
    qed
    ultimately have "\<forall>r \<in> set (news @ [g]). fd_OrganizationID r = org \<and> (\<exists>i < w_ids ?t. fd_ID r = idAt env i)" by simp
    moreover have "w_ids s \<le> w_ids ?t" using up by (simp add: stepped_def)
    ultimately have "?I (seen @ [k]) (bump counterOpened b) ?t"
      using news g by (intro exI [of _ "news @ [g]"]) simp
    with st show "\<exists>b' u'. insert_step env org now (without ?D M) k b u = (Inr b', u') \<and> ?I (seen @ [k]) b' u'" by blast
  qed
  then show ?thesis by blast
qed

text \<open>
  C24: A recompute comes to an end and succeeds. When no database call fails, the identifiers drawn are
  new, and every stored status is one the program knows, the streaming diff returns a summary: the fuel
  of its two paging loops is enough for any page size, every update hits its row and every insertion
  respects the unique key on certificate and rule.
\<close>

theorem recompute_returns:
  assumes "no_faults env" and "find_wf s" and "nonempty_ids s" and "map_order ord" and "fresh_ids env s" and "supported org s"
  shows "\<exists>sm t. runDiffStreaming env ord svc org now s = (Inr sm, t)"
proof -
  note ok = assms(1) and wf = assms(2) and ids = assms(3)
  let ?M = "org_matches svc org now s" and ?R = "org_findings org s" and ?pg = "effectiveStreamingPageSize svc"
  let ?D = "row_key ` set ?R"
  have "length (org_summaries org s) < Suc (length (t_certs s))" by (simp add: org_summaries_def le_imp_less_Suc)
  from certs_return [OF ok wf ids this] obtain res s1 where
    1: "page_loop (Suc (length (t_certs s))) (\<lambda>cursor. ListCertificateBareSummariesForOrgPaged env org cursor ?pg) cs_ID (nat ?pg)
      (\<lambda>page (ms, cnt). retE (evaluatePage (fs_rules svc) now page ms, cnt + int (length page))) [] ([], 0) s = (Inr res, s1)" by blast
  note c1 = certs_phase [OF 1 wf ids]
  have res: "res = (?M, int (length (org_summaries org s)))" using c1(1) by (simp add: org_matches_def)
  note same = same_find_tables [OF c1(2)]
  have sup1: "supported org s1" using assms(6) arg_cong [OF c1(2), of t_findings] by (simp add: supported_def)
  have "length (org_findings org s1) < Suc (length (t_findings s))" unfolding same(1) by (simp add: org_findings_def le_imp_less_Suc)
  moreover have wf1: "find_wf s1" and ids1: "nonempty_ids s1" using wf ids by (simp_all add: same)
  ultimately obtain res2 s2 where
    2: "page_loop (Suc (length (t_findings s))) (\<lambda>cursor. ListAllFindingsForOrgPaged env org cursor ?pg) fd_ID (nat ?pg)
      (\<lambda>page (acc, cnt). bindE (foldE (existing_step env org now) page acc) (\<lambda>acc'. retE (acc', cnt + int (length page))))
      [] ((?M, no_counts), 0) s1 = (Inr res2, s2)" using findings_return [OF ok sup1 wf1 ids1] by blast
  from findings_phase [OF 2 wf1 ids1] obtain acc where res2: "res2 = (acc, int (length ?R))" and rd: "rows_done org ?M now s1 ?R acc s2"
    unfolding same by blast
  then have acc: "acc = (without ?D ?M, settled_rows ?M now ?R)" and p1: "passed org ?M now s1 ?D [] s2" by (simp_all add: rows_done_def)
  have p: "passed org ?M now s ?D [] s2" by (rule passed_base [OF p1 c1(2)])
  have "w_ids s \<le> w_ids s1" by (rule ids_grow_loop [OF _ 1]) (intro keep_intros)+
  moreover have "w_ids s1 \<le> w_ids s2" by (rule ids_grow_loop [OF _ 2]) (intro keep_intros)+
  ultimately have grow: "w_ids s \<le> w_ids s2" by simp
  have ord: "mset (ord (map fst (without ?D ?M))) = mset (map fst (without ?D ?M))" using assms(4) unfolding map_order_def by (rule spec)
  have en: "entries_ok ?M" unfolding org_matches_def by (rule entries_ok_matches)
  have "distinct (map fst (without ?D ?M))" using en unfolding without_keys by (simp add: entries_ok_def)
  then have d: "distinct (ord (map fst (without ?D ?M)))" using mset_eq_imp_distinct_iff [OF ord] by blast
  have sub: "set (ord (map fst (without ?D ?M))) \<subseteq> fst ` set ?M - ?D" unfolding mset_eq_setD [OF ord] unfolding without_keys by auto
  from new_rows_return [OF ok assms(5) grow p en d sub] obtain c' t where
    3: "foldE (insert_step env org now (without ?D ?M)) (ord (map fst (without ?D ?M))) (settled_rows ?M now ?R) s2 = (Inr c', t)" by blast
  have "\<exists>sm. runDiffStreaming env ord svc org now s = (Inr sm, t)"
    unfolding runDiffStreaming_def Let_def
    by (simp only: bindE_getE prod.case bind_loop [OF 1 [unfolded res]] bind_loop [OF 2 [unfolded res2 acc]] bind_foldE [OF 3]) (simp add: retE_def)
  then show ?thesis by blast
qed

lemma demo_fresh: "fresh_ids demo_find_env demo_find_db" "supported ''o'' demo_find_db"
proof -
  have "inj (\<lambda>n. replicate (Suc n) (CHR ''i''))" by (intro injI) (metis length_replicate nat.inject)
  moreover have "replicate (Suc n) (CHR ''i'') \<noteq> ''f1'' \<and> replicate (Suc n) (CHR ''i'') \<noteq> ''f2''" for n by simp
  ultimately show "fresh_ids demo_find_env demo_find_db"
    by (simp add: fresh_ids_def demo_find_env_def demo_find_db_def demo_finding_def)
  show "supported ''o'' demo_find_db" by (simp add: supported_def demo_find_db_def demo_finding_def)
qed

theorem recompute_returns_witness:
  "\<exists>sm t. runDiffStreaming demo_find_env demo_order demo_find_service ''o'' 1000 demo_find_db = (Inr sm, t)"
  by (rule recompute_returns [OF demo_find_ok(4) demo_find_wf demo_find_ok(2,3) demo_fresh])

end
