(* ===== verification/FindingLoadAll.thy ===== *)
theory FindingLoadAll imports FindingRecompute begin

text \<open>
  The load-all diff refines the same pass as the streaming one, so the two agree; and the shipped rules
  meet the condition under which they do.
\<close>

section \<open>The load-all diff\<close>

text \<open>The load-all reader also counts observations; a rule that ignores them sees the same certificate.\<close>

definition ignores_counts :: "Rule list \<Rightarrow> bool" where
  "ignores_counts rules \<longleftrightarrow>
     (\<forall>r \<in> set rules. \<forall>c now n m. fr_Evaluate r (c\<lparr>cs_ObservationCount := n, cs_ActiveObservationCount := m\<rparr>) now = fr_Evaluate r c now)"

lemma evaluateRulesForCert_counts:
  assumes "ignores_counts rules"
  shows "evaluateRulesForCert rules (counted_summary s c) now ms = evaluateRulesForCert rules (bare_summary c) now ms"
  using assms
proof (induction rules arbitrary: ms)
  case (Cons r rules)
  have "fr_Evaluate r (counted_summary s c) now = fr_Evaluate r (cr_Summary c) now"
    "fr_Evaluate r (bare_summary c) now = fr_Evaluate r (cr_Summary c) now"
    using Cons.prems by (simp_all add: ignores_counts_def counted_summary_def bare_summary_def Let_def)
  moreover have "cs_ID (counted_summary s c) = cs_ID (bare_summary c)" by (simp add: counted_summary_def bare_summary_def Let_def)
  moreover have "ignores_counts rules" using Cons.prems by (simp add: ignores_counts_def)
  ultimately show ?case by (simp add: Cons.IH split: option.split)
qed simp

lemma evaluatePage_counts:
  "ignores_counts rules \<Longrightarrow> evaluatePage rules now (map (counted_summary s) cs) ms = evaluatePage rules now (map bare_summary cs) ms"
  unfolding evaluatePage_def by (induction cs arbitrary: ms) (simp_all add: evaluateRulesForCert_counts)

text \<open>The index of the existing rows.\<close>

lemma update_absent: "k \<notin> fst ` set al \<Longrightarrow> AList.update k v al = al @ [(k, v)]"
  by (induction al) auto

lemma index_rows:
  "distinct (map row_key R) \<Longrightarrow> fold (\<lambda>f m. AList.update (row_key f) f m) R [] = map (\<lambda>f. (row_key f, f)) R"
proof (induction R rule: rev_induct)
  case (snoc f R)
  then have "row_key f \<notin> fst ` set (map (\<lambda>f. (row_key f, f)) R)" by auto
  with snoc show ?case by (simp add: update_absent)
qed simp

lemma index_lookup:
  assumes "distinct (map row_key R)"
  shows "map_of (map (\<lambda>f. (row_key f, f)) R) k = Some f \<longleftrightarrow> f \<in> set R \<and> row_key f = k"
    "map_of (map (\<lambda>f. (row_key f, f)) R) k = None \<longleftrightarrow> k \<notin> row_key ` set R"
proof -
  have keys: "map fst (map (\<lambda>f. (row_key f, f)) R) = map row_key R" by simp
  have "distinct (map fst (map (\<lambda>f. (row_key f, f)) R))" unfolding keys by (rule assms)
  from map_of_eq_Some_iff [OF this] show "map_of (map (\<lambda>f. (row_key f, f)) R) k = Some f \<longleftrightarrow> f \<in> set R \<and> row_key f = k" by auto
  show "map_of (map (\<lambda>f. (row_key f, f)) R) k = None \<longleftrightarrow> k \<notin> row_key ` set R" by (auto simp: map_of_eq_None_iff image_iff)
qed

lemma filter_insert_key:
  "distinct (map g xs) \<Longrightarrow> x \<in> set xs \<Longrightarrow> g x \<notin> S \<Longrightarrow>
     mset (filter (\<lambda>y. g y \<in> insert (g x) S) xs) = add_mset x (mset (filter (\<lambda>y. g y \<in> S) xs))"
proof (induction xs)
  case (Cons y ys)
  show ?case
  proof (cases "x = y")
    case True
    with Cons.prems have "g x \<notin> g ` set ys" by simp
    then have "filter (\<lambda>z. g z \<in> insert (g x) S) ys = filter (\<lambda>z. g z \<in> S) ys"
      by (intro filter_cong refl) (metis imageI insert_iff)
    with True Cons.prems show ?thesis by simp
  next
    case False
    with Cons.prems have "x \<in> set ys" "g y \<noteq> g x" by auto
    with Cons show ?thesis by simp
  qed
qed simp

text \<open>Where the load-all diff stands when the rows of \<open>D\<close> were handled.\<close>

definition handled ::
  "string \<Rightarrow> matchMap \<Rightarrow> Time \<Rightarrow> 'z find_db_scheme \<Rightarrow> matchKey set \<Rightarrow> Finding list \<Rightarrow> counters \<Rightarrow> 'z find_db_scheme \<Rightarrow> bool" where
  "handled org M now s D news c t \<longleftrightarrow>
     passed org M now s D news t \<and>
     c = opened (length news) (settled_rows M now (filter (\<lambda>f. row_key f \<in> D) (org_findings org s))) \<and>
     (\<forall>f \<in> set (org_findings org s). row_key f \<in> D \<longrightarrow> \<not> isl (row_result M now f))"

lemma bump_opened: "bump b (opened n c) = opened n (bump b c)"
  by (auto simp: bump_def opened_def)

lemma handled_row:
  assumes h: "handled org M now s D news c t" and f: "f \<in> set (org_findings org s)" "row_key f \<notin> D"
    and p: "passed org M now s (insert (row_key f) D) news t'" and c: "c' = bump (bucket_of M now f) c" and ok: "\<not> isl (row_result M now f)"
  shows "handled org M now s (insert (row_key f) D) news c' t'"
proof -
  have wf: "find_wf s" using p by (simp add: passed_def)
  have "settled_rows M now (filter (\<lambda>g. row_key g \<in> insert (row_key f) D) (org_findings org s)) =
      bump (bucket_of M now f) (settled_rows M now (filter (\<lambda>g. row_key g \<in> D) (org_findings org s)))"
    unfolding settled_rows_def filter_insert_key [OF org_rows(2) [OF wf] f] by simp
  moreover have "\<not> isl (row_result M now g)" if "g \<in> set (org_findings org s)" "row_key g \<in> insert (row_key f) D" for g
  proof (cases "g = f")
    case False
    then have "row_key g \<noteq> row_key f"
      using org_rows(2) [OF wf, of org] that(1) f(1) by (auto simp: distinct_map inj_on_def)
    with that h show ?thesis by (auto simp: handled_def)
  qed (use ok in simp)
  ultimately show ?thesis using p h c by (auto simp: handled_def bump_opened)
qed

lemma handled_new:
  assumes h: "handled org M now s D news c t" and ok: "entries_ok M" and m: "map_of M k = Some m"
    and run: "match_step env org now k m None c t = (Inr c', t')"
  shows "\<exists>g. row_key g = k \<and> handled org M now s D (news @ [g]) c' t'"
proof -
  have p: "passed org M now s D news t" using h by (simp only: handled_def)
  from match_step_new(1) [OF p ok m run] obtain g where "row_key g = k" "passed org M now s D (news @ [g]) t'" by blast
  then show ?thesis using h match_step_new(2) [OF p ok m run] by (intro exI [of _ g]) (auto simp: handled_def opened_bump)
qed

text \<open>The first loop, over the matches.\<close>

lemma matched_rows:
  assumes wf: "find_wf s" and ok: "entries_ok M" and d: "distinct ks" and sub: "set ks \<subseteq> fst ` set M"
    and E: "E = map (\<lambda>f. (row_key f, f)) (org_findings org s)" and c: "c = settled_rows M now []" and t: "db_of t = db_of s"
    and run: "foldE (\<lambda>k counters. case map_of M k of None \<Rightarrow> retE counters | Some m \<Rightarrow> match_step env org now k m (map_of E k) counters) ks c t = (Inr c', t')"
  shows "\<exists>news. map row_key news = filter (\<lambda>k. k \<notin> row_key ` set (org_findings org s)) ks \<and>
    handled org M now s (row_key ` set (org_findings org s) \<inter> set ks) news c' t'"
proof -
  let ?R = "org_findings org s"
  let ?K = "row_key ` set ?R"
  let ?I = "\<lambda>seen c t. \<exists>news. map row_key news = filter (\<lambda>k. k \<notin> ?K) seen \<and> handled org M now s (?K \<inter> set seen) news c t"
  note look = index_lookup [OF org_rows(2) [OF wf, of org], folded E]
  show ?thesis
  proof (rule foldE_rule [where I = ?I, OF run])
    have "passed org M now s {} [] t" by (rule passed_read [OF passed_start [OF wf] t])
    then show "?I [] c t" by (simp add: handled_def c opened_def)
  next
    fix seen k rest b u b' u'
    assume ks: "ks = seen @ k # rest" and I: "?I seen b u"
      and r: "(case map_of M k of None \<Rightarrow> retE b | Some m \<Rightarrow> match_step env org now k m (map_of E k) b) u = (Inr b', u')"
    from I obtain news where news: "map row_key news = filter (\<lambda>k. k \<notin> ?K) seen" and h: "handled org M now s (?K \<inter> set seen) news b u" by blast
    have p: "passed org M now s (?K \<inter> set seen) news u" using h by (simp only: handled_def)
    have k: "k \<notin> set seen" using d ks by simp
    have "k \<in> fst ` set M" using sub ks by auto
    then obtain m where m: "map_of M k = Some m" by (metis domIff dom_map_of_conv_image_fst not_None_eq)
    show "?I (seen @ [k]) b' u'"
    proof (cases "map_of E k")
      case None
      with r m have st: "match_step env org now k m None b u = (Inr b', u')" by simp
      have "k \<notin> ?K" using None look(2) by simp
      with handled_new [OF h ok m st] news show ?thesis by fastforce
    next
      case (Some f)
      then have f: "f \<in> set ?R" and key: "row_key f = k" using look(1) by blast+
      have fresh: "row_key f \<notin> ?K \<inter> set seen" using k key by simp
      have f': "f \<in> set (t_findings s)" "fd_OrganizationID f = org" using f org_rows(1) [OF wf, of org] by simp_all
      from r m Some have st: "match_step env org now k m (Some f) b u = (Inr b', u')" by simp
      note e = match_step_existing [OF p f' fresh m [folded key] st]
      have "\<not> isl (row_result M now f)" using e(3) by simp
      note h' = handled_row [OF h f fresh e(1,2) this]
      have k: "k \<in> ?K" using f key by blast
      then have "insert (row_key f) (?K \<inter> set seen) = ?K \<inter> set (seen @ [k])" using key by auto
      with h' k news show ?thesis by (intro exI [of _ news]) simp
    qed
  qed
qed

text \<open>The second loop, over the existing rows without a match.\<close>

lemma unmatched_rows:
  assumes d: "distinct ks" and sub: "set ks \<subseteq> row_key ` set (org_findings org s)"
    and E: "E = map (\<lambda>f. (row_key f, f)) (org_findings org s)"
    and h: "handled org M now s D news c t" and D: "\<And>k. k \<in> D \<Longrightarrow> map_of M k \<noteq> None"
    and run: "foldE (\<lambda>k counters. case map_of E k of None \<Rightarrow> retE counters
        | Some f \<Rightarrow> if map_of M k \<noteq> None then retE counters else nomatch_step env now f counters) ks c t = (Inr c', t')"
  shows "handled org M now s (D \<union> {k \<in> set ks. map_of M k = None}) news c' t'"
proof -
  let ?R = "org_findings org s"
  let ?U = "\<lambda>seen. D \<union> {k \<in> set seen. map_of M k = None}"
  have wf: "find_wf s" using h by (simp add: handled_def passed_def)
  note look = index_lookup [OF org_rows(2) [OF wf, of org], folded E]
  show ?thesis
  proof (rule foldE_rule [where I = "\<lambda>seen c t. handled org M now s (?U seen) news c t", OF run])
    show "handled org M now s (?U []) news c t" using h by simp
  next
    fix seen k rest b u b' u'
    assume ks: "ks = seen @ k # rest" and h: "handled org M now s (?U seen) news b u"
      and r: "(case map_of E k of None \<Rightarrow> retE b | Some f \<Rightarrow> if map_of M k \<noteq> None then retE b else nomatch_step env now f b) u = (Inr b', u')"
    have p: "passed org M now s (?U seen) news u" using h by (simp only: handled_def)
    have "k \<in> row_key ` set ?R" using sub ks by auto
    then obtain f where e: "map_of E k = Some f" using look(2) by (metis not_None_eq)
    then have f: "f \<in> set ?R" and key: "row_key f = k" using look(1) by blast+
    have f': "f \<in> set (t_findings s)" "fd_OrganizationID f = org" using f org_rows(1) [OF wf, of org] by simp_all
    show "handled org M now s (?U (seen @ [k])) news b' u'"
    proof (cases "map_of M k")
      case None
      have "k \<notin> D" using D None by blast
      then have fresh: "row_key f \<notin> ?U seen" using d ks key by auto
      from r e None have st: "nomatch_step env now f b u = (Inr b', u')" by simp
      note e = nomatch_step_existing [OF p f' fresh None [folded key] st]
      have "\<not> isl (row_result M now f)" using e(3) by simp
      moreover have "insert (row_key f) (?U seen) = ?U (seen @ [k])" using key None by auto
      ultimately show ?thesis using handled_row [OF h f fresh e(1,2)] by simp
    next
      case (Some m)
      then have "?U (seen @ [k]) = ?U seen" by auto
      with r e Some h show ?thesis by (simp add: retE_Inr)
    qed
  qed
qed

definition org_counted_matches :: "FindingService \<Rightarrow> string \<Rightarrow> Time \<Rightarrow> 'z find_db_scheme \<Rightarrow> matchMap" where
  "org_counted_matches svc org now s = evaluatePage (fs_rules svc) now
     (map (counted_summary s) (sort_key (\<lambda>c. cs_ID (cr_Summary c)) (filter (\<lambda>c. cr_OrganizationID c = org) (t_certs s)))) []"

lemma counted_matches_blind: "ignores_counts (fs_rules svc) \<Longrightarrow> org_counted_matches svc org now s = org_matches svc org now s"
  by (simp add: org_counted_matches_def org_matches_def org_summaries_def evaluatePage_counts)

lemma counted_stepped: "counted_summary (stepped s) = counted_summary s"
  by (simp add: counted_summary_def fun_eq_iff)

lemma load_all_settles:
  assumes run: "runDiffLoadAll env ord svc org now s = (Inr sm, t)"
    and wf: "find_wf s" and ord: "map_order ord"
  shows "\<exists>news. diff_settled org (org_counted_matches svc org now s) now s sm news t"
proof -
  let ?M = "org_counted_matches svc org now s" and ?R = "org_findings org s"
  let ?K = "row_key ` set ?R" and ?E = "map (\<lambda>f. (row_key f, f)) (org_findings org s)"
  let ?rows = "sort_key (\<lambda>c. cs_ID (cr_Summary c)) (filter (\<lambda>c. cr_OrganizationID c = org) (t_certs s))"
  let ?first = "\<lambda>M E k counters. case map_of M k of None \<Rightarrow> retE counters | Some m \<Rightarrow> match_step env org now k m (map_of E k) counters"
  let ?second = "\<lambda>M E k counters. case map_of E k of None \<Rightarrow> retE counters
              | Some f \<Rightarrow> if map_of M k \<noteq> None then retE counters else nomatch_step env now f counters"
  from run obtain certs s1 fs s2 c1 s3 c2 s4 where
    1: "ListAllCertificateSummariesForOrg env org s = (Inr certs, s1)" and 2: "ListAllForOrg env org s1 = (Inr fs, s2)" and
    3: "foldE (?first (evaluatePage (fs_rules svc) now certs []) (fold (\<lambda>f m. AList.update (row_key f) f m) fs []))
        (ord (map fst (evaluatePage (fs_rules svc) now certs []))) no_counts s2 = (Inr c1, s3)" and
    4: "foldE (?second (evaluatePage (fs_rules svc) now certs []) (fold (\<lambda>f m. AList.update (row_key f) f m) fs []))
        (ord (map fst (fold (\<lambda>f m. AList.update (row_key f) f m) fs []))) c1 s3 = (Inr c2, s4)" and
    sm: "sm = \<lparr>ds_evaluatedCertificates = int (length certs), ds_loadedCertificates = int (length certs),
           ds_loadedFindings = int (length fs), ds_counters = c2\<rparr>" and t: "t = s4"
    unfolding runDiffLoadAll_def Let_def bindE_Inr retE_Inr by (elim exE conjE) (rule that)
  from 1 have certs: "certs = map (counted_summary (stepped s)) ?rows" and s1: "s1 = stepped s"
    by (auto simp: ListAllCertificateSummariesForOrg_def run_simps)
  from 2 have fs: "fs = ?R" and s2: "db_of s2 = db_of s"
    using same_find_tables(1) [of s1 s] by (auto simp: ListAllForOrg_def run_simps s1) (simp add: org_findings_def)
  have M: "evaluatePage (fs_rules svc) now certs [] = ?M"
    unfolding certs by (simp add: org_counted_matches_def counted_stepped)
  have E: "fold (\<lambda>f m. AList.update (row_key f) f m) fs [] = ?E" unfolding fs by (rule index_rows [OF org_rows(2) [OF wf]])
  have ok: "entries_ok ?M" unfolding org_counted_matches_def by (rule entries_ok_matches)
  have ord': "mset (ord ks) = mset ks" for ks using ord unfolding map_order_def by (rule spec)
  have perm: "set (ord ks) = set ks" "distinct (ord ks) = distinct ks" for ks
    using mset_eq_setD [OF ord'] mset_eq_imp_distinct_iff [OF ord'] by blast+
  have keysE: "map fst ?E = map row_key ?R" by simp
  have dM: "distinct (ord (map fst ?M))" using ok unfolding perm by (simp only: entries_ok_def)
  have dE: "distinct (ord (map fst ?E))" unfolding perm keysE by (rule org_rows(2) [OF wf])
  have zero: "no_counts = settled_rows ?M now []" by (simp add: settled_rows_def counts_empty)
  have sub: "set (ord (map fst ?M)) \<subseteq> fst ` set ?M" "set (ord (map fst ?E)) \<subseteq> ?K" unfolding perm keysE by simp_all
  from matched_rows [OF wf ok dM sub(1) refl zero s2 3 [unfolded M E]] obtain news where
    news: "map row_key news = filter (\<lambda>k. k \<notin> ?K) (ord (map fst ?M))" and h1: "handled org ?M now s (?K \<inter> set (ord (map fst ?M))) news c1 s3" by blast
  have matched: "map_of ?M k \<noteq> None" if "k \<in> ?K \<inter> set (ord (map fst ?M))" for k
    using that unfolding perm by (auto simp: map_of_eq_None_iff)
  have "?K \<inter> set (ord (map fst ?M)) \<union> {k \<in> set (ord (map fst ?E)). map_of ?M k = None} = ?K"
    unfolding perm keysE by (auto simp: map_of_eq_None_iff)
  with unmatched_rows [OF dE sub(2) refl h1 matched 4 [unfolded M E]] have h: "handled org ?M now s ?K news c2 t" by (simp add: t)
  have all: "filter (\<lambda>f. row_key f \<in> ?K) ?R = ?R" by (intro filter_True) simp
  have "mset (map row_key news) = mset (map fst (without ?K ?M))"
    unfolding news without_keys mset_filter ord' by (rule refl)
  with h show ?thesis
    by (intro exI [of _ news] settledI) (auto simp: handled_def all sm fs certs org_summaries_def)
qed

lemma DefaultRules_ignore_counts: "ignores_counts DefaultRules"
  by (simp add: ignores_counts_def DefaultRules_def ruleCertificateExpired_def ruleCertificateExpiringSoon_def ruleWeakSignatureAlgorithm_def
      ruleWeakRSAKey_def ruleSelfSignedLeaf_def ruleLongLivedCertificate_def evaluateExpired_def evaluateExpiringSoon_def
      evaluateWeakSignature_def evaluateWeakRSA_def evaluateSelfSignedLeaf_def evaluateLongLived_def Let_def)

text \<open>A new row without its random identifier.\<close>

definition anonymous :: "Finding \<Rightarrow> Finding" where
  "anonymous f = f\<lparr>fd_ID := []\<rparr>"

lemma settled_anonymous:
  assumes st: "diff_settled org M now s sm news t"
  shows "mset (map anonymous news) =
    image_mset (\<lambda>k. new_finding [] org (fst k) (me_rule (the (map_of M k))) (me_match (the (map_of M k))) now)
      (mset (map fst (without (row_key ` set (org_findings org s)) M)))"
proof -
  let ?new = "\<lambda>k. new_finding [] org (fst k) (me_rule (the (map_of M k))) (me_match (the (map_of M k))) now"
  have "anonymous g = ?new (row_key g)" if "g \<in> set news" for g
  proof -
    from settled_findings(4) [OF st that] obtain m where m: "map_of M (row_key g) = Some m"
      and g: "g = new_finding (fd_ID g) org (fst (row_key g)) (me_rule m) (me_match m) now"
      by (elim exE conjE) (rule that)
    have "anonymous (new_finding i org c r e now) = new_finding [] org c r e now" for i c r e
      by (simp add: anonymous_def new_finding_def)
    then have "anonymous g = new_finding [] org (fst (row_key g)) (me_rule m) (me_match m) now" using g by metis
    with m show ?thesis by simp
  qed
  then have "map anonymous news = map ?new (map row_key news)" by simp
  then have "mset (map anonymous news) = image_mset ?new (mset (map row_key news))" by (metis mset_map)
  also have "mset (map row_key news) = mset (map fst (without (row_key ` set (org_findings org s)) M))"
    using st by (simp add: diff_settled_def Let_def)
  finally show ?thesis .
qed

text \<open>
  C23: The streaming diff that production runs and the load-all diff it replaced agree. Started on the
  same tables with rules that ignore the observation counts only the load-all reader computes, as the
  shipped rules do, two successful runs report the same counters, leave every existing finding in the
  same state and insert the same new findings, up to the random identifiers and the order of insertion,
  and change nothing else.
\<close>

theorem streaming_equals_load_all:
  assumes "runDiffStreaming env ord svc org now s = (Inr sm, t)" and "runDiffLoadAll env' ord' svc org now s = (Inr sm', t')"
    and "find_wf s" and "nonempty_ids s" and "map_order ord" and "map_order ord'" and "ignores_counts (fs_rules svc)"
  shows "sm = sm' \<and> (\<exists>kept news news'. t_findings t = kept @ news \<and> t_findings t' = kept @ news' \<and>
      length kept = length (t_findings s) \<and> mset (map anonymous news) = mset (map anonymous news')) \<and>
    db_of t\<lparr>t_findings := []\<rparr> = db_of t'\<lparr>t_findings := []\<rparr>"
proof -
  let ?M = "org_matches svc org now s"
  let ?kept = "map (\<lambda>f. if fd_OrganizationID f = org then advance ?M now f else f) (t_findings s)"
  from streaming_settles [OF assms(1,3,4,5)] obtain news where st: "diff_settled org ?M now s sm news t" by blast
  from load_all_settles [OF assms(2,3,6)] counted_matches_blind [OF assms(7)] obtain news' where st': "diff_settled org ?M now s sm' news' t'" by metis
  have an: "mset (map anonymous news) = mset (map anonymous news')"
    unfolding settled_anonymous [OF st] settled_anonymous [OF st'] by (rule refl)
  then have "length news = length news'" using mset_eq_length [OF an] by simp
  with st st' have "sm = sm'" by (simp add: diff_settled_def Let_def)
  moreover have "db_of t\<lparr>t_findings := []\<rparr> = db_of t'\<lparr>t_findings := []\<rparr>"
    using arg_cong [OF settled_findings(2) [OF st], of "\<lambda>u. u\<lparr>t_findings := []\<rparr>"] arg_cong [OF settled_findings(2) [OF st'], of "\<lambda>u. u\<lparr>t_findings := []\<rparr>"]
    by simp
  ultimately show ?thesis
    using an settled_findings(1) [OF st] settled_findings(1) [OF st']
    by (intro conjI exI [of _ ?kept] exI [of _ news] exI [of _ news']) simp_all
qed

theorem streaming_equals_load_all_witness:
  "projr (fst demo_streamed) = projr (fst (runDiffLoadAll demo_find_env id demo_find_service ''o'' 1000 demo_find_db))"
proof -
  let ?r = "runDiffLoadAll demo_find_env id demo_find_service ''o'' 1000 demo_find_db"
  have "\<not> isl (fst ?r)" by code_simp
  note run = returned [OF this]
  have "map_order id" by (simp add: map_order_def)
  moreover have "ignores_counts (fs_rules demo_find_service)" using DefaultRules_ignore_counts by (simp add: demo_find_service_def)
  ultimately show ?thesis
    using streaming_equals_load_all [OF demo_streamed_run run demo_find_wf demo_find_ok(2,3)] by blast
qed

end
