(* ===== verification/Base64.thy ===== *)
theory Base64 imports GoTime begin

text \<open>
  \<open>base64.RawURLEncoding\<close> of the Go standard library: the encoder, the decoder with its errors, and
  their round trip.
\<close>

section \<open>The encoding\<close>

definition b64_char :: "int \<Rightarrow> char" where
  "b64_char n = char_of
     (if n < 26 then 65 + n else if n < 52 then 71 + n else if n < 62 then n - 4 else if n = 62 then 45 else 95)"

definition b64_value :: "char \<Rightarrow> int option" where
  "b64_value ch =
     (let c = of_char ch :: int in
      if 65 \<le> c \<and> c \<le> 90 then Some (c - 65)
      else if 97 \<le> c \<and> c \<le> 122 then Some (c - 71)
      else if 48 \<le> c \<and> c \<le> 57 then Some (c + 4)
      else if c = 45 then Some 62
      else if c = 95 then Some 63
      else None)"

fun RawURLEncode :: "string \<Rightarrow> string" where
  "RawURLEncode [] = []"
| "RawURLEncode [a] = (let x = of_char a in [b64_char (x div 4), b64_char (x mod 4 * 16)])"
| "RawURLEncode [a, b] = (let x = of_char a; y = of_char b in
     [b64_char (x div 4), b64_char (x mod 4 * 16 + y div 16), b64_char (y mod 16 * 4)])"
| "RawURLEncode (a # b # c # r) = (let x = of_char a; y = of_char b; z = of_char c in
     b64_char (x div 4) # b64_char (x mod 4 * 16 + y div 16) # b64_char (y mod 16 * 4 + z div 64) # b64_char (z mod 64) # RawURLEncode r)"

text \<open>Without padding, a last group of one character is corrupt; the spare bits of a short group are ignored.\<close>

fun b64_groups :: "int list \<Rightarrow> string option" where
  "b64_groups [] = Some []"
| "b64_groups [p] = None"
| "b64_groups [p, q] = Some [char_of (p * 4 + q div 16)]"
| "b64_groups [p, q, r] = Some [char_of (p * 4 + q div 16), char_of (q mod 16 * 16 + r div 4)]"
| "b64_groups (p # q # r # t # ns) =
     map_option (\<lambda>rest. char_of (p * 4 + q div 16) # char_of (q mod 16 * 16 + r div 4) # char_of (r mod 4 * 64 + t) # rest) (b64_groups ns)"

text \<open>The decoder skips carriage returns and line feeds.\<close>

definition RawURLDecode :: "string \<Rightarrow> string option" where
  "RawURLDecode s = Option.bind (those (map b64_value (filter (\<lambda>c. c \<notin> {CHR 0x0A, CHR 0x0D}) s))) b64_groups"

text \<open>\<open>Strict()\<close>: the spare bits of a short group must be zero.\<close>

fun b64_spare_zero :: "int list \<Rightarrow> bool" where
  "b64_spare_zero [p, q] = (q mod 16 = 0)"
| "b64_spare_zero [p, q, r] = (r mod 4 = 0)"
| "b64_spare_zero (p # q # r # t # ns) = b64_spare_zero ns"
| "b64_spare_zero _ = True"

definition RawURLDecodeStrict :: "string \<Rightarrow> string option" where
  "RawURLDecodeStrict s = Option.bind (those (map b64_value (filter (\<lambda>c. c \<notin> {CHR 0x0A, CHR 0x0D}) s)))
     (\<lambda>ns. if b64_spare_zero ns then b64_groups ns else None)"

section \<open>The round trip\<close>

lemma b64_inverse: "0 \<le> n \<Longrightarrow> n < 64 \<Longrightarrow> b64_value (b64_char n) = Some n \<and> b64_char n \<notin> {CHR 0x0A, CHR 0x0D}"
proof -
  assume n: "0 \<le> n" "n < 64"
  have v: "of_char (b64_char n) = (if n < 26 then 65 + n else if n < 52 then 71 + n else if n < 62 then n - 4 else if n = 62 then 45 else 95)"
    using n by (simp add: b64_char_def of_char_of take_bit_eq_mod)
  then have "13 < (of_char (b64_char n) :: int)" using n by simp
  moreover have "(of_char (CHR 0x0A) :: int) = 10" "(of_char (CHR 0x0D) :: int) = 13" by simp_all
  ultimately have "b64_char n \<noteq> CHR 0x0A" "b64_char n \<noteq> CHR 0x0D" by auto
  moreover have "b64_value (b64_char n) = Some n" using n by (simp add: b64_value_def v Let_def)
  ultimately show ?thesis by simp
qed

lemma byte_range: "0 \<le> (of_char c :: int)" "(of_char c :: int) < 256"
proof -
  have "(of_char c :: int) = int (of_char c)" by (simp add: of_nat_of_char)
  then show "0 \<le> (of_char c :: int)" "(of_char c :: int) < 256" using nat_of_char_less_256 [of c] by simp_all
qed

lemma join_split: "0 \<le> b \<Longrightarrow> b < k \<Longrightarrow> (a * k + b) div k = a \<and> (a * k + b) mod k = b" for a b k :: int
proof -
  assume "0 \<le> b" "b < k"
  then have "b div k = 0" "b mod k = b" by (simp_all add: div_pos_pos_trivial mod_pos_pos_trivial)
  then show ?thesis using \<open>0 \<le> b\<close> \<open>b < k\<close> by simp
qed

lemma div_range:
  fixes y k n :: int
  assumes "0 \<le> y" "y < k * n" "0 < k" shows "0 \<le> y div k \<and> y div k < n"
proof -
  have "k * (y div k) \<le> y" using assms by (simp add: minus_mod_eq_mult_div [symmetric])
  then have "k * (y div k) < k * n" using assms by linarith
  with assms show ?thesis by (simp add: pos_imp_zdiv_nonneg_iff)
qed

lemma join_byte:
  fixes x y z :: int
  assumes "0 \<le> y" "y < 256" "0 \<le> z" "z < 256"
  shows "x div 4 * 4 + (x mod 4 * 16 + y div 16) div 16 = x"
    "(x mod 4 * 16 + y div 16) mod 16 * 16 + (y mod 16 * 4 + z div 64) div 4 = y"
    "(y mod 16 * 4 + z div 64) mod 4 * 64 + z mod 64 = z"
proof -
  have "0 \<le> y div 16 \<and> y div 16 < 16" "0 \<le> z div 64 \<and> z div 64 < 4"
    using assms by (auto intro!: div_range)
  then have j: "(x mod 4 * 16 + y div 16) div 16 = x mod 4" "(x mod 4 * 16 + y div 16) mod 16 = y div 16"
    "(y mod 16 * 4 + z div 64) div 4 = y mod 16" "(y mod 16 * 4 + z div 64) mod 4 = z div 64"
    using join_split by blast+
  show "x div 4 * 4 + (x mod 4 * 16 + y div 16) div 16 = x"
    "(x mod 4 * 16 + y div 16) mod 16 * 16 + (y mod 16 * 4 + z div 64) div 4 = y"
    "(y mod 16 * 4 + z div 64) mod 4 * 64 + z mod 64 = z"
    unfolding j by (rule div_mult_mod_eq)+
qed

lemma sextets:
  fixes x y z :: int
  assumes "0 \<le> x" "x < 256" "0 \<le> y" "y < 256" "0 \<le> z" "z < 256"
  shows "0 \<le> x div 4 \<and> x div 4 < 64" "0 \<le> x mod 4 * 16 + y div 16 \<and> x mod 4 * 16 + y div 16 < 64"
    "0 \<le> y mod 16 * 4 + z div 64 \<and> y mod 16 * 4 + z div 64 < 64" "0 \<le> z mod 64 \<and> z mod 64 < 64"
proof -
  have m: "0 \<le> x mod 4" "x mod 4 < 4" "0 \<le> y mod 16" "y mod 16 < 16" by (rule pos_mod_sign pos_mod_bound; simp)+
  have d: "0 \<le> y div 16 \<and> y div 16 < 16" "0 \<le> z div 64 \<and> z div 64 < 4" using assms by (auto intro!: div_range)
  show "0 \<le> x div 4 \<and> x div 4 < 64" using assms by (auto intro!: div_range)
  show "0 \<le> x mod 4 * 16 + y div 16 \<and> x mod 4 * 16 + y div 16 < 64"
    "0 \<le> y mod 16 * 4 + z div 64 \<and> y mod 16 * 4 + z div 64 < 64" using m d by linarith+
  show "0 \<le> z mod 64 \<and> z mod 64 < 64" by simp
qed

lemma sextets_decode:
  "list_all (\<lambda>n. 0 \<le> n \<and> n < 64) ns \<Longrightarrow>
     those (map b64_value (filter (\<lambda>c. c \<notin> {CHR 0x0A, CHR 0x0D}) (map b64_char ns))) = Some ns"
  by (induction ns) (use b64_inverse in auto)

fun sextets_of :: "string \<Rightarrow> int list" where
  "sextets_of [] = []"
| "sextets_of [a] = (let x = of_char a in [x div 4, x mod 4 * 16])"
| "sextets_of [a, b] = (let x = of_char a; y = of_char b in [x div 4, x mod 4 * 16 + y div 16, y mod 16 * 4])"
| "sextets_of (a # b # c # r) = (let x = of_char a; y = of_char b; z = of_char c in
     (x div 4) # (x mod 4 * 16 + y div 16) # (y mod 16 * 4 + z div 64) # (z mod 64) # sextets_of r)"

lemma encode_sextets: "RawURLEncode s = map b64_char (sextets_of s)"
  by (induction s rule: sextets_of.induct) (simp_all add: Let_def)

lemma sextets_range: "list_all (\<lambda>n. 0 \<le> n \<and> n < 64) (sextets_of s)"
proof (induction s rule: sextets_of.induct)
  case (2 a)
  show ?case using sextets [of "of_char a" 0 0] by (simp add: Let_def byte_range)
next
  case (3 a b)
  show ?case using sextets [of "of_char a" "of_char b" 0] by (simp add: Let_def byte_range)
next
  case (4 a b c r)
  then show ?case using sextets [of "of_char a" "of_char b" "of_char c"] by (simp add: Let_def byte_range)
qed simp

lemma groups_sextets: "b64_groups (sextets_of s) = Some s"
proof (induction s rule: sextets_of.induct)
  case (2 a)
  show ?case using join_byte(1) [of 0 "of_char a"] by (simp add: Let_def)
next
  case (3 a b)
  show ?case using join_byte(1) [of "of_char b" "of_char a"] join_byte(2) [of "of_char b" 0 "of_char a"] by (simp add: Let_def byte_range)
next
  case (4 a b c r)
  then show ?case using join_byte(1) [of "of_char b" "of_char a"] join_byte(2) [of "of_char b" "of_char c" "of_char a"] join_byte(3) [of "of_char c" "of_char b"] by (simp add: Let_def byte_range)
qed simp

lemma RawURL_roundtrip: "RawURLDecode (RawURLEncode s) = Some s"
  unfolding RawURLDecode_def encode_sextets sextets_decode [OF sextets_range] by (simp add: groups_sextets)

lemma sextets_spare_zero: "b64_spare_zero (sextets_of s)"
  by (induction s rule: sextets_of.induct) (simp_all add: Let_def)

lemma RawURLStrict_roundtrip: "RawURLDecodeStrict (RawURLEncode s) = Some s"
  unfolding RawURLDecodeStrict_def encode_sextets sextets_decode [OF sextets_range] by (simp add: groups_sextets sextets_spare_zero)

text \<open>A strict decoder accepts nothing but the encoding: up to the line ends it skips, each byte string has one text.\<close>

lemma b64_value_Some: "b64_value c = Some n \<Longrightarrow> b64_char n = c \<and> 0 \<le> n \<and> n < 64"
proof -
  assume v: "b64_value c = Some n"
  show ?thesis using v by (auto simp: b64_value_def b64_char_def Let_def split: if_splits) (metis char_of_char)+
qed

lemma those_b64_value: "those (map b64_value cs) = Some ns \<Longrightarrow> cs = map b64_char ns \<and> list_all (\<lambda>n. 0 \<le> n \<and> n < 64) ns"
proof (induction cs arbitrary: ns)
  case (Cons c cs)
  then obtain n ms where "b64_value c = Some n" "those (map b64_value cs) = Some ms" "ns = n # ms" by (auto split: option.splits)
  then show ?case using Cons.IH [of ms] b64_value_Some [of c n] by simp
qed simp

lemma byte_of: "0 \<le> n \<Longrightarrow> n < 256 \<Longrightarrow> (of_char (char_of n) :: int) = n"
  by (simp add: of_char_of take_bit_eq_mod)

lemma split_join:
  fixes p q r t :: int
  assumes "0 \<le> p" "p < 64" "0 \<le> q" "q < 64" "0 \<le> r" "r < 64" "0 \<le> t" "t < 64"
  shows "(of_char (char_of (p * 4 + q div 16)) :: int) = p * 4 + q div 16"
    "(of_char (char_of (q mod 16 * 16 + r div 4)) :: int) = q mod 16 * 16 + r div 4"
    "(of_char (char_of (r mod 4 * 64 + t)) :: int) = r mod 4 * 64 + t"
    "(p * 4 + q div 16) div 4 = p" "(p * 4 + q div 16) mod 4 * 16 + (q mod 16 * 16 + r div 4) div 16 = q"
    "(q mod 16 * 16 + r div 4) mod 16 * 4 + (r mod 4 * 64 + t) div 64 = r" "(r mod 4 * 64 + t) mod 64 = t"
    "(p * 4 + q div 16) mod 4 * 16 + q mod 16 = q" "(q mod 16 * 16 + r div 4) mod 16 * 4 + r mod 4 = r"
proof -
  have m: "0 \<le> q mod 16" "q mod 16 < 16" "0 \<le> r mod 4" "r mod 4 < 4" by (rule pos_mod_sign pos_mod_bound; simp)+
  have d: "0 \<le> q div 16 \<and> q div 16 < 4" "0 \<le> r div 4 \<and> r div 4 < 16" using assms by (auto intro!: div_range)
  show "(of_char (char_of (p * 4 + q div 16)) :: int) = p * 4 + q div 16"
    "(of_char (char_of (q mod 16 * 16 + r div 4)) :: int) = q mod 16 * 16 + r div 4"
    "(of_char (char_of (r mod 4 * 64 + t)) :: int) = r mod 4 * 64 + t"
    using assms m d by (intro byte_of; linarith)+
  have j: "(p * 4 + q div 16) div 4 = p" "(p * 4 + q div 16) mod 4 = q div 16"
    "(q mod 16 * 16 + r div 4) div 16 = q mod 16" "(q mod 16 * 16 + r div 4) mod 16 = r div 4"
    "(r mod 4 * 64 + t) div 64 = r mod 4" "(r mod 4 * 64 + t) mod 64 = t"
    using join_split [of "q div 16" 4 p] join_split [of "r div 4" 16 "q mod 16"] join_split [of t 64 "r mod 4"] assms d by auto
  show "(p * 4 + q div 16) div 4 = p" "(p * 4 + q div 16) mod 4 * 16 + (q mod 16 * 16 + r div 4) div 16 = q"
    "(q mod 16 * 16 + r div 4) mod 16 * 4 + (r mod 4 * 64 + t) div 64 = r" "(r mod 4 * 64 + t) mod 64 = t"
    "(p * 4 + q div 16) mod 4 * 16 + q mod 16 = q" "(q mod 16 * 16 + r div 4) mod 16 * 4 + r mod 4 = r"
    unfolding j by (rule div_mult_mod_eq refl)+
qed

lemma groups_canonical:
  "b64_groups ns = Some s \<Longrightarrow> b64_spare_zero ns \<Longrightarrow> list_all (\<lambda>n. 0 \<le> n \<and> n < 64) ns \<Longrightarrow> sextets_of s = ns"
proof (induction ns arbitrary: s rule: b64_groups.induct)
  case (3 p q)
  then have h: "0 \<le> p" "p < 64" "0 \<le> q" "q < 64" and s: "s = [char_of (p * 4 + q div 16)]" and z: "q mod 16 = 0" by simp_all
  note j = split_join [OF h order_refl zero_less_numeral order_refl zero_less_numeral]
  show ?case unfolding s sextets_of.simps Let_def j(1,4) j(8) [unfolded z add_0_right] by (rule refl)
next
  case (4 p q r)
  then have h: "0 \<le> p" "p < 64" "0 \<le> q" "q < 64" "0 \<le> r" "r < 64"
    and s: "s = [char_of (p * 4 + q div 16), char_of (q mod 16 * 16 + r div 4)]" and z: "r mod 4 = 0" by simp_all
  note j = split_join [OF h order_refl zero_less_numeral]
  show ?case unfolding s sextets_of.simps Let_def j(1,2,4,5) j(9) [unfolded z add_0_right] by (rule refl)
next
  case (5 p q r t ns)
  then have h: "0 \<le> p" "p < 64" "0 \<le> q" "q < 64" "0 \<le> r" "r < 64" "0 \<le> t" "t < 64" by simp_all
  from 5(2) obtain s' where g: "b64_groups ns = Some s'" and
    s: "s = char_of (p * 4 + q div 16) # char_of (q mod 16 * 16 + r div 4) # char_of (r mod 4 * 64 + t) # s'" by auto
  have t: "sextets_of s' = ns" by (rule 5(1) [OF g]) (use 5(3,4) in simp_all)
  note j = split_join [OF h]
  show ?case unfolding s sextets_of.simps Let_def j t by (rule refl)
qed auto

lemma RawURLStrict_canonical:
  assumes "RawURLDecodeStrict v = Some s" shows "filter (\<lambda>c. c \<notin> {CHR 0x0A, CHR 0x0D}) v = RawURLEncode s"
proof -
  from assms obtain ns where ns: "those (map b64_value (filter (\<lambda>c. c \<notin> {CHR 0x0A, CHR 0x0D}) v)) = Some ns"
    and g: "b64_spare_zero ns" "b64_groups ns = Some s"
    unfolding RawURLDecodeStrict_def by (auto simp: bind_eq_Some_conv split: if_splits)
  from those_b64_value [OF ns] have c: "filter (\<lambda>c. c \<notin> {CHR 0x0A, CHR 0x0D}) v = map b64_char ns" "list_all (\<lambda>n. 0 \<le> n \<and> n < 64) ns" by blast+
  show ?thesis unfolding c(1) encode_sextets groups_canonical [OF g(2,1) c(2)] ..
qed

end
