(* ===== verification/FindingService.thy ===== *)
theory FindingService imports FindingDiff Base64 begin

text \<open>
  The findings service (\<open>findings/service.go\<close>) around the diff, and the background loop of
  \<open>findings/scheduler.go\<close>: the recompute entry points with their audit row, the operator's overrides,
  the finding reads with their cursor, and one sweep of the scheduler over the organizations.

  The audit metadata is the JSON object \<open>json.Marshal\<close> writes, with an instant printed in UTC. A sweep
  returns one outcome per organization it visited, which is what it logs; \<open>cancelled k\<close> says whether the
  context is cancelled when the organization \<open>k\<close> is about to start. A rule is a total function, so the
  recovery from a panicking rule has nothing to do here.
\<close>

section \<open>Recompute\<close>

record FindingRecomputeResult =
  fo_EvaluatedCertificates :: int
  fo_Opened :: int
  fo_Updated :: int
  fo_Resolved :: int
  fo_Unchanged :: int
  fo_RuleCount :: int
  fo_LoadedCertificates :: int
  fo_LoadedFindings :: int

definition toRecomputeResult :: "diffSummary \<Rightarrow> int \<Rightarrow> FindingRecomputeResult" where
  "toRecomputeResult d ruleCount =
     \<lparr>fo_EvaluatedCertificates = ds_evaluatedCertificates d, fo_Opened = ds_counters d counterOpened,
      fo_Updated = ds_counters d counterUpdated, fo_Resolved = ds_counters d counterResolved,
      fo_Unchanged = ds_counters d counterUnchanged, fo_RuleCount = ruleCount,
      fo_LoadedCertificates = ds_loadedCertificates d, fo_LoadedFindings = ds_loadedFindings d\<rparr>"

definition recompute_metadata :: "string \<Rightarrow> FindingRecomputeResult \<Rightarrow> json" where
  "recompute_metadata org r = JObj
     [(''organization_id'', JStr org), (''evaluated_certificates'', JNum (fo_EvaluatedCertificates r)),
      (''opened'', JNum (fo_Opened r)), (''updated'', JNum (fo_Updated r)), (''resolved'', JNum (fo_Resolved r)),
      (''unchanged'', JNum (fo_Unchanged r)), (''rule_count'', JNum (fo_RuleCount r)),
      (''loaded_certificates'', JNum (fo_LoadedCertificates r)), (''loaded_findings'', JNum (fo_LoadedFindings r))]"

definition recompute_event :: "string \<Rightarrow> string \<Rightarrow> string \<Rightarrow> FindingRecomputeResult \<Rightarrow> Time \<Rightarrow> Event" where
  "recompute_event org actor actorType r now =
     \<lparr>ev_ID = [], ev_OrganizationID = org, ev_OccurredAt = now, ev_Actor = actor, ev_ActorType = actorType,
      ev_Action = ''findings.recomputed'', ev_TargetType = ''organization'', ev_TargetID = org, ev_RequestID = [],
      ev_Metadata = recompute_metadata org r\<rparr>"

definition recordRecomputeAudit ::
  "env \<Rightarrow> string \<Rightarrow> string \<Rightarrow> string \<Rightarrow> FindingRecomputeResult \<Rightarrow> Time \<Rightarrow> ('z world_scheme, unit) prog" where
  "recordRecomputeAudit env org actor actorType r now =
     mapErrE (\<lambda>_. ErrInternalAudit) (Record env (recompute_event org actor actorType r now))"

record FindingRecomputeInput =
  fi_OrganizationID :: string
  fi_ActorUserID :: string

text \<open>The body both recomputes share, over the diff they run.\<close>

definition diff_and_audit ::
  "env \<Rightarrow> FindingService \<Rightarrow> ('z find_db_scheme, diffSummary) prog \<Rightarrow> string \<Rightarrow> string \<Rightarrow> string \<Rightarrow> Time \<Rightarrow>
     ('z find_db_scheme, FindingRecomputeResult) prog" where
  "diff_and_audit env svc diff org actor actorType now =
     bindE diff (\<lambda>summary.
     let result = toRecomputeResult summary (int (length (fs_rules svc))) in
     bindE (recordRecomputeAudit env org actor actorType result now) (\<lambda>_. retE result))"

definition recomputeWithActor ::
  "env \<Rightarrow> (matchKey list \<Rightarrow> matchKey list) \<Rightarrow> FindingService \<Rightarrow> string \<Rightarrow> string \<Rightarrow> string \<Rightarrow>
     ('z find_db_scheme, FindingRecomputeResult) prog" where
  "recomputeWithActor env ord svc org actor actorType =
     bindE (Now env) (\<lambda>now.
     WithTxLockedFindingsRepeatableRead env org
       (diff_and_audit env svc (runDiffStreaming env ord svc org now) org actor actorType now))"

definition SchedulerActorID :: string where "SchedulerActorID = ''scheduler''"

text \<open>Who the audit row names: the operator, or the system when no operator is given.\<close>

definition finding_recompute_actor :: "FindingRecomputeInput \<Rightarrow> string \<times> string" where
  "finding_recompute_actor inp =
     (let actor = TrimSpace (fi_ActorUserID inp) in if actor = [] then (''system'', ''system'') else (actor, ''user''))"

definition FindingRecompute ::
  "env \<Rightarrow> (matchKey list \<Rightarrow> matchKey list) \<Rightarrow> FindingService \<Rightarrow> FindingRecomputeInput \<Rightarrow>
     ('z find_db_scheme, FindingRecomputeResult) prog" where
  "FindingRecompute env ord svc inp =
     bindE (guardE (TrimSpace (fi_OrganizationID inp) \<noteq> []) ErrInvalidRecomputeInput) (\<lambda>_.
     case finding_recompute_actor inp of (actor, actorType) \<Rightarrow>
       recomputeWithActor env ord svc (fi_OrganizationID inp) actor actorType)"

definition FindingRecomputeScheduled ::
  "env \<Rightarrow> (matchKey list \<Rightarrow> matchKey list) \<Rightarrow> FindingService \<Rightarrow> string \<Rightarrow> ('z find_db_scheme, FindingRecomputeResult) prog" where
  "FindingRecomputeScheduled env ord svc org =
     bindE (guardE (TrimSpace org \<noteq> []) ErrInvalidRecomputeInput) (\<lambda>_.
     recomputeWithActor env ord svc org SchedulerActorID ''system'')"

definition RecomputeLegacyLoadAll ::
  "env \<Rightarrow> (matchKey list \<Rightarrow> matchKey list) \<Rightarrow> FindingService \<Rightarrow> FindingRecomputeInput \<Rightarrow>
     ('z find_db_scheme, FindingRecomputeResult) prog" where
  "RecomputeLegacyLoadAll env ord svc inp =
     bindE (guardE (TrimSpace (fi_OrganizationID inp) \<noteq> []) ErrInvalidRecomputeInput) (\<lambda>_.
     case finding_recompute_actor inp of (actor, actorType) \<Rightarrow>
     bindE (Now env) (\<lambda>now.
     WithTxLockedFindings env (fi_OrganizationID inp)
       (diff_and_audit env svc (runDiffLoadAll env ord svc (fi_OrganizationID inp) now) (fi_OrganizationID inp) actor actorType now)))"

text \<open>The constructor rejects an empty rule list.\<close>

definition NewFindingService :: "Rule list \<Rightarrow> err + FindingService" where
  "NewFindingService rules =
     (if rules = [] then Inl ErrIncompleteService else Inr \<lparr>fs_rules = rules, fs_streamingPageOverride = 0\<rparr>)"

section \<open>Operator overrides\<close>

record overrideRequest =
  or_OrganizationID :: string
  or_FindingID :: string
  or_ActorUserID :: string
  or_Reason :: string
  or_NewStatus :: Status
  or_SuppressExpiresAt :: "Time option"
  or_AuditAction :: string

definition override_metadata :: "overrideRequest \<Rightarrow> Status \<Rightarrow> json" where
  "override_metadata req previousStatus = JObj
     ([(''severity'', JStr ''security''), (''organization_id'', JStr (or_OrganizationID req)),
       (''finding_id'', JStr (or_FindingID req)), (''previous_status'', JStr (status_string previousStatus)),
       (''new_status'', JStr (status_string (or_NewStatus req))), (''reason'', JStr (or_Reason req))] @
      (case or_SuppressExpiresAt req of None \<Rightarrow> [] | Some t \<Rightarrow> [(''suppress_expires_at'', JTime t)]))"

definition finding_override_event :: "overrideRequest \<Rightarrow> Status \<Rightarrow> Time \<Rightarrow> Event" where
  "finding_override_event req previousStatus now =
     \<lparr>ev_ID = [], ev_OrganizationID = or_OrganizationID req, ev_OccurredAt = now, ev_Actor = or_ActorUserID req,
      ev_ActorType = ''user'', ev_Action = or_AuditAction req, ev_TargetType = ''finding'', ev_TargetID = or_FindingID req,
      ev_RequestID = [], ev_Metadata = override_metadata req previousStatus\<rparr>"

definition recordFindingOverrideAudit :: "env \<Rightarrow> overrideRequest \<Rightarrow> Status \<Rightarrow> Time \<Rightarrow> ('z world_scheme, unit) prog" where
  "recordFindingOverrideAudit env req previousStatus now =
     mapErrE (\<lambda>_. ErrInternalAudit) (Record env (finding_override_event req previousStatus now))"

definition overridden :: "overrideRequest \<Rightarrow> Time \<Rightarrow> Finding \<Rightarrow> Finding" where
  "overridden req now f = f\<lparr>fd_Status := or_NewStatus req, fd_StatusReason := or_Reason req, fd_StatusActor := or_ActorUserID req,
     fd_StatusChangedAt := Some now, fd_SuppressExpiresAt := or_SuppressExpiresAt req, fd_UpdatedAt := now, fd_ResolvedAt := None\<rparr>"

definition applyOverride :: "env \<Rightarrow> overrideRequest \<Rightarrow> ('z find_db_scheme, Finding) prog" where
  "applyOverride env req =
     bindE (Now env) (\<lambda>now.
     WithTxLockedFindings env (or_OrganizationID req)
       (bindE (repo_GetFinding env (or_OrganizationID req) (or_FindingID req)) (\<lambda>prior.
        bindE (UpdateFinding env (overridden req now prior)) (\<lambda>_.
        bindE (recordFindingOverrideAudit env req (fd_Status prior) now) (\<lambda>_. retE (overridden req now prior))))))"

definition MaxOverrideReasonLength :: nat where "MaxOverrideReasonLength = 1000"

definition validateReason :: "string \<Rightarrow> err + unit" where
  "validateReason reason =
     (let trimmed = TrimSpace reason in
      if trimmed = [] then Inl ErrInvalidOverrideInput
      else if length trimmed > MaxOverrideReasonLength then Inl ErrInvalidOverrideInput
      else Inr ())"

record AcknowledgeInput =
  ai_OrganizationID :: string
  ai_FindingID :: string
  ai_ActorUserID :: string
  ai_Reason :: string

definition validateAcknowledgeInput :: "AcknowledgeInput \<Rightarrow> err + unit" where
  "validateAcknowledgeInput inp =
     (if TrimSpace (ai_OrganizationID inp) = [] then Inl ErrInvalidOverrideInput
      else if TrimSpace (ai_FindingID inp) = [] then Inl ErrInvalidOverrideInput
      else if TrimSpace (ai_ActorUserID inp) = [] then Inl ErrInvalidOverrideInput
      else validateReason (ai_Reason inp))"

record SuppressInput = AcknowledgeInput +
  si_ExpiresAt :: "Time option"

definition validateSuppressInput :: "SuppressInput \<Rightarrow> Time \<Rightarrow> err + unit" where
  "validateSuppressInput inp now =
     (if TrimSpace (ai_OrganizationID inp) = [] then Inl ErrInvalidOverrideInput
      else if TrimSpace (ai_FindingID inp) = [] then Inl ErrInvalidOverrideInput
      else if TrimSpace (ai_ActorUserID inp) = [] then Inl ErrInvalidOverrideInput
      else case validateReason (ai_Reason inp) of
        Inl e \<Rightarrow> Inl e
      | Inr _ \<Rightarrow> (case si_ExpiresAt inp of
          None \<Rightarrow> Inr ()
        | Some t \<Rightarrow> if \<not> t > now then Inl ErrInvalidOverrideInput else Inr ()))"

definition AcknowledgeFinding :: "env \<Rightarrow> AcknowledgeInput \<Rightarrow> ('z find_db_scheme, Finding) prog" where
  "AcknowledgeFinding env inp =
     bindE (liftE (validateAcknowledgeInput inp)) (\<lambda>_.
     applyOverride env \<lparr>or_OrganizationID = ai_OrganizationID inp, or_FindingID = ai_FindingID inp,
       or_ActorUserID = ai_ActorUserID inp, or_Reason = TrimSpace (ai_Reason inp), or_NewStatus = StatusAcknowledged,
       or_SuppressExpiresAt = None, or_AuditAction = ''finding.acknowledged''\<rparr>)"

definition SuppressFinding :: "env \<Rightarrow> SuppressInput \<Rightarrow> ('z find_db_scheme, Finding) prog" where
  "SuppressFinding env inp =
     bindE (Now env) (\<lambda>now.
     bindE (liftE (validateSuppressInput inp now)) (\<lambda>_.
     applyOverride env \<lparr>or_OrganizationID = ai_OrganizationID inp, or_FindingID = ai_FindingID inp,
       or_ActorUserID = ai_ActorUserID inp, or_Reason = TrimSpace (ai_Reason inp), or_NewStatus = StatusSuppressed,
       or_SuppressExpiresAt = si_ExpiresAt inp, or_AuditAction = ''finding.suppressed''\<rparr>))"

section \<open>Reads\<close>

definition GetFinding :: "env \<Rightarrow> string \<Rightarrow> string \<Rightarrow> ('z find_db_scheme, Finding) prog" where
  "GetFinding env org i =
     bindE (guardE (TrimSpace org \<noteq> []) ErrInvalidListInput) (\<lambda>_.
     bindE (guardE (TrimSpace i \<noteq> []) ErrInvalidListInput) (\<lambda>_.
     repo_GetFinding env org i))"

definition DefaultListLimit :: int where "DefaultListLimit = 50"
definition MaxListLimit :: int where "MaxListLimit = 200"

definition normalizeLimit :: "int \<Rightarrow> err + int" where
  "normalizeLimit raw =
     (if raw = 0 then Inr DefaultListLimit
      else if raw < 0 then Inl ErrInvalidListInput
      else if raw > MaxListLimit then Inl ErrInvalidListInput
      else Inr raw)"

definition listCursorSeparator :: char where "listCursorSeparator = CHR ''|''"

definition encodeFindingCursor :: "Time \<Rightarrow> string \<Rightarrow> string" where
  "encodeFindingCursor lastSeenAt i = RawURLEncode (FormatRFC3339Nano lastSeenAt @ listCursorSeparator # i)"

text \<open>\<open>SplitN(s, sep, 2)\<close> cuts at the first separator.\<close>

definition decodeFindingCursor :: "string \<Rightarrow> err + (Time \<times> string)" where
  "decodeFindingCursor raw =
     (if raw = [] then Inr (zeroTime, [])
      else case RawURLDecode raw of
        None \<Rightarrow> Inl ErrInvalidListInput
      | Some d \<Rightarrow>
          (case IndexByte listCursorSeparator d of
             None \<Rightarrow> Inl ErrInvalidListInput
           | Some n \<Rightarrow>
               let at_part = take n d; id_part = drop (Suc n) d in
               if at_part = [] \<or> id_part = [] then Inl ErrInvalidListInput
               else case ParseRFC3339Nano at_part of
                 None \<Rightarrow> Inl ErrInvalidListInput
               | Some t \<Rightarrow> Inr (t, id_part)))"

definition normalizeListQuery :: "ListQuery \<Rightarrow> err + ListQuery" where
  "normalizeListQuery inp =
     (if TrimSpace (lq_OrganizationID inp) = [] then Inl ErrInvalidListInput
      else if lq_Status inp \<notin> {[], ''open'', ''resolved'', ''acknowledged'', ''suppressed'', ''all''} then Inl ErrInvalidListInput
      else if lq_Severity inp \<notin> {[], ''info'', ''low'', ''medium'', ''high'', ''critical''} then Inl ErrInvalidListInput
      else case normalizeLimit (lq_Limit inp) of
        Inl e \<Rightarrow> Inl e
      | Inr limit \<Rightarrow>
          (case decodeFindingCursor (lq_Cursor inp) of
             Inl e \<Rightarrow> Inl e
           | Inr (cursorAt, cursorID) \<Rightarrow>
               Inr (inp\<lparr>lq_Status := (if lq_Status inp = [] then ''open'' else lq_Status inp), lq_Limit := limit + 1,
                        lq_CursorLastSeenAt := cursorAt, lq_CursorID := cursorID\<rparr>)))"

record ListResult =
  lr_Items :: "Finding list"
  lr_NextCursor :: string

definition ListFindings :: "env \<Rightarrow> ListQuery \<Rightarrow> ('z find_db_scheme, ListResult) prog" where
  "ListFindings env inp =
     bindE (liftE (normalizeListQuery inp)) (\<lambda>q.
     bindE (repo_ListFindings env q) (\<lambda>rows.
     let wantLimit = nat (lq_Limit q - 1) in
     if length rows > wantLimit then
       let lst = rows ! (wantLimit - 1) in
       retE \<lparr>lr_Items = take wantLimit rows, lr_NextCursor = encodeFindingCursor (fd_LastSeenAt lst) (fd_ID lst)\<rparr>
     else retE \<lparr>lr_Items = rows, lr_NextCursor = []\<rparr>))"

section \<open>The scheduler\<close>

definition MinSchedulerInterval :: Duration where "MinSchedulerInterval = 30 * second"

record SchedulerConfig =
  sc_Enabled :: bool
  sc_Interval :: Duration

definition ValidateSchedulerConfig :: "SchedulerConfig \<Rightarrow> err + unit" where
  "ValidateSchedulerConfig cfg =
     (if \<not> sc_Enabled cfg then Inr ()
      else if sc_Interval cfg \<le> 0 then Inl ErrBadRunnerConfig
      else if sc_Interval cfg < MinSchedulerInterval then Inl ErrBadRunnerConfig
      else Inr ())"

definition recomputeOrg ::
  "env \<Rightarrow> (matchKey list \<Rightarrow> matchKey list) \<Rightarrow> FindingService \<Rightarrow> string \<Rightarrow>
     ('z find_db_scheme, err + FindingRecomputeResult) prog" where
  "recomputeOrg env ord svc org =
     bindE (Now env) (\<lambda>start.
     bindE (tryE (FindingRecomputeScheduled env ord svc org)) (\<lambda>out.
     bindE (Now env) (\<lambda>_. retE out)))"

fun sweepOrgs ::
  "env \<Rightarrow> (matchKey list \<Rightarrow> matchKey list) \<Rightarrow> FindingService \<Rightarrow> (nat \<Rightarrow> bool) \<Rightarrow> nat \<Rightarrow> string list \<Rightarrow>
     ('z find_db_scheme, (string \<times> (err + FindingRecomputeResult)) list) prog" where
  "sweepOrgs env ord svc cancelled k [] = retE []"
| "sweepOrgs env ord svc cancelled k (org # orgs) =
     (if cancelled k then retE []
      else bindE (recomputeOrg env ord svc org) (\<lambda>out.
           bindE (sweepOrgs env ord svc cancelled (Suc k) orgs) (\<lambda>outs. retE ((org, out) # outs))))"

definition runOnce ::
  "env \<Rightarrow> (matchKey list \<Rightarrow> matchKey list) \<Rightarrow> FindingService \<Rightarrow> (nat \<Rightarrow> bool) \<Rightarrow>
     ('z find_db_scheme, (string \<times> (err + FindingRecomputeResult)) list) prog" where
  "runOnce env ord svc cancelled =
     bindE (tryE (ListOrganizationIDs env)) (\<lambda>r.
     case r of
       Inl _ \<Rightarrow> retE []
     | Inr orgs \<Rightarrow> sweepOrgs env ord svc cancelled 0 orgs)"

end
