(* ===== verification/FindingOps.thy ===== *)
theory FindingOps imports FindingLoadAll FindingService begin

text \<open>
  The findings service's operations as transactions: a recompute settles the table and writes one audit
  row, its counters balance, it is idempotent and follows the documented life of a finding; an override
  rewrites one row; every history keeps the table well-formed and every failure leaves it alone.
\<close>

section \<open>One settled pass\<close>

text \<open>What a transition keeps of a well-formed row.\<close>

lemma advance_ok: "finding_ok f \<Longrightarrow> finding_ok (advance M now f)"
proof -
  assume f: "finding_ok f"
  show ?thesis
  proof (cases "map_of M (row_key f)")
    case None
    then show ?thesis using f
      by (cases "fd_Status f") (simp_all add: advance_def row_result_def finding_ok_def cleared_override_def)
  next
    case (Some m)
    then show ?thesis using f
      by (cases "fd_Status f") (simp_all add: advance_def row_result_def finding_ok_def cleared_override_def refreshed_def)
  qed
qed

lemma new_finding_ok: "finding_ok (new_finding i org c r m now)"
  by (simp add: finding_ok_def new_finding_def)

lemma settled_ok:
  assumes st: "diff_settled org M now s sm news t" and ok: "find_ok s"
  shows "find_ok t"
proof -
  note r = settled_findings [OF st]
  have "finding_ok g" if "g \<in> set news" for g
  proof -
    from r(4) [OF that] obtain m where "map_of M (row_key g) = Some m"
      and g: "g = new_finding (fd_ID g) org (fst (row_key g)) (me_rule m) (me_match m) now"
      by (elim exE conjE) (rule that)
    show ?thesis by (subst g) (rule new_finding_ok)
  qed
  moreover have "finding_ok f" "finding_ok (advance M now f)" if "f \<in> set (t_findings s)" for f
    using ok that by (simp_all add: find_ok_def advance_ok)
  ultimately have "\<forall>f \<in> set (t_findings t). finding_ok f" unfolding r(1) by auto
  with r(3) show ?thesis by (simp add: find_ok_def)
qed

text \<open>A second pass with the same rules at the same instant.\<close>

lemma advance_settled:
  assumes "\<not> isl (row_result M now f)"
  shows "advance M now (advance M now f) = advance M now f" "\<not> isl (row_result M now (advance M now f))"
    "bucket_of M now (advance M now f) = (if map_of M (row_key f) = None then counterUnchanged else counterUpdated)"
proof -
  have key: "row_key (advance M now f) = row_key f" by simp
  have "advance M now (advance M now f) = advance M now f \<and> \<not> isl (row_result M now (advance M now f)) \<and>
    bucket_of M now (advance M now f) = (if map_of M (row_key f) = None then counterUnchanged else counterUpdated)"
  proof (cases "map_of M (row_key f)")
    case None
    then have "fd_Status (advance M now f) = StatusResolved" using advance_active [OF assms] by simp
    with None key have "row_result M now (advance M now f) = Inr (None, diffOpNoChange, counterUnchanged)" by (simp add: row_result_def)
    with None show ?thesis by (simp add: advance_def [of M now "advance M now f"] bucket_of_def)
  next
    case (Some m)
    let ?g = "advance M now f"
    have g: "fd_LastSeenAt ?g = now" "fd_UpdatedAt ?g = now" "fd_Severity ?g = fr_Severity (me_rule m)" "fd_Title ?g = fr_Title (me_rule m)"
      "fd_RuleVersion ?g = fr_Version (me_rule m)" "fd_Evidence ?g = rm_Evidence (me_match m)"
      using assms Some by (cases "fd_Status f"; simp add: advance_def row_result_def refreshed_def cleared_override_def)+
    then have same: "refreshed (me_rule m) (me_match m) now ?g = ?g" by (cases ?g) (simp add: refreshed_def)
    have "fd_Status ?g \<in> {StatusOpen, StatusAcknowledged} \<or> fd_Status ?g = StatusSuppressed \<and> \<not> suppression_expired now ?g"
      using assms Some by (cases "fd_Status f") (auto simp: advance_def row_result_def refreshed_def cleared_override_def suppression_expired_def)
    then have "match_next (me_rule m) (me_match m) now ?g (fd_Status ?g) = Inr (?g, diffOpUpdate, counterUpdated)" using same by auto
    then have "row_result M now ?g = Inr (Some ?g, diffOpUpdate, counterUpdated)" using Some key by (simp add: row_result_def)
    with Some show ?thesis by (simp add: advance_def [of M now ?g] bucket_of_def)
  qed
  then show "advance M now (advance M now f) = advance M now f" "\<not> isl (row_result M now (advance M now f))"
    "bucket_of M now (advance M now f) = (if map_of M (row_key f) = None then counterUnchanged else counterUpdated)" by simp_all
qed

lemma advance_new:
  assumes m: "map_of M (row_key g) = Some m" and g: "g = new_finding i org c (me_rule m) (me_match m) now"
  shows "advance M now g = g" "bucket_of M now g = counterUpdated"
proof -
  have "fd_Status g = StatusOpen" "refreshed (me_rule m) (me_match m) now g = g" by (simp_all add: g new_finding_def refreshed_def)
  with m have "row_result M now g = Inr (Some g, diffOpUpdate, counterUpdated)" by (simp add: row_result_def)
  then show "advance M now g = g" "bucket_of M now g = counterUpdated" by (simp_all add: advance_def bucket_of_def)
qed

lemma settled_again:
  assumes 1: "diff_settled org M now s sm news t" and 2: "diff_settled org M now t' sm' news' u" and rows: "t_findings t' = t_findings t"
  shows "t_findings u = t_findings t \<and> ds_counters sm' counterOpened = 0 \<and> ds_counters sm' counterResolved = 0"
proof -
  note r1 = settled_findings [OF 1] and r2 = settled_findings [OF 2]
  have wf: "find_wf s" "find_wf t" using 1 r1(3) by (simp_all add: diff_settled_def Let_def passed_def)
  have sup: "\<not> isl (row_result M now f)" if "f \<in> set (t_findings s)" "fd_OrganizationID f = org" for f
    using 1 org_row [OF wf(1) that] by (simp add: diff_settled_def Let_def)
  have row: "advance M now f = f \<and> bucket_of M now f \<in> {counterUnchanged, counterUpdated}" if f: "f \<in> set (t_findings t)" "fd_OrganizationID f = org" for f
  proof (cases "f \<in> set news")
    case True
    from r1(4) [OF this] obtain m where m: "map_of M (row_key f) = Some m"
      and g: "f = new_finding (fd_ID f) org (fst (row_key f)) (me_rule m) (me_match m) now" by (elim exE conjE) (rule that)
    from advance_new [OF m g] show ?thesis by simp
  next
    case False
    with f(1) have "f \<in> (\<lambda>f. if fd_OrganizationID f = org then advance M now f else f) ` set (t_findings s)"
      unfolding r1(1) by simp
    then obtain g where g: "g \<in> set (t_findings s)" "f = (if fd_OrganizationID g = org then advance M now g else g)"
      by (elim imageE) (rule that)
    with f(2) have "fd_OrganizationID g = org" "f = advance M now g" by (metis advance_keys(2))+
    with advance_settled [OF sup [OF g(1)]] show ?thesis by simp
  qed
  have keys: "fst ` set M \<subseteq> row_key ` set (org_findings org t)"
  proof
    fix k assume "k \<in> fst ` set M"
    then have "map_of M k \<noteq> None" by (simp add: map_of_eq_None_iff)
    with settled_active [OF 1, of k] obtain f where "f \<in> set (t_findings t)" "fd_OrganizationID f = org" "row_key f = k" by blast
    with org_row [OF wf(2)] show "k \<in> row_key ` set (org_findings org t)" by (metis image_eqI)
  qed
  have same: "org_findings org t' = org_findings org t" by (simp add: org_findings_def rows)
  have none: "news' = []"
  proof -
    have "row_key ` set news' = {}" unfolding settled_keys [OF 2] same using keys by (simp only: Diff_eq_empty_iff)
    then show ?thesis by simp
  qed
  have "map (\<lambda>f. if fd_OrganizationID f = org then advance M now f else f) (t_findings t) = t_findings t"
    using row by (intro map_idI) simp
  then have u: "t_findings u = t_findings t" using r2(1) none rows by simp
  have "ds_counters sm' = settled_rows M now (org_findings org t)"
    using 2 none unfolding diff_settled_def Let_def same by (simp add: opened_def)
  moreover have "b \<notin># image_mset (bucket_of M now) (mset (org_findings org t))" if "b \<notin> {counterUnchanged, counterUpdated}" for b
    using row that org_rows(1) [OF wf(2), of org] by auto
  then have "settled_rows M now (org_findings org t) b = 0" if "b \<notin> {counterUnchanged, counterUpdated}" for b
    using that by (simp add: settled_rows_def counts_of_def count_eq_zero_iff)
  ultimately show ?thesis using u by simp
qed

section \<open>Identifiers stay non-empty\<close>

lemma nonempty_ids_db_of: "nonempty_ids (db_of s) = nonempty_ids s"
  by (simp add: nonempty_ids_def)

lemma nonempty_ids_frame [simp]:
  "nonempty_ids (stepped s) = nonempty_ids s" "nonempty_ids (s\<lparr>w_ids := n\<rparr>) = nonempty_ids s"
  by (simp_all add: nonempty_ids_def)

lemma keeps_ids_read: "leaves db_of m \<Longrightarrow> keeps nonempty_ids m"
  by (rule keeps_view) (simp_all add: nonempty_ids_db_of)

lemma keeps_ids_UpdateFinding [keep_intros]: "keeps nonempty_ids (UpdateFinding env f)"
  unfolding UpdateFinding_def
  by (rule keeps_exec_hit) (simp add: nonempty_ids_db_of, auto simp: nonempty_ids_def set_update_where)

lemma keeps_ids_InsertFinding: "fd_ID f \<noteq> [] \<Longrightarrow> keeps nonempty_ids (InsertFinding env f)"
  unfolding InsertFinding_def
  by (rule keeps_exec_hit) (simp add: nonempty_ids_db_of, auto simp: nonempty_ids_def)

lemma match_next_update: "match_next r m now f st = Inr (g, op, b) \<Longrightarrow> op = diffOpUpdate"
  by (cases st) (auto split: if_splits)

lemma nomatch_next_update: "nomatch_next now f st = Inr (x, op, b) \<Longrightarrow> op = diffOpUpdate \<or> op = diffOpNoChange"
  by (cases st) auto

lemma keeps_ids_steps:
  assumes ids: "\<And>i. idAt env i \<noteq> []"
  shows "keeps nonempty_ids (match_step env org now k m prior c)" "keeps nonempty_ids (nomatch_step env now f c)"
proof -
  have ap: "keeps nonempty_ids (applyDecision env x op)" if "op = diffOpUpdate \<or> op = diffOpNoChange" for x op
    using that unfolding applyDecision_def by (elim disjE) (auto intro!: keep_intros split: option.split)
  show "keeps nonempty_ids (nomatch_step env now f c)"
  proof (cases "nomatch_next now f (fd_Status f)")
    case (Inr r)
    obtain x op b where r: "r = (x, op, b)" by (cases r)
    have "keeps nonempty_ids (bindE (applyDecision env x op) (\<lambda>_. retE (bump b c)))"
      using nomatch_next_update [OF Inr [unfolded r]] by (intro keep_intros ap)
    then show ?thesis by (simp add: nomatch_step_def decideNoMatchTransition_def Inr r bindE_lift)
  qed (simp add: nomatch_step_def decideNoMatchTransition_def bindE_lift keep_intros)
  show "keeps nonempty_ids (match_step env org now k m prior c)"
  proof (cases prior)
    case None
    have ins: "keeps nonempty_ids (bindE (InsertFinding env (new_finding (idAt env i) org (fst k) (me_rule m) (me_match m) now)) (\<lambda>_. retE (bump counterOpened c)))" for i
      by (intro keep_intros keeps_ids_InsertFinding) (simp add: new_finding_def ids)
    show ?thesis unfolding None keeps_def
    proof (intro allI impI)
      fix s assume "nonempty_ids s"
      then have ids: "nonempty_ids (s\<lparr>w_ids := Suc (w_ids s)\<rparr>)" by simp
      have eq: "match_step env org now k m None c s =
        bindE (InsertFinding env (new_finding (idAt env (w_ids s)) org (fst k) (me_rule m) (me_match m) now))
          (\<lambda>_. retE (bump counterOpened c)) (s\<lparr>w_ids := Suc (w_ids s)\<rparr>)"
        by (simp add: match_step_def decideMatchTransition_def applyDecision_def bindE_assoc) (simp add: bindE_def NewID_def)
      show "nonempty_ids (snd (match_step env org now k m None c s))"
        unfolding eq by (rule ins [unfolded keeps_def, rule_format, OF ids])
    qed
  next
    case (Some f)
    show ?thesis
    proof (cases "match_next (me_rule m) (me_match m) now f (fd_Status f)")
      case (Inr r)
      obtain g op b where r: "r = (g, op, b)" by (cases r)
      have "keeps nonempty_ids (bindE (applyDecision env (Some g) op) (\<lambda>_. retE (bump b c)))"
        using match_next_update [OF Inr [unfolded r]] by (intro keep_intros ap) simp
      then show ?thesis by (simp add: match_step_def decideMatchTransition_def Some Inr r bindE_lift)
    qed (simp add: match_step_def decideMatchTransition_def Some bindE_lift bindE_assoc keep_intros)
  qed
qed

lemma keeps_ids_diffs:
  assumes "\<And>i. idAt env i \<noteq> []"
  shows "keeps nonempty_ids (runDiffStreaming env ord svc org now)" "keeps nonempty_ids (runDiffLoadAll env ord svc org now)"
proof -
  note steps = keeps_ids_steps [OF assms]
  show "keeps nonempty_ids (runDiffStreaming env ord svc org now)"
    unfolding runDiffStreaming_def existing_step_def insert_step_def split_def
    by (intro keep_intros steps keeps_ids_read [OF leaves_find_reads(3)] keeps_ids_read [OF leaves_find_reads(5)])
  show "keeps nonempty_ids (runDiffLoadAll env ord svc org now)"
    unfolding runDiffLoadAll_def
    by (intro keep_intros steps keeps_ids_read [OF leaves_find_reads(2)] keeps_ids_read [OF leaves_find_reads(4)])
qed

section \<open>A recompute as one transaction\<close>

lemma settled_base:
  assumes "diff_settled org M now s1 sm news t" and eq: "db_of s1 = db_of s"
  shows "diff_settled org M now s sm news t"
  using assms(1) passed_base [OF _ eq, of org M now _ news t] unfolding diff_settled_def Let_def same_find_tables(1,2) [OF eq] by blast

lemma matches_base:
  assumes eq: "db_of s1 = db_of s" shows "org_matches svc org now s1 = org_matches svc org now s"
  unfolding org_matches_def same_find_tables(2) [OF eq] ..

lemma diff_and_audit_Inr:
  assumes "diff_and_audit env svc diff org actor actorType now s = (Inr res, s')"
  shows "\<exists>sm t r. diff s = (Inr sm, t) \<and> res = toRecomputeResult sm (int (length (fs_rules svc))) \<and>
    same_event r (recompute_event org actor actorType res now) \<and> db_of s' = (db_of t)\<lparr>audit_events := audit_events t @ [r]\<rparr>"
proof -
  from assms obtain sm t u where 1: "diff s = (Inr sm, t)" and res: "res = toRecomputeResult sm (int (length (fs_rules svc)))"
    and 2: "Record env (recompute_event org actor actorType res now) t = (Inr u, s')"
    by (auto simp: diff_and_audit_def Let_def recordRecomputeAudit_def run_simps)
  from Record_db [OF 2] 1 res show ?thesis by blast
qed

text \<open>What any recompute leaves: the settled table and one audit row.\<close>

definition recomputed ::
  "FindingService \<Rightarrow> string \<Rightarrow> matchMap \<Rightarrow> Time \<Rightarrow> string \<Rightarrow> string \<Rightarrow> 'z find_db_scheme \<Rightarrow> FindingRecomputeResult \<Rightarrow> 'z find_db_scheme \<Rightarrow> bool" where
  "recomputed svc org M now actor actorType s res s' \<longleftrightarrow>
     (\<exists>sm news t r. diff_settled org M now s sm news t \<and> res = toRecomputeResult sm (int (length (fs_rules svc))) \<and>
        same_event r (recompute_event org actor actorType res now) \<and> db_of s' = (db_of t)\<lparr>audit_events := audit_events s @ [r]\<rparr>)"

lemma settled_audit: "diff_settled org M now s sm news t \<Longrightarrow> audit_events t = audit_events s"
  using arg_cong [OF settled_findings(2), of org M now s sm news t audit_events] by simp

lemma recomputedI:
  assumes d: "diff_and_audit env svc diff org actor actorType now s1 = (Inr res, s2)" and eq: "db_of s1 = db_of s" "db_of s' = db_of s2"
    and st: "\<And>sm t. diff s1 = (Inr sm, t) \<Longrightarrow> \<exists>news. diff_settled org M now s1 sm news t"
  shows "recomputed svc org M now actor actorType s res s'"
proof -
  from diff_and_audit_Inr [OF d] obtain sm t r where 1: "diff s1 = (Inr sm, t)" "res = toRecomputeResult sm (int (length (fs_rules svc)))"
    "same_event r (recompute_event org actor actorType res now)" "db_of s2 = (db_of t)\<lparr>audit_events := audit_events t @ [r]\<rparr>" by blast
  from st [OF 1(1)] settled_base [OF _ eq(1)] obtain news where "diff_settled org M now s sm news t" by blast
  with 1 settled_audit [OF this] eq(2) show ?thesis unfolding recomputed_def by metis
qed

lemma recomputeWithActor_Inr:
  assumes run: "recomputeWithActor env ord svc org actor actorType s = (Inr res, s')"
    and wf: "find_wf s" and ids: "nonempty_ids s" and ord: "map_order ord"
  defines "now \<equiv> clockAt env (w_clock s)"
  shows "recomputed svc org (org_matches svc org now s) now actor actorType s res s'"
proof -
  from run have run': "WithTxLockedFindingsRepeatableRead env org (diff_and_audit env svc (runDiffStreaming env ord svc org now) org actor actorType now)
      (s\<lparr>w_clock := Suc (w_clock s)\<rparr>) = (Inr res, s')"
    by (simp add: recomputeWithActor_def bindE_def Now_def now_def)
  from frr.commits [OF run'] obtain s1 s2 where eq: "db_of s1 = db_of s" "db_of s' = db_of s2"
    and d: "diff_and_audit env svc (runDiffStreaming env ord svc org now) org actor actorType now s1 = (Inr res, s2)"
    by auto
  show ?thesis
  proof (rule recomputedI [OF d eq])
    fix sm t assume "runDiffStreaming env ord svc org now s1 = (Inr sm, t)"
    from streaming_settles [OF this _ _ ord] wf ids show "\<exists>news. diff_settled org (org_matches svc org now s) now s1 sm news t"
      by (simp add: same_find_tables(3,4) [OF eq(1)] matches_base [OF eq(1)])
  qed
qed

lemma recomputeWithActor_atomic: "fails_clean db_of (recomputeWithActor env ord svc org actor actorType)"
  unfolding recomputeWithActor_def by (intro frr.reads_then_run frame_intros)

lemma RecomputeLegacyLoadAll_Inr:
  assumes run: "RecomputeLegacyLoadAll env ord svc inp s = (Inr res, s')" and wf: "find_wf s" and ord: "map_order ord"
  defines "now \<equiv> clockAt env (w_clock s)" and "org \<equiv> fi_OrganizationID inp"
  shows "recomputed svc org (org_counted_matches svc org now s) now (fst (finding_recompute_actor inp)) (snd (finding_recompute_actor inp)) s res s'"
proof -
  obtain actor actorType where ac: "finding_recompute_actor inp = (actor, actorType)" by (cases "finding_recompute_actor inp")
  from run have run': "WithTxLockedFindings env org (diff_and_audit env svc (runDiffLoadAll env ord svc org now) org actor actorType now)
      (s\<lparr>w_clock := Suc (w_clock s)\<rparr>) = (Inr res, s')"
    by (simp add: RecomputeLegacyLoadAll_def bindE_def Now_def now_def org_def guardE_def retE_def throwE_def ac split: if_splits)
  from ftx.commits [OF run'] obtain s1 s2 where eq: "db_of s1 = db_of s" "db_of s' = db_of s2"
    and d: "diff_and_audit env svc (runDiffLoadAll env ord svc org now) org actor actorType now s1 = (Inr res, s2)"
    by auto
  have same: "org_counted_matches svc org now s1 = org_counted_matches svc org now s"
    using arg_cong [OF eq(1), of t_certs] arg_cong [OF eq(1), of t_cert_observations]
    by (simp add: org_counted_matches_def counted_summary_def [abs_def])
  show ?thesis unfolding ac fst_conv snd_conv
  proof (rule recomputedI [OF d eq])
    fix sm t assume "runDiffLoadAll env ord svc org now s1 = (Inr sm, t)"
    from load_all_settles [OF this _ ord] wf show "\<exists>news. diff_settled org (org_counted_matches svc org now s) now s1 sm news t"
      by (simp add: same_find_tables(4) [OF eq(1)] same)
  qed
qed

section \<open>The counters\<close>

lemma count_two:
  "a \<noteq> b \<Longrightarrow> count (image_mset g (mset xs)) a + count (image_mset g (mset xs)) b = length (filter (\<lambda>x. g x = a \<or> g x = b) xs)"
  by (induction xs) auto

lemma bucket_active:
  assumes "\<not> isl (row_result M now f)"
  shows "bucket_of M now f = counterOpened \<or> bucket_of M now f = counterUpdated \<longleftrightarrow> fd_Status (advance M now f) \<noteq> StatusResolved"
    "bucket_of M now f = counterResolved \<or> bucket_of M now f = counterUnchanged \<longleftrightarrow> fd_Status (advance M now f) = StatusResolved"
proof -
  have "(bucket_of M now f = counterOpened \<or> bucket_of M now f = counterUpdated \<longleftrightarrow> fd_Status (advance M now f) \<noteq> StatusResolved) \<and>
    (bucket_of M now f = counterResolved \<or> bucket_of M now f = counterUnchanged \<longleftrightarrow> fd_Status (advance M now f) = StatusResolved)"
  proof (cases "map_of M (row_key f)")
    case None
    then show ?thesis using assms
      by (cases "fd_Status f") (simp_all add: advance_def row_result_def bucket_of_def cleared_override_def)
  next
    case (Some m)
    then show ?thesis using assms
      by (cases "fd_Status f") (simp_all add: advance_def row_result_def bucket_of_def cleared_override_def refreshed_def)
  qed
  then show "bucket_of M now f = counterOpened \<or> bucket_of M now f = counterUpdated \<longleftrightarrow> fd_Status (advance M now f) \<noteq> StatusResolved"
    "bucket_of M now f = counterResolved \<or> bucket_of M now f = counterUnchanged \<longleftrightarrow> fd_Status (advance M now f) = StatusResolved" by blast+
qed

text \<open>The organization's findings in a given state of resolution.\<close>

definition unresolved_rows :: "string \<Rightarrow> 'z find_db_scheme \<Rightarrow> Finding list" where
  "unresolved_rows org s = filter (\<lambda>f. fd_OrganizationID f = org \<and> fd_Status f \<noteq> StatusResolved) (t_findings s)"

definition resolved_rows :: "string \<Rightarrow> 'z find_db_scheme \<Rightarrow> Finding list" where
  "resolved_rows org s = filter (\<lambda>f. fd_OrganizationID f = org \<and> fd_Status f = StatusResolved) (t_findings s)"

lemma settled_news:
  assumes st: "diff_settled org M now s sm news t" and g: "g \<in> set news"
  shows "fd_OrganizationID g = org" "fd_Status g = StatusOpen"
proof -
  from settled_findings(4) [OF st g] obtain m where "map_of M (row_key g) = Some m"
    and eq: "g = new_finding (fd_ID g) org (fst (row_key g)) (me_rule m) (me_match m) now"
    by (elim exE conjE) (rule that)
  from arg_cong [OF eq, of fd_OrganizationID] arg_cong [OF eq, of fd_Status]
  show "fd_OrganizationID g = org" "fd_Status g = StatusOpen" by (simp_all add: new_finding_def)
qed

lemma filter_advance_length:
  "length (filter (\<lambda>f. fd_OrganizationID f = org \<and> P f) (map (\<lambda>f. if fd_OrganizationID f = org then advance M now f else f) xs)) =
   length (filter (\<lambda>f. P (advance M now f)) (filter (\<lambda>f. fd_OrganizationID f = org) xs))"
  by (induction xs) auto

lemma settled_counts:
  assumes st: "diff_settled org M now s sm news t"
  shows "ds_counters sm counterOpened + ds_counters sm counterUpdated = int (length (unresolved_rows org t))"
    "ds_counters sm counterResolved + ds_counters sm counterUnchanged = int (length (resolved_rows org t))"
proof -
  let ?R = "org_findings org s" and ?F = "filter (\<lambda>f. fd_OrganizationID f = org) (t_findings s)"
  have wf: "find_wf s" and c: "ds_counters sm = opened (length news) (settled_rows M now ?R)"
    using st by (simp_all add: diff_settled_def Let_def passed_def)
  have "mset ?R = mset ?F" by (simp add: org_findings_def)
  then have c: "ds_counters sm b = (if b = counterOpened then int (length news) else 0) + int (count (image_mset (bucket_of M now) (mset ?F)) b)" for b
    unfolding c settled_rows_def opened_def counts_of_def by simp
  have sup: "\<not> isl (row_result M now f)" if "f \<in> set ?F" for f
    using st org_row [OF wf, of f org] that by (simp add: diff_settled_def Let_def)
  have act: "filter (\<lambda>f. bucket_of M now f = counterOpened \<or> bucket_of M now f = counterUpdated) ?F = filter (\<lambda>f. fd_Status (advance M now f) \<noteq> StatusResolved) ?F"
    "filter (\<lambda>f. bucket_of M now f = counterResolved \<or> bucket_of M now f = counterUnchanged) ?F = filter (\<lambda>f. fd_Status (advance M now f) = StatusResolved) ?F"
    by (intro filter_cong refl bucket_active sup, assumption)+
  have new: "filter (\<lambda>f. fd_OrganizationID f = org \<and> fd_Status f \<noteq> StatusResolved) news = news"
    "filter (\<lambda>f. fd_OrganizationID f = org \<and> fd_Status f = StatusResolved) news = []"
    using settled_news [OF st] by (auto intro: filter_True filter_False)
  have len: "length (unresolved_rows org t) = length (filter (\<lambda>f. fd_Status (advance M now f) \<noteq> StatusResolved) ?F) + length news"
    "length (resolved_rows org t) = length (filter (\<lambda>f. fd_Status (advance M now f) = StatusResolved) ?F)"
    unfolding unresolved_rows_def resolved_rows_def settled_findings(1) [OF st] filter_append new length_append filter_advance_length by simp_all
  show "ds_counters sm counterOpened + ds_counters sm counterUpdated = int (length (unresolved_rows org t))"
    using count_two [of counterOpened counterUpdated "bucket_of M now" ?F] unfolding len act c by simp
  show "ds_counters sm counterResolved + ds_counters sm counterUnchanged = int (length (resolved_rows org t))"
    using count_two [of counterResolved counterUnchanged "bucket_of M now" ?F] unfolding len act c by simp
qed

section \<open>Recompute\<close>

lemma recomputed_findings:
  assumes "recomputed svc org M now actor actorType s res s'"
  obtains sm news t where "diff_settled org M now s sm news t" "res = toRecomputeResult sm (int (length (fs_rules svc)))"
    "t_findings s' = t_findings t" "t_certs s' = t_certs s"
    "\<exists>r. same_event r (recompute_event org actor actorType res now) \<and> audit_events s' = audit_events s @ [r]"
proof -
  from assms obtain sm news t r where 1: "diff_settled org M now s sm news t" "res = toRecomputeResult sm (int (length (fs_rules svc)))"
    and 2: "same_event r (recompute_event org actor actorType res now)" and db: "db_of s' = (db_of t)\<lparr>audit_events := audit_events s @ [r]\<rparr>"
    unfolding recomputed_def by blast
  have "t_certs t = t_certs s" using arg_cong [OF settled_findings(2) [OF 1(1)], of t_certs] by simp
  with arg_cong [OF db, of t_findings] arg_cong [OF db, of t_certs] arg_cong [OF db, of audit_events]
  have "t_findings s' = t_findings t" "t_certs s' = t_certs s" "audit_events s' = audit_events s @ [r]" by simp_all
  with 1 2 that show thesis by blast
qed

lemma FindingRecompute_Inr:
  assumes run: "FindingRecompute env ord svc inp s = (Inr res, s')"
    and "find_wf s" and "nonempty_ids s" and "map_order ord"
  defines "now \<equiv> clockAt env (w_clock s)" and "org \<equiv> fi_OrganizationID inp"
  shows "recomputed svc org (org_matches svc org now s) now (fst (finding_recompute_actor inp)) (snd (finding_recompute_actor inp)) s res s'"
proof -
  obtain actor actorType where ac: "finding_recompute_actor inp = (actor, actorType)" by (cases "finding_recompute_actor inp")
  from run have "recomputeWithActor env ord svc org actor actorType s = (Inr res, s')"
    by (simp add: FindingRecompute_def ac org_def bindE_def guardE_def retE_def throwE_def split: if_splits)
  from recomputeWithActor_Inr [OF this assms(2-4)] show ?thesis by (simp add: ac now_def)
qed

text \<open>
  The books of a recompute balance. The result of a successful recompute counts every certificate of
  the organization once, its opened and updated counters together are the unresolved findings the
  organization has afterwards and its resolved and unchanged ones the resolved findings, and exactly one
  audit row is appended, carrying these numbers under the operator's name.
\<close>

theorem recompute_counts_balance:
  assumes "FindingRecompute env ord svc inp s = (Inr res, s')"
    and "find_wf s" and "nonempty_ids s" and "map_order ord"
  shows "fo_EvaluatedCertificates res = int (length (filter (\<lambda>c. cr_OrganizationID c = fi_OrganizationID inp) (t_certs s))) \<and>
    fo_Opened res + fo_Updated res = int (length (unresolved_rows (fi_OrganizationID inp) s')) \<and>
    fo_Resolved res + fo_Unchanged res = int (length (resolved_rows (fi_OrganizationID inp) s')) \<and>
    (\<exists>r. audit_events s' = audit_events s @ [r] \<and> ev_Action r = ''findings.recomputed'' \<and> ev_Actor r = fst (finding_recompute_actor inp) \<and>
      ev_OrganizationID r = fi_OrganizationID inp \<and> ev_Metadata r = recompute_metadata (fi_OrganizationID inp) res)"
proof -
  obtain sm news t where st: "diff_settled (fi_OrganizationID inp) (org_matches svc (fi_OrganizationID inp) (clockAt env (w_clock s)) s) (clockAt env (w_clock s)) s sm news t"
    and res: "res = toRecomputeResult sm (int (length (fs_rules svc)))" and rows: "t_findings s' = t_findings t"
    and au: "\<exists>r. same_event r (recompute_event (fi_OrganizationID inp) (fst (finding_recompute_actor inp)) (snd (finding_recompute_actor inp)) res (clockAt env (w_clock s))) \<and>
      audit_events s' = audit_events s @ [r]"
    by (rule recomputed_findings [OF FindingRecompute_Inr [OF assms]])
  from au obtain r where r: "same_event r (recompute_event (fi_OrganizationID inp) (fst (finding_recompute_actor inp)) (snd (finding_recompute_actor inp)) res (clockAt env (w_clock s)))"
    "audit_events s' = audit_events s @ [r]" by blast
  have "unresolved_rows (fi_OrganizationID inp) s' = unresolved_rows (fi_OrganizationID inp) t" "resolved_rows (fi_OrganizationID inp) s' = resolved_rows (fi_OrganizationID inp) t"
    by (simp_all add: unresolved_rows_def resolved_rows_def rows)
  moreover have "ds_evaluatedCertificates sm = int (length (filter (\<lambda>c. cr_OrganizationID c = fi_OrganizationID inp) (t_certs s)))"
    using st by (simp add: diff_settled_def Let_def org_summaries_def)
  moreover have "ev_Action r = ''findings.recomputed'' \<and> ev_Actor r = fst (finding_recompute_actor inp) \<and>
      ev_OrganizationID r = fi_OrganizationID inp \<and> ev_Metadata r = recompute_metadata (fi_OrganizationID inp) res"
    using same_event_fields [OF r(1)] by (simp add: recompute_event_def)
  ultimately show ?thesis using settled_counts [OF st] r(2) by (auto simp: res toRecomputeResult_def)
qed

text \<open>The documented life of a finding: what the next recompute makes of its status.\<close>

fun next_status :: "bool \<Rightarrow> bool \<Rightarrow> Status \<Rightarrow> Status" where
  "next_status fires expired StatusAcknowledged = (if fires then StatusAcknowledged else StatusResolved)"
| "next_status fires expired StatusSuppressed =
     (if \<not> fires then StatusResolved else if expired then StatusOpen else StatusSuppressed)"
| "next_status fires expired st = (if fires then StatusOpen else StatusResolved)"

definition override_columns :: "Finding \<Rightarrow> string \<times> string \<times> Time option \<times> Time option" where
  "override_columns f = (fd_StatusReason f, fd_StatusActor f, fd_StatusChangedAt f, fd_SuppressExpiresAt f)"

lemma advance_life:
  assumes ok: "finding_ok f"
  shows "fd_Status (advance M now f) = next_status (map_of M (row_key f) \<noteq> None) (suppression_expired now f) (fd_Status f)"
    "fd_FirstSeenAt (advance M now f) = fd_FirstSeenAt f"
    "fd_LastSeenAt (advance M now f) = (if map_of M (row_key f) \<noteq> None then now else fd_LastSeenAt f)"
    "override_columns (advance M now f) =
       (if fd_Status (advance M now f) \<in> {StatusAcknowledged, StatusSuppressed} then override_columns f else ([], [], None, None))"
proof -
  have "fd_Status (advance M now f) = next_status (map_of M (row_key f) \<noteq> None) (suppression_expired now f) (fd_Status f) \<and>
    fd_FirstSeenAt (advance M now f) = fd_FirstSeenAt f \<and>
    fd_LastSeenAt (advance M now f) = (if map_of M (row_key f) \<noteq> None then now else fd_LastSeenAt f) \<and>
    override_columns (advance M now f) =
      (if fd_Status (advance M now f) \<in> {StatusAcknowledged, StatusSuppressed} then override_columns f else ([], [], None, None))"
  proof (cases "map_of M (row_key f)")
    case None
    then show ?thesis using ok
      by (cases "fd_Status f") (simp_all add: advance_def row_result_def cleared_override_def override_columns_def finding_ok_def)
  next
    case (Some m)
    then show ?thesis using ok
      by (cases "fd_Status f")
        (simp_all add: advance_def row_result_def cleared_override_def refreshed_def override_columns_def finding_ok_def)
  qed
  then show "fd_Status (advance M now f) = next_status (map_of M (row_key f) \<noteq> None) (suppression_expired now f) (fd_Status f)"
    "fd_FirstSeenAt (advance M now f) = fd_FirstSeenAt f"
    "fd_LastSeenAt (advance M now f) = (if map_of M (row_key f) \<noteq> None then now else fd_LastSeenAt f)"
    "override_columns (advance M now f) =
       (if fd_Status (advance M now f) \<in> {StatusAcknowledged, StatusSuppressed} then override_columns f else ([], [], None, None))" by blast+
qed

text \<open>
  C7: The life of a finding. A successful recompute gives every existing finding of the organization the
  status the documented state machine prescribes: a finding whose rule no longer fires is resolved; an
  acknowledgement survives while the rule fires, a suppression until it expires, and an expired one
  reopens. First sighting and identity never change, the last sighting moves exactly when the rule fires,
  and the operator's reason, name, time and expiry are kept with the override and erased with it.
\<close>

theorem recompute_state_machine:
  assumes "FindingRecompute env ord svc inp s = (Inr res, s')"
    and "find_ok s" and "nonempty_ids s" and "map_order ord"
    and "f \<in> set (t_findings s)" and "fd_OrganizationID f = fi_OrganizationID inp"
  shows "\<exists>g \<in> set (t_findings s'). \<exists>fires.
    fires = (match_of (fs_rules svc) (clockAt env (w_clock s)) (org_summaries (fi_OrganizationID inp) s) (row_key f) \<noteq> None) \<and>
    fd_ID g = fd_ID f \<and> row_key g = row_key f \<and> fd_FirstSeenAt g = fd_FirstSeenAt f \<and>
    fd_Status g = next_status fires (suppression_expired (clockAt env (w_clock s)) f) (fd_Status f) \<and>
    fd_LastSeenAt g = (if fires then clockAt env (w_clock s) else fd_LastSeenAt f) \<and>
    override_columns g = (if fd_Status g \<in> {StatusAcknowledged, StatusSuppressed} then override_columns f else ([], [], None, None))"
proof -
  let ?org = "fi_OrganizationID inp" and ?now = "clockAt env (w_clock s)"
  let ?M = "org_matches svc ?org ?now s"
  have wf: "find_wf s" and ok: "finding_ok f" using assms(2,5) by (simp_all add: find_ok_def)
  obtain sm news t where st: "diff_settled ?org ?M ?now s sm news t" and rows: "t_findings s' = t_findings t"
    by (rule recomputed_findings [OF FindingRecompute_Inr [OF assms(1) wf assms(3,4)]])
  have M: "map_of ?M k = match_of (fs_rules svc) ?now (org_summaries ?org s) k" for k
    unfolding org_matches_def by (rule evaluatePage_match_of [OF find_wf_summaries [OF wf]])
  have "advance ?M ?now f \<in> (\<lambda>f. if fd_OrganizationID f = ?org then advance ?M ?now f else f) ` set (t_findings s)"
    using assms(5,6) by (intro image_eqI [of _ _ f]) simp_all
  then have "advance ?M ?now f \<in> set (t_findings s')" unfolding rows settled_findings(1) [OF st] by simp
  with advance_life [OF ok, of ?M ?now] show ?thesis unfolding M by (intro bexI [of _ "advance ?M ?now f"]) simp_all
qed

lemma recomputed_wf:
  assumes "recomputed svc org M now actor actorType s res s'"
  shows "find_wf s'" "find_ok s \<Longrightarrow> find_ok s'"
proof -
  from assms obtain sm news t r where st: "diff_settled org M now s sm news t" and db: "db_of s' = (db_of t)\<lparr>audit_events := audit_events s @ [r]\<rparr>"
    unfolding recomputed_def by blast
  have same: "t_findings s' = t_findings t" "t_certs s' = t_certs t"
    using arg_cong [OF db, of t_findings] arg_cong [OF db, of t_certs] by simp_all
  then have wf: "find_wf s' = find_wf t" by (simp add: find_wf_def)
  with settled_findings(3) [OF st] show "find_wf s'" by simp
  show "find_ok s'" if "find_ok s"
    using settled_ok [OF st that] wf same by (simp add: find_ok_def)
qed

lemma recomputed_ids:
  assumes run: "recomputeWithActor env ord svc org actor actorType s = (Inr res, s')" and "nonempty_ids s" and "\<And>i. idAt env i \<noteq> []"
  shows "nonempty_ids s'"
proof -
  have frame: "nonempty_ids (u\<lparr>audit_events := x\<rparr>) = nonempty_ids u" for u :: "'a find_db_scheme" and x by (simp add: nonempty_ids_def)
  have body: "keeps nonempty_ids (diff_and_audit env svc (runDiffStreaming env ord svc org now) org actor actorType now)" for now
    unfolding diff_and_audit_def recordRecomputeAudit_def
    by (intro keep_intros keeps_ids_diffs assms(3) keeps_Record nonempty_ids_db_of) (simp_all add: nonempty_ids_def)
  have "keeps nonempty_ids (recomputeWithActor env ord svc org actor actorType)"
    unfolding recomputeWithActor_def
    by (intro keeps_bindE keeps_transactions nonempty_ids_db_of body keeps_ids_read frame_intros)
  from keepsD [OF this assms(2) run] show ?thesis .
qed

text \<open>
  Recomputing is idempotent. A second recompute at the same instant, with no certificate changed in
  between, leaves every finding exactly as the first one left it, and opens and resolves nothing. The two
  runs may differ in who started them, in page size and in map order.
\<close>

theorem recompute_idempotent:
  assumes "recomputeWithActor env ord svc org actor actorType s = (Inr res, s')"
    and "recomputeWithActor env ord' (svc\<lparr>fs_streamingPageOverride := n\<rparr>) org actor' actorType' s' = (Inr res', s'')"
    and "find_wf s" and "nonempty_ids s" and "map_order ord" and "map_order ord'" and "\<forall>i. idAt env i \<noteq> []"
    and "clockAt env (w_clock s') = clockAt env (w_clock s)"
  shows "t_findings s'' = t_findings s' \<and> fo_Opened res' = 0 \<and> fo_Resolved res' = 0"
proof -
  let ?now = "clockAt env (w_clock s)" and ?svc = "svc\<lparr>fs_streamingPageOverride := n\<rparr>"
  let ?M = "org_matches svc org ?now s"
  note r1 = recomputeWithActor_Inr [OF assms(1,3,4,5)]
  have ids: "nonempty_ids s'" using assms(7) by (intro recomputed_ids [OF assms(1,4)]) blast
  note r2 = recomputeWithActor_Inr [OF assms(2) recomputed_wf(1) [OF r1] ids assms(6), unfolded assms(8)]
  from r1 obtain sm news t r where 1: "diff_settled org ?M ?now s sm news t" and db: "db_of s' = (db_of t)\<lparr>audit_events := audit_events s @ [r]\<rparr>"
    unfolding recomputed_def by blast
  obtain sm' news' u where 2: "diff_settled org (org_matches ?svc org ?now s') ?now s' sm' news' u" and res': "res' = toRecomputeResult sm' (int (length (fs_rules ?svc)))"
    and u: "t_findings s'' = t_findings u" by (rule recomputed_findings [OF r2])
  have certs: "t_certs s' = t_certs s"
    using arg_cong [OF db, of t_certs] arg_cong [OF settled_findings(2) [OF 1], of t_certs] by simp
  then have M: "org_matches ?svc org ?now s' = ?M" by (simp add: org_matches_def org_summaries_def)
  have rows: "t_findings s' = t_findings t" using arg_cong [OF db, of t_findings] by simp
  from settled_again [OF 1 2 [unfolded M] rows] show ?thesis by (simp add: u rows res' toRecomputeResult_def)
qed

section \<open>Overrides\<close>

lemma GetFinding_Inr:
  assumes "repo_GetFinding env org i s = (Inr f, s')"
  shows "\<exists>r \<in> set (t_findings s). is_finding org i r \<and> f = with_cert (stepped s) r" "db_of s' = db_of s"
proof -
  from assms show "\<exists>r \<in> set (t_findings s). is_finding org i r \<and> f = with_cert (stepped s) r"
    by (auto simp: repo_GetFinding_def run_simps split: option.splits dest!: find_Some_D)
  show "db_of s' = db_of s" by (rule leavesD [OF leaves_find_reads(1) assms])
qed

lemma with_cert_columns: "set_columns (overridden req now (with_cert s r)) r = overridden req now r"
  "fd_ID (with_cert s r) = fd_ID r" "fd_OrganizationID (with_cert s r) = fd_OrganizationID r" "fd_Status (with_cert s r) = fd_Status r"
  by (cases r; simp add: with_cert_def set_columns_def overridden_def split: option.split)+

lemma db_of_put_findings: "db_of (u\<lparr>t_findings := x\<rparr>) = (db_of u)\<lparr>t_findings := x\<rparr>"
  by (simp add: db_of_def)

text \<open>What an override leaves: one row rewritten, one audit row.\<close>

lemma applyOverride_Inr:
  assumes run: "applyOverride env req s = (Inr g, s')" and wf: "find_wf s"
  defines "now \<equiv> clockAt env (w_clock s)"
  shows "\<exists>f \<in> set (t_findings s). \<exists>r. is_finding (or_OrganizationID req) (or_FindingID req) f \<and>
    db_of s' = (db_of s)\<lparr>t_findings := map (\<lambda>x. if fd_ID x = fd_ID f then overridden req now f else x) (t_findings s),
      audit_events := audit_events s @ [r]\<rparr> \<and>
    same_event r (finding_override_event req (fd_Status f) now) \<and> set_columns g f = overridden req now f \<and> fd_Status g = or_NewStatus req"
proof -
  let ?org = "or_OrganizationID req"
  let ?body = "bindE (repo_GetFinding env ?org (or_FindingID req)) (\<lambda>prior.
        bindE (UpdateFinding env (overridden req now prior)) (\<lambda>_.
        bindE (recordFindingOverrideAudit env req (fd_Status prior) now) (\<lambda>_. retE (overridden req now prior))))"
  from run have "WithTxLockedFindings env ?org ?body (s\<lparr>w_clock := Suc (w_clock s)\<rparr>) = (Inr g, s')"
    by (simp add: applyOverride_def bindE_def Now_def now_def)
  from ftx.commits [OF this] obtain s1 s2 where eq: "db_of s1 = db_of s" "db_of s' = db_of s2" and b: "?body s1 = (Inr g, s2)" by auto
  from b obtain prior s3 u s4 v where 1: "repo_GetFinding env ?org (or_FindingID req) s1 = (Inr prior, s3)"
    and 2: "UpdateFinding env (overridden req now prior) s3 = (Inr u, s4)"
    and 3: "Record env (finding_override_event req (fd_Status prior) now) s4 = (Inr v, s2)" and g: "g = overridden req now prior"
    by (auto simp: run_simps recordFindingOverrideAudit_def)
  from GetFinding_Inr(1) [OF 1] obtain f where f1: "f \<in> set (t_findings s1)" and i: "is_finding ?org (or_FindingID req) f"
    and prior: "prior = with_cert (stepped s1) f" by blast
  have rows: "t_findings s1 = t_findings s" "t_findings s3 = t_findings s1" "audit_events s3 = audit_events s"
    using arg_cong [OF eq(1), of t_findings] arg_cong [OF GetFinding_Inr(2) [OF 1], of t_findings]
      arg_cong [OF GetFinding_Inr(2) [OF 1], of audit_events] arg_cong [OF eq(1), of audit_events] by simp_all
  have s4: "s4 = (stepped s3)\<lparr>t_findings := update_where (is_finding (fd_OrganizationID prior) (fd_ID prior)) (set_columns (overridden req now prior)) (t_findings s3)\<rparr>"
    using 2 by (auto simp: UpdateFinding_def exec_hit_Inr overridden_def)
  have f: "f \<in> set (t_findings s)" using f1 rows by simp
  have "update_where (is_finding (fd_OrganizationID prior) (fd_ID prior)) (set_columns (overridden req now prior)) (t_findings s) =
      map (\<lambda>x. if fd_ID x = fd_ID f then overridden req now f else x) (t_findings s)"
    unfolding update_where_def
  proof (intro map_cong refl)
    fix x assume x: "x \<in> set (t_findings s)"
    have "x = f" if "fd_ID x = fd_ID f" by (rule same_finding(1) [OF wf f x that])
    then show "(if is_finding (fd_OrganizationID prior) (fd_ID prior) x then set_columns (overridden req now prior) x else x) =
        (if fd_ID x = fd_ID f then overridden req now f else x)"
      by (cases "x = f") (auto simp: prior with_cert_columns is_finding_def)
  qed
  then have db4: "db_of s4 = (db_of s)\<lparr>t_findings := map (\<lambda>x. if fd_ID x = fd_ID f then overridden req now f else x) (t_findings s)\<rparr>"
    unfolding s4 db_of_put_findings by (simp add: rows GetFinding_Inr(2) [OF 1] eq(1))
  from Record_db [OF 3] obtain r where r: "same_event r (finding_override_event req (fd_Status prior) now)"
    and db2: "db_of s2 = (db_of s4)\<lparr>audit_events := audit_events s4 @ [r]\<rparr>" by blast
  have "audit_events s4 = audit_events s" using s4 rows by (simp add: stepped_def)
  then have "db_of s' = (db_of s)\<lparr>t_findings := map (\<lambda>x. if fd_ID x = fd_ID f then overridden req now f else x) (t_findings s),
      audit_events := audit_events s @ [r]\<rparr>"
    using db2 db4 eq(2) by simp
  then show ?thesis using f i r g with_cert_columns
    by (intro bexI [of _ f] exI [of _ r] conjI) (simp_all add: prior with_cert_columns, simp add: overridden_def)
qed

text \<open>
  A suppression does what the operator asked and nothing else. A successful request had a reason of
  one to a thousand bytes once trimmed, and an expiry, if any, in the future; it rewrites the status and
  the override columns of the one finding with that identifier in that organization, whatever its status
  was, drops its resolution time, and appends one security audit row that names the operator and the
  status before.
\<close>

theorem SuppressFinding_effect:
  assumes "SuppressFinding env inp s = (Inr g, s')" and "find_wf s"
  shows "TrimSpace (ai_Reason inp) \<noteq> [] \<and> length (TrimSpace (ai_Reason inp)) \<le> 1000 \<and>
    (\<forall>t. si_ExpiresAt inp = Some t \<longrightarrow> clockAt env (w_clock s) < t) \<and>
    (\<exists>f \<in> set (t_findings s). \<exists>r. fd_ID f = ai_FindingID inp \<and> fd_OrganizationID f = ai_OrganizationID inp \<and>
      t_findings s' = map (\<lambda>x. if fd_ID x = ai_FindingID inp then
          f\<lparr>fd_Status := StatusSuppressed, fd_StatusReason := TrimSpace (ai_Reason inp), fd_StatusActor := ai_ActorUserID inp,
            fd_StatusChangedAt := Some (clockAt env (Suc (w_clock s))), fd_SuppressExpiresAt := si_ExpiresAt inp,
            fd_UpdatedAt := clockAt env (Suc (w_clock s)), fd_ResolvedAt := None\<rparr> else x) (t_findings s) \<and>
      audit_events s' = audit_events s @ [r] \<and> ev_Action r = ''finding.suppressed'' \<and> ev_Actor r = ai_ActorUserID inp \<and>
      ev_TargetID r = ai_FindingID inp \<and> json_field ''severity'' (ev_Metadata r) = Some (JStr ''security'') \<and>
      json_field ''previous_status'' (ev_Metadata r) = Some (JStr (status_string (fd_Status f))))"
proof -
  let ?req = "\<lparr>or_OrganizationID = ai_OrganizationID inp, or_FindingID = ai_FindingID inp,
       or_ActorUserID = ai_ActorUserID inp, or_Reason = TrimSpace (ai_Reason inp), or_NewStatus = StatusSuppressed,
       or_SuppressExpiresAt = si_ExpiresAt inp, or_AuditAction = ''finding.suppressed''\<rparr>"
  let ?s = "s\<lparr>w_clock := Suc (w_clock s)\<rparr>"
  from assms(1) have v: "validateSuppressInput inp (clockAt env (w_clock s)) = Inr ()" and run: "applyOverride env ?req ?s = (Inr g, s')"
    by (auto simp: SuppressFinding_def run_simps)
  from v have in_ok: "TrimSpace (ai_Reason inp) \<noteq> []" "length (TrimSpace (ai_Reason inp)) \<le> 1000"
    "\<forall>t. si_ExpiresAt inp = Some t \<longrightarrow> clockAt env (w_clock s) < t"
    by (auto simp: validateSuppressInput_def validateReason_def Let_def MaxOverrideReasonLength_def split: if_splits option.splits)
  have "find_wf ?s" using assms(2) by (simp add: find_wf_def)
  from applyOverride_Inr [OF run this] obtain f r where f0: "f \<in> set (t_findings ?s)" "is_finding (or_OrganizationID ?req) (or_FindingID ?req) f"
    and db: "db_of s' = (db_of ?s)\<lparr>t_findings := map (\<lambda>x. if fd_ID x = fd_ID f then overridden ?req (clockAt env (w_clock ?s)) f else x) (t_findings ?s),
      audit_events := audit_events ?s @ [r]\<rparr>" and r: "same_event r (finding_override_event ?req (fd_Status f) (clockAt env (w_clock ?s)))"
    by blast
  have f: "f \<in> set (t_findings s)" "is_finding (ai_OrganizationID inp) (ai_FindingID inp) f" using f0 by simp_all
  have rows: "t_findings s' = map (\<lambda>x. if fd_ID x = fd_ID f then overridden ?req (clockAt env (Suc (w_clock s))) f else x) (t_findings s)"
    and au: "audit_events s' = audit_events s @ [r]"
    using arg_cong [OF db, of t_findings] arg_cong [OF db, of audit_events] by simp_all
  have ev: "ev_Action r = ''finding.suppressed''" "ev_Actor r = ai_ActorUserID inp" "ev_TargetID r = ai_FindingID inp"
    "json_field ''severity'' (ev_Metadata r) = Some (JStr ''security'')"
    "json_field ''previous_status'' (ev_Metadata r) = Some (JStr (status_string (fd_Status f)))"
    using same_event_fields [OF r] by (simp_all add: finding_override_event_def override_metadata_def json_field_def)
  from f have "fd_ID f = ai_FindingID inp" "fd_OrganizationID f = ai_OrganizationID inp" by (simp_all add: is_finding_def)
  with f(1) in_ok rows au ev show ?thesis
    by (intro conjI bexI [of _ f] exI [of _ r]) (simp_all add: overridden_def)
qed

section \<open>Histories\<close>

datatype find_cmd =
    CmdRecompute FindingRecomputeInput
  | CmdScheduled string
  | CmdLegacy FindingRecomputeInput
  | CmdAcknowledge AcknowledgeInput
  | CmdSuppress SuppressInput
  | CmdGet string string
  | CmdList ListQuery

text \<open>One request, whatever it answers.\<close>

definition find_step ::
  "env \<Rightarrow> (matchKey list \<Rightarrow> matchKey list) \<Rightarrow> FindingService \<Rightarrow> find_cmd \<Rightarrow> 'z find_db_scheme \<Rightarrow> 'z find_db_scheme" where
  "find_step env ord svc cmd s = (case cmd of
       CmdRecompute inp \<Rightarrow> snd (FindingRecompute env ord svc inp s)
     | CmdScheduled org \<Rightarrow> snd (FindingRecomputeScheduled env ord svc org s)
     | CmdLegacy inp \<Rightarrow> snd (RecomputeLegacyLoadAll env ord svc inp s)
     | CmdAcknowledge inp \<Rightarrow> snd (AcknowledgeFinding env inp s)
     | CmdSuppress inp \<Rightarrow> snd (SuppressFinding env inp s)
     | CmdGet org i \<Rightarrow> snd (GetFinding env org i s)
     | CmdList q \<Rightarrow> snd (ListFindings env q s))"

definition find_history ::
  "env \<Rightarrow> (matchKey list \<Rightarrow> matchKey list) \<Rightarrow> FindingService \<Rightarrow> find_cmd list \<Rightarrow> 'z find_db_scheme \<Rightarrow> 'z find_db_scheme" where
  "find_history env ord svc cmds s = fold (find_step env ord svc) cmds s"

lemma find_ok_db_of: "find_ok (db_of s) = find_ok s"
  by (simp add: find_ok_def find_wf_db_of)

definition find_inv :: "'z find_db_scheme \<Rightarrow> bool" where
  "find_inv s \<longleftrightarrow> find_ok s \<and> nonempty_ids s"

lemma find_inv_db_of: "find_inv (db_of s) = find_inv s"
  by (simp add: find_inv_def find_ok_db_of nonempty_ids_db_of)

lemma keeps_inv_recompute [keep_intros]:
  assumes ord: "map_order ord" and ids: "\<And>i. idAt env i \<noteq> []"
  shows "keeps find_inv (recomputeWithActor env ord svc org actor actorType)"
proof (rule keeps_atomic [where P = find_inv, OF recomputeWithActor_atomic find_inv_db_of])
  fix s :: "'a find_db_scheme" and x s' assume inv: "find_inv s" and run: "recomputeWithActor env ord svc org actor actorType s = (Inr x, s')"
  then have wf: "find_wf s" and ne: "nonempty_ids s" by (simp_all add: find_inv_def find_ok_def)
  from recomputed_wf(2) [OF recomputeWithActor_Inr [OF run wf ne ord]] recomputed_ids [OF run ne ids] inv show "find_inv s'"
    by (simp add: find_inv_def)
qed

lemma override_atomic: "fails_clean db_of (applyOverride env req)"
  unfolding applyOverride_def by (intro ftx.reads_then_run frame_intros)

lemma load_all_atomic: "fails_clean db_of (RecomputeLegacyLoadAll env ord svc inp)"
proof -
  obtain actor actorType where ac: "finding_recompute_actor inp = (actor, actorType)" by (cases "finding_recompute_actor inp")
  show ?thesis unfolding RecomputeLegacyLoadAll_def ac prod.case
    by (intro fails_clean_bindE [OF leaves_guardE] ftx.reads_then_run frame_intros)
qed

lemma keeps_inv_load_all [keep_intros]:
  assumes ord: "map_order ord" and ids: "\<And>i. idAt env i \<noteq> []"
  shows "keeps find_inv (RecomputeLegacyLoadAll env ord svc inp)"
proof (rule keeps_atomic [where P = find_inv, OF load_all_atomic find_inv_db_of])
  fix s :: "'a find_db_scheme" and x s' assume inv: "find_inv s" and run: "RecomputeLegacyLoadAll env ord svc inp s = (Inr x, s')"
  then have wf: "find_wf s" and ne: "nonempty_ids s" by (simp_all add: find_inv_def find_ok_def)
  have body: "keeps nonempty_ids (diff_and_audit env svc (runDiffLoadAll env ord svc org now) org actor actorType now)" for org now actor actorType
    unfolding diff_and_audit_def recordRecomputeAudit_def
    by (intro keep_intros keeps_ids_diffs ids keeps_Record nonempty_ids_db_of) (simp_all add: nonempty_ids_def)
  have "keeps nonempty_ids (RecomputeLegacyLoadAll env ord svc inp)"
    unfolding RecomputeLegacyLoadAll_def split_def
    by (intro keeps_bindE keeps_guardE keeps_transactions nonempty_ids_db_of body keeps_ids_read frame_intros)
  from keepsD [OF this ne run] recomputed_wf(2) [OF RecomputeLegacyLoadAll_Inr [OF run wf ord]] inv show "find_inv s'"
    by (simp add: find_inv_def)
qed

lemma overridden_ok:
  assumes "or_NewStatus req = StatusAcknowledged \<and> or_SuppressExpiresAt req = None \<or> or_NewStatus req = StatusSuppressed"
  shows "finding_ok (overridden req now f)"
  using assms by (auto simp: finding_ok_def overridden_def)

lemma keeps_inv_override:
  assumes st: "or_NewStatus req = StatusAcknowledged \<and> or_SuppressExpiresAt req = None \<or> or_NewStatus req = StatusSuppressed"
  shows "keeps find_inv (applyOverride env req)"
proof (rule keeps_atomic [where P = find_inv, OF override_atomic find_inv_db_of])
  fix s :: "'a find_db_scheme" and g s' assume inv: "find_inv s" and run: "applyOverride env req s = (Inr g, s')"
  then have wf: "find_wf s" by (simp add: find_inv_def find_ok_def)
  let ?now = "clockAt env (w_clock s)"
  from applyOverride_Inr [OF run wf] obtain f r where f: "f \<in> set (t_findings s)"
    and db: "db_of s' = (db_of s)\<lparr>t_findings := map (\<lambda>x. if fd_ID x = fd_ID f then overridden req ?now f else x) (t_findings s),
      audit_events := audit_events s @ [r]\<rparr>" by blast
  have rows: "t_findings s' = map (\<lambda>x. if fd_ID x = fd_ID f then overridden req ?now f else x) (t_findings s)" "t_certs s' = t_certs s"
    using arg_cong [OF db, of t_findings] arg_cong [OF db, of t_certs] by simp_all
  let ?h = "\<lambda>x. if fd_ID x = fd_ID f then overridden req ?now f else x"
  have keys: "fd_ID (overridden req ?now f) = fd_ID f" "finding_key (overridden req ?now f) = finding_key f"
    by (simp_all add: overridden_def finding_key_def)
  have same: "x = f" if "x \<in> set (t_findings s)" "fd_ID x = fd_ID f" for x by (rule same_finding(1) [OF wf f that])
  have maps: "map fd_ID (map ?h (t_findings s)) = map fd_ID (t_findings s)" "map finding_key (map ?h (t_findings s)) = map finding_key (t_findings s)"
    unfolding map_map o_def using same keys by (intro map_cong refl; auto)+
  have "stored x = x" if "x \<in> set (t_findings s)" for x using wf that by (simp add: find_wf_def)
  moreover have "stored (overridden req ?now f) = overridden req ?now (stored f)" by (simp add: stored_def overridden_def)
  ultimately have "\<forall>x \<in> set (map ?h (t_findings s)). stored x = x" using f by auto
  with wf have "find_wf s'" unfolding find_wf_def rows maps by (elim conjE) (intro conjI; assumption)
  moreover have "\<forall>x \<in> set (t_findings s'). finding_ok x" using inv overridden_ok [OF st, of ?now f] unfolding rows by (auto simp: find_inv_def find_ok_def)
  moreover have "nonempty_ids s'" using inv keys f unfolding nonempty_ids_def rows find_inv_def by auto
  ultimately show "find_inv s'" by (simp add: find_inv_def find_ok_def)
qed

lemma keeps_inv_read: "leaves db_of m \<Longrightarrow> keeps find_inv m"
  by (rule keeps_view) (simp_all add: find_inv_db_of)

lemma keeps_snd: "keeps I m \<Longrightarrow> I s \<Longrightarrow> I (snd (m s))"
  by (simp add: keeps_def)

lemma find_step_inv:
  assumes "map_order ord" and "\<And>i. idAt env i \<noteq> []" and "find_inv s"
  shows "find_inv (find_step env ord svc cmd s)"
proof -
  have k: "keeps find_inv (FindingRecompute env ord svc inp)" "keeps find_inv (FindingRecomputeScheduled env ord svc org)"
    "keeps find_inv (RecomputeLegacyLoadAll env ord svc inp)" for inp org
    unfolding FindingRecompute_def FindingRecomputeScheduled_def by (intro keep_intros assms(1,2))+
  have o': "keeps find_inv (AcknowledgeFinding env ai)" "keeps find_inv (SuppressFinding env si)" for ai si
    unfolding AcknowledgeFinding_def SuppressFinding_def by (intro keep_intros keeps_inv_override keeps_inv_read [OF leaves_Now]; simp)+
  have r: "keeps find_inv (GetFinding env org i)" "keeps find_inv (ListFindings env q)" for org i q
    unfolding GetFinding_def ListFindings_def repo_ListFindings_def Let_def by (intro keeps_inv_read frame_intros)+
  note hit = keeps_snd [where I = find_inv, OF _ assms(3)]
  show ?thesis unfolding find_step_def
    by (cases cmd) (simp_all add: hit [OF k(1)] hit [OF k(2)] hit [OF k(3)] hit [OF o'(1)] hit [OF o'(2)] hit [OF r(1)] hit [OF r(2)])
qed

text \<open>
  C19: The findings table stays well-formed through every history of requests, failed ones included.
  Whatever recomputes, overrides and reads run in whatever order, and wherever the database fails, each
  certificate and rule keeps at most one finding per organization, a resolution time is present exactly
  on resolved findings, an operator's reason and name exactly where an override may hold them, an expiry
  only on suppressed findings, and no unknown status appears.
\<close>

theorem find_history_ok:
  assumes "find_ok s" and "nonempty_ids s" and "map_order ord" and "\<forall>i. idAt env i \<noteq> []"
  shows "find_ok (find_history env ord svc cmds s)"
proof -
  have "find_inv s \<Longrightarrow> find_inv (fold (find_step env ord svc) cmds s)"
    using assms(3,4) by (induction cmds arbitrary: s) (simp_all add: find_step_inv)
  with assms(1,2) show ?thesis by (simp add: find_history_def find_inv_def)
qed

text \<open>
  A failed recompute or override, at whatever statement it fails, leaves the database as it was.
\<close>

theorem finding_mutations_atomic:
  "fails_clean db_of (FindingRecompute env ord svc inp) \<and> fails_clean db_of (FindingRecomputeScheduled env ord svc org) \<and>
   fails_clean db_of (RecomputeLegacyLoadAll env ord svc inp) \<and> fails_clean db_of (AcknowledgeFinding env ai) \<and>
   fails_clean db_of (SuppressFinding env si)"
proof (intro conjI)
  obtain actor actorType where ac: "finding_recompute_actor inp = (actor, actorType)" by (cases "finding_recompute_actor inp")
  show "fails_clean db_of (FindingRecompute env ord svc inp)"
    unfolding FindingRecompute_def ac prod.case by (intro fails_clean_bindE leaves_guardE recomputeWithActor_atomic)
  show "fails_clean db_of (FindingRecomputeScheduled env ord svc org)"
    unfolding FindingRecomputeScheduled_def by (intro fails_clean_bindE leaves_guardE recomputeWithActor_atomic)
  show "fails_clean db_of (RecomputeLegacyLoadAll env ord svc inp)" by (rule load_all_atomic)
  show "fails_clean db_of (AcknowledgeFinding env ai)"
    unfolding AcknowledgeFinding_def by (intro fails_clean_bindE leaves_liftE override_atomic)
  show "fails_clean db_of (SuppressFinding env si)"
    unfolding SuppressFinding_def by (intro fails_clean_bindE leaves_liftE leaves_Now override_atomic)
qed

section \<open>Witnesses\<close>

definition demo_find_input :: FindingRecomputeInput where
  "demo_find_input = \<lparr>fi_OrganizationID = ''o'', fi_ActorUserID = ''u''\<rparr>"

definition demo_recomputed :: "(err + FindingRecomputeResult) \<times> find_db" where
  "demo_recomputed = FindingRecompute demo_find_env demo_order demo_find_service demo_find_input demo_find_db"

lemma demo_recomputed_run: "FindingRecompute demo_find_env demo_order demo_find_service demo_find_input demo_find_db =
    (Inr (projr (fst demo_recomputed)), snd demo_recomputed)"
proof -
  have "\<not> isl (fst demo_recomputed)" by code_simp
  from returned [OF this] show ?thesis unfolding demo_recomputed_def .
qed

theorem recompute_counts_balance_witness:
  "fo_Opened (projr (fst demo_recomputed)) + fo_Updated (projr (fst demo_recomputed)) = int (length (unresolved_rows ''o'' (snd demo_recomputed))) \<and>
   length (unresolved_rows ''o'' (snd demo_recomputed)) = 3"
proof -
  have "length (unresolved_rows ''o'' (snd demo_recomputed)) = 3" by code_simp
  then show ?thesis using recompute_counts_balance [OF demo_recomputed_run demo_find_wf demo_find_ok(2,3)] by (simp add: demo_find_input_def)
qed

theorem recompute_state_machine_witness:
  "\<exists>g \<in> set (t_findings (snd demo_recomputed)). fd_ID g = ''f1'' \<and> fd_Status g = StatusAcknowledged \<and>
     override_columns g = (''known'', ''u'', Some 6, None)"
proof -
  let ?f = "demo_finding ''f1'' ''c1'' ''self_signed_leaf'' StatusAcknowledged"
  have f: "?f \<in> set (t_findings demo_find_db)" by (simp add: demo_find_db_def)
  have org: "fd_OrganizationID ?f = fi_OrganizationID demo_find_input" by (simp add: demo_finding_def demo_find_input_def)
  have fires: "match_of (fs_rules demo_find_service) (clockAt demo_find_env (w_clock demo_find_db))
      (org_summaries (fi_OrganizationID demo_find_input) demo_find_db) (row_key ?f) \<noteq> None" by code_simp
  obtain g where "g \<in> set (t_findings (snd demo_recomputed))" "fd_ID g = fd_ID ?f" "fd_Status g = next_status True (suppression_expired (clockAt demo_find_env (w_clock demo_find_db)) ?f) (fd_Status ?f)"
    "override_columns g = (if fd_Status g \<in> {StatusAcknowledged, StatusSuppressed} then override_columns ?f else ([], [], None, None))"
    using recompute_state_machine [OF demo_recomputed_run demo_find_ok(1-3) f org] fires by auto
  then show ?thesis by (intro bexI [of _ g]) (simp_all add: demo_finding_def override_columns_def)
qed

theorem recompute_idempotent_witness:
  "t_findings (snd (recomputeWithActor demo_find_env id (demo_find_service\<lparr>fs_streamingPageOverride := 2\<rparr>) ''o'' ''v'' ''user''
     (snd (recomputeWithActor demo_find_env demo_order demo_find_service ''o'' ''u'' ''user'' demo_find_db)))) =
   t_findings (snd (recomputeWithActor demo_find_env demo_order demo_find_service ''o'' ''u'' ''user'' demo_find_db))"
proof -
  let ?a = "recomputeWithActor demo_find_env demo_order demo_find_service ''o'' ''u'' ''user'' demo_find_db"
  let ?b = "recomputeWithActor demo_find_env id (demo_find_service\<lparr>fs_streamingPageOverride := 2\<rparr>) ''o'' ''v'' ''user'' (snd ?a)"
  have "\<not> isl (fst ?a)" by code_simp
  note a = returned [OF this]
  have "\<not> isl (fst ?b)" by code_simp
  note b = returned [OF this]
  have "map_order id" "\<forall>i. idAt demo_find_env i \<noteq> []" "clockAt demo_find_env (w_clock (snd ?a)) = clockAt demo_find_env (w_clock demo_find_db)"
    by (simp_all add: map_order_def demo_find_env_def)
  with recompute_idempotent [OF a b demo_find_wf demo_find_ok(2,3)] show ?thesis by blast
qed

definition demo_suppress :: SuppressInput where
  "demo_suppress = \<lparr>ai_OrganizationID = ''o'', ai_FindingID = ''f2'', ai_ActorUserID = ''u'', ai_Reason = '' later '', si_ExpiresAt = Some 5000\<rparr>"

theorem SuppressFinding_effect_witness:
  "\<exists>r. audit_events (snd (SuppressFinding demo_find_env demo_suppress demo_find_db)) = [r] \<and> ev_Action r = ''finding.suppressed'' \<and>
     json_field ''severity'' (ev_Metadata r) = Some (JStr ''security'')"
proof -
  have "\<not> isl (fst (SuppressFinding demo_find_env demo_suppress demo_find_db))" by code_simp
  from SuppressFinding_effect [OF returned [OF this] demo_find_wf] show ?thesis by (auto simp: demo_find_db_def)
qed

theorem find_history_ok_witness:
  "find_ok (find_history demo_find_env demo_order demo_find_service
     [CmdSuppress demo_suppress, CmdScheduled ''o'', CmdRecompute demo_find_input, CmdGet ''o'' ''x''] demo_find_db)"
  by (rule find_history_ok [OF demo_find_ok(1-3)]) (simp add: demo_find_env_def)

end
