(* ===== verification/Listing.thy ===== *)
theory Listing imports Env Tables Base64 begin

text \<open>
  Cursor lists. A list service answers a page and the cursor of the next one; the locale \<open>listing\<close> is the contract of such a
  service, and under it a client that follows the cursors gets every selected row once, in order, and then stops. The cursors
  are instants and texts joined by bars: the facts of their printing are here too.
\<close>

section \<open>Texts with bars\<close>

text \<open>\<open>strings.SplitN\<close> with a separator of one byte.\<close>

fun SplitN :: "nat \<Rightarrow> char \<Rightarrow> string \<Rightarrow> string list" where
  "SplitN 0 c s = []"
| "SplitN (Suc 0) c s = [s]"
| "SplitN (Suc (Suc n)) c s = (case IndexByte c s of None \<Rightarrow> [s] | Some i \<Rightarrow> take i s # SplitN (Suc n) c (drop (Suc i) s))"

lemma SplitN_cut: "c \<notin> set k \<Longrightarrow> SplitN (Suc (Suc n)) c (k @ c # v) = k # SplitN (Suc n) c v"
  by (simp add: IndexByte_first)

lemma bar_not_digit: "is_digit c \<Longrightarrow> c \<noteq> CHR ''|''"
  by (auto simp: is_digit_def of_char_def)

lemma bar_fixed: "CHR ''|'' \<notin> set (fixed w v)"
  using fixed_digits [of w v] bar_not_digit by (auto simp: list_all_iff)

lemma bar_fraction: "CHR ''|'' \<notin> set (format_fraction ns)"
proof -
  obtain k where "fixed 9 ns = trim_zeros (fixed 9 ns) @ replicate k (CHR ''0'')" using trim_zeros_split by blast
  then have "set (trim_zeros (fixed 9 ns)) \<subseteq> set (fixed 9 ns)" by (metis set_append sup_ge1)
  then show ?thesis using bar_fixed [of 9 ns] by (auto simp: format_fraction_def)
qed

lemma bar_appendInt: "CHR ''|'' \<notin> set (appendInt y w)" if "0 \<le> y" "y < 10 ^ w"
  using that bar_fixed by (simp add: appendInt_def)

lemma bar_time:
  assumes "printable_time t" shows "CHR ''|'' \<notin> set (FormatRFC3339Nano t)"
proof -
  obtain y m d where dt: "date_of_days (t div nanos_per_day + unix_days) = (y, m, d)" by (cases "date_of_days (t div nanos_per_day + unix_days)") auto
  have "y = year_of_days (t div nanos_per_day + unix_days)" using date_of_days_correct(1) [OF dt] .
  with assms have "0 \<le> y" "y < 10 ^ 4" by (simp_all add: printable_time_def)
  from bar_appendInt [OF this] show ?thesis
    by (simp add: FormatRFC3339Nano_def dt Let_def bar_fixed bar_fraction)
qed

lemma printed_nonempty: "FormatRFC3339Nano t \<noteq> []"
  by (auto simp: FormatRFC3339Nano_def Let_def split: prod.splits)

lemma encoded_nonempty: "s \<noteq> [] \<Longrightarrow> RawURLEncode s \<noteq> []"
proof
  assume "s \<noteq> []" "RawURLEncode s = []"
  with RawURL_roundtrip [of s] show False by (simp add: RawURLDecode_def)
qed

section \<open>Following the cursors\<close>

fun follow :: "nat \<Rightarrow> (string \<Rightarrow> ('s, 'i list \<times> string) prog) \<Rightarrow> string \<Rightarrow> ('s, 'i list) prog" where
  "follow 0 page c = throwE ErrFuel"
| "follow (Suc n) page c =
     bindE (page c) (\<lambda>r. if snd r = [] then retE (fst r) else bindE (follow n page (snd r)) (\<lambda>rest. retE (fst r @ rest)))"

text \<open>What a service makes of the rows a repository returned for a limit of one more than the page.\<close>

definition cut_page :: "nat \<Rightarrow> ('i \<Rightarrow> string) \<Rightarrow> 'i list \<Rightarrow> 'i list \<times> string" where
  "cut_page limit enc rows = (if limit < length rows then (take limit rows, enc (rows ! (limit - 1))) else (rows, []))"

lemma cut_page_take:
  assumes "0 < n"
  shows "cut_page n enc (take (Suc n) rest) = (take n rest, if n < length rest then enc (rest ! (n - 1)) else [])"
  using assms by (auto simp: cut_page_def min_def)

lemma rest_after:
  fixes key :: "'r \<Rightarrow> 'k::linorder"
  assumes "sorted_wrt (\<lambda>a b. key a < key b) (seen @ x # rest)"
  shows "filter (\<lambda>f. key x < key f) (seen @ x # rest) = rest"
proof -
  have "\<forall>a \<in> set seen. key a < key x" "\<forall>a \<in> set rest. key x < key a"
    using assms by (simp_all add: sorted_wrt_append)
  then have "filter (\<lambda>f. key x < key f) seen = []" "filter (\<lambda>f. key x < key f) rest = rest"
    by (auto simp: filter_empty_conv filter_id_conv)
  then show ?thesis by simp
qed

locale listing =
  fixes page :: "string \<Rightarrow> ('s, 'i list \<times> string) prog"
    and rows :: "'s \<Rightarrow> 'i list"
    and key :: "'i \<Rightarrow> 'k::linorder"
    and enc :: "'i \<Rightarrow> string"
    and good :: "'s \<Rightarrow> bool"
    and after :: "'s \<Rightarrow> 's"
    and n :: nat
  assumes page_pos: "good s \<Longrightarrow> 0 < n"
    and in_order: "good s \<Longrightarrow> sorted_wrt (\<lambda>a b. key a < key b) (rows s)"
    and token: "good s \<Longrightarrow> r \<in> set (rows s) \<Longrightarrow> enc r \<noteq> []"
    and first_page: "good s \<Longrightarrow> page [] s = (Inr (cut_page n enc (take (Suc n) (rows s))), after s)"
    and next_page: "good s \<Longrightarrow> r \<in> set (rows s) \<Longrightarrow>
      page (enc r) s = (Inr (cut_page n enc (take (Suc n) (filter (\<lambda>x. key r < key x) (rows s)))), after s)"
    and unchanged: "good s \<Longrightarrow> good (after s) \<and> rows (after s) = rows s"
begin

definition at_cursor :: "'i list \<Rightarrow> string \<Rightarrow> bool" where
  "at_cursor seen c \<longleftrightarrow> (if seen = [] then c = [] else c = enc (last seen))"

lemma page_at:
  assumes g: "good s" and split: "rows s = seen @ rest" and c: "at_cursor seen c"
  shows "page c s = (Inr (take n rest, if n < length rest then enc (rest ! (n - 1)) else []), after s)"
proof (cases "seen = []")
  case True
  then have "c = []" "rows s = rest" using split c by (simp_all add: at_cursor_def)
  then show ?thesis using first_page [OF g] unfolding cut_page_take [OF page_pos [OF g]] by (simp only:)
next
  case False
  then have parts: "rows s = butlast seen @ last seen # rest" and m: "last seen \<in> set (rows s)" using split by simp_all
  have "filter (\<lambda>x. key (last seen) < key x) (rows s) = rest"
    using rest_after [of key "butlast seen" "last seen" rest] in_order [OF g] unfolding parts by blast
  moreover have "c = enc (last seen)" using c False by (simp add: at_cursor_def)
  ultimately show ?thesis using next_page [OF g m] unfolding cut_page_take [OF page_pos [OF g]] by (simp only:)
qed

lemma follow_from:
  "good s \<Longrightarrow> rows s = seen @ rest \<Longrightarrow> at_cursor seen c \<Longrightarrow> length rest < m \<Longrightarrow> \<exists>s'. follow m page c s = (Inr rest, s')"
proof (induction m arbitrary: s seen rest c)
  case (Suc m)
  note pg = page_at [OF Suc.prems(1-3)]
  show ?case
  proof (cases "n < length rest")
    case False
    then show ?thesis by (simp add: bindE_step_Inr [where m = "page c", OF pg] retE_def)
  next
    case True
    let ?x = "rest ! (n - 1)"
    obtain k where k: "n = Suc k" using page_pos [OF Suc.prems(1)] by (cases n) simp_all
    with True have "take n rest = take k rest @ [?x]" by (simp add: take_Suc_conv_app_nth)
    then have "at_cursor (seen @ take n rest) (enc ?x)" by (simp add: at_cursor_def)
    moreover have "rows (after s) = (seen @ take n rest) @ drop n rest" "good (after s)" using unchanged [OF Suc.prems(1)] Suc.prems(2) by simp_all
    moreover have "length (drop n rest) < m" using Suc.prems(4) page_pos [OF Suc.prems(1)] True by simp
    ultimately obtain s' where r: "follow m page (enc ?x) (after s) = (Inr (drop n rest), s')" using Suc.IH by blast
    have "?x \<in> set (rows s)" using True Suc.prems(2) by simp
    then have "enc ?x \<noteq> []" by (rule token [OF Suc.prems(1)])
    moreover note r' = bindE_step_Inr [where m = "follow m page (enc ?x)", OF r]
    ultimately have "follow (Suc m) page c s = (Inr (take n rest @ drop n rest), s')"
      unfolding follow.simps bindE_step_Inr [where m = "page c", OF pg] using True by (simp only: if_True if_False fst_conv snd_conv r') (simp add: retE_def)
    then show ?thesis by (simp only: append_take_drop_id) (rule exI, rule refl)
  qed
qed simp

lemma follow_all: "good s \<Longrightarrow> length (rows s) < m \<Longrightarrow> \<exists>s'. follow m page [] s = (Inr (rows s), s')"
  by (rule follow_from [where seen = "[]"]) (simp_all add: at_cursor_def)

end

end
