(* ===== verification/FindingList.thy ===== *)
theory FindingList imports FindingOps Listing begin

text \<open>
  The operator's finding list: the cursor reads back, and the pages a client gets by following the
  cursors are the whole selection, each finding once.
\<close>

section \<open>The cursor\<close>

lemma cursor_back:
  assumes "printable_time t" and "i \<noteq> []"
  shows "decodeFindingCursor (encodeFindingCursor t i) = Inr (t, i) \<and> encodeFindingCursor t i \<noteq> []"
proof -
  let ?raw = "FormatRFC3339Nano t @ CHR ''|'' # i"
  have cut: "IndexByte (CHR ''|'') ?raw = Some (length (FormatRFC3339Nano t))" by (rule IndexByte_first [OF bar_time [OF assms(1)]])
  have ne: "FormatRFC3339Nano t \<noteq> []" using Parse_Format [OF assms(1)] by (auto simp: FormatRFC3339Nano_def Let_def split: prod.splits)
  have "encodeFindingCursor t i = RawURLEncode ?raw" by (simp add: encodeFindingCursor_def listCursorSeparator_def)
  moreover have dec: "RawURLDecode (RawURLEncode ?raw) = Some ?raw" by (rule RawURL_roundtrip)
  moreover have "RawURLEncode ?raw \<noteq> []" using dec by (auto simp: RawURLDecode_def)
  ultimately show ?thesis using cut ne assms(2) Parse_Format [OF assms(1)]
    by (simp add: decodeFindingCursor_def listCursorSeparator_def Let_def)
qed

text \<open>
  A list cursor is read back exactly. For every instant of the years 0 to 9999, to the nanosecond,
  and every non-empty identifier, whatever bytes it holds, decoding the encoded cursor gives the pair;
  no cursor is ever empty.
\<close>

theorem finding_cursor_roundtrip:
  assumes "printable_time t" and "i \<noteq> []"
  shows "decodeFindingCursor (encodeFindingCursor t i) = Inr (t, i) \<and> encodeFindingCursor t i \<noteq> []"
  using assms by (rule cursor_back)

section \<open>The list, page by page\<close>

definition list_page :: "env \<Rightarrow> ListQuery \<Rightarrow> string \<Rightarrow> ('z find_db_scheme, Finding list \<times> string) prog" where
  "list_page env q c = bindE (ListFindings env (q\<lparr>lq_Cursor := c\<rparr>)) (\<lambda>r. retE (lr_Items r, lr_NextCursor r))"

definition listed :: "ListQuery \<Rightarrow> 'z find_db_scheme \<Rightarrow> Finding list" where
  "listed q s = sort_key list_key (filter (list_filter q) (t_findings s))"

text \<open>Rows a cursor can point at.\<close>

definition listable :: "'z find_db_scheme \<Rightarrow> bool" where
  "listable s \<longleftrightarrow> (\<forall>f \<in> set (t_findings s). printable_time (fd_LastSeenAt f) \<and> fd_LastSeenAt f \<noteq> zeroTime \<and> fd_ID f \<noteq> [])"

lemma with_cert_key [simp]: "fd_LastSeenAt (with_cert s f) = fd_LastSeenAt f" "fd_ID (with_cert s f) = fd_ID f"
  by (simp_all add: with_cert_def split: option.split)

lemma with_cert_db_of: "with_cert (db_of s) = with_cert s"
  by (simp add: with_cert_def fun_eq_iff)

lemma normalize_cursor:
  assumes base: "normalizeListQuery (q\<lparr>lq_Cursor := []\<rparr>) = Inr q0"
    and cur: "decodeFindingCursor c = Inr (t, i)"
  shows "normalizeListQuery (q\<lparr>lq_Cursor := c\<rparr>) = Inr (q0\<lparr>lq_Cursor := c, lq_CursorLastSeenAt := t, lq_CursorID := i\<rparr>)"
proof -
  have eq: "normalizeListQuery (q\<lparr>lq_Cursor := c\<rparr>) = (case normalizeListQuery (q\<lparr>lq_Cursor := []\<rparr>) of Inl e \<Rightarrow> Inl e
      | Inr q0 \<Rightarrow> Inr (q0\<lparr>lq_Cursor := c, lq_CursorLastSeenAt := t, lq_CursorID := i\<rparr>))"
    by (simp add: normalizeListQuery_def cur decodeFindingCursor_def [of "[]"] del: insert_iff split: sum.split)
  show ?thesis unfolding eq base by simp
qed

lemma listed_sorted: "find_wf s \<Longrightarrow> sorted_wrt (\<lambda>a b. list_key a < list_key b) (listed q s)"
proof -
  assume wf: "find_wf s"
  have "distinct (map fd_ID (filter (list_filter q) (t_findings s)))" by (rule distinct_org_ids(1) [OF wf])
  then have "distinct (map list_key (filter (list_filter q) (t_findings s)))"
    by (auto simp: distinct_map inj_on_def list_key_def)
  then show ?thesis unfolding listed_def by (rule sorted_strict)
qed

lemma beyond_key:
  "lq_CursorLastSeenAt q \<noteq> zeroTime \<Longrightarrow> beyond_cursor q f \<longleftrightarrow> (- lq_CursorLastSeenAt q, lq_CursorID q) < list_key f"
  by (auto simp: beyond_cursor_def list_key_def)

lemma with_cert_stepped [simp]: "with_cert (stepped s) = with_cert s"
  by (simp add: with_cert_def fun_eq_iff)

lemma listed_stepped [simp]: "listed q (stepped s) = listed q s"
  by (simp add: listed_def)

lemma normalize_limit: "normalizeListQuery q = Inr q0 \<Longrightarrow> 2 \<le> lq_Limit q0"
proof -
  assume "normalizeListQuery q = Inr q0"
  then obtain l where "normalizeLimit (lq_Limit q) = Inr l" "lq_Limit q0 = l + 1"
    by (simp add: normalizeListQuery_def del: insert_iff split: if_split_asm sum.split_asm prod.split_asm) auto
  then show ?thesis by (auto simp: normalizeLimit_def DefaultListLimit_def split: if_splits)
qed

text \<open>One page is the first rows beyond its cursor.\<close>

lemma one_page:
  assumes ok: "no_faults env" and q1: "normalizeListQuery (q\<lparr>lq_Cursor := c\<rparr>) = Inr (q0\<lparr>lq_Cursor := c, lq_CursorLastSeenAt := t, lq_CursorID := i\<rparr>)"
    and rest: "filter (beyond_cursor (q0\<lparr>lq_Cursor := c, lq_CursorLastSeenAt := t, lq_CursorID := i\<rparr>)) (listed q0 s) = rest"
    and lim: "2 \<le> lq_Limit q0"
  shows "list_page env q c s = (Inr (cut_page (nat (lq_Limit q0 - 1)) (\<lambda>f. encodeFindingCursor (fd_LastSeenAt f) (fd_ID f))
      (take (Suc (nat (lq_Limit q0 - 1))) (map (with_cert s) rest))), stepped s)"
proof -
  let ?q1 = "q0\<lparr>lq_Cursor := c, lq_CursorLastSeenAt := t, lq_CursorID := i\<rparr>" and ?n = "nat (lq_Limit q0 - 1)"
  have flt: "list_filter ?q1 = list_filter q0" by (simp add: list_filter_def fun_eq_iff)
  have rows: "sort_key list_key (filter (\<lambda>f. list_filter ?q1 f \<and> beyond_cursor ?q1 f) (t_findings s)) = rest"
    unfolding flt rest [symmetric] listed_def filter_sort_key by simp
  have n: "nat (lq_Limit ?q1) = Suc ?n" "nat (lq_Limit ?q1 - 1) = ?n" using lim by simp_all
  let ?rows = "take (Suc ?n) (map (with_cert s) rest)"
  have run: "repo_ListFindings env ?q1 s = (Inr ?rows, stepped s)"
    unfolding repo_ListFindings_def db_query_ok [OF ok] find_fields with_cert_stepped rows n(1) take_map ..
  show ?thesis
    unfolding list_page_def ListFindings_def q1 bindE_assoc bindE_lift(1) bindE_step_Inr [where m = "repo_ListFindings env ?q1", OF run] n(2) Let_def cut_page_def
    by (cases "?n < length ?rows") (simp_all only: if_True if_False, simp_all add: retE_def bindE_def)
qed

lemma cursor_rest:
  assumes wf: "find_wf s" and li: "listable s" and x: "x \<in> set (listed q0 s)" and base: "normalizeListQuery (q\<lparr>lq_Cursor := []\<rparr>) = Inr q0"
  defines "c \<equiv> encodeFindingCursor (fd_LastSeenAt x) (fd_ID x)"
  shows "normalizeListQuery (q\<lparr>lq_Cursor := c\<rparr>) = Inr (q0\<lparr>lq_Cursor := c, lq_CursorLastSeenAt := fd_LastSeenAt x, lq_CursorID := fd_ID x\<rparr>)"
    and "filter (beyond_cursor (q0\<lparr>lq_Cursor := c, lq_CursorLastSeenAt := fd_LastSeenAt x, lq_CursorID := fd_ID x\<rparr>)) (listed q0 s) =
      filter (\<lambda>f. list_key x < list_key f) (listed q0 s)" and "c \<noteq> []"
proof -
  have r: "printable_time (fd_LastSeenAt x)" "fd_LastSeenAt x \<noteq> zeroTime" "fd_ID x \<noteq> []" using x li by (auto simp: listable_def listed_def)
  have d: "decodeFindingCursor c = Inr (fd_LastSeenAt x, fd_ID x)" and ne: "c \<noteq> []" using cursor_back [OF r(1,3)] unfolding c_def by simp_all
  show "normalizeListQuery (q\<lparr>lq_Cursor := c\<rparr>) = Inr (q0\<lparr>lq_Cursor := c, lq_CursorLastSeenAt := fd_LastSeenAt x, lq_CursorID := fd_ID x\<rparr>)"
    by (rule normalize_cursor [OF base d])
  show "filter (beyond_cursor (q0\<lparr>lq_Cursor := c, lq_CursorLastSeenAt := fd_LastSeenAt x, lq_CursorID := fd_ID x\<rparr>)) (listed q0 s) =
      filter (\<lambda>f. list_key x < list_key f) (listed q0 s)"
    using r(2) by (intro filter_cong refl) (simp add: beyond_key list_key_def [of x])
  show "c \<noteq> []" by (rule ne)
qed

lemma list_key_with_cert [simp]: "list_key (with_cert s f) = list_key f"
  by (simp add: list_key_def)

lemma filter_with_cert: "filter (\<lambda>f. k < list_key f) (map (with_cert s) xs) = map (with_cert s) (filter (\<lambda>f. k < list_key f) xs)"
  by (induction xs) simp_all

interpretation fl: listing "list_page env q" "\<lambda>s. map (with_cert s) (listed q0 s)" list_key "\<lambda>f. encodeFindingCursor (fd_LastSeenAt f) (fd_ID f)"
  "\<lambda>s. no_faults env \<and> normalizeListQuery (q\<lparr>lq_Cursor := []\<rparr>) = Inr q0 \<and> find_wf s \<and> listable s" stepped "nat (lq_Limit q0 - 1)" for env q q0
proof (unfold_locales, goal_cases)
  case (1 s)
  then show ?case using normalize_limit [of "q\<lparr>lq_Cursor := []\<rparr>" q0] by simp
next
  case (2 s)
  then show ?case using listed_sorted [of s q0] by (simp add: sorted_wrt_map)
next
  case (3 s r)
  then obtain x where "r = with_cert s x" "x \<in> set (listed q0 s)" by auto
  then show ?case using cursor_rest(3) [of s x q0 q] 3 by simp
next
  case (4 s)
  then have b: "normalizeListQuery (q\<lparr>lq_Cursor := []\<rparr>) = Inr q0" by simp
  have "decodeFindingCursor [] = Inr (zeroTime, [])" by (simp add: decodeFindingCursor_def)
  from one_page [OF _ normalize_cursor [OF b this], where s = s and env = env] normalize_limit [OF b] 4
  show ?case by (simp add: beyond_cursor_def)
next
  case (5 s r)
  then obtain x where x: "r = with_cert s x" "x \<in> set (listed q0 s)" by auto
  from 5 have h: "no_faults env" "normalizeListQuery (q\<lparr>lq_Cursor := []\<rparr>) = Inr q0" "find_wf s" "listable s" by simp_all
  note cr = cursor_rest [OF h(3,4) x(2) h(2)]
  show ?case unfolding x(1) with_cert_key list_key_with_cert filter_with_cert
    by (rule one_page [OF h(1) cr(1,2) normalize_limit [OF h(2)]])
next
  case (6 s)
  then show ?case by (simp add: listable_def)
qed

text \<open>
  C28: The finding list neither skips nor repeats. On a table that does not change meanwhile, a client
  that follows the cursors from the first page, with any valid filters and any valid page size, gets
  every finding the filters select exactly once, latest sighting first and by identifier within an
  instant, and then stops.
\<close>

theorem list_pages_cover:
  assumes "no_faults env" and "normalizeListQuery (q\<lparr>lq_Cursor := []\<rparr>) = Inr q0"
    and "find_wf s" and "listable s" and "length (t_findings s) < n"
  shows "\<exists>s'. follow n (list_page env q) [] s =
    (Inr (map (with_cert s) (sort_key list_key (filter (list_filter q0) (t_findings s)))), s')"
proof -
  have "length (map (with_cert s) (listed q0 s)) < n" using assms(5) by (simp add: listed_def le_less_trans [OF length_filter_le])
  from fl.follow_all [OF conjI [OF assms(1) conjI [OF assms(2) conjI [OF assms(3,4)]]] this] show ?thesis unfolding listed_def .
qed

section \<open>Witnesses\<close>

theorem finding_cursor_roundtrip_witness:
  "decodeFindingCursor (encodeFindingCursor 1700000000123456789 ''a|b'') = Inr (1700000000123456789, ''a|b'')"
proof -
  have "printable_time 1700000000123456789" by code_simp
  from finding_cursor_roundtrip [OF this, of "''a|b''"] show ?thesis by simp
qed

definition demo_list_query :: ListQuery where
  "demo_list_query = \<lparr>lq_OrganizationID = ''o'', lq_Status = ''all'', lq_Severity = [], lq_RuleID = [], lq_CertificateID = [], lq_Limit = 1,
     lq_Cursor = [], lq_CursorLastSeenAt = zeroTime, lq_CursorID = []\<rparr>"

theorem list_pages_cover_witness:
  "map_sum id (map fd_ID) (fst (follow 3 (list_page demo_find_env demo_list_query) [] demo_find_db)) = Inr [''f1'', ''f2'']"
proof -
  have q: "normalizeListQuery (demo_list_query\<lparr>lq_Cursor := []\<rparr>) = Inr (projr (normalizeListQuery (demo_list_query\<lparr>lq_Cursor := []\<rparr>)))" by code_simp
  have "printable_time 7" by code_simp
  then have "listable demo_find_db" by (simp add: listable_def demo_find_db_def demo_finding_def zeroTime_def second_def)
  moreover have "length (t_findings demo_find_db) < 3" by (simp add: demo_find_db_def)
  ultimately obtain s' where run: "follow 3 (list_page demo_find_env demo_list_query) [] demo_find_db =
     (Inr (map (with_cert demo_find_db) (sort_key list_key (filter (list_filter (projr (normalizeListQuery (demo_list_query\<lparr>lq_Cursor := []\<rparr>)))) (t_findings demo_find_db)))), s')"
    using list_pages_cover [OF demo_find_ok(4) q demo_find_wf] by blast
  have "map fd_ID (map (with_cert demo_find_db) (sort_key list_key (filter (list_filter (projr (normalizeListQuery (demo_list_query\<lparr>lq_Cursor := []\<rparr>)))) (t_findings demo_find_db)))) =
      [''f1'', ''f2'']" by code_simp
  then show ?thesis unfolding run by simp
qed

end
