(* ===== verification/FindingSweep.thy ===== *)
theory FindingSweep imports FindingOps begin

text \<open>One sweep of the findings scheduler over the organizations: failures stay where they happen.\<close>

section \<open>One sweep of the scheduler\<close>

definition rows_of :: "string \<Rightarrow> 'z find_db_scheme \<Rightarrow> Finding list" where
  "rows_of org s = filter (\<lambda>f. fd_OrganizationID f = org) (t_findings s)"

text \<open>The organization's findings say what the rules say at the instant \<open>now\<close>.\<close>

definition up_to_date :: "FindingService \<Rightarrow> Time \<Rightarrow> string \<Rightarrow> 'z find_db_scheme \<Rightarrow> bool" where
  "up_to_date svc now org s \<longleftrightarrow>
     (\<forall>k. (\<exists>f \<in> set (rows_of org s). row_key f = k \<and> fd_Status f \<noteq> StatusResolved) \<longleftrightarrow> match_of (fs_rules svc) now (org_summaries org s) k \<noteq> None)"

text \<open>A failed turn keeps the rows, a successful one brings them up to date.\<close>

definition turn_result ::
  "FindingService \<Rightarrow> 'z find_db_scheme \<Rightarrow> 'z find_db_scheme \<Rightarrow> string \<Rightarrow> err + FindingRecomputeResult \<Rightarrow> bool" where
  "turn_result svc s s' org out \<longleftrightarrow>
     (case out of Inl _ \<Rightarrow> rows_of org s' = rows_of org s | Inr _ \<Rightarrow> \<exists>now. up_to_date svc now org s')"

lemma rows_of_stepped: "rows_of org (stepped s) = rows_of org s"
  by (simp add: rows_of_def)

lemma turn_result_stepped: "turn_result svc (stepped s) s' org out = turn_result svc s s' org out"
  by (cases out) (simp_all add: turn_result_def rows_of_stepped)

text \<open>What one organization's turn leaves, for this organization and for the others.\<close>

definition org_turn ::
  "FindingService \<Rightarrow> string \<Rightarrow> err + FindingRecomputeResult \<Rightarrow> 'z find_db_scheme \<Rightarrow> 'z find_db_scheme \<Rightarrow> bool" where
  "org_turn svc org out s s' \<longleftrightarrow> find_inv s' \<and> t_certs s' = t_certs s \<and>
     (\<forall>org'. org' \<noteq> org \<longrightarrow> rows_of org' s' = rows_of org' s) \<and>
     turn_result svc s s' org out"

lemma recomputed_turn:
  assumes rec: "recomputed svc org (org_matches svc org now s) now actor actorType s res s'" and inv: "find_inv s" and inv': "find_inv s'"
  shows "org_turn svc org (Inr res) s s'"
proof -
  obtain sm news t where st: "diff_settled org (org_matches svc org now s) now s sm news t" and rows: "t_findings s' = t_findings t" "t_certs s' = t_certs s"
    by (rule recomputed_findings [OF rec])
  have wf: "find_wf s" using inv by (simp add: find_inv_def find_ok_def)
  have "rows_of org' s' = rows_of org' s" if "org' \<noteq> org" for org'
  proof -
    have "filter (\<lambda>f. fd_OrganizationID f = org') (map (\<lambda>f. if fd_OrganizationID f = org then advance (org_matches svc org now s) now f else f) xs) =
        filter (\<lambda>f. fd_OrganizationID f = org') xs" for xs
      using that by (induction xs) auto
    moreover have "filter (\<lambda>f. fd_OrganizationID f = org') news = []"
      using settled_news(1) [OF st] that by (intro filter_False) simp
    ultimately show ?thesis by (simp add: rows_of_def rows settled_findings(1) [OF st])
  qed
  moreover have "up_to_date svc now org s'"
  proof -
    have "org_summaries org s' = org_summaries org s" by (simp add: org_summaries_def rows)
    moreover have "map_of (org_matches svc org now s) k = match_of (fs_rules svc) now (org_summaries org s) k" for k
      unfolding org_matches_def by (rule evaluatePage_match_of [OF find_wf_summaries [OF wf]])
    moreover have "(\<exists>f \<in> set (rows_of org s'). row_key f = k \<and> fd_Status f \<noteq> StatusResolved) \<longleftrightarrow>
        (\<exists>f \<in> set (t_findings t). fd_OrganizationID f = org \<and> row_key f = k \<and> fd_Status f \<noteq> StatusResolved)" for k
      by (auto simp: rows_of_def rows)
    ultimately show ?thesis using settled_active [OF st] unfolding up_to_date_def by metis
  qed
  ultimately show ?thesis using inv' rows by (auto simp: org_turn_def turn_result_def)
qed

lemma failed_turn:
  assumes eq: "db_of s' = db_of s" and inv: "find_inv s"
  shows "org_turn svc org (Inl e) s s'"
proof -
  have "t_findings s' = t_findings s" "t_certs s' = t_certs s" using arg_cong [OF eq, of t_findings] arg_cong [OF eq, of t_certs] by simp_all
  moreover have "find_inv s'" using inv arg_cong [OF eq, of find_inv] by (simp add: find_inv_db_of)
  ultimately show ?thesis by (simp add: org_turn_def turn_result_def rows_of_def)
qed

lemma turn_clock:
  assumes "org_turn svc org out (s\<lparr>w_clock := a\<rparr>) s'"
  shows "org_turn svc org out s (s'\<lparr>w_clock := b\<rparr>)"
proof -
  have "find_inv (s'\<lparr>w_clock := b\<rparr>) = find_inv s'" by (metis find_inv_db_of db_of_counters(3))
  moreover have "rows_of o' (s'\<lparr>w_clock := b\<rparr>) = rows_of o' s'" "rows_of o' (s\<lparr>w_clock := a\<rparr>) = rows_of o' s"
    "org_summaries o' (s'\<lparr>w_clock := b\<rparr>) = org_summaries o' s'" for o'
    by (simp_all add: rows_of_def org_summaries_def)
  ultimately show ?thesis using assms unfolding org_turn_def turn_result_def up_to_date_def by (cases out) simp_all
qed

lemma recomputeOrg_turn:
  assumes ord: "map_order ord" and ids: "\<And>i. idAt env i \<noteq> []" and inv: "find_inv s"
  shows "\<exists>out s'. recomputeOrg env ord svc org s = (Inr out, s') \<and> org_turn svc org out s s'"
proof -
  let ?s = "s\<lparr>w_clock := Suc (w_clock s)\<rparr>"
  have inv1: "find_inv ?s" using inv by (metis find_inv_db_of db_of_counters(3))
  obtain out t where run: "FindingRecomputeScheduled env ord svc org ?s = (out, t)" by (cases "FindingRecomputeScheduled env ord svc org ?s")
  have "org_turn svc org out ?s t"
  proof (cases out)
    case (Inl e)
    have "fails_clean db_of (FindingRecomputeScheduled env ord svc org)"
      unfolding FindingRecomputeScheduled_def by (intro fails_clean_bindE leaves_guardE recomputeWithActor_atomic)
    from fails_cleanD [OF this] run Inl have "db_of t = db_of ?s" by blast
    with failed_turn [OF _ inv1] Inl show ?thesis by blast
  next
    case (Inr res)
    with run have rec: "recomputeWithActor env ord svc org SchedulerActorID ''system'' ?s = (Inr res, t)"
      by (simp add: FindingRecomputeScheduled_def bindE_def guardE_def retE_def throwE_def split: if_splits)
    have "find_inv t" by (rule keepsD [OF keeps_inv_recompute inv1 rec]) (rule ord, rule ids)
    with recomputed_turn [OF recomputeWithActor_Inr [OF rec]] inv1 ord Inr show ?thesis by (simp add: find_inv_def find_ok_def)
  qed
  from turn_clock [OF this] run show ?thesis
    by (auto simp: recomputeOrg_def bindE_def Now_def tryE_def retE_def)
qed

lemma turn_later:
  assumes 1: "org_turn svc org out s s1" and rows: "rows_of org s' = rows_of org s1" and certs: "t_certs s' = t_certs s1"
  shows "turn_result svc s s' org out"
proof -
  have "org_summaries org s' = org_summaries org s1" by (simp add: org_summaries_def certs)
  then show ?thesis using 1 by (cases out) (auto simp: org_turn_def turn_result_def up_to_date_def rows)
qed

lemma sweep_turns:
  assumes ord: "map_order ord" and ids: "\<And>i. idAt env i \<noteq> []"
  shows "find_inv s \<Longrightarrow> distinct orgs \<Longrightarrow> \<exists>outs s'. sweepOrgs env ord svc cancelled k orgs s = (Inr outs, s') \<and>
    find_inv s' \<and> t_certs s' = t_certs s \<and>
    (\<exists>m. map fst outs = take m orgs \<and> ((\<forall>j. \<not> cancelled j) \<longrightarrow> m = length orgs)) \<and>
    (\<forall>org. org \<notin> fst ` set outs \<longrightarrow> rows_of org s' = rows_of org s) \<and>
    (\<forall>(org, out) \<in> set outs. turn_result svc s s' org out)"
proof (induction orgs arbitrary: k s)
  case Nil
  then show ?case by (simp add: retE_def)
next
  case (Cons org orgs)
  show ?case
  proof (cases "cancelled k")
    case True
    then show ?thesis using Cons.prems(1)
      by (intro exI [of _ "[]"] exI [of _ s] conjI exI [of _ 0]) (auto simp: retE_def)
  next
    case False
    from recomputeOrg_turn [OF ord ids Cons.prems(1)] obtain out s1 where r: "recomputeOrg env ord svc org s = (Inr out, s1)"
      and t: "org_turn svc org out s s1" by blast
    have inv1: "find_inv s1" and certs1: "t_certs s1 = t_certs s" and other1: "\<And>o'. o' \<noteq> org \<Longrightarrow> rows_of o' s1 = rows_of o' s"
      using t by (simp_all add: org_turn_def)
    from Cons.IH [OF inv1, of "Suc k"] Cons.prems(2) obtain outs s' m where
      run: "sweepOrgs env ord svc cancelled (Suc k) orgs s1 = (Inr outs, s')" and inv': "find_inv s'" and certs: "t_certs s' = t_certs s1"
      and m: "map fst outs = take m orgs" "(\<forall>j. \<not> cancelled j) \<longrightarrow> m = length orgs"
      and rest: "\<forall>org. org \<notin> fst ` set outs \<longrightarrow> rows_of org s' = rows_of org s1"
      and each: "\<forall>(org, out) \<in> set outs. turn_result svc s1 s' org out"
      by auto
    have sub: "fst ` set outs \<subseteq> set orgs" using arg_cong [OF m(1), of set] set_take_subset [of m orgs] by simp
    then have fresh: "org \<notin> fst ` set outs" using Cons.prems(2) by auto
    have run': "sweepOrgs env ord svc cancelled k (org # orgs) s = (Inr ((org, out) # outs), s')"
      using False by (simp add: bindE_step_Inr [where m = "recomputeOrg env ord svc org", OF r]
          bindE_step_Inr [where m = "sweepOrgs env ord svc cancelled (Suc k) orgs", OF run] retE_def)
    have first: "turn_result svc s s' org out"
      using turn_later [OF t _ certs] rest fresh by blast
    have later: "turn_result svc s s' o' out'" if "(o', out') \<in> set outs" for o' out'
    proof -
      have "o' \<noteq> org" using that fresh by force
      with each that other1 [of o'] show ?thesis by (auto simp: turn_result_def split: sum.splits)
    qed
    show ?thesis
      using run' inv' certs certs1 rest other1 first later m
      by (intro exI [of _ "(org, out) # outs"] exI [of _ s'] conjI exI [of _ "Suc m"]) auto
  qed
qed

text \<open>
  C29: One organization's failure never spoils another's findings. A sweep of the scheduler returns
  whatever happens in it. If the organizations could be listed and the process is not shut down, it visits
  every organization; each one whose recompute succeeded ends up with unresolved findings exactly where
  the rules fire, each one whose recompute failed keeps the findings it had, and so does every
  organization the sweep did not reach.
\<close>

theorem sweep_isolates_failures:
  assumes "map_order ord" and "\<forall>i. idAt env i \<noteq> []" and "find_ok s" and "nonempty_ids s" and "distinct (t_organization_ids s)"
  shows "\<exists>outs s'. runOnce env ord svc cancelled s = (Inr outs, s') \<and>
    (\<not> fault env (w_calls s) \<and> (\<forall>j. \<not> cancelled j) \<longrightarrow> map fst outs = sort (t_organization_ids s)) \<and>
    (\<forall>org. org \<notin> fst ` set outs \<longrightarrow> rows_of org s' = rows_of org s) \<and>
    (\<forall>(org, out) \<in> set outs. turn_result svc s s' org out)"
proof (cases "fault env (w_calls s)")
  case True
  then show ?thesis
    by (simp add: runOnce_def ListOrganizationIDs_def bindE_def tryE_def db_query_def dbcall_def retE_def rows_of_def)
next
  case False
  have inv: "find_inv (stepped s)" using assms(3,4) by (simp add: find_inv_def find_ok_def)
  have run: "runOnce env ord svc cancelled s = sweepOrgs env ord svc cancelled 0 (sort (t_organization_ids s)) (stepped s)"
    using False by (simp add: runOnce_def ListOrganizationIDs_def bindE_def tryE_def db_query_def dbcall_def getE_def stepped_def)
  have d: "distinct (sort (t_organization_ids s))" using assms(5) by simp
  have ids: "idAt env i \<noteq> []" for i using assms(2) by blast
  obtain outs s' m where "sweepOrgs env ord svc cancelled 0 (sort (t_organization_ids s)) (stepped s) = (Inr outs, s')"
    and "map fst outs = take m (sort (t_organization_ids s))" "(\<forall>j. \<not> cancelled j) \<longrightarrow> m = length (sort (t_organization_ids s))"
    and "\<forall>org. org \<notin> fst ` set outs \<longrightarrow> rows_of org s' = rows_of org s"
    and "\<forall>(org, out) \<in> set outs. turn_result svc s s' org out"
    using sweep_turns [OF assms(1) ids inv d, of svc cancelled 0] unfolding turn_result_stepped rows_of_stepped by (elim exE conjE) (rule that)
  then show ?thesis unfolding run by (intro exI [of _ outs] exI [of _ s'] conjI) auto
qed

theorem sweep_isolates_failures_witness:
  "\<exists>outs s'. runOnce demo_find_env demo_order demo_find_service (\<lambda>_. False) demo_find_db = (Inr outs, s') \<and> map fst outs = [''o'']"
proof -
  have "\<forall>i. idAt demo_find_env i \<noteq> []" "distinct (t_organization_ids demo_find_db)" by (simp_all add: demo_find_env_def demo_find_db_def)
  moreover have "\<not> fault demo_find_env (w_calls demo_find_db)" "sort (t_organization_ids demo_find_db) = [''o'']"
    by (simp_all add: demo_find_env_def demo_find_db_def)
  ultimately show ?thesis
    using sweep_isolates_failures [OF demo_find_ok(3) _ demo_find_ok(1,2), of demo_find_env demo_find_service "\<lambda>_. False"] by auto
qed

end
