(* ===== verification/AuthStore.thy ===== *)
theory AuthStore imports Tables Env Base64 begin

text \<open>
  Operator accounts and their sessions: the types of \<open>internal/auth\<close>, the tables \<open>organizations\<close>,
  \<open>users\<close> and \<open>sessions\<close> of the schema, and every statement of the repositories
  \<open>auth_repository.go\<close> and \<open>sessions_repository.go\<close>.
\<close>

section \<open>Users and sessions\<close>

datatype Role = RoleOperator | RoleAdmin | RoleOther string

fun role_string :: "Role \<Rightarrow> string" where
  "role_string RoleOperator = ''operator''"
| "role_string RoleAdmin = ''admin''"
| "role_string (RoleOther s) = s"

record User =
  us_ID :: string
  us_OrganizationID :: string
  us_Email :: string
  us_DisplayName :: string
  us_Role :: Role
  us_Disabled :: bool
  us_CreatedAt :: Time
  us_LastLoginAt :: "Time option"

record Session =
  se_ID :: string
  se_UserID :: string
  se_CreatedAt :: Time
  se_ExpiresAt :: Time
  se_RevokedAt :: "Time option"
  se_UserAgent :: string
  se_RemoteIP :: string

definition IsActive :: "Session \<Rightarrow> Time \<Rightarrow> bool" where
  "IsActive s now = (if se_RevokedAt s \<noteq> None then False else now < se_ExpiresAt s)"

section \<open>The tables\<close>

record UserRow =
  ur_user :: User
  ur_password_hash :: string

record auth_db = world +
  t_organizations :: "(string \<times> string) list"
  t_users :: "UserRow list"
  t_sessions :: "Session list"

section \<open>Users\<close>

text \<open>
  The lookup is by e-mail alone, while the schema makes e-mails unique within an organization: with two
  organizations the row a query returns first is the one that counts, here the oldest.
\<close>

definition GetUserByEmail :: "env \<Rightarrow> string \<Rightarrow> ('z auth_db_scheme, User \<times> string) prog" where
  "GetUserByEmail env email =
     bindE (db_query env (\<lambda>s. find (\<lambda>r. us_Email (ur_user r) = email) (t_users s))) (\<lambda>r.
     case r of None \<Rightarrow> throwE ErrUserNotFound | Some r \<Rightarrow> retE (ur_user r, ur_password_hash r))"

definition GetUserByID :: "env \<Rightarrow> string \<Rightarrow> ('z auth_db_scheme, User) prog" where
  "GetUserByID env i =
     bindE (db_query env (\<lambda>s. find (\<lambda>r. us_ID (ur_user r) = i) (t_users s))) (\<lambda>r.
     case r of None \<Rightarrow> throwE ErrUserNotFound | Some r \<Rightarrow> retE (ur_user r))"

definition last_login :: "Time \<Rightarrow> UserRow \<Rightarrow> UserRow" where
  "last_login at r = r\<lparr>ur_user := (ur_user r)\<lparr>us_LastLoginAt := Some at\<rparr>\<rparr>"

definition UpdateLastLogin :: "env \<Rightarrow> string \<Rightarrow> Time \<Rightarrow> ('z auth_db_scheme, unit) prog" where
  "UpdateLastLogin env userID at =
     db_update env (\<lambda>s. s\<lparr>t_users := update_where (\<lambda>r. us_ID (ur_user r) = userID) (last_login at) (t_users s)\<rparr>)"

text \<open>
  The insert meets the primary key, the unique e-mail of the organization, the foreign key and the check
  on the role; \<open>last_login_at\<close> is not among its columns.
\<close>

definition user_insertable :: "User \<Rightarrow> 'z auth_db_scheme \<Rightarrow> bool" where
  "user_insertable u s \<longleftrightarrow> us_Role u \<in> {RoleOperator, RoleAdmin} \<and> us_OrganizationID u \<in> fst ` set (t_organizations s) \<and>
     (\<forall>r \<in> set (t_users s). us_ID (ur_user r) \<noteq> us_ID u \<and>
        (us_OrganizationID (ur_user r), us_Email (ur_user r)) \<noteq> (us_OrganizationID u, us_Email u))"

definition user_Create :: "env \<Rightarrow> User \<Rightarrow> string \<Rightarrow> ('z auth_db_scheme, unit) prog" where
  "user_Create env u hash =
     exec_hit env EDb (user_insertable u)
       (\<lambda>s. s\<lparr>t_users := t_users s @ [\<lparr>ur_user = u\<lparr>us_LastLoginAt := None\<rparr>, ur_password_hash = hash\<rparr>]\<rparr>)"

definition EnsureOrganization :: "env \<Rightarrow> string \<Rightarrow> string \<Rightarrow> ('z auth_db_scheme, unit) prog" where
  "EnsureOrganization env i name =
     bindE (guardE (i \<noteq> [] \<and> name \<noteq> []) ErrRequired) (\<lambda>_.
     db_update env (\<lambda>s. if i \<in> fst ` set (t_organizations s) then s else s\<lparr>t_organizations := t_organizations s @ [(i, name)]\<rparr>))"

section \<open>Sessions\<close>

text \<open>
  The address is cast to \<open>inet\<close>, whose syntax is PostgreSQL's: the parameter \<open>inet\<close> gives the canonical
  text of an address, or refuses it. The empty address is \<open>NULL\<close>, read back as the empty string.
\<close>

definition inet_column :: "(string \<Rightarrow> string option) \<Rightarrow> string \<Rightarrow> string option" where
  "inet_column inet ip = (if ip = [] then Some [] else inet ip)"

definition session_insertable :: "(string \<Rightarrow> string option) \<Rightarrow> Session \<Rightarrow> 'z auth_db_scheme \<Rightarrow> bool" where
  "session_insertable inet x s \<longleftrightarrow> inet_column inet (se_RemoteIP x) \<noteq> None \<and> se_ID x \<notin> se_ID ` set (t_sessions s) \<and>
     se_UserID x \<in> (\<lambda>r. us_ID (ur_user r)) ` set (t_users s)"

definition stored_session :: "(string \<Rightarrow> string option) \<Rightarrow> Session \<Rightarrow> Session" where
  "stored_session inet x = x\<lparr>se_RevokedAt := None, se_RemoteIP := the (inet_column inet (se_RemoteIP x))\<rparr>"

definition session_Create :: "env \<Rightarrow> (string \<Rightarrow> string option) \<Rightarrow> Session \<Rightarrow> ('z auth_db_scheme, unit) prog" where
  "session_Create env inet x =
     exec_hit env EDb (session_insertable inet x) (\<lambda>s. s\<lparr>t_sessions := t_sessions s @ [stored_session inet x]\<rparr>)"

definition session_Get :: "env \<Rightarrow> string \<Rightarrow> ('z auth_db_scheme, Session) prog" where
  "session_Get env i =
     bindE (db_query env (\<lambda>s. find (\<lambda>x. se_ID x = i) (t_sessions s))) (\<lambda>r.
     case r of
       None \<Rightarrow> throwE ErrSessionNotFound
     | Some x \<Rightarrow> if se_RevokedAt x \<noteq> None then throwE ErrSessionRevoked else retE x)"

definition ExtendExpiry :: "env \<Rightarrow> string \<Rightarrow> Time \<Rightarrow> ('z auth_db_scheme, unit) prog" where
  "ExtendExpiry env i newExpiry =
     exec_hit env ErrSessionNotFound (\<lambda>s. \<exists>x \<in> set (t_sessions s). se_ID x = i \<and> se_RevokedAt x = None)
       (\<lambda>s. s\<lparr>t_sessions := update_where (\<lambda>x. se_ID x = i \<and> se_RevokedAt x = None) (\<lambda>x. x\<lparr>se_ExpiresAt := newExpiry\<rparr>) (t_sessions s)\<rparr>)"

definition revoke_once :: "Time \<Rightarrow> Session \<Rightarrow> Session" where
  "revoke_once at x = x\<lparr>se_RevokedAt := (case se_RevokedAt x of None \<Rightarrow> Some at | Some t \<Rightarrow> Some t)\<rparr>"

definition session_Revoke :: "env \<Rightarrow> string \<Rightarrow> Time \<Rightarrow> ('z auth_db_scheme, unit) prog" where
  "session_Revoke env i at =
     db_update env (\<lambda>s. s\<lparr>t_sessions := update_where (\<lambda>x. se_ID x = i) (revoke_once at) (t_sessions s)\<rparr>)"

end
