(* ===== verification/Auth.thy ===== *)
theory Auth imports AuthStore begin

text \<open>
  Operator authentication (\<open>internal/auth\<close>): password and session policies, signed cookies, and the
  service: login, the sliding session, logout, account creation.

  bcrypt is third-party code and HMAC-SHA-256 is a fixed function: both are fields of the parameter
  \<open>crypto\<close>, together with PostgreSQL's \<open>inet\<close> syntax. A salt is an argument of the operation that draws
  it.
\<close>

record crypto =
  bcryptGenerate :: "string \<Rightarrow> int \<Rightarrow> string \<Rightarrow> string option"  \<comment> \<open>password, cost, salt: a hash, or refused\<close>
  bcryptCompare :: "string \<Rightarrow> string \<Rightarrow> bool"                 \<comment> \<open>hash, password\<close>
  hmacSha256 :: "string \<Rightarrow> string \<Rightarrow> string"                   \<comment> \<open>key, payload\<close>
  inetText :: "string \<Rightarrow> string option"

section \<open>Passwords\<close>

record PasswordPolicy =
  pp_BcryptCost :: int

definition NewPasswordPolicy :: "int \<Rightarrow> err + PasswordPolicy" where
  "NewPasswordPolicy cost = (if cost < 10 \<or> cost > 14 then Inl ErrBadPolicy else Inr \<lparr>pp_BcryptCost = cost\<rparr>)"

definition Hash :: "crypto \<Rightarrow> PasswordPolicy \<Rightarrow> string \<Rightarrow> string \<Rightarrow> err + string" where
  "Hash cr p salt password =
     (if password = [] then Inl ErrPasswordHash
      else case bcryptGenerate cr password (pp_BcryptCost p) salt of None \<Rightarrow> Inl ErrPasswordHash | Some h \<Rightarrow> Inr h)"

definition VerifyPassword :: "crypto \<Rightarrow> string \<Rightarrow> string \<Rightarrow> bool" where
  "VerifyPassword cr hash password = bcryptCompare cr hash password"

section \<open>Session lifetimes\<close>

record SessionPolicy =
  sp_Idle :: Duration
  sp_Absolute :: Duration

definition NewSessionPolicy :: "Duration \<Rightarrow> Duration \<Rightarrow> err + SessionPolicy" where
  "NewSessionPolicy idle absolute =
     (if idle \<le> 0 then Inl ErrBadPolicy
      else if absolute \<le> 0 then Inl ErrBadPolicy
      else if absolute < idle then Inl ErrBadPolicy
      else Inr \<lparr>sp_Idle = idle, sp_Absolute = absolute\<rparr>)"

definition NextExpiry :: "SessionPolicy \<Rightarrow> Time \<Rightarrow> Time \<Rightarrow> Time" where
  "NextExpiry p now created =
     (let idleDeadline = now + sp_Idle p; absDeadline = created + sp_Absolute p
      in if idleDeadline < absDeadline then idleDeadline else absDeadline)"

section \<open>Signed cookies\<close>

record SignedCookie =
  sc_key :: string

definition NewSignedCookie :: "string \<Rightarrow> err + SignedCookie" where
  "NewSignedCookie key = (if length key < 32 then Inl ErrBadPolicy else Inr \<lparr>sc_key = key\<rparr>)"

definition cookie_mac :: "crypto \<Rightarrow> SignedCookie \<Rightarrow> string \<Rightarrow> string" where
  "cookie_mac cr sc payload = hmacSha256 cr (sc_key sc) payload"

definition Sign :: "crypto \<Rightarrow> SignedCookie \<Rightarrow> string \<Rightarrow> string" where
  "Sign cr sc sessionID = RawURLEncode sessionID @ ''.'' @ RawURLEncode (cookie_mac cr sc sessionID)"

text \<open>\<open>ConstantTimeCompare\<close> gives 1 exactly for equal contents.\<close>

definition Verify :: "crypto \<Rightarrow> SignedCookie \<Rightarrow> string \<Rightarrow> err + string" where
  "Verify cr sc value =
     (case IndexByte (CHR ''.'') value of
        None \<Rightarrow> Inl ErrInvalidCookie
      | Some dot \<Rightarrow>
          if dot = 0 \<or> dot = length value - 1 then Inl ErrInvalidCookie
          else case RawURLDecodeStrict (take dot value) of
            None \<Rightarrow> Inl ErrInvalidCookie
          | Some idBytes \<Rightarrow>
              (case RawURLDecodeStrict (drop (dot + 1) value) of
                 None \<Rightarrow> Inl ErrInvalidCookie
               | Some gotMAC \<Rightarrow> if gotMAC \<noteq> cookie_mac cr sc idBytes then Inl ErrInvalidCookie else Inr idBytes))"

section \<open>Login\<close>

record LoginInput =
  li_Email :: string
  li_Password :: string
  li_UserAgent :: string
  li_RemoteIP :: string
  li_RequestID :: string

record LoginOutput =
  lo_User :: User
  lo_Session :: Session

definition auth_event :: "string \<Rightarrow> string \<Rightarrow> string \<Rightarrow> string \<Rightarrow> string \<Rightarrow> string \<Rightarrow> string \<Rightarrow> json \<Rightarrow> Event" where
  "auth_event org actor actorType action targetType target request md =
     \<lparr>ev_ID = [], ev_OrganizationID = org, ev_OccurredAt = zeroTime, ev_Actor = actor, ev_ActorType = actorType, ev_Action = action,
      ev_TargetType = targetType, ev_TargetID = target, ev_RequestID = request, ev_Metadata = md\<rparr>"

text \<open>Best effort: an audit error is dropped.\<close>

definition login_failed_event :: "LoginInput \<Rightarrow> string \<Rightarrow> Event" where
  "login_failed_event inp reason =
     auth_event ''anchorix'' (li_Email inp) ''user'' ''auth.login_failed'' ''session'' ''(none)'' (li_RequestID inp)
       (JObj [(''reason'', JStr reason), (''severity'', JStr ''security'')])"

definition auditAuthFailure :: "env \<Rightarrow> LoginInput \<Rightarrow> string \<Rightarrow> ('z auth_db_scheme, unit) prog" where
  "auditAuthFailure env inp reason = bindE (tryE (Record env (login_failed_event inp reason))) (\<lambda>_. retE ())"

definition login_refused :: "env \<Rightarrow> LoginInput \<Rightarrow> string \<Rightarrow> ('z auth_db_scheme, 'a) prog" where
  "login_refused env inp reason = bindE (auditAuthFailure env inp reason) (\<lambda>_. throwE ErrInvalidCredentials)"

definition new_session :: "SessionPolicy \<Rightarrow> LoginInput \<Rightarrow> User \<Rightarrow> string \<Rightarrow> Time \<Rightarrow> Session" where
  "new_session pol inp user i now =
     \<lparr>se_ID = i, se_UserID = us_ID user, se_CreatedAt = now, se_ExpiresAt = NextExpiry pol now now, se_RevokedAt = None,
      se_UserAgent = li_UserAgent inp, se_RemoteIP = li_RemoteIP inp\<rparr>"

definition login_event :: "LoginInput \<Rightarrow> User \<Rightarrow> Session \<Rightarrow> Event" where
  "login_event inp user x =
     auth_event (us_OrganizationID user) (us_ID user) ''user'' ''auth.login_succeeded'' ''session'' (se_ID x) (li_RequestID inp) JNull"

definition login_tx :: "env \<Rightarrow> crypto \<Rightarrow> LoginInput \<Rightarrow> User \<Rightarrow> Session \<Rightarrow> Time \<Rightarrow> ('z auth_db_scheme, unit) prog" where
  "login_tx env cr inp user x now =
     WithTx env (bindE (session_Create env (inetText cr) x) (\<lambda>_.
       bindE (UpdateLastLogin env (us_ID user) now) (\<lambda>_. Record env (login_event inp user x))))"

definition Login :: "env \<Rightarrow> crypto \<Rightarrow> SessionPolicy \<Rightarrow> LoginInput \<Rightarrow> ('z auth_db_scheme, LoginOutput) prog" where
  "Login env cr pol inp =
     bindE (tryE (GetUserByEmail env (li_Email inp))) (\<lambda>r.
     case r of
       Inl e \<Rightarrow> if e = ErrUserNotFound then login_refused env inp ''user_unknown'' else throwE e
     | Inr (user, hash) \<Rightarrow>
         if us_Disabled user then login_refused env inp ''user_disabled''
         else if \<not> VerifyPassword cr hash (li_Password inp) then login_refused env inp ''password_mismatch''
         else
           bindE (Now env) (\<lambda>now.
           bindE (NewID env) (\<lambda>i.
           let x = new_session pol inp user i now in
           bindE (login_tx env cr inp user x now) (\<lambda>_. retE \<lparr>lo_User = user, lo_Session = x\<rparr>))))"

section \<open>The sliding session\<close>

text \<open>After the read: with the session as it was read, which may have changed since.\<close>

definition authenticate_read :: "env \<Rightarrow> SessionPolicy \<Rightarrow> Session \<Rightarrow> ('z auth_db_scheme, User \<times> Session) prog" where
  "authenticate_read env pol x =
     bindE (Now env) (\<lambda>now.
     if \<not> IsActive x now then throwE ErrSessionExpired
     else
       let newExpiry = NextExpiry pol now (se_CreatedAt x) in
       bindE (if newExpiry \<noteq> se_ExpiresAt x
              then bindE (ExtendExpiry env (se_ID x) newExpiry) (\<lambda>_. retE (x\<lparr>se_ExpiresAt := newExpiry\<rparr>))
              else retE x) (\<lambda>x'.
       bindE (GetUserByID env (se_UserID x')) (\<lambda>user.
       if us_Disabled user then throwE ErrUserDisabled else retE (user, x'))))"

definition Authenticate :: "env \<Rightarrow> SessionPolicy \<Rightarrow> string \<Rightarrow> ('z auth_db_scheme, User \<times> Session) prog" where
  "Authenticate env pol sessionID = bindE (session_Get env sessionID) (authenticate_read env pol)"

section \<open>Logout and account creation\<close>

definition logout_event :: "User \<Rightarrow> Session \<Rightarrow> string \<Rightarrow> Event" where
  "logout_event user x requestID =
     auth_event (us_OrganizationID user) (us_ID user) ''user'' ''auth.logout'' ''session'' (se_ID x) requestID JNull"

definition Logout :: "env \<Rightarrow> User \<Rightarrow> Session \<Rightarrow> string \<Rightarrow> ('z auth_db_scheme, unit) prog" where
  "Logout env user x requestID =
     bindE (Now env) (\<lambda>now.
     WithTx env (bindE (session_Revoke env (se_ID x) now) (\<lambda>_. Record env (logout_event user x requestID))))"

definition new_user :: "string \<Rightarrow> string \<Rightarrow> string \<Rightarrow> string \<Rightarrow> Role \<Rightarrow> Time \<Rightarrow> User" where
  "new_user i organizationID email displayName role now =
     \<lparr>us_ID = i, us_OrganizationID = organizationID, us_Email = email, us_DisplayName = displayName, us_Role = role,
      us_Disabled = False, us_CreatedAt = now, us_LastLoginAt = None\<rparr>"

definition CreateUser ::
  "env \<Rightarrow> crypto \<Rightarrow> PasswordPolicy \<Rightarrow> string \<Rightarrow> string \<Rightarrow> string \<Rightarrow> string \<Rightarrow> string \<Rightarrow> Role \<Rightarrow> ('z auth_db_scheme, User) prog" where
  "CreateUser env cr pp salt organizationID email displayName plaintextPassword role =
     bindE (liftE (Hash cr pp salt plaintextPassword)) (\<lambda>hash.
     bindE (NewID env) (\<lambda>i.
     bindE (Now env) (\<lambda>now.
     let user = new_user i organizationID email displayName role now in
     bindE (WithTx env (bindE (user_Create env user hash) (\<lambda>_.
       Record env (auth_event organizationID ''system'' ''system'' ''auth.admin_created'' ''user'' (us_ID user) [] JNull)))) (\<lambda>_.
     retE user))))"

end
