(* ===== verification/AuthHistory.thy ===== *)
theory AuthHistory imports Auth begin

text \<open>
  What operator authentication keeps: a cookie is the signature of its session; the tables keep their
  keys, and no session outlives the absolute lifetime (\<open>auth_ok\<close>). Requests interleave: an
  authentication reads its session, and goes on later with what it read (\<open>auth_step\<close>).
\<close>

section \<open>Cookies\<close>

lemma b64_not_dot: "0 \<le> n \<Longrightarrow> n < 64 \<Longrightarrow> b64_char n \<noteq> CHR ''.''"
proof
  assume n: "0 \<le> n" "n < 64" and c: "b64_char n = CHR ''.''"
  have "b64_value (CHR ''.'') = None" by code_simp
  with b64_inverse [OF n] show False by (simp add: c)
qed

lemma encode_no_dot: "CHR ''.'' \<notin> set (RawURLEncode s)"
proof
  assume "CHR ''.'' \<in> set (RawURLEncode s)"
  then obtain n where "n \<in> set (sextets_of s)" "b64_char n = CHR ''.''" unfolding encode_sextets by auto
  moreover then have "0 \<le> n \<and> n < 64" using sextets_range [of s] by (auto simp: list_all_iff)
  ultimately show False using b64_not_dot [of n] by simp
qed

lemma encode_eq_Nil [simp]: "RawURLEncode s = [] \<longleftrightarrow> s = []"
  by (induction s rule: sextets_of.induct) (simp_all add: Let_def)

lemma encode_no_breaks: "filter (\<lambda>c. c \<notin> {CHR 0x0A, CHR 0x0D}) (RawURLEncode s) = RawURLEncode s"
proof -
  have "b64_char n \<notin> {CHR 0x0A, CHR 0x0D}" if "n \<in> set (sextets_of s)" for n
    using sextets_range [of s] that b64_inverse [of n] by (auto simp: list_all_iff)
  then show ?thesis unfolding encode_sextets by (intro filter_True) auto
qed

lemma Verify_Sign:
  assumes "sessionID \<noteq> []" and "cookie_mac cr sc sessionID \<noteq> []"
  shows "Verify cr sc (Sign cr sc sessionID) = Inr sessionID"
proof -
  have "IndexByte (CHR ''.'') (Sign cr sc sessionID) = Some (length (RawURLEncode sessionID))"
    unfolding Sign_def using IndexByte_first [OF encode_no_dot, of sessionID] by simp
  moreover have "length (RawURLEncode sessionID) \<noteq> 0" "length (RawURLEncode sessionID) \<noteq> length (Sign cr sc sessionID) - 1"
    using assms by (simp_all add: Sign_def)
  ultimately show ?thesis by (simp add: Verify_def Sign_def RawURLStrict_roundtrip)
qed

lemma Verify_only_Sign:
  assumes "Verify cr sc v = Inr i"
  shows "filter (\<lambda>c. c \<notin> {CHR 0x0A, CHR 0x0D}) v = Sign cr sc i"
proof -
  from assms obtain dot where dot: "IndexByte (CHR ''.'') v = Some dot" and i: "RawURLDecodeStrict (take dot v) = Some i"
    and m: "RawURLDecodeStrict (drop (dot + 1) v) = Some (cookie_mac cr sc i)"
    by (auto simp: Verify_def split: option.splits if_splits)
  have v: "v = take dot v @ CHR ''.'' # drop (dot + 1) v"
    using IndexByte_Some [OF dot] by (metis Suc_eq_plus1 id_take_nth_drop)
  have "filter (\<lambda>c. c \<notin> {CHR 0x0A, CHR 0x0D}) v = filter (\<lambda>c. c \<notin> {CHR 0x0A, CHR 0x0D}) (take dot v) @ CHR ''.'' #
      filter (\<lambda>c. c \<notin> {CHR 0x0A, CHR 0x0D}) (drop (dot + 1) v)"
    by (subst v) simp
  then show ?thesis unfolding RawURLStrict_canonical [OF i] RawURLStrict_canonical [OF m] by (simp add: Sign_def)
qed

section \<open>What the schema and the policy keep\<close>

lemma auth_views:
  assumes "tables_of s = tables_of t"
  shows "t_organizations s = t_organizations t" "t_users s = t_users t" "t_sessions s = t_sessions t"
  using assms by (cases s; cases t; simp add: tables_of_def)+

lemma auth_of_views [simp]:
  "t_users (db_of s) = t_users s" "t_sessions (db_of s) = t_sessions s" "t_organizations (db_of s) = t_organizations s"
  "t_users (stepped s) = t_users s" "t_sessions (stepped s) = t_sessions s" "t_organizations (stepped s) = t_organizations s"
  by (simp_all add: db_of_def stepped_def)

definition users_ok :: "'z auth_db_scheme \<Rightarrow> bool" where
  "users_ok s \<longleftrightarrow> distinct (map (\<lambda>r. us_ID (ur_user r)) (t_users s)) \<and>
     distinct (map (\<lambda>r. (us_OrganizationID (ur_user r), us_Email (ur_user r))) (t_users s)) \<and>
     (\<forall>r \<in> set (t_users s). us_OrganizationID (ur_user r) \<in> fst ` set (t_organizations s))"

definition sessions_ok :: "SessionPolicy \<Rightarrow> 'z auth_db_scheme \<Rightarrow> bool" where
  "sessions_ok pol s \<longleftrightarrow> distinct (map se_ID (t_sessions s)) \<and>
     (\<forall>x \<in> set (t_sessions s). se_UserID x \<in> (\<lambda>r. us_ID (ur_user r)) ` set (t_users s) \<and> se_ExpiresAt x \<le> se_CreatedAt x + sp_Absolute pol)"

definition auth_ok :: "SessionPolicy \<Rightarrow> 'z auth_db_scheme \<Rightarrow> bool" where
  "auth_ok pol s \<longleftrightarrow> users_ok s \<and> sessions_ok pol s"

lemma auth_ok_cong: "tables_of s = tables_of t \<Longrightarrow> auth_ok pol s = auth_ok pol t"
  using auth_views [of s t] by (simp add: auth_ok_def users_ok_def sessions_ok_def)

lemma auth_ok_views [simp]: "auth_ok pol (db_of s) = auth_ok pol s" "auth_ok pol (stepped s) = auth_ok pol s"
  by (rule auth_ok_cong; simp)+

lemma NextExpiry_le: "NextExpiry pol now created \<le> created + sp_Absolute pol" "NextExpiry pol now created \<le> now + sp_Idle pol"
  by (auto simp: NextExpiry_def Let_def)

lemma keeps_auth_tables: "leaves tables_of m \<Longrightarrow> keeps (auth_ok pol) m"
  by (rule keepsI) (metis leavesD auth_ok_cong)

lemma keeps_auth_read: "leaves db_of m \<Longrightarrow> keeps (auth_ok pol) m"
  by (intro keeps_auth_tables leaves_tables)

lemma keeps_auth_Record: "keeps (auth_ok pol) (Record env e)"
  by (intro keeps_auth_tables frame_intros)

lemma keeps_auth_tx: "keeps (auth_ok pol) m \<Longrightarrow> keeps (auth_ok pol) (WithTx env m)"
  by (rule keeps_transactions(1)) simp_all

lemma keeps_session_Create:
  assumes "se_ExpiresAt x \<le> se_CreatedAt x + sp_Absolute pol"
  shows "keeps (auth_ok pol) (session_Create env inet x)"
  unfolding session_Create_def
  by (rule keeps_exec_hit) (use assms in \<open>auto simp: auth_ok_def users_ok_def sessions_ok_def session_insertable_def stored_session_def\<close>)

lemma keeps_ExtendExpiry:
  assumes "\<And>x. x \<in> set (t_sessions s) \<Longrightarrow> se_ID x = i \<Longrightarrow> newExpiry \<le> se_CreatedAt x + sp_Absolute pol"
    and "auth_ok pol s" and "ExtendExpiry env i newExpiry s = (r, s')"
  shows "auth_ok pol s'"
proof -
  have "tables_of s' = tables_of s \<or> s' = (stepped s)\<lparr>t_sessions := update_where (\<lambda>x. se_ID x = i \<and> se_RevokedAt x = None) (\<lambda>x. x\<lparr>se_ExpiresAt := newExpiry\<rparr>) (t_sessions s)\<rparr>"
    using assms(3) by (auto simp: ExtendExpiry_def exec_hit_def bindE_def db_query_def dbcall_def getE_def guardE_def retE_def throwE_def modE_def stepped_def tables_of_def split: if_splits)
  then show ?thesis
  proof
    assume "tables_of s' = tables_of s"
    then show ?thesis using assms(2) auth_ok_cong by blast
  next
    assume s': "s' = (stepped s)\<lparr>t_sessions := update_where (\<lambda>x. se_ID x = i \<and> se_RevokedAt x = None) (\<lambda>x. x\<lparr>se_ExpiresAt := newExpiry\<rparr>) (t_sessions s)\<rparr>"
    have "map se_ID (t_sessions s') = map se_ID (t_sessions s)" by (simp add: s' map_update_where)
    then show ?thesis using assms(1,2) by (auto simp: auth_ok_def users_ok_def sessions_ok_def s' set_update_where)
  qed
qed

lemma keeps_UpdateLastLogin: "keeps (auth_ok pol) (UpdateLastLogin env i at)"
  unfolding UpdateLastLogin_def
proof (rule keeps_db_update, simp)
  fix s :: "'z auth_db_scheme"
  assume ok: "auth_ok pol s"
  let ?u = "update_where (\<lambda>r. us_ID (ur_user r) = i) (last_login at) (t_users s)"
  have m: "map (\<lambda>r. us_ID (ur_user r)) ?u = map (\<lambda>r. us_ID (ur_user r)) (t_users s)"
    "map (\<lambda>r. (us_OrganizationID (ur_user r), us_Email (ur_user r))) ?u = map (\<lambda>r. (us_OrganizationID (ur_user r), us_Email (ur_user r))) (t_users s)"
    by (simp_all add: map_update_where last_login_def)
  have i: "(\<lambda>r. us_ID (ur_user r)) ` set ?u = (\<lambda>r. us_ID (ur_user r)) ` set (t_users s)"
    using arg_cong [OF m(1), of set] by simp
  have "\<forall>r \<in> set ?u. us_OrganizationID (ur_user r) \<in> fst ` set (t_organizations s)"
    using ok by (auto simp: auth_ok_def users_ok_def set_update_where last_login_def)
  then show "auth_ok pol (s\<lparr>t_users := ?u\<rparr>)" using ok by (simp add: auth_ok_def users_ok_def sessions_ok_def m i)
qed

lemma keeps_session_Revoke: "keeps (auth_ok pol) (session_Revoke env i at)"
  unfolding session_Revoke_def
proof (rule keeps_db_update, simp)
  fix s :: "'z auth_db_scheme"
  assume "auth_ok pol s"
  moreover have "map se_ID (update_where (\<lambda>x. se_ID x = i) (revoke_once at) (t_sessions s)) = map se_ID (t_sessions s)"
    by (simp add: map_update_where revoke_once_def)
  ultimately show "auth_ok pol (s\<lparr>t_sessions := update_where (\<lambda>x. se_ID x = i) (revoke_once at) (t_sessions s)\<rparr>)"
    by (auto simp: auth_ok_def users_ok_def sessions_ok_def set_update_where revoke_once_def)
qed

lemma keeps_user_Create: "keeps (auth_ok pol) (user_Create env u h)"
  unfolding user_Create_def
  by (rule keeps_exec_hit) (force simp: auth_ok_def users_ok_def sessions_ok_def user_insertable_def)+

section \<open>The operations\<close>

lemma keeps_Login: "keeps (auth_ok pol) (Login env cr pol inp)"
  unfolding Login_def login_refused_def auditAuthFailure_def login_tx_def GetUserByEmail_def Let_def
  by (intro keep_intros keeps_auth_tx keeps_session_Create keeps_UpdateLastLogin keeps_auth_Record
      keeps_auth_read [OF leaves_Now] keeps_auth_read [OF leaves_NewID] keeps_auth_read [OF leaves_db_query])
    (simp add: new_session_def NextExpiry_le)

lemma keeps_Logout: "keeps (auth_ok pol) (Logout env user x req)"
  unfolding Logout_def by (intro keep_intros keeps_auth_tx keeps_session_Revoke keeps_auth_Record keeps_auth_read [OF leaves_Now])

lemma keeps_CreateUser: "keeps (auth_ok pol) (CreateUser env cr pp salt org email name pw role)"
  unfolding CreateUser_def Let_def
  by (intro keep_intros keeps_auth_tx keeps_user_Create keeps_auth_Record keeps_auth_read [OF leaves_Now] keeps_auth_read [OF leaves_NewID])

lemma keeps_EnsureOrganization: "keeps (auth_ok pol) (EnsureOrganization env i name)"
  unfolding EnsureOrganization_def
  by (intro keep_intros keeps_db_update) (auto simp: auth_ok_def users_ok_def sessions_ok_def)

lemma leaves_session_Get: "leaves db_of (session_Get env i)"
  unfolding session_Get_def by (intro frame_intros)

lemma leaves_GetUserByID: "leaves db_of (GetUserByID env i)"
  unfolding GetUserByID_def by (intro frame_intros)

text \<open>An authentication goes on: it writes at most the new expiry of its session, when that is not revoked.\<close>

lemma ExtendExpiry_cases:
  "ExtendExpiry env i newExpiry s = (r, s') \<Longrightarrow> tables_of s' = tables_of s \<or>
     s' = (stepped s)\<lparr>t_sessions := update_where (\<lambda>x. se_ID x = i \<and> se_RevokedAt x = None) (\<lambda>x. x\<lparr>se_ExpiresAt := newExpiry\<rparr>) (t_sessions s)\<rparr>"
  by (auto simp: ExtendExpiry_def exec_hit_def bindE_def db_query_def dbcall_def getE_def guardE_def retE_def throwE_def modE_def stepped_def tables_of_def split: if_splits)

definition extended :: "SessionPolicy \<Rightarrow> Session \<Rightarrow> Time \<Rightarrow> Session \<Rightarrow> Session" where
  "extended pol x now y = (if se_ID y = se_ID x \<and> se_RevokedAt y = None then y\<lparr>se_ExpiresAt := NextExpiry pol now (se_CreatedAt x)\<rparr> else y)"

lemma authenticate_read_writes:
  assumes "authenticate_read env pol x s = (r, s')"
  shows "t_users s' = t_users s \<and> t_organizations s' = t_organizations s \<and>
    (t_sessions s' = t_sessions s \<or> t_sessions s' = map (extended pol x (clockAt env (w_clock s))) (t_sessions s))"
proof -
  let ?now = "clockAt env (w_clock s)" and ?s = "s\<lparr>w_clock := Suc (w_clock s)\<rparr>" and ?e = "NextExpiry pol (clockAt env (w_clock s)) (se_CreatedAt x)"
  let ?slide = "if ?e \<noteq> se_ExpiresAt x then bindE (ExtendExpiry env (se_ID x) ?e) (\<lambda>_. retE (x\<lparr>se_ExpiresAt := ?e\<rparr>)) else retE x"
  let ?rest = "\<lambda>x'. bindE (GetUserByID env (se_UserID x')) (\<lambda>user. if us_Disabled user then throwE ErrUserDisabled else retE (user, x'))"
  show ?thesis
  proof (cases "IsActive x ?now")
    case False
    then have "s' = ?s" using assms by (simp add: authenticate_read_def bindE_def Now_def throwE_def)
    then show ?thesis by simp
  next
    case True
    then have run: "bindE ?slide ?rest ?s = (r, s')" using assms by (simp add: authenticate_read_def bindE_def Now_def Let_def)
    obtain r1 s1 where sl: "?slide ?s = (r1, s1)" by fastforce
    have "tables_of s1 = tables_of ?s \<or> s1 = (stepped ?s)\<lparr>t_sessions := update_where (\<lambda>y. se_ID y = se_ID x \<and> se_RevokedAt y = None) (\<lambda>y. y\<lparr>se_ExpiresAt := ?e\<rparr>) (t_sessions ?s)\<rparr>"
    proof (cases "?e = se_ExpiresAt x")
      case False
      obtain r2 s2 where "ExtendExpiry env (se_ID x) ?e ?s = (r2, s2)" by fastforce
      moreover then have "s2 = s1" using sl False by (cases r2) (auto simp: bindE_def retE_def)
      ultimately show ?thesis using ExtendExpiry_cases by blast
    qed (use sl in \<open>simp add: retE_def\<close>)
    then have 1: "t_users s1 = t_users s \<and> t_organizations s1 = t_organizations s \<and>
        (t_sessions s1 = t_sessions s \<or> t_sessions s1 = map (extended pol x ?now) (t_sessions s))"
      using auth_views [of s1 ?s] by (auto simp: update_where_def extended_def)
    have "leaves db_of (?rest x')" for x' by (intro frame_intros leaves_GetUserByID)
    then have "db_of s' = db_of s1" using run sl by (cases r1) (auto simp: bindE_def [of ?slide] dest: leavesD)
    then have "tables_of s' = tables_of s1" by (metis tables_of_simps(6))
    from auth_views [OF this] 1 show ?thesis by simp
  qed
qed

section \<open>Histories\<close>

inductive auth_step :: "env \<Rightarrow> crypto \<Rightarrow> SessionPolicy \<Rightarrow> Session list \<times> 'z auth_db_scheme \<Rightarrow> Session list \<times> 'z auth_db_scheme \<Rightarrow> bool"
  for env cr pol where
  login: "Login env cr pol inp s = (r, s') \<Longrightarrow> auth_step env cr pol (xs, s) (xs, s')"
| logout: "Logout env user x req s = (r, s') \<Longrightarrow> auth_step env cr pol (xs, s) (xs, s')"
| create: "CreateUser env cr pp salt org email name pw role s = (r, s') \<Longrightarrow> auth_step env cr pol (xs, s) (xs, s')"
| ensure: "EnsureOrganization env org name s = (r, s') \<Longrightarrow> auth_step env cr pol (xs, s) (xs, s')"
| read: "session_Get env i s = (r, s') \<Longrightarrow> auth_step env cr pol (xs, s) ((case r of Inl _ \<Rightarrow> xs | Inr x \<Rightarrow> x # xs), s')"
| resume: "x \<in> set xs \<Longrightarrow> authenticate_read env pol x s = (r, s') \<Longrightarrow> auth_step env cr pol (xs, s) (xs, s')"

definition session_key :: "Session \<Rightarrow> string \<times> string \<times> Time" where
  "session_key x = (se_ID x, se_UserID x, se_CreatedAt x)"

definition user_key :: "UserRow \<Rightarrow> string \<times> string \<times> string \<times> Role \<times> bool \<times> string" where
  "user_key r = (us_ID (ur_user r), us_OrganizationID (ur_user r), us_Email (ur_user r), us_Role (ur_user r), us_Disabled (ur_user r), ur_password_hash r)"

text \<open>What is in the tables stays: accounts and sessions with their keys, and revoked sessions as they are.\<close>

definition auth_later :: "'z auth_db_scheme \<Rightarrow> 'z auth_db_scheme \<Rightarrow> bool" where
  "auth_later s t \<longleftrightarrow> session_key ` set (t_sessions s) \<subseteq> session_key ` set (t_sessions t) \<and> user_key ` set (t_users s) \<subseteq> user_key ` set (t_users t) \<and>
     (\<forall>x \<in> set (t_sessions s). se_RevokedAt x \<noteq> None \<longrightarrow> x \<in> set (t_sessions t))"

lemma auth_later_refl [simp]: "auth_later s s"
  by (simp add: auth_later_def)

lemma auth_later_trans: "auth_later s t \<Longrightarrow> auth_later t u \<Longrightarrow> auth_later s u"
  unfolding auth_later_def by (meson subset_trans)

lemma auth_later_cong: "tables_of t = tables_of u \<Longrightarrow> auth_later s t = auth_later s u"
  using auth_views [of t u] by (simp add: auth_later_def)

lemma auth_later_views [simp]: "auth_later s (db_of t) = auth_later s t" "auth_later s (stepped t) = auth_later s t"
  by (rule auth_later_cong; simp)+

lemma auth_later_tables: "leaves tables_of m \<Longrightarrow> keeps (auth_later s0) m"
  by (rule keepsI) (metis leavesD auth_later_cong)

lemma later_read: "leaves db_of m \<Longrightarrow> keeps (auth_later s0) m"
  by (intro auth_later_tables leaves_tables)

lemma later_tx: "keeps (auth_later s0) m \<Longrightarrow> keeps (auth_later s0) (WithTx env m)"
  by (rule keeps_transactions(1)) simp_all

lemma later_sessions:
  assumes "auth_later s0 s" and "t_users s' = t_users s" and "\<And>x. session_key (f x) = session_key x" and "\<And>x. se_RevokedAt x \<noteq> None \<Longrightarrow> f x = x"
    and "f ` set (t_sessions s) \<subseteq> set (t_sessions s')"
  shows "auth_later s0 s'"
proof -
  have "session_key ` set (t_sessions s) = session_key ` f ` set (t_sessions s)" using assms(3) by (simp add: image_image)
  also have "\<dots> \<subseteq> session_key ` set (t_sessions s')" using assms(5) by blast
  finally have "auth_later s s'" using assms(2,4,5) by (force simp: auth_later_def)
  with assms(1) show ?thesis by (rule auth_later_trans)
qed

lemma later_session_Create: "keeps (auth_later s0) (session_Create env inet x)"
  unfolding session_Create_def by (rule keeps_exec_hit) (auto intro: later_sessions [where f = id])

lemma later_session_Revoke: "keeps (auth_later s0) (session_Revoke env i at)"
  unfolding session_Revoke_def
  by (rule keeps_db_update, simp)
    (rule later_sessions [where f = "\<lambda>x. if se_ID x = i then revoke_once at x else x"], auto simp: update_where_def session_key_def revoke_once_def)

lemma later_UpdateLastLogin: "keeps (auth_later s0) (UpdateLastLogin env i at)"
  unfolding UpdateLastLogin_def
proof (rule keeps_db_update, simp)
  fix s :: "'a auth_db_scheme"
  assume l: "auth_later s0 s"
  let ?u = "update_where (\<lambda>r. us_ID (ur_user r) = i) (last_login at) (t_users s)"
  have "map user_key ?u = map user_key (t_users s)" by (simp add: map_update_where user_key_def last_login_def)
  from arg_cong [OF this, of set] l show "auth_later s0 (s\<lparr>t_users := ?u\<rparr>)" by (simp add: auth_later_def)
qed

lemma later_Login: "keeps (auth_later s0) (Login env cr pol inp)"
  unfolding Login_def login_refused_def auditAuthFailure_def login_tx_def GetUserByEmail_def Let_def
  by (intro keep_intros later_tx later_session_Create later_UpdateLastLogin auth_later_tables [OF leaves_tables_Record]
      later_read [OF leaves_Now] later_read [OF leaves_NewID] later_read [OF leaves_db_query])

lemma later_Logout: "keeps (auth_later s0) (Logout env user x req)"
  unfolding Logout_def by (intro keep_intros later_tx later_session_Revoke auth_later_tables [OF leaves_tables_Record] later_read [OF leaves_Now])

lemma later_CreateUser: "keeps (auth_later s0) (CreateUser env cr pp salt org email name pw role)"
  unfolding CreateUser_def Let_def user_Create_def
  by (intro keep_intros later_tx keeps_exec_hit auth_later_tables [OF leaves_tables_Record] later_read [OF leaves_Now] later_read [OF leaves_NewID])
    (auto simp: auth_later_def)

lemma later_EnsureOrganization: "keeps (auth_later s0) (EnsureOrganization env i name)"
  unfolding EnsureOrganization_def by (intro keep_intros keeps_db_update) (auto simp: auth_later_def)

lemma later_authenticate_read:
  assumes "authenticate_read env pol x s = (r, s')" shows "auth_later s s'"
proof -
  let ?f = "extended pol x (clockAt env (w_clock s))"
  have "session_key (?f y) = session_key y" "se_RevokedAt y \<noteq> None \<Longrightarrow> ?f y = y" for y by (auto simp: extended_def session_key_def)
  note sessions = later_sessions [OF auth_later_refl, of s' s, OF _ this]
  from authenticate_read_writes [OF assms] consider "t_users s' = t_users s" "t_sessions s' = t_sessions s"
    | "t_users s' = t_users s" "t_sessions s' = map ?f (t_sessions s)" by blast
  then show ?thesis
  proof cases
    case 2
    then show ?thesis by (intro sessions) auto
  qed (simp add: auth_later_def)
qed

lemma auth_step_later: "auth_step env cr pol a b \<Longrightarrow> auth_later (snd a) (snd b)"
  by (induction rule: auth_step.induct)
    (auto dest: keepsD [OF later_Login auth_later_refl] keepsD [OF later_Logout auth_later_refl] keepsD [OF later_CreateUser auth_later_refl]
      keepsD [OF later_EnsureOrganization auth_later_refl] keepsD [OF later_read [OF leaves_session_Get] auth_later_refl] later_authenticate_read)

lemma auth_history_later: "(auth_step env cr pol)\<^sup>*\<^sup>* a b \<Longrightarrow> auth_later (snd a) (snd b)"
  by (induction rule: rtranclp_induct) (auto intro: auth_step_later auth_later_trans)

text \<open>What the running authentications have read is still there, with the same beginning.\<close>

definition history_ok :: "SessionPolicy \<Rightarrow> Session list \<times> 'z auth_db_scheme \<Rightarrow> bool" where
  "history_ok pol a \<longleftrightarrow> auth_ok pol (snd a) \<and> (\<forall>x \<in> set (fst a). session_key x \<in> session_key ` set (t_sessions (snd a)) \<and>
     se_RevokedAt x = None \<and> se_ExpiresAt x \<le> se_CreatedAt x + sp_Absolute pol)"

lemma session_Get_Inr:
  "session_Get env i s = (Inr x, s') \<Longrightarrow> find (\<lambda>x. se_ID x = i) (t_sessions s) = Some x \<and> se_RevokedAt x = None \<and> s' = stepped s"
  by (auto simp: session_Get_def run_simps split: option.splits if_splits)

lemma authenticate_read_ok:
  assumes ok: "auth_ok pol s" and x: "session_key x \<in> session_key ` set (t_sessions s)" and run: "authenticate_read env pol x s = (r, s')"
  shows "auth_ok pol s'"
proof -
  note w = authenticate_read_writes [OF run]
  have same: "se_CreatedAt y = se_CreatedAt x" if y: "y \<in> set (t_sessions s)" "se_ID y = se_ID x" for y
  proof -
    from x obtain z where z: "z \<in> set (t_sessions s)" "session_key z = session_key x" by auto
    have "inj_on se_ID (set (t_sessions s))" using ok by (simp add: auth_ok_def sessions_ok_def distinct_map)
    then have "y = z" using y z by (auto simp: inj_on_def session_key_def)
    then show ?thesis using z by (simp add: session_key_def)
  qed
  have m: "map se_ID (map (extended pol x now) (t_sessions s)) = map se_ID (t_sessions s)" for now by (simp add: extended_def)
  have "sessions_ok pol s'"
  proof (cases "t_sessions s' = t_sessions s")
    case True
    then show ?thesis using w ok by (simp add: auth_ok_def sessions_ok_def)
  next
    case False
    then have t: "t_sessions s' = map (extended pol x (clockAt env (w_clock s))) (t_sessions s)" using w by blast
    have "se_UserID y \<in> (\<lambda>r. us_ID (ur_user r)) ` set (t_users s) \<and> se_ExpiresAt y \<le> se_CreatedAt y + sp_Absolute pol" if "y \<in> set (t_sessions s')" for y
    proof -
      from that t obtain z where z: "z \<in> set (t_sessions s)" "y = extended pol x (clockAt env (w_clock s)) z" by auto
      then show ?thesis using ok same [OF z(1)] NextExpiry_le(1) [of pol "clockAt env (w_clock s)" "se_CreatedAt x"]
        by (auto simp: extended_def auth_ok_def sessions_ok_def)
    qed
    moreover have "distinct (map se_ID (t_sessions s'))" unfolding t m using ok by (simp add: auth_ok_def sessions_ok_def)
    ultimately show ?thesis using w by (simp add: sessions_ok_def)
  qed
  then show ?thesis using ok w by (simp add: auth_ok_def users_ok_def)
qed

lemma auth_step_ok: "auth_step env cr pol a b \<Longrightarrow> history_ok pol a \<Longrightarrow> history_ok pol b"
proof -
  assume step: "auth_step env cr pol a b" and inv: "history_ok pol a"
  note later = auth_step_later [OF step]
  have "auth_ok pol (snd b)" using step inv
    by (induction rule: auth_step.induct)
      (auto simp: history_ok_def dest: keepsD [OF keeps_Login] keepsD [OF keeps_Logout] keepsD [OF keeps_CreateUser]
        keepsD [OF keeps_EnsureOrganization] keepsD [OF keeps_auth_read [OF leaves_session_Get]] authenticate_read_ok)
  moreover have "session_key x \<in> session_key ` set (t_sessions (snd b)) \<and> se_RevokedAt x = None \<and> se_ExpiresAt x \<le> se_CreatedAt x + sp_Absolute pol"
    if x: "x \<in> set (fst b)" for x
  proof (cases "x \<in> set (fst a)")
    case True
    then show ?thesis using inv later by (auto simp: history_ok_def auth_later_def)
  next
    case False
    with step x obtain i where "session_Get env i (snd a) = (Inr x, snd b)" by (auto elim!: auth_step.cases split: sum.splits)
    from session_Get_Inr [OF this] inv show ?thesis by (auto simp: history_ok_def auth_ok_def sessions_ok_def dest: find_Some_D)
  qed
  ultimately show ?thesis by (simp add: history_ok_def)
qed

lemma auth_history_ok: "(auth_step env cr pol)\<^sup>*\<^sup>* a b \<Longrightarrow> history_ok pol a \<Longrightarrow> history_ok pol b"
  by (induction rule: rtranclp_induct) (auto intro: auth_step_ok)

end
