(* ===== verification/AuthOps.thy ===== *)
theory AuthOps imports AuthHistory begin

text \<open>
  The theorems on operator authentication: what a login and an authentication decide, how long a session
  lasts, that a logout is final, and that only signed cookies verify.
\<close>

section \<open>Login\<close>

text \<open>Whose password it is.\<close>

definition login_user :: "crypto \<Rightarrow> LoginInput \<Rightarrow> 'z auth_db_scheme \<Rightarrow> UserRow option" where
  "login_user cr inp s =
     (case find (\<lambda>r. us_Email (ur_user r) = li_Email inp) (t_users s) of
        None \<Rightarrow> None
      | Some r \<Rightarrow> if us_Disabled (ur_user r) \<or> \<not> bcryptCompare cr (ur_password_hash r) (li_Password inp) then None else Some r)"

lemma login_refused_ok:
  assumes "no_faults env" and "li_Email inp \<noteq> []"
  shows "\<exists>s'. login_refused env inp reason s = (Inl ErrInvalidCredentials, s') \<and> refused ''auth.login_failed'' reason s s'"
  using Record_refused [OF assms(1), of "login_failed_event inp reason" reason s] assms(2)
  by (auto simp: login_refused_def auditAuthFailure_def bindE_def tryE_def retE_def throwE_def login_failed_event_def auth_event_def json_field_def)

lemma GetUserByEmail_ok:
  assumes "no_faults env"
  shows "GetUserByEmail env email s =
    (case find (\<lambda>r. us_Email (ur_user r) = email) (t_users s) of None \<Rightarrow> Inl ErrUserNotFound | Some r \<Rightarrow> Inr (ur_user r, ur_password_hash r), stepped s)"
  using assms by (auto simp: GetUserByEmail_def bindE_def db_query_ok throwE_def retE_def split: option.splits)

lemma login_tx_ok:
  assumes nf: "no_faults env" and x: "session_insertable (inetText cr) x s" and user: "us_ID user \<noteq> []" "us_OrganizationID user \<noteq> []" "se_ID x \<noteq> []"
  shows "\<exists>s'. login_tx env cr inp user x now s = (Inr (), s') \<and> t_sessions s' = t_sessions s @ [stored_session (inetText cr) x] \<and>
    t_users s' = update_where (\<lambda>r. us_ID (ur_user r) = us_ID user) (last_login now) (t_users s) \<and>
    (\<exists>r. audit_events s' = audit_events s @ [r] \<and> same_event r (login_event inp user x))"
proof -
  let ?s1 = "(stepped s)\<lparr>w_tx := Suc (w_tx s)\<rparr>"
  let ?s2 = "(stepped ?s1)\<lparr>t_sessions := t_sessions ?s1 @ [stored_session (inetText cr) x]\<rparr>"
  let ?s3 = "(stepped ?s2)\<lparr>t_users := update_where (\<lambda>r. us_ID (ur_user r) = us_ID user) (last_login now) (t_users ?s2)\<rparr>"
  let ?fn = "bindE (session_Create env (inetText cr) x) (\<lambda>_. bindE (UpdateLastLogin env (us_ID user) now) (\<lambda>_. Record env (login_event inp user x)))"
  have 1: "session_Create env (inetText cr) x ?s1 = (Inr (), ?s2)"
    using nf x unfolding session_Create_def by (subst exec_hit_ok) (simp_all add: session_insertable_def)
  have 2: "UpdateLastLogin env (us_ID user) now ?s2 = (Inr (), ?s3)" using nf by (simp add: UpdateLastLogin_def db_update_ok)
  obtain s4 where 3: "Record env (login_event inp user x) ?s3 = (Inr (), s4)"
    using Record_ok [OF nf, of "login_event inp user x" ?s3] user by (auto simp: login_event_def auth_event_def)
  have "?fn ?s1 = (Inr (), s4)" using 1 2 3 by (simp add: bindE_def)
  from WithTx_ok [where fn = ?fn, OF nf this] have run: "login_tx env cr inp user x now s = (Inr (), stepped s4)" by (simp add: login_tx_def)
  from Record_Inr [OF 3] obtain r where r: "audit_events s4 = audit_events ?s3 @ [r]" "same_event r (login_event inp user x)" "tables_of s4 = tables_of ?s3" by blast
  show ?thesis using run r auth_views [OF r(3)] by (intro exI [of _ "stepped s4"]) auto
qed

text \<open>
  On a working database a login succeeds exactly with the password of an enabled account (given a fresh session identifier and an
  address PostgreSQL takes): it opens one session with the policy's first expiry, dates the last login and is audited. Every other
  attempt gets one and the same error, changes no table and is recorded as a security event with its reason.
\<close>

lemma Login_decides:
  assumes nf: "no_faults env" and ids: "idAt env (w_ids s) \<notin> insert [] (se_ID ` set (t_sessions s))" and inet: "inet_column (inetText cr) (li_RemoteIP inp) \<noteq> None"
    and named: "\<forall>r \<in> set (t_users s). us_ID (ur_user r) \<noteq> [] \<and> us_OrganizationID (ur_user r) \<noteq> []" and email: "li_Email inp \<noteq> []"
  shows "case login_user cr inp s of
    None \<Rightarrow> \<exists>reason s'. Login env cr pol inp s = (Inl ErrInvalidCredentials, s') \<and> refused ''auth.login_failed'' reason s s'
  | Some r \<Rightarrow> \<exists>s'. let now = clockAt env (w_clock s); x = new_session pol inp (ur_user r) (idAt env (w_ids s)) now in
      Login env cr pol inp s = (Inr \<lparr>lo_User = ur_user r, lo_Session = x\<rparr>, s') \<and>
      t_sessions s' = t_sessions s @ [stored_session (inetText cr) x] \<and>
      t_users s' = update_where (\<lambda>u. us_ID (ur_user u) = us_ID (ur_user r)) (last_login now) (t_users s) \<and>
      (\<exists>ev. audit_events s' = audit_events s @ [ev] \<and> same_event ev (login_event inp (ur_user r) x))"
proof (cases "find (\<lambda>r. us_Email (ur_user r) = li_Email inp) (t_users s)")
  case None
  then have get: "GetUserByEmail env (li_Email inp) s = (Inl ErrUserNotFound, stepped s)" using GetUserByEmail_ok [OF nf, of "li_Email inp" s] by simp
  then have "Login env cr pol inp s = login_refused env inp ''user_unknown'' (stepped s)"
    by (simp add: Login_def bindE_def tryE_def)
  then show ?thesis using login_refused_ok [OF nf email, of "''user_unknown''" "stepped s"] refused_cong [of "stepped s" s] None by (auto simp: login_user_def)
next
  case (Some r)
  have r: "r \<in> set (t_users s)" using find_Some_D [OF Some] by simp
  have get: "GetUserByEmail env (li_Email inp) s = (Inr (ur_user r, ur_password_hash r), stepped s)" using GetUserByEmail_ok [OF nf, of "li_Email inp" s] Some by simp
  consider "us_Disabled (ur_user r)" | "\<not> us_Disabled (ur_user r)" "\<not> bcryptCompare cr (ur_password_hash r) (li_Password inp)"
    | "\<not> us_Disabled (ur_user r)" "bcryptCompare cr (ur_password_hash r) (li_Password inp)" by blast
  then show ?thesis
  proof cases
    case 1
    then have "Login env cr pol inp s = login_refused env inp ''user_disabled'' (stepped s)" using get by (simp add: Login_def bindE_def tryE_def)
    then show ?thesis using login_refused_ok [OF nf email, of "''user_disabled''" "stepped s"] refused_cong [of "stepped s" s] Some 1 by (auto simp: login_user_def)
  next
    case 2
    then have "Login env cr pol inp s = login_refused env inp ''password_mismatch'' (stepped s)" using get by (simp add: Login_def bindE_def tryE_def VerifyPassword_def)
    then show ?thesis using login_refused_ok [OF nf email, of "''password_mismatch''" "stepped s"] refused_cong [of "stepped s" s] Some 2 by (auto simp: login_user_def)
  next
    case 3
    let ?now = "clockAt env (w_clock s)" and ?i = "idAt env (w_ids s)"
    let ?x = "new_session pol inp (ur_user r) ?i ?now" and ?s = "(stepped s)\<lparr>w_clock := Suc (w_clock s), w_ids := Suc (w_ids s)\<rparr>"
    have "session_insertable (inetText cr) ?x ?s" using ids inet r by (auto simp: session_insertable_def new_session_def)
    from login_tx_ok [OF nf this, of "ur_user r" inp ?now] named r ids obtain s' where
      tx: "login_tx env cr inp (ur_user r) ?x ?now ?s = (Inr (), s')" and rest: "t_sessions s' = t_sessions ?s @ [stored_session (inetText cr) ?x]"
      "t_users s' = update_where (\<lambda>u. us_ID (ur_user u) = us_ID (ur_user r)) (last_login ?now) (t_users ?s)"
      "\<exists>ev. audit_events s' = audit_events ?s @ [ev] \<and> same_event ev (login_event inp (ur_user r) ?x)" by (auto simp: new_session_def)
    have "Login env cr pol inp s = (Inr \<lparr>lo_User = ur_user r, lo_Session = ?x\<rparr>, s')"
      using get 3 tx by (simp add: Login_def bindE_def tryE_def VerifyPassword_def Now_def NewID_def Let_def retE_def stepped_def)
    then show ?thesis using rest Some 3 by (simp add: login_user_def Let_def)
  qed
qed

section \<open>Authentication\<close>

lemma session_only:
  assumes "auth_ok pol s" and "x \<in> set (t_sessions s)"
  shows "find (\<lambda>y. se_ID y = se_ID x) (t_sessions s) = Some x"
proof -
  have inj: "inj_on se_ID (set (t_sessions s))" using assms(1) by (simp add: auth_ok_def sessions_ok_def distinct_map)
  show ?thesis
  proof (cases "find (\<lambda>y. se_ID y = se_ID x) (t_sessions s)")
    case None
    then show ?thesis using assms(2) by (auto simp: find_None_iff)
  next
    case (Some y)
    then show ?thesis using find_Some_D [OF Some] inj assms(2) by (auto simp: inj_on_def)
  qed
qed

lemma Now_run: "Now env s = (Inr (clockAt env (w_clock s)), s\<lparr>w_clock := Suc (w_clock s)\<rparr>)"
  by (simp add: Now_def)

text \<open>The state after a slide: the one session, with its new expiry.\<close>

definition slid :: "Session \<Rightarrow> Time \<Rightarrow> 'z auth_db_scheme \<Rightarrow> 'z auth_db_scheme \<Rightarrow> bool" where
  "slid x e s s' \<longleftrightarrow> t_users s' = t_users s \<and> audit_events s' = audit_events s \<and>
     t_sessions s' = update_where (\<lambda>y. se_ID y = se_ID x) (\<lambda>y. y\<lparr>se_ExpiresAt := e\<rparr>) (t_sessions s)"

lemma ExtendExpiry_ok:
  assumes nf: "no_faults env" and ok: "auth_ok pol s" and x: "x \<in> set (t_sessions s)" "se_RevokedAt x = None"
  shows "\<exists>s'. ExtendExpiry env (se_ID x) e s = (Inr (), s') \<and> slid x e s s' \<and> w_calls s' = Suc (w_calls s)"
proof -
  have "inj_on se_ID (set (t_sessions s))" using ok by (simp add: auth_ok_def sessions_ok_def distinct_map)
  then have "se_RevokedAt y = None" if "y \<in> set (t_sessions s)" "se_ID y = se_ID x" for y using x that by (auto simp: inj_on_def)
  then have "update_where (\<lambda>y. se_ID y = se_ID x \<and> se_RevokedAt y = None) f (t_sessions s) = update_where (\<lambda>y. se_ID y = se_ID x) f (t_sessions s)" for f
    by (auto simp: update_where_def)
  then show ?thesis
    using nf x unfolding ExtendExpiry_def by (subst exec_hit_ok) (auto simp: slid_def stepped_def)
qed

lemma slid_none: "auth_ok pol s \<Longrightarrow> x \<in> set (t_sessions s) \<Longrightarrow> e = se_ExpiresAt x \<Longrightarrow> slid x e s s"
proof -
  assume a: "auth_ok pol s" "x \<in> set (t_sessions s)" "e = se_ExpiresAt x"
  then have "inj_on se_ID (set (t_sessions s))" by (simp add: auth_ok_def sessions_ok_def distinct_map)
  then have "y\<lparr>se_ExpiresAt := e\<rparr> = y" if "y \<in> set (t_sessions s)" "se_ID y = se_ID x" for y using a that by (auto simp: inj_on_def)
  then show ?thesis by (simp add: slid_def update_where_def map_idI)
qed

lemma authenticate_read_live:
  assumes nf: "no_faults env" and ok: "auth_ok pol s" and x: "x \<in> set (t_sessions s)" "se_RevokedAt x = None" and now: "clockAt env (w_clock s) < se_ExpiresAt x"
  defines "e \<equiv> NextExpiry pol (clockAt env (w_clock s)) (se_CreatedAt x)"
  shows "\<exists>r s'. find (\<lambda>r. us_ID (ur_user r) = se_UserID x) (t_users s) = Some r \<and>
    authenticate_read env pol x s = (if us_Disabled (ur_user r) then Inl ErrUserDisabled else Inr (ur_user r, x\<lparr>se_ExpiresAt := e\<rparr>), s') \<and> slid x e s s'"
proof -
  let ?s = "s\<lparr>w_clock := Suc (w_clock s)\<rparr>"
  let ?slide = "if e \<noteq> se_ExpiresAt x then bindE (ExtendExpiry env (se_ID x) e) (\<lambda>_. retE (x\<lparr>se_ExpiresAt := e\<rparr>)) else retE x"
  have ok': "auth_ok pol ?s" and x': "x \<in> set (t_sessions ?s)" using ok x auth_ok_cong [of ?s s] by simp_all
  have "\<exists>s1. ?slide ?s = (Inr (x\<lparr>se_ExpiresAt := e\<rparr>), s1) \<and> slid x e ?s s1"
  proof (cases "e = se_ExpiresAt x")
    case True
    then show ?thesis using slid_none [OF ok' x' True] by (simp add: retE_def)
  next
    case False
    with ExtendExpiry_ok [OF nf ok' x' x(2), of e] show ?thesis by (auto simp: bindE_def retE_def)
  qed
  then obtain s1 where sl: "?slide ?s = (Inr (x\<lparr>se_ExpiresAt := e\<rparr>), s1)" and slid: "slid x e ?s s1" by blast
  have "se_UserID x \<in> (\<lambda>r. us_ID (ur_user r)) ` set (t_users s)" using ok x by (simp add: auth_ok_def sessions_ok_def)
  then obtain r where r: "find (\<lambda>r. us_ID (ur_user r) = se_UserID x) (t_users s) = Some r" by (cases "find (\<lambda>r. us_ID (ur_user r) = se_UserID x) (t_users s)") (auto simp: find_None_iff)
  have "GetUserByID env (se_UserID x) s1 = (Inr (ur_user r), stepped s1)"
    using nf r slid by (simp add: GetUserByID_def bindE_def db_query_ok retE_def slid_def)
  then have "authenticate_read env pol x s = (if us_Disabled (ur_user r) then Inl ErrUserDisabled else Inr (ur_user r, x\<lparr>se_ExpiresAt := e\<rparr>), stepped s1)"
  proof -
    assume get: "GetUserByID env (se_UserID x) s1 = (Inr (ur_user r), stepped s1)"
    let ?rest = "\<lambda>x'. bindE (GetUserByID env (se_UserID x')) (\<lambda>user. if us_Disabled user then throwE ErrUserDisabled else retE (user, x'))"
    have "authenticate_read env pol x s = bindE ?slide ?rest ?s"
      using now x(2) by (simp add: authenticate_read_def bindE_step_Inr [where m = "Now env", OF Now_run] IsActive_def Let_def e_def)
    also have "\<dots> = ?rest (x\<lparr>se_ExpiresAt := e\<rparr>) s1" by (rule bindE_step_Inr [where m = ?slide, OF sl])
    finally show ?thesis using get by (simp add: bindE_def throwE_def retE_def)
  qed
  then show ?thesis using r slid by (auto simp: slid_def)
qed

text \<open>
  On a working database a session identifier authenticates exactly while its session is neither revoked nor expired and its account
  is enabled. The session slides to the idle limit from now, never past the absolute limit from its login, and nothing else changes;
  each refusal has its own error, and an account disabled since is refused after the slide.
\<close>

lemma Authenticate_decides:
  assumes nf: "no_faults env" and ok: "auth_ok pol s"
  shows "case find (\<lambda>x. se_ID x = i) (t_sessions s) of
    None \<Rightarrow> \<exists>s'. Authenticate env pol i s = (Inl ErrSessionNotFound, s') \<and> db_of s' = db_of s
  | Some x \<Rightarrow> \<exists>s'. let now = clockAt env (w_clock s); e = min (now + sp_Idle pol) (se_CreatedAt x + sp_Absolute pol) in
      if se_RevokedAt x \<noteq> None then Authenticate env pol i s = (Inl ErrSessionRevoked, s') \<and> db_of s' = db_of s
      else if se_ExpiresAt x \<le> now then Authenticate env pol i s = (Inl ErrSessionExpired, s') \<and> db_of s' = db_of s
      else \<exists>r. find (\<lambda>r. us_ID (ur_user r) = se_UserID x) (t_users s) = Some r \<and> slid x e s s' \<and>
        Authenticate env pol i s = (if us_Disabled (ur_user r) then Inl ErrUserDisabled else Inr (ur_user r, x\<lparr>se_ExpiresAt := e\<rparr>), s')"
proof (cases "find (\<lambda>x. se_ID x = i) (t_sessions s)")
  case None
  then show ?thesis using nf by (simp add: Authenticate_def session_Get_def bindE_def db_query_ok throwE_def)
next
  case (Some x)
  have x: "x \<in> set (t_sessions s)" "se_ID x = i" using find_Some_D [OF Some] by auto
  let ?now = "clockAt env (w_clock s)" and ?e = "NextExpiry pol (clockAt env (w_clock s)) (se_CreatedAt x)"
  have e: "?e = min (?now + sp_Idle pol) (se_CreatedAt x + sp_Absolute pol)" by (auto simp: NextExpiry_def Let_def min_def)
  consider (revoked) "se_RevokedAt x \<noteq> None" | (expired) "se_RevokedAt x = None" "se_ExpiresAt x \<le> ?now" | (live) "se_RevokedAt x = None" "?now < se_ExpiresAt x" by fastforce
  then show ?thesis
  proof cases
    case revoked
    then show ?thesis using nf Some by (simp add: Authenticate_def session_Get_def bindE_def db_query_ok throwE_def Let_def)
  next
    case expired
    have "Authenticate env pol i s = (Inl ErrSessionExpired, (stepped s)\<lparr>w_clock := Suc (w_clock s)\<rparr>)"
      using nf Some expired by (simp add: Authenticate_def session_Get_def authenticate_read_def bindE_def db_query_ok throwE_def retE_def Now_def IsActive_def stepped_def)
    then show ?thesis using Some expired by (simp add: Let_def)
  next
    case live
    have "auth_ok pol (stepped s)" "x \<in> set (t_sessions (stepped s))" "clockAt env (w_clock (stepped s)) < se_ExpiresAt x" using ok x live by simp_all (simp add: stepped_def)
    from authenticate_read_live [OF nf this(1,2) live(1) this(3)] obtain r s' where r: "find (\<lambda>r. us_ID (ur_user r) = se_UserID x) (t_users s) = Some r"
      and run: "authenticate_read env pol x (stepped s) = (if us_Disabled (ur_user r) then Inl ErrUserDisabled else Inr (ur_user r, x\<lparr>se_ExpiresAt := ?e\<rparr>), s')"
      and slid: "slid x ?e s s'" by (auto simp: stepped_def slid_def)
    have auth: "Authenticate env pol i s = authenticate_read env pol x (stepped s)"
      using nf Some live by (simp add: Authenticate_def session_Get_def bindE_def db_query_ok retE_def)
    have n: "\<not> se_RevokedAt x \<noteq> None" "\<not> se_ExpiresAt x \<le> ?now" using live by simp_all
    show ?thesis unfolding Some option.case Let_def if_not_P [OF n(1)] if_not_P [OF n(2)]
      using r slid run unfolding e auth by blast
  qed
qed

section \<open>Lifetimes\<close>

lemma authenticate_read_Inr:
  assumes "authenticate_read env pol x s = (Inr (u, x'), s')"
  shows "IsActive x (clockAt env (w_clock s)) \<and> x' = x\<lparr>se_ExpiresAt := NextExpiry pol (clockAt env (w_clock s)) (se_CreatedAt x)\<rparr> \<and>
    us_ID u = se_UserID x \<and> \<not> us_Disabled u"
proof -
  let ?e = "NextExpiry pol (clockAt env (w_clock s)) (se_CreatedAt x)"
  have a: "IsActive x (clockAt env (w_clock s))" using assms by (auto simp: authenticate_read_def run_simps split: if_splits)
  then obtain y s1 s2 where "(if ?e \<noteq> se_ExpiresAt x then bindE (ExtendExpiry env (se_ID x) ?e) (\<lambda>_. retE (x\<lparr>se_ExpiresAt := ?e\<rparr>)) else retE x)
      (s\<lparr>w_clock := Suc (w_clock s)\<rparr>) = (Inr y, s1)" and g: "GetUserByID env (se_UserID y) s1 = (Inr u, s2)" "\<not> us_Disabled u" "x' = y"
    using assms by (auto simp: authenticate_read_def bindE_Inr Now_Inr Let_def throwE_Inr retE_Inr split: if_splits)
  then have y: "y = x\<lparr>se_ExpiresAt := ?e\<rparr>" by (cases "?e = se_ExpiresAt x") (auto simp: bindE_Inr retE_Inr)
  have "us_ID u = se_UserID y" using g(1) by (auto simp: GetUserByID_def run_simps dest!: find_Some_D split: option.splits)
  with a y g show ?thesis by simp
qed

text \<open>
  C13: However logins, authentications, logouts and account creations interleave, an authentication that began on a session read before
  included, no session authenticates once the absolute lifetime since its login is over, none but its enabled account comes out, and
  the expiry it leaves is within both limits; the keys of both tables stay unique and every session's account exists.
\<close>

theorem sessions_bounded:
  assumes "(auth_step env cr pol)\<^sup>*\<^sup>* ([], s0) (xs, s)" and "auth_ok pol s0"
  shows "auth_ok pol s \<and> (\<forall>x u x' s'. x \<in> set xs \<and> authenticate_read env pol x s = (Inr (u, x'), s') \<longrightarrow>
    clockAt env (w_clock s) < se_CreatedAt x + sp_Absolute pol \<and> session_key x \<in> session_key ` set (t_sessions s) \<and> us_ID u = se_UserID x \<and> \<not> us_Disabled u \<and>
    se_ExpiresAt x' \<le> clockAt env (w_clock s) + sp_Idle pol \<and> se_ExpiresAt x' \<le> se_CreatedAt x + sp_Absolute pol)"
proof (intro conjI allI impI; (elim conjE)?)
  have inv: "history_ok pol (xs, s)" using auth_history_ok [OF assms(1)] assms(2) by (simp add: history_ok_def)
  then show "auth_ok pol s" by (simp add: history_ok_def)
  fix x u x' s' assume x: "x \<in> set xs" and run: "authenticate_read env pol x s = (Inr (u, x'), s')"
  note r = authenticate_read_Inr [OF run]
  have "se_ExpiresAt x \<le> se_CreatedAt x + sp_Absolute pol" and key: "session_key x \<in> session_key ` set (t_sessions s)" using inv x by (auto simp: history_ok_def)
  then show "clockAt env (w_clock s) < se_CreatedAt x + sp_Absolute pol" "session_key x \<in> session_key ` set (t_sessions s)"
    using r by (auto simp: IsActive_def split: if_splits)
  show "us_ID u = se_UserID x" "\<not> us_Disabled u" "se_ExpiresAt x' \<le> clockAt env (w_clock s) + sp_Idle pol" "se_ExpiresAt x' \<le> se_CreatedAt x + sp_Absolute pol"
    using r NextExpiry_le [of pol] by simp_all
qed

section \<open>Logout\<close>

lemma Logout_row:
  assumes "Logout env user x req s = (Inr (), s1)" and "y \<in> set (t_sessions s)" and "se_ID y = se_ID x"
  shows "\<exists>at. revoke_once at y \<in> set (t_sessions s1) \<and> (\<exists>r. audit_events s1 = audit_events s @ [r] \<and> same_event r (logout_event user x req))"
proof -
  let ?now = "clockAt env (w_clock s)"
  have "WithTx env (bindE (session_Revoke env (se_ID x) ?now) (\<lambda>_. Record env (logout_event user x req))) (s\<lparr>w_clock := Suc (w_clock s)\<rparr>) = (Inr (), s1)"
    using assms(1) by (auto simp: Logout_def bindE_Inr Now_Inr)
  from WithTx_Inr [OF this] obtain a b where a: "t_sessions a = t_sessions s" "audit_events a = audit_events s" and s1: "s1 = stepped b"
    and run: "bindE (session_Revoke env (se_ID x) ?now) (\<lambda>_. Record env (logout_event user x req)) a = (Inr (), b)"
    by (elim exE conjE) (rule that, auto)
  from run obtain c where c: "c = (stepped a)\<lparr>t_sessions := update_where (\<lambda>z. se_ID z = se_ID x) (revoke_once ?now) (t_sessions a)\<rparr>"
    and rec: "Record env (logout_event user x req) c = (Inr (), b)" by (auto simp: session_Revoke_def run_simps)
  from Record_Inr [OF rec] obtain r where r: "audit_events b = audit_events c @ [r]" "same_event r (logout_event user x req)" "tables_of b = tables_of c" by blast
  have "revoke_once ?now y \<in> set (t_sessions b)" using assms(2,3) a auth_views [OF r(3)] by (auto simp: c update_where_def)
  then show ?thesis using r a s1 by (auto simp: c)
qed

text \<open>
  C10: Once a session is logged out, every authentication that begins later, whatever happens in between, is refused as revoked without a write. An
  authentication already under way, which had read the session before, comes through only if the session needs no slide any more, that is when its expiry already
  is the one the policy would give (as it is at the absolute limit); it then returns the session as it was read and writes nothing. In every other case
  it fails.
\<close>

theorem logout_is_final:
  assumes "Logout env user x req s = (Inr (), s1)" and "y \<in> set (t_sessions s)" and "se_ID y = se_ID x"
    and "(auth_step env cr pol)\<^sup>*\<^sup>* (xs, s1) (ys, s2)" and "history_ok pol (xs, s)" and "no_faults env"
  shows "(\<exists>s3. Authenticate env pol (se_ID x) s2 = (Inl ErrSessionRevoked, s3) \<and> db_of s3 = db_of s2) \<and>
    (\<forall>z u z' s3. z \<in> set ys \<and> se_ID z = se_ID x \<and> authenticate_read env pol z s2 = (Inr (u, z'), s3) \<longrightarrow>
      NextExpiry pol (clockAt env (w_clock s2)) (se_CreatedAt z) = se_ExpiresAt z \<and> z' = z \<and> db_of s3 = db_of s2) \<and>
    (\<forall>z. z \<in> set ys \<and> se_ID z = se_ID x \<and> NextExpiry pol (clockAt env (w_clock s2)) (se_CreatedAt z) \<noteq> se_ExpiresAt z \<longrightarrow>
      isl (fst (authenticate_read env pol z s2)))"
proof -
  from Logout_row [OF assms(1-3)] obtain at where "revoke_once at y \<in> set (t_sessions s1)" by blast
  moreover have rev: "se_RevokedAt (revoke_once at y) \<noteq> None" "se_ID (revoke_once at y) = se_ID x"
    using assms(3) by (simp_all add: revoke_once_def split: option.splits)
  ultimately have in2: "revoke_once at y \<in> set (t_sessions s2)" using auth_history_later [OF assms(4)] by (simp add: auth_later_def)
  have "history_ok pol (xs, s1)" by (rule auth_step_ok [OF auth_step.logout [OF assms(1)] assms(5)])
  then have ok: "auth_ok pol s2" using auth_history_ok [OF assms(4)] by (simp add: history_ok_def)
  from session_only [OF ok in2] rev have f: "find (\<lambda>z. se_ID z = se_ID x) (t_sessions s2) = Some (revoke_once at y)" by simp
  from Authenticate_decides [OF assms(6) ok, of "se_ID x"] rev(1)
  have 1: "\<exists>s3. Authenticate env pol (se_ID x) s2 = (Inl ErrSessionRevoked, s3) \<and> db_of s3 = db_of s2" unfolding f option.case Let_def by simp
  have "inj_on se_ID (set (t_sessions s2))" using ok by (simp add: auth_ok_def sessions_ok_def distinct_map)
  then have none: "\<not> (\<exists>z \<in> set (t_sessions s2). se_ID z = se_ID x \<and> se_RevokedAt z = None)" using in2 rev by (auto simp: inj_on_def)
  have slide: "NextExpiry pol (clockAt env (w_clock s2)) (se_CreatedAt z) = se_ExpiresAt z"
    if "se_ID z = se_ID x" "authenticate_read env pol z s2 = (Inr (u, z'), s3)" for z u z' s3
    using that none by (auto simp: authenticate_read_def ExtendExpiry_def run_simps Let_def split: if_splits)
  have 2: "NextExpiry pol (clockAt env (w_clock s2)) (se_CreatedAt z) = se_ExpiresAt z \<and> z' = z \<and> db_of s3 = db_of s2"
    if "se_ID z = se_ID x" "authenticate_read env pol z s2 = (Inr (u, z'), s3)" for z u z' s3
  proof -
    note e = slide [OF that]
    have "GetUserByID env (se_UserID z) (s2\<lparr>w_clock := Suc (w_clock s2)\<rparr>) = (Inr u, s3)" "z' = z"
      using that(2) e by (auto simp: authenticate_read_def run_simps Let_def split: if_splits)
    then show ?thesis using e leavesD [OF leaves_GetUserByID] by (metis db_of_counters(3))
  qed
  have 3: "isl (fst (authenticate_read env pol z s2))"
    if "se_ID z = se_ID x" "NextExpiry pol (clockAt env (w_clock s2)) (se_CreatedAt z) \<noteq> se_ExpiresAt z" for z
    using slide [OF that(1)] that(2) by (metis isl_def prod.collapse sum.exhaust)
  show ?thesis using 1 2 3 by blast
qed

section \<open>Cookies\<close>

text \<open>
  C16: A signed cookie verifies to the session it was made for, and nothing else verifies: a value that does is, up to the line ends the
  decoder skips, the cookie the signer makes for the identifier that comes out, so that there is no second text for a session.
\<close>

theorem cookie_verifies_only_signed:
  assumes "\<forall>k p. length (hmacSha256 cr k p) = 32"
  shows "(i \<noteq> [] \<longrightarrow> Verify cr sc (Sign cr sc i) = Inr i) \<and>
    (\<forall>v. Verify cr sc v = Inr i \<longrightarrow> filter (\<lambda>c. c \<notin> {CHR 0x0A, CHR 0x0D}) v = Sign cr sc i)"
proof -
  have "length (cookie_mac cr sc i) = 32" using assms unfolding cookie_mac_def by blast
  then have "cookie_mac cr sc i \<noteq> []" by force
  then show ?thesis using Verify_Sign [of i cr sc] Verify_only_Sign [of cr sc _ i] by auto
qed

section \<open>Witnesses\<close>

text \<open>An organization, an administrator, and a login.\<close>

definition demo_auth_env :: env where
  "demo_auth_env = \<lparr>fault = (\<lambda>_. False), clockAt = (\<lambda>n. 100 + int n), idAt = (\<lambda>n. CHR ''i'' # replicate n (CHR ''x'')), dbNow = (\<lambda>_. 0),
     regexpCompile = (\<lambda>_. Inl [])\<rparr>"

definition demo_crypto :: crypto where
  "demo_crypto = \<lparr>bcryptGenerate = (\<lambda>p c s. Some (s @ p)), bcryptCompare = (\<lambda>h p. h = ''salt'' @ p), hmacSha256 = (\<lambda>k p. take 32 (p @ k @ replicate 32 (CHR ''0''))),
     inetText = Some\<rparr>"

definition demo_lifetimes :: SessionPolicy where
  "demo_lifetimes = \<lparr>sp_Idle = 50, sp_Absolute = 80\<rparr>"

definition demo_auth_db :: auth_db where
  "demo_auth_db = \<lparr>w_calls = 0, w_ids = 0, w_clock = 0, w_tx = 0, w_locks = [], audit_events = [], t_organizations = [(''o'', ''Org'')], t_users = [], t_sessions = []\<rparr>"

definition demo_admin :: auth_db where
  "demo_admin = snd (CreateUser demo_auth_env demo_crypto \<lparr>pp_BcryptCost = 12\<rparr> ''salt'' ''o'' ''a@o'' ''Ann'' ''secret'' RoleAdmin demo_auth_db)"

definition demo_credentials :: "string \<Rightarrow> LoginInput" where
  "demo_credentials pw = \<lparr>li_Email = ''a@o'', li_Password = pw, li_UserAgent = [], li_RemoteIP = [], li_RequestID = []\<rparr>"

definition demo_logged_in :: "(err + LoginOutput) \<times> auth_db" where
  "demo_logged_in = Login demo_auth_env demo_crypto demo_lifetimes (demo_credentials ''secret'') demo_admin"

abbreviation demo_session :: Session where "demo_session \<equiv> lo_Session (projr (fst demo_logged_in))"
abbreviation demo_user :: User where "demo_user \<equiv> lo_User (projr (fst demo_logged_in))"

definition demo_logged_out :: "(err + unit) \<times> auth_db" where
  "demo_logged_out = Logout demo_auth_env demo_user demo_session [] (snd demo_logged_in)"

lemma demo_auth_ok: "auth_ok demo_lifetimes demo_admin" "no_faults demo_auth_env" "auth_ok demo_lifetimes (snd demo_logged_in)"
proof -
  show "auth_ok demo_lifetimes demo_admin" "auth_ok demo_lifetimes (snd demo_logged_in)" by code_simp+
  show "no_faults demo_auth_env" by (simp add: no_faults_def demo_auth_env_def)
qed

theorem sessions_bounded_witness:
  "clockAt demo_auth_env (w_clock (snd demo_logged_in)) < se_CreatedAt demo_session + sp_Absolute demo_lifetimes"
proof -
  let ?R = "auth_step demo_auth_env demo_crypto demo_lifetimes" and ?s = "snd demo_logged_in"
  have "\<not> isl (fst (session_Get demo_auth_env (se_ID demo_session) ?s))" "projr (fst (session_Get demo_auth_env (se_ID demo_session) ?s)) = demo_session"
    "w_clock (snd (session_Get demo_auth_env (se_ID demo_session) ?s)) = w_clock ?s" by code_simp+
  then obtain s1 where g: "session_Get demo_auth_env (se_ID demo_session) ?s = (Inr demo_session, s1)" and w: "w_clock s1 = w_clock ?s"
    using returned by (metis snd_conv)
  have s1: "s1 = snd (session_Get demo_auth_env (se_ID demo_session) ?s)" using g by simp
  have "?R ([], demo_admin) ([], ?s)" using auth_step.login [of demo_auth_env demo_crypto demo_lifetimes "demo_credentials ''secret''" demo_admin "fst demo_logged_in" ?s "[]"]
    by (simp add: demo_logged_in_def)
  moreover have "?R ([], ?s) ([demo_session], s1)" using auth_step.read [OF g, of demo_crypto demo_lifetimes "[]"] by simp
  ultimately have h: "?R\<^sup>*\<^sup>* ([], demo_admin) ([demo_session], s1)" by (meson converse_rtranclp_into_rtranclp rtranclp.rtrancl_refl)
  have "\<not> isl (fst (authenticate_read demo_auth_env demo_lifetimes demo_session (snd (session_Get demo_auth_env (se_ID demo_session) ?s))))" by code_simp
  from returned [OF this] obtain u x' s' where "authenticate_read demo_auth_env demo_lifetimes demo_session s1 = (Inr (u, x'), s')" unfolding s1 by (metis prod.collapse)
  with sessions_bounded [OF h demo_auth_ok(1)] show ?thesis unfolding w by auto
qed

theorem logout_is_final_witness:
  "\<exists>s3. Authenticate demo_auth_env demo_lifetimes (se_ID demo_session) (snd demo_logged_out) = (Inl ErrSessionRevoked, s3)"
proof -
  have "\<not> isl (fst demo_logged_out)" by code_simp
  from returned [OF this] have l: "Logout demo_auth_env demo_user demo_session [] (snd demo_logged_in) = (Inr (), snd demo_logged_out)" by (simp add: demo_logged_out_def)
  have y: "demo_session \<in> set (t_sessions (snd demo_logged_in))" by code_simp
  have "history_ok demo_lifetimes ([], snd demo_logged_in)" using demo_auth_ok(3) by (simp add: history_ok_def)
  from logout_is_final [OF l y refl rtranclp.rtrancl_refl [where r = "auth_step demo_auth_env demo_crypto demo_lifetimes"] this demo_auth_ok(2)] show ?thesis by blast
qed

theorem cookie_verifies_only_signed_witness:
  "Verify demo_crypto \<lparr>sc_key = replicate 32 (CHR ''k'')\<rparr> (Sign demo_crypto \<lparr>sc_key = replicate 32 (CHR ''k'')\<rparr> ''ix'') = Inr ''ix''"
proof -
  have "\<forall>k p. length (hmacSha256 demo_crypto k p) = 32" by (auto simp: demo_crypto_def min_def)
  from cookie_verifies_only_signed [OF this, of "''ix''"] show ?thesis by simp
qed

end
