(* ===== verification/EnrollStore.thy ===== *)
theory EnrollStore imports AuthStore begin

text \<open>
  Deployment packages and agents: the types of \<open>enrollment/deployment_package.go\<close> and
  \<open>enrollment/agent.go\<close>, the two tables of migrations 0001 to 0003, and their repositories
  (\<open>storage/postgres/deployment_package_repository.go\<close>, \<open>agent_repository.go\<close>).

  A row is the domain value with the hash column that the domain type leaves out. A violated unique
  constraint or check is the error the repository makes of it; a violated foreign key is one of the
  failures of the environment. Byte strings are strings.
\<close>

section \<open>Types and tables\<close>

datatype PackageType =
    PackageTypeBaseline
  | PackageTypeBulkSCCM
  | PackageTypeTechnician
  | PackageTypeVIP
  | PackageTypeLab
  | PackageTypeOther string

fun package_type_string :: "PackageType \<Rightarrow> string" where
  "package_type_string PackageTypeBaseline = ''baseline''"
| "package_type_string PackageTypeBulkSCCM = ''bulk_sccm''"
| "package_type_string PackageTypeTechnician = ''technician''"
| "package_type_string PackageTypeVIP = ''vip''"
| "package_type_string PackageTypeLab = ''lab''"
| "package_type_string (PackageTypeOther s) = s"

fun PackageType_Valid :: "PackageType \<Rightarrow> bool" where
  "PackageType_Valid (PackageTypeOther s) = False"
| "PackageType_Valid _ = True"

record DeploymentPackage =
  dp_ID :: string
  dp_OrganizationID :: string
  dp_Name :: string
  dp_Description :: string
  dp_PackageType :: PackageType
  dp_AgentVersion :: string
  dp_MaxUses :: int
  dp_UsesCount :: int
  dp_ExpiresAt :: Time
  dp_RevokedAt :: "Time option"
  dp_RevokedByUserID :: string
  dp_RevokedReason :: string
  dp_CreatedByUserID :: string
  dp_CreatedAt :: Time
  dp_LastUsedAt :: "Time option"
  dp_DefaultGroupName :: string
  dp_DefaultLabels :: "string list"

definition activeAt :: "DeploymentPackage \<Rightarrow> Time \<Rightarrow> err + unit" where
  "activeAt p now =
     (if dp_RevokedAt p \<noteq> None then Inl ErrPackageRevoked
      else if \<not> now < dp_ExpiresAt p then Inl ErrPackageExpired
      else if dp_UsesCount p \<ge> dp_MaxUses p then Inl ErrPackageExhausted
      else Inr ())"

datatype AgentStatus = AgentStatusActive | AgentStatusDisabled | AgentStatusRevoked | AgentStatusOther string

fun agent_status_string :: "AgentStatus \<Rightarrow> string" where
  "agent_status_string AgentStatusActive = ''active''"
| "agent_status_string AgentStatusDisabled = ''disabled''"
| "agent_status_string AgentStatusRevoked = ''revoked''"
| "agent_status_string (AgentStatusOther s) = s"

record Agent =
  ag_ID :: string
  ag_OrganizationID :: string
  ag_Hostname :: string
  ag_DisplayName :: string
  ag_Status :: AgentStatus
  ag_EnrolledAt :: Time
  ag_LastSeenAt :: Time
  ag_DeploymentPackageID :: string
  ag_AgentVersion :: string
  ag_MachineFingerprintHash :: string
  ag_InstallID :: string
  ag_GroupName :: string
  ag_Labels :: "string list"
  ag_UpdatedAt :: Time

record PackageRow =
  pr_package :: DeploymentPackage
  pr_bootstrap_secret_hash :: string

record AgentRow =
  ar_agent :: Agent
  ar_credential_hash :: string

record enroll_db = auth_db +
  t_packages :: "PackageRow list"
  t_agents :: "AgentRow list"

section \<open>Packages\<close>

text \<open>
  The insert meets the primary key, the unique hash, the check on the type, the range and the
  check of the \<open>INTEGER\<close> column \<open>max_uses\<close>, and the foreign keys to the organization and the creator.
\<close>

definition pkg_Create :: "env \<Rightarrow> DeploymentPackage \<Rightarrow> string \<Rightarrow> ('z enroll_db_scheme, unit) prog" where
  "pkg_Create env pkg hash =
     exec_hit env EDb
       (\<lambda>s. (\<forall>r \<in> set (t_packages s). dp_ID (pr_package r) \<noteq> dp_ID pkg \<and> pr_bootstrap_secret_hash r \<noteq> hash) \<and>
          PackageType_Valid (dp_PackageType pkg) \<and> 0 < dp_MaxUses pkg \<and> dp_MaxUses pkg < 2 ^ 31 \<and>
          0 \<le> dp_UsesCount pkg \<and> dp_UsesCount pkg \<le> dp_MaxUses pkg \<and>
          dp_OrganizationID pkg \<in> fst ` set (t_organizations s) \<and> dp_CreatedByUserID pkg \<in> (\<lambda>r. us_ID (ur_user r)) ` set (t_users s))
       (\<lambda>s. s\<lparr>t_packages := t_packages s @ [\<lparr>pr_package = pkg, pr_bootstrap_secret_hash = hash\<rparr>]\<rparr>)"

definition first_package :: "env \<Rightarrow> (PackageRow \<Rightarrow> bool) \<Rightarrow> ('z enroll_db_scheme, DeploymentPackage) prog" where
  "first_package env P =
     bindE (db_query env (\<lambda>s. map_option pr_package (find P (t_packages s)))) (\<lambda>r.
     case r of None \<Rightarrow> throwE ErrPackageNotFound | Some p \<Rightarrow> retE p)"

definition GetByBootstrapHash :: "env \<Rightarrow> string \<Rightarrow> ('z enroll_db_scheme, DeploymentPackage) prog" where
  "GetByBootstrapHash env hash = first_package env (\<lambda>r. pr_bootstrap_secret_hash r = hash)"

definition is_package :: "string \<Rightarrow> string \<Rightarrow> PackageRow \<Rightarrow> bool" where
  "is_package i org r \<longleftrightarrow> dp_ID (pr_package r) = i \<and> dp_OrganizationID (pr_package r) = org"

definition GetByIDAndOrg :: "env \<Rightarrow> string \<Rightarrow> string \<Rightarrow> ('z enroll_db_scheme, DeploymentPackage) prog" where
  "GetByIDAndOrg env i org = first_package env (is_package i org)"

definition set_package :: "(DeploymentPackage \<Rightarrow> DeploymentPackage) \<Rightarrow> PackageRow \<Rightarrow> PackageRow" where
  "set_package f r = r\<lparr>pr_package := f (pr_package r)\<rparr>"

definition revoked_columns :: "string \<Rightarrow> string \<Rightarrow> Time \<Rightarrow> DeploymentPackage \<Rightarrow> DeploymentPackage" where
  "revoked_columns revokedByUserID reason at p =
     p\<lparr>dp_RevokedAt := Some at, dp_RevokedByUserID := revokedByUserID, dp_RevokedReason := reason\<rparr>"

definition pkg_Revoke :: "env \<Rightarrow> string \<Rightarrow> string \<Rightarrow> string \<Rightarrow> string \<Rightarrow> Time \<Rightarrow> ('z enroll_db_scheme, unit) prog" where
  "pkg_Revoke env i org revokedByUserID reason at =
     exec_hit env ErrPackageAlreadyRevoked
       (\<lambda>s. \<exists>r \<in> set (t_packages s). is_package i org r \<and> dp_RevokedAt (pr_package r) = None)
       (\<lambda>s. s\<lparr>t_packages := update_where (\<lambda>r. is_package i org r \<and> dp_RevokedAt (pr_package r) = None)
          (set_package (revoked_columns revokedByUserID reason at)) (t_packages s)\<rparr>)"

text \<open>
  The choke point: one conditional \<open>UPDATE\<close>, whose \<open>WHERE\<close> clause is the whole lifecycle check, and a
  second read that names the bound that failed.
\<close>

definition usable :: "string \<Rightarrow> Time \<Rightarrow> PackageRow \<Rightarrow> bool" where
  "usable i at r \<longleftrightarrow> dp_ID (pr_package r) = i \<and> dp_RevokedAt (pr_package r) = None \<and> dp_ExpiresAt (pr_package r) > at \<and>
     dp_UsesCount (pr_package r) < dp_MaxUses (pr_package r)"

definition used_once :: "Time \<Rightarrow> DeploymentPackage \<Rightarrow> DeploymentPackage" where
  "used_once at p = p\<lparr>dp_UsesCount := dp_UsesCount p + 1, dp_LastUsedAt := Some at\<rparr>"

definition classifyIncrementFailure :: "env \<Rightarrow> string \<Rightarrow> Time \<Rightarrow> ('z enroll_db_scheme, 'a) prog" where
  "classifyIncrementFailure env i at =
     bindE (db_query env (\<lambda>s. map_option pr_package (find (\<lambda>r. dp_ID (pr_package r) = i) (t_packages s)))) (\<lambda>r.
     case r of
       None \<Rightarrow> throwE ErrPackageNotFound
     | Some p \<Rightarrow>
         if dp_RevokedAt p \<noteq> None then throwE ErrPackageRevoked
         else if \<not> at < dp_ExpiresAt p then throwE ErrPackageExpired
         else if dp_UsesCount p \<ge> dp_MaxUses p then throwE ErrPackageExhausted
         else throwE ErrEnrollmentRejected)"

definition IncrementUses :: "env \<Rightarrow> string \<Rightarrow> Time \<Rightarrow> ('z enroll_db_scheme, unit) prog" where
  "IncrementUses env i at =
     bindE (db_query env (\<lambda>s. \<exists>r \<in> set (t_packages s). usable i at r)) (\<lambda>affected.
     if affected then modE (\<lambda>s. s\<lparr>t_packages := update_where (usable i at) (set_package (used_once at)) (t_packages s)\<rparr>)
     else classifyIncrementFailure env i at)"

section \<open>Agents\<close>

text \<open>
  Three unique constraints: the primary key, the credential hash, and the install identifier within the
  organization where there is one. The repository makes one error of all of them.
\<close>

definition agent_conflict :: "Agent \<Rightarrow> string \<Rightarrow> AgentRow \<Rightarrow> bool" where
  "agent_conflict a hash r \<longleftrightarrow> ag_ID (ar_agent r) = ag_ID a \<or> ar_credential_hash r = hash \<or>
     ag_InstallID a \<noteq> [] \<and> ag_OrganizationID (ar_agent r) = ag_OrganizationID a \<and> ag_InstallID (ar_agent r) = ag_InstallID a"

text \<open>The insert takes one instant for the three time columns.\<close>

definition inserted_agent :: "Agent \<Rightarrow> Agent" where
  "inserted_agent a = a\<lparr>ag_LastSeenAt := ag_EnrolledAt a, ag_UpdatedAt := ag_EnrolledAt a\<rparr>"

definition agent_Create :: "env \<Rightarrow> Agent \<Rightarrow> string \<Rightarrow> ('z enroll_db_scheme, unit) prog" where
  "agent_Create env a hash =
     exec_hit env ErrAgentAlreadyEnrolled (\<lambda>s. \<forall>r \<in> set (t_agents s). \<not> agent_conflict a hash r)
       (\<lambda>s. s\<lparr>t_agents := t_agents s @ [\<lparr>ar_agent = inserted_agent a, ar_credential_hash = hash\<rparr>]\<rparr>)"

definition FindByCredentialHash :: "env \<Rightarrow> string \<Rightarrow> ('z enroll_db_scheme, Agent) prog" where
  "FindByCredentialHash env hash =
     bindE (db_query env (\<lambda>s. map_option ar_agent (find (\<lambda>r. ar_credential_hash r = hash) (t_agents s)))) (\<lambda>r.
     case r of None \<Rightarrow> throwE ErrAgentNotFound | Some a \<Rightarrow> retE a)"

text \<open>\<open>COALESCE(NULLIF(x, ''), column)\<close> keeps the column when the agent reports nothing.\<close>

definition beat :: "string \<Rightarrow> string \<Rightarrow> Time \<Rightarrow> Agent \<Rightarrow> Agent" where
  "beat agentVersion hostname at a = a\<lparr>ag_LastSeenAt := at, ag_UpdatedAt := at,
     ag_AgentVersion := (if agentVersion = [] then ag_AgentVersion a else agentVersion),
     ag_Hostname := (if hostname = [] then ag_Hostname a else hostname)\<rparr>"

definition is_agent :: "string \<Rightarrow> string \<Rightarrow> AgentRow \<Rightarrow> bool" where
  "is_agent i org r \<longleftrightarrow> ag_ID (ar_agent r) = i \<and> ag_OrganizationID (ar_agent r) = org"

definition UpdateHeartbeat :: "env \<Rightarrow> string \<Rightarrow> string \<Rightarrow> string \<Rightarrow> string \<Rightarrow> Time \<Rightarrow> ('z enroll_db_scheme, unit) prog" where
  "UpdateHeartbeat env agentID org agentVersion hostname at =
     exec_hit env ErrAgentNotFound (\<lambda>s. \<exists>r \<in> set (t_agents s). is_agent agentID org r)
       (\<lambda>s. s\<lparr>t_agents := update_where (is_agent agentID org)
          (\<lambda>r. r\<lparr>ar_agent := beat agentVersion hostname at (ar_agent r)\<rparr>) (t_agents s)\<rparr>)"

definition agent_List :: "env \<Rightarrow> string \<Rightarrow> ('z enroll_db_scheme, Agent list) prog" where
  "agent_List env org =
     db_query env (\<lambda>s. sort_key (\<lambda>a. - ag_EnrolledAt a) (filter (\<lambda>a. ag_OrganizationID a = org) (map ar_agent (t_agents s))))"

section \<open>What the schema keeps\<close>

definition package_enrolled :: "string \<Rightarrow> AgentRow list \<Rightarrow> int" where
  "package_enrolled i rows = int (length (filter (\<lambda>r. ag_DeploymentPackageID (ar_agent r) = i) rows))"

text \<open>
  Unique keys, the bounds of each package, and the books: the uses of a package are its agents, and an
  agent's package is there.
\<close>

definition packages_ok :: "'z enroll_db_scheme \<Rightarrow> bool" where
  "packages_ok s \<longleftrightarrow> distinct (map (\<lambda>r. dp_ID (pr_package r)) (t_packages s)) \<and> distinct (map pr_bootstrap_secret_hash (t_packages s)) \<and>
     (\<forall>r \<in> set (t_packages s). dp_ID (pr_package r) \<noteq> [] \<and> dp_OrganizationID (pr_package r) \<noteq> [] \<and>
        dp_UsesCount (pr_package r) \<le> dp_MaxUses (pr_package r) \<and>
        dp_UsesCount (pr_package r) = package_enrolled (dp_ID (pr_package r)) (t_agents s))"

definition agents_ok :: "'z enroll_db_scheme \<Rightarrow> bool" where
  "agents_ok s \<longleftrightarrow> distinct (map (\<lambda>r. ag_ID (ar_agent r)) (t_agents s)) \<and> distinct (map ar_credential_hash (t_agents s)) \<and>
     distinct (filter (\<lambda>k. snd k \<noteq> []) (map (\<lambda>r. (ag_OrganizationID (ar_agent r), ag_InstallID (ar_agent r))) (t_agents s))) \<and>
     (\<forall>r \<in> set (t_agents s). ag_DeploymentPackageID (ar_agent r) \<in> insert [] ((\<lambda>p. dp_ID (pr_package p)) ` set (t_packages s)))"

definition enroll_ok :: "'z enroll_db_scheme \<Rightarrow> bool" where
  "enroll_ok s \<longleftrightarrow> packages_ok s \<and> agents_ok s"

end
