(* ===== verification/Enrollment.thy ===== *)
theory Enrollment imports EnrollStore begin

text \<open>
  The enrollment service (\<open>enrollment/service.go\<close>, \<open>enrollment/tokens.go\<close>): packages are created and
  revoked by operators, agents enroll through a bootstrap secret, authenticate with the credential they
  were given, and send heartbeats.

  SHA-256 is the parameter \<open>sha\<close>, and what the random source still has to give is the argument \<open>rng\<close>
  of the operations that draw from it. The theorems hold for every \<open>sha\<close>: that no two secrets collide is
  what the unique indexes of the schema check, and never assumed.
\<close>

section \<open>Tokens\<close>

definition bearerTokenBytes :: nat where "bearerTokenBytes = 32"

text \<open>\<open>io.ReadFull\<close> fills the buffer or fails.\<close>

definition ReadFull :: "nat \<Rightarrow> string \<Rightarrow> err + string" where
  "ReadFull n rng = (if length rng < n then Inl ErrRandomSource else Inr (take n rng))"

definition hashBearerToken :: "(string \<Rightarrow> string) \<Rightarrow> string \<Rightarrow> string" where
  "hashBearerToken sha plaintext = sha plaintext"

definition hashFingerprint :: "(string \<Rightarrow> string) \<Rightarrow> string \<Rightarrow> string" where
  "hashFingerprint sha plaintext = sha plaintext"

definition generateBearerToken :: "(string \<Rightarrow> string) \<Rightarrow> string \<Rightarrow> err + (string \<times> string)" where
  "generateBearerToken sha rng =
     (case ReadFull bearerTokenBytes rng of
        Inl e \<Rightarrow> Inl e
      | Inr buf \<Rightarrow> let plaintext = RawURLEncode buf in Inr (plaintext, sha plaintext))"

section \<open>Creating a package\<close>

record CreatePackageInput =
  cp_OrganizationID :: string
  cp_CreatedByUserID :: string
  cp_Name :: string
  cp_Description :: string
  cp_PackageType :: PackageType
  cp_AgentVersion :: string
  cp_TTL :: Duration
  cp_MaxUses :: int
  cp_DefaultGroupName :: string
  cp_DefaultLabels :: "string list"

record CreatePackageOutput =
  co_Package :: DeploymentPackage
  co_BootstrapSecret :: string

definition validate_create :: "CreatePackageInput \<Rightarrow> err + unit" where
  "validate_create inp =
     (if TrimSpace (cp_OrganizationID inp) = [] then Inl ErrInvalidPackageInput
      else if TrimSpace (cp_CreatedByUserID inp) = [] then Inl ErrInvalidPackageInput
      else if TrimSpace (cp_Name inp) = [] then Inl ErrInvalidPackageInput
      else if \<not> PackageType_Valid (cp_PackageType inp) then Inl ErrInvalidPackageInput
      else if cp_TTL inp \<le> 0 then Inl ErrInvalidPackageInput
      else if cp_MaxUses inp \<le> 0 then Inl ErrInvalidPackageInput
      else Inr ())"

definition new_package :: "CreatePackageInput \<Rightarrow> string \<Rightarrow> Time \<Rightarrow> DeploymentPackage" where
  "new_package inp i now =
     \<lparr>dp_ID = i, dp_OrganizationID = cp_OrganizationID inp, dp_Name = TrimSpace (cp_Name inp), dp_Description = cp_Description inp,
      dp_PackageType = cp_PackageType inp, dp_AgentVersion = cp_AgentVersion inp, dp_MaxUses = cp_MaxUses inp, dp_UsesCount = 0,
      dp_ExpiresAt = now + cp_TTL inp, dp_RevokedAt = None, dp_RevokedByUserID = [], dp_RevokedReason = [],
      dp_CreatedByUserID = cp_CreatedByUserID inp, dp_CreatedAt = now, dp_LastUsedAt = None,
      dp_DefaultGroupName = cp_DefaultGroupName inp, dp_DefaultLabels = cp_DefaultLabels inp\<rparr>"

definition created_event :: "CreatePackageInput \<Rightarrow> DeploymentPackage \<Rightarrow> Event" where
  "created_event inp pkg =
     \<lparr>ev_ID = [], ev_OrganizationID = cp_OrganizationID inp, ev_OccurredAt = zeroTime, ev_Actor = cp_CreatedByUserID inp,
      ev_ActorType = ''user'', ev_Action = ''deployment_package.created'', ev_TargetType = ''deployment_package'',
      ev_TargetID = dp_ID pkg, ev_RequestID = [],
      ev_Metadata = JObj [(''agent_version'', JStr (cp_AgentVersion inp)), (''expires_at'', JStr (FormatRFC3339 (dp_ExpiresAt pkg))),
        (''group_name'', JStr (cp_DefaultGroupName inp)), (''label_count'', JNum (int (length (cp_DefaultLabels inp)))),
        (''max_uses'', JNum (cp_MaxUses inp)), (''package_type'', JStr (package_type_string (cp_PackageType inp)))]\<rparr>"

definition CreatePackage :: "env \<Rightarrow> (string \<Rightarrow> string) \<Rightarrow> string \<Rightarrow> CreatePackageInput \<Rightarrow> ('z enroll_db_scheme, CreatePackageOutput) prog" where
  "CreatePackage env sha rng inp =
     bindE (liftE (validate_create inp)) (\<lambda>_.
     bindE (liftE (generateBearerToken sha rng)) (\<lambda>(plaintext, hash).
     bindE (Now env) (\<lambda>now.
     bindE (NewID env) (\<lambda>i.
     let pkg = new_package inp i now in
     bindE (WithTx env (bindE (pkg_Create env pkg hash) (\<lambda>_. Record env (created_event inp pkg)))) (\<lambda>_.
     retE \<lparr>co_Package = pkg, co_BootstrapSecret = plaintext\<rparr>)))))"

section \<open>Enrolling an agent\<close>

record EnrollAgentInput =
  ei_BootstrapSecret :: string
  ei_Hostname :: string
  ei_AgentVersion :: string
  ei_MachineFingerprint :: string
  ei_InstallID :: string
  ei_RequestID :: string

record EnrollAgentOutput =
  eo_Agent :: Agent
  eo_AgentCredential :: string
  eo_OrganizationID :: string

definition validate_enroll :: "EnrollAgentInput \<Rightarrow> err + unit" where
  "validate_enroll inp =
     (if TrimSpace (ei_BootstrapSecret inp) = [] then Inl ErrInvalidEnrollmentInput
      else if TrimSpace (ei_Hostname inp) = [] then Inl ErrInvalidEnrollmentInput
      else Inr ())"

definition fallbackRejectionOrg :: string where "fallbackRejectionOrg = ''anchorix''"

fun rejectionReason :: "err \<Rightarrow> string" where
  "rejectionReason ErrPackageRevoked = ''package_revoked''"
| "rejectionReason ErrPackageExpired = ''package_expired''"
| "rejectionReason ErrPackageExhausted = ''package_exhausted''"
| "rejectionReason _ = ''unknown''"

definition rejection_event :: "string \<Rightarrow> string \<Rightarrow> string \<Rightarrow> EnrollAgentInput \<Rightarrow> Event" where
  "rejection_event org packageID reason inp =
     \<lparr>ev_ID = [], ev_OrganizationID = org, ev_OccurredAt = zeroTime, ev_Actor = ''unknown_agent'', ev_ActorType = ''agent'',
      ev_Action = ''agent.enrollment_rejected'', ev_TargetType = ''deployment_package'',
      ev_TargetID = (if packageID = [] then ''(none)'' else packageID), ev_RequestID = ei_RequestID inp,
      ev_Metadata = JObj [(''agent_version'', JStr (ei_AgentVersion inp)), (''deployment_package_id'', JStr packageID),
        (''has_install_id'', JBool (ei_InstallID inp \<noteq> [])), (''has_machine_fp'', JBool (ei_MachineFingerprint inp \<noteq> [])),
        (''hostname'', JStr (TrimSpace (ei_Hostname inp))), (''reason'', JStr reason), (''severity'', JStr ''security'')]\<rparr>"

definition recordRejection :: "env \<Rightarrow> string \<Rightarrow> string \<Rightarrow> string \<Rightarrow> EnrollAgentInput \<Rightarrow> ('z enroll_db_scheme, unit) prog" where
  "recordRejection env org packageID reason inp = Record env (rejection_event org packageID reason inp)"

text \<open>A rejection of a known package must be audited: the audit error comes out instead.\<close>

definition rejected :: "env \<Rightarrow> DeploymentPackage \<Rightarrow> string \<Rightarrow> EnrollAgentInput \<Rightarrow> ('z enroll_db_scheme, 'a) prog" where
  "rejected env pkg reason inp =
     bindE (recordRejection env (dp_OrganizationID pkg) (dp_ID pkg) reason inp) (\<lambda>_. throwE ErrEnrollmentRejected)"

text \<open>Before the transaction: the package the secret names, and the early check.\<close>

definition enroll_lookup :: "env \<Rightarrow> (string \<Rightarrow> string) \<Rightarrow> EnrollAgentInput \<Rightarrow> ('z enroll_db_scheme, DeploymentPackage \<times> Time) prog" where
  "enroll_lookup env sha inp =
     (case validate_enroll inp of
        Inl _ \<Rightarrow> throwE ErrEnrollmentRejected
      | Inr _ \<Rightarrow>
          bindE (tryE (GetByBootstrapHash env (hashBearerToken sha (ei_BootstrapSecret inp)))) (\<lambda>r.
          case r of
            Inl e \<Rightarrow>
              if e = ErrPackageNotFound
              then bindE (tryE (recordRejection env fallbackRejectionOrg [] ''bootstrap_secret_unknown'' inp)) (\<lambda>_. throwE ErrEnrollmentRejected)
              else throwE e
          | Inr pkg \<Rightarrow>
              bindE (Now env) (\<lambda>now.
              case activeAt pkg now of
                Inl e \<Rightarrow> rejected env pkg (rejectionReason e) inp
              | Inr _ \<Rightarrow> retE (pkg, now))))"

definition new_agent :: "(string \<Rightarrow> string) \<Rightarrow> EnrollAgentInput \<Rightarrow> DeploymentPackage \<Rightarrow> string \<Rightarrow> Time \<Rightarrow> Agent" where
  "new_agent sha inp pkg i now =
     \<lparr>ag_ID = i, ag_OrganizationID = dp_OrganizationID pkg, ag_Hostname = TrimSpace (ei_Hostname inp), ag_DisplayName = [],
      ag_Status = AgentStatusActive, ag_EnrolledAt = now, ag_LastSeenAt = now, ag_DeploymentPackageID = dp_ID pkg,
      ag_AgentVersion = ei_AgentVersion inp,
      ag_MachineFingerprintHash = (if ei_MachineFingerprint inp = [] then [] else hashFingerprint sha (ei_MachineFingerprint inp)),
      ag_InstallID = TrimSpace (ei_InstallID inp), ag_GroupName = dp_DefaultGroupName pkg, ag_Labels = dp_DefaultLabels pkg,
      ag_UpdatedAt = now\<rparr>"

definition enrolled_event :: "EnrollAgentInput \<Rightarrow> DeploymentPackage \<Rightarrow> Agent \<Rightarrow> Event" where
  "enrolled_event inp pkg agent =
     \<lparr>ev_ID = [], ev_OrganizationID = dp_OrganizationID pkg, ev_OccurredAt = zeroTime, ev_Actor = ag_ID agent, ev_ActorType = ''agent'',
      ev_Action = ''agent.enrolled'', ev_TargetType = ''agent'', ev_TargetID = ag_ID agent, ev_RequestID = ei_RequestID inp,
      ev_Metadata = JObj [(''agent_version'', JStr (ag_AgentVersion agent)), (''deployment_package_id'', JStr (dp_ID pkg)),
        (''group_name'', JStr (ag_GroupName agent)), (''hostname'', JStr (ag_Hostname agent)),
        (''label_count'', JNum (int (length (ag_Labels agent))))]\<rparr>"

text \<open>The transaction: the use of the package, the agent, the audit row.\<close>

definition enroll_tx :: "env \<Rightarrow> EnrollAgentInput \<Rightarrow> DeploymentPackage \<Rightarrow> Agent \<Rightarrow> string \<Rightarrow> Time \<Rightarrow> ('z enroll_db_scheme, unit) prog" where
  "enroll_tx env inp pkg agent credHash now =
     WithTx env (bindE (IncrementUses env (dp_ID pkg) now) (\<lambda>_.
       bindE (agent_Create env agent credHash) (\<lambda>_. Record env (enrolled_event inp pkg agent))))"

text \<open>The race lost, the install identifier taken, the package gone: one rejection, three reasons.\<close>

definition enroll_failed :: "env \<Rightarrow> DeploymentPackage \<Rightarrow> EnrollAgentInput \<Rightarrow> err \<Rightarrow> ('z enroll_db_scheme, 'a) prog" where
  "enroll_failed env pkg inp e =
     (if e \<in> {ErrPackageRevoked, ErrPackageExpired, ErrPackageExhausted} then rejected env pkg (rejectionReason e) inp
      else if e = ErrAgentAlreadyEnrolled then rejected env pkg ''install_id_already_enrolled'' inp
      else if e = ErrPackageNotFound then rejected env pkg ''package_concurrently_deleted'' inp
      else throwE e)"

text \<open>From the early check on, with what it saw of the package, which may have changed since.\<close>

definition enroll_admitted ::
  "env \<Rightarrow> (string \<Rightarrow> string) \<Rightarrow> string \<Rightarrow> EnrollAgentInput \<Rightarrow> DeploymentPackage \<Rightarrow> Time \<Rightarrow> ('z enroll_db_scheme, EnrollAgentOutput) prog" where
  "enroll_admitted env sha rng inp pkg now =
     bindE (liftE (generateBearerToken sha rng)) (\<lambda>(credPlain, credHash).
     bindE (NewID env) (\<lambda>i.
     let agent = new_agent sha inp pkg i now in
     bindE (tryE (enroll_tx env inp pkg agent credHash now)) (\<lambda>r.
     case r of
       Inr _ \<Rightarrow> retE \<lparr>eo_Agent = agent, eo_AgentCredential = credPlain, eo_OrganizationID = dp_OrganizationID pkg\<rparr>
     | Inl e \<Rightarrow> enroll_failed env pkg inp e)))"

definition EnrollAgent :: "env \<Rightarrow> (string \<Rightarrow> string) \<Rightarrow> string \<Rightarrow> EnrollAgentInput \<Rightarrow> ('z enroll_db_scheme, EnrollAgentOutput) prog" where
  "EnrollAgent env sha rng inp =
     bindE (enroll_lookup env sha inp) (\<lambda>(pkg, now). enroll_admitted env sha rng inp pkg now)"

section \<open>Authenticating an agent\<close>

record AuthenticateAgentInput =
  ain_AgentCredential :: string
  ain_HeaderRejection :: string
  ain_RequestID :: string
  ain_RemoteAddr :: string

record AuthenticatedAgent =
  aa_AgentID :: string
  aa_OrganizationID :: string
  aa_Status :: AgentStatus
  aa_DeploymentPackageID :: string
  aa_AgentVersion :: string
  aa_GroupName :: string
  aa_Labels :: "string list"

definition auth_failure_event :: "string \<Rightarrow> string \<Rightarrow> string \<Rightarrow> AuthenticateAgentInput \<Rightarrow> Event" where
  "auth_failure_event org agentID reason inp =
     \<lparr>ev_ID = [], ev_OrganizationID = (if org = [] then fallbackRejectionOrg else org), ev_OccurredAt = zeroTime,
      ev_Actor = (if agentID = [] then ''unknown_agent'' else agentID), ev_ActorType = ''agent'',
      ev_Action = ''agent.authentication_failed'', ev_TargetType = ''agent'',
      ev_TargetID = (if agentID = [] then ''(none)'' else agentID), ev_RequestID = ain_RequestID inp,
      ev_Metadata = JObj [(''agent_id'', JStr agentID), (''reason'', JStr reason), (''remote_addr'', JStr (ain_RemoteAddr inp)),
        (''severity'', JStr ''security'')]\<rparr>"

text \<open>Best effort: an audit error is dropped.\<close>

definition recordAuthFailure :: "env \<Rightarrow> string \<Rightarrow> string \<Rightarrow> string \<Rightarrow> AuthenticateAgentInput \<Rightarrow> ('z enroll_db_scheme, unit) prog" where
  "recordAuthFailure env org agentID reason inp =
     bindE (tryE (Record env (auth_failure_event org agentID reason inp))) (\<lambda>_. retE ())"

definition auth_refused :: "env \<Rightarrow> string \<Rightarrow> string \<Rightarrow> string \<Rightarrow> AuthenticateAgentInput \<Rightarrow> ('z enroll_db_scheme, 'a) prog" where
  "auth_refused env org agentID reason inp =
     bindE (recordAuthFailure env org agentID reason inp) (\<lambda>_. throwE ErrAgentAuthenticationFailed)"

definition agent_principal :: "Agent \<Rightarrow> AuthenticatedAgent" where
  "agent_principal a = \<lparr>aa_AgentID = ag_ID a, aa_OrganizationID = ag_OrganizationID a, aa_Status = ag_Status a,
     aa_DeploymentPackageID = ag_DeploymentPackageID a, aa_AgentVersion = ag_AgentVersion a, aa_GroupName = ag_GroupName a,
     aa_Labels = ag_Labels a\<rparr>"

definition AuthenticateAgent :: "env \<Rightarrow> (string \<Rightarrow> string) \<Rightarrow> AuthenticateAgentInput \<Rightarrow> ('z enroll_db_scheme, AuthenticatedAgent) prog" where
  "AuthenticateAgent env sha inp =
     (if ain_HeaderRejection inp \<noteq> [] then auth_refused env [] [] (ain_HeaderRejection inp) inp
      else if TrimSpace (ain_AgentCredential inp) = [] then auth_refused env [] [] ''credential_empty'' inp
      else bindE (tryE (FindByCredentialHash env (hashBearerToken sha (ain_AgentCredential inp)))) (\<lambda>r.
        case r of
          Inl e \<Rightarrow> if e = ErrAgentNotFound then auth_refused env [] [] ''credential_unknown'' inp else throwE e
        | Inr a \<Rightarrow>
            if ag_Status a \<noteq> AgentStatusActive
            then auth_refused env (ag_OrganizationID a) (ag_ID a) (''agent_status_'' @ agent_status_string (ag_Status a)) inp
            else retE (agent_principal a)))"

section \<open>Lists, heartbeats, revocation\<close>

definition ListAgents :: "env \<Rightarrow> string \<Rightarrow> ('z enroll_db_scheme, Agent list) prog" where
  "ListAgents env org = bindE (guardE (TrimSpace org \<noteq> []) ErrRequired) (\<lambda>_. agent_List env org)"

record RecordHeartbeatInput =
  hb_AgentID :: string
  hb_OrganizationID :: string
  hb_AgentVersion :: string
  hb_Hostname :: string

definition RecordHeartbeat :: "env \<Rightarrow> RecordHeartbeatInput \<Rightarrow> ('z enroll_db_scheme, unit) prog" where
  "RecordHeartbeat env inp =
     bindE (guardE (TrimSpace (hb_AgentID inp) \<noteq> [] \<and> TrimSpace (hb_OrganizationID inp) \<noteq> []) ErrRequired) (\<lambda>_.
     bindE (Now env) (\<lambda>now.
     UpdateHeartbeat env (hb_AgentID inp) (hb_OrganizationID inp) (TrimSpace (hb_AgentVersion inp)) (TrimSpace (hb_Hostname inp)) now))"

record RevokePackageInput =
  rv_OrganizationID :: string
  rv_PackageID :: string
  rv_RevokedByUserID :: string
  rv_Reason :: string

record RevokePackageOutput =
  ro_Package :: DeploymentPackage
  ro_AlreadyRevoked :: bool

definition validate_revoke :: "RevokePackageInput \<Rightarrow> err + unit" where
  "validate_revoke inp =
     (if TrimSpace (rv_OrganizationID inp) = [] then Inl ErrInvalidPackageInput
      else if TrimSpace (rv_PackageID inp) = [] then Inl ErrInvalidPackageInput
      else if TrimSpace (rv_RevokedByUserID inp) = [] then Inl ErrInvalidPackageInput
      else Inr ())"

definition revoked_event :: "RevokePackageInput \<Rightarrow> DeploymentPackage \<Rightarrow> Event" where
  "revoked_event inp pkg =
     \<lparr>ev_ID = [], ev_OrganizationID = rv_OrganizationID inp, ev_OccurredAt = zeroTime, ev_Actor = rv_RevokedByUserID inp,
      ev_ActorType = ''user'', ev_Action = ''deployment_package.revoked'', ev_TargetType = ''deployment_package'',
      ev_TargetID = dp_ID pkg, ev_RequestID = [],
      ev_Metadata = JObj [(''agent_version'', JStr (dp_AgentVersion pkg)), (''has_reason'', JBool (rv_Reason inp \<noteq> [])),
        (''max_uses'', JNum (dp_MaxUses pkg)), (''package_type'', JStr (package_type_string (dp_PackageType pkg))),
        (''reason_length'', JNum (int (length (rv_Reason inp)))), (''uses_count'', JNum (dp_UsesCount pkg))]\<rparr>"

definition revoke_tx :: "env \<Rightarrow> RevokePackageInput \<Rightarrow> ('z enroll_db_scheme, RevokePackageOutput) prog" where
  "revoke_tx env inp =
     bindE (GetByIDAndOrg env (rv_PackageID inp) (rv_OrganizationID inp)) (\<lambda>pkg.
     if dp_RevokedAt pkg \<noteq> None then retE \<lparr>ro_Package = pkg, ro_AlreadyRevoked = True\<rparr>
     else
       bindE (Now env) (\<lambda>now.
       bindE (tryE (pkg_Revoke env (dp_ID pkg) (rv_OrganizationID inp) (rv_RevokedByUserID inp) (rv_Reason inp) now)) (\<lambda>r.
       case r of
         Inl e \<Rightarrow>
           if e = ErrPackageAlreadyRevoked
           then bindE (GetByIDAndOrg env (rv_PackageID inp) (rv_OrganizationID inp)) (\<lambda>latest.
             retE \<lparr>ro_Package = latest, ro_AlreadyRevoked = True\<rparr>)
           else throwE e
       | Inr _ \<Rightarrow>
           let pkg' = revoked_columns (rv_RevokedByUserID inp) (rv_Reason inp) now pkg in
           bindE (Record env (revoked_event inp pkg')) (\<lambda>_. retE \<lparr>ro_Package = pkg', ro_AlreadyRevoked = False\<rparr>))))"

definition RevokePackage :: "env \<Rightarrow> RevokePackageInput \<Rightarrow> ('z enroll_db_scheme, RevokePackageOutput) prog" where
  "RevokePackage env inp = bindE (liftE (validate_revoke inp)) (\<lambda>_. WithTx env (revoke_tx env inp))"

end
