(* ===== verification/EnrollBooks.thy ===== *)
theory EnrollBooks imports Enrollment begin

text \<open>
  What every operation of the enrollment service keeps: unique keys, the bounds of each package, and the
  books, where the uses of a package are its agents (\<open>enroll_ok\<close>).
\<close>

section \<open>Views of the tables\<close>

lemma enroll_views [simp]:
  "t_packages (db_of s) = t_packages s" "t_agents (db_of s) = t_agents s"
  "t_packages (stepped s) = t_packages s" "t_agents (stepped s) = t_agents s"
  by (simp_all add: db_of_def stepped_def)

lemma enroll_ok_views [simp]: "enroll_ok (db_of s) = enroll_ok s" "enroll_ok (stepped s) = enroll_ok s"
  by (simp_all add: enroll_ok_def packages_ok_def agents_ok_def)

lemma enroll_ok_audit [simp]: "enroll_ok (s\<lparr>audit_events := x\<rparr>) = enroll_ok s"
  by (simp add: enroll_ok_def packages_ok_def agents_ok_def)

lemma enroll_ok_cong: "t_packages s = t_packages t \<Longrightarrow> t_agents s = t_agents t \<Longrightarrow> enroll_ok s = enroll_ok t"
  by (simp add: enroll_ok_def packages_ok_def agents_ok_def)

text \<open>The two tables at once: what a program that reads or audits leaves alone.\<close>

definition enroll_tables :: "'z enroll_db_scheme \<Rightarrow> PackageRow list \<times> AgentRow list" where
  "enroll_tables s = (t_packages s, t_agents s)"

lemma enroll_tables_views [simp]:
  "enroll_tables (db_of s) = enroll_tables s" "enroll_tables (stepped s) = enroll_tables s"
  "enroll_tables (s\<lparr>audit_events := x\<rparr>) = enroll_tables s"
  by (simp_all add: enroll_tables_def)

lemma enroll_tables_cong: "enroll_tables s = enroll_tables t \<Longrightarrow> enroll_ok s = enroll_ok t"
  by (rule enroll_ok_cong) (simp_all add: enroll_tables_def)

lemma tables_Record: "leaves enroll_tables (Record env e)"
  unfolding Record_def
  by (intro frame_intros leaves_db_update leaves_view [OF leaves_NewID] leaves_view [OF leaves_Now]) auto

lemma tables_read: "leaves db_of m \<Longrightarrow> leaves enroll_tables m"
  by (erule leaves_view) simp

lemma leaves_first_package [frame_intros]: "leaves db_of (first_package env P)"
  unfolding first_package_def by (intro frame_intros)

lemma tables_recordRejection [frame_intros]: "leaves enroll_tables (recordRejection env org i reason inp)"
  unfolding recordRejection_def by (rule tables_Record)

lemma tables_rejected [frame_intros]: "leaves enroll_tables (rejected env pkg reason inp)"
  unfolding rejected_def by (intro frame_intros)

lemma tables_enroll_failed [frame_intros]: "leaves enroll_tables (enroll_failed env pkg inp e)"
  unfolding enroll_failed_def by (intro frame_intros)

lemma rejected_never: "rejected env pkg reason inp s \<noteq> (Inr x, s')"
  by (auto simp: rejected_def bindE_Inr throwE_Inr)

lemma enroll_failed_never: "enroll_failed env pkg inp e s \<noteq> (Inr x, s')"
  by (simp add: enroll_failed_def rejected_never throwE_Inr)

lemma tables_auth_refused [frame_intros]: "leaves enroll_tables (auth_refused env org i reason inp)"
  unfolding auth_refused_def recordAuthFailure_def by (intro frame_intros tables_Record)

lemma tables_enroll_lookup: "leaves enroll_tables (enroll_lookup env sha inp)"
  unfolding enroll_lookup_def GetByBootstrapHash_def
  by (intro frame_intros tables_read [OF leaves_first_package] tables_read [OF leaves_Now])

lemma tables_AuthenticateAgent: "leaves enroll_tables (AuthenticateAgent env sha inp)"
  unfolding AuthenticateAgent_def FindByCredentialHash_def
  by (intro frame_intros tables_read [OF leaves_db_query])

section \<open>The writes\<close>

lemma first_package_Inr:
  "first_package env P s = (Inr p, s') \<Longrightarrow> \<exists>r. find P (t_packages s) = Some r \<and> p = pr_package r"
  by (auto simp: first_package_def run_simps split: option.splits)

lemma IncrementUses_Inr:
  "IncrementUses env i at s = (Inr u, s') \<Longrightarrow> (\<exists>r \<in> set (t_packages s). usable i at r) \<and>
     s' = (stepped s)\<lparr>t_packages := update_where (usable i at) (set_package (used_once at)) (t_packages s)\<rparr>"
  by (auto simp: IncrementUses_def classifyIncrementFailure_def run_simps split: if_splits option.splits)

lemma db_of_enroll_update:
  "db_of (s\<lparr>t_packages := a\<rparr>) = (db_of s)\<lparr>t_packages := a\<rparr>" "db_of (s\<lparr>t_agents := b\<rparr>) = (db_of s)\<lparr>t_agents := b\<rparr>"
  by (simp_all add: db_of_def)

lemma enroll_tx_Inr:
  assumes "enroll_tx env inp pkg agent h now s = (Inr u, s')"
  shows "(\<exists>p \<in> set (t_packages s). usable (dp_ID pkg) now p) \<and> (\<forall>x \<in> set (t_agents s). \<not> agent_conflict agent h x) \<and>
    t_packages s' = update_where (usable (dp_ID pkg) now) (set_package (used_once now)) (t_packages s) \<and>
    t_agents s' = t_agents s @ [\<lparr>ar_agent = inserted_agent agent, ar_credential_hash = h\<rparr>] \<and>
    (\<exists>r. same_event r (enrolled_event inp pkg agent) \<and> audit_events s' = audit_events s @ [r])"
proof -
  from WithTx_Inr [OF assms [unfolded enroll_tx_def]] obtain s1 s2 where
    s1: "s1 = (stepped s)\<lparr>w_tx := Suc (w_tx s)\<rparr>" and s': "s' = stepped s2" and
    run: "bindE (IncrementUses env (dp_ID pkg) now) (\<lambda>_. bindE (agent_Create env agent h) (\<lambda>_. Record env (enrolled_event inp pkg agent))) s1 = (Inr u, s2)"
    by blast
  from run obtain s3 s4 where 3: "IncrementUses env (dp_ID pkg) now s1 = (Inr (), s3)" and 4: "agent_Create env agent h s3 = (Inr (), s4)"
    and 5: "Record env (enrolled_event inp pkg agent) s4 = (Inr u, s2)" by (auto simp: bindE_Inr)
  note i = IncrementUses_Inr [OF 3]
  from 4 have a: "\<forall>x \<in> set (t_agents s3). \<not> agent_conflict agent h x"
    "s4 = (stepped s3)\<lparr>t_agents := t_agents s3 @ [\<lparr>ar_agent = inserted_agent agent, ar_credential_hash = h\<rparr>]\<rparr>"
    by (auto simp: agent_Create_def run_simps)
  from Record_Inr [OF 5] leavesD [OF tables_Record 5] obtain r where
    "audit_events s2 = audit_events s4 @ [r]" "same_event r (enrolled_event inp pkg agent)" "enroll_tables s2 = enroll_tables s4" by blast
  with i a s1 s' show ?thesis by (auto simp: enroll_tables_def)
qed

section \<open>The books\<close>

lemma package_enrolled_snoc:
  "package_enrolled i (rows @ [r]) = package_enrolled i rows + (if ag_DeploymentPackageID (ar_agent r) = i then 1 else 0)"
  by (simp add: package_enrolled_def)

lemma package_enrolled_none: "\<forall>r \<in> set rows. ag_DeploymentPackageID (ar_agent r) \<noteq> i \<Longrightarrow> package_enrolled i rows = 0"
  by (simp add: package_enrolled_def filter_empty_conv)

text \<open>A rewrite of package rows that keeps their keys.\<close>

definition keeps_keys :: "(PackageRow \<Rightarrow> PackageRow) \<Rightarrow> bool" where
  "keeps_keys f \<longleftrightarrow> (\<forall>r. dp_ID (pr_package (f r)) = dp_ID (pr_package r) \<and> dp_OrganizationID (pr_package (f r)) = dp_OrganizationID (pr_package r) \<and>
     pr_bootstrap_secret_hash (f r) = pr_bootstrap_secret_hash r \<and> dp_MaxUses (pr_package (f r)) = dp_MaxUses (pr_package r))"

lemma keeps_keys_set_package [simp]:
  "keeps_keys (set_package (revoked_columns u reason at))" "keeps_keys (set_package (used_once at))"
  by (simp_all add: keeps_keys_def set_package_def revoked_columns_def used_once_def)

lemma keeps_keys_map:
  assumes "keeps_keys f"
  shows "map (\<lambda>r. dp_ID (pr_package r)) (update_where P f rows) = map (\<lambda>r. dp_ID (pr_package r)) rows"
    "map pr_bootstrap_secret_hash (update_where P f rows) = map pr_bootstrap_secret_hash rows"
  using assms by (simp_all add: keeps_keys_def map_update_where)

lemma used_row:
  assumes "packages_ok s" and "p \<in> set (t_packages s)" and "usable i at p"
    and "r \<in> set (update_where (usable i at) (set_package (used_once at)) (t_packages s))"
  shows "\<exists>q \<in> set (t_packages s). dp_ID (pr_package r) = dp_ID (pr_package q) \<and> dp_OrganizationID (pr_package r) = dp_OrganizationID (pr_package q) \<and>
    dp_MaxUses (pr_package r) = dp_MaxUses (pr_package q) \<and>
    dp_UsesCount (pr_package r) = dp_UsesCount (pr_package q) + (if dp_ID (pr_package q) = i then 1 else 0) \<and>
    (dp_ID (pr_package q) = i \<longrightarrow> dp_UsesCount (pr_package q) < dp_MaxUses (pr_package q))"
proof -
  from assms(4) obtain q where q: "q \<in> set (t_packages s)" and r: "r = (if usable i at q then set_package (used_once at) q else q)"
    by (auto simp: update_where_def)
  have "usable i at q" if "dp_ID (pr_package q) = i"
  proof -
    have "inj_on (\<lambda>r. dp_ID (pr_package r)) (set (t_packages s))" using assms(1) by (simp add: packages_ok_def distinct_map)
    then have "q = p" using that q assms(2,3) by (auto simp: inj_on_def usable_def)
    then show ?thesis using assms(3) by simp
  qed
  with q r show ?thesis by (intro bexI [of _ q]) (auto simp: set_package_def used_once_def usable_def)
qed

lemma install_key_fresh:
  assumes "\<forall>x \<in> set rows. \<not> agent_conflict a h x"
    and "distinct (filter (\<lambda>k. snd k \<noteq> []) (map (\<lambda>r. (ag_OrganizationID (ar_agent r), ag_InstallID (ar_agent r))) rows))"
  shows "distinct (filter (\<lambda>k. snd k \<noteq> []) (map (\<lambda>r. (ag_OrganizationID (ar_agent r), ag_InstallID (ar_agent r)))
    (rows @ [\<lparr>ar_agent = inserted_agent a, ar_credential_hash = h\<rparr>])))"
  using assms by (auto simp: agent_conflict_def inserted_agent_def)

lemma enrolled_ok:
  assumes ok: "enroll_ok s" and p: "p \<in> set (t_packages s)" "usable i at p"
    and new: "\<forall>x \<in> set (t_agents s). \<not> agent_conflict a h x" and a: "ag_DeploymentPackageID a = i"
    and s': "t_packages s' = update_where (usable i at) (set_package (used_once at)) (t_packages s)"
      "t_agents s' = t_agents s @ [\<lparr>ar_agent = inserted_agent a, ar_credential_hash = h\<rparr>]"
  shows "enroll_ok s'"
proof -
  have pk: "packages_ok s" and ag: "agents_ok s" using ok by (simp_all add: enroll_ok_def)
  note keys = keeps_keys_map [OF keeps_keys_set_package(2), of "usable i at" at "t_packages s"]
  have rows: "dp_ID (pr_package r) \<noteq> [] \<and> dp_OrganizationID (pr_package r) \<noteq> [] \<and> dp_UsesCount (pr_package r) \<le> dp_MaxUses (pr_package r) \<and>
      dp_UsesCount (pr_package r) = package_enrolled (dp_ID (pr_package r)) (t_agents s')" if r: "r \<in> set (t_packages s')" for r
  proof -
    from used_row [OF pk p r [unfolded s'(1)]] obtain q where q: "q \<in> set (t_packages s)"
      and eq: "dp_ID (pr_package r) = dp_ID (pr_package q)" "dp_OrganizationID (pr_package r) = dp_OrganizationID (pr_package q)"
        "dp_MaxUses (pr_package r) = dp_MaxUses (pr_package q)"
        "dp_UsesCount (pr_package r) = dp_UsesCount (pr_package q) + (if dp_ID (pr_package q) = i then 1 else 0)"
        "dp_ID (pr_package q) = i \<longrightarrow> dp_UsesCount (pr_package q) < dp_MaxUses (pr_package q)" by blast
    have "dp_ID (pr_package q) \<noteq> [] \<and> dp_OrganizationID (pr_package q) \<noteq> [] \<and> dp_UsesCount (pr_package q) \<le> dp_MaxUses (pr_package q) \<and>
        dp_UsesCount (pr_package q) = package_enrolled (dp_ID (pr_package q)) (t_agents s)"
      using pk q unfolding packages_ok_def by blast
    then show ?thesis using eq a by (auto simp: s'(2) package_enrolled_snoc inserted_agent_def)
  qed
  have "distinct (map (\<lambda>r. dp_ID (pr_package r)) (t_packages s'))" "distinct (map pr_bootstrap_secret_hash (t_packages s'))"
    using pk unfolding packages_ok_def s'(1) keys by blast+
  then have "packages_ok s'" using rows unfolding packages_ok_def by blast
  moreover have "agents_ok s'"
  proof -
    have ids: "(\<lambda>p. dp_ID (pr_package p)) ` set (t_packages s') = (\<lambda>p. dp_ID (pr_package p)) ` set (t_packages s)"
      using arg_cong [OF keys(1), of set] unfolding s'(1) by simp
    have "i \<in> (\<lambda>p. dp_ID (pr_package p)) ` set (t_packages s)" using p by (auto simp: usable_def)
    moreover have "ag_ID a \<notin> (\<lambda>r. ag_ID (ar_agent r)) ` set (t_agents s)" "h \<notin> ar_credential_hash ` set (t_agents s)"
      using new by (auto simp: agent_conflict_def)
    ultimately show ?thesis
      using ag install_key_fresh [OF new] a unfolding agents_ok_def ids s'(2) by (auto simp: inserted_agent_def)
  qed
  ultimately show ?thesis by (simp add: enroll_ok_def)
qed

lemma keeps_enroll_tx:
  assumes "ag_DeploymentPackageID agent = dp_ID pkg"
  shows "keeps enroll_ok (enroll_tx env inp pkg agent h now)"
proof (rule keeps_atomic)
  show "fails_clean db_of (enroll_tx env inp pkg agent h now)" unfolding enroll_tx_def by (rule tx.run_fails_clean)
  fix s x s' assume ok: "enroll_ok s" and r: "enroll_tx env inp pkg agent h now s = (Inr x, s')"
  from enroll_tx_Inr [OF r] obtain p where "p \<in> set (t_packages s)" "usable (dp_ID pkg) now p" by blast
  with enroll_tx_Inr [OF r] ok assms show "enroll_ok s'" by (intro enrolled_ok [OF ok]) auto
qed simp

lemma keeps_ok_tables: "leaves enroll_tables m \<Longrightarrow> keeps enroll_ok m"
  by (rule keepsI) (metis leavesD enroll_tables_cong)

lemma keeps_enroll_admitted: "keeps enroll_ok (enroll_admitted env sha rng inp pkg now)"
  unfolding enroll_admitted_def Let_def
  by (intro keep_intros keeps_enroll_tx keeps_ok_tables [OF tables_enroll_failed] keeps_view [OF leaves_NewID]) (simp_all add: new_agent_def)

lemma created_ok:
  assumes ok: "enroll_ok s" and new: "\<forall>r \<in> set (t_packages s). dp_ID (pr_package r) \<noteq> dp_ID pkg \<and> pr_bootstrap_secret_hash r \<noteq> h"
    and pkg: "dp_ID pkg \<noteq> []" "dp_OrganizationID pkg \<noteq> []" "dp_UsesCount pkg = 0" "0 < dp_MaxUses pkg"
    and s': "t_packages s' = t_packages s @ [\<lparr>pr_package = pkg, pr_bootstrap_secret_hash = h\<rparr>]" "t_agents s' = t_agents s"
  shows "enroll_ok s'"
proof -
  have pk: "packages_ok s" and ag: "agents_ok s" using ok by (simp_all add: enroll_ok_def)
  have "ag_DeploymentPackageID (ar_agent r) \<noteq> dp_ID pkg" if "r \<in> set (t_agents s)" for r
    using ag that new pkg(1) unfolding agents_ok_def by force
  then have "package_enrolled (dp_ID pkg) (t_agents s) = 0" by (intro package_enrolled_none) blast
  moreover have "dp_ID pkg \<notin> (\<lambda>r. dp_ID (pr_package r)) ` set (t_packages s)" "h \<notin> pr_bootstrap_secret_hash ` set (t_packages s)"
    using new by auto
  ultimately have "packages_ok s'" using pk pkg unfolding packages_ok_def s' by auto
  moreover have "agents_ok s'" using ag unfolding agents_ok_def s' by auto
  ultimately show ?thesis by (simp add: enroll_ok_def)
qed

lemma keeps_pkg_Create:
  assumes "dp_ID pkg \<noteq> []" "dp_OrganizationID pkg \<noteq> []" "dp_UsesCount pkg = 0"
  shows "keeps enroll_ok (pkg_Create env pkg h)"
  unfolding pkg_Create_def
proof (rule keeps_exec_hit, goal_cases)
  case (2 s)
  then show ?case by (intro created_ok [OF 2(1), where h = h and pkg = pkg]) (use assms in auto)
qed simp

lemma keeps_Record_ok: "keeps enroll_ok (Record env e)"
  by (rule keeps_ok_tables [OF tables_Record])

lemma new_package_fields [simp]:
  "dp_ID (new_package inp i now) = i" "dp_OrganizationID (new_package inp i now) = cp_OrganizationID inp"
  "dp_UsesCount (new_package inp i now) = 0"
  by (simp_all add: new_package_def)

lemma keeps_CreatePackage:
  assumes "\<forall>i. idAt env i \<noteq> []"
  shows "keeps enroll_ok (CreatePackage env sha rng inp)"
proof (cases "validate_create inp")
  case (Inr v)
  then have org: "cp_OrganizationID inp \<noteq> []" by (auto simp: validate_create_def split: if_splits)
  have body: "keeps enroll_ok (bindE (NewID env) (\<lambda>i. let pkg = new_package inp i now in
      bindE (WithTx env (bindE (pkg_Create env pkg hash) (\<lambda>_. Record env (created_event inp pkg)))) (\<lambda>_.
      retE \<lparr>co_Package = pkg, co_BootstrapSecret = plaintext\<rparr>)))" for now hash plaintext
  proof (rule keepsI)
    fix s r s' assume ok: "enroll_ok s" and run: "bindE (NewID env) (\<lambda>i. let pkg = new_package inp i now in
      bindE (WithTx env (bindE (pkg_Create env pkg hash) (\<lambda>_. Record env (created_event inp pkg)))) (\<lambda>_.
      retE \<lparr>co_Package = pkg, co_BootstrapSecret = plaintext\<rparr>)) s = (r, s')"
    let ?p = "new_package inp (idAt env (w_ids s)) now" and ?s = "s\<lparr>w_ids := Suc (w_ids s)\<rparr>"
    have k: "keeps enroll_ok (bindE (WithTx env (bindE (pkg_Create env ?p hash) (\<lambda>_. Record env (created_event inp ?p)))) (\<lambda>_.
      retE \<lparr>co_Package = ?p, co_BootstrapSecret = plaintext\<rparr>))"
      using assms org by (intro keep_intros keeps_transactions keeps_pkg_Create keeps_Record_ok) simp_all
    have "enroll_ok ?s" using ok enroll_ok_views(1) [of ?s] enroll_ok_views(1) [of s] by simp
    from keepsD [OF k this] run show "enroll_ok s'" by (simp add: bindE_def NewID_def Let_def)
  qed
  show ?thesis
    unfolding CreatePackage_def by (intro keep_intros body keeps_view [OF leaves_Now]) simp
next
  case (Inl e)
  then show ?thesis by (simp add: CreatePackage_def keeps_def bindE_def liftE_def)
qed

lemma revoked_ok:
  assumes "enroll_ok s" and "t_packages s' = update_where P (set_package (revoked_columns u reason at)) (t_packages s)" "t_agents s' = t_agents s"
  shows "enroll_ok s'"
proof -
  note keys = keeps_keys_map [OF keeps_keys_set_package(1), of P u reason at "t_packages s"]
  have ids: "(\<lambda>p. dp_ID (pr_package p)) ` set (t_packages s') = (\<lambda>p. dp_ID (pr_package p)) ` set (t_packages s)"
    using arg_cong [OF keys(1), of set] assms(2) by simp
  have "\<exists>q \<in> set (t_packages s). dp_ID (pr_package r) = dp_ID (pr_package q) \<and> dp_OrganizationID (pr_package r) = dp_OrganizationID (pr_package q) \<and>
      dp_UsesCount (pr_package r) = dp_UsesCount (pr_package q) \<and> dp_MaxUses (pr_package r) = dp_MaxUses (pr_package q)"
    if "r \<in> set (t_packages s')" for r
    using that assms(2) by (force simp: update_where_def set_package_def revoked_columns_def)
  then have "packages_ok s'" using assms(1,3) keys assms(2) unfolding enroll_ok_def packages_ok_def by (metis (no_types, lifting))
  moreover have "agents_ok s'" using assms(1,3) ids unfolding enroll_ok_def agents_ok_def by metis
  ultimately show ?thesis by (simp add: enroll_ok_def)
qed

lemma keeps_pkg_Revoke: "keeps enroll_ok (pkg_Revoke env i org u reason at)"
  unfolding pkg_Revoke_def by (rule keeps_exec_hit) (auto intro: revoked_ok)

lemma keeps_RevokePackage: "keeps enroll_ok (RevokePackage env inp)"
  unfolding RevokePackage_def revoke_tx_def GetByIDAndOrg_def
  by (intro keep_intros keeps_transactions keeps_pkg_Revoke keeps_Record_ok keeps_ok_tables [OF tables_read [OF leaves_first_package]]
      keeps_view [OF leaves_Now]) simp_all

lemma beat_ok:
  assumes "enroll_ok s" and "t_packages s' = t_packages s" and "t_agents s' = update_where P (\<lambda>r. r\<lparr>ar_agent := beat v h at (ar_agent r)\<rparr>) (t_agents s)"
  shows "enroll_ok s'"
proof -
  let ?f = "\<lambda>r. r\<lparr>ar_agent := beat v h at (ar_agent r)\<rparr>"
  have k: "map g (t_agents s') = map g (t_agents s)" if "\<And>r. g (?f r) = g r" for g :: "AgentRow \<Rightarrow> 'k"
    using assms(3) that by (simp add: map_update_where)
  have keys: "map (\<lambda>r. ag_ID (ar_agent r)) (t_agents s') = map (\<lambda>r. ag_ID (ar_agent r)) (t_agents s)"
    "map ar_credential_hash (t_agents s') = map ar_credential_hash (t_agents s)"
    "map (\<lambda>r. (ag_OrganizationID (ar_agent r), ag_InstallID (ar_agent r))) (t_agents s') = map (\<lambda>r. (ag_OrganizationID (ar_agent r), ag_InstallID (ar_agent r))) (t_agents s)"
    "map (\<lambda>r. ag_DeploymentPackageID (ar_agent r)) (t_agents s') = map (\<lambda>r. ag_DeploymentPackageID (ar_agent r)) (t_agents s)"
    by (rule k; simp add: beat_def)+
  have "length (filter (\<lambda>i. i = x) (map (\<lambda>r. ag_DeploymentPackageID (ar_agent r)) (t_agents s'))) = length (filter (\<lambda>i. i = x) (map (\<lambda>r. ag_DeploymentPackageID (ar_agent r)) (t_agents s)))" for x
    unfolding keys(4) by (rule refl)
  then have n: "package_enrolled x (t_agents s') = package_enrolled x (t_agents s)" for x
    unfolding package_enrolled_def filter_map length_map comp_def by simp
  have "packages_ok s'" using assms(1) unfolding enroll_ok_def packages_ok_def assms(2) n by blast
  moreover have "agents_ok s'"
  proof -
    have "(\<lambda>r. ag_DeploymentPackageID (ar_agent r)) ` set (t_agents s') = (\<lambda>r. ag_DeploymentPackageID (ar_agent r)) ` set (t_agents s)"
      using arg_cong [OF keys(4), of set] by simp
    then show ?thesis using assms(1,2) unfolding enroll_ok_def agents_ok_def keys(1-3) by (metis (no_types, lifting) image_iff)
  qed
  ultimately show ?thesis by (simp add: enroll_ok_def)
qed

lemma keeps_RecordHeartbeat: "keeps enroll_ok (RecordHeartbeat env inp)"
  unfolding RecordHeartbeat_def UpdateHeartbeat_def
  by (intro keep_intros keeps_exec_hit keeps_view [OF leaves_Now]) (auto intro: beat_ok)

end
