(* ===== verification/EnrollRace.thy ===== *)
theory EnrollRace imports EnrollBooks begin

text \<open>
  Enrollment requests interleaved with each other and with every other operation of the service, as a
  step relation; what later states keep of earlier ones; and the invariant that ties the successful
  requests to the agents of the table.
\<close>

section \<open>Interleavings\<close>

text \<open>
  An enrollment request is two steps of the database: the lookup with its early check, and, from what
  it saw, the transaction. Between them anything may happen: other requests, new packages, revocations,
  heartbeats, authentications.
\<close>

datatype enrolling =
    Arriving EnrollAgentInput string
  | Admitted EnrollAgentInput string DeploymentPackage Time
  | Finished "err + EnrollAgentOutput"

type_synonym 'z race_state = "enrolling list \<times> 'z enroll_db_scheme"

inductive race :: "env \<Rightarrow> (string \<Rightarrow> string) \<Rightarrow> 'z race_state \<Rightarrow> 'z race_state \<Rightarrow> bool" for env sha where
  arrive: "race env sha (ts, s) (ts @ [Arriving inp rng], s)"
| admit: "i < length ts \<Longrightarrow> ts ! i = Arriving inp rng \<Longrightarrow> enroll_lookup env sha inp s = (Inr (pkg, now), s') \<Longrightarrow>
    race env sha (ts, s) (ts[i := Admitted inp rng pkg now], s')"
| refuse: "i < length ts \<Longrightarrow> ts ! i = Arriving inp rng \<Longrightarrow> enroll_lookup env sha inp s = (Inl e, s') \<Longrightarrow>
    race env sha (ts, s) (ts[i := Finished (Inl e)], s')"
| commit: "i < length ts \<Longrightarrow> ts ! i = Admitted inp rng pkg now \<Longrightarrow> enroll_admitted env sha rng inp pkg now s = (r, s') \<Longrightarrow>
    race env sha (ts, s) (ts[i := Finished r], s')"
| create: "CreatePackage env sha rng inp' s = (q, s') \<Longrightarrow> race env sha (ts, s) (ts, s')"
| revoke: "RevokePackage env rinp s = (q', s') \<Longrightarrow> race env sha (ts, s) (ts, s')"
| heartbeat: "RecordHeartbeat env hb s = (q'', s') \<Longrightarrow> race env sha (ts, s) (ts, s')"
| authenticate: "AuthenticateAgent env sha ainp s = (a, s') \<Longrightarrow> race env sha (ts, s) (ts, s')"

inductive_cases raceE: "race env sha (ts, s) (ts', s')"

fun success :: "enrolling \<Rightarrow> EnrollAgentOutput list" where
  "success (Finished (Inr out)) = [out]"
| "success _ = []"

definition successes :: "enrolling list \<Rightarrow> EnrollAgentOutput list" where
  "successes ts = concat (map success ts)"

subsection \<open>One step on the tables\<close>

text \<open>What any step does to the tables: nothing, one enrollment, or a write of the operators.\<close>

definition enrolls :: "(string \<Rightarrow> string) \<Rightarrow> EnrollAgentOutput \<Rightarrow> Time \<Rightarrow> 'z enroll_db_scheme \<Rightarrow> 'z enroll_db_scheme \<Rightarrow> bool" where
  "enrolls sha out now s s' \<longleftrightarrow>
     (\<exists>p \<in> set (t_packages s). usable (ag_DeploymentPackageID (eo_Agent out)) now p) \<and>
     (\<forall>x \<in> set (t_agents s). \<not> agent_conflict (eo_Agent out) (sha (eo_AgentCredential out)) x) \<and>
     t_packages s' = update_where (usable (ag_DeploymentPackageID (eo_Agent out)) now) (set_package (used_once now)) (t_packages s) \<and>
     t_agents s' = t_agents s @ [\<lparr>ar_agent = inserted_agent (eo_Agent out), ar_credential_hash = sha (eo_AgentCredential out)\<rparr>]"

lemma generateBearerToken_Inr: "generateBearerToken sha rng = Inr (c, h) \<Longrightarrow> h = sha c \<and> c = RawURLEncode (take 32 rng) \<and> 32 \<le> length rng"
  by (auto simp: generateBearerToken_def ReadFull_def bearerTokenBytes_def Let_def split: if_splits)

lemma enroll_admitted_Inr:
  assumes "enroll_admitted env sha rng inp pkg now s = (Inr out, s')"
  shows "enrolls sha out now s s' \<and> eo_Agent out = new_agent sha inp pkg (idAt env (w_ids s)) now \<and> eo_OrganizationID out = dp_OrganizationID pkg \<and>
    eo_AgentCredential out = RawURLEncode (take 32 rng) \<and> 32 \<le> length rng \<and>
    (\<exists>r. same_event r (enrolled_event inp pkg (eo_Agent out)) \<and> audit_events s' = audit_events s @ [r])"
proof -
  obtain c h where g: "generateBearerToken sha rng = Inr (c, h)"
    using assms by (auto simp: enroll_admitted_def run_simps)
  let ?s = "s\<lparr>w_ids := Suc (w_ids s)\<rparr>" and ?a = "new_agent sha inp pkg (idAt env (w_ids s)) now"
  obtain r s1 where t1: "enroll_tx env inp pkg ?a h now ?s = (r, s1)" by (cases "enroll_tx env inp pkg ?a h now ?s")
  then obtain u where u: "r = Inr u" and out: "out = \<lparr>eo_Agent = ?a, eo_AgentCredential = c, eo_OrganizationID = dp_OrganizationID pkg\<rparr>" and s': "s' = s1"
    using assms by (cases r) (auto simp: enroll_admitted_def g liftE_def bindE_def NewID_def tryE_def Let_def retE_def enroll_failed_never)
  have t: "enroll_tx env inp pkg ?a h now ?s = (Inr u, s1)" using t1 u by simp
  show ?thesis
    using enroll_tx_Inr [OF t] generateBearerToken_Inr [OF g] by (auto simp: out s' enrolls_def new_agent_def)
qed

lemma enroll_admitted_Inl:
  assumes "enroll_admitted env sha rng inp pkg now s = (Inl e, s')"
  shows "enroll_tables s' = enroll_tables s"
proof (cases "generateBearerToken sha rng")
  case (Inl e)
  then show ?thesis using assms by (auto simp: enroll_admitted_def bindE_def liftE_def)
next
  case (Inr ch)
  obtain c h where ch: "ch = (c, h)" by (cases ch)
  let ?s = "s\<lparr>w_ids := Suc (w_ids s)\<rparr>" and ?a = "new_agent sha inp pkg (idAt env (w_ids s)) now"
  obtain r s1 where t: "enroll_tx env inp pkg ?a h now ?s = (r, s1)" by (cases "enroll_tx env inp pkg ?a h now ?s")
  then obtain e1 where r: "r = Inl e1" and m: "enroll_failed env pkg inp e1 s1 = ((Inl e :: err + EnrollAgentOutput), s')"
    using assms by (cases r) (auto simp: enroll_admitted_def Inr ch liftE_def bindE_def NewID_def tryE_def Let_def retE_def)
  have "enroll_tables s' = enroll_tables s1" by (rule leavesD [OF tables_enroll_failed m])
  moreover have "db_of s1 = db_of ?s" using t r unfolding enroll_tx_def by (metis tx.rolls_back)
  then have "enroll_tables s1 = enroll_tables s" by (metis enroll_tables_views(1) db_of_counters(2))
  ultimately show ?thesis by simp
qed


subsection \<open>What later states keep\<close>

text \<open>Rows are never lost: an agent keeps what identifies it, a package its keys, and a revoked package everything.\<close>

definition agent_identity :: "AgentRow \<Rightarrow> string \<times> string \<times> string \<times> AgentStatus \<times> string" where
  "agent_identity r = (ag_ID (ar_agent r), ag_OrganizationID (ar_agent r), ag_DeploymentPackageID (ar_agent r), ag_Status (ar_agent r), ar_credential_hash r)"

definition package_key :: "PackageRow \<Rightarrow> string \<times> string \<times> string \<times> int" where
  "package_key r = (dp_ID (pr_package r), dp_OrganizationID (pr_package r), pr_bootstrap_secret_hash r, dp_MaxUses (pr_package r))"

definition later :: "'z enroll_db_scheme \<Rightarrow> 'z enroll_db_scheme \<Rightarrow> bool" where
  "later s s' \<longleftrightarrow> agent_identity ` set (t_agents s) \<subseteq> agent_identity ` set (t_agents s') \<and>
     (\<forall>r \<in> set (t_packages s). \<exists>r' \<in> set (t_packages s'). package_key r' = package_key r \<and> (dp_RevokedAt (pr_package r) \<noteq> None \<longrightarrow> r' = r))"

lemma later_trans: "later s t \<Longrightarrow> later t u \<Longrightarrow> later s u"
  unfolding later_def by (metis (no_types, lifting) subset_trans)

lemma later_refl: "later s s"
  by (auto simp: later_def)

lemma later_tables: "enroll_tables s' = enroll_tables s \<Longrightarrow> later s s'"
  by (auto simp: later_def enroll_tables_def)

lemma later_update:
  assumes "t_agents s' = t_agents s" and "t_packages s' = update_where P f (t_packages s)"
    and "keeps_keys f" and "\<And>r. P r \<Longrightarrow> dp_RevokedAt (pr_package r) = None"
  shows "later s s'"
proof -
  have "package_key (f r) = package_key r" for r using assms(3) by (simp add: keeps_keys_def package_key_def)
  then have "\<exists>r' \<in> set (t_packages s'). package_key r' = package_key r \<and> (dp_RevokedAt (pr_package r) \<noteq> None \<longrightarrow> r' = r)"
    if "r \<in> set (t_packages s)" for r
    using that assms(2,4) by (intro bexI [of _ "if P r then f r else r"]) (auto simp: update_where_def)
  then show ?thesis using assms(1) by (simp add: later_def)
qed

lemma enrolls_later: "enrolls sha out now s s' \<Longrightarrow> later s s'"
proof -
  assume e: "enrolls sha out now s s'"
  let ?t = "s\<lparr>t_packages := t_packages s'\<rparr>"
  have "later s ?t" using e by (intro later_update [where P = "usable (ag_DeploymentPackageID (eo_Agent out)) now" and f = "set_package (used_once now)"])
    (auto simp: enrolls_def usable_def)
  moreover have "later ?t s'" using e by (auto simp: later_def enrolls_def)
  ultimately show ?thesis by (rule later_trans)
qed

lemma later_append:
  "t_agents s' = t_agents s \<Longrightarrow> t_packages s' = t_packages s @ x \<Longrightarrow> later s s'"
  by (auto simp: later_def)

lemma later_beat:
  assumes "t_packages s' = t_packages s" and "t_agents s' = update_where P (\<lambda>r. r\<lparr>ar_agent := beat v h at (ar_agent r)\<rparr>) (t_agents s)"
  shows "later s s'"
proof -
  have "map agent_identity (t_agents s') = map agent_identity (t_agents s)"
    using assms(2) by (simp add: map_update_where agent_identity_def beat_def)
  from arg_cong [OF this, of set] show ?thesis using assms(1) by (auto simp: later_def)
qed

text \<open>As an invariant of a program: the tables stay later than those it started from.\<close>

lemma later_views [simp]: "later s (db_of t) = later s t" "later s (stepped t) = later s t"
  by (simp_all add: later_def)

lemma keeps_later_tables: "leaves enroll_tables m \<Longrightarrow> keeps (later s0) m"
  by (rule keepsI) (metis leavesD later_tables later_trans)

lemma keeps_later_hit:
  assumes "\<And>s. later (stepped s) (f (stepped s))"
  shows "keeps (later s0) (exec_hit env e hit f)"
proof (rule keeps_exec_hit)
  show "later s0 (f (stepped s))" if "later s0 s" for s
    using that assms [of s] by (metis later_views(2) later_trans)
qed simp

lemmas keeps_later_reads = keeps_later_tables [OF tables_Record] keeps_later_tables [OF tables_read [OF leaves_first_package]]
  keeps_later_tables [OF tables_read [OF leaves_Now]] keeps_later_tables [OF tables_read [OF leaves_NewID]]

lemma keeps_later_CreatePackage: "keeps (later s0) (CreatePackage env sha rng inp)"
  unfolding CreatePackage_def pkg_Create_def Let_def
  by (intro keep_intros keeps_transactions keeps_later_reads keeps_later_hit later_append) simp_all

lemma keeps_later_pkg_Revoke: "keeps (later s0) (pkg_Revoke env i org u reason at)"
  unfolding pkg_Revoke_def
  by (intro keeps_later_hit later_update [where P = "\<lambda>r. is_package i org r \<and> dp_RevokedAt (pr_package r) = None"
      and f = "set_package (revoked_columns u reason at)"]) simp_all

lemma keeps_later_RevokePackage: "keeps (later s0) (RevokePackage env inp)"
  unfolding RevokePackage_def revoke_tx_def GetByIDAndOrg_def
  by (intro keep_intros keeps_transactions keeps_later_reads keeps_later_pkg_Revoke) simp_all

lemma keeps_later_RecordHeartbeat: "keeps (later s0) (RecordHeartbeat env inp)"
  unfolding RecordHeartbeat_def UpdateHeartbeat_def
  by (intro keep_intros keeps_later_reads keeps_later_hit later_beat) simp_all

lemma keeps_later_enroll_admitted: "keeps (later s0) (enroll_admitted env sha rng inp pkg now)"
proof (rule keepsI)
  fix s r s' assume l: "later s0 s" and run: "enroll_admitted env sha rng inp pkg now s = (r, s')"
  have "later s s'"
  proof (cases r)
    case (Inl e)
    then show ?thesis using enroll_admitted_Inl [where s = s and s' = s'] run by (intro later_tables) blast
  next
    case (Inr out)
    then show ?thesis using enroll_admitted_Inr [where s = s and s' = s'] run by (intro enrolls_later) blast
  qed
  with l show "later s0 s'" by (rule later_trans)
qed

lemmas runs_later = keepsD [OF keeps_later_tables [OF tables_enroll_lookup] later_refl] keepsD [OF keeps_later_enroll_admitted later_refl]
  keepsD [OF keeps_later_CreatePackage later_refl] keepsD [OF keeps_later_RevokePackage later_refl]
  keepsD [OF keeps_later_RecordHeartbeat later_refl] keepsD [OF keeps_later_tables [OF tables_AuthenticateAgent] later_refl]

lemma race_later: "race env sha (ts, s) (ts', s') \<Longrightarrow> later s s'"
  by (erule raceE) (auto intro: later_refl dest: runs_later)

lemma races_later: "(race env sha)\<^sup>*\<^sup>* (ts, s) (ts', s') \<Longrightarrow> later s s'"
proof (induction "(ts', s')" arbitrary: ts' s' rule: rtranclp_induct)
  case base
  show ?case by (rule later_tables) simp
next
  case (step y)
  then show ?case using race_later later_trans by (metis prod.collapse)
qed


section \<open>The bound\<close>

definition enrolled_row :: "(string \<Rightarrow> string) \<Rightarrow> EnrollAgentOutput \<Rightarrow> string \<times> string \<times> string \<times> AgentStatus \<times> string" where
  "enrolled_row sha out = agent_identity \<lparr>ar_agent = eo_Agent out, ar_credential_hash = sha (eo_AgentCredential out)\<rparr>"

text \<open>The books hold, and every successful request has its own agent.\<close>

definition race_inv :: "(string \<Rightarrow> string) \<Rightarrow> 'z race_state \<Rightarrow> bool" where
  "race_inv sha x \<longleftrightarrow> enroll_ok (snd x) \<and> distinct (map (\<lambda>out. ag_ID (eo_Agent out)) (successes (fst x))) \<and>
     enrolled_row sha ` set (successes (fst x)) \<subseteq> agent_identity ` set (t_agents (snd x))"

lemma successes_split:
  assumes "i < length ts" and "success (ts ! i) = []"
  shows "mset (successes (ts[i := t])) = mset (success t) + mset (successes ts)"
proof -
  have "successes ts = successes (take i ts @ ts ! i # drop (Suc i) ts)" using assms(1) by (simp add: id_take_nth_drop [symmetric])
  then have "mset (successes ts) = mset (successes (take i ts)) + mset (successes (drop (Suc i) ts))" using assms(2) by (simp add: successes_def)
  then show ?thesis using assms(1) by (simp add: successes_def upd_conv_take_nth_drop)
qed

lemma race_rows:
  "race_inv sha (ts, s) \<Longrightarrow> later s s' \<Longrightarrow> enrolled_row sha ` set (successes ts) \<subseteq> agent_identity ` set (t_agents s')"
  unfolding race_inv_def later_def by (elim conjE, erule subset_trans [rotated]) simp

lemma race_inv_cong:
  "mset (successes ts) = mset (successes ts') \<Longrightarrow> race_inv sha (ts, s) \<Longrightarrow> later s s' \<Longrightarrow> enroll_ok s' \<Longrightarrow> race_inv sha (ts', s')"
proof -
  assume m: "mset (successes ts) = mset (successes ts')" and r: "race_inv sha (ts, s)" "later s s'" "enroll_ok s'"
  have "mset (map (\<lambda>out. ag_ID (eo_Agent out)) (successes ts)) = mset (map (\<lambda>out. ag_ID (eo_Agent out)) (successes ts'))" using m by simp
  then have "distinct (map (\<lambda>out. ag_ID (eo_Agent out)) (successes ts')) = distinct (map (\<lambda>out. ag_ID (eo_Agent out)) (successes ts))"
    by (metis mset_eq_imp_distinct_iff)
  moreover have "enrolled_row sha ` set (successes ts') \<subseteq> agent_identity ` set (t_agents s')"
    using r(1,2) mset_eq_setD [OF m] race_rows by metis
  ultimately show ?thesis using r unfolding race_inv_def by simp
qed

lemma race_inv_enrolls:
  assumes inv: "race_inv sha (ts, s)" and e: "enrolls sha out now s s'" and ok: "enroll_ok s'"
    and i: "i < length ts" "success (ts ! i) = []"
  shows "race_inv sha (ts[i := Finished (Inr out)], s')"
proof -
  let ?ids = "\<lambda>ts. map (\<lambda>out. ag_ID (eo_Agent out)) (successes ts)"
  have m: "mset (successes (ts[i := Finished (Inr out)])) = mset (out # successes ts)" using successes_split [OF i, of "Finished (Inr out)"] by simp
  have "ag_ID (eo_Agent out) \<notin> (\<lambda>r. ag_ID (ar_agent r)) ` set (t_agents s)"
    using e by (auto simp: enrolls_def agent_conflict_def)
  moreover have "(\<lambda>out. ag_ID (eo_Agent out)) ` set (successes ts) \<subseteq> (\<lambda>r. ag_ID (ar_agent r)) ` set (t_agents s)"
  proof -
    have "fst ` enrolled_row sha ` set (successes ts) \<subseteq> fst ` agent_identity ` set (t_agents s)"
      using inv unfolding race_inv_def by (intro image_mono) simp
    then show ?thesis unfolding image_image by (simp add: enrolled_row_def agent_identity_def)
  qed
  ultimately have fresh: "ag_ID (eo_Agent out) \<notin> (\<lambda>out. ag_ID (eo_Agent out)) ` set (successes ts)" by blast
  have "mset (?ids (ts[i := Finished (Inr out)])) = mset (ag_ID (eo_Agent out) # ?ids ts)" using m by simp
  then have "distinct (?ids (ts[i := Finished (Inr out)])) = distinct (ag_ID (eo_Agent out) # ?ids ts)" by (rule mset_eq_imp_distinct_iff)
  moreover have "agent_identity \<lparr>ar_agent = inserted_agent (eo_Agent out), ar_credential_hash = sha (eo_AgentCredential out)\<rparr> = enrolled_row sha out"
    by (simp add: enrolled_row_def agent_identity_def inserted_agent_def)
  then have "enrolled_row sha out \<in> agent_identity ` set (t_agents s')" using e by (auto simp: enrolls_def)
  moreover note race_rows [OF inv enrolls_later [OF e]]
  ultimately show ?thesis using inv ok fresh mset_eq_setD [OF m] unfolding race_inv_def by simp
qed

lemma race_ok:
  assumes "\<forall>i. idAt env i \<noteq> []" and "race env sha x y" and "enroll_ok (snd x)"
  shows "enroll_ok (snd y)"
  using assms(2,3)
  by (induction rule: race.induct)
    (auto dest: keepsD [OF keeps_ok_tables [OF tables_enroll_lookup]] keepsD [OF keeps_enroll_admitted] keepsD [OF keeps_CreatePackage [OF assms(1)]]
      keepsD [OF keeps_RevokePackage] keepsD [OF keeps_RecordHeartbeat] keepsD [OF keeps_ok_tables [OF tables_AuthenticateAgent]])

lemma races_ok:
  "(race env sha)\<^sup>*\<^sup>* x y \<Longrightarrow> \<forall>i. idAt env i \<noteq> [] \<Longrightarrow> enroll_ok (snd x) \<Longrightarrow> enroll_ok (snd y)"
  by (induction rule: rtranclp_induct) (auto intro: race_ok)

lemma race_keeps_inv:
  assumes ids: "\<forall>i. idAt env i \<noteq> []" and step: "race env sha x y" and inv: "race_inv sha x"
  shows "race_inv sha y"
proof -
  obtain ts s ts' s' where xy: "x = (ts, s)" "y = (ts', s')" by (cases x; cases y)
  have ok: "enroll_ok s'" using race_ok [OF ids step] inv xy by (simp add: race_inv_def)
  have l: "later s s'" using race_later step xy by blast
  have "race_inv sha (ts, s) \<Longrightarrow> later s s' \<Longrightarrow> enroll_ok s' \<Longrightarrow> race_inv sha (ts', s')" using step unfolding xy
  proof (cases rule: race.cases)
    case (arrive inp rng)
    then show ?thesis using inv xy by (simp add: race_inv_def successes_def)
  next
    case (commit i inp rng pkg now r)
    show ?thesis
    proof (cases r)
      case (Inl e)
      then show ?thesis using race_inv_cong [of ts ts' sha s s'] successes_split [OF commit(2)] commit inv l ok xy by simp
    next
      case (Inr out)
      from enroll_admitted_Inr [OF commit(4) [unfolded Inr]] have "enrolls sha out now s s'" by blast
      then show ?thesis using race_inv_enrolls [of sha ts s out now s' i] commit Inr inv ok xy by simp
    qed
  qed (use race_inv_cong [of ts ts' sha s s'] successes_split [of _ ts] in simp_all)
  then show ?thesis using inv l ok xy by simp
qed

lemma races_inv:
  "(race env sha)\<^sup>*\<^sup>* x y \<Longrightarrow> \<forall>i. idAt env i \<noteq> [] \<Longrightarrow> race_inv sha x \<Longrightarrow> race_inv sha y"
  by (induction rule: rtranclp_induct) (auto intro: race_keeps_inv)


end
