(* ===== verification/EnrollOps.thy ===== *)
theory EnrollOps imports EnrollRace begin

text \<open>
  The theorems on enrollment: the bound on the uses of a package, the life of a credential, the end of a
  revoked package, and the exact conditions of an enrollment and of an authentication.
\<close>

section \<open>The bound on enrollments\<close>

text \<open>
  C2: However requests, new packages, revocations, heartbeats and authentications interleave, the uses of a package are its agents and
  never exceed its limit, and no more requests succeed through it than its uses count: the early check may be stale, the
  transaction is not.
\<close>

theorem enrollments_bounded:
  assumes "(race env sha)\<^sup>*\<^sup>* ([], s0) (ts, s)" and "enroll_ok s0" and "\<forall>i. idAt env i \<noteq> []"
  shows "enroll_ok s \<and> (\<forall>p \<in> set (t_packages s).
    int (length (filter (\<lambda>out. ag_DeploymentPackageID (eo_Agent out) = dp_ID (pr_package p)) (successes ts))) \<le> dp_UsesCount (pr_package p) \<and>
    dp_UsesCount (pr_package p) = package_enrolled (dp_ID (pr_package p)) (t_agents s) \<and>
    dp_UsesCount (pr_package p) \<le> dp_MaxUses (pr_package p))"
proof (intro conjI ballI)
  have inv: "race_inv sha (ts, s)" by (rule races_inv [OF assms(1,3)]) (use assms(2) in \<open>simp add: race_inv_def successes_def\<close>)
  then show ok: "enroll_ok s" by (simp add: race_inv_def)
  fix p assume p: "p \<in> set (t_packages s)"
  let ?i = "dp_ID (pr_package p)"
  let ?outs = "filter (\<lambda>out. ag_DeploymentPackageID (eo_Agent out) = ?i) (successes ts)"
  let ?rows = "filter (\<lambda>r. ag_DeploymentPackageID (ar_agent r) = ?i) (t_agents s)"
  show eq: "dp_UsesCount (pr_package p) = package_enrolled ?i (t_agents s)" and "dp_UsesCount (pr_package p) \<le> dp_MaxUses (pr_package p)"
    using ok p unfolding enroll_ok_def packages_ok_def by blast+
  have "(\<lambda>out. ag_ID (eo_Agent out)) ` set ?outs \<subseteq> (\<lambda>r. ag_ID (ar_agent r)) ` set ?rows"
  proof
    fix x assume "x \<in> (\<lambda>out. ag_ID (eo_Agent out)) ` set ?outs"
    then obtain out where o: "out \<in> set (successes ts)" "ag_DeploymentPackageID (eo_Agent out) = ?i" "x = ag_ID (eo_Agent out)" by auto
    then have "enrolled_row sha out \<in> agent_identity ` set (t_agents s)" using inv unfolding race_inv_def by auto
    with o show "x \<in> (\<lambda>r. ag_ID (ar_agent r)) ` set ?rows" by (auto simp: enrolled_row_def agent_identity_def)
  qed
  then have "card ((\<lambda>out. ag_ID (eo_Agent out)) ` set ?outs) \<le> length ?rows"
    by (metis (no_types, lifting) List.finite_set card_image_le card_length card_mono finite_imageI le_trans)
  moreover have "distinct (map (\<lambda>out. ag_ID (eo_Agent out)) ?outs)" using inv by (simp add: race_inv_def distinct_map_filter)
  then have "card ((\<lambda>out. ag_ID (eo_Agent out)) ` set ?outs) = length ?outs" by (metis distinct_card length_map set_map)
  ultimately show "int (length ?outs) \<le> dp_UsesCount (pr_package p)" unfolding eq package_enrolled_def by simp
qed

section \<open>Credentials\<close>

lemma TrimSpace_nonblank: "c \<in> set s \<Longrightarrow> \<not> isSpace c \<Longrightarrow> TrimSpace s \<noteq> []"
  by (auto simp: TrimSpace_def dropWhile_eq_Nil_conv) (metis in_set_conv_decomp dropWhile_append3 hd_dropWhile set_ConsD append_is_Nil_conv list.distinct(1) Un_iff set_append)

lemma b64_not_space: "\<not> isSpace (b64_char n)" if "0 \<le> n" "n < 64"
proof
  assume "isSpace (b64_char n)"
  then have "b64_value (b64_char n) = None" by (auto simp: isSpace_def b64_value_def)
  with b64_inverse [OF that] show False by simp
qed

lemma RawURLEncode_nonblank: "s \<noteq> [] \<Longrightarrow> TrimSpace (RawURLEncode s) \<noteq> []"
proof -
  assume "s \<noteq> []"
  then obtain n ns where "sextets_of s = n # ns" by (cases s rule: sextets_of.cases) (auto simp: Let_def)
  moreover from this have "\<not> isSpace (b64_char n)" using sextets_range [of s] by (intro b64_not_space) auto
  ultimately show ?thesis by (intro TrimSpace_nonblank [of "b64_char n"]) (simp_all add: encode_sextets)
qed

lemma FindByCredentialHash_ok:
  assumes "no_faults env" and "enroll_ok s" and "r \<in> set (t_agents s)" and "ar_credential_hash r = h"
  shows "FindByCredentialHash env h s = (Inr (ar_agent r), stepped s)"
proof -
  have "find (\<lambda>x. ar_credential_hash x = ar_credential_hash r) (t_agents s) = Some r"
    using assms(2,3) by (intro find_key_distinct) (simp_all add: enroll_ok_def agents_ok_def)
  then show ?thesis using assms(1,4) by (simp add: FindByCredentialHash_def bindE_def db_query_ok retE_def)
qed

lemma AuthenticateAgent_accepts:
  assumes "no_faults env" and "enroll_ok s" and "r \<in> set (t_agents s)" and "ar_credential_hash r = sha (ain_AgentCredential inp)"
    and "ag_Status (ar_agent r) = AgentStatusActive" and "ain_HeaderRejection inp = []" and "TrimSpace (ain_AgentCredential inp) \<noteq> []"
  shows "AuthenticateAgent env sha inp s = (Inr (agent_principal (ar_agent r)), stepped s)"
  using FindByCredentialHash_ok [OF assms(1,2,3,4)] assms(5-7)
  by (simp add: AuthenticateAgent_def bindE_def tryE_def hashBearerToken_def retE_def)

lemma EnrollAgent_Inr:
  assumes "EnrollAgent env sha rng inp s = (Inr out, s')"
  shows "\<exists>pkg now s1. enroll_lookup env sha inp s = (Inr (pkg, now), s1) \<and> enroll_admitted env sha rng inp pkg now s1 = (Inr out, s')"
  using assms by (auto simp: EnrollAgent_def bindE_Inr)

text \<open>
  C8: The credential an enrollment returned authenticates its agent from then on, whatever else happens to the tables.
\<close>

theorem credential_lasts:
  assumes "EnrollAgent env sha rng inp s = (Inr out, s1)" and "(race env sha)\<^sup>*\<^sup>* (ts, s1) (ts', s2)"
    and "enroll_ok s" and "\<forall>i. idAt env i \<noteq> []" and "no_faults env"
    and "ain_AgentCredential ainp = eo_AgentCredential out" and "ain_HeaderRejection ainp = []"
  shows "\<exists>p s3. AuthenticateAgent env sha ainp s2 = (Inr p, s3) \<and> aa_AgentID p = ag_ID (eo_Agent out) \<and>
    aa_OrganizationID p = eo_OrganizationID out \<and> aa_DeploymentPackageID p = ag_DeploymentPackageID (eo_Agent out) \<and> aa_Status p = AgentStatusActive"
proof -
  from EnrollAgent_Inr [OF assms(1)] obtain pkg now s0 where l: "enroll_lookup env sha inp s = (Inr (pkg, now), s0)"
    and a: "enroll_admitted env sha rng inp pkg now s0 = (Inr out, s1)" by blast
  note out = enroll_admitted_Inr [OF a]
  have ok0: "enroll_ok s0" using keepsD [OF keeps_ok_tables [OF tables_enroll_lookup] assms(3) l] .
  have "enroll_ok s1" using keepsD [OF keeps_enroll_admitted ok0 a] .
  then have ok: "enroll_ok s2" using races_ok [OF assms(2,4)] by simp
  have "agent_identity \<lparr>ar_agent = inserted_agent (eo_Agent out), ar_credential_hash = sha (eo_AgentCredential out)\<rparr> \<in> agent_identity ` set (t_agents s1)"
    using out by (auto simp: enrolls_def)
  then have "agent_identity \<lparr>ar_agent = inserted_agent (eo_Agent out), ar_credential_hash = sha (eo_AgentCredential out)\<rparr> \<in> agent_identity ` set (t_agents s2)"
    using races_later [OF assms(2)] unfolding later_def by blast
  then obtain r where r: "r \<in> set (t_agents s2)" and id: "agent_identity r = agent_identity \<lparr>ar_agent = inserted_agent (eo_Agent out), ar_credential_hash = sha (eo_AgentCredential out)\<rparr>"
    by auto
  have "take 32 rng \<noteq> []" using out by auto
  then have "TrimSpace (ain_AgentCredential ainp) \<noteq> []" using RawURLEncode_nonblank assms(6) out by metis
  with AuthenticateAgent_accepts [OF assms(5) ok r, of sha ainp] id assms(6,7) out show ?thesis
    by (simp add: agent_identity_def inserted_agent_def new_agent_def agent_principal_def)
qed

section \<open>Revocation\<close>

text \<open>What a revocation does: nothing to a revoked package, else one row and one audit event.\<close>

definition revoke_outcome :: "RevokePackageInput \<Rightarrow> PackageRow \<Rightarrow> 'z enroll_db_scheme \<Rightarrow> 'z enroll_db_scheme \<Rightarrow> RevokePackageOutput \<Rightarrow> bool" where
  "revoke_outcome inp r s s' out \<longleftrightarrow>
    (if dp_RevokedAt (pr_package r) \<noteq> None
     then out = \<lparr>ro_Package = pr_package r, ro_AlreadyRevoked = True\<rparr> \<and> db_of s' = db_of s
     else \<exists>now ev. out = \<lparr>ro_Package = revoked_columns (rv_RevokedByUserID inp) (rv_Reason inp) now (pr_package r), ro_AlreadyRevoked = False\<rparr> \<and>
       t_packages s' = update_where (\<lambda>x. is_package (rv_PackageID inp) (rv_OrganizationID inp) x \<and> dp_RevokedAt (pr_package x) = None)
         (set_package (revoked_columns (rv_RevokedByUserID inp) (rv_Reason inp) now)) (t_packages s) \<and> t_agents s' = t_agents s \<and>
       audit_events s' = audit_events s @ [ev] \<and> same_event ev (revoked_event inp (ro_Package out)))"

lemma revoke_tx_Inr:
  assumes "revoke_tx env inp s = (Inr out, s')"
  shows "\<exists>r. find (is_package (rv_PackageID inp) (rv_OrganizationID inp)) (t_packages s) = Some r \<and> revoke_outcome inp r s s' out"
proof -
  obtain pkg s1 where g: "GetByIDAndOrg env (rv_PackageID inp) (rv_OrganizationID inp) s = (Inr pkg, s1)"
    using assms by (auto simp: revoke_tx_def bindE_Inr)
  then obtain r where r: "find (is_package (rv_PackageID inp) (rv_OrganizationID inp)) (t_packages s) = Some r" and pkg: "pkg = pr_package r" and s1: "s1 = stepped s"
    by (auto simp: GetByIDAndOrg_def first_package_def run_simps split: option.splits)
  have rin: "r \<in> set (t_packages s)" and isr: "is_package (rv_PackageID inp) (rv_OrganizationID inp) r" using find_Some_D [OF r] by auto
  then have idr: "dp_ID pkg = rv_PackageID inp" by (simp add: pkg is_package_def)
  note run = assms [unfolded revoke_tx_def bindE_step_Inr [where m = "GetByIDAndOrg env (rv_PackageID inp) (rv_OrganizationID inp)", OF g]]
  show ?thesis
  proof (cases "dp_RevokedAt pkg")
    case (Some t)
    then show ?thesis using run r pkg s1 by (auto simp: retE_def revoke_outcome_def)
  next
    case None
    let ?now = "clockAt env (w_clock s)" and ?s = "s1\<lparr>w_clock := Suc (w_clock s)\<rparr>"
    have fl: "\<not> fault env (w_calls ?s)"
      using run None by (auto simp: s1 bindE_def Now_def tryE_def pkg_Revoke_def exec_hit_def db_query_def dbcall_def throwE_def stepped_def)
    have hit: "\<exists>x \<in> set (t_packages s). is_package (rv_PackageID inp) (rv_OrganizationID inp) x \<and> dp_RevokedAt (pr_package x) = None"
      using rin isr None pkg by blast
    let ?s3 = "(stepped ?s)\<lparr>t_packages := update_where (\<lambda>x. is_package (rv_PackageID inp) (rv_OrganizationID inp) x \<and> dp_RevokedAt (pr_package x) = None)
         (set_package (revoked_columns (rv_RevokedByUserID inp) (rv_Reason inp) ?now)) (t_packages s)\<rparr>"
    have rv: "pkg_Revoke env (dp_ID pkg) (rv_OrganizationID inp) (rv_RevokedByUserID inp) (rv_Reason inp) ?now ?s = (Inr (), ?s3)"
      using fl hit unfolding idr by (simp add: pkg_Revoke_def exec_hit_Inr s1)
    let ?p = "revoked_columns (rv_RevokedByUserID inp) (rv_Reason inp) ?now pkg"
    have "Record env (revoked_event inp ?p) ?s3 = (Inr (), s') \<and> out = \<lparr>ro_Package = ?p, ro_AlreadyRevoked = False\<rparr>"
      using run None rv by (auto simp: bindE_Inr tryE_Inr Now_Inr s1 retE_Inr stepped_def Let_def)
    then show ?thesis
      using Record_Inr [of env "revoked_event inp ?p" ?s3 "()" s'] leavesD [OF tables_Record, of env "revoked_event inp ?p" ?s3 "Inr ()" s'] r None pkg
      by (auto simp: enroll_tables_def s1 revoke_outcome_def)
  qed
qed


lemma revoked_row:
  assumes "RevokePackage env inp s = (Inr out, s1)"
  shows "\<exists>r \<in> set (t_packages s1). pr_package r = ro_Package out \<and> is_package (rv_PackageID inp) (rv_OrganizationID inp) r \<and> dp_RevokedAt (pr_package r) \<noteq> None"
proof -
  have "WithTx env (revoke_tx env inp) s = (Inr out, s1)" using assms by (auto simp: RevokePackage_def bindE_Inr liftE_Inr)
  from WithTx_Inr [OF this] obtain a b where a: "a = (stepped s)\<lparr>w_tx := Suc (w_tx s)\<rparr>" and run: "revoke_tx env inp a = (Inr out, b)" and s1: "s1 = stepped b" by blast
  from revoke_tx_Inr [OF run] obtain r where r: "find (is_package (rv_PackageID inp) (rv_OrganizationID inp)) (t_packages a) = Some r"
    and c: "revoke_outcome inp r a b out" by blast
  note in_a = find_Some_D [OF r]
  show ?thesis
  proof (cases "dp_RevokedAt (pr_package r)")
    case (Some t)
    then have "t_packages b = t_packages a" using c unfolding revoke_outcome_def by (metis enroll_views(1) option.distinct(1))
    then show ?thesis using c Some in_a s1 by (intro bexI [of _ r]) (simp_all add: revoke_outcome_def)
  next
    case None
    then obtain now where o: "ro_Package out = revoked_columns (rv_RevokedByUserID inp) (rv_Reason inp) now (pr_package r)"
      and t: "t_packages b = update_where (\<lambda>x. is_package (rv_PackageID inp) (rv_OrganizationID inp) x \<and> dp_RevokedAt (pr_package x) = None)
         (set_package (revoked_columns (rv_RevokedByUserID inp) (rv_Reason inp) now)) (t_packages a)" using c by (auto simp: revoke_outcome_def)
    let ?r = "set_package (revoked_columns (rv_RevokedByUserID inp) (rv_Reason inp) now) r"
    have "?r \<in> set (t_packages s1)" using in_a None unfolding s1 enroll_views t set_update_where by blast
    then show ?thesis using o in_a by (intro bexI [of _ ?r]) (simp_all add: set_package_def revoked_columns_def is_package_def)
  qed
qed

text \<open>
  C9: A revoked package stays as it was revoked: no request gets an agent through it, not even one that passed the early check before,
  and revoking it again changes and records nothing.
\<close>

theorem revocation_is_final:
  assumes "RevokePackage env inp s = (Inr out, s1)" and "(race env sha)\<^sup>*\<^sup>* (ts, s1) (ts', s2)" and "enroll_ok s" and "\<forall>i. idAt env i \<noteq> []"
  shows "dp_RevokedAt (ro_Package out) \<noteq> None \<and> (\<exists>r \<in> set (t_packages s2). pr_package r = ro_Package out) \<and>
    (\<forall>rng einp pkg now x s3. dp_ID pkg = rv_PackageID inp \<longrightarrow> enroll_admitted env sha rng einp pkg now s2 \<noteq> (Inr x, s3)) \<and>
    (\<forall>inp' x s3. rv_PackageID inp' = rv_PackageID inp \<and> RevokePackage env inp' s2 = (Inr x, s3) \<longrightarrow>
      ro_AlreadyRevoked x \<and> ro_Package x = ro_Package out \<and> db_of s3 = db_of s2)"
proof -
  from revoked_row [OF assms(1)] obtain r where r: "r \<in> set (t_packages s1)" and pr: "pr_package r = ro_Package out"
    and isr: "is_package (rv_PackageID inp) (rv_OrganizationID inp) r" and rev: "dp_RevokedAt (pr_package r) \<noteq> None" by blast
  have r2: "r \<in> set (t_packages s2)" using races_later [OF assms(2)] r rev unfolding later_def by blast
  have ok: "enroll_ok s2" using races_ok [OF assms(2,4)] keepsD [OF keeps_RevokePackage assms(3,1)] by simp
  then have inj: "inj_on (\<lambda>r. dp_ID (pr_package r)) (set (t_packages s2))" by (simp add: enroll_ok_def packages_ok_def distinct_map)
  have only: "p = r" if "p \<in> set (t_packages s2)" "dp_ID (pr_package p) = rv_PackageID inp" for p
    using inj_onD [OF inj _ that(1) r2] that(2) isr by (simp add: is_package_def)
  have "enroll_admitted env sha rng einp pkg now s2 \<noteq> (Inr x, s3)" if "dp_ID pkg = rv_PackageID inp" for rng einp pkg now x s3
  proof
    assume "enroll_admitted env sha rng einp pkg now s2 = (Inr x, s3)"
    from enroll_admitted_Inr [OF this] obtain p where "p \<in> set (t_packages s2)" "usable (dp_ID pkg) now p" by (auto simp: enrolls_def new_agent_def)
    with only [of p] that rev show False by (simp add: usable_def)
  qed
  moreover have "ro_AlreadyRevoked x \<and> ro_Package x = ro_Package out \<and> db_of s3 = db_of s2"
    if i: "rv_PackageID inp' = rv_PackageID inp" and run: "RevokePackage env inp' s2 = (Inr x, s3)" for inp' x s3
  proof -
    have "WithTx env (revoke_tx env inp') s2 = (Inr x, s3)" using run by (auto simp: RevokePackage_def bindE_Inr liftE_Inr)
    from WithTx_Inr [OF this] obtain a b where a: "a = (stepped s2)\<lparr>w_tx := Suc (w_tx s2)\<rparr>" and tx: "revoke_tx env inp' a = (Inr x, b)" and s3: "s3 = stepped b" by blast
    from revoke_tx_Inr [OF tx] obtain q where q: "find (is_package (rv_PackageID inp') (rv_OrganizationID inp')) (t_packages a) = Some q"
      and twice: "revoke_outcome inp' q a b x" by blast
    have "q = r" using find_Some_D [OF q] i by (intro only) (simp_all add: a is_package_def)
    then have "x = \<lparr>ro_Package = ro_Package out, ro_AlreadyRevoked = True\<rparr>" "db_of b = db_of a" using twice rev pr by (simp_all add: revoke_outcome_def)
    then show ?thesis using s3 a by simp
  qed
  ultimately show ?thesis using rev r2 unfolding pr [symmetric] by (intro conjI allI impI bexI [of _ r]) (rule refl | assumption | blast)+
qed

section \<open>Who gets in\<close>

lemma recordRejection_ok:
  assumes "no_faults env" and "org \<noteq> []"
  shows "\<exists>s'. recordRejection env org i reason inp s = (Inr (), s') \<and> refused ''agent.enrollment_rejected'' reason s s'"
  unfolding recordRejection_def
  using Record_refused [of env "rejection_event org i reason inp" reason s] assms by (auto simp: rejection_event_def json_field_def)

lemma rejected_ok:
  assumes "no_faults env" and "dp_OrganizationID pkg \<noteq> []"
  shows "\<exists>s'. rejected env pkg reason inp s = (Inl ErrEnrollmentRejected, s') \<and> refused ''agent.enrollment_rejected'' reason s s'"
  using recordRejection_ok [OF assms, of "dp_ID pkg" reason inp s] by (auto simp: rejected_def bindE_def throwE_def)

text \<open>The transaction against an unchanged package.\<close>

lemma IncrementUses_ok:
  assumes "no_faults env" and "r \<in> set (t_packages s)" and "usable i at r"
  shows "IncrementUses env i at s = (Inr (), (stepped s)\<lparr>t_packages := update_where (usable i at) (set_package (used_once at)) (t_packages s)\<rparr>)"
  using assms by (auto simp: IncrementUses_def bindE_def db_query_ok modE_def)

lemma enroll_tx_decides:
  assumes "no_faults env" and "p \<in> set (t_packages s)" and "usable (dp_ID pkg) now p" and "dp_OrganizationID pkg \<noteq> []" and "ag_ID agent \<noteq> []"
  shows "\<exists>s'. enroll_tx env inp pkg agent h now s =
      (if \<forall>x \<in> set (t_agents s). \<not> agent_conflict agent h x then Inr () else Inl ErrAgentAlreadyEnrolled, s') \<and>
    ((\<exists>x \<in> set (t_agents s). agent_conflict agent h x) \<longrightarrow> db_of s' = db_of s)"
proof -
  let ?s1 = "(stepped s)\<lparr>w_tx := Suc (w_tx s)\<rparr>"
  let ?s2 = "(stepped ?s1)\<lparr>t_packages := update_where (usable (dp_ID pkg) now) (set_package (used_once now)) (t_packages ?s1)\<rparr>"
  let ?fn = "bindE (IncrementUses env (dp_ID pkg) now) (\<lambda>_. bindE (agent_Create env agent h) (\<lambda>_. Record env (enrolled_event inp pkg agent)))"
  have p: "p \<in> set (t_packages ?s1)" using assms(2) by simp
  have run: "?fn ?s1 = bindE (agent_Create env agent h) (\<lambda>_. Record env (enrolled_event inp pkg agent)) ?s2"
    by (rule bindE_step_Inr [where m = "IncrementUses env (dp_ID pkg) now", OF IncrementUses_ok [OF assms(1) p assms(3)]])
  show ?thesis
  proof (cases "\<forall>x \<in> set (t_agents s). \<not> agent_conflict agent h x")
    case True
    let ?s3 = "(stepped ?s2)\<lparr>t_agents := t_agents ?s2 @ [\<lparr>ar_agent = inserted_agent agent, ar_credential_hash = h\<rparr>]\<rparr>"
    have "agent_Create env agent h ?s2 = (Inr (), ?s3)" using True assms(1) unfolding agent_Create_def by (subst exec_hit_ok) simp_all
    moreover obtain s4 where "Record env (enrolled_event inp pkg agent) ?s3 = (Inr (), s4)"
      using Record_ok [OF assms(1), of "enrolled_event inp pkg agent" ?s3] assms(4,5) by (auto simp: enrolled_event_def)
    ultimately have "?fn ?s1 = (Inr (), s4)" unfolding run by (simp add: bindE_def)
    from WithTx_ok [where fn = ?fn, OF assms(1) this] True show ?thesis by (simp add: enroll_tx_def)
  next
    case False
    have "agent_Create env agent h ?s2 = (Inl ErrAgentAlreadyEnrolled, stepped ?s2)"
      using False assms(1) by (auto simp: agent_Create_def exec_hit_def bindE_def db_query_ok guardE_def throwE_def)
    then have "?fn ?s1 = (Inl ErrAgentAlreadyEnrolled, stepped ?s2)" unfolding run by (simp add: bindE_def)
    from WithTx_fails [where fn = ?fn, OF assms(1) this] False show ?thesis by (auto simp: enroll_tx_def)
  qed
qed

definition admissible :: "env \<Rightarrow> (string \<Rightarrow> string) \<Rightarrow> string \<Rightarrow> EnrollAgentInput \<Rightarrow> 'z enroll_db_scheme \<Rightarrow> PackageRow \<Rightarrow> bool" where
  "admissible env sha rng inp s p \<longleftrightarrow> pr_bootstrap_secret_hash p = sha (ei_BootstrapSecret inp) \<and> dp_RevokedAt (pr_package p) = None \<and>
     clockAt env (w_clock s) < dp_ExpiresAt (pr_package p) \<and> dp_UsesCount (pr_package p) < dp_MaxUses (pr_package p) \<and>
     (\<forall>x \<in> set (t_agents s). \<not> agent_conflict (new_agent sha inp (pr_package p) (idAt env (w_ids s)) (clockAt env (w_clock s)))
        (sha (RawURLEncode (take 32 rng))) x)"

lemma GetByBootstrapHash_ok:
  assumes "no_faults env"
  shows "GetByBootstrapHash env h s =
    ((case find (\<lambda>r. pr_bootstrap_secret_hash r = h) (t_packages s) of None \<Rightarrow> Inl ErrPackageNotFound | Some r \<Rightarrow> Inr (pr_package r)), stepped s)"
  using assms by (simp add: GetByBootstrapHash_def first_package_def bindE_def db_query_ok throwE_def retE_def split: option.splits)


lemma enroll_lookup_decides:
  assumes nf: "no_faults env" and v: "validate_enroll inp = Inr u"
  shows "case find (\<lambda>r. pr_bootstrap_secret_hash r = sha (ei_BootstrapSecret inp)) (t_packages s) of
      None \<Rightarrow> \<exists>s'. enroll_lookup env sha inp s = (Inl ErrEnrollmentRejected, s') \<and> refused ''agent.enrollment_rejected'' ''bootstrap_secret_unknown'' s s'
    | Some r \<Rightarrow> (case activeAt (pr_package r) (clockAt env (w_clock s)) of
        Inl e \<Rightarrow> dp_OrganizationID (pr_package r) \<noteq> [] \<longrightarrow> (\<exists>s'. enroll_lookup env sha inp s = (Inl ErrEnrollmentRejected, s') \<and>
          refused ''agent.enrollment_rejected'' (rejectionReason e) s s')
      | Inr _ \<Rightarrow> enroll_lookup env sha inp s = (Inr (pr_package r, clockAt env (w_clock s)), (stepped s)\<lparr>w_clock := Suc (w_clock s)\<rparr>))"
proof -
  let ?h = "sha (ei_BootstrapSecret inp)" and ?now = "clockAt env (w_clock s)" and ?s = "(stepped s)\<lparr>w_clock := Suc (w_clock s)\<rparr>"
  note lookup = GetByBootstrapHash_ok [OF nf, of ?h s]
  show ?thesis
  proof (cases "find (\<lambda>r. pr_bootstrap_secret_hash r = ?h) (t_packages s)")
    case None
    from recordRejection_ok [OF nf, of fallbackRejectionOrg "[]" "''bootstrap_secret_unknown''" inp "stepped s"]
    obtain s' where "recordRejection env fallbackRejectionOrg [] ''bootstrap_secret_unknown'' inp (stepped s) = (Inr (), s')"
      "refused ''agent.enrollment_rejected'' ''bootstrap_secret_unknown'' (stepped s) s'" by (auto simp: fallbackRejectionOrg_def)
    then show ?thesis using None lookup refused_cong [of "stepped s" s]
      by (simp add: enroll_lookup_def v bindE_def tryE_def hashBearerToken_def throwE_def)
  next
    case (Some r)
    show ?thesis
    proof (cases "activeAt (pr_package r) ?now")
      case (Inl e)
      show ?thesis
      proof (cases "dp_OrganizationID (pr_package r) = []")
        case False
        from rejected_ok [OF nf False, of "rejectionReason e" inp ?s] obtain s' where
          "rejected env (pr_package r) (rejectionReason e) inp ?s = ((Inl ErrEnrollmentRejected :: err + (DeploymentPackage \<times> Time)), s')"
          "refused ''agent.enrollment_rejected'' (rejectionReason e) ?s s'" by blast
        then show ?thesis using Some Inl lookup refused_cong [of ?s s] False
          by (simp add: enroll_lookup_def v bindE_def tryE_def hashBearerToken_def Now_def enroll_tables_def stepped_def)
      qed (simp add: Some Inl)
    next
      case (Inr u)
      then show ?thesis using Some lookup by (simp add: enroll_lookup_def v bindE_def tryE_def hashBearerToken_def Now_def retE_def stepped_def)
    qed
  qed
qed

lemma activeAt_Inr: "activeAt p now = Inr u \<longleftrightarrow> dp_RevokedAt p = None \<and> now < dp_ExpiresAt p \<and> dp_UsesCount p < dp_MaxUses p"
  by (auto simp: activeAt_def)

lemma enroll_admitted_decides:
  assumes nf: "no_faults env" and ids: "\<forall>i. idAt env i \<noteq> []" and rng: "32 \<le> length rng"
    and r: "r \<in> set (t_packages s)" "usable (dp_ID (pr_package r)) now r" and org: "dp_OrganizationID (pr_package r) \<noteq> []"
  shows "if \<forall>x \<in> set (t_agents s). \<not> agent_conflict (new_agent sha inp (pr_package r) (idAt env (w_ids s)) now) (sha (RawURLEncode (take 32 rng))) x
    then \<exists>out s'. enroll_admitted env sha rng inp (pr_package r) now s = (Inr out, s')
    else \<exists>s'. enroll_admitted env sha rng inp (pr_package r) now s = (Inl ErrEnrollmentRejected, s') \<and>
      refused ''agent.enrollment_rejected'' ''install_id_already_enrolled'' s s'"
proof -
  let ?s = "s\<lparr>w_ids := Suc (w_ids s)\<rparr>" and ?a = "new_agent sha inp (pr_package r) (idAt env (w_ids s)) now" and ?c = "RawURLEncode (take 32 rng)"
  have g: "generateBearerToken sha rng = Inr (?c, sha ?c)" using rng by (simp add: generateBearerToken_def ReadFull_def bearerTokenBytes_def Let_def)
  have run: "enroll_admitted env sha rng inp (pr_package r) now s =
    bindE (tryE (enroll_tx env inp (pr_package r) ?a (sha ?c) now)) (\<lambda>x. case x of
       Inr _ \<Rightarrow> retE \<lparr>eo_Agent = ?a, eo_AgentCredential = ?c, eo_OrganizationID = dp_OrganizationID (pr_package r)\<rparr>
     | Inl e \<Rightarrow> enroll_failed env (pr_package r) inp e) ?s"
    unfolding enroll_admitted_def g by (simp add: bindE_def liftE_def NewID_def Let_def)
  have "r \<in> set (t_packages ?s)" "ag_ID ?a \<noteq> []" using r(1) ids by (simp_all add: new_agent_def)
  from enroll_tx_decides [OF nf this(1) r(2) org this(2), of inp "sha ?c"] obtain s1 where
    t: "enroll_tx env inp (pr_package r) ?a (sha ?c) now ?s = (if \<forall>x \<in> set (t_agents s). \<not> agent_conflict ?a (sha ?c) x then Inr () else Inl ErrAgentAlreadyEnrolled, s1)"
    and undone: "(\<exists>x \<in> set (t_agents s). agent_conflict ?a (sha ?c) x) \<longrightarrow> db_of s1 = db_of ?s" by auto
  show ?thesis
  proof (cases "\<forall>x \<in> set (t_agents s). \<not> agent_conflict ?a (sha ?c) x")
    case True
    then show ?thesis unfolding run using t by (simp add: bindE_def tryE_def retE_def)
  next
    case False
    from rejected_ok [OF nf org, of "''install_id_already_enrolled''" inp s1] obtain s' where
      rej: "rejected env (pr_package r) ''install_id_already_enrolled'' inp s1 = ((Inl ErrEnrollmentRejected :: err + EnrollAgentOutput), s')"
      "refused ''agent.enrollment_rejected'' ''install_id_already_enrolled'' s1 s'" by blast
    have "db_of s1 = db_of s" using undone False by simp
    then have "tables_of s1 = tables_of s" "audit_events s1 = audit_events s" by (metis tables_of_simps(6), metis audit_db_of)
    then have "refused ''agent.enrollment_rejected'' ''install_id_already_enrolled'' s s'" using rej(2) refused_cong by blast
    moreover have "enroll_tx env inp (pr_package r) ?a (sha ?c) now ?s = (Inl ErrAgentAlreadyEnrolled, s1)" using t unfolding if_not_P [OF False] .
    then have "enroll_admitted env sha rng inp (pr_package r) now s = (Inl ErrEnrollmentRejected, s')"
      unfolding run using rej(1) by (simp add: bindE_def tryE_def enroll_failed_def)
    ultimately show ?thesis unfolding if_not_P [OF False] by blast
  qed
qed

text \<open>
  On a working database an enrollment succeeds exactly when the secret names a package that is neither revoked, expired nor exhausted
  and no key of the new agent is taken. Every other request gets the one rejection error, leaves packages and agents alone, and is
  recorded as a security event, unless it was malformed.
\<close>

lemma EnrollAgent_decides:
  assumes nf: "no_faults env" and ok: "enroll_ok s" and ids: "\<forall>i. idAt env i \<noteq> []" and rng: "32 \<le> length rng"
  shows "if validate_enroll inp \<noteq> Inr () then EnrollAgent env sha rng inp s = (Inl ErrEnrollmentRejected, s)
    else if \<exists>p \<in> set (t_packages s). admissible env sha rng inp s p
    then \<exists>out s'. EnrollAgent env sha rng inp s = (Inr out, s') \<and> enrolls sha out (clockAt env (w_clock s)) s s'
    else \<exists>reason s'. EnrollAgent env sha rng inp s = (Inl ErrEnrollmentRejected, s') \<and> refused ''agent.enrollment_rejected'' reason s s'"
proof (cases "validate_enroll inp")
  case (Inl e)
  then show ?thesis by (simp add: EnrollAgent_def enroll_lookup_def bindE_def throwE_def)
next
  case (Inr u)
  let ?h = "sha (ei_BootstrapSecret inp)" and ?now = "clockAt env (w_clock s)" and ?s = "(stepped s)\<lparr>w_clock := Suc (w_clock s)\<rparr>"
  note lookup = enroll_lookup_decides [OF nf Inr, of sha s]
  show ?thesis
  proof (cases "find (\<lambda>r. pr_bootstrap_secret_hash r = ?h) (t_packages s)")
    case None
    then have "\<not> (\<exists>p \<in> set (t_packages s). admissible env sha rng inp s p)" by (auto simp: find_None_set admissible_def)
    then show ?thesis using None lookup Inr by (auto simp: EnrollAgent_def bindE_def)
  next
    case (Some r)
    have rin: "r \<in> set (t_packages s)" and rh: "pr_bootstrap_secret_hash r = ?h" using find_Some_D [OF Some] by auto
    have "inj_on pr_bootstrap_secret_hash (set (t_packages s))" using ok by (simp add: enroll_ok_def packages_ok_def distinct_map)
    then have adm: "(\<exists>p \<in> set (t_packages s). admissible env sha rng inp s p) \<longleftrightarrow> admissible env sha rng inp s r"
      using rin rh by (auto simp: admissible_def inj_on_def)
    have org: "dp_OrganizationID (pr_package r) \<noteq> []" using ok rin by (auto simp: enroll_ok_def packages_ok_def)
    show ?thesis
    proof (cases "activeAt (pr_package r) ?now")
      case e: (Inl e)
      then have "\<not> admissible env sha rng inp s r" using activeAt_Inr [of "pr_package r" ?now "()"] by (auto simp: admissible_def)
      then show ?thesis using lookup Some e org adm Inr by (auto simp: EnrollAgent_def bindE_def)
    next
      case a: (Inr v)
      then have l: "enroll_lookup env sha inp s = (Inr (pr_package r, ?now), ?s)" using lookup Some by simp
      have us: "usable (dp_ID (pr_package r)) ?now r" "r \<in> set (t_packages ?s)" using a rin by (simp_all add: usable_def activeAt_Inr)
      have run: "EnrollAgent env sha rng inp s = enroll_admitted env sha rng inp (pr_package r) ?now ?s" by (simp add: EnrollAgent_def bindE_def l)
      have c: "admissible env sha rng inp s r \<longleftrightarrow> (\<forall>x \<in> set (t_agents ?s). \<not> agent_conflict (new_agent sha inp (pr_package r) (idAt env (w_ids ?s)) ?now) (sha (RawURLEncode (take 32 rng))) x)"
        using a rh by (auto simp: admissible_def activeAt_Inr stepped_def)
      note d = enroll_admitted_decides [OF nf ids rng us(2,1) org, of sha inp, folded c]
      show ?thesis
      proof (cases "admissible env sha rng inp s r")
        case True
        then obtain out s' where o: "enroll_admitted env sha rng inp (pr_package r) ?now ?s = (Inr out, s')" using d by auto
        then have "enrolls sha out ?now ?s s'" using enroll_admitted_Inr [OF o] by blast
        then have "enrolls sha out ?now s s'" by (simp add: enrolls_def)
        then show ?thesis using True adm Inr o unfolding run by auto
      next
        case False
        then obtain s' where o: "enroll_admitted env sha rng inp (pr_package r) ?now ?s = (Inl ErrEnrollmentRejected, s')"
          "refused ''agent.enrollment_rejected'' ''install_id_already_enrolled'' ?s s'" using d by auto
        then have "refused ''agent.enrollment_rejected'' ''install_id_already_enrolled'' s s'" using refused_cong [of ?s s] by simp
        then show ?thesis using False adm Inr o(1) unfolding run by auto
      qed
    qed
  qed
qed

lemma auth_refused_ok:
  assumes "no_faults env"
  shows "\<exists>s'. auth_refused env org i reason inp s = (Inl ErrAgentAuthenticationFailed, s') \<and> refused ''agent.authentication_failed'' reason s s'"
  using Record_refused [OF assms, of "auth_failure_event org i reason inp" reason s]
  by (auto simp: auth_refused_def recordAuthFailure_def bindE_def tryE_def retE_def throwE_def auth_failure_event_def fallbackRejectionOrg_def json_field_def)

text \<open>
  On a working database exactly the credentials of active agents authenticate, as that agent and without a write; every other attempt
  gets the one error and is recorded as a security event.
\<close>

lemma AuthenticateAgent_decides:
  assumes nf: "no_faults env" and ok: "enroll_ok s"
  shows "if ain_HeaderRejection inp = [] \<and> TrimSpace (ain_AgentCredential inp) \<noteq> [] \<and>
       (\<exists>r \<in> set (t_agents s). ar_credential_hash r = sha (ain_AgentCredential inp) \<and> ag_Status (ar_agent r) = AgentStatusActive)
    then \<exists>r \<in> set (t_agents s). ar_credential_hash r = sha (ain_AgentCredential inp) \<and> AuthenticateAgent env sha inp s = (Inr (agent_principal (ar_agent r)), stepped s)
    else \<exists>reason s'. AuthenticateAgent env sha inp s = (Inl ErrAgentAuthenticationFailed, s') \<and> refused ''agent.authentication_failed'' reason s s'"
proof (cases "ain_HeaderRejection inp = [] \<and> TrimSpace (ain_AgentCredential inp) \<noteq> []")
  case False
  then show ?thesis
    using auth_refused_ok [OF nf, of "[]" "[]" "ain_HeaderRejection inp" inp s] auth_refused_ok [OF nf, of "[]" "[]" "''credential_empty''" inp s]
    by (auto simp: AuthenticateAgent_def)
next
  case True
  let ?h = "sha (ain_AgentCredential inp)"
  show ?thesis
  proof (cases "\<exists>r \<in> set (t_agents s). ar_credential_hash r = ?h")
    case False
    then have "find (\<lambda>x. ar_credential_hash x = ?h) (t_agents s) = None" by (simp add: find_None_set)
    then have "FindByCredentialHash env ?h s = (Inl ErrAgentNotFound, stepped s)" using nf by (simp add: FindByCredentialHash_def bindE_def db_query_ok throwE_def)
    then show ?thesis
      using False True auth_refused_ok [OF nf, of "[]" "[]" "''credential_unknown''" inp "stepped s"] refused_cong [of "stepped s" s]
      by (auto simp: AuthenticateAgent_def hashBearerToken_def bindE_def tryE_def)
  next
    case known: True
    then obtain r where r: "r \<in> set (t_agents s)" "ar_credential_hash r = ?h" by blast
    have "inj_on ar_credential_hash (set (t_agents s))" using ok by (simp add: enroll_ok_def agents_ok_def distinct_map)
    then have only: "x = r" if "x \<in> set (t_agents s)" "ar_credential_hash x = ?h" for x using that r by (auto simp: inj_on_def)
    note f = FindByCredentialHash_ok [OF nf ok r]
    show ?thesis
    proof (cases "ag_Status (ar_agent r) = AgentStatusActive")
      case active: True
      then show ?thesis using AuthenticateAgent_accepts [where sha = sha and inp = inp, OF nf ok r active] True r by auto
    next
      case inactive: False
      then have "\<not> (\<exists>x \<in> set (t_agents s). ar_credential_hash x = ?h \<and> ag_Status (ar_agent x) = AgentStatusActive)" using only by auto
      moreover let ?why = "''agent_status_'' @ agent_status_string (ag_Status (ar_agent r))"
      have "AuthenticateAgent env sha inp s = auth_refused env (ag_OrganizationID (ar_agent r)) (ag_ID (ar_agent r)) ?why inp (stepped s)"
        using True f inactive by (simp add: AuthenticateAgent_def hashBearerToken_def bindE_def tryE_def)
      moreover have "\<exists>s'. auth_refused env (ag_OrganizationID (ar_agent r)) (ag_ID (ar_agent r)) ?why inp (stepped s) =
          ((Inl ErrAgentAuthenticationFailed :: err + AuthenticatedAgent), s') \<and> refused ''agent.authentication_failed'' ?why s s'"
        using auth_refused_ok [OF nf, of _ _ ?why inp "stepped s"] refused_cong [of "stepped s" s] by (simp del: append.simps)
      ultimately show ?thesis by (simp del: append.simps) blast
    qed
  qed
qed

section \<open>Witnesses\<close>

definition demo_enroll_env :: env where
  "demo_enroll_env = \<lparr>fault = (\<lambda>_. False), clockAt = (\<lambda>n. 100 + int n), idAt = (\<lambda>n. CHR ''i'' # replicate n (CHR ''x'')), dbNow = (\<lambda>_. 0),
     regexpCompile = (\<lambda>_. Inl [])\<rparr>"

definition demo_sha :: "string \<Rightarrow> string" where "demo_sha s = CHR ''#'' # s"

definition demo_operator :: UserRow where
  "demo_operator = \<lparr>ur_user = \<lparr>us_ID = ''u'', us_OrganizationID = ''o'', us_Email = ''u@o'', us_DisplayName = [], us_Role = RoleAdmin, us_Disabled = False,
     us_CreatedAt = 0, us_LastLoginAt = None\<rparr>, ur_password_hash = []\<rparr>"

definition demo_enroll_db :: enroll_db where
  "demo_enroll_db = \<lparr>w_calls = 0, w_ids = 0, w_clock = 0, w_tx = 0, w_locks = [], audit_events = [], t_organizations = [(''o'', ''Org'')], t_users = [demo_operator], t_sessions = [], t_packages = [], t_agents = []\<rparr>"

definition demo_create :: CreatePackageInput where
  "demo_create = \<lparr>cp_OrganizationID = ''o'', cp_CreatedByUserID = ''u'', cp_Name = ''lab'', cp_Description = [], cp_PackageType = PackageTypeLab,
     cp_AgentVersion = ''1'', cp_TTL = 1000, cp_MaxUses = 1, cp_DefaultGroupName = ''g'', cp_DefaultLabels = [''l'']\<rparr>"

abbreviation demo_bytes :: "char \<Rightarrow> string" where "demo_bytes c \<equiv> replicate 32 c"

definition demo_packaged :: enroll_db where
  "demo_packaged = snd (CreatePackage demo_enroll_env demo_sha (demo_bytes (CHR ''A'')) demo_create demo_enroll_db)"

definition demo_enroll :: "string \<Rightarrow> EnrollAgentInput" where
  "demo_enroll host = \<lparr>ei_BootstrapSecret = RawURLEncode (demo_bytes (CHR ''A'')), ei_Hostname = host, ei_AgentVersion = ''1'',
     ei_MachineFingerprint = [], ei_InstallID = host, ei_RequestID = []\<rparr>"

lemma demo_enroll_env_ok: "no_faults demo_enroll_env" "\<forall>i. idAt demo_enroll_env i \<noteq> []"
  by (simp_all add: no_faults_def demo_enroll_env_def)

lemma demo_enroll_db_ok: "enroll_ok demo_enroll_db"
  by code_simp

lemma demo_packaged_ok: "enroll_ok demo_packaged"
  by code_simp

text \<open>Two hosts pass the early check of a package for one; the second one is turned away at the transaction.\<close>

definition demo_admitted :: "string \<Rightarrow> enroll_db \<Rightarrow> enroll_db" where
  "demo_admitted host s = snd (enroll_lookup demo_enroll_env demo_sha (demo_enroll host) s)"

definition demo_ticket :: "string \<Rightarrow> enroll_db \<Rightarrow> DeploymentPackage \<times> Time" where
  "demo_ticket host s = projr (fst (enroll_lookup demo_enroll_env demo_sha (demo_enroll host) s))"

definition demo_race :: "enrolling list \<times> enroll_db" where
  "demo_race =
     (let sa = demo_admitted ''a'' demo_packaged; ta = demo_ticket ''a'' demo_packaged; sb = demo_admitted ''b'' sa; tb = demo_ticket ''b'' sa;
          (ra, s1) = enroll_admitted demo_enroll_env demo_sha (demo_bytes (CHR ''B'')) (demo_enroll ''a'') (fst ta) (snd ta) sb;
          (rb, s2) = enroll_admitted demo_enroll_env demo_sha (demo_bytes (CHR ''C'')) (demo_enroll ''b'') (fst tb) (snd tb) s1
      in ([Finished ra, Finished rb], s2))"

lemma demo_race_result: "length (successes (fst demo_race)) = 1 \<and> length (t_agents (snd demo_race)) = 1 \<and> length (t_packages (snd demo_race)) = 1"
  by code_simp

lemma demo_ticket_run:
  "\<not> isl (fst (enroll_lookup demo_enroll_env demo_sha (demo_enroll host) s)) \<Longrightarrow>
    enroll_lookup demo_enroll_env demo_sha (demo_enroll host) s = (Inr (fst (demo_ticket host s), snd (demo_ticket host s)), demo_admitted host s)"
  using returned by (simp add: demo_ticket_def demo_admitted_def)

lemma demo_race_run: "(race demo_enroll_env demo_sha)\<^sup>*\<^sup>* ([], demo_packaged) demo_race"
proof -
  let ?R = "race demo_enroll_env demo_sha" and ?A = "demo_enroll ''a''" and ?B = "demo_enroll ''b''"
  let ?a = "demo_bytes (CHR ''B'')" and ?b = "demo_bytes (CHR ''C'')"
  let ?sa = "demo_admitted ''a'' demo_packaged" and ?ta = "demo_ticket ''a'' demo_packaged"
  let ?sb = "demo_admitted ''b'' ?sa" and ?tb = "demo_ticket ''b'' ?sa"
  have "\<not> isl (fst (enroll_lookup demo_enroll_env demo_sha ?A demo_packaged))" by code_simp
  note a = demo_ticket_run [OF this]
  have "\<not> isl (fst (enroll_lookup demo_enroll_env demo_sha ?B ?sa))" by code_simp
  note b = demo_ticket_run [OF this]
  obtain ra s1 where ca: "enroll_admitted demo_enroll_env demo_sha ?a ?A (fst ?ta) (snd ?ta) ?sb = (ra, s1)" by fastforce
  obtain rb s2 where cb: "enroll_admitted demo_enroll_env demo_sha ?b ?B (fst ?tb) (snd ?tb) s1 = (rb, s2)" by fastforce
  have 1: "?R ([], demo_packaged) ([Arriving ?A ?a], demo_packaged)" using race.arrive [of _ _ "[]"] by simp
  have 2: "?R ([Arriving ?A ?a], demo_packaged) ([Arriving ?A ?a, Arriving ?B ?b], demo_packaged)" using race.arrive [of _ _ "[Arriving ?A ?a]"] by simp
  have 3: "?R ([Arriving ?A ?a, Arriving ?B ?b], demo_packaged) ([Admitted ?A ?a (fst ?ta) (snd ?ta), Arriving ?B ?b], ?sa)"
    using race.admit [OF _ _ a, of 0 "[Arriving ?A ?a, Arriving ?B ?b]"] by simp
  have 4: "?R ([Admitted ?A ?a (fst ?ta) (snd ?ta), Arriving ?B ?b], ?sa) ([Admitted ?A ?a (fst ?ta) (snd ?ta), Admitted ?B ?b (fst ?tb) (snd ?tb)], ?sb)"
    using race.admit [OF _ _ b, of 1 "[Admitted ?A ?a (fst ?ta) (snd ?ta), Arriving ?B ?b]"] by simp
  have 5: "?R ([Admitted ?A ?a (fst ?ta) (snd ?ta), Admitted ?B ?b (fst ?tb) (snd ?tb)], ?sb) ([Finished ra, Admitted ?B ?b (fst ?tb) (snd ?tb)], s1)"
    using race.commit [OF _ _ ca, of 0 "[Admitted ?A ?a (fst ?ta) (snd ?ta), Admitted ?B ?b (fst ?tb) (snd ?tb)]"] by simp
  have 6: "?R ([Finished ra, Admitted ?B ?b (fst ?tb) (snd ?tb)], s1) ([Finished ra, Finished rb], s2)"
    using race.commit [OF _ _ cb, of 1 "[Finished ra, Admitted ?B ?b (fst ?tb) (snd ?tb)]"] by simp
  have "demo_race = ([Finished ra, Finished rb], s2)" by (simp add: demo_race_def Let_def ca cb)
  moreover have "?R\<^sup>*\<^sup>* ([], demo_packaged) ([Finished ra, Finished rb], s2)"
    using 1 2 3 4 5 6 by (meson converse_rtranclp_into_rtranclp rtranclp.rtrancl_refl)
  ultimately show ?thesis by simp
qed

theorem enrollments_bounded_witness:
  "length (successes (fst demo_race)) = 1 \<and> dp_UsesCount (pr_package (hd (t_packages (snd demo_race)))) = package_enrolled
     (dp_ID (pr_package (hd (t_packages (snd demo_race))))) (t_agents (snd demo_race))"
proof -
  have run: "(race demo_enroll_env demo_sha)\<^sup>*\<^sup>* ([], demo_packaged) (fst demo_race, snd demo_race)" using demo_race_run by simp
  have "hd (t_packages (snd demo_race)) \<in> set (t_packages (snd demo_race))" using demo_race_result by (intro hd_in_set) fastforce
  then show ?thesis using enrollments_bounded [OF run demo_packaged_ok demo_enroll_env_ok(2)] demo_race_result by blast
qed

definition demo_enrolled :: "(err + EnrollAgentOutput) \<times> enroll_db" where
  "demo_enrolled = EnrollAgent demo_enroll_env demo_sha (demo_bytes (CHR ''B'')) (demo_enroll ''a'') demo_packaged"

lemma demo_enrolled_run:
  "EnrollAgent demo_enroll_env demo_sha (demo_bytes (CHR ''B'')) (demo_enroll ''a'') demo_packaged = (Inr (projr (fst demo_enrolled)), snd demo_enrolled)"
proof -
  have "\<not> isl (fst demo_enrolled)" by code_simp
  from returned [OF this] show ?thesis by (simp add: demo_enrolled_def)
qed

definition demo_login :: AuthenticateAgentInput where
  "demo_login = \<lparr>ain_AgentCredential = eo_AgentCredential (projr (fst demo_enrolled)), ain_HeaderRejection = [], ain_RequestID = [], ain_RemoteAddr = []\<rparr>"

theorem credential_lasts_witness:
  "\<exists>p s3. AuthenticateAgent demo_enroll_env demo_sha demo_login (snd demo_enrolled) = (Inr p, s3) \<and> aa_OrganizationID p = ''o''"
proof -
  have "eo_OrganizationID (projr (fst demo_enrolled)) = ''o''" by code_simp
  moreover from credential_lasts [OF demo_enrolled_run rtranclp.rtrancl_refl demo_packaged_ok demo_enroll_env_ok(2,1), of demo_login]
  obtain p s3 where "AuthenticateAgent demo_enroll_env demo_sha demo_login (snd demo_enrolled) = (Inr p, s3)" "aa_OrganizationID p = eo_OrganizationID (projr (fst demo_enrolled))"
    by (auto simp: demo_login_def)
  ultimately show ?thesis by auto
qed

definition demo_revoke :: "string \<Rightarrow> RevokePackageInput" where
  "demo_revoke i = \<lparr>rv_OrganizationID = ''o'', rv_PackageID = i, rv_RevokedByUserID = ''u'', rv_Reason = ''lost''\<rparr>"

definition demo_revoked :: "(err + RevokePackageOutput) \<times> enroll_db" where
  "demo_revoked = RevokePackage demo_enroll_env (demo_revoke ''i'') demo_packaged"

theorem revocation_is_final_witness:
  "\<exists>r \<in> set (t_packages (snd demo_revoked)). pr_package r = ro_Package (projr (fst demo_revoked)) \<and> dp_RevokedAt (pr_package r) \<noteq> None"
proof -
  have "\<not> isl (fst demo_revoked)" by code_simp
  from revocation_is_final [where sha = demo_sha and ts = "[]", OF returned [OF this [unfolded demo_revoked_def]] rtranclp.rtrancl_refl demo_packaged_ok demo_enroll_env_ok(2)]
  show ?thesis unfolding demo_revoked_def by auto
qed

end
