(* ===== verification/Http.thy ===== *)
theory Http imports Auth Enrollment begin

text \<open>
  The HTTP layer over operators and agents: the canonical envelope, the two authentication middlewares
  (\<open>httpapi/middleware\<close>), and the handlers of \<open>auth.go\<close>, \<open>agents.go\<close> and \<open>deployment_packages.go\<close>.

  A handler is a program that answers; it cannot fail. What \<open>net/http\<close> and \<open>encoding/json\<close> hand over is
  an argument: the fields of a request, and its body as the decoder leaves it (\<open>None\<close> where decoding fails).
  The context of a request carries the operator or the agent: it is the argument of the next handler.
\<close>

section \<open>Requests and responses\<close>

record Request =
  rq_Cookies :: "(string \<times> string) list"
  rq_Authorization :: string
  rq_RequestID :: string
  rq_RemoteAddr :: string
  rq_RemoteIP :: string    \<comment> \<open>\<open>remoteIP\<close> of the remote address\<close>
  rq_UserAgent :: string

record SetCookie =
  ck_Name :: string
  ck_Value :: string
  ck_Secure :: bool
  ck_Expires :: "Time option"
  ck_MaxAge :: int

record Response =
  rs_Status :: int
  rs_Body :: json
  rs_SetCookie :: "SetCookie option"

definition WriteJSON :: "int \<Rightarrow> json \<Rightarrow> Response" where
  "WriteJSON status body = \<lparr>rs_Status = status, rs_Body = body, rs_SetCookie = None\<rparr>"

definition WriteError :: "int \<Rightarrow> string \<Rightarrow> string \<Rightarrow> Response" where
  "WriteError status code message = WriteJSON status (JObj [(''error'', JObj [(''code'', JStr code), (''message'', JStr message)])])"

section \<open>Operators\<close>

type_synonym operator = "(User \<times> Session) option"

definition SessionResolver ::
  "env \<Rightarrow> crypto \<Rightarrow> SessionPolicy \<Rightarrow> SignedCookie \<Rightarrow> string \<Rightarrow> Request \<Rightarrow> (operator \<Rightarrow> ('z auth_db_scheme, Response) prog) \<Rightarrow> ('z auth_db_scheme, Response) prog" where
  "SessionResolver env cr pol signer cookieName r next =
     (case map_of (rq_Cookies r) cookieName of
        None \<Rightarrow> next None
      | Some c \<Rightarrow>
          (case Verify cr signer c of
             Inl _ \<Rightarrow> next None
           | Inr sessionID \<Rightarrow>
               bindE (tryE (Authenticate env pol sessionID)) (\<lambda>a.
               case a of Inl _ \<Rightarrow> next None | Inr us \<Rightarrow> next (Some us))))"

definition RequireAuth :: "(operator \<Rightarrow> ('s, Response) prog) \<Rightarrow> operator \<Rightarrow> ('s, Response) prog" where
  "RequireAuth next op =
     (case op of
        None \<Rightarrow> retE (WriteError 401 ''unauthorized'' ''authentication required'')
      | Some us \<Rightarrow> next op)"

definition RequireAdmin :: "(operator \<Rightarrow> ('s, Response) prog) \<Rightarrow> operator \<Rightarrow> ('s, Response) prog" where
  "RequireAdmin next op =
     (case op of
        None \<Rightarrow> retE (WriteError 401 ''unauthorized'' ''authentication required'')
      | Some (user, x) \<Rightarrow>
          if us_Role user \<noteq> RoleAdmin then retE (WriteError 403 ''forbidden'' ''admin role required'') else next op)"

definition MapAuthError :: "err \<Rightarrow> Response option" where
  "MapAuthError e =
     (if e = ErrInvalidCredentials then Some (WriteError 401 ''invalid_credentials'' ''invalid email or password'')
      else if e = ErrSessionExpired \<or> e = ErrSessionRevoked then Some (WriteError 401 ''session_expired'' ''session is no longer valid'')
      else if e = ErrSessionNotFound \<or> e = ErrUserNotFound \<or> e = ErrUserDisabled then Some (WriteError 401 ''unauthorized'' ''authentication required'')
      else None)"

subsection \<open>Login, logout, me\<close>

record AuthDeps =
  ad_signer :: SignedCookie
  ad_CookieName :: string
  ad_CookieSecure :: bool

definition user_json :: "User \<Rightarrow> json" where
  "user_json u = JObj ([(''id'', JStr (us_ID u)), (''organization_id'', JStr (us_OrganizationID u)), (''email'', JStr (us_Email u)),
     (''display_name'', JStr (us_DisplayName u)), (''role'', JStr (role_string (us_Role u))), (''disabled'', JBool (us_Disabled u)),
     (''created_at'', JStr (FormatRFC3339Nano (us_CreatedAt u)))] @
     (case us_LastLoginAt u of None \<Rightarrow> [] | Some t \<Rightarrow> [(''last_login_at'', JStr (FormatRFC3339Nano t))]))"

definition session_cookie :: "AuthDeps \<Rightarrow> string \<Rightarrow> Time option \<Rightarrow> int \<Rightarrow> SetCookie" where
  "session_cookie deps value expires maxAge =
     \<lparr>ck_Name = ad_CookieName deps, ck_Value = value, ck_Secure = ad_CookieSecure deps, ck_Expires = expires, ck_MaxAge = maxAge\<rparr>"

definition AuthLogin ::
  "env \<Rightarrow> crypto \<Rightarrow> SessionPolicy \<Rightarrow> AuthDeps \<Rightarrow> Request \<Rightarrow> (string \<times> string) option \<Rightarrow> ('z auth_db_scheme, Response) prog" where
  "AuthLogin env cr pol deps r body =
     (case body of
        None \<Rightarrow> retE (WriteError 400 ''bad_request'' ''invalid JSON body'')
      | Some (bodyEmail, password) \<Rightarrow>
          let email = TrimSpace (ToLower bodyEmail) in
          if email = [] \<or> password = [] then retE (WriteError 400 ''bad_request'' ''email and password are required'')
          else
            bindE (tryE (Login env cr pol \<lparr>li_Email = email, li_Password = password, li_UserAgent = rq_UserAgent r,
              li_RemoteIP = rq_RemoteIP r, li_RequestID = rq_RequestID r\<rparr>)) (\<lambda>a.
            case a of
              Inl e \<Rightarrow> (case MapAuthError e of Some resp \<Rightarrow> retE resp | None \<Rightarrow> retE (WriteError 500 ''internal_error'' ''login failed''))
            | Inr out \<Rightarrow>
                retE ((WriteJSON 200 (user_json (lo_User out)))\<lparr>rs_SetCookie :=
                  Some (session_cookie deps (Sign cr (ad_signer deps) (se_ID (lo_Session out))) (Some (se_ExpiresAt (lo_Session out))) 0)\<rparr>)))"

definition AuthLogout :: "env \<Rightarrow> AuthDeps \<Rightarrow> Request \<Rightarrow> operator \<Rightarrow> ('z auth_db_scheme, Response) prog" where
  "AuthLogout env deps r op =
     (case op of
        None \<Rightarrow> retE (WriteError 401 ''unauthorized'' ''authentication required'')
      | Some (user, x) \<Rightarrow>
          bindE (tryE (Logout env user x (rq_RequestID r))) (\<lambda>a.
          case a of
            Inl e \<Rightarrow> (case MapAuthError e of Some resp \<Rightarrow> retE resp | None \<Rightarrow> retE (WriteError 500 ''internal_error'' ''logout failed''))
          | Inr _ \<Rightarrow> retE \<lparr>rs_Status = 204, rs_Body = JNull, rs_SetCookie = Some (session_cookie deps [] None (-1))\<rparr>))"

definition AuthMe :: "operator \<Rightarrow> ('s, Response) prog" where
  "AuthMe op =
     (case op of
        None \<Rightarrow> retE (WriteError 401 ''unauthorized'' ''authentication required'')
      | Some (user, x) \<Rightarrow> retE (WriteJSON 200 (user_json user)))"

section \<open>Agents\<close>

definition parseBearer :: "string \<Rightarrow> string \<times> string" where
  "parseBearer hdr =
     (let schemePrefix = ''bearer ''; header = TrimSpace hdr in
      if header = [] then ([], ''header_missing'')
      else if length header < length schemePrefix \<or> \<not> EqualFold (take (length schemePrefix) header) schemePrefix then ([], ''header_wrong_scheme'')
      else
        let token = TrimSpace (drop (length schemePrefix) header) in
        if token = [] then ([], ''header_empty_token'') else (token, []))"

definition RequireAuthenticatedAgent ::
  "env \<Rightarrow> (string \<Rightarrow> string) \<Rightarrow> Request \<Rightarrow> (AuthenticatedAgent \<Rightarrow> ('z enroll_db_scheme, Response) prog) \<Rightarrow> ('z enroll_db_scheme, Response) prog" where
  "RequireAuthenticatedAgent env sha r next =
     (let (plaintext, headerRejection) = parseBearer (rq_Authorization r) in
      bindE (tryE (AuthenticateAgent env sha \<lparr>ain_AgentCredential = plaintext, ain_HeaderRejection = headerRejection,
        ain_RequestID = rq_RequestID r, ain_RemoteAddr = rq_RemoteAddr r\<rparr>)) (\<lambda>a.
      case a of
        Inl e \<Rightarrow>
          if e = ErrAgentAuthenticationFailed then retE (WriteError 401 ''agent_unauthorized'' ''agent authentication required'')
          else retE (WriteError 500 ''internal_error'' ''agent authentication failed'')
      | Inr agent \<Rightarrow> next agent))"

record enrollRequest =
  er_BootstrapSecret :: string
  er_Hostname :: string
  er_AgentVersion :: string
  er_MachineFingerprint :: string
  er_InstallID :: string

definition enrollment_rejected :: Response where
  "enrollment_rejected = WriteError 401 ''enrollment_rejected'' ''enrollment rejected''"

definition enroll_response :: "EnrollAgentOutput \<Rightarrow> json" where
  "enroll_response out = JObj [(''agent_id'', JStr (ag_ID (eo_Agent out))), (''organization_id'', JStr (eo_OrganizationID out)),
     (''status'', JStr (agent_status_string (ag_Status (eo_Agent out)))), (''agent_credential'', JStr (eo_AgentCredential out)),
     (''enrolled_at'', JStr (FormatRFC3339 (ag_EnrolledAt (eo_Agent out))))]"

definition enroll_input :: "Request \<Rightarrow> enrollRequest \<Rightarrow> EnrollAgentInput" where
  "enroll_input r b = \<lparr>ei_BootstrapSecret = er_BootstrapSecret b, ei_Hostname = TrimSpace (er_Hostname b), ei_AgentVersion = TrimSpace (er_AgentVersion b),
     ei_MachineFingerprint = er_MachineFingerprint b, ei_InstallID = TrimSpace (er_InstallID b), ei_RequestID = rq_RequestID r\<rparr>"

definition AgentsEnroll :: "env \<Rightarrow> (string \<Rightarrow> string) \<Rightarrow> string \<Rightarrow> Request \<Rightarrow> enrollRequest option \<Rightarrow> ('z enroll_db_scheme, Response) prog" where
  "AgentsEnroll env sha rng r body =
     (case body of
        None \<Rightarrow> retE enrollment_rejected
      | Some b \<Rightarrow>
          bindE (tryE (EnrollAgent env sha rng (enroll_input r b))) (\<lambda>a.
          case a of
            Inl e \<Rightarrow> if e = ErrEnrollmentRejected then retE enrollment_rejected else retE (WriteError 500 ''internal_error'' ''enrollment failed'')
          | Inr out \<Rightarrow> retE (WriteJSON 201 (enroll_response out))))"

definition agent_item :: "Agent \<Rightarrow> json" where
  "agent_item a = JObj ([(''id'', JStr (ag_ID a)), (''organization_id'', JStr (ag_OrganizationID a)), (''hostname'', JStr (ag_Hostname a)),
     (''status'', JStr (agent_status_string (ag_Status a)))] @ omit_str ''agent_version'' (ag_AgentVersion a) @
     [(''enrolled_at'', JStr (FormatRFC3339 (ag_EnrolledAt a))), (''last_seen_at'', JStr (FormatRFC3339 (ag_LastSeenAt a)))] @
     omit_str ''deployment_package_id'' (ag_DeploymentPackageID a) @ omit_str ''group_name'' (ag_GroupName a) @ omit_arr ''labels'' (map JStr (ag_Labels a)))"

definition AgentsList :: "env \<Rightarrow> operator \<Rightarrow> ('z enroll_db_scheme, Response) prog" where
  "AgentsList env op =
     (case op of
        None \<Rightarrow> retE (WriteError 401 ''unauthorized'' ''authentication required'')
      | Some (user, x) \<Rightarrow>
          bindE (tryE (ListAgents env (us_OrganizationID user))) (\<lambda>a.
          case a of
            Inl e \<Rightarrow> retE (WriteError 500 ''internal_error'' ''could not list agents'')
          | Inr agents \<Rightarrow> retE (WriteJSON 200 (JObj [(''items'', JArr (map agent_item agents)), (''next_cursor'', JNull)]))))"

definition nextHeartbeatSeconds :: int where "nextHeartbeatSeconds = 300"

definition AgentHeartbeat :: "env \<Rightarrow> (string \<times> string) option \<Rightarrow> AuthenticatedAgent \<Rightarrow> ('z enroll_db_scheme, Response) prog" where
  "AgentHeartbeat env body agent =
     (case body of
        None \<Rightarrow> retE (WriteError 400 ''bad_request'' ''invalid JSON body'')
      | Some (agentVersion, hostname) \<Rightarrow>
          bindE (tryE (RecordHeartbeat env \<lparr>hb_AgentID = aa_AgentID agent, hb_OrganizationID = aa_OrganizationID agent,
            hb_AgentVersion = agentVersion, hb_Hostname = hostname\<rparr>)) (\<lambda>a.
          case a of
            Inl e \<Rightarrow>
              if e = ErrAgentNotFound then retE (WriteError 401 ''agent_unauthorized'' ''agent authentication required'')
              else retE (WriteError 500 ''internal_error'' ''could not record heartbeat'')
          | Inr _ \<Rightarrow>
              bindE (Now env) (\<lambda>now.
              retE (WriteJSON 200 (JObj [(''status'', JStr ''ok''), (''server_time'', JStr (FormatRFC3339 now)),
                (''next_heartbeat_seconds'', JNum nextHeartbeatSeconds)])))))"

definition AgentMe :: "AuthenticatedAgent \<Rightarrow> ('s, Response) prog" where
  "AgentMe agent = retE (WriteJSON 200 (JObj ([(''agent_id'', JStr (aa_AgentID agent)), (''organization_id'', JStr (aa_OrganizationID agent)),
     (''status'', JStr (agent_status_string (aa_Status agent)))] @ omit_str ''deployment_package_id'' (aa_DeploymentPackageID agent) @
     omit_str ''agent_version'' (aa_AgentVersion agent) @ omit_str ''group_name'' (aa_GroupName agent) @ omit_arr ''labels'' (map JStr (aa_Labels agent)))))"

section \<open>Deployment packages\<close>

record deploymentPackageRequest =
  dr_Name :: string
  dr_Description :: string
  dr_PackageType :: string
  dr_AgentVersion :: string
  dr_TTLSeconds :: int
  dr_MaxUses :: int
  dr_DefaultGroupName :: string
  dr_DefaultLabels :: "string list"

text \<open>The conversion of a string to the type; and \<open>time.Duration(n) * time.Second\<close>, which wraps.\<close>

definition package_type_of :: "string \<Rightarrow> PackageType" where
  "package_type_of s =
     (case find (\<lambda>t. package_type_string t = s) [PackageTypeBaseline, PackageTypeBulkSCCM, PackageTypeTechnician, PackageTypeVIP, PackageTypeLab] of
        Some t \<Rightarrow> t
      | None \<Rightarrow> PackageTypeOther s)"

definition seconds :: "int \<Rightarrow> Duration" where
  "seconds n = wrap64 (n * second)"

definition create_input :: "User \<Rightarrow> deploymentPackageRequest \<Rightarrow> CreatePackageInput" where
  "create_input user b = \<lparr>cp_OrganizationID = us_OrganizationID user, cp_CreatedByUserID = us_ID user, cp_Name = TrimSpace (dr_Name b),
     cp_Description = TrimSpace (dr_Description b), cp_PackageType = package_type_of (TrimSpace (dr_PackageType b)), cp_AgentVersion = TrimSpace (dr_AgentVersion b),
     cp_TTL = seconds (dr_TTLSeconds b), cp_MaxUses = dr_MaxUses b, cp_DefaultGroupName = TrimSpace (dr_DefaultGroupName b), cp_DefaultLabels = dr_DefaultLabels b\<rparr>"

definition package_response :: "string \<Rightarrow> CreatePackageOutput \<Rightarrow> json" where
  "package_response publicBaseURL out =
     (let p = co_Package out; expires = JStr (FormatRFC3339 (dp_ExpiresAt p)) in
      JObj ([(''id'', JStr (dp_ID p)), (''organization_id'', JStr (dp_OrganizationID p)), (''name'', JStr (dp_Name p)), (''description'', JStr (dp_Description p)),
        (''package_type'', JStr (package_type_string (dp_PackageType p))), (''agent_version'', JStr (dp_AgentVersion p)), (''max_uses'', JNum (dp_MaxUses p)),
        (''uses_count'', JNum (dp_UsesCount p)), (''expires_at'', expires), (''created_at'', JStr (FormatRFC3339 (dp_CreatedAt p)))] @
        omit_str ''default_group_name'' (dp_DefaultGroupName p) @ omit_arr ''default_labels'' (map JStr (dp_DefaultLabels p)) @
        [(''bootstrap_secret'', JStr (co_BootstrapSecret out)),
         (''bootstrap_metadata'', JObj [(''control_plane_url'', JStr publicBaseURL), (''organization_id'', JStr (dp_OrganizationID p)), (''package_id'', JStr (dp_ID p)),
           (''expires_at'', expires), (''max_uses'', JNum (dp_MaxUses p))])]))"

definition DeploymentPackagesCreate ::
  "env \<Rightarrow> (string \<Rightarrow> string) \<Rightarrow> string \<Rightarrow> string \<Rightarrow> deploymentPackageRequest option \<Rightarrow> operator \<Rightarrow> ('z enroll_db_scheme, Response) prog" where
  "DeploymentPackagesCreate env sha rng publicBaseURL body op =
     (case op of
        None \<Rightarrow> retE (WriteError 401 ''unauthorized'' ''authentication required'')
      | Some (user, x) \<Rightarrow>
          (case body of
             None \<Rightarrow> retE (WriteError 400 ''bad_request'' ''invalid JSON body'')
           | Some b \<Rightarrow>
               bindE (tryE (CreatePackage env sha rng (create_input user b))) (\<lambda>a.
               case a of
                 Inl e \<Rightarrow>
                   if e = ErrInvalidPackageInput then retE (WriteError 400 ''bad_request'' ''deployment package input invalid'')
                   else retE (WriteError 500 ''internal_error'' ''could not create deployment package'')
               | Inr out \<Rightarrow> retE (WriteJSON 201 (package_response publicBaseURL out)))))"

definition revoked_response :: "RevokePackageOutput \<Rightarrow> json" where
  "revoked_response out =
     (let p = ro_Package out in
      JObj ([(''id'', JStr (dp_ID p)), (''organization_id'', JStr (dp_OrganizationID p)), (''name'', JStr (dp_Name p)),
        (''package_type'', JStr (package_type_string (dp_PackageType p))),
        (''revoked_at'', JStr (case dp_RevokedAt p of None \<Rightarrow> [] | Some t \<Rightarrow> FormatRFC3339 t)), (''revoked_by_user_id'', JStr (dp_RevokedByUserID p))] @
        omit_str ''revoked_reason'' (dp_RevokedReason p) @ [(''already_revoked'', JBool (ro_AlreadyRevoked out))]))"

definition DeploymentPackagesRevoke :: "env \<Rightarrow> string \<Rightarrow> string option \<Rightarrow> operator \<Rightarrow> ('z enroll_db_scheme, Response) prog" where
  "DeploymentPackagesRevoke env pathID body op =
     (case op of
        None \<Rightarrow> retE (WriteError 401 ''unauthorized'' ''authentication required'')
      | Some (user, x) \<Rightarrow>
          if TrimSpace pathID = [] then retE (WriteError 400 ''bad_request'' ''package id required'')
          else
            (case body of
               None \<Rightarrow> retE (WriteError 400 ''bad_request'' ''invalid JSON body'')
             | Some reason \<Rightarrow>
                 bindE (tryE (RevokePackage env \<lparr>rv_OrganizationID = us_OrganizationID user, rv_PackageID = TrimSpace pathID,
                   rv_RevokedByUserID = us_ID user, rv_Reason = TrimSpace reason\<rparr>)) (\<lambda>a.
                 case a of
                   Inl e \<Rightarrow>
                     if e = ErrPackageNotFound then retE (WriteError 404 ''not_found'' ''deployment package not found'')
                     else if e = ErrInvalidPackageInput then retE (WriteError 400 ''bad_request'' ''invalid revoke input'')
                     else retE (WriteError 500 ''internal_error'' ''could not revoke deployment package'')
                 | Inr out \<Rightarrow> retE (WriteJSON 200 (revoked_response out)))))"

end
