(* ===== verification/HttpOps.thy ===== *)
theory HttpOps imports AuthOps EnrollOps Http begin

text \<open>
  The theorems on the HTTP layer: who gets past the guards of operator and agent routes, what a login
  opens, and that refusals do not tell their reason.
\<close>

section \<open>Operator routes\<close>

text \<open>Whose request it is: the cookie is signed, its session is live, its account is enabled.\<close>

definition signed_in :: "crypto \<Rightarrow> SignedCookie \<Rightarrow> string \<Rightarrow> Request \<Rightarrow> Time \<Rightarrow> 'z auth_db_scheme \<Rightarrow> (User \<times> Session) option" where
  "signed_in cr signer cookieName r now s =
     (case map_of (rq_Cookies r) cookieName of
        None \<Rightarrow> None
      | Some v \<Rightarrow>
          (case Verify cr signer v of
             Inl _ \<Rightarrow> None
           | Inr i \<Rightarrow>
               (case find (\<lambda>x. se_ID x = i) (t_sessions s) of
                  None \<Rightarrow> None
                | Some x \<Rightarrow>
                    if se_RevokedAt x \<noteq> None \<or> se_ExpiresAt x \<le> now then None
                    else (case find (\<lambda>u. us_ID (ur_user u) = se_UserID x) (t_users s) of
                            None \<Rightarrow> None
                          | Some u \<Rightarrow> if us_Disabled (ur_user u) then None else Some (ur_user u, x)))))"

definition anonymous_after :: "'z auth_db_scheme \<Rightarrow> 'z auth_db_scheme \<Rightarrow> bool" where
  "anonymous_after s s' \<longleftrightarrow> t_users s' = t_users s \<and> audit_events s' = audit_events s \<and> map session_key (t_sessions s') = map session_key (t_sessions s)"

lemma slid_anonymous: "slid x e s s' \<Longrightarrow> anonymous_after s s'"
  by (simp add: slid_def anonymous_after_def update_where_def session_key_def)

lemma db_of_anonymous: "db_of s' = db_of s \<Longrightarrow> anonymous_after s s'"
  using auth_views [of s' s] by (metis anonymous_after_def db_of_audit_cong tables_of_simps(6))

lemma SessionResolver_decides:
  assumes nf: "no_faults env" and ok: "auth_ok pol s"
  shows "case signed_in cr signer name r (clockAt env (w_clock s)) s of
    None \<Rightarrow> \<exists>s1. anonymous_after s s1 \<and> (\<forall>next. SessionResolver env cr pol signer name r next s = next None s1)
  | Some (u, x) \<Rightarrow> \<exists>s1. slid x (NextExpiry pol (clockAt env (w_clock s)) (se_CreatedAt x)) s s1 \<and>
      (\<forall>next. SessionResolver env cr pol signer name r next s = next (Some (u, x\<lparr>se_ExpiresAt := NextExpiry pol (clockAt env (w_clock s)) (se_CreatedAt x)\<rparr>)) s1)"
proof -
  let ?now = "clockAt env (w_clock s)"
  have here: "anonymous_after s s" by (simp add: anonymous_after_def)
  show ?thesis
  proof (cases "map_of (rq_Cookies r) name")
    case None
    then show ?thesis using here by (auto simp: signed_in_def SessionResolver_def)
  next
    case v: (Some v)
    show ?thesis
    proof (cases "Verify cr signer v")
      case (Inl e)
      then show ?thesis using v here by (auto simp: signed_in_def SessionResolver_def)
    next
      case i: (Inr i)
      have no: ?thesis if "signed_in cr signer name r ?now s = None" "Authenticate env pol i s = (Inl e, s1)" "anonymous_after s s1" for e s1
        using v i that by (auto simp: SessionResolver_def bindE_def tryE_def)
      note a = Authenticate_decides [OF nf ok, of i]
      show ?thesis
      proof (cases "find (\<lambda>x. se_ID x = i) (t_sessions s)")
        case None
        with a obtain s1 where "Authenticate env pol i s = (Inl ErrSessionNotFound, s1)" "db_of s1 = db_of s" by auto
        with no [OF _ this(1)] None v i show ?thesis by (simp add: signed_in_def db_of_anonymous)
      next
        case x: (Some x)
        show ?thesis
        proof (cases "se_RevokedAt x \<noteq> None \<or> se_ExpiresAt x \<le> ?now")
          case True
          with a x obtain e s1 where "Authenticate env pol i s = (Inl e, s1)" "db_of s1 = db_of s" unfolding x option.case Let_def by (cases "se_RevokedAt x") auto
          with no [OF _ this(1)] True x v i show ?thesis by (simp add: signed_in_def db_of_anonymous)
        next
          case False
          then have n: "\<not> se_RevokedAt x \<noteq> None" "\<not> se_ExpiresAt x \<le> ?now" by simp_all
          let ?e = "min (?now + sp_Idle pol) (se_CreatedAt x + sp_Absolute pol)"
          have e: "?e = NextExpiry pol ?now (se_CreatedAt x)" by (auto simp: NextExpiry_def Let_def min_def)
          from a obtain u s1 where u: "find (\<lambda>r. us_ID (ur_user r) = se_UserID x) (t_users s) = Some u" and slid: "slid x ?e s s1"
            and run: "Authenticate env pol i s = (if us_Disabled (ur_user u) then Inl ErrUserDisabled else Inr (ur_user u, x\<lparr>se_ExpiresAt := ?e\<rparr>), s1)"
            unfolding x option.case Let_def if_not_P [OF n(1)] if_not_P [OF n(2)] by blast
          show ?thesis
          proof (cases "us_Disabled (ur_user u)")
            case True
            with no [of ErrUserDisabled s1] run slid x u v i n show ?thesis by (simp add: signed_in_def slid_anonymous)
          next
            case False
            then have "signed_in cr signer name r ?now s = Some (ur_user u, x)" using v i x n u by (simp add: signed_in_def)
            moreover have "SessionResolver env cr pol signer name r k s = k (Some (ur_user u, x\<lparr>se_ExpiresAt := ?e\<rparr>)) s1" for k
              using v i run False by (simp add: SessionResolver_def bindE_def tryE_def)
            ultimately show ?thesis using slid unfolding e by auto
          qed
        qed
      qed
    qed
  qed
qed

text \<open>
  C11: A route behind the operator guards runs its handler exactly for a request that is signed in, with that account and its slid
  session, and a route for administrators exactly when that account is one; every other request is answered 401 or 403 before any
  handler runs, with no account, no session and no audit row changed (but for the expiry of a session whose account is disabled).
\<close>

theorem operator_routes:
  assumes "no_faults env" and "auth_ok pol s"
  shows "case signed_in cr signer name r (clockAt env (w_clock s)) s of
    None \<Rightarrow> \<exists>s1. anonymous_after s s1 \<and>
      SessionResolver env cr pol signer name r (RequireAuth handler) s = (Inr (WriteError 401 ''unauthorized'' ''authentication required''), s1) \<and>
      SessionResolver env cr pol signer name r (RequireAdmin handler) s = (Inr (WriteError 401 ''unauthorized'' ''authentication required''), s1)
  | Some (u, x) \<Rightarrow> \<exists>s1. let x' = x\<lparr>se_ExpiresAt := NextExpiry pol (clockAt env (w_clock s)) (se_CreatedAt x)\<rparr> in slid x (se_ExpiresAt x') s s1 \<and>
      SessionResolver env cr pol signer name r (RequireAuth handler) s = handler (Some (u, x')) s1 \<and>
      SessionResolver env cr pol signer name r (RequireAdmin handler) s =
        (if us_Role u = RoleAdmin then handler (Some (u, x')) s1 else (Inr (WriteError 403 ''forbidden'' ''admin role required''), s1))"
proof (cases "signed_in cr signer name r (clockAt env (w_clock s)) s")
  case None
  then obtain s1 where "anonymous_after s s1" and run: "\<And>next. SessionResolver env cr pol signer name r next s = next None s1"
    using SessionResolver_decides [OF assms, of cr signer name r] by auto
  then show ?thesis using None by (auto simp: run RequireAuth_def RequireAdmin_def retE_def)
next
  case (Some ux)
  obtain u x where ux: "ux = (u, x)" by (cases ux)
  let ?x = "x\<lparr>se_ExpiresAt := NextExpiry pol (clockAt env (w_clock s)) (se_CreatedAt x)\<rparr>"
  obtain s1 where slid: "slid x (se_ExpiresAt ?x) s s1" and run: "\<And>next. SessionResolver env cr pol signer name r next s = next (Some (u, ?x)) s1"
    using SessionResolver_decides [OF assms, of cr signer name r] Some ux by auto
  show ?thesis unfolding Some ux option.case prod.case Let_def
    by (intro exI [of _ s1] conjI slid) (simp_all add: run RequireAuth_def RequireAdmin_def retE_def)
qed

section \<open>Login\<close>

lemma find_update_where_key:
  assumes "\<And>r. key (f r) = key r" and "find (\<lambda>r. key r = k) rows = Some r"
  shows "find (\<lambda>r. key r = k) (update_where (\<lambda>r. key r = k) f rows) = Some (f r)"
  using assms(2) by (induction rows) (auto simp: update_where_def assms(1) split: if_splits)

lemma find_snoc: "find P (rows @ [r]) = (case find P rows of None \<Rightarrow> if P r then Some r else None | Some x \<Rightarrow> Some x)"
  by (induction rows) auto

lemma find_by_key:
  assumes "distinct (map key rows)" and "r \<in> set rows"
  shows "find (\<lambda>x. key x = key r) rows = Some r"
  using assms by (induction rows) (auto simp: rev_image_eqI)

text \<open>
  C12: A login with a good password is answered with a cookie that signs its new session in: the next request that carries it, before
  the session expires, is that account's. Every other login gets one and the same answer, which does not say whether the account
  exists, is disabled, or the password was wrong.
\<close>

theorem AuthLogin_opens_session:
  assumes nf: "no_faults env" and ok: "auth_ok pol s" and ids: "idAt env (w_ids s) \<notin> insert [] (se_ID ` set (t_sessions s))"
    and inet: "inet_column (inetText cr) (rq_RemoteIP r) \<noteq> None" and mac: "\<forall>k p. length (hmacSha256 cr k p) = 32"
    and named: "\<forall>u \<in> set (t_users s). us_ID (ur_user u) \<noteq> [] \<and> us_OrganizationID (ur_user u) \<noteq> []"
    and body: "TrimSpace (ToLower email) \<noteq> []" "password \<noteq> []"
  defines "inp \<equiv> \<lparr>li_Email = TrimSpace (ToLower email), li_Password = password, li_UserAgent = rq_UserAgent r, li_RemoteIP = rq_RemoteIP r, li_RequestID = rq_RequestID r\<rparr>"
  shows "case login_user cr inp s of
    None \<Rightarrow> \<exists>reason s'. AuthLogin env cr pol deps r (Some (email, password)) s = (Inr (WriteError 401 ''invalid_credentials'' ''invalid email or password''), s') \<and>
      refused ''auth.login_failed'' reason s s'
  | Some u \<Rightarrow> \<exists>resp ck x s'. AuthLogin env cr pol deps r (Some (email, password)) s = (Inr resp, s') \<and> rs_Status resp = 200 \<and> rs_SetCookie resp = Some ck \<and>
      t_sessions s' = t_sessions s @ [x] \<and> se_UserID x = us_ID (ur_user u) \<and> ck_Expires ck = Some (se_ExpiresAt x) \<and>
      (\<forall>r' now. map_of (rq_Cookies r') (ck_Name ck) = Some (ck_Value ck) \<and> now < se_ExpiresAt x \<longrightarrow>
        signed_in cr (ad_signer deps) (ck_Name ck) r' now s' = Some ((ur_user u)\<lparr>us_LastLoginAt := Some (clockAt env (w_clock s))\<rparr>, x))"
proof (cases "login_user cr inp s")
  case None
  with Login_decides [OF nf ids, of cr inp pol] inet named body obtain reason s' where
    "Login env cr pol inp s = (Inl ErrInvalidCredentials, s')" "refused ''auth.login_failed'' reason s s'" by (auto simp: inp_def)
  then show ?thesis using None body by (auto simp: AuthLogin_def inp_def Let_def bindE_def tryE_def MapAuthError_def retE_def)
next
  case (Some u)
  let ?now = "clockAt env (w_clock s)" and ?i = "idAt env (w_ids s)"
  let ?x = "new_session pol inp (ur_user u) ?i ?now"
  from Login_decides [OF nf ids, of cr inp pol] inet named body Some obtain s' where
    run: "Login env cr pol inp s = (Inr \<lparr>lo_User = ur_user u, lo_Session = ?x\<rparr>, s')" and
    t: "t_sessions s' = t_sessions s @ [stored_session (inetText cr) ?x]"
      "t_users s' = update_where (\<lambda>v. us_ID (ur_user v) = us_ID (ur_user u)) (last_login ?now) (t_users s)"
    by (auto simp: inp_def Let_def)
  let ?ck = "session_cookie deps (Sign cr (ad_signer deps) ?i) (Some (se_ExpiresAt ?x)) 0"
  have resp: "AuthLogin env cr pol deps r (Some (email, password)) s = (Inr ((WriteJSON 200 (user_json (ur_user u)))\<lparr>rs_SetCookie := Some ?ck\<rparr>), s')"
    using run body by (simp add: AuthLogin_def inp_def Let_def bindE_def tryE_def retE_def new_session_def)
  have u: "u \<in> set (t_users s)" "\<not> us_Disabled (ur_user u)"
    using Some by (auto simp: login_user_def dest!: find_Some_D split: option.splits if_splits)
  have fresh: "find (\<lambda>x. se_ID x = ?i) (t_sessions s) = None" unfolding find_None_iff using ids by (metis image_eqI insertCI)
  have x: "find (\<lambda>x. se_ID x = ?i) (t_sessions s') = Some (stored_session (inetText cr) ?x)"
    unfolding t(1) find_snoc using fresh by (simp add: stored_session_def new_session_def)
  have "find (\<lambda>v. us_ID (ur_user v) = us_ID (ur_user u)) (t_users s) = Some u"
    by (rule find_by_key [OF _ u(1)]) (use ok in \<open>simp add: auth_ok_def users_ok_def\<close>)
  then have user: "find (\<lambda>v. us_ID (ur_user v) = us_ID (ur_user u)) (t_users s') = Some (last_login ?now u)"
    unfolding t(2) by (rule find_update_where_key [where key = "\<lambda>v. us_ID (ur_user v)", rotated]) (simp add: last_login_def)
  have "length (cookie_mac cr (ad_signer deps) ?i) = 32" using mac unfolding cookie_mac_def by blast
  then have "cookie_mac cr (ad_signer deps) ?i \<noteq> []" by force
  with ids have v: "Verify cr (ad_signer deps) (Sign cr (ad_signer deps) ?i) = Inr ?i" by (intro Verify_Sign) auto
  have e: "se_ExpiresAt (stored_session (inetText cr) ?x) = se_ExpiresAt ?x" "se_RevokedAt (stored_session (inetText cr) ?x) = None"
    "se_UserID (stored_session (inetText cr) ?x) = us_ID (ur_user u)" "se_ID ?x = ?i" by (simp_all add: stored_session_def new_session_def)
  have "signed_in cr (ad_signer deps) (ck_Name ?ck) r' now s' = Some ((ur_user u)\<lparr>us_LastLoginAt := Some ?now\<rparr>, stored_session (inetText cr) ?x)"
    if "map_of (rq_Cookies r') (ck_Name ?ck) = Some (ck_Value ?ck)" "now < se_ExpiresAt ?x" for r' now
  proof -
    have "ck_Value ?ck = Sign cr (ad_signer deps) ?i" by (simp add: session_cookie_def)
    then show ?thesis using that v x user u(2) e by (simp add: signed_in_def last_login_def)
  qed
  moreover have "ck_Expires ?ck = Some (se_ExpiresAt ?x)" by (simp add: session_cookie_def)
  ultimately show ?thesis unfolding Some option.case
    by (intro exI [of _ "(WriteJSON 200 (user_json (ur_user u)))\<lparr>rs_SetCookie := Some ?ck\<rparr>"] exI [of _ ?ck] exI [of _ "stored_session (inetText cr) ?x"] exI [of _ s'] conjI
        resp t(1) e(3)) (simp_all add: WriteJSON_def e(1))
qed

section \<open>Agents\<close>

lemma enroll_of_tables: "tables_of s = tables_of t \<Longrightarrow> enroll_tables s = enroll_tables t"
  by (cases s; cases t; simp add: tables_of_def enroll_tables_def)

text \<open>
  C14: However an enrollment request fails - a body that does not parse, a blank field, an unknown secret, a package revoked, expired or
  used up, an install identifier already taken - the answer is one and the same, and no package and no agent changes; an admissible
  request is answered with its credential, and enrolls.
\<close>

theorem AgentsEnroll_uniform:
  assumes nf: "no_faults env" and ok: "enroll_ok s" and ids: "\<forall>i. idAt env i \<noteq> []" and rng: "32 \<le> length rng"
  shows "if \<exists>b. body = Some b \<and> validate_enroll (enroll_input r b) = Inr () \<and> (\<exists>p \<in> set (t_packages s). admissible env sha rng (enroll_input r b) s p)
    then \<exists>out s'. AgentsEnroll env sha rng r body s = (Inr (WriteJSON 201 (enroll_response out)), s') \<and> enrolls sha out (clockAt env (w_clock s)) s s'
    else \<exists>s'. AgentsEnroll env sha rng r body s = (Inr enrollment_rejected, s') \<and> enroll_tables s' = enroll_tables s"
proof (cases body)
  case None
  then show ?thesis by (simp add: AgentsEnroll_def retE_def)
next
  case (Some b)
  let ?inp = "enroll_input r b"
  note d = EnrollAgent_decides [OF nf ok ids rng, of ?inp sha]
  show ?thesis
  proof (cases "validate_enroll ?inp = Inr () \<and> (\<exists>p \<in> set (t_packages s). admissible env sha rng ?inp s p)")
    case True
    with d obtain out s' where "EnrollAgent env sha rng ?inp s = (Inr out, s')" "enrolls sha out (clockAt env (w_clock s)) s s'" by auto
    then show ?thesis using True Some by (auto simp: AgentsEnroll_def bindE_def tryE_def retE_def)
  next
    case False
    have "\<exists>s'. EnrollAgent env sha rng ?inp s = (Inl ErrEnrollmentRejected, s') \<and> enroll_tables s' = enroll_tables s"
    proof (cases "validate_enroll ?inp = Inr ()")
      case True
      with d False obtain reason s' where "EnrollAgent env sha rng ?inp s = (Inl ErrEnrollmentRejected, s')" "refused ''agent.enrollment_rejected'' reason s s'" by auto
      then show ?thesis using enroll_of_tables [of s' s] by (auto simp: refused_def)
    qed (use d in auto)
    then show ?thesis using False Some by (auto simp: AgentsEnroll_def bindE_def tryE_def retE_def)
  qed
qed

lemma ToUpper_cons_space: "fold_upper c = CHR '' '' \<Longrightarrow> c = CHR '' ''"
  by (cases "97 \<le> (of_char c :: nat) \<and> (of_char c :: nat) \<le> 122") (auto simp: fold_upper_def dest: arg_cong [where f = "of_char :: char \<Rightarrow> nat"])

lemma TrimSpace_last: "TrimSpace s \<noteq> [] \<Longrightarrow> \<not> isSpace (last (TrimSpace s))"
  unfolding TrimSpace_def by (metis hd_dropWhile last_rev rev_is_Nil_conv)

lemma TrimSpace_Nil_iff: "TrimSpace s = [] \<longleftrightarrow> (\<forall>c \<in> set s. isSpace c)"
  using TrimSpace_nonblank by (auto simp: TrimSpace_def dropWhile_eq_Nil_conv dest: set_dropWhileD)

text \<open>A token is there whenever the scheme is: the header is trimmed before its prefix is compared.\<close>

lemma parseBearer_cases:
  "(\<exists>token. parseBearer hdr = (token, []) \<and> token \<noteq> [] \<and> TrimSpace token = token) \<or>
   parseBearer hdr = ([], ''header_missing'') \<or> parseBearer hdr = ([], ''header_wrong_scheme'')"
proof -
  let ?h = "TrimSpace hdr"
  have "TrimSpace (drop 7 ?h) \<noteq> []" if l: "7 \<le> length ?h" and e: "EqualFold (take 7 ?h) ''bearer ''"
  proof
    assume "TrimSpace (drop 7 ?h) = []"
    then have sp: "\<forall>c \<in> set (drop 7 ?h). isSpace c" by (simp add: TrimSpace_Nil_iff)
    have "?h \<noteq> []" using l by auto
    then have n: "\<not> isSpace (last ?h)" by (rule TrimSpace_last)
    have "map fold_upper (take 7 ?h) ! 6 = CHR '' ''" using e l by (simp add: EqualFold_def ToUpper_def) (simp add: fold_upper_def)
    then have six: "?h ! 6 = CHR '' ''" using l ToUpper_cons_space by simp
    show False
    proof (cases "drop 7 ?h = []")
      case True
      then have "length ?h = 7" using l by simp
      then have "last ?h = ?h ! 6" using last_conv_nth [OF \<open>?h \<noteq> []\<close>] by simp
      then show False using n six by (simp add: isSpace_def)
    next
      case False
      then have "last (drop 7 ?h) = last ?h" by (simp add: last_drop)
      then show False using n sp last_in_set [OF False] by simp
    qed
  qed
  moreover have "length ''bearer '' = 7" by simp
  ultimately show ?thesis unfolding parseBearer_def Let_def by (auto simp: not_less simp del: list.size)
qed

text \<open>
  C15: A route behind the agent guard runs its handler exactly for a request whose bearer token is the credential of an active agent, as
  that agent; every other request gets one and the same 401 and is recorded as a security event, whatever the header looks like.
\<close>

theorem agent_routes:
  assumes nf: "no_faults env" and ok: "enroll_ok s"
  shows "if \<exists>a \<in> set (t_agents s). snd (parseBearer (rq_Authorization r)) = [] \<and> ar_credential_hash a = sha (fst (parseBearer (rq_Authorization r))) \<and> ag_Status (ar_agent a) = AgentStatusActive
    then \<exists>a \<in> set (t_agents s). ar_credential_hash a = sha (fst (parseBearer (rq_Authorization r))) \<and> ag_Status (ar_agent a) = AgentStatusActive \<and>
      RequireAuthenticatedAgent env sha r handler s = handler (agent_principal (ar_agent a)) (stepped s)
    else \<exists>reason s'. RequireAuthenticatedAgent env sha r handler s = (Inr (WriteError 401 ''agent_unauthorized'' ''agent authentication required''), s') \<and>
      refused ''agent.authentication_failed'' reason s s'"
proof -
  obtain token rej where p: "parseBearer (rq_Authorization r) = (token, rej)" by fastforce
  have t: "TrimSpace token \<noteq> []" if "rej = []" using parseBearer_cases [of "rq_Authorization r"] p that by auto
  let ?inp = "\<lparr>ain_AgentCredential = token, ain_HeaderRejection = rej, ain_RequestID = rq_RequestID r, ain_RemoteAddr = rq_RemoteAddr r\<rparr>"
  note d = AuthenticateAgent_decides [OF nf ok, of ?inp sha]
  have run: "RequireAuthenticatedAgent env sha r handler s = (case AuthenticateAgent env sha ?inp s of
      (Inl e, s') \<Rightarrow> (Inr (if e = ErrAgentAuthenticationFailed then WriteError 401 ''agent_unauthorized'' ''agent authentication required''
        else WriteError 500 ''internal_error'' ''agent authentication failed''), s')
    | (Inr agent, s') \<Rightarrow> handler agent s')"
    by (auto simp: RequireAuthenticatedAgent_def p bindE_def tryE_def retE_def split: prod.splits sum.splits)
  show ?thesis
  proof (cases "\<exists>a \<in> set (t_agents s). rej = [] \<and> ar_credential_hash a = sha token \<and> ag_Status (ar_agent a) = AgentStatusActive")
    case True
    then have "ain_HeaderRejection ?inp = [] \<and> TrimSpace (ain_AgentCredential ?inp) \<noteq> [] \<and>
       (\<exists>a \<in> set (t_agents s). ar_credential_hash a = sha (ain_AgentCredential ?inp) \<and> ag_Status (ar_agent a) = AgentStatusActive)" using t by auto
    with d obtain a where a: "a \<in> set (t_agents s)" "ar_credential_hash a = sha token" "AuthenticateAgent env sha ?inp s = (Inr (agent_principal (ar_agent a)), stepped s)"
      by auto
    have "inj_on ar_credential_hash (set (t_agents s))" using ok by (simp add: enroll_ok_def agents_ok_def distinct_map)
    then have "ag_Status (ar_agent a) = AgentStatusActive" using True a by (auto simp: inj_on_def)
    then show ?thesis using True a run p by (auto intro!: bexI [of _ a])
  next
    case False
    then have no: "\<not> (ain_HeaderRejection ?inp = [] \<and> TrimSpace (ain_AgentCredential ?inp) \<noteq> [] \<and>
       (\<exists>a \<in> set (t_agents s). ar_credential_hash a = sha (ain_AgentCredential ?inp) \<and> ag_Status (ar_agent a) = AgentStatusActive))" by auto
    from d [unfolded if_not_P [OF no]] obtain reason s' where "AuthenticateAgent env sha ?inp s = (Inl ErrAgentAuthenticationFailed, s')" "refused ''agent.authentication_failed'' reason s s'" by blast
    then show ?thesis using False run p by auto
  qed
qed

section \<open>Witnesses\<close>

definition demo_deps :: AuthDeps where
  "demo_deps = \<lparr>ad_signer = \<lparr>sc_key = replicate 32 (CHR ''k'')\<rparr>, ad_CookieName = ''sid'', ad_CookieSecure = True\<rparr>"

definition demo_request :: "(string \<times> string) list \<Rightarrow> string \<Rightarrow> Request" where
  "demo_request cookies authorization = \<lparr>rq_Cookies = cookies, rq_Authorization = authorization, rq_RequestID = [], rq_RemoteAddr = [], rq_RemoteIP = [], rq_UserAgent = []\<rparr>"

definition demo_answer :: "(err + Response) \<times> auth_db" where
  "demo_answer = AuthLogin demo_auth_env demo_crypto demo_lifetimes demo_deps (demo_request [] []) (Some ('' A@O '', ''secret'')) demo_admin"

definition demo_cookie :: SetCookie where
  "demo_cookie = the (rs_SetCookie (projr (fst demo_answer)))"

lemma demo_mac: "\<forall>k p. length (hmacSha256 demo_crypto k p) = 32"
  by (auto simp: demo_crypto_def min_def)

theorem AuthLogin_opens_session_witness:
  "\<exists>u x. signed_in demo_crypto (ad_signer demo_deps) ''sid'' (demo_request [(''sid'', ck_Value demo_cookie)] []) 151 (snd demo_answer) = Some (u, x) \<and> us_Role u = RoleAdmin"
proof -
  have ids: "idAt demo_auth_env (w_ids demo_admin) \<notin> insert [] (se_ID ` set (t_sessions demo_admin))"
    and inet: "inet_column (inetText demo_crypto) (rq_RemoteIP (demo_request [] [])) \<noteq> None"
    and named: "\<forall>u \<in> set (t_users demo_admin). us_ID (ur_user u) \<noteq> [] \<and> us_OrganizationID (ur_user u) \<noteq> []"
    and body: "TrimSpace (ToLower '' A@O '') \<noteq> []" "''secret'' \<noteq> []" by code_simp+
  let ?inp = "\<lparr>li_Email = TrimSpace (ToLower '' A@O ''), li_Password = ''secret'', li_UserAgent = rq_UserAgent (demo_request [] []),
    li_RemoteIP = rq_RemoteIP (demo_request [] []), li_RequestID = rq_RequestID (demo_request [] [])\<rparr>"
  have "map_option (\<lambda>u. us_Role (ur_user u)) (login_user demo_crypto ?inp demo_admin) = Some RoleAdmin" by code_simp
  then obtain u where u: "login_user demo_crypto ?inp demo_admin = Some u" and admin: "us_Role (ur_user u) = RoleAdmin" by auto
  have e: "ck_Expires demo_cookie = Some 152" "ck_Name demo_cookie = ''sid''" by code_simp+
  from AuthLogin_opens_session [where deps = demo_deps, OF demo_auth_ok(2,1) ids inet demo_mac named body, unfolded u option.case]
  obtain resp ck x s' where run: "AuthLogin demo_auth_env demo_crypto demo_lifetimes demo_deps (demo_request [] []) (Some ('' A@O '', ''secret'')) demo_admin = (Inr resp, s')"
    and ck: "rs_SetCookie resp = Some ck" "ck_Expires ck = Some (se_ExpiresAt x)"
    and next_request: "\<And>r' now. map_of (rq_Cookies r') (ck_Name ck) = Some (ck_Value ck) \<Longrightarrow> now < se_ExpiresAt x \<Longrightarrow>
        signed_in demo_crypto (ad_signer demo_deps) (ck_Name ck) r' now s' = Some ((ur_user u)\<lparr>us_LastLoginAt := Some (clockAt demo_auth_env (w_clock demo_admin))\<rparr>, x)"
    by blast
  have "ck = demo_cookie" "s' = snd demo_answer" using run ck by (simp_all add: demo_cookie_def demo_answer_def)
  then show ?thesis using next_request [of "demo_request [(''sid'', ck_Value demo_cookie)] []" 151] e ck(2) admin by (simp add: demo_request_def)
qed

theorem operator_routes_witness:
  "\<exists>s1. SessionResolver demo_auth_env demo_crypto demo_lifetimes (ad_signer demo_deps) ''sid'' (demo_request [(''sid'', ''forged.cookie'')] []) (RequireAdmin AuthMe) demo_admin =
     (Inr (WriteError 401 ''unauthorized'' ''authentication required''), s1)"
proof -
  have "signed_in demo_crypto (ad_signer demo_deps) ''sid'' (demo_request [(''sid'', ''forged.cookie'')] []) (clockAt demo_auth_env (w_clock demo_admin)) demo_admin = None" by code_simp
  then show ?thesis
    using operator_routes [where cr = demo_crypto and signer = "ad_signer demo_deps" and name = "''sid''" and r = "demo_request [(''sid'', ''forged.cookie'')] []" and handler = AuthMe, OF demo_auth_ok(2,1)]
    by auto
qed

theorem AgentsEnroll_uniform_witness:
  "\<exists>s'. AgentsEnroll demo_enroll_env demo_sha (demo_bytes (CHR ''B'')) (demo_request [] []) None demo_packaged = (Inr enrollment_rejected, s')"
  using AgentsEnroll_uniform [where body = None and sha = demo_sha and rng = "demo_bytes (CHR ''B'')" and r = "demo_request [] []", OF demo_enroll_env_ok(1) demo_packaged_ok demo_enroll_env_ok(2)]
  by auto

theorem agent_routes_witness:
  "\<exists>s'. RequireAuthenticatedAgent demo_enroll_env demo_sha (demo_request [] ''Bearer  guess'') AgentMe demo_packaged =
     (Inr (WriteError 401 ''agent_unauthorized'' ''agent authentication required''), s')"
proof -
  have "t_agents demo_packaged = []" by code_simp
  then show ?thesis using agent_routes [where r = "demo_request [] ''Bearer  guess''" and sha = demo_sha and handler = AgentMe, OF demo_enroll_env_ok(1) demo_packaged_ok] by auto
qed

end
