(* ===== verification/InventoryStore.thy ===== *)
theory InventoryStore imports EnrollStore FindingRules begin

text \<open>
  The certificate inventory in the database: the types of \<open>inventory/types.go\<close> and \<open>list.go\<close>, the tables
  \<open>certificates\<close> and \<open>certificate_observations\<close> of migrations 0001 and 0005 with the agent snapshots of 0004,
  and every statement of \<open>certificate_inventory_repository.go\<close> and \<open>certificate_inventory_list_repository.go\<close>.

  An insert that meets a primary key, a foreign key or the range of an \<open>INTEGER\<close> column is a database error.
  The string lists are \<open>JSONB\<close> columns: they are read back as they were written.
\<close>

section \<open>Types and tables\<close>

record Certificate =
  crt_ID :: string
  crt_OrganizationID :: string
  crt_FingerprintSHA256 :: string
  crt_Subject :: string
  crt_Issuer :: string
  crt_SerialNumberHex :: string
  crt_SignatureAlg :: string
  crt_PublicKeyAlg :: string
  crt_PublicKeyBits :: int
  crt_NotBefore :: Time
  crt_NotAfter :: Time
  crt_SANs :: "string list"
  crt_KeyUsages :: "string list"
  crt_ExtKeyUsages :: "string list"
  crt_IsSelfSigned :: bool
  crt_IsCA :: bool
  crt_PEM :: string
  crt_FirstSeenAt :: Time
  crt_LastSeenAt :: Time

record CertificateObservation =
  obs_ID :: string
  obs_OrganizationID :: string
  obs_CertificateID :: string
  obs_AgentID :: string
  obs_StoreLocation :: string
  obs_FriendlyName :: string
  obs_FirstSeenAt :: Time
  obs_LastSeenAt :: Time
  obs_RemovedAt :: "Time option"

record Snapshot =
  snp_OrganizationID :: string
  snp_AgentID :: string
  snp_Hostname :: string
  snp_OSName :: string
  snp_OSVersion :: string
  snp_AgentVersion :: string
  snp_MachineArch :: string
  snp_LocalIPs :: "string list"
  snp_InstalledAt :: "Time option"
  snp_ReceivedAt :: Time
  snp_UpdatedAt :: Time

record inv_db = enroll_db +
  t_inv_certificates :: "Certificate list"
  t_inv_observations :: "CertificateObservation list"
  t_snapshots :: "Snapshot list"

definition cert_key :: "Certificate \<Rightarrow> string \<times> string" where
  "cert_key c = (crt_OrganizationID c, crt_FingerprintSHA256 c)"

definition obs_key :: "CertificateObservation \<Rightarrow> string \<times> string \<times> string \<times> string" where
  "obs_key o' = (obs_OrganizationID o', obs_CertificateID o', obs_AgentID o', obs_StoreLocation o')"

section \<open>The transaction\<close>

text \<open>The advisory lock of one agent's batches, inside one transaction.\<close>

definition WithTxLockedAgent :: "env \<Rightarrow> string \<Rightarrow> ('z world_scheme, 'a) prog \<Rightarrow> ('z world_scheme, 'a) prog" where
  "WithTxLockedAgent env agentID fn = WithTx env (bindE (dbcall env) (\<lambda>_. fn))"

interpretation atx: transactor "WithTxLockedAgent env ag" db_of for env ag
proof unfold_locales
  show "WithTxLockedAgent env ag m s = (Inl e, s') \<Longrightarrow> db_of s' = db_of s" for m s e s'
    unfolding WithTxLockedAgent_def by (rule tx.rolls_back)
  show "\<exists>s1 s2. db_of s1 = db_of s \<and> m s1 = (Inr x, s2) \<and> db_of s' = db_of s2"
    if "WithTxLockedAgent env ag m s = (Inr x, s')" for m s x s'
    using tx.commits [OF that [unfolded WithTxLockedAgent_def]]
    by (metis bind_dbcall_Inr db_of_counters(5))
qed

section \<open>Certificates\<close>

text \<open>
  \<open>ON CONFLICT (organization_id, fingerprint_sha256)\<close> merges the two instants with \<open>LEAST\<close> and
  \<open>GREATEST\<close> and leaves every other column; the statement returns the row.
\<close>

definition merge_cert :: "Time \<Rightarrow> Certificate \<Rightarrow> Certificate" where
  "merge_cert at c = c\<lparr>crt_FirstSeenAt := min (crt_FirstSeenAt c) at, crt_LastSeenAt := max (crt_LastSeenAt c) at\<rparr>"

definition new_cert :: "string \<Rightarrow> Time \<Rightarrow> Certificate \<Rightarrow> Certificate" where
  "new_cert i at c = c\<lparr>crt_ID := i, crt_FirstSeenAt := at, crt_LastSeenAt := at\<rparr>"

definition put_cert :: "string \<Rightarrow> Time \<Rightarrow> Certificate \<Rightarrow> Certificate list \<Rightarrow> Certificate list" where
  "put_cert i at c rows =
     put_row cert_key (cert_key c) (merge_cert at) (new_cert i at c) rows"

definition cert_insertable :: "string \<Rightarrow> Certificate \<Rightarrow> 'z inv_db_scheme \<Rightarrow> bool" where
  "cert_insertable i c s \<longleftrightarrow> cert_key c \<in> cert_key ` set (t_inv_certificates s) \<or>
     i \<notin> crt_ID ` set (t_inv_certificates s) \<and> crt_OrganizationID c \<in> fst ` set (t_organizations s)"

definition candidate_id :: "env \<Rightarrow> string \<Rightarrow> ('z world_scheme, string) prog" where
  "candidate_id env i = (if TrimSpace i = [] then NewID env else retE (TrimSpace i))"

definition UpsertCertificate :: "env \<Rightarrow> Certificate \<Rightarrow> Time \<Rightarrow> ('z inv_db_scheme, Certificate) prog" where
  "UpsertCertificate env c observedAt =
     bindE (candidate_id env (crt_ID c)) (\<lambda>i.
     bindE (exec_hit env EDb (\<lambda>s. cert_insertable i c s \<and> - (2 ^ 31) \<le> crt_PublicKeyBits c \<and> crt_PublicKeyBits c < 2 ^ 31)
       (\<lambda>s. s\<lparr>t_inv_certificates := put_cert i observedAt c (t_inv_certificates s)\<rparr>)) (\<lambda>_.
     bindE (getE (\<lambda>s. find (\<lambda>r. cert_key r = cert_key c) (t_inv_certificates s))) (\<lambda>r.
     case r of None \<Rightarrow> throwE EDb | Some stored \<Rightarrow> retE stored)))"

definition GetCertificate :: "env \<Rightarrow> string \<Rightarrow> string \<Rightarrow> ('z inv_db_scheme, Certificate) prog" where
  "GetCertificate env org i =
     bindE (db_query env (\<lambda>s. find (\<lambda>c. crt_ID c = i \<and> crt_OrganizationID c = org) (t_inv_certificates s))) (\<lambda>r.
     case r of None \<Rightarrow> throwE ErrCertificateNotFound | Some c \<Rightarrow> retE c)"

section \<open>Observations\<close>

definition merge_obs :: "string \<Rightarrow> Time \<Rightarrow> CertificateObservation \<Rightarrow> CertificateObservation" where
  "merge_obs friendlyName at r = r\<lparr>obs_FirstSeenAt := min (obs_FirstSeenAt r) at, obs_LastSeenAt := max (obs_LastSeenAt r) at,
     obs_RemovedAt := (if at \<ge> obs_LastSeenAt r then None else obs_RemovedAt r),
     obs_FriendlyName := (if at \<ge> obs_LastSeenAt r \<and> friendlyName \<noteq> [] then friendlyName else obs_FriendlyName r)\<rparr>"

definition new_obs :: "string \<Rightarrow> Time \<Rightarrow> CertificateObservation \<Rightarrow> CertificateObservation" where
  "new_obs i at o' = o'\<lparr>obs_ID := i, obs_FirstSeenAt := at, obs_LastSeenAt := at, obs_RemovedAt := None\<rparr>"

definition put_obs :: "string \<Rightarrow> Time \<Rightarrow> CertificateObservation \<Rightarrow> CertificateObservation list \<Rightarrow> CertificateObservation list" where
  "put_obs i at o' rows =
     put_row obs_key (obs_key o') (merge_obs (obs_FriendlyName o') at) (new_obs i at o') rows"

definition obs_insertable :: "string \<Rightarrow> CertificateObservation \<Rightarrow> 'z inv_db_scheme \<Rightarrow> bool" where
  "obs_insertable i o' s \<longleftrightarrow> obs_key o' \<in> obs_key ` set (t_inv_observations s) \<or>
     i \<notin> obs_ID ` set (t_inv_observations s) \<and>
     (\<exists>r \<in> set (t_agents s). is_agent (obs_AgentID o') (obs_OrganizationID o') r) \<and>
     (\<exists>c \<in> set (t_inv_certificates s). crt_ID c = obs_CertificateID o' \<and> crt_OrganizationID c = obs_OrganizationID o')"

definition UpsertObservation :: "env \<Rightarrow> CertificateObservation \<Rightarrow> Time \<Rightarrow> ('z inv_db_scheme, unit) prog" where
  "UpsertObservation env o' observedAt =
     bindE (candidate_id env (obs_ID o')) (\<lambda>i.
     exec_hit env EDb (obs_insertable i o')
       (\<lambda>s. s\<lparr>t_inv_observations := put_obs i observedAt o' (t_inv_observations s)\<rparr>))"

text \<open>The reconciliation: which active rows of the covered stores a batch does not confirm.\<close>

definition missing_obs :: "string \<Rightarrow> string \<Rightarrow> string list \<Rightarrow> string list \<Rightarrow> Time \<Rightarrow> CertificateObservation \<Rightarrow> bool" where
  "missing_obs org agentID storeCoverage observedCertIDs collectedAt r \<longleftrightarrow>
     obs_OrganizationID r = org \<and> obs_AgentID r = agentID \<and> obs_StoreLocation r \<in> set storeCoverage \<and>
     obs_CertificateID r \<notin> set observedCertIDs \<and> obs_RemovedAt r = None \<and> obs_LastSeenAt r \<le> collectedAt"

definition MarkMissingObservationsRemoved ::
  "env \<Rightarrow> string \<Rightarrow> string \<Rightarrow> string list \<Rightarrow> string list \<Rightarrow> Time \<Rightarrow> ('z inv_db_scheme, int) prog" where
  "MarkMissingObservationsRemoved env org agentID storeCoverage observedCertIDs collectedAt =
     bindE (guardE (TrimSpace org \<noteq> []) ErrInvalidReconciliation) (\<lambda>_.
     bindE (guardE (TrimSpace agentID \<noteq> []) ErrInvalidReconciliation) (\<lambda>_.
     bindE (guardE (storeCoverage \<noteq> []) ErrInvalidReconciliation) (\<lambda>_.
     let gone = missing_obs org agentID storeCoverage observedCertIDs collectedAt in
     bindE (db_query env (\<lambda>s. int (length (filter gone (t_inv_observations s))))) (\<lambda>n.
     bindE (modE (\<lambda>s. s\<lparr>t_inv_observations := update_where gone (\<lambda>r. r\<lparr>obs_RemovedAt := Some collectedAt\<rparr>) (t_inv_observations s)\<rparr>)) (\<lambda>_.
     retE n)))))"

definition ListObservationsForCertificate :: "env \<Rightarrow> string \<Rightarrow> string \<Rightarrow> ('z inv_db_scheme, CertificateObservation list) prog" where
  "ListObservationsForCertificate env org certID =
     db_query env (\<lambda>s. sort_key (\<lambda>r. (- obs_LastSeenAt r, obs_AgentID r))
       (filter (\<lambda>r. obs_OrganizationID r = org \<and> obs_CertificateID r = certID) (t_inv_observations s)))"

definition AgentExistsInOrg :: "env \<Rightarrow> string \<Rightarrow> string \<Rightarrow> ('z inv_db_scheme, bool) prog" where
  "AgentExistsInOrg env org agentID = db_query env (\<lambda>s. \<exists>r \<in> set (t_agents s). is_agent agentID org r)"

end
