(* ===== verification/AgentInventory.thy ===== *)
theory AgentInventory imports InventoryStore Listing begin

text \<open>
  The machine inventory of agents (\<open>agentinventory/service.go\<close>, \<open>list.go\<close>, \<open>snapshot.go\<close>) with its repository
  (\<open>agent_inventory_snapshot_repository.go\<close>): an agent reports its host, the last report replaces the one before, and operators read one report
  or list them by cursor. Lengths are counted in bytes, as the code counts them.
\<close>

section \<open>The repository\<close>

record Summary =
  sm_AgentID :: string
  sm_Hostname :: string
  sm_OSName :: string
  sm_OSVersion :: string
  sm_AgentVersion :: string
  sm_MachineArch :: string
  sm_LocalIPsCount :: int
  sm_InstalledAt :: "Time option"
  sm_ReceivedAt :: Time
  sm_UpdatedAt :: Time

record SummaryRepositoryQuery =
  sq_OrganizationID :: string
  sq_Limit :: int
  sq_CursorReceivedAt :: Time
  sq_CursorAgentID :: string

definition snap_key :: "Snapshot \<Rightarrow> string \<times> string" where
  "snap_key x = (snp_OrganizationID x, snp_AgentID x)"

text \<open>The statement writes \<open>received_at\<close> into both instants; an agent outside the organization violates the foreign key.\<close>

definition snapshot_Upsert :: "env \<Rightarrow> Snapshot \<Rightarrow> ('z inv_db_scheme, unit) prog" where
  "snapshot_Upsert env x =
     exec_hit env EDb (\<lambda>s. \<exists>r \<in> set (t_agents s). is_agent (snp_AgentID x) (snp_OrganizationID x) r)
       (\<lambda>s. s\<lparr>t_snapshots := upsert snap_key (x\<lparr>snp_UpdatedAt := snp_ReceivedAt x\<rparr>) (t_snapshots s)\<rparr>)"

definition GetByAgentAndOrg :: "env \<Rightarrow> string \<Rightarrow> string \<Rightarrow> ('z inv_db_scheme, Snapshot) prog" where
  "GetByAgentAndOrg env agentID org =
     bindE (db_query env (\<lambda>s. find (\<lambda>x. snp_AgentID x = agentID \<and> snp_OrganizationID x = org) (t_snapshots s))) (\<lambda>r.
     case r of None \<Rightarrow> throwE ErrSnapshotNotFound | Some x \<Rightarrow> retE x)"

definition summary_row :: "Snapshot \<Rightarrow> Summary" where
  "summary_row x = \<lparr>sm_AgentID = snp_AgentID x, sm_Hostname = snp_Hostname x, sm_OSName = snp_OSName x, sm_OSVersion = snp_OSVersion x,
     sm_AgentVersion = snp_AgentVersion x, sm_MachineArch = snp_MachineArch x, sm_LocalIPsCount = int (length (snp_LocalIPs x)),
     sm_InstalledAt = snp_InstalledAt x, sm_ReceivedAt = snp_ReceivedAt x, sm_UpdatedAt = snp_UpdatedAt x\<rparr>"

definition beyond_summary :: "SummaryRepositoryQuery \<Rightarrow> Snapshot \<Rightarrow> bool" where
  "beyond_summary q x \<longleftrightarrow> (sq_CursorReceivedAt q \<noteq> zeroTime \<longrightarrow>
     snp_ReceivedAt x < sq_CursorReceivedAt q \<or> snp_ReceivedAt x = sq_CursorReceivedAt q \<and> sq_CursorAgentID q < snp_AgentID x)"

definition repo_ListSummaries :: "env \<Rightarrow> SummaryRepositoryQuery \<Rightarrow> ('z inv_db_scheme, Summary list) prog" where
  "repo_ListSummaries env q =
     db_query env (\<lambda>s. map summary_row (take (nat (sq_Limit q)) (sort_key (\<lambda>x. (- snp_ReceivedAt x, snp_AgentID x))
       (filter (\<lambda>x. snp_OrganizationID x = sq_OrganizationID q \<and> beyond_summary q x) (t_snapshots s)))))"

section \<open>Reports\<close>

definition MaxHostnameLength :: nat where "MaxHostnameLength = 255"
definition MaxOSNameLength :: nat where "MaxOSNameLength = 100"
definition MaxOSVersionLength :: nat where "MaxOSVersionLength = 100"
definition MaxAgentVersionLength :: nat where "MaxAgentVersionLength = 64"
definition MaxMachineArchLength :: nat where "MaxMachineArchLength = 64"
definition MaxLocalIPs :: nat where "MaxLocalIPs = 32"
definition MaxLocalIPLength :: nat where "MaxLocalIPLength = 64"

record SubmitInput =
  si_OrganizationID :: string
  si_AgentID :: string
  si_Hostname :: string
  si_OSName :: string
  si_OSVersion :: string
  si_AgentVersion :: string
  si_MachineArch :: string
  si_LocalIPs :: "string list"
  si_InstalledAt :: "Time option"

definition validateField :: "string \<Rightarrow> nat \<Rightarrow> err + string" where
  "validateField v maxBytes =
     (let trimmed = TrimSpace v in if length trimmed > maxBytes then Inl ErrInvalidSnapshotInput else Inr trimmed)"

fun trim_ips :: "string list \<Rightarrow> err + string list" where
  "trim_ips [] = Inr []"
| "trim_ips (raw # rest) =
     (let trimmed = TrimSpace raw in
      if trimmed = [] then Inl ErrInvalidSnapshotInput
      else if length trimmed > MaxLocalIPLength then Inl ErrInvalidSnapshotInput
      else case trim_ips rest of Inl e \<Rightarrow> Inl e | Inr out \<Rightarrow> Inr (trimmed # out))"

definition validateLocalIPs :: "string list \<Rightarrow> err + string list" where
  "validateLocalIPs ips = (if length ips > MaxLocalIPs then Inl ErrInvalidSnapshotInput else if ips = [] then Inr [] else trim_ips ips)"

definition buildSnapshot :: "env \<Rightarrow> SubmitInput \<Rightarrow> ('z world_scheme, Snapshot) prog" where
  "buildSnapshot env inp =
     bindE (guardE (TrimSpace (si_AgentID inp) \<noteq> []) ErrInvalidSnapshotInput) (\<lambda>_.
     bindE (guardE (TrimSpace (si_OrganizationID inp) \<noteq> []) ErrInvalidSnapshotInput) (\<lambda>_.
     bindE (liftE (validateField (si_Hostname inp) MaxHostnameLength)) (\<lambda>hostname.
     bindE (liftE (validateField (si_OSName inp) MaxOSNameLength)) (\<lambda>osName.
     bindE (liftE (validateField (si_OSVersion inp) MaxOSVersionLength)) (\<lambda>osVersion.
     bindE (liftE (validateField (si_AgentVersion inp) MaxAgentVersionLength)) (\<lambda>agentVersion.
     bindE (liftE (validateField (si_MachineArch inp) MaxMachineArchLength)) (\<lambda>machineArch.
     bindE (liftE (validateLocalIPs (si_LocalIPs inp))) (\<lambda>localIPs.
     bindE (Now env) (\<lambda>now.
     retE \<lparr>snp_OrganizationID = TrimSpace (si_OrganizationID inp), snp_AgentID = TrimSpace (si_AgentID inp), snp_Hostname = hostname,
       snp_OSName = osName, snp_OSVersion = osVersion, snp_AgentVersion = agentVersion, snp_MachineArch = machineArch, snp_LocalIPs = localIPs,
       snp_InstalledAt = si_InstalledAt inp, snp_ReceivedAt = now, snp_UpdatedAt = now\<rparr>)))))))))"

definition SubmitSnapshot :: "env \<Rightarrow> SubmitInput \<Rightarrow> ('z inv_db_scheme, Snapshot) prog" where
  "SubmitSnapshot env inp = bindE (buildSnapshot env inp) (\<lambda>x. bindE (snapshot_Upsert env x) (\<lambda>_. retE x))"

definition GetForAgent :: "env \<Rightarrow> string \<Rightarrow> string \<Rightarrow> ('z inv_db_scheme, Snapshot) prog" where
  "GetForAgent env agentID org =
     bindE (guardE (TrimSpace agentID \<noteq> []) ErrInvalidSnapshotInput) (\<lambda>_.
     bindE (guardE (TrimSpace org \<noteq> []) ErrInvalidSnapshotInput) (\<lambda>_.
     GetByAgentAndOrg env agentID org))"

section \<open>The list\<close>

definition snap_DefaultListLimit :: int where "snap_DefaultListLimit = 50"
definition snap_MaxListLimit :: int where "snap_MaxListLimit = 200"

record ListSummariesInput =
  ls_OrganizationID :: string
  ls_Limit :: int
  ls_Cursor :: string

record ListSummariesOutput =
  lo_Items :: "Summary list"
  lo_NextCursor :: string

definition snap_listCursorSeparator :: char where "snap_listCursorSeparator = CHR ''|''"

definition encodeListCursor :: "Time \<Rightarrow> string \<Rightarrow> string" where
  "encodeListCursor receivedAt agentID = RawURLEncode (FormatRFC3339Nano receivedAt @ [snap_listCursorSeparator] @ agentID)"

definition decodeListCursor :: "string \<Rightarrow> err + (Time \<times> string)" where
  "decodeListCursor raw =
     (if raw = [] then Inr (zeroTime, [])
      else case RawURLDecode raw of
        None \<Rightarrow> Inl ErrInvalidListInput
      | Some decoded \<Rightarrow>
          (let parts = SplitN 2 snap_listCursorSeparator decoded in
           if length parts \<noteq> 2 \<or> parts ! 0 = [] \<or> parts ! 1 = [] then Inl ErrInvalidListInput
           else case ParseRFC3339Nano (parts ! 0) of
             None \<Rightarrow> Inl ErrInvalidListInput
           | Some at \<Rightarrow> Inr (at, parts ! 1)))"

definition summaries_query :: "ListSummariesInput \<Rightarrow> err + SummaryRepositoryQuery" where
  "summaries_query inp =
     (if TrimSpace (ls_OrganizationID inp) = [] then Inl ErrInvalidListInput
      else let limit = (if ls_Limit inp = 0 then snap_DefaultListLimit else ls_Limit inp) in
      if limit < 0 then Inl ErrInvalidListInput
      else if limit > snap_MaxListLimit then Inl ErrInvalidListInput
      else case decodeListCursor (ls_Cursor inp) of
        Inl e \<Rightarrow> Inl e
      | Inr (cursorAt, cursorAgent) \<Rightarrow>
          Inr \<lparr>sq_OrganizationID = TrimSpace (ls_OrganizationID inp), sq_Limit = limit + 1, sq_CursorReceivedAt = cursorAt, sq_CursorAgentID = cursorAgent\<rparr>)"

definition ListSummaries :: "env \<Rightarrow> ListSummariesInput \<Rightarrow> ('z inv_db_scheme, ListSummariesOutput) prog" where
  "ListSummaries env inp =
     bindE (liftE (summaries_query inp)) (\<lambda>q.
     bindE (repo_ListSummaries env q) (\<lambda>rows.
     let limit = nat (sq_Limit q - 1) in
     if length rows > limit then
       let lst = rows ! (limit - 1) in
       retE \<lparr>lo_Items = take limit rows, lo_NextCursor = encodeListCursor (sm_ReceivedAt lst) (sm_AgentID lst)\<rparr>
     else retE \<lparr>lo_Items = rows, lo_NextCursor = []\<rparr>))"

end
