(* ===== verification/Inventory.thy ===== *)
theory Inventory imports InventoryStore "HOL-Library.Word" begin

text \<open>
  Certificate ingestion: \<open>inventory/parse.go\<close> (the private-key scan, the single-block rule, the fields read
  from an X.509 certificate) and \<open>Service.Submit\<close> of \<open>inventory/service.go\<close> with its two audit rows.

  The decoders of \<open>encoding/pem\<close> and \<open>crypto/x509\<close> and SHA-256 are arguments, gathered in \<open>x509_lib\<close>; an
  \<open>X509\<close> is the part of \<open>x509.Certificate\<close> the code reads, names and addresses in the form their
  \<open>String\<close> methods print.
\<close>

unbundle bit_operations_syntax

section \<open>Private-key markers\<close>

definition privateKeyPEMMarkers :: "string list" where
  "privateKeyPEMMarkers = [''BEGIN PRIVATE KEY'', ''BEGIN RSA PRIVATE KEY'', ''BEGIN EC PRIVATE KEY'', ''BEGIN DSA PRIVATE KEY'',
     ''BEGIN ENCRYPTED PRIVATE KEY'', ''BEGIN OPENSSH PRIVATE KEY'']"

definition containsPrivateKeyMarker :: "string \<Rightarrow> bool" where
  "containsPrivateKeyMarker s = (let upper = ToUpper s in list_ex (\<lambda>marker. Contains upper marker) privateKeyPEMMarkers)"

section \<open>Reading a certificate\<close>

datatype PublicKey =
    RSAPublicKey nat
  | ECDSAPublicKey "int option"   \<comment> \<open>the size of the curve's field, where the curve is known\<close>
  | Ed25519PublicKey
  | DSAPublicKey "nat option"
  | OtherPublicKey

record X509 =
  x_Raw :: string
  x_Subject :: string
  x_Issuer :: string
  x_SerialNumber :: nat
  x_SignatureAlgorithm :: string
  x_PublicKeyAlgorithm :: string
  x_PublicKey :: PublicKey
  x_NotBefore :: Time
  x_NotAfter :: Time
  x_DNSNames :: "string list"
  x_IPAddresses :: "string list"
  x_URIs :: "string list"
  x_EmailAddresses :: "string list"
  x_KeyUsage :: "64 word"
  x_ExtKeyUsage :: "int list"
  x_SignedByOwnKey :: bool   \<comment> \<open>\<open>CheckSignatureFrom\<close> itself succeeds\<close>
  x_IsCA :: bool

record x509_lib =
  pemDecode :: "string \<Rightarrow> (string \<times> string \<times> string) option"   \<comment> \<open>type, bytes, rest\<close>
  pemEncode :: "string \<Rightarrow> string"                                  \<comment> \<open>a \<open>CERTIFICATE\<close> block of these bytes\<close>
  x509Parse :: "string \<Rightarrow> X509 option"
  sha256Sum :: "string \<Rightarrow> string"

record parsedCertificate =
  pc_FingerprintSHA256 :: string
  pc_Subject :: string
  pc_Issuer :: string
  pc_SerialNumberHex :: string
  pc_SignatureAlg :: string
  pc_PublicKeyAlg :: string
  pc_PublicKeyBits :: int
  pc_NotBefore :: Time
  pc_NotAfter :: Time
  pc_SANs :: "string list"
  pc_KeyUsages :: "string list"
  pc_ExtKeyUsages :: "string list"
  pc_IsSelfSigned :: bool
  pc_IsCA :: bool
  pc_CanonicalPEM :: string

text \<open>\<open>encoding/hex\<close>, \<open>big.Int.Bytes\<close> and \<open>big.Int.BitLen\<close>.\<close>

definition hexDigit :: "nat \<Rightarrow> char" where
  "hexDigit n = ''0123456789abcdef'' ! n"

definition hexEncode :: "string \<Rightarrow> string" where
  "hexEncode s = concat (map (\<lambda>c. [hexDigit (of_char c div 16), hexDigit (of_char c mod 16)]) s)"

fun big_Bytes :: "nat \<Rightarrow> string" where
  "big_Bytes n = (if n = 0 then [] else big_Bytes (n div 256) @ [char_of (n mod 256)])"

fun BitLen :: "nat \<Rightarrow> nat" where
  "BitLen n = (if n = 0 then 0 else Suc (BitLen (n div 2)))"

declare big_Bytes.simps [simp del] BitLen.simps [simp del]

fun publicKeyBitLength :: "PublicKey \<Rightarrow> int" where
  "publicKeyBitLength (RSAPublicKey n) = int (BitLen n)"
| "publicKeyBitLength (ECDSAPublicKey (Some bits)) = bits"
| "publicKeyBitLength (ECDSAPublicKey None) = 0"
| "publicKeyBitLength Ed25519PublicKey = 256"
| "publicKeyBitLength (DSAPublicKey (Some p)) = int (BitLen p)"
| "publicKeyBitLength (DSAPublicKey None) = 0"
| "publicKeyBitLength OtherPublicKey = 0"

definition isSelfSigned :: "X509 \<Rightarrow> bool" where
  "isSelfSigned c = (if x_Subject c \<noteq> x_Issuer c then False else x_SignedByOwnKey c)"

definition extractSANs :: "X509 \<Rightarrow> string list" where
  "extractSANs c = x_DNSNames c @ x_IPAddresses c @ x_URIs c @ x_EmailAddresses c"

definition key_usage_table :: "(64 word \<times> string) list" where
  "key_usage_table = [(1, ''DigitalSignature''), (2, ''ContentCommitment''), (4, ''KeyEncipherment''), (8, ''DataEncipherment''),
     (16, ''KeyAgreement''), (32, ''CertSign''), (64, ''CRLSign''), (128, ''EncipherOnly''), (256, ''DecipherOnly'')]"

definition keyUsageStrings :: "64 word \<Rightarrow> string list" where
  "keyUsageStrings u = map snd (filter (\<lambda>e. u AND fst e \<noteq> 0) key_usage_table)"

definition ext_key_usage_table :: "string list" where
  "ext_key_usage_table = [''Any'', ''ServerAuth'', ''ClientAuth'', ''CodeSigning'', ''EmailProtection'', ''IPSECEndSystem'', ''IPSECTunnel'',
     ''IPSECUser'', ''TimeStamping'', ''OCSPSigning'', ''MicrosoftServerGatedCrypto'', ''NetscapeServerGatedCrypto'',
     ''MicrosoftCommercialCodeSigning'', ''MicrosoftKernelCodeSigning'']"

text \<open>The constants of \<open>x509.ExtKeyUsage\<close> count from zero; others are skipped.\<close>

definition extKeyUsageStrings :: "int list \<Rightarrow> string list" where
  "extKeyUsageStrings usages = concat (map (\<lambda>u.
     if 0 \<le> u \<and> u < int (length ext_key_usage_table) then [ext_key_usage_table ! nat u] else []) usages)"

definition MaxParsedSANCount :: nat where "MaxParsedSANCount = 1024"

definition beginMarker :: string where "beginMarker = ''-----BEGIN CERTIFICATE-----''"

definition trimLeftPEM :: "string \<Rightarrow> string" where
  "trimLeftPEM s = dropWhile (\<lambda>c. c \<in> {CHR '' '', CHR 0x09, CHR 0x0D, CHR 0x0A}) s"

definition parsed_view :: "x509_lib \<Rightarrow> X509 \<Rightarrow> parsedCertificate" where
  "parsed_view x cert = \<lparr>pc_FingerprintSHA256 = hexEncode (sha256Sum x (x_Raw cert)), pc_Subject = x_Subject cert, pc_Issuer = x_Issuer cert,
     pc_SerialNumberHex = hexEncode (big_Bytes (x_SerialNumber cert)), pc_SignatureAlg = x_SignatureAlgorithm cert,
     pc_PublicKeyAlg = x_PublicKeyAlgorithm cert, pc_PublicKeyBits = publicKeyBitLength (x_PublicKey cert),
     pc_NotBefore = x_NotBefore cert, pc_NotAfter = x_NotAfter cert, pc_SANs = extractSANs cert, pc_KeyUsages = keyUsageStrings (x_KeyUsage cert),
     pc_ExtKeyUsages = extKeyUsageStrings (x_ExtKeyUsage cert), pc_IsSelfSigned = isSelfSigned cert, pc_IsCA = x_IsCA cert,
     pc_CanonicalPEM = pemEncode x (x_Raw cert)\<rparr>"

definition parseAndCanonicalize :: "x509_lib \<Rightarrow> string \<Rightarrow> err + parsedCertificate" where
  "parseAndCanonicalize x rawPEM =
     (if TrimSpace rawPEM = [] then Inl ErrMalformedPEM
      else if \<not> HasPrefix (trimLeftPEM rawPEM) beginMarker then Inl ErrMalformedPEM
      else case pemDecode x rawPEM of
        None \<Rightarrow> Inl ErrMalformedPEM
      | Some (blockType, blockBytes, rest) \<Rightarrow>
          if blockType \<noteq> ''CERTIFICATE'' then Inl ErrMalformedPEM
          else if TrimSpace rest \<noteq> [] then Inl ErrMalformedPEM
          else case x509Parse x blockBytes of
            None \<Rightarrow> Inl ErrMalformedPEM
          | Some cert \<Rightarrow>
              if length (extractSANs cert) > MaxParsedSANCount then Inl ErrMalformedPEM
              else Inr (parsed_view x cert))"

section \<open>Submit\<close>

record IngestionCertificate =
  ic_StoreLocation :: string
  ic_FriendlyName :: string
  ic_CertificatePEM :: string

record IngestionInput =
  ii_OrganizationID :: string
  ii_AgentID :: string
  ii_CollectedAt :: Time
  ii_StoreCoverage :: "string list"
  ii_Certificates :: "IngestionCertificate list"

record IngestionOutput =
  io_Accepted :: int
  io_ReconciledAbsent :: int

record ingestionRecord =
  ir_cert :: parsedCertificate
  ir_storeLocation :: string
  ir_friendlyName :: string

definition maxClockSkew :: Duration where "maxClockSkew = 24 * hour"

definition certificateForIngestion :: "string \<Rightarrow> parsedCertificate \<Rightarrow> Certificate" where
  "certificateForIngestion orgID p = \<lparr>crt_ID = [], crt_OrganizationID = orgID, crt_FingerprintSHA256 = pc_FingerprintSHA256 p,
     crt_Subject = pc_Subject p, crt_Issuer = pc_Issuer p, crt_SerialNumberHex = pc_SerialNumberHex p, crt_SignatureAlg = pc_SignatureAlg p,
     crt_PublicKeyAlg = pc_PublicKeyAlg p, crt_PublicKeyBits = pc_PublicKeyBits p, crt_NotBefore = pc_NotBefore p, crt_NotAfter = pc_NotAfter p,
     crt_SANs = pc_SANs p, crt_KeyUsages = pc_KeyUsages p, crt_ExtKeyUsages = pc_ExtKeyUsages p, crt_IsSelfSigned = pc_IsSelfSigned p,
     crt_IsCA = pc_IsCA p, crt_PEM = pc_CanonicalPEM p, crt_FirstSeenAt = zeroTime, crt_LastSeenAt = zeroTime\<rparr>"

definition batch_event :: "IngestionInput \<Rightarrow> string \<Rightarrow> (string \<times> json) list \<Rightarrow> Event" where
  "batch_event inp action md = \<lparr>ev_ID = [], ev_OrganizationID = ii_OrganizationID inp, ev_OccurredAt = zeroTime, ev_Actor = ii_AgentID inp,
     ev_ActorType = ''agent'', ev_Action = action, ev_TargetType = ''agent'', ev_TargetID = ii_AgentID inp, ev_RequestID = [], ev_Metadata = JObj md\<rparr>"

definition recordBatchRejection :: "env \<Rightarrow> IngestionInput \<Rightarrow> string \<Rightarrow> ('z world_scheme, unit) prog" where
  "recordBatchRejection env inp reason =
     mapErrE (\<lambda>_. ErrInternalAudit) (Record env (batch_event inp ''agent.certificate_batch_rejected''
       [(''agent_id'', JStr (ii_AgentID inp)), (''batch_size'', JNum (int (length (ii_Certificates inp)))),
        (''reason'', JStr reason), (''severity'', JStr ''security'')]))"

definition recordBatchInvalid :: "env \<Rightarrow> IngestionInput \<Rightarrow> string \<Rightarrow> ('z world_scheme, unit) prog" where
  "recordBatchInvalid env inp reason =
     mapErrE (\<lambda>_. ErrInternalAudit) (Record env (batch_event inp ''agent.certificate_batch_invalid''
       [(''agent_id'', JStr (ii_AgentID inp)), (''batch_size'', JNum (int (length (ii_Certificates inp)))), (''reason'', JStr reason)]))"

definition dup_key :: "parsedCertificate \<Rightarrow> string \<Rightarrow> string" where
  "dup_key cert store = pc_FingerprintSHA256 cert @ ''|'' @ store"

definition parse_one ::
  "env \<Rightarrow> x509_lib \<Rightarrow> IngestionInput \<Rightarrow> IngestionCertificate \<Rightarrow> string list \<times> ingestionRecord list \<Rightarrow>
     ('z world_scheme, string list \<times> ingestionRecord list) prog" where
  "parse_one env x inp c acc =
     (case parseAndCanonicalize x (ic_CertificatePEM c) of
        Inl _ \<Rightarrow> bindE (recordBatchInvalid env inp ''certificate_unparseable'') (\<lambda>_. throwE ErrInvalidCertificate)
      | Inr cert \<Rightarrow>
          let key = dup_key cert (ic_StoreLocation c) in
          if key \<in> set (fst acc) then throwE ErrInvalidBatch
          else retE (key # fst acc,
            snd acc @ [\<lparr>ir_cert = cert, ir_storeLocation = ic_StoreLocation c, ir_friendlyName = ic_FriendlyName c\<rparr>]))"

definition observation_of :: "IngestionInput \<Rightarrow> string \<Rightarrow> ingestionRecord \<Rightarrow> CertificateObservation" where
  "observation_of inp certID p = \<lparr>obs_ID = [], obs_OrganizationID = ii_OrganizationID inp, obs_CertificateID = certID, obs_AgentID = ii_AgentID inp,
     obs_StoreLocation = ir_storeLocation p, obs_FriendlyName = ir_friendlyName p, obs_FirstSeenAt = zeroTime, obs_LastSeenAt = zeroTime,
     obs_RemovedAt = None\<rparr>"

definition ingest_one ::
  "env \<Rightarrow> IngestionInput \<Rightarrow> ingestionRecord \<Rightarrow> string list \<times> int \<Rightarrow> ('z inv_db_scheme, string list \<times> int) prog" where
  "ingest_one env inp p acc =
     bindE (UpsertCertificate env (certificateForIngestion (ii_OrganizationID inp) (ir_cert p)) (ii_CollectedAt inp)) (\<lambda>stored.
     bindE (UpsertObservation env (observation_of inp (crt_ID stored) p) (ii_CollectedAt inp)) (\<lambda>_.
     retE (fst acc @ [crt_ID stored], snd acc + 1)))"

definition ingest :: "env \<Rightarrow> IngestionInput \<Rightarrow> ingestionRecord list \<Rightarrow> ('z inv_db_scheme, IngestionOutput) prog" where
  "ingest env inp parsed =
     bindE (foldE (ingest_one env inp) parsed ([], 0)) (\<lambda>acc.
     bindE (MarkMissingObservationsRemoved env (ii_OrganizationID inp) (ii_AgentID inp) (ii_StoreCoverage inp) (fst acc) (ii_CollectedAt inp)) (\<lambda>n.
     retE \<lparr>io_Accepted = snd acc, io_ReconciledAbsent = n\<rparr>))"

definition Submit :: "env \<Rightarrow> x509_lib \<Rightarrow> IngestionInput \<Rightarrow> ('z inv_db_scheme, IngestionOutput) prog" where
  "Submit env x inp =
     bindE (guardE (TrimSpace (ii_OrganizationID inp) \<noteq> []) ErrInvalidBatch) (\<lambda>_.
     bindE (guardE (TrimSpace (ii_AgentID inp) \<noteq> []) ErrInvalidBatch) (\<lambda>_.
     bindE (guardE (ii_StoreCoverage inp \<noteq> []) ErrInvalidBatch) (\<lambda>_.
     bindE (guardE (distinct (ii_StoreCoverage inp)) ErrInvalidBatch) (\<lambda>_.
     bindE (guardE (ii_CollectedAt inp \<noteq> zeroTime) ErrInvalidBatch) (\<lambda>_.
     bindE (Now env) (\<lambda>now.
     bindE (guardE (\<not> ii_CollectedAt inp > now + maxClockSkew) ErrInvalidBatch) (\<lambda>_.
     if list_ex (\<lambda>c. containsPrivateKeyMarker (ic_CertificatePEM c)) (ii_Certificates inp)
     then bindE (recordBatchRejection env inp ''private_key_material'') (\<lambda>_. throwE ErrPrivateKeyMaterial)
     else
       bindE (guardE (list_all (\<lambda>c. ic_StoreLocation c \<in> set (ii_StoreCoverage inp)) (ii_Certificates inp)) ErrInvalidBatch) (\<lambda>_.
       bindE (foldE (parse_one env x inp) (ii_Certificates inp) ([], [])) (\<lambda>acc.
       WithTxLockedAgent env (ii_AgentID inp) (ingest env inp (snd acc)))))))))))"

end
