(* ===== verification/Reconcile.thy ===== *)
theory Reconcile imports Inventory EnrollBooks begin

text \<open>
  What a certificate batch promises, and that \<open>Submit\<close> keeps it. The inventory is seen without identifiers:
  for an organization and a fingerprint the span of time it was seen, and for an agent's store the sighting
  there. A batch widens the spans of its certificates, sights each of them in its store, and marks what the covered
  stores no longer show. The invariant of the tables is kept by every run.
\<close>

section \<open>The invariant of the tables\<close>

lemma inv_fields [simp]:
  "t_inv_certificates (db_of s) = t_inv_certificates s" "t_inv_observations (db_of s) = t_inv_observations s" "t_snapshots (db_of s) = t_snapshots s"
  "t_inv_certificates (stepped s) = t_inv_certificates s" "t_inv_observations (stepped s) = t_inv_observations s" "t_snapshots (stepped s) = t_snapshots s"
  by (simp_all add: db_of_def stepped_def)

definition sane_obs :: "CertificateObservation \<Rightarrow> bool" where
  "sane_obs r \<longleftrightarrow> obs_FirstSeenAt r \<le> obs_LastSeenAt r \<and> (case obs_RemovedAt r of None \<Rightarrow> True | Some t \<Rightarrow> obs_LastSeenAt r \<le> t)"

text \<open>An observation's certificate is in its organization and was seen at least as long.\<close>

definition within :: "CertificateObservation \<Rightarrow> Certificate \<Rightarrow> bool" where
  "within r c \<longleftrightarrow> crt_ID c = obs_CertificateID r \<and> crt_OrganizationID c = obs_OrganizationID r \<and>
     crt_FirstSeenAt c \<le> obs_FirstSeenAt r \<and> obs_LastSeenAt r \<le> crt_LastSeenAt c"

definition inv_ok :: "'z inv_db_scheme \<Rightarrow> bool" where
  "inv_ok s \<longleftrightarrow> distinct (map crt_ID (t_inv_certificates s)) \<and> distinct (map cert_key (t_inv_certificates s)) \<and>
     distinct (map obs_ID (t_inv_observations s)) \<and> distinct (map obs_key (t_inv_observations s)) \<and>
     (\<forall>c \<in> set (t_inv_certificates s). crt_FirstSeenAt c \<le> crt_LastSeenAt c) \<and>
     (\<forall>r \<in> set (t_inv_observations s). sane_obs r \<and> (\<exists>c \<in> set (t_inv_certificates s). within r c))"

lemma inv_ok_views [simp]: "inv_ok (db_of s) = inv_ok s" "inv_ok (stepped s) = inv_ok s"
  by (simp_all add: inv_ok_def)

lemma merge_cert_simps [simp]:
  "crt_ID (merge_cert at c) = crt_ID c" "cert_key (merge_cert at c) = cert_key c" "crt_OrganizationID (merge_cert at c) = crt_OrganizationID c"
  "crt_FirstSeenAt (merge_cert at c) = min (crt_FirstSeenAt c) at" "crt_LastSeenAt (merge_cert at c) = max (crt_LastSeenAt c) at"
  by (simp_all add: merge_cert_def cert_key_def)

lemma new_cert_simps [simp]:
  "crt_ID (new_cert i at c) = i" "cert_key (new_cert i at c) = cert_key c" "crt_OrganizationID (new_cert i at c) = crt_OrganizationID c"
  "crt_FirstSeenAt (new_cert i at c) = at" "crt_LastSeenAt (new_cert i at c) = at"
  by (simp_all add: new_cert_def cert_key_def)

lemma merge_obs_simps [simp]:
  "obs_ID (merge_obs n at r) = obs_ID r" "obs_key (merge_obs n at r) = obs_key r" "obs_CertificateID (merge_obs n at r) = obs_CertificateID r"
  "obs_OrganizationID (merge_obs n at r) = obs_OrganizationID r" "obs_AgentID (merge_obs n at r) = obs_AgentID r" "obs_StoreLocation (merge_obs n at r) = obs_StoreLocation r"
  "obs_FirstSeenAt (merge_obs n at r) = min (obs_FirstSeenAt r) at" "obs_LastSeenAt (merge_obs n at r) = max (obs_LastSeenAt r) at"
  by (simp_all add: merge_obs_def obs_key_def)

lemma new_obs_simps [simp]:
  "obs_ID (new_obs i at r) = i" "obs_key (new_obs i at r) = obs_key r" "obs_CertificateID (new_obs i at r) = obs_CertificateID r"
  "obs_OrganizationID (new_obs i at r) = obs_OrganizationID r" "obs_AgentID (new_obs i at r) = obs_AgentID r" "obs_StoreLocation (new_obs i at r) = obs_StoreLocation r"
  "obs_FirstSeenAt (new_obs i at r) = at" "obs_LastSeenAt (new_obs i at r) = at" "obs_RemovedAt (new_obs i at r) = None"
  by (simp_all add: new_obs_def obs_key_def)

lemma sane_merge: "sane_obs r \<Longrightarrow> sane_obs (merge_obs n at r)"
  by (auto simp: sane_obs_def merge_obs_def split: option.splits)

section \<open>The view\<close>

record sighting =
  sg_FirstSeenAt :: Time
  sg_LastSeenAt :: Time
  sg_RemovedAt :: "Time option"
  sg_FriendlyName :: string

definition sighting_row :: "CertificateObservation \<Rightarrow> sighting" where
  "sighting_row r = \<lparr>sg_FirstSeenAt = obs_FirstSeenAt r, sg_LastSeenAt = obs_LastSeenAt r, sg_RemovedAt = obs_RemovedAt r, sg_FriendlyName = obs_FriendlyName r\<rparr>"

definition cert_at :: "'z inv_db_scheme \<Rightarrow> string \<Rightarrow> string \<Rightarrow> Certificate option" where
  "cert_at s org fp = find (\<lambda>c. cert_key c = (org, fp)) (t_inv_certificates s)"

definition obs_at :: "'z inv_db_scheme \<Rightarrow> string \<Rightarrow> string \<Rightarrow> string \<Rightarrow> string \<Rightarrow> CertificateObservation option" where
  "obs_at s org certID ag st = find (\<lambda>r. obs_key r = (org, certID, ag, st)) (t_inv_observations s)"

definition spans :: "'z inv_db_scheme \<Rightarrow> string \<Rightarrow> string \<Rightarrow> (Time \<times> Time) option" where
  "spans s org fp = map_option (\<lambda>c. (crt_FirstSeenAt c, crt_LastSeenAt c)) (cert_at s org fp)"

definition sightings :: "'z inv_db_scheme \<Rightarrow> string \<Rightarrow> string \<Rightarrow> string \<Rightarrow> string \<Rightarrow> sighting option" where
  "sightings s org fp ag st =
     (case cert_at s org fp of None \<Rightarrow> None | Some c \<Rightarrow> map_option sighting_row (obs_at s org (crt_ID c) ag st))"

section \<open>The specification\<close>

definition widen :: "Time \<Rightarrow> (Time \<times> Time) option \<Rightarrow> Time \<times> Time" where
  "widen at v = (case v of None \<Rightarrow> (at, at) | Some (a, b) \<Rightarrow> (min a at, max b at))"

definition resight :: "Time \<Rightarrow> string \<Rightarrow> sighting option \<Rightarrow> sighting" where
  "resight at name v =
     (case v of
        None \<Rightarrow> \<lparr>sg_FirstSeenAt = at, sg_LastSeenAt = at, sg_RemovedAt = None, sg_FriendlyName = name\<rparr>
      | Some x \<Rightarrow>
          if sg_LastSeenAt x \<le> at
          then \<lparr>sg_FirstSeenAt = min (sg_FirstSeenAt x) at, sg_LastSeenAt = at, sg_RemovedAt = None,
                 sg_FriendlyName = (if name = [] then sg_FriendlyName x else name)\<rparr>
          else x\<lparr>sg_FirstSeenAt := min (sg_FirstSeenAt x) at\<rparr>)"

definition missed :: "Time \<Rightarrow> sighting \<Rightarrow> sighting" where
  "missed at x = (if sg_RemovedAt x = None \<and> sg_LastSeenAt x \<le> at then x\<lparr>sg_RemovedAt := Some at\<rparr> else x)"

definition print_of :: "ingestionRecord \<Rightarrow> string" where
  "print_of r = pc_FingerprintSHA256 (ir_cert r)"

definition batch_names :: "ingestionRecord list \<Rightarrow> string \<times> string \<Rightarrow> string option" where
  "batch_names rs = map_of (map (\<lambda>r. ((print_of r, ir_storeLocation r), ir_friendlyName r)) rs)"

definition spans_after :: "IngestionInput \<Rightarrow> ingestionRecord list \<Rightarrow> (string \<Rightarrow> string \<Rightarrow> (Time \<times> Time) option) \<Rightarrow>
    string \<Rightarrow> string \<Rightarrow> (Time \<times> Time) option" where
  "spans_after inp rs v org fp =
     (if org = ii_OrganizationID inp \<and> fp \<in> print_of ` set rs then Some (widen (ii_CollectedAt inp) (v org fp)) else v org fp)"

definition sighted :: "IngestionInput \<Rightarrow> ingestionRecord list \<Rightarrow> (string \<Rightarrow> string \<Rightarrow> string \<Rightarrow> string \<Rightarrow> sighting option) \<Rightarrow>
    string \<Rightarrow> string \<Rightarrow> string \<Rightarrow> string \<Rightarrow> sighting option" where
  "sighted inp rs v org fp ag st =
     (if org = ii_OrganizationID inp \<and> ag = ii_AgentID inp then
        case batch_names rs (fp, st) of
          Some name \<Rightarrow> Some (resight (ii_CollectedAt inp) name (v org fp ag st))
        | None \<Rightarrow> v org fp ag st
      else v org fp ag st)"

definition sightings_after :: "IngestionInput \<Rightarrow> ingestionRecord list \<Rightarrow> (string \<Rightarrow> string \<Rightarrow> string \<Rightarrow> string \<Rightarrow> sighting option) \<Rightarrow>
    string \<Rightarrow> string \<Rightarrow> string \<Rightarrow> string \<Rightarrow> sighting option" where
  "sightings_after inp rs v org fp ag st =
     (if org = ii_OrganizationID inp \<and> ag = ii_AgentID inp \<and> st \<in> set (ii_StoreCoverage inp) \<and> fp \<notin> print_of ` set rs
      then map_option (missed (ii_CollectedAt inp)) (v org fp ag st)
      else sighted inp rs v org fp ag st)"

section \<open>One record\<close>

lemma cert_id_key:
  assumes "inv_ok s" and "c \<in> set (t_inv_certificates s)" and "c' \<in> set (t_inv_certificates s)"
  shows "crt_ID c = crt_ID c' \<longleftrightarrow> c = c'" "cert_key c = cert_key c' \<longleftrightarrow> c = c'"
  using assms by (auto simp: inv_ok_def distinct_map inj_on_def)

lemma cert_at_Some: "cert_at s org fp = Some c \<Longrightarrow> c \<in> set (t_inv_certificates s) \<and> cert_key c = (org, fp)"
  unfolding cert_at_def by (drule find_Some_D) simp

lemma cert_at_upsert:
  assumes "cert_key c = (o', f')"
  shows "cert_at (s\<lparr>t_inv_certificates := put_cert i at c (t_inv_certificates s)\<rparr>) org fp =
    (if (org, fp) = (o', f') then Some (case cert_at s o' f' of None \<Rightarrow> new_cert i at c | Some r \<Rightarrow> merge_cert at r) else cert_at s org fp)"
  unfolding cert_at_def put_cert_def using assms by (simp add: find_put_row)

lemma obs_at_upsert:
  assumes "obs_key r = (o', i', a', s')"
  shows "obs_at (s\<lparr>t_inv_observations := put_obs i at r (t_inv_observations s)\<rparr>) org certID ag st =
    (if (org, certID, ag, st) = (o', i', a', s')
     then Some (case obs_at s o' i' a' s' of None \<Rightarrow> new_obs i at r | Some x \<Rightarrow> merge_obs (obs_FriendlyName r) at x) else obs_at s org certID ag st)"
  unfolding obs_at_def put_obs_def using assms by (simp add: find_put_row)

lemma obs_at_fresh:
  assumes "inv_ok s" and "i \<notin> crt_ID ` set (t_inv_certificates s)"
  shows "obs_at s org i ag st = None"
proof (rule ccontr)
  assume "obs_at s org i ag st \<noteq> None"
  then obtain r where "r \<in> set (t_inv_observations s)" "obs_key r = (org, i, ag, st)"
    unfolding obs_at_def by (auto dest: find_Some_D)
  with assms show False by (force simp: inv_ok_def within_def obs_key_def)
qed

lemma resight_row: "sighting_row (case v of None \<Rightarrow> new_obs i at r | Some x \<Rightarrow> merge_obs (obs_FriendlyName r) at x) =
    resight at (obs_FriendlyName r) (map_option sighting_row v)"
  by (auto simp: sighting_row_def resight_def new_obs_def merge_obs_def split: option.split)

lemma candidate_id_Inr: "candidate_id env i s = (Inr j, s') \<Longrightarrow> \<exists>n. s' = s\<lparr>w_ids := n\<rparr>"
  by (auto simp: candidate_id_def run_simps split: if_splits intro: exI [of _ "w_ids s"])

lemma inv_fields_counters [simp]:
  "t_inv_certificates (s\<lparr>w_ids := n\<rparr>) = t_inv_certificates s" "t_inv_observations (s\<lparr>w_ids := n\<rparr>) = t_inv_observations s"
  by simp_all

lemma UpsertCertificate_Inr:
  assumes "UpsertCertificate env c at s = (Inr stored, s')"
  obtains i n where "cert_insertable i c s" "s' = (stepped (s\<lparr>w_ids := n\<rparr>))\<lparr>t_inv_certificates := put_cert i at c (t_inv_certificates s)\<rparr>"
    "find (\<lambda>r. cert_key r = cert_key c) (t_inv_certificates s') = Some stored"
proof -
  from assms obtain i s1 where 1: "candidate_id env (crt_ID c) s = (Inr i, s1)" and 2: "cert_insertable i c (stepped s1)"
    "s' = (stepped s1)\<lparr>t_inv_certificates := put_cert i at c (t_inv_certificates (stepped s1))\<rparr>"
    "find (\<lambda>r. cert_key r = cert_key c) (t_inv_certificates s') = Some stored"
    unfolding UpsertCertificate_def by (auto simp: run_simps split: option.splits)
  from candidate_id_Inr [OF 1] obtain n where s1: "s1 = s\<lparr>w_ids := n\<rparr>" by blast
  show thesis
  proof (rule that [of i n])
    show "cert_insertable i c s" using 2(1) unfolding s1 by (simp add: cert_insertable_def stepped_def)
    show "s' = (stepped (s\<lparr>w_ids := n\<rparr>))\<lparr>t_inv_certificates := put_cert i at c (t_inv_certificates s)\<rparr>" using 2(2) s1 by simp
    show "find (\<lambda>r. cert_key r = cert_key c) (t_inv_certificates s') = Some stored" by (rule 2(3))
  qed
qed

lemma UpsertObservation_Inr:
  assumes "UpsertObservation env r at s = (Inr u, s')"
  obtains i n where "obs_insertable i r s" "s' = (stepped (s\<lparr>w_ids := n\<rparr>))\<lparr>t_inv_observations := put_obs i at r (t_inv_observations s)\<rparr>"
proof -
  from assms obtain i s1 where 1: "candidate_id env (obs_ID r) s = (Inr i, s1)" and 2: "obs_insertable i r (stepped s1)"
    "s' = (stepped s1)\<lparr>t_inv_observations := put_obs i at r (t_inv_observations (stepped s1))\<rparr>"
    unfolding UpsertObservation_def by (auto simp: run_simps)
  from candidate_id_Inr [OF 1] obtain n where s1: "s1 = s\<lparr>w_ids := n\<rparr>" by blast
  show thesis by (rule that [of i n]) (use 2 in \<open>simp_all add: s1 obs_insertable_def stepped_def\<close>)
qed


text \<open>Upserting a certificate widens one span, keeps every identifier, and shows no sighting that was not there.\<close>

lemma cert_upserted_ok:
  assumes ok: "inv_ok s" and ins: "cert_insertable i c s"
  shows "inv_ok (s\<lparr>t_inv_certificates := put_cert i at c (t_inv_certificates s)\<rparr>)"
proof -
  let ?C = "t_inv_certificates s" and ?C' = "put_cert i at c (t_inv_certificates s)"
  have ids: "distinct (map crt_ID ?C')" using ok ins
    by (auto simp: put_cert_def map_put_row inv_ok_def cert_insertable_def)
  have keys: "distinct (map cert_key ?C')" using ok by (auto simp: put_cert_def distinct_put_row inv_ok_def)
  have order: "\<forall>r \<in> set ?C'. crt_FirstSeenAt r \<le> crt_LastSeenAt r" using ok
    by (auto simp: put_cert_def set_put_row inv_ok_def)
  have "\<exists>c' \<in> set ?C'. within r c'" if "r \<in> set (t_inv_observations s)" for r
  proof -
    from ok that obtain c0 where c0: "c0 \<in> set ?C" "within r c0" by (auto simp: inv_ok_def)
    show ?thesis
    proof (cases "cert_key c0 = cert_key c")
      case True
      then have "merge_cert at c0 \<in> set ?C'" using c0(1) by (auto simp: put_cert_def set_put_row intro: rev_image_eqI)
      moreover have "within r (merge_cert at c0)" using c0(2) by (auto simp: within_def)
      ultimately show ?thesis by blast
    next
      case False
      then have "c0 \<in> set ?C'" using c0(1) by (auto simp: put_cert_def set_put_row)
      then show ?thesis using c0(2) by blast
    qed
  qed
  then show ?thesis using ids keys order ok by (simp add: inv_ok_def)
qed

lemma UpsertCertificate_effect:
  assumes ok: "inv_ok s" and run: "UpsertCertificate env c at s = (Inr stored, s')" and key: "cert_key c = (o', f')"
  shows "inv_ok s'" and "cert_at s' o' f' = Some stored" and "crt_FirstSeenAt stored \<le> at" and "at \<le> crt_LastSeenAt stored"
    and "spans s' org fp = (if (org, fp) = (o', f') then Some (widen at (spans s o' f')) else spans s org fp)"
    and "sightings s' org fp ag st = sightings s org fp ag st"
    and "cert_at s org fp = Some c1 \<Longrightarrow> \<exists>c2. cert_at s' org fp = Some c2 \<and> crt_ID c2 = crt_ID c1"
proof -
  from UpsertCertificate_Inr [OF run] obtain i n where ins: "cert_insertable i c s"
    and s': "s' = (stepped (s\<lparr>w_ids := n\<rparr>))\<lparr>t_inv_certificates := put_cert i at c (t_inv_certificates s)\<rparr>"
    and st: "find (\<lambda>r. cert_key r = cert_key c) (t_inv_certificates s') = Some stored" .
  let ?s = "s\<lparr>t_inv_certificates := put_cert i at c (t_inv_certificates s)\<rparr>"
  have same: "t_inv_certificates s' = t_inv_certificates ?s" "t_inv_observations s' = t_inv_observations ?s" by (simp_all add: s')
  have at_same: "cert_at s' = cert_at ?s" "obs_at s' = obs_at s" by (simp_all add: cert_at_def obs_at_def same fun_eq_iff)
  note at' = cert_at_upsert [where s = s and i = i and at = at, OF key, folded at_same(1)]
  show "inv_ok s'" using cert_upserted_ok [OF ok ins, of at] by (simp add: inv_ok_def same)
  show here: "cert_at s' o' f' = Some stored" using st by (simp add: cert_at_def key)
  then have "stored = (case cert_at s o' f' of None \<Rightarrow> new_cert i at c | Some r \<Rightarrow> merge_cert at r)" by (simp add: at')
  then show "crt_FirstSeenAt stored \<le> at" "at \<le> crt_LastSeenAt stored" by (auto split: option.splits)
  show "spans s' org fp = (if (org, fp) = (o', f') then Some (widen at (spans s o' f')) else spans s org fp)"
    by (simp add: spans_def at' widen_def split: option.split)
  show "cert_at s org fp = Some c1 \<Longrightarrow> \<exists>c2. cert_at s' org fp = Some c2 \<and> crt_ID c2 = crt_ID c1"
    by (auto simp: at')
  show "sightings s' org fp ag st = sightings s org fp ag st"
  proof (cases "cert_at s o' f'")
    case None
    then have "cert_key c \<notin> cert_key ` set (t_inv_certificates s)" by (auto simp: cert_at_def find_None_iff key)
    then have "i \<notin> crt_ID ` set (t_inv_certificates s)" using ins by (simp add: cert_insertable_def)
    from obs_at_fresh [OF ok this] show ?thesis using None by (simp add: sightings_def at' at_same(2) split: option.split)
  qed (simp add: sightings_def at' at_same(2) split: option.split)
qed

text \<open>Upserting an observation changes one sighting.\<close>

lemma obs_upserted_ok:
  assumes ok: "inv_ok s" and ins: "obs_insertable i r s" and c: "c \<in> set (t_inv_certificates s)" "crt_ID c = obs_CertificateID r"
    "crt_OrganizationID c = obs_OrganizationID r" "crt_FirstSeenAt c \<le> at" "at \<le> crt_LastSeenAt c"
  shows "inv_ok (s\<lparr>t_inv_observations := put_obs i at r (t_inv_observations s)\<rparr>)"
proof -
  let ?O = "t_inv_observations s" and ?O' = "put_obs i at r (t_inv_observations s)"
  have ids: "distinct (map obs_ID ?O')" using ok ins by (auto simp: put_obs_def map_put_row inv_ok_def obs_insertable_def)
  have keys: "distinct (map obs_key ?O')" using ok by (auto simp: put_obs_def distinct_put_row inv_ok_def)
  have rows: "sane_obs x \<and> (\<exists>c' \<in> set (t_inv_certificates s). within x c')" if x: "x \<in> set ?O'" for x
  proof -
    consider (old) "x \<in> set ?O" | (new) "x = new_obs i at r" | (merged) y where "y \<in> set ?O" "obs_key y = obs_key r" "x = merge_obs (obs_FriendlyName r) at y"
      using x by (auto simp: put_obs_def set_put_row split: if_splits)
    then show ?thesis
    proof cases
      case old
      then show ?thesis using ok by (simp add: inv_ok_def)
    next
      case new
      then have "sane_obs x" by (simp add: sane_obs_def)
      moreover have "within x c" using new c by (simp add: within_def)
      ultimately show ?thesis using c(1) by blast
    next
      case merged
      then obtain c' where c': "c' \<in> set (t_inv_certificates s)" "within y c'" and y: "sane_obs y" using ok by (auto simp: inv_ok_def)
      have "crt_ID c' = crt_ID c" using c'(2) merged(2) c(2) by (simp add: within_def obs_key_def)
      then have "c' = c" using cert_id_key(1) [OF ok c'(1) c(1)] by simp
      then have "within x c" using c'(2) c(4,5) merged by (auto simp: within_def)
      then show ?thesis using c(1) sane_merge [OF y] merged(3) by blast
    qed
  qed
  then show ?thesis using ids keys ok by (simp add: inv_ok_def)
qed

lemma UpsertObservation_effect:
  assumes ok: "inv_ok s" and run: "UpsertObservation env r at s = (Inr u, s')"
    and c: "cert_at s o' f' = Some c" "crt_FirstSeenAt c \<le> at" "at \<le> crt_LastSeenAt c" and key: "obs_key r = (o', crt_ID c, a', st')"
  shows "inv_ok s'" and "cert_at s' = cert_at s"
    and "sightings s' org fp ag st = (if (org, fp, ag, st) = (o', f', a', st') then Some (resight at (obs_FriendlyName r) (sightings s o' f' a' st'))
       else sightings s org fp ag st)"
proof -
  from UpsertObservation_Inr [OF run] obtain i n where ins: "obs_insertable i r s"
    and s': "s' = (stepped (s\<lparr>w_ids := n\<rparr>))\<lparr>t_inv_observations := put_obs i at r (t_inv_observations s)\<rparr>" .
  let ?s = "s\<lparr>t_inv_observations := put_obs i at r (t_inv_observations s)\<rparr>"
  have same: "t_inv_certificates s' = t_inv_certificates s" "t_inv_observations s' = t_inv_observations ?s" by (simp_all add: s')
  show certs: "cert_at s' = cert_at s" by (simp add: cert_at_def same fun_eq_iff)
  have at': "obs_at s' = obs_at ?s" by (simp add: obs_at_def same fun_eq_iff)
  note at' = obs_at_upsert [where s = s and i = i and at = at, OF key, folded at']
  from cert_at_Some [OF c(1)] have cs: "c \<in> set (t_inv_certificates s)" "cert_key c = (o', f')" by auto
  have "inv_ok ?s" using cs c(2,3) key by (intro obs_upserted_ok [OF ok ins]) (auto simp: cert_key_def obs_key_def)
  then show "inv_ok s'" by (simp add: inv_ok_def same)
  show "sightings s' org fp ag st = (if (org, fp, ag, st) = (o', f', a', st') then Some (resight at (obs_FriendlyName r) (sightings s o' f' a' st'))
       else sightings s org fp ag st)"
  proof (cases "(org, fp) = (o', f')")
    case True
    then show ?thesis by (simp add: sightings_def certs c(1) at' resight_row)
  next
    case False
    show ?thesis
    proof (cases "cert_at s org fp")
      case (Some c2)
      from cert_at_Some [OF Some] have c2: "c2 \<in> set (t_inv_certificates s)" "cert_key c2 = (org, fp)" by auto
      then have "c2 \<noteq> c" using False cs(2) by auto
      then have "crt_ID c2 \<noteq> crt_ID c" using cert_id_key(1) [OF ok c2(1) cs(1)] by simp
      then show ?thesis using False by (auto simp: sightings_def certs Some at')
    qed (use False in \<open>auto simp: sightings_def certs\<close>)
  qed
qed


section \<open>The batch\<close>

definition rec_key :: "ingestionRecord \<Rightarrow> string \<times> string" where
  "rec_key r = (print_of r, ir_storeLocation r)"

lemma batch_names_simps: "batch_names [] k = None"
  "batch_names (rs @ [p]) k = (case batch_names rs k of None \<Rightarrow> if k = rec_key p then Some (ir_friendlyName p) else None | Some n \<Rightarrow> Some n)"
  by (auto simp: batch_names_def rec_key_def map_add_def split: option.split)

lemma batch_names_None: "batch_names rs k = None \<longleftrightarrow> k \<notin> rec_key ` set rs"
  by (auto simp: batch_names_def map_of_eq_None_iff rec_key_def image_image)

lemma widen_widen: "widen at (Some (widen at v)) = widen at v"
  by (auto simp: widen_def split: option.split)

lemma spans_after_snoc: "spans_after inp (rs @ [p]) v = spans_after inp [p] (spans_after inp rs v)"
  by (auto simp: spans_after_def fun_eq_iff widen_widen)

lemma sighted_snoc: "rec_key p \<notin> rec_key ` set rs \<Longrightarrow> sighted inp (rs @ [p]) v = sighted inp [p] (sighted inp rs v)"
  using batch_names_None [of rs "rec_key p"] batch_names_simps(2) [of "[]" p]
  by (auto simp: sighted_def fun_eq_iff batch_names_simps split: option.split)

lemma none_yet: "spans_after inp [] v = v" "sighted inp [] w = w"
  by (simp_all add: spans_after_def sighted_def batch_names_simps fun_eq_iff)

lemma for_ingestion_key: "cert_key (certificateForIngestion org (ir_cert p)) = (org, print_of p)"
  by (simp add: certificateForIngestion_def cert_key_def print_of_def)

lemma observation_key: "obs_key (observation_of inp i p) = (ii_OrganizationID inp, i, ii_AgentID inp, ir_storeLocation p)"
  "obs_FriendlyName (observation_of inp i p) = ir_friendlyName p"
  by (simp_all add: observation_of_def obs_key_def)

lemma ingest_one_effect:
  assumes ok: "inv_ok s" and run: "ingest_one env inp p acc s = (Inr acc', s')"
  shows "inv_ok s'" and "spans s' = spans_after inp [p] (spans s)" and "sightings s' = sighted inp [p] (sightings s)"
    and "\<exists>c. cert_at s' (ii_OrganizationID inp) (print_of p) = Some c \<and> acc' = (fst acc @ [crt_ID c], snd acc + 1)"
    and "cert_at s org fp = Some c1 \<Longrightarrow> \<exists>c2. cert_at s' org fp = Some c2 \<and> crt_ID c2 = crt_ID c1"
proof -
  let ?c = "certificateForIngestion (ii_OrganizationID inp) (ir_cert p)"
  from run obtain stored s1 u where 1: "UpsertCertificate env ?c (ii_CollectedAt inp) s = (Inr stored, s1)"
    and 2: "UpsertObservation env (observation_of inp (crt_ID stored) p) (ii_CollectedAt inp) s1 = (Inr u, s')"
    and acc': "acc' = (fst acc @ [crt_ID stored], snd acc + 1)"
    unfolding ingest_one_def by (auto simp: run_simps)
  note c = UpsertCertificate_effect [OF ok 1 for_ingestion_key]
  note o' = UpsertObservation_effect [OF c(1) 2 c(2-4) observation_key(1)]
  show "inv_ok s'" by (rule o'(1))
  show "spans s' = spans_after inp [p] (spans s)"
    using o'(2) by (auto simp: fun_eq_iff spans_after_def c(5) spans_def [of s'] spans_def [of s1, symmetric])
  have "batch_names [p] k = (if k = rec_key p then Some (ir_friendlyName p) else None)" for k
    using batch_names_simps(2) [of "[]" p k] by (simp add: batch_names_simps)
  then show "sightings s' = sighted inp [p] (sightings s)"
    by (auto simp: fun_eq_iff sighted_def o'(3) c(6) observation_key rec_key_def)
  show "\<exists>c. cert_at s' (ii_OrganizationID inp) (print_of p) = Some c \<and> acc' = (fst acc @ [crt_ID c], snd acc + 1)"
    using c(2) acc' by (simp add: o'(2))
  show "cert_at s org fp = Some c1 \<Longrightarrow> \<exists>c2. cert_at s' org fp = Some c2 \<and> crt_ID c2 = crt_ID c1"
    using c(7) by (simp add: o'(2))
qed

definition batch_ids :: "IngestionInput \<Rightarrow> ingestionRecord list \<Rightarrow> 'z inv_db_scheme \<Rightarrow> string list" where
  "batch_ids inp rs s = map (\<lambda>p. crt_ID (the (cert_at s (ii_OrganizationID inp) (print_of p)))) rs"

definition batch_stored :: "IngestionInput \<Rightarrow> ingestionRecord list \<Rightarrow> 'z inv_db_scheme \<Rightarrow> bool" where
  "batch_stored inp rs s \<longleftrightarrow> (\<forall>p \<in> set rs. cert_at s (ii_OrganizationID inp) (print_of p) \<noteq> None)"

lemma ingest_loop_effect:
  assumes ok: "inv_ok s" and new: "distinct (map rec_key rs)" and run: "foldE (ingest_one env inp) rs ([], 0) s = (Inr acc, s')"
  shows "inv_ok s' \<and> spans s' = spans_after inp rs (spans s) \<and> sightings s' = sighted inp rs (sightings s) \<and>
    acc = (batch_ids inp rs s', int (length rs)) \<and> batch_stored inp rs s'"
proof (rule foldE_rule [where I = "\<lambda>seen acc s1. inv_ok s1 \<and> spans s1 = spans_after inp seen (spans s) \<and> sightings s1 = sighted inp seen (sightings s) \<and>
    acc = (batch_ids inp seen s1, int (length seen)) \<and> batch_stored inp seen s1", OF run])
  show "inv_ok s \<and> spans s = spans_after inp [] (spans s) \<and> sightings s = sighted inp [] (sightings s) \<and>
    ([], 0) = (batch_ids inp [] s, int (length [])) \<and> batch_stored inp [] s"
    using ok by (simp add: none_yet batch_ids_def batch_stored_def)
next
  fix seen p rest acc s1 acc' s2
  assume split: "rs = seen @ p # rest"
    and I: "inv_ok s1 \<and> spans s1 = spans_after inp seen (spans s) \<and> sightings s1 = sighted inp seen (sightings s) \<and>
      acc = (batch_ids inp seen s1, int (length seen)) \<and> batch_stored inp seen s1"
    and run1: "ingest_one env inp p acc s1 = (Inr acc', s2)"
  then have ok1: "inv_ok s1" by simp
  note e = ingest_one_effect [OF ok1 run1]
  have "rec_key p \<notin> rec_key ` set seen" using new split by auto
  from sighted_snoc [OF this, of inp "sightings s"] have 3: "sightings s2 = sighted inp (seen @ [p]) (sightings s)" using I e(3) by simp
  have old: "cert_at s2 (ii_OrganizationID inp) (print_of q) \<noteq> None \<and>
      crt_ID (the (cert_at s2 (ii_OrganizationID inp) (print_of q))) = crt_ID (the (cert_at s1 (ii_OrganizationID inp) (print_of q)))" if "q \<in> set seen" for q
    using I that e(5) [of "ii_OrganizationID inp" "print_of q"] by (fastforce simp: batch_stored_def)
  then have "batch_ids inp seen s2 = batch_ids inp seen s1" by (simp add: batch_ids_def)
  with e(4) I have "acc' = (batch_ids inp (seen @ [p]) s2, int (length (seen @ [p])))" by (auto simp: batch_ids_def)
  moreover have "batch_stored inp (seen @ [p]) s2" using old e(4) by (auto simp: batch_stored_def)
  ultimately show "inv_ok s2 \<and> spans s2 = spans_after inp (seen @ [p]) (spans s) \<and> sightings s2 = sighted inp (seen @ [p]) (sightings s) \<and>
      acc' = (batch_ids inp (seen @ [p]) s2, int (length (seen @ [p]))) \<and> batch_stored inp (seen @ [p]) s2"
    using e(1,2) 3 I by (simp add: spans_after_snoc)
qed

text \<open>The reconciliation, on the view.\<close>

definition reconciled :: "IngestionInput \<Rightarrow> ingestionRecord list \<Rightarrow> (string \<Rightarrow> string \<Rightarrow> string \<Rightarrow> string \<Rightarrow> sighting option) \<Rightarrow>
    string \<Rightarrow> string \<Rightarrow> string \<Rightarrow> string \<Rightarrow> sighting option" where
  "reconciled inp rs v org fp ag st =
     (if org = ii_OrganizationID inp \<and> ag = ii_AgentID inp \<and> st \<in> set (ii_StoreCoverage inp) \<and> fp \<notin> print_of ` set rs
      then map_option (missed (ii_CollectedAt inp)) (v org fp ag st) else v org fp ag st)"

lemma reconciled_sighted: "reconciled inp rs (sighted inp rs v) = sightings_after inp rs v"
proof -
  have "fp \<notin> print_of ` set rs \<Longrightarrow> batch_names rs (fp, st) = None" for fp st by (auto simp: batch_names_None rec_key_def)
  then show ?thesis by (auto simp: fun_eq_iff reconciled_def sightings_after_def sighted_def)
qed

definition gone_obs :: "IngestionInput \<Rightarrow> ingestionRecord list \<Rightarrow> 'z inv_db_scheme \<Rightarrow> CertificateObservation \<Rightarrow> bool" where
  "gone_obs inp rs s = missing_obs (ii_OrganizationID inp) (ii_AgentID inp) (ii_StoreCoverage inp) (batch_ids inp rs s) (ii_CollectedAt inp)"

definition mark_removed :: "Time \<Rightarrow> CertificateObservation \<Rightarrow> CertificateObservation" where
  "mark_removed at r = r\<lparr>obs_RemovedAt := Some at\<rparr>"

lemma mark_removed_key [simp]: "obs_key (mark_removed at r) = obs_key r" "obs_ID (mark_removed at r) = obs_ID r"
  "obs_OrganizationID (mark_removed at r) = obs_OrganizationID r" "obs_CertificateID (mark_removed at r) = obs_CertificateID r"
  by (simp_all add: mark_removed_def obs_key_def)

lemma Mark_Inr:
  assumes "MarkMissingObservationsRemoved env (ii_OrganizationID inp) (ii_AgentID inp) (ii_StoreCoverage inp) (batch_ids inp rs s) (ii_CollectedAt inp) s = (Inr n, s')"
  shows "s' = (stepped s)\<lparr>t_inv_observations := update_where (gone_obs inp rs s) (mark_removed (ii_CollectedAt inp)) (t_inv_observations s)\<rparr> \<and>
    n = int (length (filter (gone_obs inp rs s) (t_inv_observations s)))"
  using assms by (auto simp: MarkMissingObservationsRemoved_def Let_def run_simps gone_obs_def mark_removed_def [abs_def])

lemma batch_id_iff:
  assumes ok: "inv_ok s" and st: "batch_stored inp rs s" and c: "cert_at s (ii_OrganizationID inp) fp = Some c"
  shows "crt_ID c \<in> set (batch_ids inp rs s) \<longleftrightarrow> fp \<in> print_of ` set rs"
proof -
  have "crt_ID (the (cert_at s (ii_OrganizationID inp) (print_of p))) = crt_ID c \<longleftrightarrow> print_of p = fp" if "p \<in> set rs" for p
  proof -
    from st that obtain c' where c': "cert_at s (ii_OrganizationID inp) (print_of p) = Some c'" by (auto simp: batch_stored_def)
    from cert_at_Some [OF c'] cert_at_Some [OF c] have "crt_ID c' = crt_ID c \<longleftrightarrow> c' = c" using cert_id_key(1) [OF ok] by blast
    then show ?thesis using c c' cert_at_Some [OF c'] cert_at_Some [OF c] by auto
  qed
  then show ?thesis unfolding batch_ids_def set_map image_iff by metis
qed

lemma find_update_any:
  assumes "\<And>r. Q (f r) = Q r"
  shows "find Q (update_where P f rows) = map_option (\<lambda>r. if P r then f r else r) (find Q rows)"
  unfolding update_where_def using assms by (induction rows) auto

lemma Mark_effect:
  assumes ok: "inv_ok s" and st: "batch_stored inp rs s"
    and run: "MarkMissingObservationsRemoved env (ii_OrganizationID inp) (ii_AgentID inp) (ii_StoreCoverage inp) (batch_ids inp rs s) (ii_CollectedAt inp) s = (Inr n, s')"
  shows "inv_ok s'" and "spans s' = spans s" and "sightings s' = reconciled inp rs (sightings s)"
proof -
  let ?g = "gone_obs inp rs s" and ?f = "mark_removed (ii_CollectedAt inp)"
  from Mark_Inr [OF run] have s': "s' = (stepped s)\<lparr>t_inv_observations := update_where ?g ?f (t_inv_observations s)\<rparr>" by simp
  have obs': "t_inv_observations s' = update_where ?g ?f (t_inv_observations s)" and certs': "t_inv_certificates s' = t_inv_certificates s"
    by (simp_all add: s')
  have at': "cert_at s' = cert_at s" by (simp add: cert_at_def certs' fun_eq_iff)
  then show "spans s' = spans s" by (simp add: spans_def fun_eq_iff)
  have "sane_obs (?f r) \<and> (\<exists>c \<in> set (t_inv_certificates s). within (?f r) c)" if "sane_obs r \<and> (\<exists>c \<in> set (t_inv_certificates s). within r c)" "?g r" for r
    using that by (auto simp: sane_obs_def within_def mark_removed_def gone_obs_def missing_obs_def)
  then show "inv_ok s'" using ok by (auto simp: inv_ok_def obs' certs' map_update_where set_update_where)
  have find': "obs_at s' org i ag st = map_option (\<lambda>r. if ?g r then ?f r else r) (obs_at s org i ag st)" for org i ag st
    unfolding obs_at_def obs' by (rule find_update_any) simp
  show "sightings s' = reconciled inp rs (sightings s)"
  proof (intro ext)
    fix org fp ag st'
    show "sightings s' org fp ag st' = reconciled inp rs (sightings s) org fp ag st'"
    proof (cases "cert_at s org fp")
      case (Some c)
      show ?thesis
      proof (cases "obs_at s org (crt_ID c) ag st'")
        case r: (Some r)
        have key: "obs_key r = (org, crt_ID c, ag, st')" using r unfolding obs_at_def by (auto dest: find_Some_D)
        have "?g r \<longleftrightarrow> org = ii_OrganizationID inp \<and> ag = ii_AgentID inp \<and> st' \<in> set (ii_StoreCoverage inp) \<and> fp \<notin> print_of ` set rs \<and>
            obs_RemovedAt r = None \<and> obs_LastSeenAt r \<le> ii_CollectedAt inp"
          using key batch_id_iff [OF ok st] Some by (auto simp: gone_obs_def missing_obs_def obs_key_def)
        moreover have "sightings s org fp ag st' = Some (sighting_row r)" by (simp add: sightings_def Some r)
        moreover have "sightings s' org fp ag st' = Some (sighting_row (if ?g r then ?f r else r))" by (simp add: sightings_def at' Some find' r)
        ultimately show ?thesis unfolding reconciled_def by (auto simp: missed_def sighting_row_def mark_removed_def)
      next
        case None
        then have "sightings s org fp ag st' = None" "sightings s' org fp ag st' = None" by (simp_all add: sightings_def at' Some find')
        then show ?thesis by (auto simp: reconciled_def)
      qed
    next
      case None
      then have "sightings s org fp ag st' = None" "sightings s' org fp ag st' = None" by (simp_all add: sightings_def at')
      then show ?thesis by (auto simp: reconciled_def)
    qed
  qed
qed

end
