(* ===== verification/InventoryOps.thy ===== *)
theory InventoryOps imports Reconcile begin

text \<open>
  \<open>Submit\<close> as a whole: which batches it accepts, that an accepted one is reconciled exactly and a refused one leaves
  nothing behind, that resubmitting changes nothing, what the order of arrival can and cannot change, and the two
  cases in which the reconciliation leaves a stale sighting active.
\<close>

section \<open>Reading the batch\<close>

lemma of_char_less_256: "(of_char c :: nat) < 256"
  using nat_of_char_less_256 [of c] by simp

lemma hexDigit_no_bar: "n < 16 \<Longrightarrow> hexDigit n \<noteq> CHR ''|''"
proof -
  assume "n < 16"
  then have "hexDigit n \<in> set ''0123456789abcdef''" unfolding hexDigit_def by (intro nth_mem) simp
  then show ?thesis by auto
qed

lemma hexEncode_no_bar: "CHR ''|'' \<notin> set (hexEncode s)"
proof -
  have "(of_char c :: nat) div 16 < 16" "(of_char c :: nat) mod 16 < 16" for c :: char using of_char_less_256 [of c] by (simp_all add: div_less_iff_less_mult)
  then have "CHR ''|'' \<noteq> hexDigit (of_char c div 16)" "CHR ''|'' \<noteq> hexDigit (of_char c mod 16)" for c :: char using hexDigit_no_bar by metis+
  then show ?thesis by (simp add: hexEncode_def)
qed

lemma parsed_print: "parseAndCanonicalize x raw = Inr c \<Longrightarrow> \<exists>d. pc_FingerprintSHA256 c = hexEncode d"
  by (auto simp: parseAndCanonicalize_def parsed_view_def split: if_splits option.splits) blast

lemma bar_split: "CHR ''|'' \<notin> set a \<Longrightarrow> CHR ''|'' \<notin> set b \<Longrightarrow> a @ CHR ''|'' # x = b @ CHR ''|'' # y \<longleftrightarrow> a = b \<and> x = y"
proof (induction a arbitrary: b)
  case Nil
  then show ?case by (cases b) auto
next
  case (Cons c a)
  then show ?case by (cases b) auto
qed

definition entry_read :: "x509_lib \<Rightarrow> IngestionCertificate \<Rightarrow> ingestionRecord \<Rightarrow> bool" where
  "entry_read x c r \<longleftrightarrow> parseAndCanonicalize x (ic_CertificatePEM c) = Inr (ir_cert r) \<and>
     ir_storeLocation r = ic_StoreLocation c \<and> ir_friendlyName r = ic_FriendlyName c"

definition batch_reads :: "x509_lib \<Rightarrow> IngestionInput \<Rightarrow> ingestionRecord list \<Rightarrow> bool" where
  "batch_reads x inp rs \<longleftrightarrow> list_all2 (entry_read x) (ii_Certificates inp) rs \<and> distinct (map rec_key rs)"

lemma dup_key_iff:
  assumes "entry_read x c r" and "entry_read x c' r'"
  shows "dup_key (ir_cert r) (ir_storeLocation r) = dup_key (ir_cert r') (ir_storeLocation r') \<longleftrightarrow> rec_key r = rec_key r'"
proof -
  from assms obtain d d' where "pc_FingerprintSHA256 (ir_cert r) = hexEncode d" "pc_FingerprintSHA256 (ir_cert r') = hexEncode d'"
    using parsed_print by (meson entry_read_def)
  then show ?thesis by (simp add: dup_key_def rec_key_def print_of_def bar_split hexEncode_no_bar)
qed

definition read_so_far :: "x509_lib \<Rightarrow> IngestionCertificate list \<Rightarrow> string list \<times> ingestionRecord list \<Rightarrow> bool" where
  "read_so_far x cs acc \<longleftrightarrow> list_all2 (entry_read x) cs (snd acc) \<and> distinct (map rec_key (snd acc)) \<and>
     set (fst acc) = (\<lambda>r. dup_key (ir_cert r) (ir_storeLocation r)) ` set (snd acc)"

lemma read_so_far_step:
  assumes acc: "read_so_far x cs acc" and c: "entry_read x c r"
  shows "dup_key (ir_cert r) (ir_storeLocation r) \<in> set (fst acc) \<longleftrightarrow> rec_key r \<in> rec_key ` set (snd acc)"
    and "rec_key r \<notin> rec_key ` set (snd acc) \<Longrightarrow> read_so_far x (cs @ [c]) (dup_key (ir_cert r) (ir_storeLocation r) # fst acc, snd acc @ [r])"
proof -
  have same: "dup_key (ir_cert r) (ir_storeLocation r) = dup_key (ir_cert q) (ir_storeLocation q) \<longleftrightarrow> rec_key r = rec_key q" if "q \<in> set (snd acc)" for q
  proof -
    from acc that obtain c' where "entry_read x c' q" unfolding read_so_far_def by (auto simp: list_all2_conv_all_nth in_set_conv_nth)
    from dup_key_iff [OF c this] show ?thesis .
  qed
  then show "dup_key (ir_cert r) (ir_storeLocation r) \<in> set (fst acc) \<longleftrightarrow> rec_key r \<in> rec_key ` set (snd acc)"
    using acc unfolding read_so_far_def by (auto simp: image_iff)
  show "rec_key r \<notin> rec_key ` set (snd acc) \<Longrightarrow> read_so_far x (cs @ [c]) (dup_key (ir_cert r) (ir_storeLocation r) # fst acc, snd acc @ [r])"
    using acc c by (auto simp: read_so_far_def intro: list_all2_appendI)
qed

lemma parse_one_Inr:
  assumes "parse_one env x inp c acc s = (Inr acc', s')" and "read_so_far x cs acc"
  shows "s' = s \<and> read_so_far x (cs @ [c]) acc'"
proof (cases "parseAndCanonicalize x (ic_CertificatePEM c)")
  case (Inr cert)
  let ?r = "\<lparr>ir_cert = cert, ir_storeLocation = ic_StoreLocation c, ir_friendlyName = ic_FriendlyName c\<rparr>"
  have r: "entry_read x c ?r" using Inr by (simp add: entry_read_def)
  note st = read_so_far_step [OF assms(2) r]
  from assms(1) Inr have "dup_key cert (ic_StoreLocation c) \<notin> set (fst acc)" "s' = s"
    "acc' = (dup_key cert (ic_StoreLocation c) # fst acc, snd acc @ [?r])"
    by (auto simp: parse_one_def Let_def run_simps split: if_splits)
  then show ?thesis using st by simp
qed (use assms in \<open>simp add: parse_one_def run_simps\<close>)

lemma read_loop_Inr:
  assumes "foldE (parse_one env x inp) (ii_Certificates inp) ([], []) s = (Inr acc, s')"
  shows "s' = s \<and> batch_reads x inp (snd acc)"
proof -
  have "s' = s \<and> read_so_far x (ii_Certificates inp) acc"
  proof (rule foldE_rule [where I = "\<lambda>cs acc s1. s1 = s \<and> read_so_far x cs acc", OF assms])
    show "s = s \<and> read_so_far x [] ([], [])" by (simp add: read_so_far_def)
  qed (use parse_one_Inr in blast)
  then show ?thesis by (simp add: read_so_far_def batch_reads_def)
qed

lemma read_loop_total:
  assumes "batch_reads x inp rs"
  shows "\<exists>ks. foldE (parse_one env x inp) (ii_Certificates inp) ([], []) s = (Inr (ks, rs), s)"
proof -
  have "\<exists>acc s'. foldE (parse_one env x inp) (ii_Certificates inp) ([], []) s = (Inr acc, s') \<and>
      (s' = s \<and> read_so_far x (ii_Certificates inp) acc \<and> snd acc = take (length (ii_Certificates inp)) rs)"
  proof (rule foldE_total [where I = "\<lambda>cs acc s1. s1 = s \<and> read_so_far x cs acc \<and> snd acc = take (length cs) rs"])
    show "s = s \<and> read_so_far x [] ([], []) \<and> snd ([] :: string list, []) = take (length []) rs" by (simp add: read_so_far_def)
  next
    fix seen c rest acc s1
    assume split: "ii_Certificates inp = seen @ c # rest" and I: "s1 = s \<and> read_so_far x seen acc \<and> snd acc = take (length seen) rs"
    let ?n = "length seen" and ?r = "rs ! length seen"
    have len: "length rs = length (ii_Certificates inp)" using assms by (auto simp: batch_reads_def list_all2_lengthD)
    then have n: "?n < length rs" using split by simp
    have r: "entry_read x c ?r" using list_all2_nthD2 [of "entry_read x" "ii_Certificates inp" rs ?n] assms n split
      by (simp add: batch_reads_def)
    have tk: "take (Suc ?n) rs = take ?n rs @ [?r]" using n by (rule take_Suc_conv_app_nth)
    have "distinct (map rec_key (take (Suc ?n) rs))" using assms unfolding batch_reads_def by (simp add: take_map [symmetric] distinct_take)
    then have new: "rec_key ?r \<notin> rec_key ` set (snd acc)" using I by (simp add: tk)
    note st = read_so_far_step [OF _ r, of seen acc]
    have e: "?r = \<lparr>ir_cert = ir_cert ?r, ir_storeLocation = ic_StoreLocation c, ir_friendlyName = ic_FriendlyName c\<rparr>" using r by (simp add: entry_read_def)
    have "dup_key (ir_cert ?r) (ic_StoreLocation c) \<notin> set (fst acc)" using st(1) new I r by (auto simp: entry_read_def)
    then have "parse_one env x inp c acc s1 = (Inr (dup_key (ir_cert ?r) (ir_storeLocation ?r) # fst acc, snd acc @ [?r]), s1)"
      using r e by (simp add: parse_one_def Let_def retE_def entry_read_def)
    then show "\<exists>acc' s2. parse_one env x inp c acc s1 = (Inr acc', s2) \<and> s2 = s \<and> read_so_far x (seen @ [c]) acc' \<and> snd acc' = take (length (seen @ [c])) rs"
      using st(2) new I tk by (intro exI conjI) auto
  qed
  then obtain acc where "foldE (parse_one env x inp) (ii_Certificates inp) ([], []) s = (Inr acc, s)" "snd acc = take (length (ii_Certificates inp)) rs" by blast
  then show ?thesis using assms list_all2_lengthD unfolding batch_reads_def by (metis order_refl prod.collapse take_all)
qed


section \<open>What the reconciliation counts\<close>

definition absent_keys :: "IngestionInput \<Rightarrow> ingestionRecord list \<Rightarrow> (string \<Rightarrow> string \<Rightarrow> string \<Rightarrow> string \<Rightarrow> sighting option) \<Rightarrow> (string \<times> string) set" where
  "absent_keys inp rs v = {(fp, st). st \<in> set (ii_StoreCoverage inp) \<and> fp \<notin> print_of ` set rs \<and>
     (case v (ii_OrganizationID inp) fp (ii_AgentID inp) st of None \<Rightarrow> False
      | Some x \<Rightarrow> sg_RemovedAt x = None \<and> sg_LastSeenAt x \<le> ii_CollectedAt inp)}"

definition cert_of :: "'z inv_db_scheme \<Rightarrow> CertificateObservation \<Rightarrow> Certificate" where
  "cert_of s r = the (find (\<lambda>c. crt_ID c = obs_CertificateID r) (t_inv_certificates s))"

lemma cert_of_row:
  assumes ok: "inv_ok s" and r: "r \<in> set (t_inv_observations s)"
  shows "cert_at s (obs_OrganizationID r) (crt_FingerprintSHA256 (cert_of s r)) = Some (cert_of s r)" and "crt_ID (cert_of s r) = obs_CertificateID r"
    and "obs_at s (obs_OrganizationID r) (obs_CertificateID r) (obs_AgentID r) (obs_StoreLocation r) = Some r"
proof -
  from ok r obtain c where c: "c \<in> set (t_inv_certificates s)" "within r c" by (auto simp: inv_ok_def)
  have "find (\<lambda>x. crt_ID x = crt_ID c) (t_inv_certificates s) = Some c" using ok c(1) by (intro find_key_distinct) (simp add: inv_ok_def)
  then have co: "cert_of s r = c" using c(2) by (simp add: cert_of_def within_def)
  then show "crt_ID (cert_of s r) = obs_CertificateID r" using c(2) by (simp add: within_def)
  have "find (\<lambda>x. cert_key x = cert_key c) (t_inv_certificates s) = Some c" using ok c(1) by (intro find_key_distinct) (simp add: inv_ok_def)
  moreover have "cert_key c = (obs_OrganizationID r, crt_FingerprintSHA256 c)" using c(2) by (simp add: cert_key_def within_def)
  ultimately show "cert_at s (obs_OrganizationID r) (crt_FingerprintSHA256 (cert_of s r)) = Some (cert_of s r)" by (simp add: cert_at_def co)
  have "find (\<lambda>x. obs_key x = obs_key r) (t_inv_observations s) = Some r" using ok r by (intro find_key_distinct) (simp add: inv_ok_def)
  then show "obs_at s (obs_OrganizationID r) (obs_CertificateID r) (obs_AgentID r) (obs_StoreLocation r) = Some r" by (simp add: obs_at_def obs_key_def)
qed

lemma gone_count:
  assumes ok: "inv_ok s" and st: "batch_stored inp rs s"
  shows "length (filter (gone_obs inp rs s) (t_inv_observations s)) = card (absent_keys inp rs (sightings s))"
proof -
  let ?G = "filter (gone_obs inp rs s) (t_inv_observations s)" and ?f = "\<lambda>r. (crt_FingerprintSHA256 (cert_of s r), obs_StoreLocation r)"
  have org: "obs_OrganizationID r = ii_OrganizationID inp" "obs_AgentID r = ii_AgentID inp" if "gone_obs inp rs s r" for r
    using that by (simp_all add: gone_obs_def missing_obs_def)
  have dist: "distinct ?G" using ok by (simp add: inv_ok_def distinct_map)
  have inj: "inj_on ?f (set ?G)"
  proof (rule inj_onI)
    fix a b assume a: "a \<in> set ?G" and b: "b \<in> set ?G" and eq: "?f a = ?f b"
    then have rows: "a \<in> set (t_inv_observations s)" "b \<in> set (t_inv_observations s)" and g: "gone_obs inp rs s a" "gone_obs inp rs s b" by simp_all
    note ca = cert_of_row [OF ok rows(1), unfolded org [OF g(1)]] and cb = cert_of_row [OF ok rows(2), unfolded org [OF g(2)]]
    have prints: "crt_FingerprintSHA256 (cert_of s a) = crt_FingerprintSHA256 (cert_of s b)" using eq by simp
    have "cert_of s a = cert_of s b" using trans [OF ca(1) [symmetric, unfolded prints] cb(1)] by (rule option.inject [THEN iffD1])
    then have "obs_key a = obs_key b" using ca(2) cb(2) eq org [OF g(1)] org [OF g(2)] by (simp add: obs_key_def)
    moreover have "inj_on obs_key (set (t_inv_observations s))" using ok by (simp add: inv_ok_def distinct_map)
    ultimately show "a = b" using rows by (simp add: inj_on_eq_iff)
  qed
  have "?f ` set ?G = absent_keys inp rs (sightings s)"
  proof (intro equalityI subsetI)
    fix k assume "k \<in> ?f ` set ?G"
    then obtain r where r: "r \<in> set (t_inv_observations s)" "gone_obs inp rs s r" and k: "k = ?f r" by auto
    note c = cert_of_row [OF ok r(1), unfolded org [OF r(2)]]
    have "crt_FingerprintSHA256 (cert_of s r) \<notin> print_of ` set rs"
      using batch_id_iff [OF ok st c(1)] r(2) c(2) by (simp add: gone_obs_def missing_obs_def)
    then show "k \<in> absent_keys inp rs (sightings s)"
      using r(2) c by (simp add: k absent_keys_def sightings_def sighting_row_def gone_obs_def missing_obs_def)
  next
    fix k assume "k \<in> absent_keys inp rs (sightings s)"
    then obtain fp stl x where k: "k = (fp, stl)" "stl \<in> set (ii_StoreCoverage inp)" "fp \<notin> print_of ` set rs"
      "sightings s (ii_OrganizationID inp) fp (ii_AgentID inp) stl = Some x" "sg_RemovedAt x = None" "sg_LastSeenAt x \<le> ii_CollectedAt inp"
      unfolding absent_keys_def by (cases k) (fastforce split: option.splits)
    then obtain c r where c: "cert_at s (ii_OrganizationID inp) fp = Some c" and r: "obs_at s (ii_OrganizationID inp) (crt_ID c) (ii_AgentID inp) stl = Some r"
      and x: "x = sighting_row r" by (auto simp: sightings_def split: option.splits)
    from r have row: "r \<in> set (t_inv_observations s)" "obs_key r = (ii_OrganizationID inp, crt_ID c, ii_AgentID inp, stl)"
      unfolding obs_at_def by (auto dest: find_Some_D)
    have "crt_ID c \<notin> set (batch_ids inp rs s)" using batch_id_iff [OF ok st c] k(3) by simp
    then have g: "gone_obs inp rs s r" using row(2) k x by (simp add: gone_obs_def missing_obs_def obs_key_def sighting_row_def)
    note co = cert_of_row [OF ok row(1)]
    have "crt_ID (cert_of s r) = crt_ID c" using co(2) row(2) by (simp add: obs_key_def)
    moreover have "cert_of s r \<in> set (t_inv_certificates s)" "c \<in> set (t_inv_certificates s)" using cert_at_Some [OF co(1)] cert_at_Some [OF c] by simp_all
    ultimately have "cert_of s r = c" using cert_id_key(1) [OF ok] by blast
    then have kr: "k = ?f r" using k(1) row(2) cert_at_Some [OF c] by (simp add: obs_key_def cert_key_def)
    have "r \<in> set ?G" using g row(1) by simp
    then show "k \<in> ?f ` set ?G" unfolding kr by (rule imageI [where f = ?f])
  qed
  then have "card (absent_keys inp rs (sightings s)) = card (set ?G)" using card_image [OF inj] by simp
  then show ?thesis using distinct_card [OF dist] by simp
qed

lemma ingest_effect:
  assumes ok: "inv_ok s" and new: "distinct (map rec_key rs)" and run: "ingest env inp rs s = (Inr out, s')"
  shows "inv_ok s'" and "spans s' = spans_after inp rs (spans s)" and "sightings s' = sightings_after inp rs (sightings s)"
    and "io_Accepted out = int (length rs)" and "io_ReconciledAbsent out = int (card (absent_keys inp rs (sightings s)))"
proof -
  from run obtain acc s1 n where 1: "foldE (ingest_one env inp) rs ([], 0) s = (Inr acc, s1)"
    and 2: "MarkMissingObservationsRemoved env (ii_OrganizationID inp) (ii_AgentID inp) (ii_StoreCoverage inp) (fst acc) (ii_CollectedAt inp) s1 = (Inr n, s')"
    and out: "out = \<lparr>io_Accepted = snd acc, io_ReconciledAbsent = n\<rparr>"
    unfolding ingest_def by (auto simp: run_simps)
  from ingest_loop_effect [OF ok new 1] have l: "inv_ok s1" "spans s1 = spans_after inp rs (spans s)" "sightings s1 = sighted inp rs (sightings s)"
    "acc = (batch_ids inp rs s1, int (length rs))" "batch_stored inp rs s1" by auto
  from 2 l(4) have 2: "MarkMissingObservationsRemoved env (ii_OrganizationID inp) (ii_AgentID inp) (ii_StoreCoverage inp) (batch_ids inp rs s1) (ii_CollectedAt inp) s1 = (Inr n, s')"
    by simp
  note m = Mark_effect [OF l(1,5) 2]
  show "inv_ok s'" by (rule m(1))
  show "spans s' = spans_after inp rs (spans s)" using m(2) l(2) by simp
  show "sightings s' = sightings_after inp rs (sightings s)" using m(3) l(3) by (simp add: reconciled_sighted)
  show "io_Accepted out = int (length rs)" using l(4) out by simp
  have "batch_names rs (fp, st) = None" if "fp \<notin> print_of ` set rs" for fp st using that by (auto simp: batch_names_None rec_key_def)
  then have "absent_keys inp rs (sighted inp rs (sightings s)) = absent_keys inp rs (sightings s)"
    by (auto simp: absent_keys_def sighted_def)
  then show "io_ReconciledAbsent out = int (card (absent_keys inp rs (sightings s)))"
    using Mark_Inr [OF 2] gone_count [OF l(1,5)] l(3) out by simp
qed


section \<open>Which batches are accepted\<close>

definition batch_shape :: "Time \<Rightarrow> IngestionInput \<Rightarrow> bool" where
  "batch_shape now inp \<longleftrightarrow> TrimSpace (ii_OrganizationID inp) \<noteq> [] \<and> TrimSpace (ii_AgentID inp) \<noteq> [] \<and> ii_StoreCoverage inp \<noteq> [] \<and>
     distinct (ii_StoreCoverage inp) \<and> ii_CollectedAt inp \<noteq> zeroTime \<and> ii_CollectedAt inp \<le> now + maxClockSkew"

definition carries_key :: "IngestionInput \<Rightarrow> bool" where
  "carries_key inp \<longleftrightarrow> (\<exists>c \<in> set (ii_Certificates inp). containsPrivateKeyMarker (ic_CertificatePEM c))"

definition stores_covered :: "IngestionInput \<Rightarrow> bool" where
  "stores_covered inp \<longleftrightarrow> ic_StoreLocation ` set (ii_Certificates inp) \<subseteq> set (ii_StoreCoverage inp)"

definition batch_accepted :: "x509_lib \<Rightarrow> Time \<Rightarrow> IngestionInput \<Rightarrow> ingestionRecord list \<Rightarrow> bool" where
  "batch_accepted x now inp rs \<longleftrightarrow> batch_shape now inp \<and> \<not> carries_key inp \<and> stores_covered inp \<and> batch_reads x inp rs"

lemma Submit_shaped:
  assumes "batch_shape (clockAt env (w_clock s)) inp"
  shows "Submit env x inp s = (if carries_key inp
     then bindE (recordBatchRejection env inp ''private_key_material'') (\<lambda>_. throwE ErrPrivateKeyMaterial) (s\<lparr>w_clock := Suc (w_clock s)\<rparr>)
     else if stores_covered inp
       then bindE (foldE (parse_one env x inp) (ii_Certificates inp) ([], [])) (\<lambda>acc. WithTxLockedAgent env (ii_AgentID inp) (ingest env inp (snd acc)))
         (s\<lparr>w_clock := Suc (w_clock s)\<rparr>)
       else (Inl ErrInvalidBatch, s\<lparr>w_clock := Suc (w_clock s)\<rparr>))"
proof -
  have "list_ex (\<lambda>c. containsPrivateKeyMarker (ic_CertificatePEM c)) (ii_Certificates inp) \<longleftrightarrow> carries_key inp"
    "list_all (\<lambda>c. ic_StoreLocation c \<in> set (ii_StoreCoverage inp)) (ii_Certificates inp) \<longleftrightarrow> stores_covered inp"
    by (auto simp: carries_key_def list_ex_iff stores_covered_def list_all_iff)
  then show ?thesis using assms
    by (simp add: Submit_def batch_shape_def guardE_def bindE_step_Inr [where m = "Now env", OF Now_def [THEN fun_cong]]) (simp add: bindE_def throwE_def)
qed

lemma guard_bind: "bindE (guardE b e) k s = (if b then k () s else (Inl e, s))"
  by (simp add: guardE_def bindE_def retE_def throwE_def)

lemma Submit_unshaped:
  assumes "\<not> batch_shape (clockAt env (w_clock s)) inp"
  shows "\<exists>n. Submit env x inp s = (Inl ErrInvalidBatch, s\<lparr>w_clock := n\<rparr>)"
proof (cases "batch_shape (ii_CollectedAt inp) inp")
  case True
  have skew: "0 \<le> maxClockSkew" by (simp add: maxClockSkew_def hour_def second_def)
  from True assms have "\<not> ii_CollectedAt inp \<le> clockAt env (w_clock s) + maxClockSkew" by (simp add: batch_shape_def)
  with True show ?thesis
    by (intro exI [of _ "Suc (w_clock s)"])
      (simp add: Submit_def batch_shape_def guard_bind bindE_step_Inr [where m = "Now env", OF Now_def [THEN fun_cong]])
next
  case False
  have skew: "0 \<le> maxClockSkew" by (simp add: maxClockSkew_def hour_def second_def)
  have "s = s\<lparr>w_clock := w_clock s\<rparr>" by simp
  then show ?thesis using False skew unfolding Submit_def guard_bind batch_shape_def
    by (intro exI [of _ "w_clock s"]) (simp, blast)
qed

lemma Submit_Inr:
  assumes "Submit env x inp s = (Inr out, s')"
  obtains rs s1 s2 where "batch_accepted x (clockAt env (w_clock s)) inp rs" "db_of s1 = db_of s" "ingest env inp rs s1 = (Inr out, s2)" "db_of s' = db_of s2"
proof -
  have sh: "batch_shape (clockAt env (w_clock s)) inp"
  proof (rule ccontr)
    assume "\<not> batch_shape (clockAt env (w_clock s)) inp"
    from Submit_unshaped [OF this, of x] show False by (simp add: assms)
  qed
  note run = assms [unfolded Submit_shaped [OF sh]]
  have nk: "\<not> carries_key inp"
  proof
    assume "carries_key inp"
    from run [unfolded if_P [OF this]] show False by (simp add: bindE_Inr throwE_Inr)
  qed
  note run = run [unfolded if_not_P [OF nk]]
  have st: "stores_covered inp"
  proof (rule ccontr)
    assume "\<not> stores_covered inp"
    from run [unfolded if_not_P [OF this]] show False by simp
  qed
  note run = run [unfolded if_P [OF st] bindE_Inr]
  from run obtain acc s1 where 1: "foldE (parse_one env x inp) (ii_Certificates inp) ([], []) (s\<lparr>w_clock := Suc (w_clock s)\<rparr>) = (Inr acc, s1)"
    and 2: "WithTxLockedAgent env (ii_AgentID inp) (ingest env inp (snd acc)) s1 = (Inr out, s')" by blast
  from read_loop_Inr [OF 1] have r: "s1 = s\<lparr>w_clock := Suc (w_clock s)\<rparr>" "batch_reads x inp (snd acc)" by auto
  from atx.commits [OF 2] obtain t1 t2 where t: "db_of t1 = db_of s1" "ingest env inp (snd acc) t1 = (Inr out, t2)" "db_of s' = db_of t2" by blast
  show thesis by (rule that [OF _ _ t(2,3)]) (use sh nk st r t(1) in \<open>simp_all add: batch_accepted_def\<close>)
qed

lemma leaves_candidate_id: "leaves db_of (candidate_id env i)"
  unfolding candidate_id_def by (intro frame_intros)

text \<open>What \<open>Submit\<close> may touch: the two inventory tables in the transaction, the audit log before it.\<close>

lemma fails_clean_locked_agent: "fails_clean tables_of (WithTxLockedAgent env ag m)"
  unfolding fails_clean_def using atx.rolls_back by (metis tables_of_simps(6))

lemma Submit_fails_clean: "fails_clean tables_of (Submit env x inp)"
  unfolding Submit_def recordBatchRejection_def parse_one_def recordBatchInvalid_def Let_def
  by (intro fails_clean_bindE fails_clean_if fails_clean_locked_agent frame_intros fails_clean_leaves leaves_tables [OF leaves_Now])

definition other_tables :: "'z inv_db_scheme \<Rightarrow> (string \<times> string) list \<times> UserRow list \<times> Session list \<times> PackageRow list \<times> AgentRow list \<times> Snapshot list \<times> Event list" where
  "other_tables s = (t_organizations s, t_users s, t_sessions s, t_packages s, t_agents s, t_snapshots s, audit_events s)"

lemma other_tables_db_of: "other_tables (db_of s) = other_tables s"
  by (simp add: other_tables_def db_of_def)

lemma ingest_leaves: "leaves other_tables (ingest env inp rs)"
  unfolding ingest_def ingest_one_def UpsertCertificate_def UpsertObservation_def MarkMissingObservationsRemoved_def Let_def
  by (intro frame_intros leaves_exec_hit leaves_modE leaves_view [OF leaves_db_query] leaves_view [OF leaves_candidate_id])
    (simp_all add: other_tables_db_of, simp_all add: other_tables_def)

lemma view_cong:
  assumes "db_of s = db_of t"
  shows "spans s = spans t" "sightings s = sightings t" "inv_ok s = inv_ok t" "other_tables s = other_tables t" "audit_events s = audit_events t"
proof -
  have "t_inv_certificates s = t_inv_certificates t" "t_inv_observations s = t_inv_observations t" using assms by (metis inv_fields(1), metis inv_fields(2))
  then show "spans s = spans t" "sightings s = sightings t" "inv_ok s = inv_ok t"
    by (simp_all add: spans_def sightings_def cert_at_def obs_at_def inv_ok_def fun_eq_iff split: option.split)
  show "other_tables s = other_tables t" using assms by (metis other_tables_db_of)
  show "audit_events s = audit_events t" using assms by (rule db_of_audit_cong)
qed

lemma Submit_effect:
  assumes ok: "inv_ok s" and run: "Submit env x inp s = (Inr out, s')"
  shows "\<exists>rs. batch_accepted x (clockAt env (w_clock s)) inp rs \<and> inv_ok s' \<and> spans s' = spans_after inp rs (spans s) \<and>
    sightings s' = sightings_after inp rs (sightings s) \<and> io_Accepted out = int (length rs) \<and>
    io_ReconciledAbsent out = int (card (absent_keys inp rs (sightings s))) \<and> other_tables s' = other_tables s"
proof -
  from Submit_Inr [OF run] obtain rs s1 s2 where a: "batch_accepted x (clockAt env (w_clock s)) inp rs" and d: "db_of s1 = db_of s"
    and g: "ingest env inp rs s1 = (Inr out, s2)" and d': "db_of s' = db_of s2" .
  note v = view_cong [OF d] and v' = view_cong [OF d']
  have new: "distinct (map rec_key rs)" using a by (simp add: batch_accepted_def batch_reads_def)
  have ok1: "inv_ok s1" using ok v(3) by simp
  note e = ingest_effect [OF ok1 new g]
  have "other_tables s' = other_tables s" using leavesD [OF ingest_leaves g] v(4) v'(4) by simp
  then show ?thesis using a e v v' by (intro exI [of _ rs]) simp
qed

lemma keeps_inv_Submit: "keeps inv_ok (Submit env x inp)"
proof (rule keepsI)
  fix s r s' assume ok: "inv_ok s" and run: "Submit env x inp s = (r, s')"
  show "inv_ok s'"
  proof (cases r)
    case (Inl e)
    have "tables_of s' = tables_of s" by (rule fails_cleanD [OF Submit_fails_clean run [unfolded Inl]])
    then have "t_inv_certificates s' = t_inv_certificates s \<and> t_inv_observations s' = t_inv_observations s"
      by (cases s; cases s') (simp add: tables_of_def)
    then show ?thesis using ok by (simp add: inv_ok_def)
  next
    case (Inr out)
    from Submit_effect [OF ok run [unfolded Inr]] show ?thesis by blast
  qed
qed

end
