(* ===== verification/Ingestion.thy ===== *)
theory Ingestion imports InventoryOps Engine begin

text \<open>
  The properties of certificate ingestion: a batch is refused whole or reconciled exactly, an acceptable batch goes
  through, private keys stop a batch before anything is read, resubmitting changes nothing, and what late arrival
  and a move between stores do to the record.
\<close>

section \<open>An acceptable batch goes through\<close>

definition used_ids :: "'z inv_db_scheme \<Rightarrow> string set" where
  "used_ids s = crt_ID ` set (t_inv_certificates s) \<union> obs_ID ` set (t_inv_observations s)"

lemma put_cert_has: "\<exists>r. find (\<lambda>r. cert_key r = cert_key c) (put_cert i at c rows) = Some r"
  by (simp add: put_cert_def find_put_row)

lemma put_ids: "crt_ID ` set (put_cert i at c rows) \<subseteq> insert i (crt_ID ` set rows)" "obs_ID ` set (put_obs i at r' orows) \<subseteq> insert i (obs_ID ` set orows)"
  by (auto simp: put_cert_def put_obs_def set_put_row)

lemma UpsertCertificate_runs:
  assumes "no_faults env" and "crt_ID c = []" and "idAt env (w_ids s) \<notin> used_ids s" and "crt_OrganizationID c \<in> fst ` set (t_organizations s)"
    and "- (2 ^ 31) \<le> crt_PublicKeyBits c" and "crt_PublicKeyBits c < 2 ^ 31"
  shows "\<exists>stored s'. UpsertCertificate env c at s = (Inr stored, s') \<and> w_ids s' = Suc (w_ids s) \<and> other_tables s' = other_tables s \<and>
    used_ids s' \<subseteq> insert (idAt env (w_ids s)) (used_ids s)"
proof -
  let ?i = "idAt env (w_ids s)" and ?s1 = "s\<lparr>w_ids := Suc (w_ids s)\<rparr>"
  let ?s2 = "(stepped ?s1)\<lparr>t_inv_certificates := put_cert ?i at c (t_inv_certificates (stepped ?s1))\<rparr>"
  obtain stored where st: "find (\<lambda>r. cert_key r = cert_key c) (t_inv_certificates ?s2) = Some stored" using put_cert_has by fastforce
  have hit: "cert_insertable ?i c (stepped ?s1) \<and> - (2 ^ 31) \<le> crt_PublicKeyBits c \<and> crt_PublicKeyBits c < 2 ^ 31"
    using assms by (simp add: cert_insertable_def used_ids_def stepped_def)
  have "UpsertCertificate env c at s = (Inr stored, ?s2)"
    using st hit by (simp add: UpsertCertificate_def candidate_id_def assms(2) NewID_def bindE_def exec_hit_ok [OF assms(1)] getE_def retE_def)
  moreover have "used_ids ?s2 \<subseteq> insert ?i (used_ids s)" using put_ids(1) [of ?i at c "t_inv_certificates s"] by (auto simp: used_ids_def)
  ultimately show ?thesis by (intro exI conjI) (auto simp: other_tables_def stepped_def)
qed

lemma UpsertObservation_runs:
  assumes "no_faults env" and "obs_ID r = []" and "idAt env (w_ids s) \<notin> used_ids s" and "\<exists>a \<in> set (t_agents s). is_agent (obs_AgentID r) (obs_OrganizationID r) a"
    and "cert_at s (obs_OrganizationID r) fp = Some c" and "crt_ID c = obs_CertificateID r"
  shows "\<exists>s'. UpsertObservation env r at s = (Inr (), s') \<and> w_ids s' = Suc (w_ids s) \<and> other_tables s' = other_tables s \<and>
    used_ids s' \<subseteq> insert (idAt env (w_ids s)) (used_ids s)"
proof -
  let ?i = "idAt env (w_ids s)" and ?s1 = "s\<lparr>w_ids := Suc (w_ids s)\<rparr>"
  let ?s2 = "(stepped ?s1)\<lparr>t_inv_observations := put_obs ?i at r (t_inv_observations (stepped ?s1))\<rparr>"
  have c: "c \<in> set (t_inv_certificates s)" "crt_OrganizationID c = obs_OrganizationID r" using cert_at_Some [OF assms(5)] by (auto simp: cert_key_def)
  then have hit: "obs_insertable ?i r (stepped ?s1)"
    using assms by (auto simp: obs_insertable_def used_ids_def stepped_def)
  have "UpsertObservation env r at s = (Inr (), ?s2)"
    by (simp add: UpsertObservation_def candidate_id_def assms(2) NewID_def bindE_def exec_hit_ok [OF assms(1)] hit)
  moreover have "used_ids ?s2 \<subseteq> insert ?i (used_ids s)" using put_ids(2) [of ?i at r "t_inv_observations s"] by (auto simp: used_ids_def)
  ultimately show ?thesis by (intro exI conjI) (auto simp: other_tables_def stepped_def)
qed

definition batch_storable :: "IngestionInput \<Rightarrow> ingestionRecord list \<Rightarrow> 'z inv_db_scheme \<Rightarrow> bool" where
  "batch_storable inp rs s \<longleftrightarrow> ii_OrganizationID inp \<in> fst ` set (t_organizations s) \<and>
     (\<exists>a \<in> set (t_agents s). is_agent (ii_AgentID inp) (ii_OrganizationID inp) a) \<and>
     (\<forall>p \<in> set rs. - (2 ^ 31) \<le> pc_PublicKeyBits (ir_cert p) \<and> pc_PublicKeyBits (ir_cert p) < 2 ^ 31)"

definition fresh_ids :: "env \<Rightarrow> nat \<Rightarrow> 'z inv_db_scheme \<Rightarrow> bool" where
  "fresh_ids env k s \<longleftrightarrow> distinct (map (idAt env) [w_ids s ..< w_ids s + k]) \<and>
     (\<forall>n \<in> set [w_ids s ..< w_ids s + k]. idAt env n \<notin> used_ids s)"

lemma fresh_ids_0 [simp]: "fresh_ids env 0 s"
  by (simp add: fresh_ids_def)

lemma fresh_ids_Suc:
  "fresh_ids env (Suc k) s \<longleftrightarrow> (let l = [Suc (w_ids s) ..< Suc (w_ids s) + k] in
     distinct (idAt env (w_ids s) # map (idAt env) l) \<and> (\<forall>n \<in> set (w_ids s # l). idAt env n \<notin> used_ids s))"
proof -
  have upt: "[w_ids s ..< w_ids s + Suc k] = w_ids s # [Suc (w_ids s) ..< Suc (w_ids s) + k]" by (simp add: upt_conv_Cons del: upt_Suc)
  show ?thesis unfolding fresh_ids_def upt Let_def list.map ..
qed

lemma fresh_ids_step:
  assumes "fresh_ids env (Suc k) s" and "w_ids s' = Suc (w_ids s)" and "used_ids s' \<subseteq> insert (idAt env (w_ids s)) (used_ids s)"
  shows "fresh_ids env k s'"
proof -
  let ?l = "[Suc (w_ids s) ..< Suc (w_ids s) + k]"
  from assms(1) have "distinct (map (idAt env) ?l)" "idAt env (w_ids s) \<notin> idAt env ` set ?l" "\<forall>n \<in> set ?l. idAt env n \<notin> used_ids s"
    unfolding fresh_ids_Suc Let_def by simp_all
  then have "\<forall>n \<in> set ?l. idAt env n \<notin> used_ids s'" using assms(3) by (metis image_eqI insertE subsetD)
  then show ?thesis using \<open>distinct (map (idAt env) ?l)\<close> unfolding fresh_ids_def assms(2) by blast
qed

lemma fresh_ids_head: "fresh_ids env (Suc k) s \<Longrightarrow> idAt env (w_ids s) \<notin> used_ids s"
  unfolding fresh_ids_Suc Let_def by simp

lemma ingest_one_runs:
  assumes env: "no_faults env" and ok: "inv_ok s" and st: "batch_storable inp [p] s" and fr: "fresh_ids env (Suc (Suc k)) s"
  shows "\<exists>acc' s'. ingest_one env inp p acc s = (Inr acc', s') \<and> fresh_ids env k s' \<and> other_tables s' = other_tables s"
proof -
  let ?c = "certificateForIngestion (ii_OrganizationID inp) (ir_cert p)" and ?at = "ii_CollectedAt inp"
  have c0: "crt_ID ?c = []" "crt_OrganizationID ?c = ii_OrganizationID inp" "crt_PublicKeyBits ?c = pc_PublicKeyBits (ir_cert p)"
    by (simp_all add: certificateForIngestion_def)
  have new: "idAt env (w_ids s) \<notin> used_ids s"
    by (rule fresh_ids_head [OF fr])
  from UpsertCertificate_runs [OF env c0(1) new, of ?at] st obtain stored s1 where
    1: "UpsertCertificate env ?c ?at s = (Inr stored, s1)" "w_ids s1 = Suc (w_ids s)" "other_tables s1 = other_tables s"
      "used_ids s1 \<subseteq> insert (idAt env (w_ids s)) (used_ids s)" by (auto simp: batch_storable_def c0)
  note e = UpsertCertificate_effect [OF ok 1(1) for_ingestion_key]
  have f1: "fresh_ids env (Suc k) s1" by (rule fresh_ids_step [OF fr 1(2,4)])
  then have new1: "idAt env (w_ids s1) \<notin> used_ids s1" by (rule fresh_ids_head)
  let ?o = "observation_of inp (crt_ID stored) p"
  have o0: "obs_ID ?o = []" "obs_AgentID ?o = ii_AgentID inp" "obs_OrganizationID ?o = ii_OrganizationID inp" "obs_CertificateID ?o = crt_ID stored"
    by (simp_all add: observation_of_def)
  have "\<exists>a \<in> set (t_agents s1). is_agent (obs_AgentID ?o) (obs_OrganizationID ?o) a" using st 1(3) by (simp add: batch_storable_def other_tables_def o0)
  from UpsertObservation_runs [OF env o0(1) new1 this, of "print_of p" stored ?at] e(2) obtain s2 where
    2: "UpsertObservation env ?o ?at s1 = (Inr (), s2)" "w_ids s2 = Suc (w_ids s1)" "other_tables s2 = other_tables s1"
      "used_ids s2 \<subseteq> insert (idAt env (w_ids s1)) (used_ids s1)" by (auto simp: o0)
  have "ingest_one env inp p acc s = (Inr (fst acc @ [crt_ID stored], snd acc + 1), s2)"
    unfolding ingest_one_def by (simp add: bindE_step_Inr [where m = "UpsertCertificate env ?c ?at", OF 1(1)] bindE_step_Inr [where m = "UpsertObservation env ?o ?at", OF 2(1)] retE_def)
  then show ?thesis using fresh_ids_step [OF f1 2(2,4)] 2(3) 1(3) by auto
qed

lemma ingest_loop_runs:
  assumes env: "no_faults env" and ok: "inv_ok s" and st: "batch_storable inp rs s" and fr: "fresh_ids env (2 * length rs) s"
  shows "\<exists>acc s'. foldE (ingest_one env inp) rs ([], 0) s = (Inr acc, s')"
proof -
  have "\<exists>acc s'. foldE (ingest_one env inp) rs ([], 0) s = (Inr acc, s') \<and>
      (inv_ok s' \<and> fresh_ids env (2 * (length rs - length rs)) s' \<and> other_tables s' = other_tables s)"
  proof (rule foldE_total [where I = "\<lambda>seen acc s1. inv_ok s1 \<and> fresh_ids env (2 * (length rs - length seen)) s1 \<and> other_tables s1 = other_tables s"])
    show "inv_ok s \<and> fresh_ids env (2 * (length rs - length [])) s \<and> other_tables s = other_tables s" using ok fr by simp
  next
    fix seen p rest acc s1
    assume split: "rs = seen @ p # rest" and I: "inv_ok s1 \<and> fresh_ids env (2 * (length rs - length seen)) s1 \<and> other_tables s1 = other_tables s"
    have n: "2 * (length rs - length seen) = Suc (Suc (2 * (length rs - length (seen @ [p]))))" using split by simp
    have f1: "fresh_ids env (Suc (Suc (2 * (length rs - length (seen @ [p]))))) s1" using I unfolding n by blast
    have "batch_storable inp [p] s1" using st I split by (simp add: batch_storable_def other_tables_def)
    from ingest_one_runs [OF env _ this f1, of acc] I obtain acc' s2 where
      r: "ingest_one env inp p acc s1 = (Inr acc', s2)" "fresh_ids env (2 * (length rs - length (seen @ [p]))) s2" "other_tables s2 = other_tables s1" by blast
    have "inv_ok s1" using I by simp
    from ingest_one_effect(1) [OF this r(1)] r I
    show "\<exists>acc' s2. ingest_one env inp p acc s1 = (Inr acc', s2) \<and> inv_ok s2 \<and> fresh_ids env (2 * (length rs - length (seen @ [p]))) s2 \<and> other_tables s2 = other_tables s"
      by (intro exI conjI) auto
  qed
  then show ?thesis by blast
qed

lemma Mark_runs:
  assumes "no_faults env" and "TrimSpace org \<noteq> []" and "TrimSpace ag \<noteq> []" and "cov \<noteq> []"
  shows "\<exists>n s'. MarkMissingObservationsRemoved env org ag cov ids at s = (Inr n, s')"
  using assms by (simp add: MarkMissingObservationsRemoved_def guardE_def Let_def bindE_def db_query_ok modE_def retE_def)

lemma Submit_runs:
  assumes env: "no_faults env" and ok: "inv_ok s" and acc: "batch_accepted x (clockAt env (w_clock s)) inp rs"
    and st: "batch_storable inp rs s" and fr: "fresh_ids env (2 * length rs) s"
  shows "\<exists>out s'. Submit env x inp s = (Inr out, s')"
proof -
  have sh: "batch_shape (clockAt env (w_clock s)) inp" "\<not> carries_key inp" "stores_covered inp" "batch_reads x inp rs" using acc by (simp_all add: batch_accepted_def)
  let ?s1 = "s\<lparr>w_clock := Suc (w_clock s)\<rparr>"
  from read_loop_total [OF sh(4), of env ?s1] obtain ks where rd: "foldE (parse_one env x inp) (ii_Certificates inp) ([], []) ?s1 = (Inr (ks, rs), ?s1)" by blast
  let ?s2 = "(stepped ?s1)\<lparr>w_tx := Suc (w_tx ?s1)\<rparr>"
  let ?s3 = "stepped ?s2"
  have "inv_ok ?s3" "batch_storable inp rs ?s3" "fresh_ids env (2 * length rs) ?s3"
    using ok st fr by (simp_all add: inv_ok_def batch_storable_def fresh_ids_def used_ids_def stepped_def)
  from ingest_loop_runs [OF env this] obtain a s4 where l: "foldE (ingest_one env inp) rs ([], 0) ?s3 = (Inr a, s4)" by blast
  from Mark_runs [OF env, of "ii_OrganizationID inp" "ii_AgentID inp" "ii_StoreCoverage inp" "fst a" "ii_CollectedAt inp" s4] sh(1)
  obtain n s5 where m: "MarkMissingObservationsRemoved env (ii_OrganizationID inp) (ii_AgentID inp) (ii_StoreCoverage inp) (fst a) (ii_CollectedAt inp) s4 = (Inr n, s5)"
    by (auto simp: batch_shape_def)
  have "ingest env inp rs ?s3 = (Inr \<lparr>io_Accepted = snd a, io_ReconciledAbsent = n\<rparr>, s5)"
    unfolding ingest_def bindE_step_Inr [where m = "foldE (ingest_one env inp) rs ([], 0)", OF l]
      by (simp add: bindE_step_Inr [where m = "MarkMissingObservationsRemoved env (ii_OrganizationID inp) (ii_AgentID inp) (ii_StoreCoverage inp) (fst a) (ii_CollectedAt inp)", OF m] retE_def)
  then have "bindE (dbcall env) (\<lambda>_. ingest env inp rs) ?s2 = (Inr \<lparr>io_Accepted = snd a, io_ReconciledAbsent = n\<rparr>, s5)"
    by (simp add: bindE_step_Inr [where m = "dbcall env", OF dbcall_ok [OF env]])
  from WithTx_ok [where fn = "bindE (dbcall env) (\<lambda>_. ingest env inp rs)" and s = ?s1, OF env this] have "WithTxLockedAgent env (ii_AgentID inp) (ingest env inp rs) ?s1 = (Inr \<lparr>io_Accepted = snd a, io_ReconciledAbsent = n\<rparr>, stepped s5)"
    by (simp add: WithTxLockedAgent_def)
  then show ?thesis
    using sh by (simp add: Submit_shaped bindE_step_Inr [where m = "foldE (parse_one env x inp) (ii_Certificates inp) ([], [])", OF rd])
qed


section \<open>A refused batch\<close>

text \<open>The audit row of a batch with an entry that does not parse.\<close>

definition audited_invalid :: "IngestionInput \<Rightarrow> 'z world_scheme \<Rightarrow> 'z world_scheme \<Rightarrow> bool" where
  "audited_invalid inp s s' \<longleftrightarrow> (\<exists>r. audit_events s' = audit_events s @ [r] \<and> ev_Action r = ''agent.certificate_batch_invalid'' \<and>
     ev_OrganizationID r = ii_OrganizationID inp \<and> ev_Actor r = ii_AgentID inp \<and> ev_TargetID r = ii_AgentID inp \<and>
     json_field ''reason'' (ev_Metadata r) = Some (JStr ''certificate_unparseable''))"

text \<open>How the reading of a batch stops at an entry, when the entries before it were read as \<open>rs\<close>.\<close>

definition stops_at :: "x509_lib \<Rightarrow> IngestionInput \<Rightarrow> ingestionRecord list \<Rightarrow> IngestionCertificate \<Rightarrow> err \<Rightarrow> 'z world_scheme \<Rightarrow> 'z world_scheme \<Rightarrow> bool" where
  "stops_at x inp rs c e s s' \<longleftrightarrow>
     (case parseAndCanonicalize x (ic_CertificatePEM c) of
        Inl _ \<Rightarrow> e = ErrInvalidCertificate \<and> audited_invalid inp s s'
      | Inr p \<Rightarrow> (pc_FingerprintSHA256 p, ic_StoreLocation c) \<in> rec_key ` set rs \<and> e = ErrInvalidBatch \<and> audit_events s' = audit_events s)"

lemma batch_event_recorded:
  assumes "no_faults env" and "ii_OrganizationID inp \<noteq> []" and "ii_AgentID inp \<noteq> []" and "action \<noteq> []"
  shows "\<exists>s'. mapErrE h (Record env (batch_event inp action md)) s = (Inr (), s') \<and> tables_of s' = tables_of s \<and>
    (\<exists>r. audit_events s' = audit_events s @ [r] \<and> ev_Action r = action \<and> ev_Metadata r = JObj md \<and>
      ev_OrganizationID r = ii_OrganizationID inp \<and> ev_Actor r = ii_AgentID inp \<and> ev_TargetID r = ii_AgentID inp)"
proof -
  have "\<exists>s'. Record env (batch_event inp action md) s = (Inr (), s')"
    by (rule Record_ok) (use assms in \<open>simp_all add: batch_event_def\<close>)
  then obtain s' where run: "Record env (batch_event inp action md) s = (Inr (), s')" by blast
  from Record_Inr [OF run] obtain r where r: "audit_events s' = audit_events s @ [r]" "same_event r (batch_event inp action md)" "tables_of s' = tables_of s" by blast
  show ?thesis using run r same_event_fields(1,2,4,6,8) [OF r(2)]
    by (intro exI [of _ s'] conjI exI [of _ r]) (simp_all add: mapErrE_def batch_event_def)
qed

lemma recordBatchInvalid_run:
  assumes "no_faults env" and "ii_OrganizationID inp \<noteq> []" and "ii_AgentID inp \<noteq> []"
  shows "\<exists>s1. recordBatchInvalid env inp ''certificate_unparseable'' s = (Inr (), s1) \<and> tables_of s1 = tables_of s \<and> audited_invalid inp s s1"
proof -
  from batch_event_recorded [OF assms, of "''agent.certificate_batch_invalid''" "\<lambda>_. ErrInternalAudit"
    "[(''agent_id'', JStr (ii_AgentID inp)), (''batch_size'', JNum (int (length (ii_Certificates inp)))), (''reason'', JStr ''certificate_unparseable'')]" s]
  obtain s1 r where 1: "recordBatchInvalid env inp ''certificate_unparseable'' s = (Inr (), s1)" "tables_of s1 = tables_of s" "audit_events s1 = audit_events s @ [r]"
    "ev_Action r = ''agent.certificate_batch_invalid''" "ev_OrganizationID r = ii_OrganizationID inp" "ev_Actor r = ii_AgentID inp" "ev_TargetID r = ii_AgentID inp"
    and md: "ev_Metadata r = JObj [(''agent_id'', JStr (ii_AgentID inp)), (''batch_size'', JNum (int (length (ii_Certificates inp)))), (''reason'', JStr ''certificate_unparseable'')]"
    unfolding recordBatchInvalid_def by auto
  have "audited_invalid inp s s1" unfolding audited_invalid_def using 1 md by (intro exI [of _ r]) (simp add: json_field_def)
  with 1 show ?thesis by blast
qed

lemma read_loop_Inl:
  assumes env: "no_faults env" and ids: "ii_OrganizationID inp \<noteq> []" "ii_AgentID inp \<noteq> []"
  shows "foldE (parse_one env x inp) cs acc s = (Inl e, s') \<Longrightarrow> read_so_far x before acc \<Longrightarrow> tables_of s' = tables_of s \<and>
    (\<exists>seen c rest rs. cs = seen @ c # rest \<and> list_all2 (entry_read x) (before @ seen) rs \<and> distinct (map rec_key rs) \<and> stops_at x inp rs c e s s')"
proof (induction cs arbitrary: acc s before)
  case (Cons c cs)
  have acc: "list_all2 (entry_read x) before (snd acc)" "distinct (map rec_key (snd acc))" using Cons.prems(2) by (simp_all add: read_so_far_def)
  have here: ?case if "tables_of s' = tables_of s" "stops_at x inp (snd acc) c e s s'"
    using that acc by (intro conjI exI [of _ "[]"] exI [of _ c] exI [of _ cs] exI [of _ "snd acc"]) simp_all
  show ?case
  proof (cases "parseAndCanonicalize x (ic_CertificatePEM c)")
    case (Inl e0)
    from recordBatchInvalid_run [OF env ids] obtain s1 where
      1: "recordBatchInvalid env inp ''certificate_unparseable'' s = (Inr (), s1)" "tables_of s1 = tables_of s" "audited_invalid inp s s1" by blast
    have "e = ErrInvalidCertificate" "s' = s1"
      using Cons.prems(1) Inl by (simp_all add: parse_one_def bindE_def 1(1) throwE_def)
    then show ?thesis using 1 Inl by (intro here) (simp_all add: stops_at_def)
  next
    case (Inr cert)
    let ?r = "\<lparr>ir_cert = cert, ir_storeLocation = ic_StoreLocation c, ir_friendlyName = ic_FriendlyName c\<rparr>"
    have er: "entry_read x c ?r" using Inr by (simp add: entry_read_def)
    note st = read_so_far_step [OF Cons.prems(2) er]
    have k: "rec_key ?r = (pc_FingerprintSHA256 cert, ic_StoreLocation c)" by (simp add: rec_key_def print_of_def)
    show ?thesis
    proof (cases "dup_key cert (ic_StoreLocation c) \<in> set (fst acc)")
      case True
      then have "e = ErrInvalidBatch" "s' = s" using Cons.prems(1) Inr by (simp_all add: parse_one_def bindE_def throwE_def)
      then show ?thesis using st(1) True Inr k by (intro here) (simp_all add: stops_at_def)
    next
      case False
      let ?acc = "(dup_key cert (ic_StoreLocation c) # fst acc, snd acc @ [?r])"
      have "parse_one env x inp c acc s = (Inr ?acc, s)"
        using Inr False by (simp add: parse_one_def Let_def retE_def)
      then have go: "foldE (parse_one env x inp) cs ?acc s = (Inl e, s')"
        using Cons.prems(1) by (simp add: bindE_step_Inr [where m = "parse_one env x inp c acc"])
      have "read_so_far x (before @ [c]) ?acc" using st False by simp
      from Cons.IH [OF go this] obtain seen c' rest rs where t: "tables_of s' = tables_of s"
        and p: "cs = seen @ c' # rest" "list_all2 (entry_read x) ((before @ [c]) @ seen) rs" "distinct (map rec_key rs)" "stops_at x inp rs c' e s s'" by blast
      from t p show ?thesis by (intro conjI exI [of _ "c # seen"] exI [of _ c'] exI [of _ rest] exI [of _ rs]) simp_all
    qed
  qed
qed (simp add: retE_def)

text \<open>
  C17: A batch that is not acceptable is refused whole, with the error and the audit row of the first rule it breaks. A malformed request and an
  uncovered store are plain errors; a private-key marker anywhere is a security event, whatever the other entries hold and before any of them is parsed. Otherwise the
  entries are read in their order up to the first that does not parse or repeats an earlier one of the same certificate and store: if that one does not
  parse, the error is the one of an invalid certificate and the agent's batch is audited as such; if it repeats, it is a plain error without an audit row. The
  inventory and every other table stay as they were.
\<close>

theorem Submit_refuses:
  assumes "no_faults env" and "\<forall>rs. \<not> batch_accepted x (clockAt env (w_clock s)) inp rs"
  shows "\<exists>e s'. Submit env x inp s = (Inl e, s') \<and> tables_of s' = tables_of s \<and>
    (if \<not> batch_shape (clockAt env (w_clock s)) inp then e = ErrInvalidBatch \<and> audit_events s' = audit_events s
     else if carries_key inp then e = ErrPrivateKeyMaterial \<and> refused ''agent.certificate_batch_rejected'' ''private_key_material'' s s' \<and>
       (\<forall>x'. Submit env x' inp s = Submit env x inp s)
     else if \<not> stores_covered inp then e = ErrInvalidBatch \<and> audit_events s' = audit_events s
     else \<exists>seen c rest rs. ii_Certificates inp = seen @ c # rest \<and> list_all2 (entry_read x) seen rs \<and> distinct (map rec_key rs) \<and>
       (case parseAndCanonicalize x (ic_CertificatePEM c) of
          Inl _ \<Rightarrow> e = ErrInvalidCertificate \<and> audited_invalid inp s s'
        | Inr p \<Rightarrow> (pc_FingerprintSHA256 p, ic_StoreLocation c) \<in> rec_key ` set rs \<and> e = ErrInvalidBatch \<and> audit_events s' = audit_events s))"
proof (cases "batch_shape (clockAt env (w_clock s)) inp")
  case False
  from Submit_unshaped [OF this] obtain n where "Submit env x inp s = (Inl ErrInvalidBatch, s\<lparr>w_clock := n\<rparr>)" by blast
  then show ?thesis using False by (intro exI [of _ ErrInvalidBatch] exI [of _ "s\<lparr>w_clock := n\<rparr>"]) simp
next
  case sh: True
  let ?s1 = "s\<lparr>w_clock := Suc (w_clock s)\<rparr>"
  have ids: "ii_OrganizationID inp \<noteq> []" "ii_AgentID inp \<noteq> []" using sh by (auto simp: batch_shape_def)
  show ?thesis
  proof (cases "carries_key inp")
    case True
    from batch_event_recorded [where s = ?s1 and action = "''agent.certificate_batch_rejected''" and h = "\<lambda>_. ErrInternalAudit"
      and md = "[(''agent_id'', JStr (ii_AgentID inp)), (''batch_size'', JNum (int (length (ii_Certificates inp)))),
        (''reason'', JStr ''private_key_material''), (''severity'', JStr ''security'')]", OF assms(1) ids] obtain s1 r where
      1: "recordBatchRejection env inp ''private_key_material'' ?s1 = (Inr (), s1)" "tables_of s1 = tables_of s"
      "audit_events s1 = audit_events s @ [r]" "ev_Action r = ''agent.certificate_batch_rejected''"
      and md: "ev_Metadata r = JObj [(''agent_id'', JStr (ii_AgentID inp)), (''batch_size'', JNum (int (length (ii_Certificates inp)))),
        (''reason'', JStr ''private_key_material''), (''severity'', JStr ''security'')]"
      unfolding recordBatchRejection_def by auto
    have run: "Submit env x' inp s = (Inl ErrPrivateKeyMaterial, s1)" for x'
      unfolding Submit_shaped [OF sh] if_P [OF True] bindE_step_Inr [where m = "recordBatchRejection env inp ''private_key_material''", OF 1(1)]
      by (simp add: throwE_def)
    have "refused ''agent.certificate_batch_rejected'' ''private_key_material'' s s1"
      using 1 md by (simp add: refused_def json_field_def)
    then show ?thesis using sh True 1(2) run by simp
  next
    case nk: False
    show ?thesis
    proof (cases "stores_covered inp")
      case False
      then show ?thesis using sh nk by (intro exI [of _ ErrInvalidBatch] exI [of _ ?s1]) (simp add: Submit_shaped)
    next
      case st: True
      let ?read = "foldE (parse_one env x inp) (ii_Certificates inp) ([], [])"
      obtain q s2 where q: "?read ?s1 = (q, s2)" by fastforce
      show ?thesis
      proof (cases q)
        case (Inr acc)
        from read_loop_Inr [OF q [unfolded Inr]] have "batch_accepted x (clockAt env (w_clock s)) inp (snd acc)"
          using sh nk st by (simp add: batch_accepted_def)
        then show ?thesis using assms(2) by blast
      next
        case (Inl e)
        have "read_so_far x [] ([], [])" by (simp add: read_so_far_def)
        from read_loop_Inl [OF assms(1) ids q [unfolded Inl] this] obtain seen c rest rs where t: "tables_of s2 = tables_of ?s1"
          and p: "ii_Certificates inp = seen @ c # rest" "list_all2 (entry_read x) seen rs" "distinct (map rec_key rs)" "stops_at x inp rs c e ?s1 s2" by auto
        have run: "Submit env x inp s = (Inl e, s2)"
          using sh nk st by (simp add: Submit_shaped bindE_step_Inl [where m = ?read, OF q [unfolded Inl]])
        have stop: "case parseAndCanonicalize x (ic_CertificatePEM c) of Inl _ \<Rightarrow> e = ErrInvalidCertificate \<and> audited_invalid inp s s2
            | Inr p \<Rightarrow> (pc_FingerprintSHA256 p, ic_StoreLocation c) \<in> rec_key ` set rs \<and> e = ErrInvalidBatch \<and> audit_events s2 = audit_events s"
          using p(4) by (cases "parseAndCanonicalize x (ic_CertificatePEM c)") (simp_all add: stops_at_def audited_invalid_def)
        have n: "\<not> \<not> batch_shape (clockAt env (w_clock s)) inp" "\<not> \<not> stores_covered inp" using sh st by simp_all
        show ?thesis unfolding if_not_P [OF n(1)] if_not_P [OF nk] if_not_P [OF n(2)]
          using t by (intro exI [of _ e] exI [of _ s2] conjI run exI [of _ seen] exI [of _ c] exI [of _ rest] exI [of _ rs] p(1-3) stop) simp
      qed
    qed
  qed
qed

section \<open>An accepted batch\<close>


text \<open>
  C21: An acceptable batch of a registered agent goes through: on a working database with fresh identifiers \<open>Submit\<close> returns, and the
  sightings it reports are there.
\<close>

theorem Submit_succeeds:
  assumes "no_faults env" and "inv_ok s" and "batch_accepted x (clockAt env (w_clock s)) inp rs"
    and "batch_storable inp rs s" and "fresh_ids env (2 * length rs) s"
  shows "\<exists>out s'. Submit env x inp s = (Inr out, s') \<and>
    (\<forall>p. p \<in> set rs \<longrightarrow> sightings s' (ii_OrganizationID inp) (print_of p) (ii_AgentID inp) (ir_storeLocation p) \<noteq> None)"
proof -
  from Submit_runs [OF assms] obtain out s' where run: "Submit env x inp s = (Inr out, s')" by blast
  from Submit_effect [OF assms(2) run] obtain rs' where a: "batch_accepted x (clockAt env (w_clock s)) inp rs'" "sightings s' = sightings_after inp rs' (sightings s)" by blast
  have "rs' = rs" using a(1) assms(3) unfolding batch_accepted_def batch_reads_def entry_read_def
    by (auto simp: list_all2_conv_all_nth intro!: nth_equalityI ingestionRecord.equality)
  have "sightings s' (ii_OrganizationID inp) (print_of p) (ii_AgentID inp) (ir_storeLocation p) \<noteq> None" if p: "p \<in> set rs" for p
  proof -
    from p have "batch_names rs (print_of p, ir_storeLocation p) \<noteq> None" by (auto simp: batch_names_None rec_key_def)
    then obtain n where "batch_names rs (print_of p, ir_storeLocation p) = Some n" by blast
    then show ?thesis using p a(2) \<open>rs' = rs\<close> by (simp add: sightings_after_def sighted_def)
  qed
  then show ?thesis using run by blast
qed


section \<open>Resubmission and order of arrival\<close>

lemma batch_reads_unique: "batch_reads x inp rs \<Longrightarrow> batch_reads x inp rs' \<Longrightarrow> rs' = rs"
  unfolding batch_reads_def entry_read_def
  by (auto simp: list_all2_conv_all_nth intro!: nth_equalityI ingestionRecord.equality)

lemma resight_resight: "resight at n (Some (resight at n v)) = resight at n v"
  by (auto simp: resight_def split: option.splits)

lemma missed_missed: "missed at (missed at x) = missed at x"
  by (simp add: missed_def)

lemma spans_after_again: "spans_after inp rs (spans_after inp rs v) = spans_after inp rs v"
  by (auto simp: spans_after_def fun_eq_iff widen_widen)

lemma sightings_after_again: "sightings_after inp rs (sightings_after inp rs v) = sightings_after inp rs v"
  by (auto simp: sightings_after_def sighted_def fun_eq_iff resight_resight missed_missed option.map_comp o_def split: option.split)

lemma absent_none_left: "absent_keys inp rs (sightings_after inp rs v) = {}"
  by (auto simp: absent_keys_def sightings_after_def missed_def split: option.splits if_splits)

text \<open>
  Sending a batch again changes nothing. After a batch went through, the same batch once more, whatever identifiers and clock it meets,
  accepts as many entries, marks none, and leaves every span and every sighting as it was.
\<close>

theorem Submit_again:
  assumes "inv_ok s" and "Submit env x inp s = (Inr out, s1)" and "Submit env' x inp s1 = (Inr out', s2)"
  shows "spans s2 = spans s1 \<and> sightings s2 = sightings s1 \<and> io_Accepted out' = io_Accepted out \<and> io_ReconciledAbsent out' = 0"
proof -
  from Submit_effect [OF assms(1,2)] obtain rs where 1: "batch_reads x inp rs" "inv_ok s1" "spans s1 = spans_after inp rs (spans s)"
    "sightings s1 = sightings_after inp rs (sightings s)" "io_Accepted out = int (length rs)" by (auto simp: batch_accepted_def)
  from Submit_effect [OF 1(2) assms(3)] obtain rs' where 2: "batch_reads x inp rs'" "spans s2 = spans_after inp rs' (spans s1)"
    "sightings s2 = sightings_after inp rs' (sightings s1)" "io_Accepted out' = int (length rs')"
    "io_ReconciledAbsent out' = int (card (absent_keys inp rs' (sightings s1)))" by (auto simp: batch_accepted_def)
  note rs = batch_reads_unique [OF 1(1) 2(1)]
  show ?thesis unfolding 2(2-5) 1(3-5) rs absent_none_left spans_after_again sightings_after_again by simp
qed

text \<open>When a sighting was first and last seen.\<close>

definition seen_times :: "(string \<Rightarrow> string \<Rightarrow> string \<Rightarrow> string \<Rightarrow> sighting option) \<Rightarrow> string \<Rightarrow> string \<Rightarrow> string \<Rightarrow> string \<Rightarrow> (Time \<times> Time) option" where
  "seen_times v org fp ag st = map_option (\<lambda>x. (sg_FirstSeenAt x, sg_LastSeenAt x)) (v org fp ag st)"

definition times_after :: "IngestionInput \<Rightarrow> ingestionRecord list \<Rightarrow> (string \<Rightarrow> string \<Rightarrow> string \<Rightarrow> string \<Rightarrow> (Time \<times> Time) option) \<Rightarrow>
    string \<Rightarrow> string \<Rightarrow> string \<Rightarrow> string \<Rightarrow> (Time \<times> Time) option" where
  "times_after inp rs w org fp ag st =
     (if org = ii_OrganizationID inp \<and> ag = ii_AgentID inp \<and> (fp, st) \<in> rec_key ` set rs then Some (widen (ii_CollectedAt inp) (w org fp ag st))
      else w org fp ag st)"

lemma seen_times_after: "seen_times (sightings_after inp rs v) = times_after inp rs (seen_times v)"
proof (intro ext)
  fix org fp ag st
  have re: "map_option (\<lambda>x. (sg_FirstSeenAt x, sg_LastSeenAt x)) (Some (resight at n w)) =
      Some (widen at (map_option (\<lambda>x. (sg_FirstSeenAt x, sg_LastSeenAt x)) w))" for at n w
    by (auto simp: resight_def widen_def split: option.split)
  have mi: "map_option (\<lambda>x. (sg_FirstSeenAt x, sg_LastSeenAt x)) (map_option (missed at) w) =
      map_option (\<lambda>x. (sg_FirstSeenAt x, sg_LastSeenAt x)) w" for at w
    by (cases w) (auto simp: missed_def)
  have keys: "batch_names rs (fp, st) = None \<longleftrightarrow> (fp, st) \<notin> rec_key ` set rs" by (rule batch_names_None)
  have prints: "fp \<notin> print_of ` set rs \<Longrightarrow> (fp, st) \<notin> rec_key ` set rs" by (auto simp: rec_key_def)
  show "seen_times (sightings_after inp rs v) org fp ag st = times_after inp rs (seen_times v) org fp ag st"
  proof (cases "batch_names rs (fp, st)")
    case None
    then show ?thesis using keys mi by (auto simp: seen_times_def sightings_after_def sighted_def times_after_def)
  next
    case (Some n)
    then have "(fp, st) \<in> rec_key ` set rs" using keys by force
    then show ?thesis using prints Some re by (auto simp: seen_times_def sightings_after_def sighted_def times_after_def)
  qed
qed

lemma widen_commute: "widen a (Some (widen b v)) = widen b (Some (widen a v))"
  by (auto simp: widen_def min.left_commute min.commute max.left_commute max.commute split: option.split)

lemma after_commute:
  "spans_after a rs (spans_after b rs' v) = spans_after b rs' (spans_after a rs v)"
  "times_after a rs (times_after b rs' w) = times_after b rs' (times_after a rs w)"
  by (auto simp: fun_eq_iff spans_after_def times_after_def widen_commute)

text \<open>
  C22: The order of arrival does not touch the instants. Two batches, of one agent or two, that go through in either order leave the same
  first and last instant for every certificate and for every sighting.
\<close>

theorem Submit_order_times:
  assumes "inv_ok s" and "Submit e1 x a s = (Inr o1, s1)" and "Submit e2 x b s1 = (Inr o2, s2)"
    and "Submit e3 x b s = (Inr o3, t1)" and "Submit e4 x a t1 = (Inr o4, t2)"
  shows "spans s2 = spans t2 \<and> seen_times (sightings s2) = seen_times (sightings t2)"
proof -
  from Submit_effect [OF assms(1,2)] obtain ra where 1: "batch_reads x a ra" "inv_ok s1" "spans s1 = spans_after a ra (spans s)"
    "sightings s1 = sightings_after a ra (sightings s)" by (auto simp: batch_accepted_def)
  from Submit_effect [OF 1(2) assms(3)] obtain rb where 2: "batch_reads x b rb" "spans s2 = spans_after b rb (spans s1)"
    "sightings s2 = sightings_after b rb (sightings s1)" by (auto simp: batch_accepted_def)
  from Submit_effect [OF assms(1,4)] obtain rb' where 3: "batch_reads x b rb'" "inv_ok t1" "spans t1 = spans_after b rb' (spans s)"
    "sightings t1 = sightings_after b rb' (sightings s)" by (auto simp: batch_accepted_def)
  from Submit_effect [OF 3(2) assms(5)] obtain ra' where 4: "batch_reads x a ra'" "spans t2 = spans_after a ra' (spans t1)"
    "sightings t2 = sightings_after a ra' (sightings t1)" by (auto simp: batch_accepted_def)
  note same = batch_reads_unique [OF 1(1) 4(1)] batch_reads_unique [OF 2(1) 3(1)]
  show ?thesis unfolding 2(2,3) 4(2,3) 1(3,4) 3(3,4) same seen_times_after
    by (simp add: after_commute [of a ra b rb])
qed

section \<open>Stale sightings\<close>

text \<open>
  C34: A certificate that moved between two covered stores keeps its old sighting. The reconciliation asks whether the certificate is in the batch,
  not whether it is in that store: if a covered store now shows nothing and the certificate is reported from another store, the active
  sighting in the first store stays exactly as it was.
\<close>

theorem moved_certificate_stays:
  assumes "inv_ok s" and "Submit env x inp s = (Inr out, s')"
    and "sightings s (ii_OrganizationID inp) fp (ii_AgentID inp) st = Some y" and "sg_RemovedAt y = None"
    and "st \<in> set (ii_StoreCoverage inp)" and "st \<notin> ic_StoreLocation ` set (ii_Certificates inp)"
    and "c \<in> set (ii_Certificates inp)" and "parseAndCanonicalize x (ic_CertificatePEM c) = Inr p" and "pc_FingerprintSHA256 p = fp"
  shows "sightings s' (ii_OrganizationID inp) fp (ii_AgentID inp) st = Some y \<and> sg_RemovedAt y = None"
proof -
  from Submit_effect [OF assms(1,2)] obtain rs where 1: "batch_reads x inp rs" "sightings s' = sightings_after inp rs (sightings s)"
    by (auto simp: batch_accepted_def)
  from 1(1) have l: "list_all2 (entry_read x) (ii_Certificates inp) rs" by (simp add: batch_reads_def)
  from assms(7) obtain i where i: "i < length (ii_Certificates inp)" "ii_Certificates inp ! i = c" by (auto simp: in_set_conv_nth)
  then have "entry_read x c (rs ! i)" "rs ! i \<in> set rs" using list_all2_nthD [OF l i(1)] list_all2_lengthD [OF l] by auto
  then have fp: "fp \<in> print_of ` set rs" using assms(8,9) by (force simp: entry_read_def print_of_def)
  have "ir_storeLocation r \<in> ic_StoreLocation ` set (ii_Certificates inp)" if "r \<in> set rs" for r
  proof -
    from that obtain j where j: "j < length rs" "rs ! j = r" by (auto simp: in_set_conv_nth)
    then have "entry_read x (ii_Certificates inp ! j) r" using list_all2_nthD2 [OF l j(1)] by simp
    moreover have "ii_Certificates inp ! j \<in> set (ii_Certificates inp)" using j list_all2_lengthD [OF l] by simp
    ultimately show ?thesis by (force simp: entry_read_def)
  qed
  then have "batch_names rs (fp, st) = None" using assms(6) by (auto simp: batch_names_None rec_key_def)
  then show ?thesis using fp 1(2) assms(3,4) by (simp add: sightings_after_def sighted_def)
qed

text \<open>
  C35: A late batch brings a removed sighting back. If a sighting was marked removed by a batch collected later than this one, and was last
  seen before it, then this older batch makes it active again, although the newer collection did not find it.
\<close>

theorem late_batch_revives:
  assumes "inv_ok s" and "Submit env x inp s = (Inr out, s')"
    and "c \<in> set (ii_Certificates inp)" and "parseAndCanonicalize x (ic_CertificatePEM c) = Inr p"
    and "sightings s (ii_OrganizationID inp) (pc_FingerprintSHA256 p) (ii_AgentID inp) (ic_StoreLocation c) = Some y"
    and "sg_LastSeenAt y \<le> ii_CollectedAt inp" and "sg_RemovedAt y = Some t" and "ii_CollectedAt inp < t"
  shows "\<exists>y'. sightings s' (ii_OrganizationID inp) (pc_FingerprintSHA256 p) (ii_AgentID inp) (ic_StoreLocation c) = Some y' \<and>
    sg_RemovedAt y' = None \<and> sg_LastSeenAt y' < t"
proof -
  from Submit_effect [OF assms(1,2)] obtain rs where 1: "batch_reads x inp rs" "sightings s' = sightings_after inp rs (sightings s)"
    by (auto simp: batch_accepted_def)
  from 1(1) have l: "list_all2 (entry_read x) (ii_Certificates inp) rs" by (simp add: batch_reads_def)
  from assms(3) obtain i where i: "i < length (ii_Certificates inp)" "ii_Certificates inp ! i = c" by (auto simp: in_set_conv_nth)
  then have r: "entry_read x c (rs ! i)" "rs ! i \<in> set rs" using list_all2_nthD [OF l i(1)] list_all2_lengthD [OF l] by auto
  let ?fp = "pc_FingerprintSHA256 p" and ?st = "ic_StoreLocation c"
  have key: "rec_key (rs ! i) = (?fp, ?st)" using r(1) assms(4) by (simp add: entry_read_def rec_key_def print_of_def)
  then have "(?fp, ?st) \<in> rec_key ` set rs" using r(2) by (metis imageI)
  then have "batch_names rs (?fp, ?st) \<noteq> None" by (simp add: batch_names_None)
  then obtain n where n: "batch_names rs (?fp, ?st) = Some n" by blast
  have "?fp \<in> print_of ` set rs" using key r(2) by (force simp: rec_key_def)
  then show ?thesis using n 1(2) assms(5-8) by (simp add: sightings_after_def sighted_def resight_def)
qed


section \<open>Witnesses\<close>

text \<open>A library whose PEM block is the marker and the bytes, and whose digest is the identity.\<close>

definition demo_x509 :: "string \<Rightarrow> X509" where
  "demo_x509 b = \<lparr>x_Raw = b, x_Subject = ''CN=a'', x_Issuer = ''CN=a'', x_SerialNumber = 258, x_SignatureAlgorithm = ''SHA256-RSA'', x_PublicKeyAlgorithm = ''RSA'',
     x_PublicKey = RSAPublicKey 255, x_NotBefore = 0, x_NotAfter = 9, x_DNSNames = [], x_IPAddresses = [], x_URIs = [], x_EmailAddresses = [],
     x_KeyUsage = 5, x_ExtKeyUsage = [1], x_SignedByOwnKey = True, x_IsCA = False\<rparr>"

definition demo_lib :: x509_lib where
  "demo_lib = \<lparr>pemDecode = (\<lambda>s. if take 27 s = beginMarker then Some (''CERTIFICATE'', drop 27 s, []) else None), pemEncode = (\<lambda>b. beginMarker @ b),
     x509Parse = (\<lambda>b. if b = [] then None else Some (demo_x509 b)), sha256Sum = (\<lambda>b. b)\<rparr>"

definition demo_agent_row :: AgentRow where
  "demo_agent_row = \<lparr>ar_agent = \<lparr>ag_ID = ''a'', ag_OrganizationID = ''o'', ag_Hostname = [], ag_DisplayName = [], ag_Status = AgentStatusActive, ag_EnrolledAt = 0,
     ag_LastSeenAt = 0, ag_DeploymentPackageID = [], ag_AgentVersion = [], ag_MachineFingerprintHash = [], ag_InstallID = [], ag_GroupName = [], ag_Labels = [],
     ag_UpdatedAt = 0\<rparr>, ar_credential_hash = ''h''\<rparr>"

definition demo_inv :: inv_db where
  "demo_inv = \<lparr>w_calls = 0, w_ids = 0, w_clock = 0, w_tx = 0, w_locks = [], audit_events = [], t_organizations = [(''o'', ''O'')], t_users = [], t_sessions = [],
     t_packages = [], t_agents = [demo_agent_row], t_inv_certificates = [], t_inv_observations = [], t_snapshots = []\<rparr>"

definition demo_entry :: "string \<Rightarrow> string \<Rightarrow> IngestionCertificate" where
  "demo_entry st b = \<lparr>ic_StoreLocation = st, ic_FriendlyName = ''n'', ic_CertificatePEM = beginMarker @ b\<rparr>"

definition demo_batch :: "Time \<Rightarrow> string list \<Rightarrow> IngestionCertificate list \<Rightarrow> IngestionInput" where
  "demo_batch at cov cs = \<lparr>ii_OrganizationID = ''o'', ii_AgentID = ''a'', ii_CollectedAt = at, ii_StoreCoverage = cov, ii_Certificates = cs\<rparr>"

definition demo_submit :: "IngestionInput \<Rightarrow> inv_db \<Rightarrow> (err + IngestionOutput) \<times> inv_db" where
  "demo_submit = Submit demo_env demo_lib"

definition demo_record :: ingestionRecord where
  "demo_record = \<lparr>ir_cert = parsed_view demo_lib (demo_x509 ''A''), ir_storeLocation = ''S'', ir_friendlyName = ''n''\<rparr>"

lemma demo_inv_ok: "inv_ok demo_inv"
  by (simp add: inv_ok_def demo_inv_def)

lemma demo_env_ok: "no_faults demo_env"
  by (simp add: no_faults_def demo_env_def)

definition demo_first :: "(err + IngestionOutput) \<times> inv_db" where
  "demo_first = demo_submit (demo_batch 100 [''S''] [demo_entry ''S'' ''A'']) demo_inv"

lemma demo_first_run: "Submit demo_env demo_lib (demo_batch 100 [''S''] [demo_entry ''S'' ''A'']) demo_inv = (Inr (projr (fst demo_first)), snd demo_first)"
proof -
  have "\<not> isl (fst demo_first)" by code_simp
  from returned [OF this] show ?thesis by (simp add: demo_first_def demo_submit_def)
qed

lemma demo_first_ok: "inv_ok (snd demo_first)"
  using keepsD [OF keeps_inv_Submit demo_inv_ok demo_first_run] .

theorem Submit_refuses_witness:
  "fst (Submit demo_env demo_lib (demo_batch 100 [''S''] [demo_entry ''S'' ''A'', demo_entry ''T'' ''-----BEGIN rsa PRIVATE KEY'']) demo_inv) = Inl ErrPrivateKeyMaterial"
proof -
  let ?b = "demo_batch 100 [''S''] [demo_entry ''S'' ''A'', demo_entry ''T'' ''-----BEGIN rsa PRIVATE KEY'']"
  have k: "carries_key ?b" by code_simp
  have sh: "batch_shape (clockAt demo_env (w_clock demo_inv)) ?b" by code_simp
  have "\<forall>rs. \<not> batch_accepted demo_lib (clockAt demo_env (w_clock demo_inv)) ?b rs" using k by (simp add: batch_accepted_def)
  from Submit_refuses [OF demo_env_ok this] k sh show ?thesis by auto
qed


theorem Submit_succeeds_witness:
  "\<exists>out s'. Submit demo_env demo_lib (demo_batch 100 [''S''] [demo_entry ''S'' ''A'']) demo_inv = (Inr out, s') \<and>
     sightings s' ''o'' ''41'' ''a'' ''S'' \<noteq> None"
proof -
  have 1: "batch_accepted demo_lib (clockAt demo_env (w_clock demo_inv)) (demo_batch 100 [''S''] [demo_entry ''S'' ''A'']) [demo_record]" by code_simp
  have 2: "batch_storable (demo_batch 100 [''S''] [demo_entry ''S'' ''A'']) [demo_record] demo_inv" by code_simp
  have 3: "fresh_ids demo_env (2 * length [demo_record]) demo_inv" by code_simp
  have "print_of demo_record = ''41''" "ir_storeLocation demo_record = ''S''" by code_simp+
  moreover have "ii_OrganizationID (demo_batch 100 [''S''] [demo_entry ''S'' ''A'']) = ''o''" "ii_AgentID (demo_batch 100 [''S''] [demo_entry ''S'' ''A'']) = ''a''"
    by (simp_all add: demo_batch_def)
  ultimately show ?thesis using Submit_succeeds [OF demo_env_ok demo_inv_ok 1 2 3] by auto
qed

theorem Submit_again_witness:
  "\<exists>out s2. Submit demo_env demo_lib (demo_batch 100 [''S''] [demo_entry ''S'' ''A'']) (snd demo_first) = (Inr out, s2) \<and> spans s2 = spans (snd demo_first)"
proof -
  let ?r = "demo_submit (demo_batch 100 [''S''] [demo_entry ''S'' ''A'']) (snd demo_first)"
  have "\<not> isl (fst ?r)" by code_simp
  from returned [OF this] have "Submit demo_env demo_lib (demo_batch 100 [''S''] [demo_entry ''S'' ''A'']) (snd demo_first) = (Inr (projr (fst ?r)), snd ?r)"
    by (simp add: demo_submit_def)
  from Submit_again [OF demo_inv_ok demo_first_run this] this show ?thesis by blast
qed

lemma demo_submit_returns: "\<not> isl (fst (demo_submit b s)) \<Longrightarrow>
    Submit demo_env demo_lib b s = (Inr (projr (fst (demo_submit b s))), snd (demo_submit b s))"
  using returned [of "demo_submit b s"] by (simp add: demo_submit_def)

definition demo_later :: IngestionInput where
  "demo_later = demo_batch 300 [''S''] [demo_entry ''S'' ''B'']"

theorem Submit_order_times_witness:
  "\<exists>o1 s2 o2 t2. Submit demo_env demo_lib demo_later (snd demo_first) = (Inr o1, s2) \<and>
     Submit demo_env demo_lib (demo_batch 100 [''S''] [demo_entry ''S'' ''A'']) (snd (demo_submit demo_later demo_inv)) = (Inr o2, t2) \<and> spans s2 = spans t2"
proof -
  have 1: "\<not> isl (fst (demo_submit demo_later (snd demo_first)))" by code_simp
  have 2: "\<not> isl (fst (demo_submit demo_later demo_inv))" by code_simp
  have 3: "\<not> isl (fst (demo_submit (demo_batch 100 [''S''] [demo_entry ''S'' ''A'']) (snd (demo_submit demo_later demo_inv))))" by code_simp
  note r = demo_submit_returns [OF 1] demo_submit_returns [OF 2] demo_submit_returns [OF 3]
  from Submit_order_times [OF demo_inv_ok demo_first_run r(1,2,3)] r(1,3) show ?thesis by blast
qed

lemma demo_entry_parsed: "parseAndCanonicalize demo_lib (ic_CertificatePEM (demo_entry st ''A'')) = Inr (parsed_view demo_lib (demo_x509 ''A''))"
  "pc_FingerprintSHA256 (parsed_view demo_lib (demo_x509 ''A'')) = ''41''"
proof -
  have "parseAndCanonicalize demo_lib (beginMarker @ ''A'') = Inr (parsed_view demo_lib (demo_x509 ''A''))" by code_simp
  then show "parseAndCanonicalize demo_lib (ic_CertificatePEM (demo_entry st ''A'')) = Inr (parsed_view demo_lib (demo_x509 ''A''))"
    by (simp add: demo_entry_def)
  show "pc_FingerprintSHA256 (parsed_view demo_lib (demo_x509 ''A'')) = ''41''" by code_simp
qed

theorem moved_certificate_stays_witness:
  "\<exists>out s' y. Submit demo_env demo_lib (demo_batch 200 [''S'', ''T''] [demo_entry ''T'' ''A'']) (snd demo_first) = (Inr out, s') \<and>
     sightings s' ''o'' ''41'' ''a'' ''S'' = Some y \<and> sg_RemovedAt y = None"
proof -
  let ?b = "demo_batch 200 [''S'', ''T''] [demo_entry ''T'' ''A'']" and ?y = "\<lparr>sg_FirstSeenAt = 100, sg_LastSeenAt = 100, sg_RemovedAt = None, sg_FriendlyName = ''n''\<rparr>"
  have 1: "\<not> isl (fst (demo_submit ?b (snd demo_first)))" by code_simp
  have b: "ii_OrganizationID ?b = ''o''" "ii_AgentID ?b = ''a''" "ii_StoreCoverage ?b = [''S'', ''T'']" "ii_Certificates ?b = [demo_entry ''T'' ''A'']"
    "ic_StoreLocation (demo_entry ''T'' ''A'') = ''T''" by (simp_all add: demo_batch_def demo_entry_def)
  have 2: "sightings (snd demo_first) ''o'' ''41'' ''a'' ''S'' = Some ?y" by code_simp
  have "sightings (snd (demo_submit ?b (snd demo_first))) (ii_OrganizationID ?b) ''41'' (ii_AgentID ?b) ''S'' = Some ?y \<and> sg_RemovedAt ?y = None"
    by (rule moved_certificate_stays [OF demo_first_ok demo_submit_returns [OF 1], where c = "demo_entry ''T'' ''A''" and p = "parsed_view demo_lib (demo_x509 ''A'')"])
      (simp_all add: b 2 demo_entry_parsed)
  then show ?thesis using demo_submit_returns [OF 1] by (intro exI conjI) (auto simp: b)
qed

definition demo_removed :: inv_db where
  "demo_removed = snd (demo_submit demo_later (snd demo_first))"

theorem late_batch_revives_witness:
  "\<exists>out s' y'. Submit demo_env demo_lib (demo_batch 200 [''S''] [demo_entry ''S'' ''A'']) demo_removed = (Inr out, s') \<and>
     sightings s' ''o'' ''41'' ''a'' ''S'' = Some y' \<and> sg_RemovedAt y' = None"
proof -
  let ?b = "demo_batch 200 [''S''] [demo_entry ''S'' ''A'']" and ?y = "\<lparr>sg_FirstSeenAt = 100, sg_LastSeenAt = 100, sg_RemovedAt = Some 300, sg_FriendlyName = ''n''\<rparr>"
  have 0: "\<not> isl (fst (demo_submit demo_later (snd demo_first)))" by code_simp
  have ok: "inv_ok demo_removed" unfolding demo_removed_def using keepsD [OF keeps_inv_Submit demo_first_ok demo_submit_returns [OF 0]] .
  have 1: "\<not> isl (fst (demo_submit ?b demo_removed))" by code_simp
  have b: "ii_OrganizationID ?b = ''o''" "ii_AgentID ?b = ''a''" "ii_Certificates ?b = [demo_entry ''S'' ''A'']" "ii_CollectedAt ?b = 200"
    "ic_StoreLocation (demo_entry ''S'' ''A'') = ''S''" by (simp_all add: demo_batch_def demo_entry_def)
  have 2: "sightings demo_removed ''o'' ''41'' ''a'' ''S'' = Some ?y" by code_simp
  have "\<exists>y'. sightings (snd (demo_submit ?b demo_removed)) (ii_OrganizationID ?b) (pc_FingerprintSHA256 (parsed_view demo_lib (demo_x509 ''A'')))
      (ii_AgentID ?b) (ic_StoreLocation (demo_entry ''S'' ''A'')) = Some y' \<and> sg_RemovedAt y' = None \<and> sg_LastSeenAt y' < 300"
    by (rule late_batch_revives [OF ok demo_submit_returns [OF 1], where c = "demo_entry ''S'' ''A''" and y = ?y and t = 300])
      (simp_all add: b 2 demo_entry_parsed)
  then show ?thesis using demo_submit_returns [OF 1] by (auto simp: b demo_entry_parsed)
qed

end
