(* ===== verification/AgentInventoryOps.thy ===== *)
theory AgentInventoryOps imports AgentInventory Ingestion begin

text \<open>
  What the machine inventory keeps: one report per agent, the last one, within the documented lengths; and the operator's list, read to its end.
\<close>

section \<open>Reports\<close>

definition valid_report :: "SubmitInput \<Rightarrow> bool" where
  "valid_report inp \<longleftrightarrow> TrimSpace (si_AgentID inp) \<noteq> [] \<and> TrimSpace (si_OrganizationID inp) \<noteq> [] \<and> length (TrimSpace (si_Hostname inp)) \<le> 255 \<and>
     length (TrimSpace (si_OSName inp)) \<le> 100 \<and> length (TrimSpace (si_OSVersion inp)) \<le> 100 \<and> length (TrimSpace (si_AgentVersion inp)) \<le> 64 \<and>
     length (TrimSpace (si_MachineArch inp)) \<le> 64 \<and> length (si_LocalIPs inp) \<le> 32 \<and>
     list_all (\<lambda>ip. TrimSpace ip \<noteq> [] \<and> length (TrimSpace ip) \<le> 64) (si_LocalIPs inp)"

definition within_caps :: "Snapshot \<Rightarrow> bool" where
  "within_caps x \<longleftrightarrow> length (snp_Hostname x) \<le> 255 \<and> length (snp_OSName x) \<le> 100 \<and> length (snp_OSVersion x) \<le> 100 \<and> length (snp_AgentVersion x) \<le> 64 \<and>
     length (snp_MachineArch x) \<le> 64 \<and> length (snp_LocalIPs x) \<le> 32 \<and> list_all (\<lambda>ip. ip \<noteq> [] \<and> length ip \<le> 64) (snp_LocalIPs x)"

definition report_of :: "Time \<Rightarrow> SubmitInput \<Rightarrow> Snapshot" where
  "report_of now inp = \<lparr>snp_OrganizationID = TrimSpace (si_OrganizationID inp), snp_AgentID = TrimSpace (si_AgentID inp), snp_Hostname = TrimSpace (si_Hostname inp),
     snp_OSName = TrimSpace (si_OSName inp), snp_OSVersion = TrimSpace (si_OSVersion inp), snp_AgentVersion = TrimSpace (si_AgentVersion inp),
     snp_MachineArch = TrimSpace (si_MachineArch inp), snp_LocalIPs = map TrimSpace (si_LocalIPs inp), snp_InstalledAt = si_InstalledAt inp,
     snp_ReceivedAt = now, snp_UpdatedAt = now\<rparr>"

lemma trim_ips_eq:
  "trim_ips ips = (if list_all (\<lambda>ip. TrimSpace ip \<noteq> [] \<and> length (TrimSpace ip) \<le> 64) ips then Inr (map TrimSpace ips) else Inl ErrInvalidSnapshotInput)"
  by (induction ips) (simp_all add: Let_def MaxLocalIPLength_def)

lemma validate_eqs:
  "validateField v n = (if length (TrimSpace v) \<le> n then Inr (TrimSpace v) else Inl ErrInvalidSnapshotInput)"
  "validateLocalIPs ips = (if length ips \<le> 32 \<and> list_all (\<lambda>ip. TrimSpace ip \<noteq> [] \<and> length (TrimSpace ip) \<le> 64) ips
     then Inr (map TrimSpace ips) else Inl ErrInvalidSnapshotInput)"
  by (simp_all add: validateField_def validateLocalIPs_def Let_def trim_ips_eq MaxLocalIPs_def)

lemma bindE_liftE_if: "bindE (liftE (if b then Inr x else Inl e)) k s = (if b then k x s else (Inl e, s))"
  by (simp add: bindE_def liftE_def)

lemma bindE_Now: "bindE (Now env) k s = k (clockAt env (w_clock s)) (s\<lparr>w_clock := Suc (w_clock s)\<rparr>)"
  by (simp add: bindE_def Now_def)

lemma buildSnapshot_eq:
  "buildSnapshot env inp s = (if valid_report inp then (Inr (report_of (clockAt env (w_clock s)) inp), s\<lparr>w_clock := Suc (w_clock s)\<rparr>)
     else (Inl ErrInvalidSnapshotInput, s))"
  unfolding buildSnapshot_def validate_eqs bindE_guard bindE_liftE_if bindE_Now valid_report_def report_of_def retE_def
    MaxHostnameLength_def MaxOSNameLength_def MaxOSVersionLength_def MaxAgentVersionLength_def MaxMachineArchLength_def
  by simp

lemma report_within_caps: "valid_report inp \<Longrightarrow> within_caps (report_of t inp)"
  by (simp add: valid_report_def within_caps_def report_of_def list.pred_map comp_def)

section \<open>One report per agent\<close>

definition snapshot_at :: "'z inv_db_scheme \<Rightarrow> string \<Rightarrow> string \<Rightarrow> Snapshot option" where
  "snapshot_at s org ag = find (\<lambda>x. snap_key x = (org, ag)) (t_snapshots s)"

definition snaps_ok :: "'z inv_db_scheme \<Rightarrow> bool" where
  "snaps_ok s \<longleftrightarrow> distinct (map snap_key (t_snapshots s)) \<and> list_all within_caps (t_snapshots s)"

definition registered :: "string \<Rightarrow> string \<Rightarrow> 'z enroll_db_scheme \<Rightarrow> bool" where
  "registered org ag s \<longleftrightarrow> list_ex (is_agent ag org) (t_agents s)"

lemma registered_stepped [simp]: "registered org ag (stepped s) = registered org ag s"
  by (simp add: registered_def stepped_def)

lemma report_fields [simp]: "snap_key (report_of t inp) = (TrimSpace (si_OrganizationID inp), TrimSpace (si_AgentID inp))"
  "(report_of t inp)\<lparr>snp_UpdatedAt := snp_ReceivedAt (report_of t inp)\<rparr> = report_of t inp" "(report_of t inp)\<lparr>snp_UpdatedAt := t\<rparr> = report_of t inp" "snp_ReceivedAt (report_of t inp) = t"
  "snp_AgentID (report_of t inp) = TrimSpace (si_AgentID inp)" "snp_OrganizationID (report_of t inp) = TrimSpace (si_OrganizationID inp)"
  by (simp_all add: report_of_def snap_key_def)

lemma GetForAgent_reads:
  assumes "no_faults env"
  shows "GetForAgent env ag org s = (if TrimSpace ag = [] \<or> TrimSpace org = [] then (Inl ErrInvalidSnapshotInput, s)
    else (case snapshot_at s org ag of None \<Rightarrow> Inl ErrSnapshotNotFound | Some x \<Rightarrow> Inr x, stepped s))"
proof -
  have k: "(\<lambda>x. snp_AgentID x = ag \<and> snp_OrganizationID x = org) = (\<lambda>x. snap_key x = (org, ag))" by (auto simp: snap_key_def fun_eq_iff)
  show ?thesis
    unfolding GetForAgent_def GetByAgentAndOrg_def bindE_guard bindE_step_Inr [OF db_query_ok [OF assms]] k snapshot_at_def inv_fields
    by (auto simp: throwE_def retE_def split: option.splits)
qed

text \<open>A report on a working database, as one equation.\<close>

definition with_report :: "Snapshot \<Rightarrow> 'z inv_db_scheme \<Rightarrow> 'z inv_db_scheme" where
  "with_report x s = s\<lparr>t_snapshots := upsert snap_key x (t_snapshots s)\<rparr>"

lemma snapshot_at_with_report:
  "snapshot_at (with_report x s) org ag = (if (org, ag) = snap_key x then Some x else snapshot_at s org ag)"
  using find_upsert_same [of snap_key x "t_snapshots s"] find_upsert_other [of "(org, ag)" snap_key x "t_snapshots s"]
  by (auto simp: snapshot_at_def with_report_def)

lemma snapshot_Upsert_run:
  assumes "no_faults env" and "x\<lparr>snp_UpdatedAt := snp_ReceivedAt x\<rparr> = x"
  shows "snapshot_Upsert env x s = (if registered (snp_OrganizationID x) (snp_AgentID x) s then (Inr (), with_report x (stepped s)) else (Inl EDb, stepped s))"
proof -
  have "(\<exists>r \<in> set (t_agents (stepped s)). is_agent (snp_AgentID x) (snp_OrganizationID x) r) = registered (snp_OrganizationID x) (snp_AgentID x) s"
    by (simp add: registered_def list_ex_iff stepped_def)
  then show ?thesis unfolding snapshot_Upsert_def exec_hit_def assms(2) bindE_step_Inr [OF db_query_ok [OF assms(1)]] bindE_guard modE_def with_report_def by simp
qed

text \<open>
  C37: A report replaces the agent's last one and nothing else. On a working database a report of a registered agent whose texts, trimmed,
  keep the documented lengths is taken: what is stored is the agent's identity with the reported host name, operating system, versions, machine
  architecture and addresses, each trimmed, the reported installation instant and the server's own time as the instant of receipt, all within the
  documented lengths. From then on a read of that agent returns exactly it, and a read of any other agent, of this organization or another, returns
  what it returned before. Any other report is refused and
  changes no table, with the input error exactly when the report itself is at fault.
\<close>

theorem report_replaces:
  assumes "no_faults env"
  shows "if valid_report inp \<and> registered (TrimSpace (si_OrganizationID inp)) (TrimSpace (si_AgentID inp)) s
    then \<exists>x s'. SubmitSnapshot env inp s = (Inr x, s') \<and>
      x = \<lparr>snp_OrganizationID = TrimSpace (si_OrganizationID inp), snp_AgentID = TrimSpace (si_AgentID inp), snp_Hostname = TrimSpace (si_Hostname inp),
        snp_OSName = TrimSpace (si_OSName inp), snp_OSVersion = TrimSpace (si_OSVersion inp), snp_AgentVersion = TrimSpace (si_AgentVersion inp),
        snp_MachineArch = TrimSpace (si_MachineArch inp), snp_LocalIPs = map TrimSpace (si_LocalIPs inp), snp_InstalledAt = si_InstalledAt inp,
        snp_ReceivedAt = clockAt env (w_clock s), snp_UpdatedAt = clockAt env (w_clock s)\<rparr> \<and> within_caps x \<and>
      (\<forall>org ag. fst (GetForAgent env ag org s') =
        (if (org, ag) = (TrimSpace (si_OrganizationID inp), TrimSpace (si_AgentID inp)) then Inr x else fst (GetForAgent env ag org s)))
    else \<exists>e s'. SubmitSnapshot env inp s = (Inl e, s') \<and> tables_of s' = tables_of s \<and> (e = ErrInvalidSnapshotInput \<longleftrightarrow> \<not> valid_report inp)"
proof (cases "valid_report inp")
  case False
  then have "SubmitSnapshot env inp s = (Inl ErrInvalidSnapshotInput, s)" by (simp add: SubmitSnapshot_def bindE_def buildSnapshot_eq)
  then show ?thesis using False by simp
next
  case v: True
  let ?x = "report_of (clockAt env (w_clock s)) inp" and ?s1 = "s\<lparr>w_clock := Suc (w_clock s)\<rparr>"
  have ids: "TrimSpace (si_OrganizationID inp) \<noteq> []" "TrimSpace (si_AgentID inp) \<noteq> []" using v by (simp_all add: valid_report_def)
  have b: "buildSnapshot env inp s = (Inr ?x, ?s1)" using v by (simp add: buildSnapshot_eq)
  have reg: "registered org ag ?s1 = registered org ag s" for org ag by (simp add: registered_def)
  note up = snapshot_Upsert_run [OF assms report_fields(2), of "clockAt env (w_clock s)" inp ?s1, unfolded report_fields reg]
  show ?thesis
  proof (cases "registered (TrimSpace (si_OrganizationID inp)) (TrimSpace (si_AgentID inp)) s")
    case False
    then have "SubmitSnapshot env inp s = (Inl EDb, stepped ?s1)"
      unfolding SubmitSnapshot_def bindE_step_Inr [where m = "buildSnapshot env inp", OF b] by (simp add: up bindE_def)
    then show ?thesis using v False by simp
  next
    case True
    then have run: "SubmitSnapshot env inp s = (Inr ?x, with_report ?x (stepped ?s1))"
      unfolding SubmitSnapshot_def bindE_step_Inr [where m = "buildSnapshot env inp", OF b] by (simp add: up bindE_def retE_def)
    have old: "snapshot_at (stepped ?s1) org ag = snapshot_at s org ag" for org ag by (simp add: snapshot_at_def)
    have "fst (GetForAgent env ag org (with_report ?x (stepped ?s1))) =
        (if (org, ag) = (TrimSpace (si_OrganizationID inp), TrimSpace (si_AgentID inp)) then Inr ?x else fst (GetForAgent env ag org s))" for org ag
      unfolding GetForAgent_reads [OF assms] snapshot_at_with_report old report_fields using ids by (auto split: option.splits)
    then show ?thesis using v True run report_within_caps [OF v]
      by (simp only: if_True simp_thms) (intro exI conjI allI; (assumption | simp add: report_of_def))
  qed
qed

lemma keeps_snaps_ok_SubmitSnapshot: "keeps snaps_ok (SubmitSnapshot env inp)"
proof (rule keepsI)
  fix s r s' assume ok: "snaps_ok s" and run: "SubmitSnapshot env inp s = (r, s')"
  show "snaps_ok s'"
  proof (cases "valid_report inp")
    case False
    with run have "s' = s" by (simp add: SubmitSnapshot_def bindE_def buildSnapshot_eq)
    with ok show ?thesis by simp
  next
    case v: True
    let ?x = "report_of (clockAt env (w_clock s)) inp" and ?s1 = "s\<lparr>w_clock := Suc (w_clock s)\<rparr>"
    from run v have "s' = with_report ?x (stepped ?s1) \<or> s' = stepped ?s1"
      by (auto simp: SubmitSnapshot_def bindE_def buildSnapshot_eq snapshot_Upsert_def exec_hit_def db_query_def dbcall_def getE_def guardE_def retE_def
        throwE_def modE_def stepped_def with_report_def split: if_splits)
    moreover have "snaps_ok (stepped ?s1)" using ok by (simp add: snaps_ok_def)
    moreover have "snaps_ok (with_report ?x (stepped ?s1))"
      using ok distinct_upsert [of snap_key "t_snapshots s" ?x] set_upsert_subset [of snap_key ?x "t_snapshots s"] report_within_caps [OF v, of "clockAt env (w_clock s)"]
      by (auto simp: snaps_ok_def with_report_def list_all_iff)
    ultimately show ?thesis by blast
  qed
qed

section \<open>The list\<close>

definition summary_key :: "Summary \<Rightarrow> int \<times> string" where
  "summary_key x = (- sm_ReceivedAt x, sm_AgentID x)"

definition summaries :: "string \<Rightarrow> 'z inv_db_scheme \<Rightarrow> Summary list" where
  "summaries org s = map summary_row (sort_key (\<lambda>x. (- snp_ReceivedAt x, snp_AgentID x)) (filter (\<lambda>x. snp_OrganizationID x = org) (t_snapshots s)))"

definition summary_page :: "env \<Rightarrow> ListSummariesInput \<Rightarrow> string \<Rightarrow> ('z inv_db_scheme, Summary list \<times> string) prog" where
  "summary_page env inp c = bindE (ListSummaries env (inp\<lparr>ls_Cursor := c\<rparr>)) (\<lambda>r. retE (lo_Items r, lo_NextCursor r))"

text \<open>Rows a cursor can point at, and inputs a page can be asked for.\<close>

definition snaps_listable :: "'z inv_db_scheme \<Rightarrow> bool" where
  "snaps_listable s \<longleftrightarrow> list_all (\<lambda>x. printable_time (snp_ReceivedAt x) \<and> snp_ReceivedAt x \<noteq> zeroTime \<and> snp_AgentID x \<noteq> []) (t_snapshots s)"

definition page_input :: "ListSummariesInput \<Rightarrow> bool" where
  "page_input inp \<longleftrightarrow> TrimSpace (ls_OrganizationID inp) \<noteq> [] \<and> 0 \<le> ls_Limit inp \<and> ls_Limit inp \<le> 200"

definition page_size :: "ListSummariesInput \<Rightarrow> nat" where
  "page_size inp = nat (if ls_Limit inp = 0 then 50 else ls_Limit inp)"

lemma summary_row_simps [simp]: "sm_ReceivedAt (summary_row x) = snp_ReceivedAt x" "sm_AgentID (summary_row x) = snp_AgentID x"
  "summary_key (summary_row x) = (- snp_ReceivedAt x, snp_AgentID x)"
  by (simp_all add: summary_row_def summary_key_def)

lemma list_cursor_back:
  assumes "printable_time t" and "i \<noteq> []"
  shows "decodeListCursor (encodeListCursor t i) = Inr (t, i)" and "encodeListCursor t i \<noteq> []"
proof -
  note ne = encoded_nonempty [of "FormatRFC3339Nano t @ CHR ''|'' # i"]
  then show "encodeListCursor t i \<noteq> []" by (simp add: encodeListCursor_def snap_listCursorSeparator_def)
  have "SplitN 2 (CHR ''|'') (FormatRFC3339Nano t @ CHR ''|'' # i) = [FormatRFC3339Nano t, i]"
    using SplitN_cut [OF bar_time [OF assms(1)], of 0 i] by (simp add: numeral_2_eq_2)
  then show "decodeListCursor (encodeListCursor t i) = Inr (t, i)"
    using ne assms Parse_Format [OF assms(1)] printed_nonempty [of t] RawURL_roundtrip [of "FormatRFC3339Nano t @ CHR ''|'' # i"]
    by (simp add: decodeListCursor_def encodeListCursor_def snap_listCursorSeparator_def Let_def)
qed

lemma summaries_query_eq:
  assumes "page_input inp" and "decodeListCursor c = Inr (t, i)"
  shows "summaries_query (inp\<lparr>ls_Cursor := c\<rparr>) = Inr \<lparr>sq_OrganizationID = TrimSpace (ls_OrganizationID inp), sq_Limit = int (page_size inp) + 1,
    sq_CursorReceivedAt = t, sq_CursorAgentID = i\<rparr>"
  using assms by (simp add: summaries_query_def page_input_def page_size_def Let_def snap_DefaultListLimit_def snap_MaxListLimit_def)

lemma filter_summaries: "filter (\<lambda>y. k < summary_key y) (summaries org s) =
    map summary_row (sort_key (\<lambda>x. (- snp_ReceivedAt x, snp_AgentID x)) (filter (\<lambda>x. snp_OrganizationID x = org \<and> k < (- snp_ReceivedAt x, snp_AgentID x)) (t_snapshots s)))"
  unfolding summaries_def filter_map comp_def summary_row_simps filter_sort_key filter_filter by (simp only: conj_commute)

lemma summary_page_eq:
  assumes "no_faults env" and "page_input inp" and "decodeListCursor c = Inr (t, i)"
    and "\<And>x. x \<in> set (t_snapshots s) \<Longrightarrow> snp_OrganizationID x = TrimSpace (ls_OrganizationID inp) \<Longrightarrow>
      (t \<noteq> zeroTime \<longrightarrow> snp_ReceivedAt x < t \<or> snp_ReceivedAt x = t \<and> i < snp_AgentID x) \<longleftrightarrow> P x"
  shows "summary_page env inp c s = (Inr (cut_page (page_size inp) (\<lambda>y. encodeListCursor (sm_ReceivedAt y) (sm_AgentID y)) (take (Suc (page_size inp))
    (map summary_row (sort_key (\<lambda>x. (- snp_ReceivedAt x, snp_AgentID x)) (filter (\<lambda>x. snp_OrganizationID x = TrimSpace (ls_OrganizationID inp) \<and> P x) (t_snapshots s)))))), stepped s)"
proof -
  let ?q = "\<lparr>sq_OrganizationID = TrimSpace (ls_OrganizationID inp), sq_Limit = int (page_size inp) + 1, sq_CursorReceivedAt = t, sq_CursorAgentID = i\<rparr>"
  let ?rows = "take (Suc (page_size inp)) (map summary_row (sort_key (\<lambda>x. (- snp_ReceivedAt x, snp_AgentID x))
    (filter (\<lambda>x. snp_OrganizationID x = TrimSpace (ls_OrganizationID inp) \<and> P x) (t_snapshots s))))"
  have f: "filter (\<lambda>x. snp_OrganizationID x = sq_OrganizationID ?q \<and> beyond_summary ?q x) (t_snapshots s) =
      filter (\<lambda>x. snp_OrganizationID x = TrimSpace (ls_OrganizationID inp) \<and> P x) (t_snapshots s)"
    using assms(4) by (intro filter_cong refl) (auto simp: beyond_summary_def)
  have lim: "nat (sq_Limit ?q) = Suc (page_size inp)" "nat (sq_Limit ?q - 1) = page_size inp" by simp_all
  have run: "repo_ListSummaries env ?q s = (Inr ?rows, stepped s)"
    unfolding repo_ListSummaries_def db_query_ok [OF assms(1)] inv_fields f lim(1) take_map ..
  show ?thesis
    unfolding summary_page_def ListSummaries_def summaries_query_eq [OF assms(2,3)] bindE_assoc bindE_lift(1)
      bindE_step_Inr [where m = "repo_ListSummaries env ?q", OF run] lim(2) Let_def cut_page_def
    by (cases "page_size inp < length ?rows") (simp_all only: if_True if_False, simp_all add: retE_def bindE_def)
qed

lemma summaries_sorted: "snaps_ok s \<Longrightarrow> sorted_wrt (\<lambda>a b. summary_key a < summary_key b) (summaries org s)"
proof -
  assume "snaps_ok s"
  then have "distinct (map snap_key (filter (\<lambda>x. snp_OrganizationID x = org) (t_snapshots s)))" by (simp add: snaps_ok_def distinct_map_filter)
  then have "distinct (map (\<lambda>x. (- snp_ReceivedAt x, snp_AgentID x)) (filter (\<lambda>x. snp_OrganizationID x = org) (t_snapshots s)))"
    by (auto simp: distinct_map inj_on_def snap_key_def)
  from sorted_strict [OF this] show ?thesis by (simp add: summaries_def sorted_wrt_map)
qed

interpretation sl: listing "summary_page env inp" "summaries (TrimSpace (ls_OrganizationID inp))" summary_key
  "\<lambda>y. encodeListCursor (sm_ReceivedAt y) (sm_AgentID y)" "\<lambda>s. no_faults env \<and> page_input inp \<and> snaps_ok s \<and> snaps_listable s" stepped "page_size inp" for env inp
proof (unfold_locales, goal_cases)
  case (1 s)
  then show ?case by (auto simp: page_input_def page_size_def)
next
  case (2 s)
  then show ?case by (simp add: summaries_sorted)
next
  case (3 s r)
  then show ?case using list_cursor_back(2) by (auto simp: summaries_def snaps_listable_def list_all_iff)
next
  case (4 s)
  then show ?case using summary_page_eq [of env inp "[]" zeroTime "[]" s "\<lambda>_. True"] by (simp add: decodeListCursor_def summaries_def)
next
  case (5 s r)
  then obtain x where x: "r = summary_row x" "x \<in> set (t_snapshots s)" by (auto simp: summaries_def)
  with 5 have l: "printable_time (snp_ReceivedAt x)" "snp_ReceivedAt x \<noteq> zeroTime" "snp_AgentID x \<noteq> []" by (auto simp: snaps_listable_def list_all_iff)
  have "summary_page env inp (encodeListCursor (snp_ReceivedAt x) (snp_AgentID x)) s = (Inr (cut_page (page_size inp) (\<lambda>y. encodeListCursor (sm_ReceivedAt y) (sm_AgentID y))
      (take (Suc (page_size inp)) (map summary_row (sort_key (\<lambda>x. (- snp_ReceivedAt x, snp_AgentID x)) (filter (\<lambda>y. snp_OrganizationID y = TrimSpace (ls_OrganizationID inp) \<and>
        (- snp_ReceivedAt x, snp_AgentID x) < (- snp_ReceivedAt y, snp_AgentID y)) (t_snapshots s)))))), stepped s)"
    using 5 l(2) by (intro summary_page_eq [OF _ _ list_cursor_back(1) [OF l(1,3)]]) auto
  then show ?case unfolding x(1) summary_row_simps filter_summaries .
next
  case (6 s)
  then show ?case by (simp add: snaps_ok_def snaps_listable_def summaries_def)
qed

text \<open>
  The machine list neither skips nor repeats. On a table that does not change meanwhile, a client that follows the cursors from the first
  page, with any allowed page size, gets one summary for every agent of its organization that has reported and for no other, last report
  first and by identifier within an instant, and then stops.
\<close>

theorem summaries_cover:
  assumes "no_faults env" and "page_input inp" and "snaps_ok s" and "snaps_listable s" and "length (t_snapshots s) < n"
  shows "\<exists>s'. follow n (summary_page env inp) [] s = (Inr (map summary_row (sort_key (\<lambda>x. (- snp_ReceivedAt x, snp_AgentID x))
    (filter (\<lambda>x. snp_OrganizationID x = TrimSpace (ls_OrganizationID inp)) (t_snapshots s)))), s')"
proof -
  have "length (summaries (TrimSpace (ls_OrganizationID inp)) s) < n" using assms(5) by (simp add: summaries_def le_less_trans [OF length_filter_le])
  from sl.follow_all [OF conjI [OF assms(1) conjI [OF assms(2) conjI [OF assms(3,4)]]] this] show ?thesis unfolding summaries_def .
qed

section \<open>Witnesses\<close>

definition demo_report :: "string \<Rightarrow> SubmitInput" where
  "demo_report host = \<lparr>si_OrganizationID = ''o'', si_AgentID = ''a'', si_Hostname = host, si_OSName = ''linux'', si_OSVersion = [], si_AgentVersion = ''1'',
     si_MachineArch = [], si_LocalIPs = ['' ::1 ''], si_InstalledAt = Some 7\<rparr>"

theorem report_replaces_witness:
  "\<exists>x s'. SubmitSnapshot demo_env (demo_report '' h '') demo_inv = (Inr x, s') \<and> snp_Hostname x = ''h'' \<and> snp_AgentVersion x = ''1'' \<and>
     snp_InstalledAt x = Some 7 \<and> fst (GetForAgent demo_env ''a'' ''o'' s') = Inr x \<and>
     fst (GetForAgent demo_env ''b'' ''o'' s') = fst (GetForAgent demo_env ''b'' ''o'' demo_inv)"
proof -
  have v: "valid_report (demo_report '' h '')" "registered (TrimSpace (si_OrganizationID (demo_report '' h ''))) (TrimSpace (si_AgentID (demo_report '' h ''))) demo_inv" by code_simp+
  have k: "TrimSpace (si_OrganizationID (demo_report '' h '')) = ''o''" "TrimSpace (si_AgentID (demo_report '' h '')) = ''a''" by code_simp+
  from report_replaces [OF demo_env_ok, of "demo_report '' h ''" demo_inv] v obtain x s' where
    r: "SubmitSnapshot demo_env (demo_report '' h '') demo_inv = (Inr x, s')" "snp_Hostname x = TrimSpace (si_Hostname (demo_report '' h ''))"
    "snp_AgentVersion x = TrimSpace (si_AgentVersion (demo_report '' h ''))" "snp_InstalledAt x = si_InstalledAt (demo_report '' h '')"
    "\<forall>org ag. fst (GetForAgent demo_env ag org s') = (if (org, ag) = (''o'', ''a'') then Inr x else fst (GetForAgent demo_env ag org demo_inv))" unfolding k if_P [OF conjI [OF v, unfolded k]] by (elim exE conjE) (rule that; simp)
  moreover have "TrimSpace (si_Hostname (demo_report '' h '')) = ''h''" "TrimSpace (si_AgentVersion (demo_report '' h '')) = ''1''" "si_InstalledAt (demo_report '' h '') = Some 7"
    by code_simp+
  moreover from r(5) have "fst (GetForAgent demo_env ''a'' ''o'' s') = Inr x" "fst (GetForAgent demo_env ''b'' ''o'' s') = fst (GetForAgent demo_env ''b'' ''o'' demo_inv)"
    by simp_all
  ultimately show ?thesis by (intro exI conjI) (assumption | simp)+
qed

definition demo_snap :: "string \<Rightarrow> Time \<Rightarrow> Snapshot" where
  "demo_snap ag t = \<lparr>snp_OrganizationID = ''o'', snp_AgentID = ag, snp_Hostname = [], snp_OSName = [], snp_OSVersion = [], snp_AgentVersion = [],
     snp_MachineArch = [], snp_LocalIPs = [], snp_InstalledAt = None, snp_ReceivedAt = t, snp_UpdatedAt = t\<rparr>"

definition demo_snaps :: inv_db where
  "demo_snaps = demo_inv\<lparr>t_snapshots := [demo_snap ''a'' 5, demo_snap ''b'' 7]\<rparr>"

definition demo_list_input :: ListSummariesInput where
  "demo_list_input = \<lparr>ls_OrganizationID = ''o'', ls_Limit = 1, ls_Cursor = []\<rparr>"

theorem summaries_cover_witness:
  "map_sum id (map sm_AgentID) (fst (follow 3 (summary_page demo_env demo_list_input) [] demo_snaps)) = Inr [''b'', ''a'']"
proof -
  have 1: "page_input demo_list_input" by code_simp
  have 2: "snaps_ok demo_snaps" by code_simp
  have "printable_time 5" "printable_time 7" by code_simp+
  then have 3: "snaps_listable demo_snaps" by (simp add: snaps_listable_def demo_snaps_def demo_snap_def zeroTime_def second_def)
  have 4: "length (t_snapshots demo_snaps) < 3" by (simp add: demo_snaps_def)
  obtain s' where run: "follow 3 (summary_page demo_env demo_list_input) [] demo_snaps = (Inr (map summary_row (sort_key (\<lambda>x. (- snp_ReceivedAt x, snp_AgentID x))
      (filter (\<lambda>x. snp_OrganizationID x = TrimSpace (ls_OrganizationID demo_list_input)) (t_snapshots demo_snaps)))), s')"
    using summaries_cover [OF demo_env_ok 1 2 3 4] by blast
  have "map sm_AgentID (map summary_row (sort_key (\<lambda>x. (- snp_ReceivedAt x, snp_AgentID x))
      (filter (\<lambda>x. snp_OrganizationID x = TrimSpace (ls_OrganizationID demo_list_input)) (t_snapshots demo_snaps)))) = [''b'', ''a'']" by code_simp
  then show ?thesis unfolding run by simp
qed

end
