(* ===== verification/InventoryList.thy ===== *)
theory InventoryList imports Reconcile Listing begin

text \<open>
  The operator's reads of the certificate inventory: \<open>inventory/list.go\<close> and the statements of
  \<open>certificate_inventory_list_repository.go\<close>. The text form PostgreSQL gives a \<open>JSONB\<close> list of names is an argument, \<open>sansText\<close>.
\<close>

section \<open>Patterns\<close>

definition escapeLikePattern :: "string \<Rightarrow> string" where
  "escapeLikePattern s =
     (if \<not> list_ex (\<lambda>c. c \<in> {CHR ''%'', CHR ''_'', CHR 0x5C}) s then s
      else concat (map (\<lambda>c. if c \<in> {CHR 0x5C, CHR ''%'', CHR ''_''} then [CHR 0x5C, c] else [c]) s))"

text \<open>\<open>text ILIKE pattern ESCAPE '\'\<close> of the database: a percent sign is any text, an underscore any one letter.\<close>

fun ilike :: "string \<Rightarrow> string \<Rightarrow> bool" where
  "ilike [] s = (s = [])"
| "ilike (c # p) s =
     (if c = CHR ''%'' then ilike p s \<or> (case s of [] \<Rightarrow> False | x # t \<Rightarrow> ilike (c # p) t)
      else if c = CHR 0x5C then (case p of [] \<Rightarrow> False | d # p' \<Rightarrow> (case s of [] \<Rightarrow> False | x # t \<Rightarrow> fold_lower x = fold_lower d \<and> ilike p' t))
      else (case s of [] \<Rightarrow> False | x # t \<Rightarrow> (c = CHR ''_'' \<or> fold_lower x = fold_lower c) \<and> ilike p t))"

section \<open>Queries\<close>

definition inv_DefaultListLimit :: int where "inv_DefaultListLimit = 50"
definition inv_MaxListLimit :: int where "inv_MaxListLimit = 200"

record ListCertificatesInput =
  lci_OrganizationID :: string
  lci_Search :: string
  lci_ExpiringBefore :: "Time option"
  lci_IsCA :: "bool option"
  lci_AgentID :: string
  lci_CurrentOnly :: bool
  lci_Limit :: int
  lci_Cursor :: string

record CertificateListQuery =
  clq_OrganizationID :: string
  clq_Search :: string
  clq_ExpiringBefore :: "Time option"
  clq_IsCA :: "bool option"
  clq_AgentID :: string
  clq_CurrentOnly :: bool
  clq_Limit :: int
  clq_CursorLastSeenAt :: Time
  clq_CursorID :: string

record ListCertificatesOutput =
  lco_Items :: "CertificateSummary list"
  lco_NextCursor :: string

record CertificateDetail =
  cd_Certificate :: Certificate
  cd_ObservationCount :: int
  cd_ActiveObservationCount :: int

record ObservationListItem =
  oli_ID :: string
  oli_AgentID :: string
  oli_Hostname :: string
  oli_StoreLocation :: string
  oli_FriendlyName :: string
  oli_FirstSeenAt :: Time
  oli_LastSeenAt :: Time
  oli_RemovedAt :: "Time option"
  oli_Status :: string

record ListObservationsInput =
  loi_OrganizationID :: string
  loi_CertificateID :: string
  loi_CurrentOnly :: bool
  loi_Limit :: int
  loi_Cursor :: string

record ObservationListQuery =
  olq_OrganizationID :: string
  olq_CertificateID :: string
  olq_CurrentOnly :: bool
  olq_Limit :: int
  olq_CursorLastSeenAt :: Time
  olq_CursorAgentID :: string
  olq_CursorStoreLocation :: string

record ListObservationsOutput =
  loo_Items :: "ObservationListItem list"
  loo_NextCursor :: string

definition inv_listCursorSeparator :: char where "inv_listCursorSeparator = CHR ''|''"

definition encodeCertCursor :: "Time \<Rightarrow> string \<Rightarrow> string" where
  "encodeCertCursor lastSeenAt certificateID = RawURLEncode (FormatRFC3339Nano lastSeenAt @ [inv_listCursorSeparator] @ certificateID)"

definition decodeCertCursor :: "string \<Rightarrow> err + (Time \<times> string)" where
  "decodeCertCursor raw =
     (if raw = [] then Inr (zeroTime, [])
      else case RawURLDecode raw of
        None \<Rightarrow> Inl ErrInvalidListInput
      | Some decoded \<Rightarrow>
          (let parts = SplitN 2 inv_listCursorSeparator decoded in
           if length parts \<noteq> 2 \<or> parts ! 0 = [] \<or> parts ! 1 = [] then Inl ErrInvalidListInput
           else case ParseRFC3339Nano (parts ! 0) of
             None \<Rightarrow> Inl ErrInvalidListInput
           | Some at \<Rightarrow> Inr (at, parts ! 1)))"

definition encodeObsCursor :: "Time \<Rightarrow> string \<Rightarrow> string \<Rightarrow> string" where
  "encodeObsCursor lastSeenAt agentID storeLocation =
     RawURLEncode (FormatRFC3339Nano lastSeenAt @ [inv_listCursorSeparator] @ agentID @ [inv_listCursorSeparator] @ storeLocation)"

definition decodeObsCursor :: "string \<Rightarrow> err + (Time \<times> string \<times> string)" where
  "decodeObsCursor raw =
     (if raw = [] then Inr (zeroTime, [], [])
      else case RawURLDecode raw of
        None \<Rightarrow> Inl ErrInvalidListInput
      | Some decoded \<Rightarrow>
          (let parts = SplitN 3 inv_listCursorSeparator decoded in
           if length parts \<noteq> 3 \<or> parts ! 0 = [] \<or> parts ! 1 = [] \<or> parts ! 2 = [] then Inl ErrInvalidListInput
           else case ParseRFC3339Nano (parts ! 0) of
             None \<Rightarrow> Inl ErrInvalidListInput
           | Some at \<Rightarrow> Inr (at, parts ! 1, parts ! 2)))"

definition inv_normalizeLimit :: "int \<Rightarrow> err + int" where
  "inv_normalizeLimit raw =
     (if raw = 0 then Inr inv_DefaultListLimit
      else if raw < 0 then Inl ErrInvalidListInput
      else if raw > inv_MaxListLimit then Inl ErrInvalidListInput
      else Inr raw)"

definition certificates_query :: "ListCertificatesInput \<Rightarrow> err + CertificateListQuery" where
  "certificates_query inp =
     (if TrimSpace (lci_OrganizationID inp) = [] then Inl ErrInvalidListInput
      else case inv_normalizeLimit (lci_Limit inp) of
        Inl e \<Rightarrow> Inl e
      | Inr limit \<Rightarrow>
          (case decodeCertCursor (lci_Cursor inp) of
             Inl e \<Rightarrow> Inl e
           | Inr (cursorAt, cursorID) \<Rightarrow>
               Inr \<lparr>clq_OrganizationID = TrimSpace (lci_OrganizationID inp), clq_Search = TrimSpace (lci_Search inp),
                 clq_ExpiringBefore = lci_ExpiringBefore inp, clq_IsCA = lci_IsCA inp, clq_AgentID = TrimSpace (lci_AgentID inp),
                 clq_CurrentOnly = lci_CurrentOnly inp, clq_Limit = limit + 1, clq_CursorLastSeenAt = cursorAt, clq_CursorID = cursorID\<rparr>))"

definition observations_query :: "ListObservationsInput \<Rightarrow> err + ObservationListQuery" where
  "observations_query inp =
     (if TrimSpace (loi_OrganizationID inp) = [] then Inl ErrInvalidListInput
      else if TrimSpace (loi_CertificateID inp) = [] then Inl ErrInvalidListInput
      else case inv_normalizeLimit (loi_Limit inp) of
        Inl e \<Rightarrow> Inl e
      | Inr limit \<Rightarrow>
          (case decodeObsCursor (loi_Cursor inp) of
             Inl e \<Rightarrow> Inl e
           | Inr (cursorAt, cursorAgent, cursorStore) \<Rightarrow>
               Inr \<lparr>olq_OrganizationID = TrimSpace (loi_OrganizationID inp), olq_CertificateID = TrimSpace (loi_CertificateID inp),
                 olq_CurrentOnly = loi_CurrentOnly inp, olq_Limit = limit + 1, olq_CursorLastSeenAt = cursorAt,
                 olq_CursorAgentID = cursorAgent, olq_CursorStoreLocation = cursorStore\<rparr>))"

section \<open>The repository\<close>

definition obs_of :: "'z inv_db_scheme \<Rightarrow> string \<Rightarrow> string \<Rightarrow> CertificateObservation list" where
  "obs_of s org certID = filter (\<lambda>r. obs_OrganizationID r = org \<and> obs_CertificateID r = certID) (t_inv_observations s)"

definition certificate_summary :: "'z inv_db_scheme \<Rightarrow> Certificate \<Rightarrow> CertificateSummary" where
  "certificate_summary s c =
     (let obs = obs_of s (crt_OrganizationID c) (crt_ID c) in
      \<lparr>cs_ID = crt_ID c, cs_FingerprintSHA256 = crt_FingerprintSHA256 c, cs_Subject = crt_Subject c, cs_Issuer = crt_Issuer c,
       cs_SerialNumberHex = crt_SerialNumberHex c, cs_SignatureAlg = crt_SignatureAlg c, cs_PublicKeyAlg = crt_PublicKeyAlg c,
       cs_PublicKeyBits = crt_PublicKeyBits c, cs_NotBefore = crt_NotBefore c, cs_NotAfter = crt_NotAfter c, cs_IsSelfSigned = crt_IsSelfSigned c,
       cs_IsCA = crt_IsCA c, cs_FirstSeenAt = crt_FirstSeenAt c, cs_LastSeenAt = crt_LastSeenAt c, cs_ObservationCount = int (length obs),
       cs_ActiveObservationCount = int (length (filter (\<lambda>r. obs_RemovedAt r = None) obs))\<rparr>)"

definition search_condition :: "(string list \<Rightarrow> string) \<Rightarrow> string \<Rightarrow> Certificate \<Rightarrow> bool" where
  "search_condition sansText search c =
     (let pattern = ''%'' @ escapeLikePattern search @ ''%'' in
      ilike pattern (crt_Subject c) \<or> ilike pattern (crt_Issuer c) \<or> ilike pattern (crt_FingerprintSHA256 c) \<or> ilike pattern (sansText (crt_SANs c)))"

definition cert_condition :: "(string list \<Rightarrow> string) \<Rightarrow> CertificateListQuery \<Rightarrow> 'z inv_db_scheme \<Rightarrow> Certificate \<Rightarrow> bool" where
  "cert_condition sansText q s c \<longleftrightarrow>
     crt_OrganizationID c = clq_OrganizationID q \<and>
     (clq_Search q \<noteq> [] \<longrightarrow> search_condition sansText (clq_Search q) c) \<and>
     (case clq_ExpiringBefore q of None \<Rightarrow> True | Some t \<Rightarrow> crt_NotAfter c < t) \<and>
     (case clq_IsCA q of None \<Rightarrow> True | Some b \<Rightarrow> crt_IsCA c = b) \<and>
     (clq_AgentID q \<noteq> [] \<or> clq_CurrentOnly q \<longrightarrow> list_ex (\<lambda>r. (clq_AgentID q \<noteq> [] \<longrightarrow> obs_AgentID r = clq_AgentID q) \<and>
        (clq_CurrentOnly q \<longrightarrow> obs_RemovedAt r = None)) (obs_of s (crt_OrganizationID c) (crt_ID c)))"

definition beyond_cert :: "CertificateListQuery \<Rightarrow> Certificate \<Rightarrow> bool" where
  "beyond_cert q c \<longleftrightarrow> (clq_CursorLastSeenAt q \<noteq> zeroTime \<longrightarrow>
     crt_LastSeenAt c < clq_CursorLastSeenAt q \<or> crt_LastSeenAt c = clq_CursorLastSeenAt q \<and> clq_CursorID q < crt_ID c)"

definition cert_order :: "Certificate \<Rightarrow> int \<times> string" where
  "cert_order c = (- crt_LastSeenAt c, crt_ID c)"

definition repo_ListCertificates :: "env \<Rightarrow> (string list \<Rightarrow> string) \<Rightarrow> CertificateListQuery \<Rightarrow> ('z inv_db_scheme, CertificateSummary list) prog" where
  "repo_ListCertificates env sansText q =
     db_query env (\<lambda>s. map (certificate_summary s) (take (nat (clq_Limit q)) (sort_key cert_order
       (filter (\<lambda>c. cert_condition sansText q s c \<and> beyond_cert q c) (t_inv_certificates s)))))"

definition CountObservations :: "env \<Rightarrow> string \<Rightarrow> string \<Rightarrow> ('z inv_db_scheme, int \<times> int) prog" where
  "CountObservations env org certID =
     db_query env (\<lambda>s. (int (length (obs_of s org certID)), int (length (filter (\<lambda>r. obs_RemovedAt r = None) (obs_of s org certID)))))"

text \<open>The outer join meets at most one snapshot, by its primary key.\<close>

definition observation_item :: "'z inv_db_scheme \<Rightarrow> CertificateObservation \<Rightarrow> ObservationListItem" where
  "observation_item s r = \<lparr>oli_ID = obs_ID r, oli_AgentID = obs_AgentID r,
     oli_Hostname = (case find (\<lambda>x. snp_OrganizationID x = obs_OrganizationID r \<and> snp_AgentID x = obs_AgentID r) (t_snapshots s) of
       None \<Rightarrow> [] | Some x \<Rightarrow> snp_Hostname x),
     oli_StoreLocation = obs_StoreLocation r, oli_FriendlyName = obs_FriendlyName r, oli_FirstSeenAt = obs_FirstSeenAt r,
     oli_LastSeenAt = obs_LastSeenAt r, oli_RemovedAt = obs_RemovedAt r,
     oli_Status = (if obs_RemovedAt r = None then ''active'' else ''removed'')\<rparr>"

definition beyond_obs :: "ObservationListQuery \<Rightarrow> CertificateObservation \<Rightarrow> bool" where
  "beyond_obs q r \<longleftrightarrow> (olq_CursorLastSeenAt q \<noteq> zeroTime \<longrightarrow>
     obs_LastSeenAt r < olq_CursorLastSeenAt q \<or> obs_LastSeenAt r = olq_CursorLastSeenAt q \<and> olq_CursorAgentID q < obs_AgentID r \<or>
     obs_LastSeenAt r = olq_CursorLastSeenAt q \<and> obs_AgentID r = olq_CursorAgentID q \<and> olq_CursorStoreLocation q < obs_StoreLocation r)"

definition obs_order :: "CertificateObservation \<Rightarrow> int \<times> string \<times> string" where
  "obs_order r = (- obs_LastSeenAt r, obs_AgentID r, obs_StoreLocation r)"

definition ListObservationsPage :: "env \<Rightarrow> ObservationListQuery \<Rightarrow> ('z inv_db_scheme, ObservationListItem list) prog" where
  "ListObservationsPage env q =
     db_query env (\<lambda>s. map (observation_item s) (take (nat (olq_Limit q)) (sort_key obs_order
       (filter (\<lambda>r. obs_OrganizationID r = olq_OrganizationID q \<and> obs_CertificateID r = olq_CertificateID q \<and>
          (olq_CurrentOnly q \<longrightarrow> obs_RemovedAt r = None) \<and> beyond_obs q r) (t_inv_observations s)))))"

section \<open>The service\<close>

definition certificates_answer :: "CertificateListQuery \<Rightarrow> CertificateSummary list \<Rightarrow> ListCertificatesOutput" where
  "certificates_answer q rows =
     (let limit = nat (clq_Limit q - 1) in
      if length rows > limit then
        let lst = rows ! (limit - 1) in
        \<lparr>lco_Items = take limit rows, lco_NextCursor = encodeCertCursor (cs_LastSeenAt lst) (cs_ID lst)\<rparr>
      else \<lparr>lco_Items = rows, lco_NextCursor = []\<rparr>)"

definition ListCertificates :: "env \<Rightarrow> (string list \<Rightarrow> string) \<Rightarrow> ListCertificatesInput \<Rightarrow> ('z inv_db_scheme, ListCertificatesOutput) prog" where
  "ListCertificates env sansText inp =
     bindE (liftE (certificates_query inp)) (\<lambda>q.
     bindE (repo_ListCertificates env sansText q) (\<lambda>rows.
     retE (certificates_answer q rows)))"

definition GetCertificateDetail :: "env \<Rightarrow> string \<Rightarrow> string \<Rightarrow> ('z inv_db_scheme, CertificateDetail) prog" where
  "GetCertificateDetail env org certID =
     bindE (guardE (TrimSpace org \<noteq> []) ErrInvalidListInput) (\<lambda>_.
     bindE (guardE (TrimSpace certID \<noteq> []) ErrInvalidListInput) (\<lambda>_.
     bindE (GetCertificate env org certID) (\<lambda>cert.
     bindE (CountObservations env org certID) (\<lambda>(total, active).
     retE \<lparr>cd_Certificate = cert, cd_ObservationCount = total, cd_ActiveObservationCount = active\<rparr>))))"

definition ListCertificateObservations :: "env \<Rightarrow> ListObservationsInput \<Rightarrow> ('z inv_db_scheme, ListObservationsOutput) prog" where
  "ListCertificateObservations env inp =
     bindE (liftE (observations_query inp)) (\<lambda>q.
     bindE (GetCertificate env (olq_OrganizationID q) (olq_CertificateID q)) (\<lambda>_.
     bindE (ListObservationsPage env q) (\<lambda>rows.
     let limit = nat (olq_Limit q - 1) in
     if length rows > limit then
       let lst = rows ! (limit - 1) in
       retE \<lparr>loo_Items = take limit rows, loo_NextCursor = encodeObsCursor (oli_LastSeenAt lst) (oli_AgentID lst) (oli_StoreLocation lst)\<rparr>
     else retE \<lparr>loo_Items = rows, loo_NextCursor = []\<rparr>)))"

definition ListAgentCertificates :: "env \<Rightarrow> (string list \<Rightarrow> string) \<Rightarrow> ListCertificatesInput \<Rightarrow> ('z inv_db_scheme, ListCertificatesOutput) prog" where
  "ListAgentCertificates env sansText inp =
     bindE (guardE (TrimSpace (lci_AgentID inp) \<noteq> []) ErrInvalidListInput) (\<lambda>_.
     bindE (liftE (certificates_query inp)) (\<lambda>q.
     bindE (AgentExistsInOrg env (clq_OrganizationID q) (clq_AgentID q)) (\<lambda>exists.
     bindE (guardE exists ErrAgentNotFound) (\<lambda>_.
     bindE (repo_ListCertificates env sansText q) (\<lambda>rows.
     retE (certificates_answer q rows))))))"

end
