(* ===== verification/CertParse.thy ===== *)
theory CertParse imports Ingestion begin

text \<open>
  What is read from a certificate (inventory/parse.go): the private-key scan as a search for a marker in any letter case, and the key usages as
  the bits of the X.509 field.
\<close>

section \<open>The private-key scan\<close>

lemma HasPrefix_iff: "HasPrefix s p \<longleftrightarrow> (\<exists>r. s = p @ r)"
  by (induction s p rule: HasPrefix.induct) auto

lemma Contains_iff: "Contains s p \<longleftrightarrow> (\<exists>a r. s = a @ p @ r)"
proof (induction s)
  case Nil
  then show ?case by (simp add: HasPrefix_iff)
next
  case (Cons x s)
  have "(\<exists>a r. x # s = a @ p @ r) \<longleftrightarrow> (\<exists>r. x # s = p @ r) \<or> (\<exists>a r. s = a @ p @ r)"
    by (metis append_Cons append_Nil list.inject neq_Nil_conv)
  then show ?case using Cons by (simp add: HasPrefix_iff)
qed

lemma map_piece: "(\<exists>a r. map f s = a @ k @ r) \<longleftrightarrow> (\<exists>a m r. s = a @ m @ r \<and> map f m = k)" (is "?L \<longleftrightarrow> ?R")
proof
  assume ?L
  then obtain a r where "map f s = a @ (k @ r)" by (elim exE)
  then obtain b t where s: "s = b @ t" "k @ r = map f t" unfolding map_eq_append_conv by (elim exE conjE)
  from s(2) obtain m v where "t = m @ v" "k = map f m" unfolding append_eq_map_conv by (elim exE conjE)
  then show ?R using s(1) by (intro exI [of _ b] exI [of _ m] exI [of _ v] conjI) (simp_all only:)
next
  assume ?R
  then obtain a m r where "s = a @ m @ r" "map f m = k" by (elim exE conjE)
  then show ?L by (intro exI [of _ "map f a"] exI [of _ "map f r"]) (simp only: map_append)
qed

text \<open>
  C36: The scan finds a marker wherever it stands and however it is written: a text is flagged exactly when some piece of it
  equals one of the six markers up to the case of its letters.
\<close>

theorem private_key_scan:
  "containsPrivateKeyMarker s \<longleftrightarrow> (\<exists>a m r. s = a @ m @ r \<and> (\<exists>marker \<in> set privateKeyPEMMarkers. EqualFold m marker))"
proof -
  have upper: "ToUpper m = m" if "m \<in> set privateKeyPEMMarkers" for m
    using that by (auto simp: privateKeyPEMMarkers_def ToUpper_def fold_upper_def)
  have "(\<exists>marker \<in> set privateKeyPEMMarkers. \<exists>a m r. s = a @ m @ r \<and> ToUpper m = marker) \<longleftrightarrow>
      (\<exists>marker \<in> set privateKeyPEMMarkers. \<exists>a m r. s = a @ m @ r \<and> ToUpper m = ToUpper marker)"
    using upper by metis
  then show ?thesis unfolding containsPrivateKeyMarker_def Let_def list_ex_iff Contains_iff ToUpper_def map_piece EqualFold_def by blast
qed

section \<open>Key usages\<close>

definition usage_names :: "string list" where
  "usage_names = [''DigitalSignature'', ''ContentCommitment'', ''KeyEncipherment'', ''DataEncipherment'', ''KeyAgreement'', ''CertSign'', ''CRLSign'',
     ''EncipherOnly'', ''DecipherOnly'']"

text \<open>
  The key usages are the bits of the field: the list names exactly the bits 0 to 8 that are set, in the order of RFC 5280; all other bits are ignored.
\<close>

theorem key_usage_bits: "keyUsageStrings u = map (\<lambda>n. usage_names ! n) (filter (bit u) [0..<9])"
proof -
  have t: "key_usage_table = map (\<lambda>n. (2 ^ n, usage_names ! n)) [0..<9]"
    by (simp add: key_usage_table_def usage_names_def upt_rec numeral_eq_Suc)
  show ?thesis unfolding keyUsageStrings_def t filter_map o_def map_map fst_conv snd_conv and_exp_eq_0_iff_not_bit not_not ..
qed

end
