(* ===== verification/InventoryListOps.thy ===== *)
theory InventoryListOps imports InventoryList CertParse begin

text \<open>
  What an operator's reads of the inventory return: the search is a plain search, the pages of the two lists are the whole selection, each row
  once, and the detail of a certificate agrees with its row in the list.
\<close>

section \<open>The search\<close>

lemma escape_concat: "escapeLikePattern s = concat (map (\<lambda>c. if c \<in> {CHR 0x5C, CHR ''%'', CHR ''_''} then [CHR 0x5C, c] else [c]) s)"
proof (cases "list_ex (\<lambda>c. c \<in> {CHR ''%'', CHR ''_'', CHR 0x5C}) s")
  case False
  then have "list_all (\<lambda>c. c \<notin> {CHR 0x5C, CHR ''%'', CHR ''_''}) s" by (auto simp: list_ex_iff list_all_iff)
  then have "concat (map (\<lambda>c. if c \<in> {CHR 0x5C, CHR ''%'', CHR ''_''} then [CHR 0x5C, c] else [c]) s) = s" by (induction s) simp_all
  with False show ?thesis by (simp add: escapeLikePattern_def)
qed (simp add: escapeLikePattern_def)

lemma ilike_any: "ilike (CHR ''%'' # p) s \<longleftrightarrow> (\<exists>a r. s = a @ r \<and> ilike p r)"
proof (induction s)
  case (Cons x s)
  have "(\<exists>a r. x # s = a @ r \<and> ilike p r) \<longleftrightarrow> ilike p (x # s) \<or> (\<exists>a r. s = a @ r \<and> ilike p r)"
    by (metis append_Cons append_Nil list.inject neq_Nil_conv)
  then show ?case using Cons by simp
qed simp

lemma ilike_letter:
  "ilike ((if c \<in> {CHR 0x5C, CHR ''%'', CHR ''_''} then [CHR 0x5C, c] else [c]) @ p) s \<longleftrightarrow> (\<exists>x t. s = x # t \<and> fold_lower x = fold_lower c \<and> ilike p t)"
  by (cases s) auto

lemma ilike_literal:
  "ilike (concat (map (\<lambda>c. if c \<in> {CHR 0x5C, CHR ''%'', CHR ''_''} then [CHR 0x5C, c] else [c]) q) @ p) s \<longleftrightarrow>
     (\<exists>m r. s = m @ r \<and> map fold_lower m = map fold_lower q \<and> ilike p r)"
proof (induction q arbitrary: s)
  case (Cons c q)
  show ?case unfolding list.map concat.simps append_assoc ilike_letter Cons.IH by (auto simp: Cons_eq_map_conv map_eq_Cons_conv) (metis append_Cons, blast)
qed simp

lemma search_plain: "ilike (''%'' @ escapeLikePattern q @ ''%'') text \<longleftrightarrow> Contains (ToLower text) (ToLower q)"
proof -
  have "ilike (''%'' @ escapeLikePattern q @ ''%'') text \<longleftrightarrow> (\<exists>a r. text = a @ r \<and> (\<exists>m t. r = m @ t \<and> map fold_lower m = map fold_lower q \<and> ilike ''%'' t))"
    unfolding escape_concat append_Cons append_Nil ilike_any ilike_literal ..
  also have "\<dots> \<longleftrightarrow> (\<exists>a m t. text = a @ m @ t \<and> map fold_lower m = map fold_lower q)"
    using ilike_any [of "[]"] by auto
  finally show ?thesis unfolding Contains_iff ToLower_def map_piece .
qed

text \<open>
  C39: The search takes the operator's text literally. Whatever characters it holds, percent signs, underscores and backslashes included, the pattern
  the list sends to the database matches exactly the texts that contain it, up to the case of ASCII letters.
\<close>

theorem search_literal: "ilike (''%'' @ escapeLikePattern q @ ''%'') text \<longleftrightarrow> Contains (ToLower text) (ToLower q)"
  by (rule search_plain)

section \<open>The certificate list\<close>

text \<open>What the operator asked for, over the input as it came.\<close>

definition selects :: "(string list \<Rightarrow> string) \<Rightarrow> ListCertificatesInput \<Rightarrow> 'z inv_db_scheme \<Rightarrow> Certificate \<Rightarrow> bool" where
  "selects sansText inp s c \<longleftrightarrow>
     crt_OrganizationID c = TrimSpace (lci_OrganizationID inp) \<and>
     (TrimSpace (lci_Search inp) = [] \<or>
        list_ex (\<lambda>t. Contains (ToLower t) (ToLower (TrimSpace (lci_Search inp)))) [crt_Subject c, crt_Issuer c, crt_FingerprintSHA256 c, sansText (crt_SANs c)]) \<and>
     (lci_ExpiringBefore inp = None \<or> crt_NotAfter c < the (lci_ExpiringBefore inp)) \<and>
     (lci_IsCA inp = None \<or> crt_IsCA c = the (lci_IsCA inp)) \<and>
     (TrimSpace (lci_AgentID inp) = [] \<and> \<not> lci_CurrentOnly inp \<or>
        list_ex (\<lambda>r. (TrimSpace (lci_AgentID inp) = [] \<or> obs_AgentID r = TrimSpace (lci_AgentID inp)) \<and> (\<not> lci_CurrentOnly inp \<or> obs_RemovedAt r = None))
          (obs_of s (crt_OrganizationID c) (crt_ID c)))"

definition cert_input :: "ListCertificatesInput \<Rightarrow> bool" where
  "cert_input inp \<longleftrightarrow> TrimSpace (lci_OrganizationID inp) \<noteq> [] \<and> 0 \<le> lci_Limit inp \<and> lci_Limit inp \<le> 200"

definition cert_page_size :: "ListCertificatesInput \<Rightarrow> nat" where
  "cert_page_size inp = nat (if lci_Limit inp = 0 then 50 else lci_Limit inp)"

definition cert_query :: "ListCertificatesInput \<Rightarrow> Time \<Rightarrow> string \<Rightarrow> CertificateListQuery" where
  "cert_query inp t i = \<lparr>clq_OrganizationID = TrimSpace (lci_OrganizationID inp), clq_Search = TrimSpace (lci_Search inp), clq_ExpiringBefore = lci_ExpiringBefore inp,
     clq_IsCA = lci_IsCA inp, clq_AgentID = TrimSpace (lci_AgentID inp), clq_CurrentOnly = lci_CurrentOnly inp, clq_Limit = int (cert_page_size inp) + 1,
     clq_CursorLastSeenAt = t, clq_CursorID = i\<rparr>"

lemma certificates_query_eq:
  "cert_input inp \<Longrightarrow> decodeCertCursor c = Inr (t, i) \<Longrightarrow> certificates_query (inp\<lparr>lci_Cursor := c\<rparr>) = Inr (cert_query inp t i)"
  by (simp add: certificates_query_def cert_query_def cert_input_def cert_page_size_def inv_normalizeLimit_def inv_DefaultListLimit_def inv_MaxListLimit_def)

lemma condition_selects: "cert_condition sansText (cert_query inp t i) s c \<longleftrightarrow> selects sansText inp s c"
  unfolding cert_condition_def selects_def cert_query_def search_condition_def Let_def search_plain
  by (cases "lci_ExpiringBefore inp"; cases "lci_IsCA inp"; simp add: list_ex_iff) auto

definition certs_listable :: "'z inv_db_scheme \<Rightarrow> bool" where
  "certs_listable s \<longleftrightarrow> list_all (\<lambda>c. printable_time (crt_LastSeenAt c) \<and> crt_LastSeenAt c \<noteq> zeroTime \<and> crt_ID c \<noteq> []) (t_inv_certificates s)"

definition cert_list_page :: "env \<Rightarrow> (string list \<Rightarrow> string) \<Rightarrow> ListCertificatesInput \<Rightarrow> string \<Rightarrow> ('z inv_db_scheme, CertificateSummary list \<times> string) prog" where
  "cert_list_page env sansText inp c = bindE (ListCertificates env sansText (inp\<lparr>lci_Cursor := c\<rparr>)) (\<lambda>r. retE (lco_Items r, lco_NextCursor r))"

definition cert_rows :: "(string list \<Rightarrow> string) \<Rightarrow> ListCertificatesInput \<Rightarrow> 'z inv_db_scheme \<Rightarrow> CertificateSummary list" where
  "cert_rows sansText inp s = map (certificate_summary s) (sort_key cert_order (filter (selects sansText inp s) (t_inv_certificates s)))"

definition cs_order :: "CertificateSummary \<Rightarrow> int \<times> string" where
  "cs_order x = (- cs_LastSeenAt x, cs_ID x)"

lemma summary_simps [simp]: "cs_LastSeenAt (certificate_summary s c) = crt_LastSeenAt c" "cs_ID (certificate_summary s c) = crt_ID c"
  "cs_order (certificate_summary s c) = cert_order c"
  by (simp_all add: certificate_summary_def cs_order_def cert_order_def Let_def)

lemma obs_of_stepped [simp]: "obs_of (stepped s) = obs_of s"
  by (simp add: obs_of_def fun_eq_iff)

lemma summary_stepped [simp]: "certificate_summary (stepped s) = certificate_summary s" "selects sansText inp (stepped s) = selects sansText inp s"
  "cert_condition sansText q (stepped s) = cert_condition sansText q s"
  by (simp_all add: certificate_summary_def selects_def cert_condition_def fun_eq_iff)

lemma cert_cursor_back:
  assumes "printable_time t" and "i \<noteq> []"
  shows "decodeCertCursor (encodeCertCursor t i) = Inr (t, i)" and "encodeCertCursor t i \<noteq> []"
proof -
  note ne = encoded_nonempty [of "FormatRFC3339Nano t @ CHR ''|'' # i"]
  then show "encodeCertCursor t i \<noteq> []" by (simp add: encodeCertCursor_def inv_listCursorSeparator_def)
  have "SplitN 2 (CHR ''|'') (FormatRFC3339Nano t @ CHR ''|'' # i) = [FormatRFC3339Nano t, i]"
    using SplitN_cut [OF bar_time [OF assms(1)], of 0 i] by (simp add: numeral_2_eq_2)
  then show "decodeCertCursor (encodeCertCursor t i) = Inr (t, i)"
    using ne assms Parse_Format [OF assms(1)] printed_nonempty [of t] RawURL_roundtrip [of "FormatRFC3339Nano t @ CHR ''|'' # i"]
    by (simp add: decodeCertCursor_def encodeCertCursor_def inv_listCursorSeparator_def Let_def)
qed

lemma cert_order_sorted: "inv_ok s \<Longrightarrow> sorted_wrt (\<lambda>a b. cert_order a < cert_order b) (sort_key cert_order (filter P (t_inv_certificates s)))"
proof -
  assume "inv_ok s"
  then have "distinct (map crt_ID (filter P (t_inv_certificates s)))" by (simp add: inv_ok_def distinct_map_filter)
  then have "distinct (map cert_order (filter P (t_inv_certificates s)))" by (auto simp: distinct_map inj_on_def cert_order_def)
  then show ?thesis by (rule sorted_strict)
qed

lemma repo_ListCertificates_run:
  assumes "no_faults env" and "\<And>c. c \<in> set (t_inv_certificates s) \<Longrightarrow> beyond_cert (cert_query inp t i) c \<longleftrightarrow> P (cert_order c)"
  shows "repo_ListCertificates env sansText (cert_query inp t i) s =
    (Inr (take (Suc (cert_page_size inp)) (filter (\<lambda>x. P (cs_order x)) (cert_rows sansText inp s))), stepped s)"
proof -
  have f: "filter (\<lambda>c. cert_condition sansText (cert_query inp t i) s c \<and> beyond_cert (cert_query inp t i) c) (t_inv_certificates s) =
      filter (\<lambda>c. P (cert_order c)) (filter (selects sansText inp s) (t_inv_certificates s))"
    unfolding filter_filter condition_selects using assms(2) by (intro filter_cong refl) auto
  have g: "filter (\<lambda>x. P (cs_order x)) (cert_rows sansText inp s) =
      map (certificate_summary s) (filter (\<lambda>c. P (cert_order c)) (sort_key cert_order (filter (selects sansText inp s) (t_inv_certificates s))))"
    by (simp add: cert_rows_def filter_map comp_def)
  have lim: "nat (clq_Limit (cert_query inp t i)) = Suc (cert_page_size inp)" by (simp add: cert_query_def)
  show ?thesis unfolding repo_ListCertificates_def db_query_ok [OF assms(1)] inv_fields summary_stepped f g lim filter_sort_key take_map ..
qed

lemma certificates_answer_eq:
  "(lco_Items (certificates_answer (cert_query inp t i) rows), lco_NextCursor (certificates_answer (cert_query inp t i) rows)) =
     cut_page (cert_page_size inp) (\<lambda>x. encodeCertCursor (cs_LastSeenAt x) (cs_ID x)) rows"
  by (simp add: certificates_answer_def cut_page_def cert_query_def Let_def)

lemma cert_list_page_eq:
  assumes "no_faults env" and "cert_input inp" and "decodeCertCursor c = Inr (t, i)"
    and "\<And>c. c \<in> set (t_inv_certificates s) \<Longrightarrow> beyond_cert (cert_query inp t i) c \<longleftrightarrow> P (cert_order c)"
  shows "cert_list_page env sansText inp c s = (Inr (cut_page (cert_page_size inp) (\<lambda>x. encodeCertCursor (cs_LastSeenAt x) (cs_ID x))
    (take (Suc (cert_page_size inp)) (filter (\<lambda>x. P (cs_order x)) (cert_rows sansText inp s)))), stepped s)"
proof -
  have run: "repo_ListCertificates env sansText (cert_query inp t i) s =
      (Inr (take (Suc (cert_page_size inp)) (filter (\<lambda>x. P (cs_order x)) (cert_rows sansText inp s))), stepped s)"
    by (rule repo_ListCertificates_run [OF assms(1,4)])
  show ?thesis
    unfolding cert_list_page_def ListCertificates_def certificates_query_eq [OF assms(2,3)] bindE_assoc bindE_lift(1)
      bindE_step_Inr [where m = "repo_ListCertificates env sansText (cert_query inp t i)" and s = s, OF run] bindE_retE certificates_answer_eq
    by (simp add: retE_def)
qed

interpretation cl: listing "cert_list_page env sansText inp" "cert_rows sansText inp" cs_order "\<lambda>x. encodeCertCursor (cs_LastSeenAt x) (cs_ID x)"
  "\<lambda>s. no_faults env \<and> cert_input inp \<and> inv_ok s \<and> certs_listable s" stepped "cert_page_size inp" for env sansText inp
proof (unfold_locales, goal_cases)
  case (1 s)
  then show ?case by (auto simp: cert_input_def cert_page_size_def)
next
  case (2 s)
  then show ?case by (simp add: cert_rows_def sorted_wrt_map cert_order_sorted)
next
  case (3 s r)
  then show ?case using cert_cursor_back(2) by (auto simp: cert_rows_def certs_listable_def list_all_iff)
next
  case (4 s)
  then show ?case using cert_list_page_eq [of env inp "[]" zeroTime "[]" s "\<lambda>_. True" sansText] by (simp add: decodeCertCursor_def beyond_cert_def cert_query_def)
next
  case (5 s r)
  then obtain x where x: "r = certificate_summary s x" "x \<in> set (t_inv_certificates s)" by (auto simp: cert_rows_def)
  with 5 have l: "printable_time (crt_LastSeenAt x)" "crt_LastSeenAt x \<noteq> zeroTime" "crt_ID x \<noteq> []" by (auto simp: certs_listable_def list_all_iff)
  show ?case unfolding x(1) summary_simps
    using 5 l(2) by (intro cert_list_page_eq [OF _ _ cert_cursor_back(1) [OF l(1,3)]]) (auto simp: beyond_cert_def cert_query_def cert_order_def)
next
  case (6 s)
  then show ?case by (simp add: certs_listable_def cert_rows_def)
qed

text \<open>
  C38: The certificate list neither skips nor repeats. On tables that do not change meanwhile, a client that follows the cursors from the first page, with
  any combination of filters and any allowed page size, gets exactly the certificates of its organization that the filters select, each once with the
  counts of its observations, last seen first and by identifier within an instant, and then stops.
\<close>

theorem certificates_cover:
  assumes "no_faults env" and "cert_input inp" and "inv_ok s" and "certs_listable s" and "length (t_inv_certificates s) < n"
  shows "\<exists>s'. follow n (cert_list_page env sansText inp) [] s =
    (Inr (map (certificate_summary s) (sort_key cert_order (filter (selects sansText inp s) (t_inv_certificates s)))), s')"
proof -
  have "length (cert_rows sansText inp s) < n" using assms(5) by (simp add: cert_rows_def le_less_trans [OF length_filter_le])
  from cl.follow_all [OF conjI [OF assms(1) conjI [OF assms(2) conjI [OF assms(3,4)]]] this] show ?thesis unfolding cert_rows_def .
qed

section \<open>One certificate, one agent\<close>

lemma GetCertificate_run:
  assumes "no_faults env"
  shows "GetCertificate env org i s = (case find (\<lambda>c. crt_ID c = i \<and> crt_OrganizationID c = org) (t_inv_certificates s) of
    None \<Rightarrow> Inl ErrCertificateNotFound | Some c \<Rightarrow> Inr c, stepped s)"
  unfolding GetCertificate_def bindE_step_Inr [OF db_query_ok [OF assms]] inv_fields by (auto simp: throwE_def retE_def split: option.splits)

text \<open>
  The detail of a certificate agrees with the list. For every certificate of the organization it returns the stored row with the two counts
  that its row in the list carries, the active ones among all; an identifier that the organization does not have, one of another organization
  included, is not found, and no table changes.
\<close>

theorem detail_agrees:
  assumes "no_faults env" and "inv_ok s" and "TrimSpace org \<noteq> []" and "TrimSpace i \<noteq> []"
  shows "\<exists>s'. tables_of s' = tables_of s \<and>
    (if \<exists>c \<in> set (t_inv_certificates s). crt_ID c = i \<and> crt_OrganizationID c = org
     then \<exists>d c. GetCertificateDetail env org i s = (Inr d, s') \<and> c \<in> set (t_inv_certificates s) \<and> crt_ID c = i \<and> crt_OrganizationID c = org \<and>
       cd_Certificate d = c \<and> cd_ObservationCount d = cs_ObservationCount (certificate_summary s c) \<and>
       cd_ActiveObservationCount d = cs_ActiveObservationCount (certificate_summary s c) \<and> cd_ActiveObservationCount d \<le> cd_ObservationCount d
     else GetCertificateDetail env org i s = (Inl ErrCertificateNotFound, s'))"
proof (cases "find (\<lambda>c. crt_ID c = i \<and> crt_OrganizationID c = org) (t_inv_certificates s)")
  case None
  then have no: "\<not> (\<exists>c \<in> set (t_inv_certificates s). crt_ID c = i \<and> crt_OrganizationID c = org)" by (simp add: find_None_set)
  have "GetCertificate env org i s = (Inl ErrCertificateNotFound, stepped s)" unfolding GetCertificate_run [OF assms(1)] None by simp
  then have "GetCertificateDetail env org i s = (Inl ErrCertificateNotFound, stepped s)"
    unfolding GetCertificateDetail_def bindE_guard using assms(3,4) by (simp add: bindE_step_Inl)
  then show ?thesis unfolding if_not_P [OF no] by (intro exI [of _ "stepped s"] conjI) simp_all
next
  case (Some c)
  then have c: "c \<in> set (t_inv_certificates s)" "crt_ID c = i" "crt_OrganizationID c = org" using find_Some_D [OF Some] by simp_all
  then have yes: "\<exists>c \<in> set (t_inv_certificates s). crt_ID c = i \<and> crt_OrganizationID c = org" by blast
  let ?d = "\<lparr>cd_Certificate = c, cd_ObservationCount = int (length (obs_of s org i)), cd_ActiveObservationCount = int (length (filter (\<lambda>r. obs_RemovedAt r = None) (obs_of s org i)))\<rparr>"
  have g: "GetCertificate env org i s = (Inr c, stepped s)" unfolding GetCertificate_run [OF assms(1)] Some by simp
  have "GetCertificateDetail env org i s = (Inr ?d, stepped (stepped s))"
    unfolding GetCertificateDetail_def bindE_guard CountObservations_def using assms(3,4)
    by (simp add: bindE_step_Inr [where m = "GetCertificate env org i", OF g] bindE_step_Inr [OF db_query_ok [OF assms(1)]] retE_def)
  then show ?thesis unfolding if_P [OF yes]
    by (intro exI [of _ "stepped (stepped s)"] exI [of _ ?d] exI [of _ c] conjI) (simp_all add: c certificate_summary_def Let_def)
qed

text \<open>
  C40: The list of one agent tells nothing about an agent the organization does not have. It checks the input as the general list does, answers that the agent is not
  found for every identifier that is not an agent of the operator's own organization, and otherwise is the general list filtered by that agent.
\<close>

theorem agent_list_guarded:
  assumes "no_faults env"
  shows "fst (ListAgentCertificates env sansText inp s) =
    (if TrimSpace (lci_AgentID inp) = [] \<or> isl (certificates_query inp) then Inl ErrInvalidListInput
     else if \<not> list_ex (is_agent (TrimSpace (lci_AgentID inp)) (TrimSpace (lci_OrganizationID inp))) (t_agents s) then Inl ErrAgentNotFound
     else fst (ListCertificates env sansText inp s))"
proof (cases "certificates_query inp")
  case (Inl e)
  then have "e = ErrInvalidListInput"
    by (auto simp: certificates_query_def inv_normalizeLimit_def decodeCertCursor_def Let_def split: if_splits sum.splits option.splits)
  then show ?thesis unfolding ListAgentCertificates_def bindE_guard Inl bindE_lift by (simp add: throwE_def)
next
  case (Inr q)
  then have q: "clq_AgentID q = TrimSpace (lci_AgentID inp)" "clq_OrganizationID q = TrimSpace (lci_OrganizationID inp)"
    by (auto simp: certificates_query_def split: if_splits sum.splits prod.splits)
  have ex: "AgentExistsInOrg env (clq_OrganizationID q) (clq_AgentID q) s =
      (Inr (list_ex (is_agent (TrimSpace (lci_AgentID inp)) (TrimSpace (lci_OrganizationID inp))) (t_agents s)), stepped s)"
    unfolding AgentExistsInOrg_def db_query_ok [OF assms] q by (simp add: list_ex_iff stepped_def)
  have rest: "fst (bindE (repo_ListCertificates env sansText q) (\<lambda>rows. retE (certificates_answer q rows)) (stepped s)) =
      fst (bindE (repo_ListCertificates env sansText q) (\<lambda>rows. retE (certificates_answer q rows)) s)"
    unfolding repo_ListCertificates_def bindE_step_Inr [OF db_query_ok [OF assms]] by (simp add: retE_def)
  show ?thesis
    unfolding ListAgentCertificates_def ListCertificates_def Inr bindE_lift(1) bindE_guard
      bindE_step_Inr [where m = "AgentExistsInOrg env (clq_OrganizationID q) (clq_AgentID q)" and s = s, OF ex]
    using rest by simp
qed

section \<open>The observations of a certificate\<close>

definition obs_input :: "ListObservationsInput \<Rightarrow> bool" where
  "obs_input inp \<longleftrightarrow> TrimSpace (loi_OrganizationID inp) \<noteq> [] \<and> TrimSpace (loi_CertificateID inp) \<noteq> [] \<and> 0 \<le> loi_Limit inp \<and> loi_Limit inp \<le> 200"

definition obs_page_size :: "ListObservationsInput \<Rightarrow> nat" where
  "obs_page_size inp = nat (if loi_Limit inp = 0 then 50 else loi_Limit inp)"

definition obs_query :: "ListObservationsInput \<Rightarrow> Time \<Rightarrow> string \<Rightarrow> string \<Rightarrow> ObservationListQuery" where
  "obs_query inp t a st = \<lparr>olq_OrganizationID = TrimSpace (loi_OrganizationID inp), olq_CertificateID = TrimSpace (loi_CertificateID inp),
     olq_CurrentOnly = loi_CurrentOnly inp, olq_Limit = int (obs_page_size inp) + 1, olq_CursorLastSeenAt = t, olq_CursorAgentID = a, olq_CursorStoreLocation = st\<rparr>"

lemma observations_query_eq:
  "obs_input inp \<Longrightarrow> decodeObsCursor c = Inr (t, a, st) \<Longrightarrow> observations_query (inp\<lparr>loi_Cursor := c\<rparr>) = Inr (obs_query inp t a st)"
  by (simp add: observations_query_def obs_query_def obs_input_def obs_page_size_def inv_normalizeLimit_def inv_DefaultListLimit_def inv_MaxListLimit_def)

definition obs_selects :: "ListObservationsInput \<Rightarrow> CertificateObservation \<Rightarrow> bool" where
  "obs_selects inp r \<longleftrightarrow> obs_OrganizationID r = TrimSpace (loi_OrganizationID inp) \<and> obs_CertificateID r = TrimSpace (loi_CertificateID inp) \<and>
     (\<not> loi_CurrentOnly inp \<or> obs_RemovedAt r = None)"

text \<open>Rows a cursor can point at: an agent's identifier has no bar in it, a store may.\<close>

definition obs_listable :: "'z inv_db_scheme \<Rightarrow> bool" where
  "obs_listable s \<longleftrightarrow> list_all (\<lambda>r. printable_time (obs_LastSeenAt r) \<and> obs_LastSeenAt r \<noteq> zeroTime \<and> obs_AgentID r \<noteq> [] \<and> CHR ''|'' \<notin> set (obs_AgentID r) \<and>
     obs_StoreLocation r \<noteq> []) (t_inv_observations s)"

definition has_cert :: "ListObservationsInput \<Rightarrow> 'z inv_db_scheme \<Rightarrow> bool" where
  "has_cert inp s \<longleftrightarrow> list_ex (\<lambda>c. crt_ID c = TrimSpace (loi_CertificateID inp) \<and> crt_OrganizationID c = TrimSpace (loi_OrganizationID inp)) (t_inv_certificates s)"

definition obs_list_page :: "env \<Rightarrow> ListObservationsInput \<Rightarrow> string \<Rightarrow> ('z inv_db_scheme, ObservationListItem list \<times> string) prog" where
  "obs_list_page env inp c = bindE (ListCertificateObservations env (inp\<lparr>loi_Cursor := c\<rparr>)) (\<lambda>r. retE (loo_Items r, loo_NextCursor r))"

definition obs_rows :: "ListObservationsInput \<Rightarrow> 'z inv_db_scheme \<Rightarrow> ObservationListItem list" where
  "obs_rows inp s = map (observation_item s) (sort_key obs_order (filter (obs_selects inp) (t_inv_observations s)))"

definition oli_order :: "ObservationListItem \<Rightarrow> int \<times> string \<times> string" where
  "oli_order x = (- oli_LastSeenAt x, oli_AgentID x, oli_StoreLocation x)"

lemma item_simps [simp]: "oli_LastSeenAt (observation_item s r) = obs_LastSeenAt r" "oli_AgentID (observation_item s r) = obs_AgentID r"
  "oli_StoreLocation (observation_item s r) = obs_StoreLocation r" "oli_order (observation_item s r) = obs_order r"
  by (simp_all add: observation_item_def oli_order_def obs_order_def)

lemma item_stepped [simp]: "observation_item (stepped s) = observation_item s"
  by (simp add: observation_item_def fun_eq_iff)

lemma obs_cursor_back:
  assumes "printable_time t" and "a \<noteq> []" and "CHR ''|'' \<notin> set a" and "st \<noteq> []"
  shows "decodeObsCursor (encodeObsCursor t a st) = Inr (t, a, st)" and "encodeObsCursor t a st \<noteq> []"
proof -
  let ?raw = "FormatRFC3339Nano t @ CHR ''|'' # a @ CHR ''|'' # st"
  note ne = encoded_nonempty [of ?raw]
  then show "encodeObsCursor t a st \<noteq> []" by (simp add: encodeObsCursor_def inv_listCursorSeparator_def)
  have "SplitN 3 (CHR ''|'') ?raw = [FormatRFC3339Nano t, a, st]"
    using SplitN_cut [OF bar_time [OF assms(1)], of 1 "a @ CHR ''|'' # st"] SplitN_cut [OF assms(3), of 0 st] by (simp add: numeral_3_eq_3)
  then show "decodeObsCursor (encodeObsCursor t a st) = Inr (t, a, st)"
    using ne assms Parse_Format [OF assms(1)] printed_nonempty [of t] RawURL_roundtrip [of ?raw]
    by (simp add: decodeObsCursor_def encodeObsCursor_def inv_listCursorSeparator_def Let_def)
qed

lemma obs_order_sorted: "inv_ok s \<Longrightarrow> sorted_wrt (\<lambda>a b. obs_order a < obs_order b) (sort_key obs_order (filter (obs_selects inp) (t_inv_observations s)))"
proof -
  assume "inv_ok s"
  then have "distinct (map obs_key (filter (obs_selects inp) (t_inv_observations s)))" by (simp add: inv_ok_def distinct_map_filter)
  then have "distinct (map obs_order (filter (obs_selects inp) (t_inv_observations s)))"
    by (auto simp: distinct_map inj_on_def obs_order_def obs_key_def obs_selects_def)
  then show ?thesis by (rule sorted_strict)
qed

lemma ListObservationsPage_run:
  assumes "no_faults env" and "\<And>r. r \<in> set (t_inv_observations s) \<Longrightarrow> beyond_obs (obs_query inp t a st) r \<longleftrightarrow> P (obs_order r)"
  shows "ListObservationsPage env (obs_query inp t a st) s = (Inr (take (Suc (obs_page_size inp)) (filter (\<lambda>x. P (oli_order x)) (obs_rows inp s))), stepped s)"
proof -
  let ?q = "obs_query inp t a st"
  have f: "filter (\<lambda>r. obs_OrganizationID r = olq_OrganizationID ?q \<and> obs_CertificateID r = olq_CertificateID ?q \<and>
      (olq_CurrentOnly ?q \<longrightarrow> obs_RemovedAt r = None) \<and> beyond_obs ?q r) (t_inv_observations s) =
      filter (\<lambda>r. P (obs_order r)) (filter (obs_selects inp) (t_inv_observations s))"
    unfolding filter_filter using assms(2) by (intro filter_cong refl) (auto simp: obs_selects_def obs_query_def)
  have g: "filter (\<lambda>x. P (oli_order x)) (obs_rows inp s) =
      map (observation_item s) (filter (\<lambda>r. P (obs_order r)) (sort_key obs_order (filter (obs_selects inp) (t_inv_observations s))))"
    by (simp add: obs_rows_def filter_map comp_def)
  have lim: "nat (olq_Limit ?q) = Suc (obs_page_size inp)" by (simp add: obs_query_def)
  show ?thesis unfolding ListObservationsPage_def db_query_ok [OF assms(1)] inv_fields item_stepped f g lim filter_sort_key take_map ..
qed

lemma obs_list_page_eq:
  assumes "no_faults env" and "obs_input inp" and "has_cert inp s" and "decodeObsCursor c = Inr (t, a, st)"
    and "\<And>r. r \<in> set (t_inv_observations s) \<Longrightarrow> beyond_obs (obs_query inp t a st) r \<longleftrightarrow> P (obs_order r)"
  shows "obs_list_page env inp c s = (Inr (cut_page (obs_page_size inp) (\<lambda>x. encodeObsCursor (oli_LastSeenAt x) (oli_AgentID x) (oli_StoreLocation x))
    (take (Suc (obs_page_size inp)) (filter (\<lambda>x. P (oli_order x)) (obs_rows inp s)))), stepped (stepped s))"
proof -
  let ?q = "obs_query inp t a st" and ?rows = "take (Suc (obs_page_size inp)) (filter (\<lambda>x. P (oli_order x)) (obs_rows inp s))"
  have same: "obs_rows inp (stepped s) = obs_rows inp s" by (simp add: obs_rows_def)
  have run: "ListObservationsPage env ?q (stepped s) = (Inr ?rows, stepped (stepped s))"
    using ListObservationsPage_run [of env "stepped s" inp t a st P] assms(1,5) unfolding same by simp
  obtain k where k: "find (\<lambda>c. crt_ID c = TrimSpace (loi_CertificateID inp) \<and> crt_OrganizationID c = TrimSpace (loi_OrganizationID inp)) (t_inv_certificates s) = Some k"
    using assms(3) by (cases "find (\<lambda>c. crt_ID c = TrimSpace (loi_CertificateID inp) \<and> crt_OrganizationID c = TrimSpace (loi_OrganizationID inp)) (t_inv_certificates s)")
      (auto simp: has_cert_def list_ex_iff find_None_set)
  have q: "olq_OrganizationID ?q = TrimSpace (loi_OrganizationID inp)" "olq_CertificateID ?q = TrimSpace (loi_CertificateID inp)" "nat (olq_Limit ?q - 1) = obs_page_size inp"
    by (simp_all add: obs_query_def)
  have g: "GetCertificate env (TrimSpace (loi_OrganizationID inp)) (TrimSpace (loi_CertificateID inp)) s = (Inr k, stepped s)"
    unfolding GetCertificate_run [OF assms(1)] k by simp
  show ?thesis
    unfolding obs_list_page_def ListCertificateObservations_def observations_query_eq [OF assms(2,4)] bindE_assoc bindE_lift(1) q
      bindE_step_Inr [where m = "GetCertificate env (TrimSpace (loi_OrganizationID inp)) (TrimSpace (loi_CertificateID inp))" and s = s, OF g]
      bindE_step_Inr [where m = "ListObservationsPage env (obs_query inp t a st)" and s = "stepped s", OF run] Let_def cut_page_def
    by (cases "obs_page_size inp < length ?rows") (simp_all only: if_True if_False, simp_all add: retE_def bindE_def)
qed

interpretation ol: listing "obs_list_page env inp" "obs_rows inp" oli_order "\<lambda>x. encodeObsCursor (oli_LastSeenAt x) (oli_AgentID x) (oli_StoreLocation x)"
  "\<lambda>s. no_faults env \<and> obs_input inp \<and> inv_ok s \<and> has_cert inp s \<and> obs_listable s" "\<lambda>s. stepped (stepped s)" "obs_page_size inp" for env inp
proof (unfold_locales, goal_cases)
  case (1 s)
  then show ?case by (auto simp: obs_input_def obs_page_size_def)
next
  case (2 s)
  then show ?case by (simp add: obs_rows_def sorted_wrt_map obs_order_sorted)
next
  case (3 s r)
  then show ?case using obs_cursor_back(2) by (auto simp: obs_rows_def obs_listable_def list_all_iff)
next
  case (4 s)
  then show ?case using obs_list_page_eq [of env inp s "[]" zeroTime "[]" "[]" "\<lambda>_. True"] by (simp add: decodeObsCursor_def beyond_obs_def obs_query_def)
next
  case (5 s r)
  then obtain x where x: "r = observation_item s x" "x \<in> set (t_inv_observations s)" by (auto simp: obs_rows_def)
  with 5 have l: "printable_time (obs_LastSeenAt x)" "obs_LastSeenAt x \<noteq> zeroTime" "obs_AgentID x \<noteq> []" "CHR ''|'' \<notin> set (obs_AgentID x)" "obs_StoreLocation x \<noteq> []"
    by (auto simp: obs_listable_def list_all_iff)
  show ?case unfolding x(1) item_simps
    using 5 l(2) by (intro obs_list_page_eq [OF _ _ _ obs_cursor_back(1) [OF l(1,3-5)]]) (auto simp: beyond_obs_def obs_query_def obs_order_def)
next
  case (6 s)
  then show ?case by (simp add: obs_listable_def obs_rows_def has_cert_def)
qed

text \<open>
  The list of a certificate's observations neither skips nor repeats. On tables that do not change meanwhile, a client that follows the cursors gets every
  sighting of the certificate, or every current one, exactly once with the host name of the agent's report, last seen first, then by agent and by
  store, whatever bytes the stores' names hold, and then stops.
\<close>

theorem observations_cover:
  assumes "no_faults env" and "obs_input inp" and "inv_ok s" and "has_cert inp s" and "obs_listable s" and "length (t_inv_observations s) < n"
  shows "\<exists>s'. follow n (obs_list_page env inp) [] s = (Inr (map (observation_item s) (sort_key obs_order (filter (obs_selects inp) (t_inv_observations s)))), s')"
proof -
  have "length (obs_rows inp s) < n" using assms(6) by (simp add: obs_rows_def le_less_trans [OF length_filter_le])
  from ol.follow_all [OF conjI [OF assms(1) conjI [OF assms(2) conjI [OF assms(3) conjI [OF assms(4,5)]]]] this] show ?thesis unfolding obs_rows_def .
qed

section \<open>Witnesses\<close>

definition demo_cert_row :: "string \<Rightarrow> string \<Rightarrow> Time \<Rightarrow> Certificate" where
  "demo_cert_row i subject at = \<lparr>crt_ID = i, crt_OrganizationID = ''o'', crt_FingerprintSHA256 = i, crt_Subject = subject, crt_Issuer = [], crt_SerialNumberHex = [],
     crt_SignatureAlg = [], crt_PublicKeyAlg = [], crt_PublicKeyBits = 0, crt_NotBefore = 0, crt_NotAfter = 9, crt_SANs = [], crt_KeyUsages = [], crt_ExtKeyUsages = [],
     crt_IsSelfSigned = False, crt_IsCA = False, crt_PEM = [], crt_FirstSeenAt = at, crt_LastSeenAt = at\<rparr>"

definition demo_obs :: "string \<Rightarrow> string \<Rightarrow> string \<Rightarrow> Time \<Rightarrow> CertificateObservation" where
  "demo_obs i certID st at = \<lparr>obs_ID = i, obs_OrganizationID = ''o'', obs_CertificateID = certID, obs_AgentID = ''a'', obs_StoreLocation = st, obs_FriendlyName = [],
     obs_FirstSeenAt = at, obs_LastSeenAt = at, obs_RemovedAt = None\<rparr>"

definition demo_reads :: inv_db where
  "demo_reads = demo_inv\<lparr>t_inv_certificates := [demo_cert_row ''c1'' ''CN=a%b'' 7, demo_cert_row ''c2'' ''CN=axb'' 7, demo_cert_row ''c3'' ''CN=A%B'' 8],
     t_inv_observations := [demo_obs ''o1'' ''c1'' ''S|1'' 7, demo_obs ''o2'' ''c1'' ''T'' 7, demo_obs ''o3'' ''c3'' ''S|1'' 8]\<rparr>"

lemma demo_reads_ok: "inv_ok demo_reads"
  by (simp add: inv_ok_def demo_reads_def demo_cert_row_def demo_obs_def cert_key_def obs_key_def sane_obs_def within_def)

lemma demo_times: "printable_time 7" "printable_time 8" "(7::Time) \<noteq> zeroTime" "(8::Time) \<noteq> zeroTime"
  by code_simp+

definition demo_search :: ListCertificatesInput where
  "demo_search = \<lparr>lci_OrganizationID = '' o'', lci_Search = ''A%b'', lci_ExpiringBefore = Some 10, lci_IsCA = None, lci_AgentID = ''a'', lci_CurrentOnly = True,
     lci_Limit = 1, lci_Cursor = []\<rparr>"

theorem certificates_cover_witness:
  "map_sum id (map cs_ID) (fst (follow 4 (cert_list_page demo_env (\<lambda>_. []) demo_search) [] demo_reads)) = Inr [''c3'', ''c1'']"
proof -
  have 1: "cert_input demo_search" by code_simp
  have 2: "certs_listable demo_reads" using demo_times by (simp add: certs_listable_def demo_reads_def demo_cert_row_def)
  have 3: "length (t_inv_certificates demo_reads) < 4" by (simp add: demo_reads_def)
  obtain s' where run: "follow 4 (cert_list_page demo_env (\<lambda>_. []) demo_search) [] demo_reads =
      (Inr (map (certificate_summary demo_reads) (sort_key cert_order (filter (selects (\<lambda>_. []) demo_search demo_reads) (t_inv_certificates demo_reads)))), s')"
    using certificates_cover [OF demo_env_ok 1 demo_reads_ok 2 3] by blast
  have "map cs_ID (map (certificate_summary demo_reads) (sort_key cert_order (filter (selects (\<lambda>_. []) demo_search demo_reads) (t_inv_certificates demo_reads)))) = [''c3'', ''c1'']"
    by code_simp
  then show ?thesis unfolding run by simp
qed

theorem detail_agrees_witness:
  "\<exists>d s'. GetCertificateDetail demo_env ''o'' ''c1'' demo_reads = (Inr d, s') \<and> crt_ID (cd_Certificate d) = ''c1''"
proof -
  have ne: "TrimSpace ''o'' \<noteq> []" "TrimSpace ''c1'' \<noteq> []" by code_simp+
  have "\<exists>c \<in> set (t_inv_certificates demo_reads). crt_ID c = ''c1'' \<and> crt_OrganizationID c = ''o''" by (simp add: demo_reads_def demo_cert_row_def)
  with detail_agrees [OF demo_env_ok demo_reads_ok ne] show ?thesis by auto
qed

theorem agent_list_guarded_witness:
  "fst (ListAgentCertificates demo_env (\<lambda>_. []) (demo_search\<lparr>lci_AgentID := ''z''\<rparr>) demo_reads) = Inl ErrAgentNotFound"
proof -
  have "TrimSpace (lci_AgentID (demo_search\<lparr>lci_AgentID := ''z''\<rparr>)) \<noteq> []" "\<not> isl (certificates_query (demo_search\<lparr>lci_AgentID := ''z''\<rparr>))"
    "\<not> list_ex (is_agent (TrimSpace (lci_AgentID (demo_search\<lparr>lci_AgentID := ''z''\<rparr>))) (TrimSpace (lci_OrganizationID (demo_search\<lparr>lci_AgentID := ''z''\<rparr>)))) (t_agents demo_reads)"
    by code_simp+
  then show ?thesis unfolding agent_list_guarded [OF demo_env_ok] by simp
qed

definition demo_obs_input :: ListObservationsInput where
  "demo_obs_input = \<lparr>loi_OrganizationID = ''o'', loi_CertificateID = ''c1'', loi_CurrentOnly = True, loi_Limit = 1, loi_Cursor = []\<rparr>"

theorem observations_cover_witness:
  "map_sum id (map oli_ID) (fst (follow 4 (obs_list_page demo_env demo_obs_input) [] demo_reads)) = Inr [''o1'', ''o2'']"
proof -
  have 1: "obs_input demo_obs_input" "has_cert demo_obs_input demo_reads" by code_simp+
  have 2: "obs_listable demo_reads" using demo_times by (simp add: obs_listable_def demo_reads_def demo_obs_def)
  have 3: "length (t_inv_observations demo_reads) < 4" by (simp add: demo_reads_def)
  obtain s' where run: "follow 4 (obs_list_page demo_env demo_obs_input) [] demo_reads =
      (Inr (map (observation_item demo_reads) (sort_key obs_order (filter (obs_selects demo_obs_input) (t_inv_observations demo_reads)))), s')"
    using observations_cover [OF demo_env_ok 1(1) demo_reads_ok 1(2) 2 3] by blast
  have "map oli_ID (map (observation_item demo_reads) (sort_key obs_order (filter (obs_selects demo_obs_input) (t_inv_observations demo_reads)))) = [''o1'', ''o2'']"
    by code_simp
  then show ?thesis unfolding run by simp
qed

end
