(* ===== verification/Spec2Isabelle.thy ===== *)
theory Spec2Isabelle imports Maintenance FindingTotal FindingList FindingSweep HttpOps AgentInventoryOps InventoryListOps begin

text \<open>
  Anchorix: governance, findings, enrollment, authentication and certificate ingestion.

  Anchorix keeps an inventory of certificates, decides by operator-written rules and pins which
  service owns each of them, and keeps findings on the certificates that break a rule. This library
  models that code, under \<open>src/backend/internal\<close>, and proves that it does what it means to do.

  \<^bold>\<open>The parts and how they interact.\<close> Operators edit ownership rules (\<open>rule_mutations.go\<close>) and pin
  certificates by overrides (\<open>override_mutations.go\<close>). The engine (\<open>engine.go\<close>, \<open>precedence.go\<close>,
  \<open>decision.go\<close>) compiles the enabled rules into a walk order and decides one certificate from its
  signals. An override re-derives its certificate synchronously (\<open>rederive.go\<close>); the recompute
  (\<open>recompute.go\<close>, \<open>service.go\<close>) streams all certificates of an organization in pages, expires
  overrides on the way, writes rows and explanations, and audits transitions in groups. All
  of it runs on PostgreSQL repositories inside transactions guarded by per-organization locks.
  A maintenance runner (\<open>governance/maintenance\<close>) takes due jobs under a per-job lock and runs them in
  bounded pages: pruning old explanations and sweeping expired overrides. The findings service
  (\<open>findings/\<close>) evaluates six rules on every certificate and brings the stored findings in line with
  the matches, by a streaming diff or a load-all diff; operators acknowledge and suppress findings and
  list them by cursor; a scheduler recomputes every organization in turn. Agents enroll with the
  bootstrap secret of a deployment package (\<open>enrollment/\<close>), authenticate with the credential they get, and
  send heartbeats; operators create and revoke packages. Operators log in (\<open>auth/\<close>) and carry a signed cookie
  whose session slides. An agent uploads the certificates of its stores in batches (\<open>inventory/\<close>): the service refuses private-key
  material, reads each PEM block, and under the agent's lock records every certificate and sighting and marks the sightings
  the batch no longer confirms. Agents also report their host (\<open>agentinventory/\<close>); operators list all of it by cursor. The HTTP layer (\<open>httpapi/\<close>) guards the routes of operators, of administrators and
  of agents, and answers.

  \<^bold>\<open>The theories.\<close>
  \<^item> \<open>Prelude\<close>: the error values, state-passing programs (\<open>prog\<close>: a state to an error or a result,
    with the new state) and the rules for what a program leaves, keeps or cleans up when it fails.
  \<^item> \<open>GoText\<close>: the string, time and JSON operations of the Go standard library that the code uses;
    \<open>int64\<close> arithmetic with its wrap-around.
  \<^item> \<open>Env\<close>: clock, identifiers, transactions, advisory locks and the audit recorder. Which database
    calls fail, the clock, the random identifiers and the regular-expression engine are the fields of
    the parameter \<open>env\<close>. The locale \<open>transactor\<close> is the contract of the transaction helpers
    (all or nothing); each helper interprets it.
  \<^item> \<open>Tables\<close>: rows as lists, updates, upserts, keyset paging. The locale \<open>keyset\<close> is the contract
    of a paged query; under it the page loop visits every row once, and a fuel of the number of rows
    plus one is enough. The signals query and the active-override query interpret it.
  \<^item> \<open>GovTypes\<close>: the types of \<open>governance/types.go\<close> and the tables.
  \<^item> \<open>Engine\<close>: compilation, matching and the decision, with the theorems about who wins.
  \<^item> \<open>OwnershipStore\<close>, \<open>SignalStore\<close>: one definition per repository method, the well-formedness
    \<open>gov_wf\<close> of the tables (their unique keys) and its preservation by every write.
  \<^item> \<open>RuleMutations\<close>: the rule API; every table it can reach compiles.
  \<^item> \<open>Rederive\<close>: overrides and the synchronous path, against the row machine \<open>next_row\<close>.
  \<^item> \<open>Recompute\<close>: the streaming pass refines the same row machine for each certificate; its counters,
    run row, result and audit log agree.
  \<^item> \<open>Retention\<close>: the pure retention rule, the bounded SQL selection that implements it, and a prune page.
  \<^item> \<open>Sweep\<close>: a page of the sweep of expired overrides.
  \<^item> \<open>SchedulerStore\<close>, \<open>Maintenance\<close>: the job table, the runner (claim, page loop, terminal mark, backoff
    on \<open>int64\<close>, lock release on every path) and the two jobs; a due prune job runs to completion.
  \<^item> \<open>GoTime\<close>, \<open>Base64\<close>: RFC 3339 printing and parsing on the proleptic calendar, durations, and the
    unpadded URL alphabet, with their round trips.
  \<^item> \<open>FindingRules\<close>, \<open>FindingStore\<close>, \<open>FindingDiff\<close>: the rules with their evidence, the repository, the
    row state machine and both diff algorithms; the iteration order of a Go map is a parameter \<open>ord\<close>
    that permutes its keys.
  \<^item> \<open>FindingPass\<close>, \<open>FindingRecompute\<close>, \<open>FindingLoadAll\<close>, \<open>FindingTotal\<close>: each algorithm reaches the state
    \<open>diff_settled\<close> describes, so that the two agree; on a working database the streaming one returns.
  \<^item> \<open>FindingService\<close>, \<open>FindingOps\<close>: recomputes with their audit row, overrides, the invariant \<open>find_ok\<close>
    over every history of operations, atomicity on every error path.
  \<^item> \<open>FindingList\<close>, \<open>FindingSweep\<close>: cursors, the pages of a listing, one sweep of the scheduler.

  \<^item> \<open>AuthStore\<close>, \<open>Auth\<close>: accounts, sessions and organizations, the two repositories, and the service; bcrypt,
    HMAC and PostgreSQL's \<open>inet\<close> are the parameter \<open>crypto\<close>. \<open>AuthHistory\<close>: the step relation \<open>auth_step\<close>, in
    which an authentication reads its session and goes on later, and the invariant \<open>auth_ok\<close>. \<open>AuthOps\<close>: what a
    login and an authentication decide, the lifetime of a session, logout, cookies.
  \<^item> \<open>Http\<close>, \<open>HttpOps\<close>: the guards and the handlers of login, agents and deployment packages over the tables
    of authentication and enrollment together (\<open>enroll_db\<close> extends \<open>auth_db\<close>); a handler always answers.
  \<^item> \<open>InventoryStore\<close>, \<open>Inventory\<close>: the certificate and observation tables (\<open>inv_db\<close> extends \<open>enroll_db\<close>) with the statements of
    \<open>certificate_inventory_repository.go\<close>; \<open>parse.go\<close> and \<open>Service.Submit\<close>. The PEM and X.509 decoders and SHA-256 are the
    parameter \<open>x509_lib\<close>; \<open>WithTxLockedAgent\<close> interprets \<open>transactor\<close>.
  \<^item> \<open>Reconcile\<close>, \<open>InventoryOps\<close>, \<open>Ingestion\<close>, \<open>CertParse\<close>: the invariant \<open>inv_ok\<close> of the tables and their abstraction, \<open>spans\<close> (a
    certificate's first and last instant by organization and fingerprint) and \<open>sightings\<close> (by certificate, agent and store); the
    reference functions \<open>spans_after\<close> and \<open>sightings_after\<close> that \<open>Submit\<close> refines; what is refused, repeated, reordered
    or late; the private-key scan and the key usages.
  \<^item> \<open>AgentInventory\<close>, \<open>AgentInventoryOps\<close>: the machine reports of agents (\<open>agentinventory/\<close>): caps, upsert, read and list.
  \<^item> \<open>Listing\<close>: the locale \<open>listing\<close>, the contract of a service that lists by cursor (a page is the next rows after the cursor's row), and what it
    gives: following the cursors visits every row once and ends. The lists of findings, machine reports, certificates and observations interpret it.
  \<^item> \<open>InventoryList\<close>, \<open>InventoryListOps\<close>: the operator's reads of certificates and observations, with filters and the escaped search.
  \<^item> \<open>EnrollStore\<close>, \<open>Enrollment\<close>: packages and agents with the unique indexes of the schema, the two
    repositories, and the service. SHA-256 is the parameter \<open>sha\<close>, the random source an argument.
  \<^item> \<open>EnrollBooks\<close>, \<open>EnrollRace\<close>, \<open>EnrollOps\<close>: the invariant \<open>enroll_ok\<close> of the tables; the step relation
    \<open>race\<close>, in which requests interleave between their early check and their transaction; what an
    enrollment, an authentication and a revocation decide.

  \<^bold>\<open>Bounds.\<close> The page loops carry a fuel of the number of rows plus one; \<open>keyset.loop_total_update\<close> shows
  that it is enough, and the theorems that a run returns are stated without fuel. Times are integers
  (nanoseconds); durations are saturated or wrapped at 64 bits as the Go operation does.

  \<^bold>\<open>Not modelled.\<close> Concurrency beyond the locks: a transaction runs alone, as its lock makes it.
  The HTTP handlers of the other services, configuration
  and the identity catalogue are left out; where they write a table, it is an input here.
  Text functions of the Go library are given on ASCII bytes. The regular-expression engine is a
  parameter for the patterns operators write (\<open>compileRegex\<close>). The expression a glob is turned into is built character by character as
  \<open>compileGlob\<close> does; reading and matching such a text (\<open>re_tokens\<close>, \<open>glob_match\<close>) follows the documented syntax of Go's regexp package
  for the constructs it can contain: the prefix for ignoring case, the two anchors, escaped and plain characters, the dot and the starred dot.
\<close>

end
